(* ===== verification/Prelude.thy ===== *)
theory Prelude
  imports Main "HOL-Library.Word" "HOL-Library.Multiset"
begin

text \<open>
  Shared vocabulary of the development: the exceptions the code throws as values of one
  error datatype, the result type of every fallible operation, its sequencing operator
  with the case-split and inversion lemmas the component proofs rest on, and generic
  lemmas on lists and row-major matrices.
\<close>

section \<open>Exceptions and results\<close>

text \<open>\<open>SearchStopReason\<close> of include/fast_vector/search_context.h.\<close>

datatype search_stop_reason = NoReason | Cancelled | DeadlineExceeded | Shutdown

text \<open>
  One constructor per exception class the code throws; the standard classes carry
  \<open>what()\<close>. \<open>Undefined_behaviour\<close> is no exception of the code: it is the value the
  model gives to an out-of-range access or conversion, so that its absence can be proved.
\<close>

datatype cpp_error =
    Invalid_argument string
  | Length_error string
  | Runtime_error string
  | Logic_error string
  | Out_of_range string
  | Bad_alloc
  | Search_interrupted search_stop_reason
  | Search_rejected bool
  | Snapshot_mismatch
  | Read_only_store
  | Publication_busy
  | Publication_disabled
  | Undefined_behaviour

type_synonym 'a result = "cpp_error + 'a"

type_synonym vector_id = "64 word"
type_synonym u64 = "64 word"
type_synonym u32 = "32 word"
type_synonym u8 = "8 word"

text \<open>Sequencing: the first exception ends the computation.\<close>

definition and_then :: "'a result \<Rightarrow> ('a \<Rightarrow> 'b result) \<Rightarrow> 'b result" where
  "and_then m f = (case m of Inl e \<Rightarrow> Inl e | Inr x \<Rightarrow> f x)"

definition guard_that :: "bool \<Rightarrow> cpp_error \<Rightarrow> unit result" where
  "guard_that b e = (if b then Inr () else Inl e)"

named_theorems result_simps \<open>rewriting of sequenced computations\<close>

lemma and_then_Inl [simp, result_simps]: "and_then (Inl e) f = Inl e"
  by (simp add: and_then_def)

lemma and_then_Inr [simp, result_simps]: "and_then (Inr x) f = f x"
  by (simp add: and_then_def)

lemma and_then_eq_Inr [result_simps]:
  "and_then m f = Inr y \<longleftrightarrow> (\<exists>x. m = Inr x \<and> f x = Inr y)"
  by (cases m) auto

lemma and_then_eq_Inl [result_simps]:
  "and_then m f = Inl e \<longleftrightarrow> m = Inl e \<or> (\<exists>x. m = Inr x \<and> f x = Inl e)"
  by (cases m) auto

lemma and_then_assoc: "and_then (and_then m f) g = and_then m (\<lambda>x. and_then (f x) g)"
  by (cases m) auto

lemma and_then_cong [fundef_cong]:
  "m = m' \<Longrightarrow> (\<And>x. m' = Inr x \<Longrightarrow> f x = g x) \<Longrightarrow> and_then m f = and_then m' g"
  by (cases m') auto

lemma guard_that_Inr [simp, result_simps]: "guard_that b e = Inr u \<longleftrightarrow> b"
  by (simp add: guard_that_def)

lemma guard_that_Inl [simp, result_simps]: "guard_that b e = Inl e' \<longleftrightarrow> \<not> b \<and> e = e'"
  by (auto simp: guard_that_def)

lemma guard_that_True [simp]: "guard_that True e = Inr ()"
  by (simp add: guard_that_def)

lemma guard_that_False [simp]: "guard_that False e = Inl e"
  by (simp add: guard_that_def)

text \<open>A reading of an array: undefined behaviour when the index is out of range.\<close>

definition read_at :: "'a list \<Rightarrow> nat \<Rightarrow> 'a result" where
  "read_at xs i = (if i < length xs then Inr (xs ! i) else Inl Undefined_behaviour)"

lemma read_at_in [simp]: "i < length xs \<Longrightarrow> read_at xs i = Inr (xs ! i)"
  by (simp add: read_at_def)

lemma read_at_eq_Inr [result_simps]: "read_at xs i = Inr x \<longleftrightarrow> i < length xs \<and> x = xs ! i"
  by (auto simp: read_at_def)

lemma read_at_eq_Inl [result_simps]:
  "read_at xs i = Inl e \<longleftrightarrow> \<not> i < length xs \<and> e = Undefined_behaviour"
  by (auto simp: read_at_def)

section \<open>Machine words\<close>

lemma unat_u64: "unat (x :: u64) < 2 ^ 64"
  using unsigned_less [of x, where 'a = nat] by simp

lemma unat_of_nat_u64: "n < 2 ^ 64 \<Longrightarrow> unat (of_nat n :: u64) = n"
  by (simp add: unsigned_of_nat take_bit_nat_eq_self)

section \<open>Row-major matrices\<close>

text \<open>Row \<open>i\<close> of a matrix of \<open>d\<close> columns stored row after row in one array.\<close>

definition row_of :: "nat \<Rightarrow> 'a list \<Rightarrow> nat \<Rightarrow> 'a list" where
  "row_of d xs i = take d (drop (i * d) xs)"

definition write_row :: "nat \<Rightarrow> 'a list \<Rightarrow> nat \<Rightarrow> 'a list \<Rightarrow> 'a list" where
  "write_row d xs i r = take (i * d) xs @ r @ drop (i * d + d) xs"

lemma row_fits: "i < n \<Longrightarrow> i * d + d \<le> n * (d::nat)"
  by (metis Suc_leI add.commute mult_Suc mult_le_mono1)

lemma length_row_of [simp]:
  "length xs = n * d \<Longrightarrow> i < n \<Longrightarrow> length (row_of d xs i) = d"
  using row_fits [of i n d] by (simp add: row_of_def)

lemma row_of_append_left [simp]:
  "length xs = n * d \<Longrightarrow> i < n \<Longrightarrow> row_of d (xs @ ys) i = row_of d xs i"
  using row_fits [of i n d] by (simp add: row_of_def)

lemma row_of_append_last [simp]:
  "length xs = n * d \<Longrightarrow> length r = d \<Longrightarrow> row_of d (xs @ r) n = r"
  by (simp add: row_of_def)

lemma row_of_append_last' [simp]:
  "length xs = n * d \<Longrightarrow> length r = d \<Longrightarrow> row_of d (xs @ r @ ys) n = r"
  by (simp add: row_of_def)

lemma length_write_row [simp]:
  "length xs = n * d \<Longrightarrow> i < n \<Longrightarrow> length r = d \<Longrightarrow> length (write_row d xs i r) = n * d"
  using row_fits [of i n d] by (simp add: write_row_def)

lemma drop_past: "length as \<le> k \<Longrightarrow> drop k (as @ bs) = drop (k - length as) bs"
  by simp

lemma row_of_write_row:
  assumes "length xs = n * d" "i < n" "j < n" "length r = d"
  shows "row_of d (write_row d xs i r) j = (if j = i then r else row_of d xs j)"
proof -
  note fits = row_fits [OF assms(2), of d] row_fits [OF assms(3), of d]
  consider "j < i" | "j = i" | "i < j" by linarith
  then show ?thesis
  proof cases
    case 1
    then have "j * d + d \<le> i * d" by (rule row_fits)
    then have "d \<le> i * d - j * d" "i * d - j * d \<le> n * d - j * d"
      using fits by linarith+
    then show ?thesis using assms 1 fits
      by (simp add: row_of_def write_row_def drop_take)
  next
    case 2
    then show ?thesis using assms fits by (simp add: row_of_def write_row_def min_def)
  next
    case 3
    then have *: "i * d + d \<le> j * d" by (rule row_fits)
    let ?k = "j * d - (i * d + d)"
    have "length (take (i * d) xs @ r) = i * d + d" using assms fits by simp
    with * have "drop (j * d) ((take (i * d) xs @ r) @ drop (i * d + d) xs)
        = drop ?k (drop (i * d + d) xs)"
      by (simp only: drop_past)
    also have "\<dots> = drop (j * d) xs"
      using * by (simp only: drop_drop le_add_diff_inverse2)
    finally show ?thesis using 3 by (simp add: row_of_def write_row_def)
  qed
qed

lemma row_of_take:
  assumes "length xs = n * d" "i < m" "m \<le> n"
  shows "row_of d (take (m * d) xs) i = row_of d xs i"
  using row_fits [OF assms(2), of d] by (simp add: row_of_def drop_take min_def)

lemma set_row_of: "set (row_of d xs i) \<subseteq> set xs"
  unfolding row_of_def by (meson set_drop_subset set_take_subset subset_trans)

end
