(* ===== verification/Ranking.thy ===== *)
theory Ranking
  imports Prelude
begin

text \<open>
  Ranked search results: \<open>std::priority_queue\<close>, \<open>std::sort\<close> and the bounded Top-K loop
  both indexes run. A comparator of the code is a strict order that is total on
  candidates with different keys (external IDs, node numbers) as long as no score is a
  NaN; the locale \<open>ranking\<close> states that contract, and the facts about queues, sorting
  and the bounded loop are proved once inside it. Under the contract the order of a list
  with distinct keys is unique, so the container's internal layout cannot be observed.
\<close>

section \<open>std::priority_queue and std::sort\<close>

text \<open>
  A queue is the list of its elements in the order in which \<open>top\<close> and \<open>pop\<close> deliver
  them: the head is an element that the comparator \<open>lt\<close> (the queue's template
  argument) puts below no other.
\<close>

type_synonym 'a pqueue = "'a list"

fun pq_push :: "('a \<Rightarrow> 'a \<Rightarrow> bool) \<Rightarrow> 'a \<Rightarrow> 'a pqueue \<Rightarrow> 'a pqueue" where
  "pq_push lt x [] = [x]"
| "pq_push lt x (y # q) = (if lt x y then y # pq_push lt x q else x # y # q)"

definition pq_top :: "'a pqueue \<Rightarrow> 'a" where
  "pq_top q = hd q"

definition pq_pop :: "'a pqueue \<Rightarrow> 'a pqueue" where
  "pq_pop q = tl q"

text \<open>\<open>std::sort(first, last, before)\<close>.\<close>

fun insert_by :: "('a \<Rightarrow> 'a \<Rightarrow> bool) \<Rightarrow> 'a \<Rightarrow> 'a list \<Rightarrow> 'a list" where
  "insert_by before x [] = [x]"
| "insert_by before x (y # ys) = (if before x y then x # y # ys else y # insert_by before x ys)"

definition sort_by :: "('a \<Rightarrow> 'a \<Rightarrow> bool) \<Rightarrow> 'a list \<Rightarrow> 'a list" where
  "sort_by before xs = foldr (insert_by before) xs []"

lemma mset_pq_push [simp]: "mset (pq_push lt x q) = add_mset x (mset q)"
  by (induction q) auto

lemma set_pq_push [simp]: "set (pq_push lt x q) = insert x (set q)"
  by (induction q) auto

lemma length_pq_push [simp]: "length (pq_push lt x q) = Suc (length q)"
  by (induction q) auto

lemma pq_push_not_Nil [simp]: "pq_push lt x q \<noteq> []"
  by (cases q) auto

lemma mset_insert_by [simp]: "mset (insert_by before x ys) = add_mset x (mset ys)"
  by (induction ys) auto

lemma set_insert_by [simp]: "set (insert_by before x ys) = insert x (set ys)"
  by (induction ys) auto

lemma length_insert_by [simp]: "length (insert_by before x ys) = Suc (length ys)"
  by (induction ys) auto

lemma sort_by_simps [simp]:
  "sort_by before [] = []"
  "sort_by before (x # xs) = insert_by before x (sort_by before xs)"
  by (simp_all add: sort_by_def)

lemma mset_sort_by [simp]: "mset (sort_by before xs) = mset xs"
  by (induction xs) auto

lemma set_sort_by [simp]: "set (sort_by before xs) = set xs"
  by (metis mset_sort_by set_mset_mset)

lemma length_sort_by [simp]: "length (sort_by before xs) = length xs"
  by (metis mset_sort_by size_mset)

section \<open>The bounded Top-K step\<close>

text \<open>
  The step of \<open>FlatIndex::search\<close>: fill the queue up to \<open>n\<close>, then replace its worst
  element by a better candidate.
\<close>

definition keep_best :: "('a \<Rightarrow> 'a \<Rightarrow> bool) \<Rightarrow> nat \<Rightarrow> 'a \<Rightarrow> 'a pqueue \<Rightarrow> 'a pqueue" where
  "keep_best better n x q =
     (if length q < n then pq_push better x q
      else if better x (pq_top q) then pq_push better x (pq_pop q) else q)"

text \<open>The step of \<open>HnswIndex::search_layer\<close>: push, then drop the worst beyond \<open>n\<close>.\<close>

definition push_bounded :: "('a \<Rightarrow> 'a \<Rightarrow> bool) \<Rightarrow> nat \<Rightarrow> 'a \<Rightarrow> 'a pqueue \<Rightarrow> 'a pqueue" where
  "push_bounded better n x q =
     (let q' = pq_push better x q in if n < length q' then pq_pop q' else q')"

section \<open>The contract of a comparator\<close>

locale ranking =
  fixes better :: "'a \<Rightarrow> 'a \<Rightarrow> bool"
    and valid :: "'a \<Rightarrow> bool"
    and key :: "'a \<Rightarrow> 'k"
  assumes irrefl: "\<not> better x x"
    and trans: "better x y \<Longrightarrow> better y z \<Longrightarrow> better x z"
    and total: "valid x \<Longrightarrow> valid y \<Longrightarrow> key x \<noteq> key y \<Longrightarrow> better x y \<or> better y x"
begin

lemma asym: "better x y \<Longrightarrow> \<not> better y x"
  using irrefl trans by blast

text \<open>Valid candidates with distinct keys.\<close>

definition rankable :: "'a list \<Rightarrow> bool" where
  "rankable xs \<longleftrightarrow> distinct (map key xs) \<and> (\<forall>x\<in>set xs. valid x)"

lemma rankable_mset: "mset xs = mset ys \<Longrightarrow> rankable xs \<longleftrightarrow> rankable ys"
  unfolding rankable_def
  by (metis mset_eq_imp_distinct_iff mset_map set_mset_mset)

lemma rankable_Cons:
  "rankable (x # xs) \<longleftrightarrow> valid x \<and> key x \<notin> key ` set xs \<and> rankable xs"
  by (auto simp: rankable_def)

lemma rankable_append:
  "rankable (xs @ ys) \<longleftrightarrow> rankable xs \<and> rankable ys \<and> key ` set xs \<inter> key ` set ys = {}"
  by (auto simp: rankable_def)

lemma rankable_filter: "rankable xs \<Longrightarrow> rankable (filter P xs)"
  by (induction xs) (auto simp: rankable_Cons)

lemma rankable_rev [simp]: "rankable (rev xs) \<longleftrightarrow> rankable xs"
  by (rule rankable_mset) simp

lemma rankable_sort_by [simp]: "rankable (sort_by b xs) \<longleftrightarrow> rankable xs"
  by (rule rankable_mset) simp

abbreviation ranked :: "'a list \<Rightarrow> bool" where
  "ranked \<equiv> sorted_wrt better"

lemma total_on_rankable:
  assumes "rankable xs" "x \<in> set xs" "y \<in> set xs" "x \<noteq> y"
  shows "better x y \<or> better y x"
proof -
  have "key x \<noteq> key y"
    using assms by (auto simp: rankable_def distinct_map inj_on_def)
  with assms total [of x y] show ?thesis by (auto simp: rankable_def)
qed

lemma ranked_insert_by:
  "ranked ys \<Longrightarrow> rankable (x # ys) \<Longrightarrow> ranked (insert_by better x ys)"
proof (induction ys)
  case (Cons y ys)
  show ?case
  proof (cases "better x y")
    case True
    with Cons.prems show ?thesis by (auto intro: trans)
  next
    case False
    with Cons.prems total [of x y] have "better y x" by (auto simp: rankable_Cons)
    with Cons False show ?thesis by (auto simp: rankable_Cons)
  qed
qed simp

theorem ranked_sort_by: "rankable xs \<Longrightarrow> ranked (sort_by better xs)"
proof (induction xs)
  case (Cons x xs)
  then have "rankable (x # sort_by better xs)" by (simp add: rankable_Cons)
  with Cons show ?case by (auto simp: rankable_Cons intro: ranked_insert_by)
qed simp

text \<open>A ranked list is the only ranked arrangement of its elements.\<close>

lemma ranked_unique: "ranked xs \<Longrightarrow> ranked ys \<Longrightarrow> mset xs = mset ys \<Longrightarrow> xs = ys"
proof (induction xs arbitrary: ys)
  case (Cons x xs)
  then obtain y ys' where ys: "ys = y # ys'" by (cases ys) auto
  have "x = y"
  proof (rule ccontr)
    assume "x \<noteq> y"
    moreover have "y \<in> set (x # xs)" "x \<in> set ys"
      using Cons.prems ys by (metis list.set_intros(1) mset_eq_setD)+
    ultimately have "better x y" "better y x" using Cons.prems ys by auto
    then show False using asym by blast
  qed
  with Cons ys show ?case by simp
qed simp

lemma sort_by_eqI: "ranked ys \<Longrightarrow> mset ys = mset xs \<Longrightarrow> rankable xs \<Longrightarrow> sort_by better xs = ys"
  by (metis mset_sort_by ranked_sort_by ranked_unique)

lemma sort_by_ranked [simp]: "ranked xs \<Longrightarrow> rankable xs \<Longrightarrow> sort_by better xs = xs"
  by (rule sort_by_eqI) auto

lemma sort_by_mset_cong:
  "mset xs = mset ys \<Longrightarrow> rankable xs \<Longrightarrow> sort_by better xs = sort_by better ys"
  by (metis mset_sort_by rankable_mset ranked_sort_by sort_by_eqI)

lemma ranked_distinct: "ranked xs \<Longrightarrow> distinct xs"
  by (induction xs) (auto simp: irrefl)

subsection \<open>Queues whose top is the worst element\<close>

text \<open>Such a queue, read backwards, is ranked.\<close>

lemma pq_push_worst_first:
  assumes "ranked (rev q)" "rankable (x # q)"
  shows "rev (pq_push better x q) = insert_by better x (rev q)"
proof -
  have "sorted_wrt (\<lambda>a b. better b a) q \<Longrightarrow> rankable (x # q)
    \<Longrightarrow> sorted_wrt (\<lambda>a b. better b a) (pq_push better x q)"
  proof (induction q)
    case (Cons y q)
    show ?case
    proof (cases "better x y")
      case True
      with Cons show ?thesis by (auto simp: rankable_Cons)
    next
      case False
      with Cons.prems total [of x y] have "better y x" by (auto simp: rankable_Cons)
      with Cons False show ?thesis by (auto intro: trans)
    qed
  qed simp
  with assms have "ranked (rev (pq_push better x q))" by (simp add: sorted_wrt_rev)
  moreover have "ranked (insert_by better x (rev q))"
    using assms by (intro ranked_insert_by) (auto simp: rankable_Cons)
  ultimately show ?thesis by (rule ranked_unique) simp
qed

text \<open>Queues whose top is the best element are ranked themselves.\<close>

lemma pq_push_best_first:
  assumes "ranked q" "rankable (x # q)"
  shows "pq_push (\<lambda>a b. better b a) x q = insert_by better x q"
  using assms
proof (induction q)
  case (Cons y q)
  then have "better y x \<longleftrightarrow> \<not> better x y"
    using total [of x y] asym by (auto simp: rankable_Cons)
  with Cons show ?case by (auto simp: rankable_Cons)
qed simp

subsection \<open>The bounded loop keeps the best candidates\<close>

lemma take_insert_by:
  assumes "ranked s" "rankable (x # s)" "n \<le> length s" "0 < n"
  shows "take n (insert_by better x s) =
    (if better x (s ! (n - 1)) then insert_by better x (take (n - 1) s) else take n s)"
  using assms
proof (induction s arbitrary: n)
  case (Cons y s)
  show ?case
  proof (cases "better x y")
    case True
    have "better x ((y # s) ! (n - 1))"
      using True Cons.prems by (cases "n - 1") (auto dest: trans)
    then show ?thesis using True Cons.prems by (cases n; cases "n - 1") auto
  next
    case False
    show ?thesis
    proof (cases "n = 1")
      case True
      with False show ?thesis by simp
    next
      case n: False
      then obtain m where m: "n = Suc m" "0 < m" using Cons.prems(4) by (cases n) auto
      have "take m (insert_by better x s) =
        (if better x (s ! (m - 1)) then insert_by better x (take (m - 1) s) else take m s)"
        using Cons.prems m by (intro Cons.IH) (auto simp: rankable_Cons)
      moreover obtain j where "m = Suc j" using m(2) by (cases m) auto
      ultimately show ?thesis using False m by (auto split: if_splits)
    qed
  qed
qed simp

theorem keep_best_step:
  assumes q: "rev q = take n (sort_by better xs)" and ok: "rankable (x # xs)" and "0 < n"
  shows "rev (keep_best better n x q) = take n (sort_by better (x # xs))"
proof -
  let ?s = "sort_by better xs"
  have s: "ranked ?s" "rankable (x # ?s)"
    using ok by (auto simp: rankable_Cons intro: ranked_sort_by)
  have len: "length q = min n (length xs)"
    by (metis length_rev length_sort_by length_take min.commute q)
  have rq: "ranked (rev q)" using s(1) q by (simp add: sorted_wrt_take)
  have okq: "rankable (x # q)"
  proof -
    have "mset q = mset (take n ?s)" by (metis mset_rev q)
    moreover have "rankable (take n ?s @ drop n ?s)" using s(2) by (simp add: rankable_Cons)
    ultimately have "rankable q" by (metis rankable_append rankable_mset)
    moreover have "set q \<subseteq> set xs"
      by (metis q set_rev set_sort_by set_take_subset)
    ultimately show ?thesis using ok by (auto simp: rankable_Cons)
  qed
  show ?thesis
  proof (cases "length q < n")
    case True
    then have "length xs < n" using len by simp
    then show ?thesis
      using True q rq okq by (simp add: keep_best_def pq_push_worst_first)
  next
    case False
    then have n: "n \<le> length xs" "length q = n" using len by auto
    then obtain w q' where w: "q = w # q'" using \<open>0 < n\<close> by (cases q) auto
    have "w = ?s ! (n - 1)"
    proof -
      have "length (rev q') = n - 1" using w n by simp
      then have "rev q ! (n - 1) = w" using w by (metis nth_append_length rev.simps(2))
      then show ?thesis using q \<open>0 < n\<close> by (simp add: n)
    qed
    moreover have "rev q' = take (n - 1) ?s"
    proof -
      have "rev q' = butlast (rev q)" by (simp add: w)
      then show ?thesis using q n by (simp add: butlast_take)
    qed
    moreover have "rankable (x # q')" "ranked (rev q')"
      using okq rq w by (auto simp: rankable_Cons sorted_wrt_append)
    ultimately show ?thesis
      using False s n \<open>0 < n\<close> w q
      by (simp add: keep_best_def pq_top_def pq_pop_def pq_push_worst_first take_insert_by)
  qed
qed

lemma push_bounded_step:
  assumes "ranked (rev q)" "rankable (x # q)" "length q \<le> n"
  shows "rev (push_bounded better n x q) = take n (insert_by better x (rev q))"
proof (cases "length q < n")
  case True
  then show ?thesis using assms
    by (simp add: push_bounded_def pq_push_worst_first Let_def)
next
  case False
  then have n: "length q = n" using assms(3) by simp
  have "rev (pq_pop (pq_push better x q)) = butlast (rev (pq_push better x q))"
    by (metis butlast_rev pq_pop_def)
  also have "\<dots> = butlast (insert_by better x (rev q))"
    using assms by (simp add: pq_push_worst_first)
  finally show ?thesis using n by (simp add: push_bounded_def Let_def butlast_conv_take)
qed

end

end
