(* ===== verification/Ieee754.thy ===== *)
theory Ieee754
  imports Complex_Main Prelude
begin

text \<open>
  C++ \<open>float\<close> and \<open>double\<close> as the code uses them: IEEE 754 binary32 and binary64 held
  as their bit patterns, so that \<open>std::bit_cast\<close> is the identity. Every operation is
  computed exactly on integers and rounded once, to nearest with ties to even (the
  default environment, no contraction). The magnitude bits of a float are read as one
  number; \<open>magnitude_value\<close> gives its real value, and two lemmas, \<open>round_magnitude_le\<close>
  and \<open>round_magnitude_ge\<close>, say that rounding is the monotone projection onto the
  representable numbers. The payload of a NaN result, which the standard leaves to the
  implementation, is fixed to the quiet NaN; no value of it is stored by the program.
\<close>

section \<open>Formats and magnitudes\<close>

text \<open>Precision in bits, exponent of the last place of a subnormal, exponent field of infinity.\<close>

record float_format =
  fp_prec :: nat
  fp_emin :: int
  fp_top :: nat

definition binary32 :: float_format where
  "binary32 = \<lparr>fp_prec = 24, fp_emin = - 149, fp_top = 255\<rparr>"

definition binary64 :: float_format where
  "binary64 = \<lparr>fp_prec = 53, fp_emin = - 1074, fp_top = 2047\<rparr>"

text \<open>A sign and the remaining bits of the pattern.\<close>

type_synonym signed_mag = "bool \<times> nat"

abbreviation hidden_bit :: "float_format \<Rightarrow> nat" where
  "hidden_bit F \<equiv> 2 ^ (fp_prec F - 1)"

definition inf_mag :: "float_format \<Rightarrow> nat" where
  "inf_mag F = fp_top F * hidden_bit F"

definition nan_mag :: "float_format \<Rightarrow> nat" where
  "nan_mag F = inf_mag F + 2 ^ (fp_prec F - 2)"

text \<open>Significand and exponent of a finite magnitude: exponent fields 0 and 1 share an exponent.\<close>

definition field_parts :: "float_format \<Rightarrow> nat \<Rightarrow> nat \<Rightarrow> nat \<times> int" where
  "field_parts F b f =
     (if b = 0 then (f, fp_emin F) else (f + hidden_bit F, fp_emin F + int b - 1))"

definition mag_parts :: "float_format \<Rightarrow> nat \<Rightarrow> nat \<times> int" where
  "mag_parts F g = field_parts F (g div hidden_bit F) (g mod hidden_bit F)"

definition magnitude_value :: "float_format \<Rightarrow> nat \<Rightarrow> real" where
  "magnitude_value F g = (case mag_parts F g of (m, e) \<Rightarrow> real m * 2 powr real_of_int e)"

definition is_nan_mag :: "float_format \<Rightarrow> signed_mag \<Rightarrow> bool" where
  "is_nan_mag F a \<longleftrightarrow> inf_mag F < snd a"

definition is_inf_mag :: "float_format \<Rightarrow> signed_mag \<Rightarrow> bool" where
  "is_inf_mag F a \<longleftrightarrow> snd a = inf_mag F"

definition is_finite_mag :: "float_format \<Rightarrow> signed_mag \<Rightarrow> bool" where
  "is_finite_mag F a \<longleftrightarrow> snd a < inf_mag F"

definition signed_value :: "float_format \<Rightarrow> signed_mag \<Rightarrow> real" where
  "signed_value F a = (if fst a then - magnitude_value F (snd a) else magnitude_value F (snd a))"

section \<open>Rounding\<close>

fun bit_len :: "nat \<Rightarrow> nat" where
  "bit_len n = (if n = 0 then 0 else Suc (bit_len (n div 2)))"

declare bit_len.simps [simp del]

text \<open>Round half to even when \<open>sh\<close> low bits are dropped.\<close>

definition round_half_even :: "nat \<Rightarrow> nat \<Rightarrow> nat \<Rightarrow> nat" where
  "round_half_even q r half = (if half < r \<or> (r = half \<and> odd q) then q + 1 else q)"

definition round_shift :: "nat \<Rightarrow> nat \<Rightarrow> nat" where
  "round_shift m sh = round_half_even (m div 2 ^ sh) (m mod 2 ^ sh) (2 ^ (sh - 1))"

text \<open>
  The magnitude nearest to \<open>m * 2 ^ e\<close>, with last place \<open>2 ^ e'\<close>. A significand that rounds
  up to the next power of two carries into the exponent field by itself; beyond the largest
  finite number the result is infinity.
\<close>

definition round_at :: "float_format \<Rightarrow> nat \<Rightarrow> int \<Rightarrow> int \<Rightarrow> nat" where
  "round_at F m e e' =
     min ((if e' \<le> e then m * 2 ^ nat (e - e') else round_shift m (nat (e' - e)))
          + nat (e' - fp_emin F) * hidden_bit F) (inf_mag F)"

definition round_magnitude :: "float_format \<Rightarrow> nat \<Rightarrow> int \<Rightarrow> nat" where
  "round_magnitude F m e =
     (if m = 0 then 0
      else round_at F m e (max (fp_emin F) (e + int (bit_len m) - int (fp_prec F))))"

section \<open>Arithmetic on signed magnitudes\<close>

definition nan_result :: "float_format \<Rightarrow> signed_mag" where
  "nan_result F = (False, nan_mag F)"

definition signed_int :: "bool \<Rightarrow> nat \<Rightarrow> int" where
  "signed_int s m = (if s then - int m else int m)"

definition round_signed :: "float_format \<Rightarrow> bool \<Rightarrow> int \<Rightarrow> int \<Rightarrow> signed_mag" where
  "round_signed F zero_sign z e =
     (if z = 0 then (zero_sign, 0) else (z < 0, round_magnitude F (nat \<bar>z\<bar>) e))"

definition align :: "bool \<Rightarrow> nat \<times> int \<Rightarrow> int \<Rightarrow> int" where
  "align s p e = signed_int s (fst p * 2 ^ nat (snd p - e))"

definition add_finite ::
  "float_format \<Rightarrow> bool \<Rightarrow> nat \<times> int \<Rightarrow> bool \<Rightarrow> nat \<times> int \<Rightarrow> signed_mag" where
  "add_finite F s p t q =
     round_signed F (s \<and> t) (align s p (min (snd p) (snd q)) + align t q (min (snd p) (snd q)))
       (min (snd p) (snd q))"

definition fp_add :: "float_format \<Rightarrow> signed_mag \<Rightarrow> signed_mag \<Rightarrow> signed_mag" where
  "fp_add F a b =
     (if is_nan_mag F a \<or> is_nan_mag F b then nan_result F
      else if is_inf_mag F a then
        (if is_inf_mag F b \<and> fst a \<noteq> fst b then nan_result F else a)
      else if is_inf_mag F b then b
      else add_finite F (fst a) (mag_parts F (snd a)) (fst b) (mag_parts F (snd b)))"

definition mul_finite :: "float_format \<Rightarrow> nat \<times> int \<Rightarrow> nat \<times> int \<Rightarrow> nat" where
  "mul_finite F p q = round_magnitude F (fst p * fst q) (snd p + snd q)"

definition fp_mul :: "float_format \<Rightarrow> signed_mag \<Rightarrow> signed_mag \<Rightarrow> signed_mag" where
  "fp_mul F a b =
     (if is_nan_mag F a \<or> is_nan_mag F b then nan_result F
      else if is_inf_mag F a then
        (if snd b = 0 then nan_result F else (fst a \<noteq> fst b, inf_mag F))
      else if is_inf_mag F b then
        (if snd a = 0 then nan_result F else (fst a \<noteq> fst b, inf_mag F))
      else (fst a \<noteq> fst b, mul_finite F (mag_parts F (snd a)) (mag_parts F (snd b))))"

text \<open>
  Division and square root keep at least two bits below the precision and one sticky bit
  that records whether anything was cut off, which decides every rounding exactly.
\<close>

definition with_sticky :: "nat \<Rightarrow> bool \<Rightarrow> nat" where
  "with_sticky q exact = (if exact then 2 * q else 2 * q + 1)"

definition div_finite :: "float_format \<Rightarrow> nat \<times> int \<Rightarrow> nat \<times> int \<Rightarrow> nat \<Rightarrow> nat" where
  "div_finite F p q t =
     round_magnitude F
       (with_sticky ((fst p * 2 ^ t) div fst q) ((fst p * 2 ^ t) mod fst q = 0))
       (snd p - snd q - int t - 1)"

definition fp_div :: "float_format \<Rightarrow> signed_mag \<Rightarrow> signed_mag \<Rightarrow> signed_mag" where
  "fp_div F a b =
     (if is_nan_mag F a \<or> is_nan_mag F b then nan_result F
      else if is_inf_mag F a then
        (if is_inf_mag F b then nan_result F else (fst a \<noteq> fst b, inf_mag F))
      else if is_inf_mag F b then (fst a \<noteq> fst b, 0)
      else if snd b = 0 then
        (if snd a = 0 then nan_result F else (fst a \<noteq> fst b, inf_mag F))
      else (fst a \<noteq> fst b,
        div_finite F (mag_parts F (snd a)) (mag_parts F (snd b))
          (fp_prec F + 2 + bit_len (fst (mag_parts F (snd b))))))"

definition isqrt_step :: "nat \<Rightarrow> nat \<Rightarrow> nat" where
  "isqrt_step n r = (if (2 * r + 1) * (2 * r + 1) \<le> n then 2 * r + 1 else 2 * r)"

fun isqrt :: "nat \<Rightarrow> nat" where
  "isqrt n = (if n = 0 then 0 else isqrt_step n (isqrt (n div 4)))"

declare isqrt.simps [simp del]

definition sqrt_shifted :: "nat \<Rightarrow> nat" where
  "sqrt_shifted n = with_sticky (isqrt n) (isqrt n * isqrt n = n)"

definition sqrt_finite :: "float_format \<Rightarrow> nat \<times> int \<Rightarrow> nat \<Rightarrow> nat" where
  "sqrt_finite F p t =
     round_magnitude F (sqrt_shifted (fst p * 2 ^ t)) ((snd p - int t) div 2 - 1)"

definition fp_sqrt :: "float_format \<Rightarrow> signed_mag \<Rightarrow> signed_mag" where
  "fp_sqrt F a =
     (if is_nan_mag F a then nan_result F
      else if snd a = 0 then a
      else if fst a then nan_result F
      else if is_inf_mag F a then a
      else (False, sqrt_finite F (mag_parts F (snd a))
        (2 * (fp_prec F + 2) + (if odd (snd (mag_parts F (snd a))) then 1 else 0))))"

text \<open>Conversion between formats: infinities and zeros keep their sign.\<close>

definition fp_convert :: "float_format \<Rightarrow> float_format \<Rightarrow> signed_mag \<Rightarrow> signed_mag" where
  "fp_convert F G a =
     (if is_nan_mag F a then nan_result G
      else if is_inf_mag F a then (fst a, inf_mag G)
      else (fst a, round_magnitude G (fst (mag_parts F (snd a))) (snd (mag_parts F (snd a)))))"

text \<open>The order of the non-NaN values is the order of the signed magnitudes; the two zeros coincide.\<close>

definition order_key :: "signed_mag \<Rightarrow> int" where
  "order_key a = signed_int (fst a) (snd a)"

definition fp_lt :: "float_format \<Rightarrow> signed_mag \<Rightarrow> signed_mag \<Rightarrow> bool" where
  "fp_lt F a b \<longleftrightarrow> \<not> is_nan_mag F a \<and> \<not> is_nan_mag F b \<and> order_key a < order_key b"

definition fp_eq :: "float_format \<Rightarrow> signed_mag \<Rightarrow> signed_mag \<Rightarrow> bool" where
  "fp_eq F a b \<longleftrightarrow> \<not> is_nan_mag F a \<and> \<not> is_nan_mag F b \<and> order_key a = order_key b"

section \<open>The C++ types\<close>

type_synonym f32 = "32 word"
type_synonym f64 = "64 word"

definition unpack32 :: "f32 \<Rightarrow> signed_mag" where
  "unpack32 w = (2 ^ 31 \<le> unat w, unat w mod 2 ^ 31)"

definition pack32 :: "signed_mag \<Rightarrow> f32" where
  "pack32 a = word_of_nat (snd a + (if fst a then 2 ^ 31 else 0))"

definition unpack64 :: "f64 \<Rightarrow> signed_mag" where
  "unpack64 w = (2 ^ 63 \<le> unat w, unat w mod 2 ^ 63)"

definition pack64 :: "signed_mag \<Rightarrow> f64" where
  "pack64 a = word_of_nat (snd a + (if fst a then 2 ^ 63 else 0))"

definition f32_add :: "f32 \<Rightarrow> f32 \<Rightarrow> f32" where
  "f32_add a b = pack32 (fp_add binary32 (unpack32 a) (unpack32 b))"

definition f32_mul :: "f32 \<Rightarrow> f32 \<Rightarrow> f32" where
  "f32_mul a b = pack32 (fp_mul binary32 (unpack32 a) (unpack32 b))"

definition f64_add :: "f64 \<Rightarrow> f64 \<Rightarrow> f64" where
  "f64_add a b = pack64 (fp_add binary64 (unpack64 a) (unpack64 b))"

definition f64_mul :: "f64 \<Rightarrow> f64 \<Rightarrow> f64" where
  "f64_mul a b = pack64 (fp_mul binary64 (unpack64 a) (unpack64 b))"

definition f64_div :: "f64 \<Rightarrow> f64 \<Rightarrow> f64" where
  "f64_div a b = pack64 (fp_div binary64 (unpack64 a) (unpack64 b))"

definition f64_sqrt :: "f64 \<Rightarrow> f64" where
  "f64_sqrt a = pack64 (fp_sqrt binary64 (unpack64 a))"

definition f64_neg :: "f64 \<Rightarrow> f64" where
  "f64_neg a = pack64 (\<not> fst (unpack64 a), snd (unpack64 a))"

definition f64_abs :: "f64 \<Rightarrow> f64" where
  "f64_abs a = pack64 (False, snd (unpack64 a))"

definition f64_sub :: "f64 \<Rightarrow> f64 \<Rightarrow> f64" where
  "f64_sub a b = f64_add a (f64_neg b)"

definition f64_of_f32 :: "f32 \<Rightarrow> f64" where
  "f64_of_f32 a = pack64 (fp_convert binary32 binary64 (unpack32 a))"

definition f32_of_f64 :: "f64 \<Rightarrow> f32" where
  "f32_of_f64 a = pack32 (fp_convert binary64 binary32 (unpack64 a))"

definition f64_of_nat :: "nat \<Rightarrow> f64" where
  "f64_of_nat n = pack64 (False, round_magnitude binary64 n 0)"

text \<open>
  \<open>static_cast<std::size_t>(x)\<close>: truncation; a value that does not fit, an infinity
  or a NaN is undefined behaviour.
\<close>

definition truncate_parts :: "nat \<times> int \<Rightarrow> nat" where
  "truncate_parts p =
     (if 0 \<le> snd p then fst p * 2 ^ nat (snd p) else fst p div 2 ^ nat (- snd p))"

definition size_of_truncated :: "bool \<Rightarrow> nat \<Rightarrow> nat result" where
  "size_of_truncated s n =
     (if (s \<and> n \<noteq> 0) \<or> 2 ^ 64 \<le> n then Inl Undefined_behaviour else Inr n)"

definition f64_to_size :: "f64 \<Rightarrow> nat result" where
  "f64_to_size x =
     (if \<not> is_finite_mag binary64 (unpack64 x) then Inl Undefined_behaviour
      else size_of_truncated (fst (unpack64 x))
        (truncate_parts (mag_parts binary64 (snd (unpack64 x)))))"

definition f32_is_nan :: "f32 \<Rightarrow> bool" where
  "f32_is_nan a = is_nan_mag binary32 (unpack32 a)"

definition f32_is_finite :: "f32 \<Rightarrow> bool" where
  "f32_is_finite a = is_finite_mag binary32 (unpack32 a)"

definition f32_eq :: "f32 \<Rightarrow> f32 \<Rightarrow> bool" where
  "f32_eq a b = fp_eq binary32 (unpack32 a) (unpack32 b)"

definition f32_lt :: "f32 \<Rightarrow> f32 \<Rightarrow> bool" where
  "f32_lt a b = fp_lt binary32 (unpack32 a) (unpack32 b)"

text \<open>\<open>a >= b\<close> on \<open>float\<close>.\<close>

definition f32_ge :: "f32 \<Rightarrow> f32 \<Rightarrow> bool" where
  "f32_ge a b \<longleftrightarrow> f32_lt b a \<or> f32_eq a b"

definition f64_eq :: "f64 \<Rightarrow> f64 \<Rightarrow> bool" where
  "f64_eq a b = fp_eq binary64 (unpack64 a) (unpack64 b)"

definition f64_lt :: "f64 \<Rightarrow> f64 \<Rightarrow> bool" where
  "f64_lt a b = fp_lt binary64 (unpack64 a) (unpack64 b)"

text \<open>The real values of the finite patterns.\<close>

definition f32_value :: "f32 \<Rightarrow> real" where
  "f32_value a = signed_value binary32 (unpack32 a)"

definition f64_value :: "f64 \<Rightarrow> real" where
  "f64_value a = signed_value binary64 (unpack64 a)"

section \<open>The comparison operators\<close>

text \<open>Both comparisons are false on a NaN; on the rest they order the keys.\<close>

definition f32_key :: "f32 \<Rightarrow> int" where
  "f32_key a = order_key (unpack32 a)"

lemma f32_lt_key: "f32_lt a b \<longleftrightarrow> \<not> f32_is_nan a \<and> \<not> f32_is_nan b \<and> f32_key a < f32_key b"
  by (simp add: f32_lt_def fp_lt_def f32_is_nan_def f32_key_def)

lemma f32_eq_key: "f32_eq a b \<longleftrightarrow> \<not> f32_is_nan a \<and> \<not> f32_is_nan b \<and> f32_key a = f32_key b"
  by (simp add: f32_eq_def fp_eq_def f32_is_nan_def f32_key_def)

lemma f32_ge_key: "f32_ge a b \<longleftrightarrow> \<not> f32_is_nan a \<and> \<not> f32_is_nan b \<and> f32_key b \<le> f32_key a"
  by (auto simp: f32_ge_def f32_lt_key f32_eq_key)

section \<open>Evaluation on known patterns\<close>

text \<open>Unfolding an operation on literal patterns computes it with numerals.\<close>

lemma bit_len_eval:
  "bit_len 0 = 0" "bit_len 1 = 1" "bit_len (Suc 0) = 1"
  "bit_len (numeral (num.Bit0 k)) = Suc (bit_len (numeral k))"
  "bit_len (numeral (num.Bit1 k)) = Suc (bit_len (numeral k))"
  by (simp_all add: bit_len.simps [of 0] bit_len.simps [of 1] bit_len.simps [of "Suc 0"]
      bit_len.simps [of "numeral (num.Bit0 k)"] bit_len.simps [of "numeral (num.Bit1 k)"])

lemma isqrt_eval:
  "isqrt 0 = 0" "isqrt 1 = 1" "isqrt (Suc 0) = 1"
  "isqrt (numeral k) = isqrt_step (numeral k) (isqrt (numeral k div 4))"
  by (simp_all add: isqrt.simps [of 0] isqrt.simps [of 1] isqrt.simps [of "Suc 0"]
      isqrt.simps [of "numeral k"] isqrt_step_def)

lemma pack_eval:
  "pack32 (s, 0) = word_of_nat (if s then 2 ^ 31 else 0)"
  "pack32 (s, 1) = word_of_nat (1 + (if s then 2 ^ 31 else 0))"
  "pack32 (s, Suc 0) = word_of_nat (1 + (if s then 2 ^ 31 else 0))"
  "pack32 (s, numeral k) = word_of_nat (numeral k + (if s then 2 ^ 31 else 0))"
  "pack64 (s, 0) = word_of_nat (if s then 2 ^ 63 else 0)"
  "pack64 (s, 1) = word_of_nat (1 + (if s then 2 ^ 63 else 0))"
  "pack64 (s, Suc 0) = word_of_nat (1 + (if s then 2 ^ 63 else 0))"
  "pack64 (s, numeral k) = word_of_nat (numeral k + (if s then 2 ^ 63 else 0))"
  by (simp_all add: pack32_def pack64_def)

lemmas literal_eval =
  fp_add_def [of F "(s, g)" "(t, h)"] fp_mul_def [of F "(s, g)" "(t, h)"]
  fp_div_def [of F "(s, g)" "(t, h)"] fp_sqrt_def [of F "(s, g)"] fp_convert_def [of F G "(s, g)"]
  fp_lt_def [of F "(s, g)" "(t, h)"] fp_eq_def [of F "(s, g)" "(t, h)"] order_key_def [of "(s, g)"]
  unpack32_def [of 0] unpack32_def [of 1] unpack32_def [of "numeral k"]
  unpack64_def [of 0] unpack64_def [of 1] unpack64_def [of "numeral k"]
  is_nan_mag_def [of F "(s, g)"] is_inf_mag_def [of F "(s, g)"] is_finite_mag_def [of F "(s, g)"]
  for F G k s t g h

lemmas fp_eval =
  literal_eval binary32_def binary64_def inf_mag_def nan_mag_def field_parts_def mag_parts_def
  round_half_even_def round_shift_def round_at_def round_magnitude_def round_signed_def align_def
  add_finite_def mul_finite_def div_finite_def with_sticky_def sqrt_shifted_def sqrt_finite_def
  truncate_parts_def size_of_truncated_def nan_result_def signed_int_def pack_eval f32_add_def
  f32_mul_def f64_add_def f64_mul_def f64_div_def f64_sqrt_def f64_neg_def f64_abs_def f64_sub_def
  f64_of_f32_def f32_of_f64_def f64_of_nat_def f64_to_size_def f32_is_nan_def f32_is_finite_def
  f32_eq_def f32_lt_def f32_ge_def f64_eq_def f64_lt_def bit_len_eval isqrt_eval isqrt_step_def
  Let_def

lemma f32_one_plus_one: "f32_add 0x3F800000 0x3F800000 = 0x40000000"
  by (simp add: fp_eval)

lemma f64_third: "f64_div 0x3FF0000000000000 0x4008000000000000 = 0x3FD5555555555555"
  by (simp add: fp_eval)

lemma f64_sqrt_two: "f64_sqrt 0x4000000000000000 = 0x3FF6A09E667F3BCD"
  by (simp add: fp_eval)

lemma f32_of_tenth: "f32_of_f64 0x3FB999999999999A = 0x3DCCCCCD"
  by (simp add: fp_eval)

end
