(* ===== verification/Distance.thy ===== *)
theory Distance
  imports Ieee754
begin

text \<open>
  src/distance.cpp, src/distance_auto.cpp, src/distance_avx2.cpp: L2 normalisation and the
  three dot-product kernels, in the order of operations the sources write. Whether the
  AVX2 kernel was built and is supported by the CPU is the parameter \<open>avx2\<close>.
  The build compiles distance_auto.cpp with -ffast-math, which lets the compiler
  reassociate that one sum; the model follows the order of the source.
\<close>

datatype dot_kernel = Scalar | Auto_vectorized | Avx2

section \<open>Normalisation\<close>

fun squared_norm_loop :: "f64 \<Rightarrow> f32 list \<Rightarrow> f64 result" where
  "squared_norm_loop acc [] = Inr acc"
| "squared_norm_loop acc (x # xs) =
     (if \<not> f32_is_finite x then Inl (Invalid_argument ''vector values must be finite'')
      else let w = f64_of_f32 x in squared_norm_loop (f64_add acc (f64_mul w w)) xs)"

definition normalize_l2 :: "f32 list \<Rightarrow> f32 list result" where
  "normalize_l2 v =
     (if v = [] then Inl (Invalid_argument ''vector must not be empty'')
      else and_then (squared_norm_loop 0 v) (\<lambda>squared_norm.
        if f64_eq squared_norm 0 then
          Inl (Invalid_argument ''zero vector cannot be normalized'')
        else
          let inverse_norm = f64_div 0x3FF0000000000000 (f64_sqrt squared_norm)
          in Inr (map (\<lambda>x. f32_of_f64 (f64_mul (f64_of_f32 x) inverse_norm)) v)))"

lemma length_normalize_l2: "normalize_l2 v = Inr r \<Longrightarrow> length r = length v"
  by (auto simp: normalize_l2_def Let_def result_simps split: if_splits)

lemma normalize_l2_not_Nil: "normalize_l2 v = Inr r \<Longrightarrow> v \<noteq> []"
  by (auto simp: normalize_l2_def)

lemma squared_norm_loop_error:
  "squared_norm_loop acc xs = Inl e \<longleftrightarrow>
     (\<exists>x\<in>set xs. \<not> f32_is_finite x) \<and> e = Invalid_argument ''vector values must be finite''"
  by (induction acc xs rule: squared_norm_loop.induct) (auto simp: Let_def)

lemma normalize_l2_finite: "normalize_l2 v = Inr r \<Longrightarrow> \<forall>x\<in>set v. f32_is_finite x"
proof -
  assume "normalize_l2 v = Inr r"
  then obtain s where "squared_norm_loop 0 v = Inr s"
    by (auto simp: normalize_l2_def result_simps split: if_splits)
  then have "\<not> (\<exists>e. squared_norm_loop 0 v = Inl e)" by simp
  then show ?thesis by (simp add: squared_norm_loop_error)
qed

section \<open>The dot-product kernels\<close>

fun dot_scalar_loop :: "f64 \<Rightarrow> f32 list \<Rightarrow> f32 list \<Rightarrow> f64" where
  "dot_scalar_loop acc (x # xs) (y # ys) =
     dot_scalar_loop (f64_add acc (f64_mul (f64_of_f32 x) (f64_of_f32 y))) xs ys"
| "dot_scalar_loop acc _ _ = acc"

definition dot_product_scalar :: "f32 list \<Rightarrow> f32 list \<Rightarrow> f32" where
  "dot_product_scalar lhs rhs = f32_of_f64 (dot_scalar_loop 0 lhs rhs)"

fun dot_auto_loop :: "f32 \<Rightarrow> f32 list \<Rightarrow> f32 list \<Rightarrow> f32" where
  "dot_auto_loop acc (x # xs) (y # ys) = dot_auto_loop (f32_add acc (f32_mul x y)) xs ys"
| "dot_auto_loop acc _ _ = acc"

definition dot_product_auto :: "f32 list \<Rightarrow> f32 list \<Rightarrow> f32" where
  "dot_product_auto lhs rhs = dot_auto_loop 0 lhs rhs"

text \<open>
  Eight lanes: the vector loop adds lane-wise products, the lanes are summed from the
  first to the last, and the remaining elements follow one by one.
\<close>

fun avx2_lane_loop :: "f32 list \<Rightarrow> f32 list \<Rightarrow> f32 list \<Rightarrow> f32 list \<times> f32 list \<times> f32 list" where
  "avx2_lane_loop lanes (a0 # a1 # a2 # a3 # a4 # a5 # a6 # a7 # xs)
     (b0 # b1 # b2 # b3 # b4 # b5 # b6 # b7 # ys) =
     avx2_lane_loop
       (map2 f32_add lanes
         (map2 f32_mul [a0, a1, a2, a3, a4, a5, a6, a7] [b0, b1, b2, b3, b4, b5, b6, b7])) xs ys"
| "avx2_lane_loop lanes xs ys = (lanes, xs, ys)"

definition dot_product_avx2 :: "f32 list \<Rightarrow> f32 list \<Rightarrow> f32" where
  "dot_product_avx2 lhs rhs =
     (case avx2_lane_loop (replicate 8 0) lhs rhs of
        (lanes, xs, ys) \<Rightarrow> dot_auto_loop (foldl f32_add 0 lanes) xs ys)"

definition avx2_dot_product_available :: "bool \<Rightarrow> bool" where
  "avx2_dot_product_available avx2 = avx2"

definition resolve_dot_product_kernel :: "bool \<Rightarrow> dot_kernel \<Rightarrow> dot_kernel result" where
  "resolve_dot_product_kernel avx2 kern =
     (if kern = Auto_vectorized then Inr Auto_vectorized
      else if kern = Avx2 then
        (if \<not> avx2_dot_product_available avx2 then
           Inl (Invalid_argument ''AVX2 dot product is unavailable on this build or CPU'')
         else Inr Avx2)
      else Inr Scalar)"

text \<open>The function a resolved kernel points to.\<close>

fun raw_dot_product :: "dot_kernel \<Rightarrow> f32 list \<Rightarrow> f32 list \<Rightarrow> f32" where
  "raw_dot_product Scalar = dot_product_scalar"
| "raw_dot_product Auto_vectorized = dot_product_auto"
| "raw_dot_product Avx2 = dot_product_avx2"

definition dot_product :: "bool \<Rightarrow> f32 list \<Rightarrow> f32 list \<Rightarrow> dot_kernel \<Rightarrow> f32 result" where
  "dot_product avx2 lhs rhs kern =
     (if length lhs \<noteq> length rhs then
        Inl (Invalid_argument ''dot product requires vectors of equal length'')
      else and_then (resolve_dot_product_kernel avx2 kern)
        (\<lambda>raw. Inr (raw_dot_product raw lhs rhs)))"

fun dot_product_kernel_name :: "dot_kernel \<Rightarrow> string" where
  "dot_product_kernel_name Scalar = ''scalar''"
| "dot_product_kernel_name Auto_vectorized = ''auto''"
| "dot_product_kernel_name Avx2 = ''avx2''"

lemma resolve_dot_product_kernel_Inr:
  "resolve_dot_product_kernel avx2 k = Inr r \<longleftrightarrow> r = k \<and> (k = Avx2 \<longrightarrow> avx2)"
  by (cases k) (auto simp: resolve_dot_product_kernel_def avx2_dot_product_available_def)

lemma resolve_dot_product_kernel_Inl:
  "(\<exists>e. resolve_dot_product_kernel avx2 k = Inl e) \<longleftrightarrow> k = Avx2 \<and> \<not> avx2"
  by (cases k) (auto simp: resolve_dot_product_kernel_def avx2_dot_product_available_def)

text \<open>Fewer than eight elements never enter the vector loop.\<close>

lemma avx2_lane_loop_short:
  "length xs < 8 \<Longrightarrow> avx2_lane_loop lanes xs ys = (lanes, xs, ys)"
  by (induction lanes xs ys rule: avx2_lane_loop.induct) auto

lemma avx2_lane_loop_lanes:
  "length lanes = 8 \<Longrightarrow> length (fst (avx2_lane_loop lanes xs ys)) = 8"
  by (induction lanes xs ys rule: avx2_lane_loop.induct) auto

section \<open>Evaluation on small vectors\<close>

lemma normalize_l2_3_4:
  "normalize_l2 [0x40400000, 0x40800000] = Inr [0x3F19999A, 0x3F4CCCCD]"
  by (simp add: normalize_l2_def fp_eval)

lemma normalize_l2_one [simp]: "normalize_l2 [0x3F800000] = Inr [0x3F800000]"
  by (simp add: normalize_l2_def fp_eval)

lemma normalize_l2_minus_two [simp]: "normalize_l2 [0xC0000000] = Inr [0xBF800000]"
  by (simp add: normalize_l2_def fp_eval)

lemma dot_product_scalar_one [simp]:
  "dot_product_scalar [0x3F800000] [0x3F800000] = 0x3F800000"
  "dot_product_scalar [0x3F800000] [0xBF800000] = 0xBF800000"
  by (simp_all add: dot_product_scalar_def fp_eval)

end
