(* ===== verification/Search_Context.thy ===== *)
theory Search_Context
  imports Prelude
begin

text \<open>
  include/fast_vector/search_context.h: cooperative cancellation. \<open>SearchCancellation\<close>
  is the value of its atomic reason and the compare-exchange that sets it; a
  \<open>SearchContext\<close> carries a deadline, a reference to a cancellation object and the check
  interval. What a check observes (the reason and the clock) is decided by other threads
  and by time, so it comes from an environment: \<open>env n\<close> is what the \<open>n\<close>-th call of
  \<open>check()\<close> in a search sees.
\<close>

section \<open>SearchCancellation\<close>

definition cancellation_request ::
  "search_stop_reason \<Rightarrow> search_stop_reason \<Rightarrow> search_stop_reason" where
  "cancellation_request reason current = (if current = NoReason then reason else current)"

lemma cancellation_request_sticky:
  "current \<noteq> NoReason \<Longrightarrow> foldl (\<lambda>c r. cancellation_request r c) current rs = current"
  by (induction rs) (auto simp: cancellation_request_def)

section \<open>SearchContext\<close>

text \<open>\<open>Clock::time_point::max()\<close>, in ticks of the 64-bit clock representation.\<close>

definition clock_max :: int where
  "clock_max = 2 ^ 63 - 1"

record search_context =
  deadline :: int
  cancellation :: "nat option"
  check_interval :: u64
  expected_snapshot_id :: string

definition default_context :: search_context where
  "default_context =
     \<lparr>deadline = clock_max, cancellation = None, check_interval = 64, expected_snapshot_id = []\<rparr>"

type_synonym environment = "nat \<Rightarrow> search_stop_reason \<times> int"

definition enabled :: "search_context \<Rightarrow> bool" where
  "enabled ctx \<longleftrightarrow> cancellation ctx \<noteq> None \<or> deadline ctx \<noteq> clock_max"

text \<open>\<open>check()\<close>; the result is the number of checks made so far.\<close>

definition check :: "search_context \<Rightarrow> environment \<Rightarrow> nat \<Rightarrow> nat result" where
  "check ctx env n =
     (if cancellation ctx \<noteq> None \<and> fst (env n) \<noteq> NoReason then
        Inl (Search_interrupted (fst (env n)))
      else if deadline ctx \<noteq> clock_max \<and> deadline ctx \<le> snd (env n) then
        Inl (Search_interrupted DeadlineExceeded)
      else Inr (Suc n))"

text \<open>The local counter \<open>remaining\<close> of a search and the number of checks made.\<close>

type_synonym probe = "u64 \<times> nat"

definition checkpoint :: "search_context \<Rightarrow> environment \<Rightarrow> probe \<Rightarrow> probe result" where
  "checkpoint ctx env p =
     (case p of (remaining, n) \<Rightarrow>
        if \<not> enabled ctx then Inr (remaining, n)
        else if remaining = 0 then
          and_then (check ctx env n) (\<lambda>n'. Inr (check_interval ctx - 1, n'))
        else Inr (remaining - 1, n))"

definition validate_context :: "search_context \<Rightarrow> unit result" where
  "validate_context ctx =
     (if check_interval ctx = 0 then
        Inl (Invalid_argument ''search check interval must be positive'')
      else Inr ())"

section \<open>Searches that are never interrupted\<close>

definition quiet :: "search_context \<Rightarrow> environment \<Rightarrow> bool" where
  "quiet ctx env \<longleftrightarrow>
     (\<forall>n. (cancellation ctx = None \<or> fst (env n) = NoReason)
        \<and> (deadline ctx = clock_max \<or> snd (env n) < deadline ctx))"

lemma quiet_check [simp]: "quiet ctx env \<Longrightarrow> check ctx env n = Inr (Suc n)"
  by (auto simp: quiet_def check_def not_le)

lemma quiet_checkpoint: "quiet ctx env \<Longrightarrow> \<exists>p'. checkpoint ctx env p = Inr p'"
  by (cases p) (auto simp: checkpoint_def)

lemma not_enabled_quiet: "\<not> enabled ctx \<Longrightarrow> quiet ctx env"
  by (auto simp: quiet_def enabled_def)

lemma default_context_quiet [simp]: "quiet default_context env"
  by (rule not_enabled_quiet) (simp add: enabled_def default_context_def)

lemma validate_default_context [simp]: "validate_context default_context = Inr ()"
  by (simp add: validate_context_def default_context_def)

text \<open>The only exception a check or a checkpoint raises.\<close>

definition is_interruption :: "cpp_error \<Rightarrow> bool" where
  "is_interruption e \<longleftrightarrow> (\<exists>r. e = Search_interrupted r \<and> r \<noteq> NoReason)"

lemma check_error: "check ctx env n = Inl e \<Longrightarrow> is_interruption e"
  by (auto simp: check_def is_interruption_def split: if_splits)

lemma checkpoint_error: "checkpoint ctx env p = Inl e \<Longrightarrow> is_interruption e"
  by (auto simp: checkpoint_def result_simps split: prod.splits if_splits dest: check_error)

section \<open>How often the clock is read\<close>

fun checkpoints :: "search_context \<Rightarrow> environment \<Rightarrow> nat \<Rightarrow> probe \<Rightarrow> probe result" where
  "checkpoints ctx env 0 p = Inr p"
| "checkpoints ctx env (Suc m) p = and_then (checkpoint ctx env p) (checkpoints ctx env m)"

lemma checkpoints_count:
  assumes "enabled ctx" "quiet ctx env" "check_interval ctx \<noteq> 0"
    and "unat remaining < unat (check_interval ctx)"
  shows "\<exists>r n'. checkpoints ctx env m (remaining, n) = Inr (r, n')
    \<and> n' = n + (m + unat (check_interval ctx) - 1 - unat remaining) div unat (check_interval ctx)"
  using assms(4)
proof (induction m arbitrary: remaining n)
  case 0
  then show ?case by simp
next
  case (Suc m)
  let ?i = "check_interval ctx"
  have pos: "0 < unat ?i" using assms(3) by (simp add: unat_gt_0)
  show ?case
  proof (cases "remaining = 0")
    case True
    have less: "unat (?i - 1) = unat ?i - 1" using assms(3) by (simp add: unat_minus_one)
    obtain r n' where "checkpoints ctx env m (?i - 1, Suc n) = Inr (r, n')"
      "n' = Suc n + (m + unat ?i - 1 - unat (?i - 1)) div unat ?i"
      using Suc.IH [of "?i - 1" "Suc n"] pos less by auto
    moreover have "(Suc m + unat ?i - 1) div unat ?i = Suc (m div unat ?i)"
      using pos by (simp add: div_add_self2)
    ultimately show ?thesis
      using True assms pos by (simp add: checkpoint_def less)
  next
    case False
    then have less: "unat (remaining - 1) = unat remaining - 1" "0 < unat remaining"
      by (simp_all add: unat_minus_one unat_gt_0)
    then have "unat (remaining - 1) < unat ?i" using Suc.prems by arith
    from Suc.IH [OF this, of n] obtain r n' where
      "checkpoints ctx env m (remaining - 1, n) = Inr (r, n')"
      "n' = n + (m + unat ?i - 1 - (unat remaining - 1)) div unat ?i"
      unfolding less by blast
    moreover have "m + unat ?i - 1 - (unat remaining - 1) = Suc m + unat ?i - 1 - unat remaining"
      using less Suc.prems by arith
    ultimately show ?thesis using False assms by (simp add: checkpoint_def)
  qed
qed

end
