(* ===== verification/Flat_Index.thy ===== *)
theory Flat_Index
  imports Ranking Distance Search_Context
begin

text \<open>
  src/flat_index.cpp: the exact index. Its state is the row-major float array, the ID
  array and the ID-to-row hash map; insertion appends (and rolls back when an allocation
  fails), deletion is swap-and-pop, search scans every row under a bounded queue. The
  abstraction \<open>flat_abs\<close> maps each live ID to its stored vector: insertion and deletion
  are map update and map deletion, and search returns the first \<open>k\<close> of the ranked list
  of all stored vectors.
\<close>

section \<open>Search results\<close>

text \<open>\<open>SearchResult\<close> of include/fast_vector/search_result.h.\<close>

record search_result =
  result_id :: vector_id
  result_score :: f32

definition is_better :: "search_result \<Rightarrow> search_result \<Rightarrow> bool" where
  "is_better lhs rhs =
     (if \<not> f32_eq (result_score lhs) (result_score rhs) then
        f32_lt (result_score rhs) (result_score lhs)
      else result_id lhs < result_id rhs)"

definition has_score :: "search_result \<Rightarrow> bool" where
  "has_score r \<longleftrightarrow> \<not> f32_is_nan (result_score r)"

interpretation flat_rank: ranking is_better has_score result_id
  by unfold_locales
    (auto simp: is_better_def has_score_def f32_eq_key f32_lt_key split: if_splits)

section \<open>State and operations\<close>

record flat_index =
  flat_dimension :: nat
  flat_kernel :: dot_kernel
  flat_vectors :: "f32 list"
  flat_ids :: "vector_id list"
  flat_id_to_row :: "vector_id \<rightharpoonup> nat"

definition flat_create :: "nat \<Rightarrow> dot_kernel \<Rightarrow> flat_index result" where
  "flat_create dims kern =
     (if dims = 0 then Inl (Invalid_argument ''index dimension must be greater than zero'')
      else Inr \<lparr>flat_dimension = dims, flat_kernel = kern, flat_vectors = [], flat_ids = [],
                flat_id_to_row = Map.empty\<rparr>)"

definition flat_size :: "flat_index \<Rightarrow> nat" where
  "flat_size ix = length (flat_ids ix)"

text \<open>
  \<open>FlatIndex::add\<close>. The allocations it makes are numbered (0 the normalised copy, 1 the
  map node, 2 the ID array, 3 the float array); \<open>fault = Some n\<close> makes the \<open>n\<close>-th
  throw \<open>std::bad_alloc\<close>. The handler undoes what was appended and rethrows.
\<close>

definition flat_add_handler :: "vector_id \<Rightarrow> flat_index \<Rightarrow> flat_index" where
  "flat_add_handler vid ix =
     (let ix' = (if flat_ids ix \<noteq> [] \<and> last (flat_ids ix) = vid
                 then ix\<lparr>flat_ids := butlast (flat_ids ix)\<rparr> else ix)
      in ix'\<lparr>flat_id_to_row := (flat_id_to_row ix')(vid := None)\<rparr>)"

definition flat_append ::
  "nat option \<Rightarrow> vector_id \<Rightarrow> f32 list \<Rightarrow> flat_index \<Rightarrow> flat_index \<times> unit result" where
  "flat_append fault vid normalized ix =
     (if fault = Some 2 then (flat_add_handler vid ix, Inl Bad_alloc)
      else let ix' = ix\<lparr>flat_ids := flat_ids ix @ [vid]\<rparr> in
        if fault = Some 3 then (flat_add_handler vid ix', Inl Bad_alloc)
        else (ix'\<lparr>flat_vectors := flat_vectors ix' @ normalized\<rparr>, Inr ()))"

definition flat_add ::
  "nat option \<Rightarrow> vector_id \<Rightarrow> f32 list \<Rightarrow> flat_index \<Rightarrow> flat_index \<times> unit result" where
  "flat_add fault vid v ix =
     (if length v \<noteq> flat_dimension ix then
        (ix, Inl (Invalid_argument ''vector dimension does not match index dimension''))
      else if flat_id_to_row ix vid \<noteq> None then
        (ix, Inl (Invalid_argument ''vector ID already exists''))
      else case normalize_l2 v of
        Inl e \<Rightarrow> (ix, Inl e)
      | Inr normalized \<Rightarrow>
          if fault = Some 0 \<or> fault = Some 1 then (ix, Inl Bad_alloc)
          else if flat_id_to_row ix vid \<noteq> None then
            (ix, Inl (Invalid_argument ''vector ID already exists''))
          else flat_append fault vid normalized
            (ix\<lparr>flat_id_to_row := (flat_id_to_row ix)(vid \<mapsto> length (flat_ids ix))\<rparr>))"

text \<open>\<open>FlatIndex::erase\<close>: the last row replaces the deleted one.\<close>

definition flat_move_last :: "nat \<Rightarrow> nat \<Rightarrow> flat_index \<Rightarrow> flat_index" where
  "flat_move_last row last_row ix =
     (let d = flat_dimension ix; moved = last (flat_ids ix) in
      ix\<lparr>flat_vectors := write_row d (flat_vectors ix) row (row_of d (flat_vectors ix) last_row),
         flat_ids := (flat_ids ix)[row := moved],
         flat_id_to_row := (flat_id_to_row ix)(moved \<mapsto> row)\<rparr>)"

definition flat_erase :: "vector_id \<Rightarrow> flat_index \<Rightarrow> flat_index \<times> bool" where
  "flat_erase vid ix =
     (case flat_id_to_row ix vid of
        None \<Rightarrow> (ix, False)
      | Some row \<Rightarrow>
          let last_row = length (flat_ids ix) - 1;
              ix' = (if row \<noteq> last_row then flat_move_last row last_row ix else ix)
          in (ix'\<lparr>flat_vectors := take (length (flat_vectors ix') - flat_dimension ix')
                    (flat_vectors ix'),
                  flat_ids := butlast (flat_ids ix'),
                  flat_id_to_row := (flat_id_to_row ix')(vid := None)\<rparr>, True))"

section \<open>Search\<close>

definition flat_candidate :: "flat_index \<Rightarrow> dot_kernel \<Rightarrow> f32 list \<Rightarrow> nat \<Rightarrow> search_result" where
  "flat_candidate ix raw q i =
     \<lparr>result_id = flat_ids ix ! i,
      result_score = raw_dot_product raw q (row_of (flat_dimension ix) (flat_vectors ix) i)\<rparr>"

text \<open>The scan over the rows and the loop that empties the queue, with their checkpoints.\<close>

fun flat_scan ::
  "search_context \<Rightarrow> environment \<Rightarrow> (nat \<Rightarrow> search_result) \<Rightarrow> nat \<Rightarrow> nat list \<Rightarrow>
   probe \<Rightarrow> search_result pqueue \<Rightarrow> (probe \<times> search_result pqueue) result" where
  "flat_scan ctx env cand limit [] p q = Inr (p, q)"
| "flat_scan ctx env cand limit (i # rows) p q =
     and_then (checkpoint ctx env p)
       (\<lambda>p. flat_scan ctx env cand limit rows p (keep_best is_better limit (cand i) q))"

fun drain ::
  "search_context \<Rightarrow> environment \<Rightarrow> 'a pqueue \<Rightarrow> probe \<Rightarrow> 'a list \<Rightarrow> (probe \<times> 'a list) result" where
  "drain ctx env [] p out = Inr (p, out)"
| "drain ctx env (x # q) p out =
     and_then (checkpoint ctx env p) (\<lambda>p. drain ctx env q p (out @ [x]))"

definition flat_search ::
  "bool \<Rightarrow> flat_index \<Rightarrow> f32 list \<Rightarrow> nat \<Rightarrow> search_context \<Rightarrow> environment \<Rightarrow>
   search_result list result" where
  "flat_search avx2 ix query k ctx env =
     and_then (validate_context ctx) (\<lambda>_.
     and_then (check ctx env 0) (\<lambda>n.
       if k = 0 then Inr []
       else if length query \<noteq> flat_dimension ix then
         Inl (Invalid_argument ''query dimension does not match index dimension'')
       else
         and_then (normalize_l2 query) (\<lambda>q.
         and_then (resolve_dot_product_kernel avx2 (flat_kernel ix)) (\<lambda>raw.
           let result_count = min k (flat_size ix) in
           if result_count = 0 then Inr []
           else
             and_then (flat_scan ctx env (flat_candidate ix raw q) result_count
                 [0..<flat_size ix] (0, n) [])
               (\<lambda>(p, candidates).
             and_then (drain ctx env candidates p []) (\<lambda>(p, results).
             and_then (check ctx env (snd p)) (\<lambda>_.
               Inr (sort_by is_better results))))))))"

definition flat_search_default ::
  "bool \<Rightarrow> flat_index \<Rightarrow> f32 list \<Rightarrow> nat \<Rightarrow> environment \<Rightarrow> search_result list result" where
  "flat_search_default avx2 ix query k env = flat_search avx2 ix query k default_context env"

section \<open>The representation invariant\<close>

definition flat_wf :: "flat_index \<Rightarrow> bool" where
  "flat_wf ix \<longleftrightarrow>
     0 < flat_dimension ix
   \<and> length (flat_vectors ix) = length (flat_ids ix) * flat_dimension ix
   \<and> distinct (flat_ids ix)
   \<and> dom (flat_id_to_row ix) = set (flat_ids ix)
   \<and> (\<forall>i < length (flat_ids ix). flat_id_to_row ix (flat_ids ix ! i) = Some i)"

definition flat_abs :: "flat_index \<Rightarrow> vector_id \<rightharpoonup> f32 list" where
  "flat_abs ix vid =
     map_option (row_of (flat_dimension ix) (flat_vectors ix)) (flat_id_to_row ix vid)"

lemma flat_wfI:
  assumes "0 < flat_dimension ix"
    and "length (flat_vectors ix) = length (flat_ids ix) * flat_dimension ix"
    and "\<And>i. i < length (flat_ids ix) \<Longrightarrow> flat_id_to_row ix (flat_ids ix ! i) = Some i"
    and "dom (flat_id_to_row ix) = set (flat_ids ix)"
  shows "flat_wf ix"
proof -
  have "distinct (flat_ids ix)"
    unfolding distinct_conv_nth by (metis assms(3) option.inject)
  with assms show ?thesis by (simp add: flat_wf_def)
qed

lemma flat_row_Some:
  assumes "flat_wf ix"
  shows "flat_id_to_row ix vid = Some i \<longleftrightarrow> i < length (flat_ids ix) \<and> flat_ids ix ! i = vid"
proof
  assume i: "flat_id_to_row ix vid = Some i"
  then have "vid \<in> set (flat_ids ix)" using assms by (auto simp: flat_wf_def)
  then obtain j where "j < length (flat_ids ix)" "flat_ids ix ! j = vid"
    by (auto simp: in_set_conv_nth)
  with i assms show "i < length (flat_ids ix) \<and> flat_ids ix ! i = vid"
    by (auto simp: flat_wf_def)
next
  assume "i < length (flat_ids ix) \<and> flat_ids ix ! i = vid"
  with assms show "flat_id_to_row ix vid = Some i" by (auto simp: flat_wf_def)
qed

lemma flat_row_None: "flat_wf ix \<Longrightarrow> flat_id_to_row ix vid = None \<longleftrightarrow> vid \<notin> set (flat_ids ix)"
  by (auto simp: flat_wf_def)

lemma flat_create_wf: "flat_create dims kern = Inr ix \<Longrightarrow> flat_wf ix \<and> flat_abs ix = Map.empty"
  by (auto simp: flat_create_def flat_wf_def flat_abs_def split: if_splits)

subsection \<open>Insertion\<close>

lemma flat_append_ok:
  assumes wf: "flat_wf ix" and new: "flat_id_to_row ix vid = None"
    and len: "length r = flat_dimension ix"
    and res: "flat_append fault vid r
      (ix\<lparr>flat_id_to_row := (flat_id_to_row ix)(vid \<mapsto> length (flat_ids ix))\<rparr>) = (ix', Inr u)"
  shows "flat_wf ix' \<and> flat_abs ix' = (flat_abs ix)(vid \<mapsto> r) \<and> flat_ids ix' = flat_ids ix @ [vid]
    \<and> flat_dimension ix' = flat_dimension ix \<and> flat_kernel ix' = flat_kernel ix"
proof -
  let ?n = "length (flat_ids ix)"
  have ix': "ix' = ix\<lparr>flat_id_to_row := (flat_id_to_row ix)(vid \<mapsto> ?n),
      flat_ids := flat_ids ix @ [vid], flat_vectors := flat_vectors ix @ r\<rparr>"
    using res by (auto simp: flat_append_def Let_def split: if_splits)
  have fresh: "vid \<notin> set (flat_ids ix)" using wf new by (simp add: flat_row_None)
  have vs: "length (flat_vectors ix) = ?n * flat_dimension ix" using wf by (simp add: flat_wf_def)
  have "flat_wf ix'"
    using wf fresh len by (auto simp: ix' flat_wf_def nth_append)
  moreover have "flat_abs ix' = (flat_abs ix)(vid \<mapsto> r)"
  proof
    fix x
    show "flat_abs ix' x = ((flat_abs ix)(vid \<mapsto> r)) x"
      using len by (auto simp: ix' flat_abs_def flat_row_Some [OF wf] row_of_append_left [OF vs]
          row_of_append_last [OF vs] intro!: option.map_cong)
  qed
  ultimately show ?thesis by (simp add: ix')
qed

lemma flat_append_error:
  assumes wf: "flat_wf ix" and new: "flat_id_to_row ix vid = None"
    and res: "flat_append fault vid r
      (ix\<lparr>flat_id_to_row := (flat_id_to_row ix)(vid \<mapsto> length (flat_ids ix))\<rparr>) = (ix', Inl e)"
  shows "ix' = ix \<and> e = Bad_alloc"
proof -
  have "vid \<notin> set (flat_ids ix)" using wf new by (simp add: flat_row_None)
  then have "\<not> (flat_ids ix \<noteq> [] \<and> last (flat_ids ix) = vid)" by auto
  moreover have "(flat_id_to_row ix)(vid := None) = flat_id_to_row ix"
    using new by (simp add: fun_upd_idem)
  ultimately show ?thesis
    using res by (auto simp: flat_append_def flat_add_handler_def Let_def split: if_splits)
qed

lemma flat_add_ok_cases:
  assumes "flat_add fault vid v ix = (ix', Inr u)"
  obtains r where "normalize_l2 v = Inr r" "length v = flat_dimension ix"
    "flat_id_to_row ix vid = None"
    "flat_append fault vid r
      (ix\<lparr>flat_id_to_row := (flat_id_to_row ix)(vid \<mapsto> length (flat_ids ix))\<rparr>) = (ix', Inr u)"
  using assms by (auto simp: flat_add_def split: if_splits sum.splits)

lemma flat_add_success:
  assumes "flat_wf ix" "flat_add fault vid v ix = (ix', Inr u)"
  obtains r where "normalize_l2 v = Inr r" "flat_abs ix vid = None" "flat_wf ix'"
    "flat_abs ix' = (flat_abs ix)(vid \<mapsto> r)" "flat_ids ix' = flat_ids ix @ [vid]"
    "flat_dimension ix' = flat_dimension ix" "flat_kernel ix' = flat_kernel ix"
proof -
  obtain r where r: "normalize_l2 v = Inr r" "length v = flat_dimension ix"
    "flat_id_to_row ix vid = None"
    and app: "flat_append fault vid r
      (ix\<lparr>flat_id_to_row := (flat_id_to_row ix)(vid \<mapsto> length (flat_ids ix))\<rparr>) = (ix', Inr u)"
    using assms(2) by (rule flat_add_ok_cases)
  have "length r = flat_dimension ix" using r by (simp add: length_normalize_l2)
  from flat_append_ok [OF assms(1) r(3) this app] r that show ?thesis
    by (simp add: flat_abs_def)
qed

lemma flat_add_failure:
  assumes "flat_wf ix" "flat_add fault vid v ix = (ix', Inl e)"
  shows "ix' = ix"
  using assms flat_append_error [OF assms(1)]
  by (auto simp: flat_add_def split: if_splits sum.splits)

subsection \<open>Deletion\<close>

lemma flat_move_last_wf_facts:
  assumes wf: "flat_wf ix" and row: "row < length (flat_ids ix) - 1"
  defines "n \<equiv> length (flat_ids ix)" and "ix' \<equiv> flat_move_last row (length (flat_ids ix) - 1) ix"
  shows "length (flat_ids ix') = n" "length (flat_vectors ix') = n * flat_dimension ix"
    "flat_dimension ix' = flat_dimension ix" "flat_kernel ix' = flat_kernel ix"
    "flat_ids ix' = (flat_ids ix)[row := flat_ids ix ! (n - 1)]"
    "flat_id_to_row ix' = (flat_id_to_row ix)(flat_ids ix ! (n - 1) \<mapsto> row)"
    "j < n \<Longrightarrow> row_of (flat_dimension ix) (flat_vectors ix') j =
       row_of (flat_dimension ix) (flat_vectors ix) (if j = row then n - 1 else j)"
proof -
  have vs: "length (flat_vectors ix) = n * flat_dimension ix" "row < n" "n - 1 < n"
    using wf row by (auto simp: flat_wf_def n_def)
  have ids: "last (flat_ids ix) = flat_ids ix ! (n - 1)"
    using row unfolding n_def by (intro last_conv_nth) auto
  show "length (flat_ids ix') = n" "flat_dimension ix' = flat_dimension ix"
    "flat_kernel ix' = flat_kernel ix"
    "flat_ids ix' = (flat_ids ix)[row := flat_ids ix ! (n - 1)]"
    "flat_id_to_row ix' = (flat_id_to_row ix)(flat_ids ix ! (n - 1) \<mapsto> row)"
    by (simp_all add: ix'_def flat_move_last_def Let_def ids n_def)
  show "length (flat_vectors ix') = n * flat_dimension ix"
    using length_row_of [OF vs(1) vs(3)]
    by (simp add: ix'_def flat_move_last_def Let_def n_def [symmetric] length_write_row [OF vs(1,2)])
  show "j < n \<Longrightarrow> row_of (flat_dimension ix) (flat_vectors ix') j =
       row_of (flat_dimension ix) (flat_vectors ix) (if j = row then n - 1 else j)"
    using length_row_of [OF vs(1) vs(3)]
    by (simp add: ix'_def flat_move_last_def Let_def n_def [symmetric]
        row_of_write_row [OF vs(1,2)])
qed

text \<open>Deletion leaves the rows of all other IDs alone, wherever they move.\<close>

lemma flat_erase_present:
  assumes wf: "flat_wf ix" and at: "flat_id_to_row ix vid = Some row"
  shows "snd (flat_erase vid ix)"
    and "flat_wf (fst (flat_erase vid ix))"
    and "flat_abs (fst (flat_erase vid ix)) = (flat_abs ix)(vid := None)"
    and "flat_dimension (fst (flat_erase vid ix)) = flat_dimension ix"
    and "flat_kernel (fst (flat_erase vid ix)) = flat_kernel ix"
proof -
  define n where "n = length (flat_ids ix)"
  define d where "d = flat_dimension ix"
  define mid where "mid = (if row \<noteq> n - 1 then flat_move_last row (n - 1) ix else ix)"
  define ix' where "ix' = fst (flat_erase vid ix)"
  have row: "row < n" "flat_ids ix ! row = vid"
    using at wf by (simp_all add: flat_row_Some n_def)
  have d: "0 < d" and vs: "length (flat_vectors ix) = n * d"
    using wf by (simp_all add: flat_wf_def n_def d_def)
  note moved = flat_move_last_wf_facts [OF wf, of row, folded n_def d_def]
  let ?src = "\<lambda>j. if j = row then n - 1 else j"
  have mid: "length (flat_ids mid) = n" "length (flat_vectors mid) = n * d"
    "flat_dimension mid = d" "flat_kernel mid = flat_kernel ix"
    "flat_ids mid = (flat_ids ix)[row := flat_ids ix ! (n - 1)]"
    "\<And>j. j < n \<Longrightarrow> row_of d (flat_vectors mid) j = row_of d (flat_vectors ix) (?src j)"
    using row moved vs unfolding mid_def by (auto simp: n_def d_def)
  have midmap: "row \<noteq> n - 1 \<Longrightarrow>
      flat_id_to_row mid = (flat_id_to_row ix)(flat_ids ix ! (n - 1) \<mapsto> row)"
    "row = n - 1 \<Longrightarrow> flat_id_to_row mid = flat_id_to_row ix"
    using row moved unfolding mid_def by auto
  have ix': "ix' = mid\<lparr>flat_vectors := take ((n - 1) * d) (flat_vectors mid),
      flat_ids := butlast (flat_ids mid), flat_id_to_row := (flat_id_to_row mid)(vid := None)\<rparr>"
  proof -
    have "flat_erase vid ix = (mid\<lparr>flat_vectors := take (length (flat_vectors mid) - flat_dimension mid)
        (flat_vectors mid), flat_ids := butlast (flat_ids mid),
        flat_id_to_row := (flat_id_to_row mid)(vid := None)\<rparr>, True)"
      using at by (simp add: flat_erase_def Let_def mid_def n_def)
    then show ?thesis using mid by (simp add: ix'_def diff_mult_distrib)
  qed
  show "snd (flat_erase vid ix)" using at by (simp add: flat_erase_def Let_def)
  have ids': "length (flat_ids ix') = n - 1"
    "\<And>j. j < n - 1 \<Longrightarrow> flat_ids ix' ! j = flat_ids ix ! ?src j"
    using mid row by (auto simp: ix' nth_butlast nth_list_update)
  have rows': "\<And>j. j < n - 1 \<Longrightarrow> row_of d (flat_vectors ix') j = row_of d (flat_vectors ix) (?src j)"
    using mid by (simp add: ix' row_of_take [where n = n])
  have inj: "\<And>i j. i < n \<Longrightarrow> j < n \<Longrightarrow> flat_ids ix ! i = flat_ids ix ! j \<longleftrightarrow> i = j"
    using wf by (auto simp: flat_wf_def n_def nth_eq_iff_index_eq)
  have map': "flat_id_to_row ix' x =
      (if x = vid then None else if row \<noteq> n - 1 \<and> x = flat_ids ix ! (n - 1) then Some row
       else flat_id_to_row ix x)" for x
    using midmap row by (cases "row = n - 1") (auto simp: ix')
  have at': "flat_id_to_row ix' x = Some j \<longleftrightarrow> j < n - 1 \<and> x = flat_ids ix ! ?src j" for x j
    using row inj [of "n - 1" row] inj [of j row] inj [of j "n - 1"]
    by (cases "j < n"; cases "row = n - 1")
      (auto simp: map' flat_row_Some [OF wf] n_def [symmetric] split: if_splits)
  show "flat_wf (fst (flat_erase vid ix))"
    unfolding ix'_def [symmetric]
  proof (rule flat_wfI)
    show "0 < flat_dimension ix'" using d mid by (simp add: ix')
    show "length (flat_vectors ix') = length (flat_ids ix') * flat_dimension ix'"
      using mid row(1) d by (simp add: ix' min_def)
    show at2: "flat_id_to_row ix' (flat_ids ix' ! i) = Some i" if "i < length (flat_ids ix')" for i
      using that by (simp add: at' ids')
    show "dom (flat_id_to_row ix') = set (flat_ids ix')"
    proof (rule set_eqI)
      fix x
      have "x \<in> dom (flat_id_to_row ix') \<longleftrightarrow> (\<exists>j. j < n - 1 \<and> x = flat_ids ix ! ?src j)"
        using at' [of x] by blast
      also have "\<dots> \<longleftrightarrow> (\<exists>j. j < n - 1 \<and> flat_ids ix' ! j = x)"
        using ids'(2) by metis
      finally show "x \<in> dom (flat_id_to_row ix') \<longleftrightarrow> x \<in> set (flat_ids ix')"
        by (simp add: in_set_conv_nth ids'(1))
    qed
  qed
  show "flat_abs (fst (flat_erase vid ix)) = (flat_abs ix)(vid := None)"
    unfolding ix'_def [symmetric]
  proof
    fix x
    show "flat_abs ix' x = ((flat_abs ix)(vid := None)) x"
    proof (cases "flat_id_to_row ix' x")
      case None
      with map' [of x] have "flat_id_to_row ix x = None \<or> x = vid"
        by (auto split: if_splits)
      with None show ?thesis by (auto simp: flat_abs_def)
    next
      case (Some j)
      then have j: "j < n - 1" "x = flat_ids ix ! ?src j" by (simp_all add: at')
      moreover have "flat_id_to_row ix x = Some (?src j)"
        using j row by (auto simp: flat_row_Some [OF wf] n_def)
      moreover have "x \<noteq> vid" using Some by (auto simp: map')
      ultimately show ?thesis using Some mid(3) rows'
        by (simp add: flat_abs_def d_def [symmetric]) (simp add: ix')
    qed
  qed
  show "flat_dimension (fst (flat_erase vid ix)) = flat_dimension ix"
    "flat_kernel (fst (flat_erase vid ix)) = flat_kernel ix"
    unfolding ix'_def [symmetric] using mid by (simp_all add: ix' d_def)
qed

lemma flat_erase_absent:
  "flat_id_to_row ix vid = None \<Longrightarrow> flat_erase vid ix = (ix, False)"
  by (simp add: flat_erase_def)

section \<open>Search is the exact Top-K\<close>

text \<open>The specification: the best \<open>k\<close> of all stored vectors.\<close>

definition flat_candidates :: "flat_index \<Rightarrow> dot_kernel \<Rightarrow> f32 list \<Rightarrow> search_result list" where
  "flat_candidates ix raw q = map (flat_candidate ix raw q) [0..<flat_size ix]"

definition flat_top_k :: "flat_index \<Rightarrow> dot_kernel \<Rightarrow> f32 list \<Rightarrow> nat \<Rightarrow> search_result list" where
  "flat_top_k ix raw q k = take k (sort_by is_better (flat_candidates ix raw q))"

definition flat_scored :: "flat_index \<Rightarrow> dot_kernel \<Rightarrow> f32 list \<Rightarrow> bool" where
  "flat_scored ix raw q \<longleftrightarrow> (\<forall>r\<in>set (flat_candidates ix raw q). has_score r)"

lemma drain_Inr: "drain ctx env q p out = Inr (p', out') \<Longrightarrow> out' = out @ q"
  by (induction q arbitrary: p out) (fastforce simp: result_simps)+

lemma drain_error: "drain ctx env q p out = Inl e \<Longrightarrow> is_interruption e"
  by (induction q arbitrary: p out) (auto simp: result_simps dest: checkpoint_error)

lemma drain_quiet: "quiet ctx env \<Longrightarrow> \<exists>p'. drain ctx env q p out = Inr (p', out @ q)"
proof (induction q arbitrary: p out)
  case (Cons x q)
  obtain p1 where "checkpoint ctx env p = Inr p1" using quiet_checkpoint [OF Cons.prems] by blast
  with Cons.IH [OF Cons.prems, of p1 "out @ [x]"] show ?case by simp
qed simp

lemma flat_scan_Inr:
  "flat_scan ctx env cand n rows p q = Inr (p', q') \<Longrightarrow>
     q' = fold (\<lambda>i. keep_best is_better n (cand i)) rows q"
  by (induction rows arbitrary: p q) (auto simp: result_simps)

lemma flat_scan_error: "flat_scan ctx env cand n rows p q = Inl e \<Longrightarrow> is_interruption e"
  by (induction rows arbitrary: p q) (auto simp: result_simps dest: checkpoint_error)

lemma flat_scan_quiet:
  "quiet ctx env \<Longrightarrow> \<exists>p'. flat_scan ctx env cand n rows p q =
     Inr (p', fold (\<lambda>i. keep_best is_better n (cand i)) rows q)"
proof (induction rows arbitrary: p q)
  case (Cons i rows)
  obtain p1 where "checkpoint ctx env p = Inr p1" using quiet_checkpoint [OF Cons.prems] by blast
  with Cons.IH [OF Cons.prems, of p1] show ?case by simp
qed simp

lemma fold_keep_best:
  assumes "flat_rank.rankable (map cand rows @ xs)" "0 < n"
    "rev q = take n (sort_by is_better xs)"
  shows "rev (fold (\<lambda>i. keep_best is_better n (cand i)) rows q) =
    take n (sort_by is_better (rev (map cand rows) @ xs))"
  using assms
proof (induction rows arbitrary: q xs)
  case (Cons i rows)
  have "flat_rank.rankable (cand i # xs)"
    using Cons.prems(1) by (auto simp: flat_rank.rankable_Cons flat_rank.rankable_append)
  then have step: "rev (keep_best is_better n (cand i) q) = take n (sort_by is_better (cand i # xs))"
    using Cons.prems by (intro flat_rank.keep_best_step) auto
  have "flat_rank.rankable (map cand rows @ cand i # xs)"
    using Cons.prems(1)
    by (subst flat_rank.rankable_mset [of _ "map cand (i # rows) @ xs"]) auto
  from Cons.IH [OF this Cons.prems(2) step] show ?case by simp
qed simp

lemma flat_candidates_rankable:
  assumes "flat_wf ix" "flat_scored ix raw q"
  shows "flat_rank.rankable (flat_candidates ix raw q)"
proof -
  have "map result_id (flat_candidates ix raw q) = flat_ids ix"
    by (simp add: flat_candidates_def flat_candidate_def comp_def flat_size_def map_nth)
  then show ?thesis
    using assms by (auto simp: flat_rank.rankable_def flat_wf_def flat_scored_def)
qed

lemma flat_scan_top_k:
  assumes "flat_wf ix" "flat_scored ix raw q" "0 < n" "n \<le> k"
    and "n = min k (flat_size ix)"
  shows "sort_by is_better
      (fold (\<lambda>i. keep_best is_better n (flat_candidate ix raw q i)) [0..<flat_size ix] []) =
    flat_top_k ix raw q k"
proof -
  let ?c = "flat_candidates ix raw q"
  let ?q = "fold (\<lambda>i. keep_best is_better n (flat_candidate ix raw q i)) [0..<flat_size ix] []"
  have ok: "flat_rank.rankable ?c" using assms by (rule_tac flat_candidates_rankable)
  have len: "length (sort_by is_better ?c) = flat_size ix" by (simp add: flat_candidates_def)
  have "rev ?q = take n (sort_by is_better (rev ?c @ []))"
    unfolding flat_candidates_def
    by (rule fold_keep_best) (use ok assms(3) in \<open>simp_all add: flat_candidates_def\<close>)
  also have "sort_by is_better (rev ?c @ []) = sort_by is_better ?c"
    using ok by (intro flat_rank.sort_by_mset_cong) simp_all
  also have "take n (sort_by is_better ?c) = flat_top_k ix raw q k"
    using assms(5) len by (auto simp: flat_top_k_def min_def)
  finally have rq: "rev ?q = flat_top_k ix raw q k" .
  have ranked: "flat_rank.ranked (flat_top_k ix raw q k)"
    unfolding flat_top_k_def using ok by (intro sorted_wrt_take flat_rank.ranked_sort_by)
  have "flat_rank.rankable (take k (sort_by is_better ?c) @ drop k (sort_by is_better ?c))"
    using ok by simp
  then have "flat_rank.rankable (flat_top_k ix raw q k)"
    unfolding flat_rank.rankable_append flat_top_k_def by blast
  moreover have "mset ?q = mset (flat_top_k ix raw q k)" by (metis mset_rev rq)
  ultimately have "flat_rank.rankable ?q" using flat_rank.rankable_mset by metis
  with ranked \<open>mset ?q = mset (flat_top_k ix raw q k)\<close> show ?thesis
    by (intro flat_rank.sort_by_eqI) simp_all
qed

text \<open>The possible outcomes of a search, in the order of the code's checks.\<close>

lemma flat_search_outcome:
  assumes wf: "flat_wf ix" and scored: "\<And>q. normalize_l2 query = Inr q \<Longrightarrow>
      flat_scored ix (flat_kernel ix) q"
    and res: "flat_search avx2 ix query k ctx env = Inr rs"
  shows "k = 0 \<and> rs = [] \<or>
    (\<exists>q. normalize_l2 query = Inr q \<and> rs = flat_top_k ix (flat_kernel ix) q k)"
proof (cases "k = 0")
  case True
  then show ?thesis using res by (auto simp: flat_search_def result_simps)
next
  case False
  with res obtain n q raw where *: "check ctx env 0 = Inr n" "normalize_l2 query = Inr q"
    "resolve_dot_product_kernel avx2 (flat_kernel ix) = Inr raw"
    by (auto simp: flat_search_def result_simps split: if_splits)
  then have raw: "raw = flat_kernel ix" by (simp add: resolve_dot_product_kernel_Inr)
  show ?thesis
  proof (cases "flat_size ix = 0")
    case True
    then have "rs = []" using res False *
      by (auto simp: flat_search_def result_simps split: if_splits)
    then show ?thesis using * True by (auto simp: flat_top_k_def flat_candidates_def)
  next
    case n: False
    from res False * n obtain p c p' out where
      scan: "flat_scan ctx env (flat_candidate ix raw q) (min k (flat_size ix)) [0..<flat_size ix]
        (0, n) [] = Inr (p, c)"
      and dr: "drain ctx env c p [] = Inr (p', out)" and rs: "rs = sort_by is_better out"
      by (auto simp: flat_search_def result_simps Let_def split: if_splits)
    from scan have c: "c = fold (\<lambda>i. keep_best is_better (min k (flat_size ix))
        (flat_candidate ix raw q i)) [0..<flat_size ix] []"
      by (rule flat_scan_Inr)
    have "rs = sort_by is_better c" using rs drain_Inr [OF dr] by simp
    also have "\<dots> = flat_top_k ix raw q k"
      unfolding c using wf scored [OF *(2)] False n
      by (intro flat_scan_top_k) (simp_all add: raw)
    finally show ?thesis using * raw by blast
  qed
qed

lemma flat_search_quiet:
  assumes wf: "flat_wf ix" and scored: "flat_scored ix (flat_kernel ix) q"
    and "quiet ctx env" "check_interval ctx \<noteq> 0" "k \<noteq> 0"
    and "length query = flat_dimension ix" "normalize_l2 query = Inr q"
    and "flat_kernel ix = Avx2 \<longrightarrow> avx2"
  shows "flat_search avx2 ix query k ctx env = Inr (flat_top_k ix (flat_kernel ix) q k)"
proof -
  obtain p c where scan: "flat_scan ctx env (flat_candidate ix (flat_kernel ix) q)
      (min k (flat_size ix)) [0..<flat_size ix] (0, Suc 0) [] = Inr (p, c)"
    using flat_scan_quiet [OF assms(3)] by blast
  obtain p' where dr: "drain ctx env c p [] = Inr (p', c)"
    using drain_quiet [OF assms(3), of c p "[]"] by auto
  have raw: "resolve_dot_product_kernel avx2 (flat_kernel ix) = Inr (flat_kernel ix)"
    using assms(8) by (simp add: resolve_dot_product_kernel_Inr)
  have val: "validate_context ctx = Inr ()" using assms(4) by (simp add: validate_context_def)
  have "\<exists>rs. flat_search avx2 ix query k ctx env = Inr rs"
    using assms scan dr raw val by (simp add: flat_search_def Let_def)
  then obtain rs where "flat_search avx2 ix query k ctx env = Inr rs" ..
  with flat_search_outcome [OF wf _ this] assms show ?thesis by auto
qed

lemma flat_search_interrupted:
  assumes "flat_search avx2 ix query k ctx env = Inl e" "check_interval ctx \<noteq> 0"
    "length query = flat_dimension ix" "normalize_l2 query = Inr q" "flat_kernel ix = Avx2 \<longrightarrow> avx2"
  shows "is_interruption e"
proof -
  have raw: "resolve_dot_product_kernel avx2 (flat_kernel ix) = Inr (flat_kernel ix)"
    using assms(5) by (simp add: resolve_dot_product_kernel_Inr)
  with assms show ?thesis
    by (auto simp: flat_search_def validate_context_def result_simps Let_def
        split: if_splits dest: check_error flat_scan_error drain_error)
qed

subsection \<open>The result depends on the stored vectors only\<close>

lemma flat_candidates_set:
  assumes "flat_wf ix"
  shows "set (flat_candidates ix raw q) =
    {\<lparr>result_id = vid, result_score = raw_dot_product raw q v\<rparr> | vid v. flat_abs ix vid = Some v}"
    (is "?C = ?A")
proof
  show "?C \<subseteq> ?A"
    using assms by (force simp: flat_candidates_def flat_candidate_def flat_abs_def flat_size_def
        flat_row_Some)
  show "?A \<subseteq> ?C"
    using assms by (auto simp: flat_candidates_def flat_candidate_def flat_abs_def flat_size_def
        flat_row_Some)
qed

lemma flat_candidates_mset_cong:
  assumes "flat_wf ix" "flat_wf iy" "flat_abs ix = flat_abs iy"
  shows "mset (flat_candidates ix raw q) = mset (flat_candidates iy raw q)"
proof -
  have dist: "distinct (flat_candidates iz raw q)" if "flat_wf iz" for iz
  proof -
    have "map result_id (flat_candidates iz raw q) = flat_ids iz"
      by (simp add: flat_candidates_def flat_candidate_def comp_def flat_size_def map_nth)
    with that show ?thesis by (metis distinct_map flat_wf_def)
  qed
  have "set (flat_candidates ix raw q) = set (flat_candidates iy raw q)"
    using assms by (simp add: flat_candidates_set)
  with dist assms show ?thesis by (simp add: set_eq_iff_mset_eq_distinct)
qed

lemma flat_top_k_cong:
  assumes "flat_wf ix" "flat_wf iy" "flat_abs ix = flat_abs iy" "flat_scored ix raw q"
  shows "flat_top_k ix raw q k = flat_top_k iy raw q k"
  using flat_rank.sort_by_mset_cong [OF flat_candidates_mset_cong [OF assms(1-3)]]
    flat_candidates_rankable [OF assms(1,4)]
  by (simp add: flat_top_k_def)

text \<open>What a Top-K list is, in terms of the stored vectors.\<close>

lemma flat_top_k_facts:
  assumes wf: "flat_wf ix" and scored: "flat_scored ix raw q"
  shows "sorted_wrt is_better (flat_top_k ix raw q k)"
    and "distinct (map result_id (flat_top_k ix raw q k))"
    and "length (flat_top_k ix raw q k) = min k (flat_size ix)"
    and "r \<in> set (flat_top_k ix raw q k) \<Longrightarrow>
      \<exists>v. flat_abs ix (result_id r) = Some v \<and> result_score r = raw_dot_product raw q v"
    and "r \<in> set (flat_top_k ix raw q k) \<Longrightarrow> flat_abs ix vid = Some v \<Longrightarrow>
      vid \<notin> result_id ` set (flat_top_k ix raw q k) \<Longrightarrow>
      is_better r \<lparr>result_id = vid, result_score = raw_dot_product raw q v\<rparr>"
proof -
  let ?s = "sort_by is_better (flat_candidates ix raw q)"
  have ok: "flat_rank.rankable ?s" using flat_candidates_rankable [OF assms] by simp
  have ranked: "flat_rank.ranked ?s"
    using flat_candidates_rankable [OF assms] by (rule flat_rank.ranked_sort_by)
  show "sorted_wrt is_better (flat_top_k ix raw q k)"
    unfolding flat_top_k_def using ranked by (rule sorted_wrt_take)
  show "distinct (map result_id (flat_top_k ix raw q k))"
    using ok by (simp add: flat_top_k_def flat_rank.rankable_def take_map [symmetric])
  show "length (flat_top_k ix raw q k) = min k (flat_size ix)"
    by (simp add: flat_top_k_def flat_candidates_def min.commute)
  show "\<exists>v. flat_abs ix (result_id r) = Some v \<and> result_score r = raw_dot_product raw q v"
    if "r \<in> set (flat_top_k ix raw q k)"
  proof -
    have "r \<in> set ?s" using that unfolding flat_top_k_def by (rule in_set_takeD)
    then show ?thesis using wf by (auto simp: flat_candidates_set)
  qed
  show "is_better r \<lparr>result_id = vid, result_score = raw_dot_product raw q v\<rparr>"
    if r: "r \<in> set (flat_top_k ix raw q k)" and v: "flat_abs ix vid = Some v"
      and out: "vid \<notin> result_id ` set (flat_top_k ix raw q k)"
  proof -
    let ?x = "\<lparr>result_id = vid, result_score = raw_dot_product raw q v\<rparr>"
    have "?x \<in> set (take k ?s @ drop k ?s)" using v wf by (auto simp: flat_candidates_set)
    moreover have "?x \<notin> set (take k ?s)" using out unfolding flat_top_k_def by force
    ultimately have "?x \<in> set (drop k ?s)" by (metis Un_iff set_append)
    moreover have "sorted_wrt is_better (take k ?s @ drop k ?s)" using ranked by simp
    ultimately show ?thesis
      using r unfolding flat_top_k_def sorted_wrt_append by blast
  qed
qed

end
