(* ===== verification/Ieee754_Bounds.thy ===== *)
theory Ieee754_Bounds
  imports Ieee754
begin

text \<open>
  Real values of the floating-point operations. \<open>magnitude_value\<close> is strictly monotone in
  the magnitude bits, and rounding is the monotone projection onto the representable
  values: a representable bound of the exact result bounds the rounded result. From these
  two facts follow the bounds of sums, products, quotients and square roots the index
  components need to exclude NaN and infinity.
\<close>

section \<open>Magnitudes are ordered as their values\<close>

definition two_powi :: "int \<Rightarrow> real" where
  "two_powi e = 2 powr real_of_int e"

lemma two_powi_pos [simp]: "0 < two_powi e"
  by (simp add: two_powi_def)

lemma two_powi_nonneg [simp]: "0 \<le> two_powi e"
  by (simp add: less_imp_le)

lemma two_powi_add: "two_powi (e + f) = two_powi e * two_powi f"
  by (simp add: two_powi_def powr_add)

lemma two_powi_nat: "two_powi (int n) = 2 ^ n"
  by (simp add: two_powi_def powr_realpow)

lemma two_powi_0 [simp]: "two_powi 0 = 1"
  by (simp add: two_powi_def)

lemma two_powi_shift: "e \<le> f \<Longrightarrow> two_powi f = two_powi e * 2 ^ nat (f - e)"
  using two_powi_add [of e "f - e"] two_powi_nat [of "nat (f - e)"] by simp

lemma two_powi_mono: "e \<le> f \<Longrightarrow> two_powi e \<le> two_powi f"
  by (simp add: two_powi_def)

lemma magnitude_value_two_powi:
  "magnitude_value F g = real (fst (mag_parts F g)) * two_powi (snd (mag_parts F g))"
  by (simp add: magnitude_value_def two_powi_def split: prod.splits)

lemma mag_parts_enc:
  assumes "m < 2 * hidden_bit F" "k = 0 \<or> hidden_bit F \<le> m"
  shows "mag_parts F (m + k * hidden_bit F) = (m, fp_emin F + int k)"
proof (cases "m < hidden_bit F")
  case True
  then show ?thesis using assms by (auto simp: mag_parts_def field_parts_def)
next
  case False
  then obtain f where f: "m = hidden_bit F + f" by (metis le_Suc_ex not_le)
  then have "f < hidden_bit F" using assms by simp
  moreover have "m + k * hidden_bit F = f + Suc k * hidden_bit F" using f by simp
  ultimately show ?thesis
    by (simp add: mag_parts_def field_parts_def f del: mult_Suc)
qed

lemma magnitude_value_enc:
  assumes "m \<le> 2 * hidden_bit F" "k = 0 \<or> hidden_bit F \<le> m"
  shows "magnitude_value F (m + k * hidden_bit F) = real m * two_powi (fp_emin F + int k)"
proof (cases "m = 2 * hidden_bit F")
  case True
  then have "m + k * hidden_bit F = hidden_bit F + Suc k * hidden_bit F" by simp
  then have "magnitude_value F (m + k * hidden_bit F) =
      real (hidden_bit F) * two_powi (fp_emin F + int k + 1)"
    using mag_parts_enc [of "hidden_bit F" F "Suc k"]
    by (simp add: magnitude_value_two_powi ac_simps)
  then show ?thesis using True two_powi_add [of "fp_emin F + int k" 1] two_powi_nat [of 1] by simp
next
  case False
  then have "m < 2 * hidden_bit F" using assms(1) by simp
  from mag_parts_enc [OF this assms(2)] show ?thesis by (simp add: magnitude_value_two_powi)
qed

lemma mag_decomp:
  obtains m k where "g = m + k * hidden_bit F" "m < 2 * hidden_bit F" "k = 0 \<or> hidden_bit F \<le> m"
proof (cases "g < hidden_bit F")
  case True
  then show ?thesis using that [of g 0] by simp
next
  case False
  define b where "b = g div hidden_bit F"
  have "0 < b" using False by (simp add: b_def div_greater_zero_iff)
  have "g = g mod hidden_bit F + b * hidden_bit F"
    unfolding b_def by (rule mod_div_mult_eq [symmetric])
  also have "\<dots> = (g mod hidden_bit F + hidden_bit F) + (b - 1) * hidden_bit F"
    using \<open>0 < b\<close> by (cases b) simp_all
  finally show ?thesis
    by (rule that) (simp_all add: mult_2)
qed

lemma magnitude_value_Suc: "magnitude_value F g < magnitude_value F (Suc g)"
proof -
  obtain m k where g: "g = m + k * hidden_bit F" and m: "m < 2 * hidden_bit F"
    and k: "k = 0 \<or> hidden_bit F \<le> m"
    by (rule mag_decomp)
  have "Suc g = Suc m + k * hidden_bit F" using g by simp
  moreover have "magnitude_value F (Suc m + k * hidden_bit F) =
      real (Suc m) * two_powi (fp_emin F + int k)"
    using m k by (intro magnitude_value_enc) auto
  moreover have "magnitude_value F g = real m * two_powi (fp_emin F + int k)"
    unfolding g using m k by (intro magnitude_value_enc) auto
  ultimately show ?thesis by simp
qed

lemma magnitude_value_less_iff [simp]:
  "magnitude_value F g < magnitude_value F g' \<longleftrightarrow> g < g'"
proof -
  have "strict_mono (magnitude_value F)"
    by (simp add: strict_mono_Suc_iff magnitude_value_Suc)
  then show ?thesis by (simp add: strict_mono_less)
qed

lemma magnitude_value_le_iff [simp]:
  "magnitude_value F g \<le> magnitude_value F g' \<longleftrightarrow> g \<le> g'"
  by (meson linorder_not_less magnitude_value_less_iff)

lemma magnitude_value_0 [simp]: "magnitude_value F 0 = 0"
  using magnitude_value_enc [of 0 F 0] by simp

lemma magnitude_value_nonneg [simp]: "0 \<le> magnitude_value F g"
  using magnitude_value_le_iff [of F 0 g] by (simp del: magnitude_value_le_iff)

section \<open>Rounding projects onto the representable values\<close>

lemma bit_len_bounds: "0 < m \<Longrightarrow> 2 ^ (bit_len m - 1) \<le> m \<and> m < 2 ^ bit_len m \<and> 0 < bit_len m"
proof (induction m rule: bit_len.induct)
  case (1 n)
  show ?case
  proof (cases "n div 2 = 0")
    case True
    then have "n = 1" using 1(2) by (simp add: div_eq_0_iff)
    then show ?thesis by (simp add: bit_len.simps [of "Suc 0"] bit_len.simps [of 0])
  next
    case False
    then have IH: "2 ^ (bit_len (n div 2) - 1) \<le> n div 2" "n div 2 < 2 ^ bit_len (n div 2)"
      "0 < bit_len (n div 2)"
      using 1 by auto
    have len: "bit_len n = Suc (bit_len (n div 2))" using 1(2) by (simp add: bit_len.simps [of n])
    obtain j where j: "bit_len (n div 2) = Suc j" using IH(3) gr0_conv_Suc by auto
    from IH show ?thesis unfolding len j by (simp, linarith)
  qed
qed

lemma round_half_even_cases:
  assumes "0 < half"
  shows "round_half_even q r half = q \<or> (round_half_even q r half = Suc q \<and> 0 < r)"
  using assms by (auto simp: round_half_even_def)

lemma round_magnitude_cases:
  assumes "0 < m" "1 \<le> fp_prec F"
  obtains L where "magnitude_value F L \<le> real m * two_powi e"
    "real m * two_powi e < magnitude_value F (Suc L)"
    "round_magnitude F m e = min L (inf_mag F) \<or>
     (round_magnitude F m e = min (Suc L) (inf_mag F) \<and> magnitude_value F L < real m * two_powi e)"
proof -
  define bl where "bl = bit_len m"
  define e' where "e' = max (fp_emin F) (e + int bl - int (fp_prec F))"
  define k where "k = nat (e' - fp_emin F)"
  have bl: "2 ^ (bl - 1) \<le> m" "m < 2 ^ bl" "0 < bl"
    using bit_len_bounds [OF assms(1)] by (auto simp: bl_def)
  have e'k: "fp_emin F + int k = e'" by (simp add: k_def e'_def)
  have h2: "2 * hidden_bit F = 2 ^ fp_prec F" using assms(2) by (cases "fp_prec F") auto
  have round: "round_magnitude F m e =
      min ((if e' \<le> e then m * 2 ^ nat (e - e') else round_shift m (nat (e' - e)))
           + k * hidden_bit F) (inf_mag F)"
    using assms(1) by (simp add: round_magnitude_def round_at_def e'_def bl_def k_def)
  show thesis
  proof (cases "e' \<le> e")
    case True
    define j where "j = nat (e - e')"
    have ij: "int bl + int j \<le> int (fp_prec F)" using True by (auto simp: e'_def j_def)
    have "m * 2 ^ j < 2 ^ bl * 2 ^ j" using bl(2) by simp
    also have "\<dots> \<le> 2 ^ fp_prec F" using ij by (simp flip: power_add)
    finally have lt: "m * 2 ^ j < 2 * hidden_bit F" by (simp only: h2)
    have ge: "k = 0 \<or> hidden_bit F \<le> m * 2 ^ j"
    proof (rule disjCI)
      assume nz: "\<not> hidden_bit F \<le> m * 2 ^ j"
      show "k = 0"
      proof (rule ccontr)
        assume "k \<noteq> 0"
        then have "e' = e + int bl - int (fp_prec F)" by (auto simp: k_def e'_def)
        then have "bl + j = fp_prec F" using True by (simp add: j_def)
        then have "hidden_bit F = 2 ^ (bl - 1) * 2 ^ j"
          using bl(3) by (simp flip: power_add)
        also have "\<dots> \<le> m * 2 ^ j" using bl(1) by simp
        finally show False using nz by simp
      qed
    qed
    let ?L = "m * 2 ^ j + k * hidden_bit F"
    have "magnitude_value F ?L = real (m * 2 ^ j) * two_powi e'"
      using lt ge by (subst magnitude_value_enc) (auto simp: e'k)
    also have "\<dots> = real m * two_powi e"
      using two_powi_shift [OF True] by (simp add: j_def)
    finally have val: "magnitude_value F ?L = real m * two_powi e" .
    have "round_magnitude F m e = min ?L (inf_mag F)" using round True by (simp add: j_def)
    with val magnitude_value_Suc [of F ?L] show thesis by (intro that [of ?L]) auto
  next
    case False
    define sh where "sh = nat (e' - e)"
    define q where "q = m div 2 ^ sh"
    define r where "r = m mod 2 ^ sh"
    have m: "m = q * 2 ^ sh + r" unfolding q_def r_def by (rule div_mult_mod_eq [symmetric])
    have r_lt: "r < 2 ^ sh" by (simp add: r_def)
    have sh: "0 < sh" "e' = e + int sh" using False by (auto simp: sh_def)
    have "bl \<le> fp_prec F + sh" using sh(2) by (auto simp: e'_def)
    then have "(2::nat) ^ bl \<le> 2 ^ (fp_prec F + sh)" by (intro power_increasing) auto
    then have "m < 2 ^ (fp_prec F + sh)" using bl(2) by (rule less_le_trans [rotated])
    then have "q < 2 ^ fp_prec F" by (simp add: q_def power_add div_less_iff_less_mult)
    then have lt: "q < 2 * hidden_bit F" by (simp only: h2)
    have ge: "k = 0 \<or> hidden_bit F \<le> q"
    proof (rule disjCI)
      assume nz: "\<not> hidden_bit F \<le> q"
      show "k = 0"
      proof (rule ccontr)
        assume "k \<noteq> 0"
        then have "e' = e + int bl - int (fp_prec F)" by (auto simp: k_def e'_def)
        then have "bl = fp_prec F + sh" using sh(2) by linarith
        then have *: "fp_prec F - 1 + sh = bl - 1" using assms(2) by linarith
        have "hidden_bit F * 2 ^ sh = 2 ^ (bl - 1)" by (simp only: power_add [symmetric] *)
        then have "hidden_bit F * 2 ^ sh \<le> m" using bl(1) by simp
        then have "hidden_bit F \<le> q" by (simp add: q_def less_eq_div_iff_mult_less_eq)
        then show False using nz by simp
      qed
    qed
    let ?L = "q + k * hidden_bit F"
    have vL: "magnitude_value F ?L = real q * two_powi e'"
      using lt ge by (subst magnitude_value_enc) (auto simp: e'k)
    have "Suc ?L = Suc q + k * hidden_bit F" by simp
    then have vS: "magnitude_value F (Suc ?L) = real (Suc q) * two_powi e'"
      using lt ge magnitude_value_enc [of "Suc q" F k] by (auto simp: e'k)
    have pe: "two_powi e' = two_powi e * 2 ^ sh"
      using two_powi_add [of e "int sh"] by (simp add: sh two_powi_nat)
    have x: "real m * two_powi e = real q * two_powi e' + real r * two_powi e"
      by (subst m) (simp add: pe algebra_simps)
    have "real r < 2 ^ sh" using r_lt by (metis of_nat_less_iff of_nat_numeral of_nat_power)
    then have up: "real r * two_powi e < two_powi e'" by (simp add: pe mult.commute)
    have rs: "round_shift m sh = q \<or> (round_shift m sh = Suc q \<and> 0 < r)"
      unfolding round_shift_def q_def r_def by (rule round_half_even_cases) simp
    have rd: "round_magnitude F m e = min (round_shift m sh + k * hidden_bit F) (inf_mag F)"
      using round False by (simp add: sh_def)
    show thesis
    proof (rule that [of ?L])
      show "magnitude_value F ?L \<le> real m * two_powi e" unfolding vL x by (simp add: less_imp_le)
      show "real m * two_powi e < magnitude_value F (Suc ?L)"
        using up unfolding vS x by (simp add: algebra_simps)
      show "round_magnitude F m e = min ?L (inf_mag F) \<or>
        (round_magnitude F m e = min (Suc ?L) (inf_mag F) \<and> magnitude_value F ?L < real m * two_powi e)"
        using rs rd unfolding vL x by (auto simp del: One_nat_def)
    qed
  qed
qed

theorem round_magnitude_le:
  assumes "1 \<le> fp_prec F" "real m * two_powi e \<le> magnitude_value F g"
  shows "round_magnitude F m e \<le> g"
proof (cases "m = 0")
  case False
  then have "0 < m" by simp
  from this assms(1) obtain L where L: "magnitude_value F L \<le> real m * two_powi e"
    "round_magnitude F m e = min L (inf_mag F) \<or>
     (round_magnitude F m e = min (Suc L) (inf_mag F) \<and> magnitude_value F L < real m * two_powi e)"
    by (rule round_magnitude_cases)
  from L(1) assms(2) have "L \<le> g"
    using magnitude_value_le_iff order_trans by blast
  moreover have "magnitude_value F L < real m * two_powi e \<Longrightarrow> Suc L \<le> g"
    using assms(2) magnitude_value_less_iff [of F L g]
    by (metis Suc_leI less_le_trans)
  ultimately show ?thesis using L(2) by auto
qed (simp add: round_magnitude_def)

theorem round_magnitude_ge:
  assumes "1 \<le> fp_prec F" "magnitude_value F g \<le> real m * two_powi e" "g \<le> inf_mag F"
  shows "g \<le> round_magnitude F m e"
proof (cases "m = 0")
  case True
  then show ?thesis using assms(2) magnitude_value_le_iff [of F g 0]
    by (simp add: round_magnitude_def)
next
  case False
  then have "0 < m" by simp
  from this assms(1) obtain L where L: "real m * two_powi e < magnitude_value F (Suc L)"
    "round_magnitude F m e = min L (inf_mag F) \<or> round_magnitude F m e = min (Suc L) (inf_mag F)"
    by (rule round_magnitude_cases) blast
  then have "g < Suc L" using assms(2) magnitude_value_less_iff [of F g "Suc L"]
    by (meson le_less_trans)
  then show ?thesis using L(2) assms(3) by auto
qed

section \<open>Representable bounds\<close>

text \<open>A finite value of the format; the bound of a rounded result has to be one.\<close>

definition representable :: "float_format \<Rightarrow> real \<Rightarrow> bool" where
  "representable F B \<longleftrightarrow> (\<exists>g < inf_mag F. magnitude_value F g = B)"

lemma representable_value: "g < inf_mag F \<Longrightarrow> representable F (magnitude_value F g)"
  by (auto simp: representable_def)

lemma round_magnitude_bounded:
  assumes "1 \<le> fp_prec F" "representable F B" "real m * two_powi e \<le> B"
  shows "round_magnitude F m e < inf_mag F \<and> magnitude_value F (round_magnitude F m e) \<le> B"
proof -
  obtain g where g: "g < inf_mag F" "magnitude_value F g = B"
    using assms(2) by (auto simp: representable_def)
  have "round_magnitude F m e \<le> g"
    using assms g by (intro round_magnitude_le) auto
  with g show ?thesis by (metis le_less_trans magnitude_value_le_iff)
qed

lemma round_magnitude_at_least:
  assumes "1 \<le> fp_prec F" "representable F B" "B \<le> real m * two_powi e"
  shows "B \<le> magnitude_value F (round_magnitude F m e)"
proof -
  obtain g where g: "g < inf_mag F" "magnitude_value F g = B"
    using assms(2) by (auto simp: representable_def)
  have "g \<le> round_magnitude F m e"
    using assms g by (intro round_magnitude_ge) auto
  with g show ?thesis by (metis magnitude_value_le_iff)
qed

lemma round_magnitude_exact:
  assumes "1 \<le> fp_prec F" "representable F (real m * two_powi e)"
  shows "round_magnitude F m e < inf_mag F
    \<and> magnitude_value F (round_magnitude F m e) = real m * two_powi e"
  using round_magnitude_bounded [OF assms] round_magnitude_at_least [OF assms] by force

lemma representable_scaled:
  assumes "1 \<le> fp_prec F" "n < 2 ^ fp_prec F" "fp_emin F \<le> e"
    and "e \<le> fp_emin F + int (fp_top F) - 1 - int (fp_prec F)" "fp_prec F < fp_top F"
  shows "representable F (real n * two_powi e)"
  using assms(2,3,4)
proof (induction "fp_prec F - bit_len n" arbitrary: n e)
  text \<open>Shift the significand left until it is normal or the exponent is minimal.\<close>
  case (0 n e)
  have top: "2 * hidden_bit F = 2 ^ fp_prec F" using assms(1) by (cases "fp_prec F") auto
  have small: "n < 2 * hidden_bit F" using 0 by (simp only: top)
  have "hidden_bit F \<le> n \<or> n = 0"
  proof (cases "n = 0")
    case False
    then have "2 ^ (bit_len n - 1) \<le> n" using bit_len_bounds [of n] by simp
    moreover have "fp_prec F - 1 \<le> bit_len n - 1" using 0 by simp
    then have "hidden_bit F \<le> 2 ^ (bit_len n - 1)" by (intro power_increasing) auto
    ultimately show ?thesis by linarith
  qed simp
  then show ?case
  proof
    assume n: "hidden_bit F \<le> n"
    define k where "k = nat (e - fp_emin F)"
    have "magnitude_value F (n + k * hidden_bit F) = real n * two_powi e"
      using small n 0 by (subst magnitude_value_enc) (auto simp: k_def)
    moreover have "n + k * hidden_bit F < (k + 2) * hidden_bit F" using small by simp
    moreover have "k + 2 \<le> fp_top F" using 0 assms(1,5) by (auto simp: k_def)
    then have "(k + 2) * hidden_bit F \<le> inf_mag F" unfolding inf_mag_def by (rule mult_le_mono1)
    ultimately show ?thesis unfolding representable_def by (meson less_le_trans)
  next
    assume "n = 0"
    then show ?thesis
      using assms(5) by (auto simp: representable_def inf_mag_def intro!: exI [of _ 0])
  qed
next
  case (Suc d n e)
  show ?case
  proof (cases "e = fp_emin F \<and> n < hidden_bit F")
    case True
    then have "magnitude_value F n = real n * two_powi e"
      using magnitude_value_enc [of n F 0] by simp
    moreover have "hidden_bit F \<le> inf_mag F" using assms(5) by (simp add: inf_mag_def)
    then have "n < inf_mag F" using True by simp
    ultimately show ?thesis by (auto simp: representable_def)
  next
    case False
    have len: "bit_len n < fp_prec F" using Suc.hyps(2) by simp
    have "n < 2 ^ bit_len n"
      using bit_len_bounds [of n] by (cases "n = 0") auto
    also have "(2::nat) ^ bit_len n \<le> hidden_bit F" using len by (intro power_increasing) auto
    finally have "n < hidden_bit F" .
    with False have e: "fp_emin F \<le> e - 1" using Suc.prems by auto
    show ?thesis
    proof (cases "n = 0")
      case True
      then show ?thesis
        using assms(5) by (auto simp: representable_def inf_mag_def intro!: exI [of _ 0])
    next
      case n: False
      then have "bit_len (2 * n) = Suc (bit_len n)" by (simp add: bit_len.simps [of "2 * n"])
      then have "d = fp_prec F - bit_len (2 * n)" using Suc.hyps(2) by simp
      moreover have "2 * n < 2 * hidden_bit F" using \<open>n < hidden_bit F\<close> by simp
      then have "2 * n < 2 ^ fp_prec F" using assms(1) by (cases "fp_prec F") auto
      ultimately have "representable F (real (2 * n) * two_powi (e - 1))"
        using e Suc.prems by (intro Suc.hyps(1)) auto
      moreover have "two_powi e = 2 * two_powi (e - 1)"
        using two_powi_add [of "e - 1" 1] two_powi_nat [of 1] by simp
      then have "real (2 * n) * two_powi (e - 1) = real n * two_powi e" by simp
      ultimately show ?thesis by (simp only:)
    qed
  qed
qed

lemma format_facts [simp]:
  "fp_prec binary32 = 24" "fp_emin binary32 = -149" "fp_top binary32 = 255"
  "fp_prec binary64 = 53" "fp_emin binary64 = -1074" "fp_top binary64 = 2047"
  by (simp_all add: binary32_def binary64_def)

lemma representable32: "n < 2 ^ 24 \<Longrightarrow> - 149 \<le> e \<Longrightarrow> e \<le> 80 \<Longrightarrow>
    representable binary32 (real n * two_powi e)"
  by (rule representable_scaled) simp_all

lemma representable64: "n < 2 ^ 53 \<Longrightarrow> - 1074 \<le> e \<Longrightarrow> e \<le> 900 \<Longrightarrow>
    representable binary64 (real n * two_powi e)"
  by (rule representable_scaled) simp_all

section \<open>Bounds of sums, products and conversions\<close>

text \<open>\<open>fp_within F a B\<close>: the value is finite and at most \<open>B\<close> in magnitude.\<close>

definition fp_within :: "float_format \<Rightarrow> signed_mag \<Rightarrow> real \<Rightarrow> bool" where
  "fp_within F a B \<longleftrightarrow> is_finite_mag F a \<and> magnitude_value F (snd a) \<le> B"

lemma within_mono: "fp_within F a B \<Longrightarrow> B \<le> C \<Longrightarrow> fp_within F a C"
  by (auto simp: fp_within_def)

lemma within_not_special: "fp_within F a B \<Longrightarrow> \<not> is_nan_mag F a \<and> \<not> is_inf_mag F a"
  by (auto simp: fp_within_def is_finite_mag_def is_nan_mag_def is_inf_mag_def)

lemma within_mul:
  assumes "fp_within F a A" "fp_within F b B" "representable F C" "A * B \<le> C" "1 \<le> fp_prec F"
  shows "fp_within F (fp_mul F a b) C"
proof -
  let ?p = "mag_parts F (snd a)" and ?q = "mag_parts F (snd b)"
  have "real (fst ?p * fst ?q) * two_powi (snd ?p + snd ?q) =
      magnitude_value F (snd a) * magnitude_value F (snd b)"
    by (simp add: magnitude_value_two_powi two_powi_add)
  also have "\<dots> \<le> A * B" using assms(1,2)
    by (intro mult_mono) (auto simp: fp_within_def intro: order_trans [OF magnitude_value_nonneg])
  finally have "real (fst ?p * fst ?q) * two_powi (snd ?p + snd ?q) \<le> C" using assms(4) by simp
  from round_magnitude_bounded [OF assms(5,3) this] show ?thesis
    using within_not_special [OF assms(1)] within_not_special [OF assms(2)]
    by (simp add: fp_mul_def mul_finite_def fp_within_def is_finite_mag_def)
qed

lemma align_value:
  assumes "e \<le> snd p"
  shows "\<bar>real_of_int (align s p e)\<bar> * two_powi e = real (fst p) * two_powi (snd p)"
  using two_powi_shift [OF assms] by (simp add: align_def signed_int_def)

lemma within_add:
  assumes "fp_within F a A" "fp_within F b B" "representable F C" "A + B \<le> C" "1 \<le> fp_prec F"
    and "0 < fp_top F"
  shows "fp_within F (fp_add F a b) C"
proof -
  let ?p = "mag_parts F (snd a)" and ?q = "mag_parts F (snd b)"
  define e where "e = min (snd ?p) (snd ?q)"
  define z where "z = align (fst a) ?p e + align (fst b) ?q e"
  have "real (nat \<bar>z\<bar>) * two_powi e = \<bar>real_of_int z\<bar> * two_powi e" by simp
  also have "\<dots> \<le> (\<bar>real_of_int (align (fst a) ?p e)\<bar> + \<bar>real_of_int (align (fst b) ?q e)\<bar>) * two_powi e"
    by (intro mult_right_mono) (auto simp: z_def less_imp_le)
  also have "\<dots> = magnitude_value F (snd a) + magnitude_value F (snd b)"
    using align_value [of e ?p "fst a"] align_value [of e ?q "fst b"]
    by (simp add: e_def distrib_right magnitude_value_two_powi)
  also have "\<dots> \<le> C" using assms(1,2,4) by (auto simp: fp_within_def)
  finally have b: "real (nat \<bar>z\<bar>) * two_powi e \<le> C" .
  have C: "0 \<le> C" using assms(3) by (auto simp: representable_def)
  have "fp_add F a b = round_signed F (fst a \<and> fst b) z e"
    using within_not_special [OF assms(1)] within_not_special [OF assms(2)]
    by (simp add: fp_add_def add_finite_def z_def e_def)
  then show ?thesis
    using round_magnitude_bounded [OF assms(5,3) b] C assms(6)
    by (auto simp: round_signed_def fp_within_def is_finite_mag_def inf_mag_def)
qed

lemma within_convert:
  assumes "fp_within F a B" "representable G B" "1 \<le> fp_prec G"
  shows "fp_within G (fp_convert F G a) B"
proof -
  have "real (fst (mag_parts F (snd a))) * two_powi (snd (mag_parts F (snd a))) \<le> B"
    using assms(1) by (simp add: fp_within_def magnitude_value_two_powi)
  from round_magnitude_bounded [OF assms(3,2) this] show ?thesis
    using within_not_special [OF assms(1)]
    by (simp add: fp_convert_def fp_within_def is_finite_mag_def)
qed

section \<open>Packing keeps the bits\<close>

lemma unat_word_of_nat_small: "n < 2 ^ LENGTH('l::len) \<Longrightarrow> unat (word_of_nat n :: 'l word) = n"
  by (simp add: unsigned_of_nat take_bit_nat_eq_self)

lemma unpack_pack32 [simp]:
  assumes "snd a < 2 ^ 31"
  shows "unpack32 (pack32 a) = a"
proof -
  have "unat (pack32 a) = snd a + (if fst a then 2 ^ 31 else 0)"
    using assms unfolding pack32_def by (intro unat_word_of_nat_small) auto
  then show ?thesis using assms by (cases a) (simp add: unpack32_def)
qed

lemma unpack_pack64 [simp]:
  assumes "snd a < 2 ^ 63"
  shows "unpack64 (pack64 a) = a"
proof -
  have "unat (pack64 a) = snd a + (if fst a then 2 ^ 63 else 0)"
    using assms unfolding pack64_def by (intro unat_word_of_nat_small) auto
  then show ?thesis using assms by (cases a) (simp add: unpack64_def)
qed

lemma inf_mag_widths [simp]: "inf_mag binary32 = 0x7F800000" "inf_mag binary64 = 0x7FF0000000000000"
  by (simp_all add: inf_mag_def)

lemma within_unpack_pack32: "fp_within binary32 a B \<Longrightarrow> unpack32 (pack32 a) = a"
  by (rule unpack_pack32) (simp add: fp_within_def is_finite_mag_def)

lemma within_unpack_pack64: "fp_within binary64 a B \<Longrightarrow> unpack64 (pack64 a) = a"
  by (rule unpack_pack64) (simp add: fp_within_def is_finite_mag_def)

text \<open>The same for the C++ types.\<close>

definition within32 :: "f32 \<Rightarrow> real \<Rightarrow> bool" where
  "within32 x B \<longleftrightarrow> fp_within binary32 (unpack32 x) B"

definition within64 :: "f64 \<Rightarrow> real \<Rightarrow> bool" where
  "within64 x B \<longleftrightarrow> fp_within binary64 (unpack64 x) B"

lemma within32_finite: "within32 x B \<Longrightarrow> f32_is_finite x"
  by (simp add: within32_def fp_within_def f32_is_finite_def)

lemma f32_finite_not_nan: "f32_is_finite x \<Longrightarrow> \<not> f32_is_nan x"
  by (simp add: f32_is_finite_def f32_is_nan_def is_finite_mag_def is_nan_mag_def)

lemma within32_not_nan: "within32 x B \<Longrightarrow> \<not> f32_is_nan x"
  by (simp add: within32_finite f32_finite_not_nan)

lemma within32_mono: "within32 x B \<Longrightarrow> B \<le> C \<Longrightarrow> within32 x C"
  unfolding within32_def by (rule within_mono)

lemma within64_mono: "within64 x B \<Longrightarrow> B \<le> C \<Longrightarrow> within64 x C"
  unfolding within64_def by (rule within_mono)

lemma within32_add:
  "within32 x A \<Longrightarrow> within32 y B \<Longrightarrow> representable binary32 C \<Longrightarrow> A + B \<le> C \<Longrightarrow>
    within32 (f32_add x y) C"
  using within_add [of binary32 "unpack32 x" A "unpack32 y" B C]
  by (simp add: within32_def f32_add_def within_unpack_pack32)

lemma within32_mul:
  "within32 x A \<Longrightarrow> within32 y B \<Longrightarrow> representable binary32 C \<Longrightarrow> A * B \<le> C \<Longrightarrow>
    within32 (f32_mul x y) C"
  using within_mul [of binary32 "unpack32 x" A "unpack32 y" B C]
  by (simp add: within32_def f32_mul_def within_unpack_pack32)

lemma within64_add:
  "within64 x A \<Longrightarrow> within64 y B \<Longrightarrow> representable binary64 C \<Longrightarrow> A + B \<le> C \<Longrightarrow>
    within64 (f64_add x y) C"
  using within_add [of binary64 "unpack64 x" A "unpack64 y" B C]
  by (simp add: within64_def f64_add_def within_unpack_pack64)

lemma within64_mul:
  "within64 x A \<Longrightarrow> within64 y B \<Longrightarrow> representable binary64 C \<Longrightarrow> A * B \<le> C \<Longrightarrow>
    within64 (f64_mul x y) C"
  using within_mul [of binary64 "unpack64 x" A "unpack64 y" B C]
  by (simp add: within64_def f64_mul_def within_unpack_pack64)

lemma within64_of_f32:
  "within32 x B \<Longrightarrow> representable binary64 B \<Longrightarrow> within64 (f64_of_f32 x) B"
  using within_convert [of binary32 "unpack32 x" B binary64]
  by (simp add: within32_def within64_def f64_of_f32_def within_unpack_pack64)

lemma within32_of_f64:
  "within64 x B \<Longrightarrow> representable binary32 B \<Longrightarrow> within32 (f32_of_f64 x) B"
  using within_convert [of binary64 "unpack64 x" B binary32]
  by (simp add: within32_def within64_def f32_of_f64_def within_unpack_pack32)

lemma within_zero [simp]: "0 \<le> B \<Longrightarrow> within32 0 B" "0 \<le> B \<Longrightarrow> within64 0 B"
  by (simp_all add: within32_def within64_def fp_within_def is_finite_mag_def unpack32_def unpack64_def)

end
