(* ===== verification/Score_Bounds.thy ===== *)
theory Score_Bounds
  imports Ieee754_Bounds Distance
begin

text \<open>
  Why no score is ever a NaN. A normalised vector has finite components of magnitude at
  most 8 (the exact bound is close to 1; a loose one keeps the argument free of error
  analysis), a vector accepted by a snapshot loader has components of magnitude at most 2,
  and the dot product of two such vectors stays finite in every kernel.
\<close>

definition unit_components :: "f32 list \<Rightarrow> bool" where
  "unit_components v \<longleftrightarrow> (\<forall>x\<in>set v. within32 x 8)"

lemma unit_components_simps [simp]:
  "unit_components []"
  "unit_components (x # v) \<longleftrightarrow> within32 x 8 \<and> unit_components v"
  "unit_components (v @ w) \<longleftrightarrow> unit_components v \<and> unit_components w"
  by (auto simp: unit_components_def)

lemma unit_components_subset: "unit_components v \<Longrightarrow> set w \<subseteq> set v \<Longrightarrow> unit_components w"
  by (auto simp: unit_components_def)

section \<open>The kernels stay finite\<close>

lemma representable64_multiple: "n < 2 ^ 53 \<Longrightarrow> representable binary64 (64 * real n)"
  using representable64 [of n 6] two_powi_nat [of 6] by (simp add: mult.commute)

lemma representable32_multiple: "n < 2 ^ 24 \<Longrightarrow> representable binary32 (64 * real n)"
  using representable32 [of n 6] two_powi_nat [of 6] by (simp add: mult.commute)

lemma representable_small [simp]:
  "representable binary32 8" "representable binary64 8"
  "representable binary32 64" "representable binary64 64"
  using representable32 [of 8 0] representable64 [of 8 0] representable32 [of 64 0]
    representable64 [of 64 0] by simp_all

lemma product64: "within32 x 8 \<Longrightarrow> within32 y 8 \<Longrightarrow>
    within64 (f64_mul (f64_of_f32 x) (f64_of_f32 y)) 64"
  by (rule within64_mul [where A = 8 and B = 8]) (auto intro: within64_of_f32)

lemma product32: "within32 x 8 \<Longrightarrow> within32 y 8 \<Longrightarrow> within32 (f32_mul x y) 64"
  by (rule within32_mul [where A = 8 and B = 8]) auto

lemma dot_scalar_loop_within:
  assumes "unit_components xs" "unit_components ys" "within64 acc (64 * real i)"
    and "i + length xs < 2 ^ 53"
  shows "within64 (dot_scalar_loop acc xs ys) (64 * real (i + length xs))"
  using assms
proof (induction acc xs ys arbitrary: i rule: dot_scalar_loop.induct)
  case (1 acc x xs y ys)
  let ?acc = "f64_add acc (f64_mul (f64_of_f32 x) (f64_of_f32 y))"
  have "within64 ?acc (64 * real (Suc i))"
    using 1 product64 [of x y] by (intro within64_add representable64_multiple) auto
  with "1.IH" [of "Suc i"] "1.prems" show ?case by simp
qed (auto intro: within64_mono)

lemma dot_auto_loop_within:
  assumes "unit_components xs" "unit_components ys" "within32 acc (64 * real i)"
    and "i + length xs < 2 ^ 24"
  shows "within32 (dot_auto_loop acc xs ys) (64 * real (i + length xs))"
  using assms
proof (induction acc xs ys arbitrary: i rule: dot_auto_loop.induct)
  case (1 acc x xs y ys)
  let ?acc = "f32_add acc (f32_mul x y)"
  have "within32 ?acc (64 * real (Suc i))"
    using 1 product32 [of x y] by (intro within32_add representable32_multiple) auto
  with "1.IH" [of "Suc i"] "1.prems" show ?case by simp
qed (auto intro: within32_mono)

lemma lanes_step_within:
  assumes "\<forall>l\<in>set lanes. within32 l (64 * real j)" "unit_components as" "unit_components bs"
    and "Suc j < 2 ^ 24"
  shows "\<forall>l\<in>set (map2 f32_add lanes (map2 f32_mul as bs)). within32 l (64 * real (Suc j))"
proof
  fix l assume "l \<in> set (map2 f32_add lanes (map2 f32_mul as bs))"
  then obtain a p where "(a, p) \<in> set (zip lanes (map2 f32_mul as bs))" and la: "l = f32_add a p"
    by auto
  then have l: "a \<in> set lanes" "p \<in> set (map2 f32_mul as bs)"
    by (auto dest: set_zip_leftD set_zip_rightD simp del: set_map)
  then obtain x y where "(x, y) \<in> set (zip as bs)" and p: "p = f32_mul x y" by auto
  then have "x \<in> set as" "y \<in> set bs" by (auto dest: set_zip_leftD set_zip_rightD)
  then have "within32 p 64"
    using assms p by (auto simp: unit_components_def intro: product32)
  moreover have "representable binary32 (64 * real (Suc j))"
    using assms(4) by (rule representable32_multiple)
  ultimately show "within32 l (64 * real (Suc j))"
    unfolding la using l(1) assms(1)
    by (intro within32_add [where A = "64 * real j" and B = 64]) auto
qed

lemma avx2_lane_loop_within:
  assumes "unit_components xs" "unit_components ys" "\<forall>l\<in>set lanes. within32 l (64 * real j)"
    and "8 * j + length xs < 2 ^ 24" "avx2_lane_loop lanes xs ys = (lanes', xs', ys')"
  shows "\<exists>j'. (\<forall>l\<in>set lanes'. within32 l (64 * real j')) \<and> 8 * j' + length xs' \<le> 8 * j + length xs
    \<and> unit_components xs' \<and> unit_components ys'"
  using assms
proof (induction lanes xs ys arbitrary: j rule: avx2_lane_loop.induct)
  case (1 lanes a0 a1 a2 a3 a4 a5 a6 a7 xs b0 b1 b2 b3 b4 b5 b6 b7 ys)
  let ?a = "[a0, a1, a2, a3, a4, a5, a6, a7]" and ?b = "[b0, b1, b2, b3, b4, b5, b6, b7]"
  let ?lanes = "map2 f32_add lanes (map2 f32_mul ?a ?b)"
  have "\<forall>l\<in>set ?lanes. within32 l (64 * real (Suc j))"
    using "1.prems" by (intro lanes_step_within) auto
  moreover have "avx2_lane_loop ?lanes xs ys = (lanes', xs', ys')" using "1.prems"(5) by simp
  moreover have "unit_components xs" "unit_components ys" "8 * Suc j + length xs < 2 ^ 24"
    using "1.prems" by simp_all
  ultimately obtain j' where "\<forall>l\<in>set lanes'. within32 l (64 * real j')"
    "8 * j' + length xs' \<le> 8 * Suc j + length xs" "unit_components xs'" "unit_components ys'"
    using "1.IH" [of "Suc j"] by blast
  then show ?case by (intro exI [of _ j']) simp
qed auto

lemma foldl_lanes_within:
  assumes "\<forall>l\<in>set lanes. within32 l (64 * real j)" "within32 acc (64 * real i)"
    and "i + length lanes * j < 2 ^ 24"
  shows "within32 (foldl f32_add acc lanes) (64 * real (i + length lanes * j))"
  using assms
proof (induction lanes arbitrary: acc i)
  case (Cons l lanes)
  have "representable binary32 (64 * real (i + j))"
    using Cons.prems by (intro representable32_multiple) simp
  then have "within32 (f32_add acc l) (64 * real (i + j))"
    using Cons.prems by (intro within32_add [where A = "64 * real i" and B = "64 * real j"]) auto
  with Cons.IH [of "f32_add acc l" "i + j"] Cons.prems show ?case by (simp add: add.assoc)
qed simp

text \<open>The dimensions for which the bound is proved: the accumulator of the kernel counts exactly.\<close>

definition score_dimension :: "dot_kernel \<Rightarrow> nat" where
  "score_dimension raw = (if raw = Scalar then 2 ^ 53 else 2 ^ 24)"

lemma raw_dot_product_finite:
  assumes "unit_components xs" "unit_components ys" "length xs < score_dimension raw"
  shows "f32_is_finite (raw_dot_product raw xs ys)"
proof (cases raw)
  case Scalar
  have "within64 (dot_scalar_loop 0 xs ys) (64 * real (0 + length xs))"
    using assms Scalar by (intro dot_scalar_loop_within) (auto simp: score_dimension_def)
  moreover have "64 * real (length xs) \<le> two_powi 59"
    using assms(3) Scalar two_powi_nat [of 59] by (simp add: score_dimension_def)
  ultimately have "within64 (dot_scalar_loop 0 xs ys) (two_powi 59)"
    by (auto intro: within64_mono)
  moreover have "representable binary32 (two_powi 59)" using representable32 [of 1 59] by simp
  ultimately show ?thesis
    unfolding Scalar raw_dot_product.simps dot_product_scalar_def
    by (intro within32_finite within32_of_f64)
next
  case Auto_vectorized
  then show ?thesis using assms dot_auto_loop_within [of xs ys 0 0]
    by (auto simp: dot_product_auto_def score_dimension_def intro: within32_finite)
next
  case Avx2
  obtain lanes xs' ys' where loop: "avx2_lane_loop (replicate 8 0) xs ys = (lanes, xs', ys')"
    by (cases "avx2_lane_loop (replicate 8 0) xs ys")
  have len: "length lanes = 8" using avx2_lane_loop_lanes [of "replicate 8 0" xs ys] loop by simp
  obtain j where j: "\<forall>l\<in>set lanes. within32 l (64 * real j)" "8 * j + length xs' \<le> length xs"
    "unit_components xs'" "unit_components ys'"
    using avx2_lane_loop_within [OF assms(1,2), of "replicate 8 0" 0 lanes xs' ys'] assms(3) Avx2 loop
    by (auto simp: score_dimension_def)
  have "within32 (foldl f32_add 0 lanes) (64 * real (0 + length lanes * j))"
    using j assms(3) Avx2 by (intro foldl_lanes_within) (auto simp: len score_dimension_def)
  then have "within32 (dot_auto_loop (foldl f32_add 0 lanes) xs' ys')
      (64 * real (0 + length lanes * j + length xs'))"
    using j assms(3) Avx2
    by (intro dot_auto_loop_within) (auto simp: len score_dimension_def)
  then show ?thesis using Avx2 loop by (auto simp: dot_product_avx2_def intro: within32_finite)
qed

section \<open>Exact steps of the squared norm\<close>

abbreviation abs32 :: "f32 \<Rightarrow> real" where
  "abs32 x \<equiv> magnitude_value binary32 (snd (unpack32 x))"

abbreviation abs64 :: "f64 \<Rightarrow> real" where
  "abs64 x \<equiv> magnitude_value binary64 (snd (unpack64 x))"

lemma mag_parts_bounds:
  assumes "g < inf_mag F"
  shows "fst (mag_parts F g) < 2 * hidden_bit F" "fp_emin F \<le> snd (mag_parts F g)"
    "snd (mag_parts F g) \<le> fp_emin F + int (fp_top F)"
proof -
  obtain m k where g: "g = m + k * hidden_bit F" and m: "m < 2 * hidden_bit F"
    and k: "k = 0 \<or> hidden_bit F \<le> m"
    by (rule mag_decomp)
  have p: "mag_parts F g = (m, fp_emin F + int k)" unfolding g using m k by (rule mag_parts_enc)
  have "k * hidden_bit F < fp_top F * hidden_bit F"
    using assms g unfolding inf_mag_def by linarith
  then have "k < fp_top F" by simp
  with p m show "fst (mag_parts F g) < 2 * hidden_bit F" "fp_emin F \<le> snd (mag_parts F g)"
    "snd (mag_parts F g) \<le> fp_emin F + int (fp_top F)"
    by simp_all
qed

lemma f32_parts:
  assumes "f32_is_finite x"
  obtains m e where "abs32 x = real m * two_powi e" "m < 2 ^ 24" "- 149 \<le> e" "e \<le> 106"
proof
  have g: "snd (unpack32 x) < inf_mag binary32"
    using assms by (simp add: f32_is_finite_def is_finite_mag_def)
  note b = mag_parts_bounds [OF g]
  show "abs32 x = real (fst (mag_parts binary32 (snd (unpack32 x)))) *
      two_powi (snd (mag_parts binary32 (snd (unpack32 x))))"
    by (rule magnitude_value_two_powi)
  show "fst (mag_parts binary32 (snd (unpack32 x))) < 2 ^ 24"
    "- 149 \<le> snd (mag_parts binary32 (snd (unpack32 x)))"
    "snd (mag_parts binary32 (snd (unpack32 x))) \<le> 106"
    using b by simp_all
qed

lemma f64_of_f32_exact:
  assumes "f32_is_finite x"
  shows "within64 (f64_of_f32 x) (abs32 x)" "abs64 (f64_of_f32 x) = abs32 x"
proof -
  obtain m e where x: "abs32 x = real m * two_powi e" "m < 2 ^ 24" "- 149 \<le> e" "e \<le> 106"
    using assms by (rule f32_parts)
  have rep: "representable binary64 (abs32 x)" unfolding x(1) using x by (intro representable64) auto
  show w: "within64 (f64_of_f32 x) (abs32 x)"
    using assms rep
    by (intro within64_of_f32) (simp_all add: within32_def fp_within_def f32_is_finite_def)
  let ?p = "mag_parts binary32 (snd (unpack32 x))"
  have val: "real (fst ?p) * two_powi (snd ?p) = abs32 x" by (simp add: magnitude_value_two_powi)
  have "fp_convert binary32 binary64 (unpack32 x) =
      (fst (unpack32 x), round_magnitude binary64 (fst ?p) (snd ?p))"
    using assms by (simp add: fp_convert_def f32_is_finite_def is_finite_mag_def is_nan_mag_def
        is_inf_mag_def)
  moreover have "round_magnitude binary64 (fst ?p) (snd ?p) < inf_mag binary64
      \<and> magnitude_value binary64 (round_magnitude binary64 (fst ?p) (snd ?p)) = abs32 x"
    using round_magnitude_exact [of binary64 "fst ?p" "snd ?p"] rep val by simp
  ultimately show "abs64 (f64_of_f32 x) = abs32 x" by (simp add: f64_of_f32_def)
qed

definition nonneg64 :: "f64 \<Rightarrow> bool" where
  "nonneg64 x \<longleftrightarrow> \<not> fst (unpack64 x)"

lemma square_exact:
  assumes "f32_is_finite x"
  defines "s \<equiv> f64_mul (f64_of_f32 x) (f64_of_f32 x)"
  shows "nonneg64 s" "within64 s (two_powi 260)" "abs64 s = abs32 x * abs32 x"
proof -
  obtain m e where x: "abs32 x = real m * two_powi e" "m < 2 ^ 24" "- 149 \<le> e" "e \<le> 106"
    using assms(1) by (rule f32_parts)
  let ?w = "unpack64 (f64_of_f32 x)"
  let ?p = "mag_parts binary64 (snd ?w)"
  have fin: "is_finite_mag binary64 ?w" and val: "magnitude_value binary64 (snd ?w) = abs32 x"
    using f64_of_f32_exact [OF assms(1)] by (auto simp: within64_def fp_within_def)
  have sq: "abs32 x * abs32 x = real (m * m) * two_powi (2 * e)"
    using two_powi_add [of e e] by (simp add: x(1) algebra_simps)
  have "m * m < 2 ^ 24 * 2 ^ 24" using x(2) by (intro mult_strict_mono) auto
  then have mm: "m * m < 2 ^ 53" by simp
  have rep: "representable binary64 (abs32 x * abs32 x)"
    unfolding sq using x mm by (intro representable64) auto
  have v0: "real (fst ?p) * two_powi (snd ?p) = abs32 x"
    using val by (simp only: magnitude_value_two_powi [of binary64 "snd ?w"])
  have "real (fst ?p * fst ?p) * two_powi (snd ?p + snd ?p) =
      (real (fst ?p) * two_powi (snd ?p)) * (real (fst ?p) * two_powi (snd ?p))"
    by (simp only: two_powi_add of_nat_mult mult.assoc mult.left_commute)
  then have v: "real (fst ?p * fst ?p) * two_powi (snd ?p + snd ?p) = abs32 x * abs32 x"
    unfolding v0 .
  have "fp_mul binary64 ?w ?w = (False, round_magnitude binary64 (fst ?p * fst ?p) (snd ?p + snd ?p))"
    using fin by (simp add: fp_mul_def mul_finite_def is_finite_mag_def is_nan_mag_def is_inf_mag_def)
  moreover have ex: "round_magnitude binary64 (fst ?p * fst ?p) (snd ?p + snd ?p) < inf_mag binary64
      \<and> magnitude_value binary64 (round_magnitude binary64 (fst ?p * fst ?p) (snd ?p + snd ?p))
        = abs32 x * abs32 x"
    using round_magnitude_exact [of binary64 "fst ?p * fst ?p" "snd ?p + snd ?p"] rep v by simp
  ultimately have un: "unpack64 s =
      (False, round_magnitude binary64 (fst ?p * fst ?p) (snd ?p + snd ?p))"
    by (simp add: s_def f64_mul_def)
  show "nonneg64 s" using un by (simp add: nonneg64_def)
  show a: "abs64 s = abs32 x * abs32 x" using un ex by simp
  have "m * m \<le> 2 ^ 48" using \<open>m * m < 2 ^ 24 * 2 ^ 24\<close> by simp
  then have "real (m * m) \<le> real (2 ^ 48)" by (rule of_nat_mono)
  then have "real (m * m) \<le> two_powi 48" using two_powi_nat [of 48] by simp
  then have "real (m * m) * two_powi (2 * e) \<le> two_powi 48 * two_powi 212"
    using x less_imp_le [OF two_powi_pos] by (intro mult_mono two_powi_mono) auto
  also have "\<dots> = two_powi 260" by (simp flip: two_powi_add)
  finally show "within64 s (two_powi 260)"
    using a un ex sq by (simp add: within64_def fp_within_def is_finite_mag_def)
qed

lemma add_nonneg:
  assumes "nonneg64 a" "nonneg64 b" "within64 a A" "within64 b B" "representable binary64 C" "A + B \<le> C"
  shows "nonneg64 (f64_add a b)" "within64 (f64_add a b) C"
    "abs64 a \<le> abs64 (f64_add a b)" "abs64 b \<le> abs64 (f64_add a b)"
proof -
  let ?a = "unpack64 a" and ?b = "unpack64 b"
  let ?p = "mag_parts binary64 (snd ?a)" and ?q = "mag_parts binary64 (snd ?b)"
  define e where "e = min (snd ?p) (snd ?q)"
  define za where "za = align False ?p e"
  define zb where "zb = align False ?q e"
  have pos: "0 \<le> za" "0 \<le> zb" by (simp_all add: za_def zb_def align_def signed_int_def)
  have va: "real_of_int za * two_powi e = abs64 a" "real_of_int zb * two_powi e = abs64 b"
    using align_value [of e ?p False] align_value [of e ?q False] pos
    by (simp_all add: za_def zb_def e_def magnitude_value_two_powi)
  show w: "within64 (f64_add a b) C" by (rule within64_add [OF assms(3-6)])
  have fin: "is_finite_mag binary64 ?a" "is_finite_mag binary64 ?b"
    using assms by (simp_all add: within64_def fp_within_def)
  have "fp_add binary64 ?a ?b = round_signed binary64 False (za + zb) e"
    using assms(1,2) fin
    by (simp add: fp_add_def add_finite_def za_def zb_def e_def nonneg64_def is_finite_mag_def
        is_nan_mag_def is_inf_mag_def)
  then have add: "fp_add binary64 ?a ?b = (False, round_magnitude binary64 (nat (za + zb)) e)"
    using pos by (auto simp: round_signed_def round_magnitude_def)
  have "fp_within binary64 (fp_add binary64 ?a ?b) C"
    using assms by (intro within_add [where A = A and B = B]) (simp_all add: within64_def)
  then have un: "unpack64 (f64_add a b) = (False, round_magnitude binary64 (nat (za + zb)) e)"
    using add by (simp add: f64_add_def within_unpack_pack64)
  show "nonneg64 (f64_add a b)" using un by (simp add: nonneg64_def)
  have sum: "real (nat (za + zb)) * two_powi e = abs64 a + abs64 b"
  proof -
    have "real (nat (za + zb)) = real_of_int za + real_of_int zb" using pos by simp
    then show ?thesis by (simp only: distrib_right va)
  qed
  have r: "representable binary64 (abs64 a)" "representable binary64 (abs64 b)"
    using fin by (auto intro!: representable_value simp: is_finite_mag_def simp del: inf_mag_widths)
  show "abs64 a \<le> abs64 (f64_add a b)"
    unfolding un snd_conv by (rule round_magnitude_at_least [OF _ r(1)]) (simp_all add: sum)
  show "abs64 b \<le> abs64 (f64_add a b)"
    unfolding un snd_conv by (rule round_magnitude_at_least [OF _ r(2)]) (simp_all add: sum)
qed

lemma squared_norm_loop_facts:
  assumes "squared_norm_loop acc xs = Inr s" "nonneg64 acc" "within64 acc (real i * two_powi 260)"
    and "i + length xs < 2 ^ 53"
  shows "nonneg64 s \<and> within64 s (real (i + length xs) * two_powi 260) \<and> abs64 acc \<le> abs64 s
    \<and> (\<forall>x\<in>set xs. f32_is_finite x \<and> abs32 x * abs32 x \<le> abs64 s)"
  using assms
proof (induction acc xs arbitrary: i rule: squared_norm_loop.induct)
  case (2 acc x xs)
  define w where "w = f64_mul (f64_of_f32 x) (f64_of_f32 x)"
  have fin: "f32_is_finite x" and rest: "squared_norm_loop (f64_add acc w) xs = Inr s"
    using "2.prems"(1) by (auto simp: w_def Let_def split: if_splits)
  note sq = square_exact [OF fin, folded w_def]
  have rep: "representable binary64 (real (Suc i) * two_powi 260)"
    using "2.prems"(4) by (intro representable64) auto
  note add = add_nonneg [OF "2.prems"(2) sq(1) "2.prems"(3) sq(2) rep]
  have le: "real i * two_powi 260 + two_powi 260 \<le> real (Suc i) * two_powi 260"
    by (simp add: algebra_simps)
  have "nonneg64 s \<and> within64 s (real (Suc i + length xs) * two_powi 260)
    \<and> abs64 (f64_add acc w) \<le> abs64 s
    \<and> (\<forall>x\<in>set xs. f32_is_finite x \<and> abs32 x * abs32 x \<le> abs64 s)"
    using "2.IH" [OF _ _ rest [unfolded w_def], of "Suc i"] "2.prems"(4) fin add [OF le]
    by (simp add: w_def)
  with add [OF le] sq(3) fin show ?case
    by (auto simp del: magnitude_value_le_iff intro: order_trans)
qed auto

section \<open>Square root and reciprocal\<close>

lemma isqrt_correct: "isqrt n * isqrt n \<le> n \<and> n < (isqrt n + 1) * (isqrt n + 1)"
proof (induction n rule: isqrt.induct)
  case (1 n)
  show ?case
  proof (cases "n = 0")
    case True
    then show ?thesis by (simp add: isqrt.simps [of 0])
  next
    case False
    define r where "r = isqrt (n div 4)"
    have r: "r * r \<le> n div 4" "n div 4 < (r + 1) * (r + 1)" using 1 False by (simp_all add: r_def)
    then have "4 * (r * r) \<le> n" "n < 4 * ((r + 1) * (r + 1))" by linarith+
    moreover have "isqrt n = isqrt_step n r" using False by (simp add: isqrt.simps [of n] r_def)
    ultimately show ?thesis by (auto simp: isqrt_step_def algebra_simps)
  qed
qed

lemma sqrt_shifted_bounds:
  assumes "0 < n" "0 \<le> V" "V * V \<le> real n" "real n \<le> U * U" "0 \<le> U"
  shows "V / 2 \<le> real (sqrt_shifted n) / 2" "real (sqrt_shifted n) / 2 \<le> 2 * U"
proof -
  let ?r = "isqrt n"
  have r: "?r * ?r \<le> n" "n < (?r + 1) * (?r + 1)" using isqrt_correct [of n] by auto
  have "?r \<noteq> 0" using r(2) assms(1) by (intro notI) simp
  then have r1: "1 \<le> real ?r" by simp
  have ws: "2 * ?r \<le> sqrt_shifted n" "sqrt_shifted n \<le> 2 * ?r + 1"
    by (simp_all add: sqrt_shifted_def with_sticky_def)
  have "real n \<le> real ((?r + 1) * (?r + 1))" using r(2) by (intro of_nat_mono) simp
  then have "V * V \<le> (real ?r + 1) * (real ?r + 1)" using assms(3) by (simp add: algebra_simps)
  then have "V \<le> real ?r + 1"
    using r1 assms(2) by (metis abs_of_nonneg abs_le_square_iff add_increasing2 le_numeral_extra(1)
        of_nat_0_le_iff power2_eq_square)
  then have "V \<le> 2 * real ?r" using r1 by simp
  moreover have "real (2 * ?r) \<le> real (sqrt_shifted n)" using ws(1) by (rule of_nat_mono)
  ultimately show "V / 2 \<le> real (sqrt_shifted n) / 2" by simp
  have "real (?r * ?r) \<le> real n" using r(1) by (rule of_nat_mono)
  then have "real ?r * real ?r \<le> U * U" using assms(4) by simp
  then have "real ?r \<le> U"
    using assms(5) by (metis abs_of_nonneg abs_le_square_iff of_nat_0_le_iff power2_eq_square)
  moreover have "real (sqrt_shifted n) \<le> real (2 * ?r + 1)" using ws(2) by (rule of_nat_mono)
  ultimately show "real (sqrt_shifted n) / 2 \<le> 2 * U" using r1 by simp
qed

lemma f64_sqrt_bounds:
  assumes s: "nonneg64 s" "within64 s (U * U)" "snd (unpack64 s) \<noteq> 0"
    and V: "0 \<le> V" "V * V \<le> abs64 s" "representable binary64 (V / 2)"
    and U: "0 \<le> U" "representable binary64 (2 * U)"
  shows "nonneg64 (f64_sqrt s)" "within64 (f64_sqrt s) (2 * U)" "V / 2 \<le> abs64 (f64_sqrt s)"
proof -
  let ?g = "snd (unpack64 s)"
  define m where "m = fst (mag_parts binary64 ?g)"
  define e where "e = snd (mag_parts binary64 ?g)"
  define t where "t = 2 * (fp_prec binary64 + 2) + (if odd e then 1 else (0::nat))"
  define h where "h = (e - int t) div 2"
  have even: "2 * h = e - int t" by (auto simp: h_def t_def)
  have val: "abs64 s = real m * two_powi e"
    by (simp add: magnitude_value_two_powi m_def e_def)
  define n where "n = m * 2 ^ t"
  have "e = int t + (h + h)" using even by simp
  then have "abs64 s = real m * (two_powi (int t) * (two_powi h * two_powi h))"
    unfolding val by (simp only: two_powi_add)
  then have valn: "abs64 s = real n * (two_powi h * two_powi h)"
    by (simp add: n_def two_powi_nat)
  have "magnitude_value binary64 0 < abs64 s" using s(3) by (simp del: magnitude_value_0)
  then have n: "0 < n" using valn by (cases n) auto
  have h: "0 < two_powi h" by simp
  let ?V = "V / two_powi h" and ?U = "U / two_powi h"
  have "?V * ?V \<le> real n" using V(2) h by (simp add: valn field_simps)
  moreover have "real n \<le> ?U * ?U"
    using s(2) h by (simp add: valn within64_def fp_within_def field_simps)
  moreover have "0 \<le> ?V" "0 \<le> ?U" using V(1) U(1) h by (simp_all add: less_imp_le)
  ultimately have b: "?V / 2 \<le> real (sqrt_shifted n) / 2" "real (sqrt_shifted n) / 2 \<le> 2 * ?U"
    using sqrt_shifted_bounds [OF n, of ?V ?U] by auto
  have h1: "two_powi h = 2 * two_powi (h - 1)"
    using two_powi_add [of "h - 1" 1] two_powi_nat [of 1] by simp
  then have half: "real (sqrt_shifted n) * two_powi (h - 1) = real (sqrt_shifted n) / 2 * two_powi h"
    by simp
  have lo: "V / 2 \<le> real (sqrt_shifted n) * two_powi (h - 1)"
    using mult_right_mono [OF b(1), of "two_powi h"] h unfolding half by simp
  have hi: "real (sqrt_shifted n) * two_powi (h - 1) \<le> 2 * U"
    using mult_right_mono [OF b(2), of "two_powi h"] h unfolding half by simp
  have fin: "is_finite_mag binary64 (unpack64 s)" using s(2) by (simp add: within64_def fp_within_def)
  then have "fp_sqrt binary64 (unpack64 s) = (False, round_magnitude binary64 (sqrt_shifted n) (h - 1))"
    using s(1,3)
    by (simp add: fp_sqrt_def sqrt_finite_def nonneg64_def is_finite_mag_def is_nan_mag_def
        is_inf_mag_def m_def e_def t_def h_def n_def)
  moreover note up = round_magnitude_bounded [OF _ U(2) hi]
  ultimately have un: "unpack64 (f64_sqrt s) = (False, round_magnitude binary64 (sqrt_shifted n) (h - 1))"
    by (simp add: f64_sqrt_def)
  show "nonneg64 (f64_sqrt s)" using un by (simp add: nonneg64_def)
  show "within64 (f64_sqrt s) (2 * U)"
    using un up by (simp add: within64_def fp_within_def is_finite_mag_def)
  show "V / 2 \<le> abs64 (f64_sqrt s)"
    unfolding un snd_conv by (rule round_magnitude_at_least [OF _ V(3) lo]) simp
qed

lemma f64_reciprocal:
  assumes s: "nonneg64 s" "within64 s B" and V: "0 < V" "V \<le> abs64 s"
    and C: "3 / (2 * V) \<le> C" "representable binary64 C"
  shows "within64 (f64_div 0x3FF0000000000000 s) C \<and> nonneg64 (f64_div 0x3FF0000000000000 s)"
proof -
  let ?g = "snd (unpack64 s)"
  define m where "m = fst (mag_parts binary64 ?g)"
  define e where "e = snd (mag_parts binary64 ?g)"
  define t where "t = fp_prec binary64 + 2 + bit_len m"
  define N where "N = (2::nat) ^ 52 * 2 ^ t"
  define q where "q = N div m"
  have val: "abs64 s = real m * two_powi e"
    by (simp add: magnitude_value_two_powi m_def e_def)
  have fin: "is_finite_mag binary64 (unpack64 s)" using s(2) by (simp add: within64_def fp_within_def)
  have "0 < real m * two_powi e" using V val by simp
  then have m: "0 < m" by (simp add: zero_less_mult_iff)
  have one: "unpack64 0x3FF0000000000000 = (False, 0x3FF0000000000000)"
    "mag_parts binary64 0x3FF0000000000000 = (2 ^ 52, - 52)"
    by (simp_all add: fp_eval)
  have "m < 2 ^ bit_len m" using bit_len_bounds [OF m] by simp
  also have "\<dots> \<le> 2 ^ t" by (simp add: t_def)
  also have "\<dots> \<le> N" by (simp add: N_def)
  finally have q1: "1 \<le> q" using m by (simp add: q_def less_eq_div_iff_mult_less_eq)
  have qm: "q * m \<le> N" by (simp add: q_def)
  have st: "with_sticky q (N mod m = 0) \<le> 3 * q" using q1 by (simp add: with_sticky_def)
  define E where "E = - 52 - e - int t"
  have Nval: "real N * two_powi E = two_powi (- e)"
  proof -
    have "two_powi (int (52 + t)) * two_powi E = two_powi (- e)"
      by (simp add: E_def flip: two_powi_add)
    moreover have "two_powi (int (52 + t)) = real N"
      by (simp only: two_powi_nat N_def power_add of_nat_mult of_nat_power of_nat_numeral)
    ultimately show ?thesis by simp
  qed
  have inv: "two_powi (- e) * two_powi e = 1" by (simp flip: two_powi_add)
  have "real q * real m * two_powi E \<le> two_powi (- e)"
    unfolding Nval [symmetric] using of_nat_mono [OF qm] by (intro mult_right_mono) auto
  then have "real q * real m * two_powi E * two_powi e \<le> 1"
    using mult_right_mono [of "real q * real m * two_powi E" "two_powi (- e)" "two_powi e"] inv
    by simp
  then have "(real q * two_powi E) * abs64 s \<le> 1" by (simp only: val ac_simps)
  moreover have "(real q * two_powi E) * V \<le> (real q * two_powi E) * abs64 s"
    using V(2) by (intro mult_left_mono) auto
  ultimately have "(real q * two_powi E) * V \<le> 1" by linarith
  then have qE: "real q * two_powi E \<le> 1 / V" using V(1) by (simp add: pos_le_divide_eq)
  have "real (with_sticky q (N mod m = 0)) * two_powi (E - 1) \<le> (3 * real q) * two_powi (E - 1)"
    using of_nat_mono [OF st] by (intro mult_right_mono) auto
  also have "\<dots> = 3 / 2 * (real q * two_powi E)"
    using two_powi_add [of "E - 1" 1] two_powi_nat [of 1] by simp
  also have "\<dots> \<le> 3 / 2 * (1 / V)" using qE by (intro mult_left_mono) auto
  also have "\<dots> \<le> C" using C(1) by simp
  finally have le: "real (with_sticky q (N mod m = 0)) * two_powi (E - 1) \<le> C" .
  have nz: "?g \<noteq> 0" using V by (intro notI) simp
  have "fp_div binary64 (False, 0x3FF0000000000000) (unpack64 s) =
      (False, round_magnitude binary64 (with_sticky q (N mod m = 0)) (E - 1))"
    using s(1) fin nz one
    by (simp add: fp_div_def div_finite_def nonneg64_def is_finite_mag_def is_nan_mag_def
        is_inf_mag_def m_def e_def t_def N_def q_def E_def)
  moreover note up = round_magnitude_bounded [OF _ C(2) le]
  ultimately show ?thesis
    by (simp add: f64_div_def within64_def one(1) fp_within_def is_finite_mag_def nonneg64_def)
qed

lemmas f64_reciprocal_bound = f64_reciprocal [THEN conjunct1]

section \<open>Normalised vectors are bounded\<close>

lemma finite_abs32_le: "f32_is_finite x \<Longrightarrow> abs32 x \<le> two_powi 130"
proof -
  assume "f32_is_finite x"
  then obtain m e where x: "abs32 x = real m * two_powi e" "m < 2 ^ 24" "e \<le> 106"
    by (rule f32_parts)
  have "m \<le> 2 ^ 24" using x(2) by simp
  then have "real m \<le> real (2 ^ 24)" by (rule of_nat_mono)
  then have "real m \<le> two_powi 24" using two_powi_nat [of 24] by simp
  then have "real m * two_powi e \<le> two_powi 24 * two_powi 106"
    using x(3) by (intro mult_mono two_powi_mono) auto
  also have "\<dots> = two_powi 130" by (simp flip: two_powi_add)
  finally show ?thesis using x(1) by simp
qed

lemma finite_abs32_ge: "f32_is_finite x \<Longrightarrow> abs32 x \<noteq> 0 \<Longrightarrow> two_powi (- 149) \<le> abs32 x"
proof -
  assume "f32_is_finite x" and nz: "abs32 x \<noteq> 0"
  then obtain m e where x: "abs32 x = real m * two_powi e" "- 149 \<le> e" by (meson f32_parts)
  then have "1 \<le> real m" using nz by (cases m) auto
  then have "1 * two_powi (- 149) \<le> real m * two_powi e"
    using x(2) by (intro mult_mono two_powi_mono) auto
  with x(1) show ?thesis by simp
qed

lemma abs64_pos_ge: "snd (unpack64 s) \<noteq> 0 \<Longrightarrow> two_powi (- 1074) \<le> abs64 s"
  using magnitude_value_enc [of 1 binary64 0] magnitude_value_le_iff [of binary64 1 "snd (unpack64 s)"]
  by simp

text \<open>A power of two just above \<open>3 / V\<close>.\<close>

lemma power_of_two_above:
  assumes "0 < W"
  obtains j where "W \<le> two_powi j" "two_powi j \<le> 2 * W" "\<And>a b. two_powi a \<le> W \<Longrightarrow> W \<le> two_powi b \<Longrightarrow> a \<le> j \<and> j \<le> b + 1"
proof
  let ?j = "\<lceil>log 2 W\<rceil>"
  have W: "2 powr (log 2 W) = W" using assms by simp
  show le: "W \<le> two_powi ?j"
    unfolding two_powi_def by (subst W [symmetric]) (simp add: le_of_int_ceiling)
  have "real_of_int ?j \<le> log 2 W + 1" by linarith
  then have "two_powi ?j \<le> 2 powr (log 2 W + 1)" unfolding two_powi_def by simp
  then show ub: "two_powi ?j \<le> 2 * W" using W by (simp add: powr_add)
  fix a b assume a: "two_powi a \<le> W" and b: "W \<le> two_powi b"
  have "two_powi a \<le> two_powi ?j" using a le by linarith
  moreover have "two_powi ?j \<le> two_powi (b + 1)"
    using ub b two_powi_add [of b 1] two_powi_nat [of 1] by simp
  ultimately show "a \<le> ?j \<and> ?j \<le> b + 1" by (simp add: two_powi_def)
qed

lemma representable64_power: "- 1074 \<le> e \<Longrightarrow> e \<le> 900 \<Longrightarrow> representable binary64 (two_powi e)"
  using representable64 [of 1 e] by simp

lemma normalized_component_bound:
  assumes s: "nonneg64 s" "within64 s (two_powi 400)" "snd (unpack64 s) \<noteq> 0"
    and x: "f32_is_finite x" "abs32 x * abs32 x \<le> abs64 s"
  shows "within32 (f32_of_f64 (f64_mul (f64_of_f32 x)
    (f64_div 0x3FF0000000000000 (f64_sqrt s)))) 8"
proof -
  let ?r = "f64_sqrt s"
  let ?inv = "f64_div 0x3FF0000000000000 ?r"
  have U: "within64 s (two_powi 200 * two_powi 200)" using s(2) by (simp flip: two_powi_add)
  have two: "representable binary64 (2 * two_powi 200)" using representable64 [of 2 200] by simp
  have "\<exists>A B. within64 (f64_of_f32 x) A \<and> within64 ?inv B \<and> A * B \<le> 8"
  proof (cases "abs32 x = 0")
    case True
    let ?V = "two_powi (- 537)"
    have V: "?V * ?V \<le> abs64 s" using abs64_pos_ge [OF s(3)] by (simp flip: two_powi_add)
    have half: "two_powi (- 538) = ?V / 2"
      using two_powi_add [of "- 538" 1] two_powi_nat [of 1] by simp
    have "representable binary64 (?V / 2)" unfolding half [symmetric] by (rule representable64_power) auto
    note sq = f64_sqrt_bounds [OF s(1) U s(3) _ V this _ two, simplified]
    have "within64 ?inv (two_powi 540)"
    proof (rule f64_reciprocal_bound [OF sq(1,2)])
      show "0 < ?V / 2" "?V / 2 \<le> abs64 ?r" using sq(3) by simp_all
      have "two_powi 537 * ?V = 1" by (simp flip: two_powi_add)
      then have "3 / (2 * (?V / 2)) = 3 * two_powi 537"
        using two_powi_pos [of "- 537"] by (auto simp: divide_eq_eq)
      also have "\<dots> \<le> 8 * two_powi 537" by simp
      also have "\<dots> = two_powi 540" using two_powi_add [of 537 3] two_powi_nat [of 3] by simp
      finally show "3 / (2 * (?V / 2)) \<le> two_powi 540" .
    qed (rule representable64_power, auto)
    moreover have "within64 (f64_of_f32 x) 0" using f64_of_f32_exact [OF x(1)] True by simp
    ultimately show ?thesis by (intro exI [of _ 0] exI [of _ "two_powi 540"]) simp
  next
    case False
    let ?V = "abs32 x"
    have V0: "0 < ?V" using False by (simp add: less_le)
    obtain m e where parts: "?V = real m * two_powi e" "m < 2 ^ 24" "- 149 \<le> e" "e \<le> 106"
      using x(1) by (rule f32_parts)
    have "?V / 2 = real m * two_powi (e - 1)"
      using parts(1) two_powi_add [of "e - 1" 1] two_powi_nat [of 1] by simp
    then have "representable binary64 (?V / 2)"
      using parts by (simp only:) (rule representable64, auto)
    note sq = f64_sqrt_bounds [OF s(1) U s(3) _ x(2) this _ two, simplified]
    obtain j where j: "3 / ?V \<le> two_powi j" "two_powi j \<le> 2 * (3 / ?V)"
      "\<And>a b. two_powi a \<le> 3 / ?V \<Longrightarrow> 3 / ?V \<le> two_powi b \<Longrightarrow> a \<le> j \<and> j \<le> b + 1"
      using power_of_two_above [of "3 / ?V"] V0 by auto
    have "two_powi (- 130) \<le> 3 / ?V"
    proof -
      have "two_powi (- 130) * ?V \<le> two_powi (- 130) * two_powi 130"
        using finite_abs32_le [OF x(1)] by (intro mult_left_mono) auto
      also have "\<dots> = 1" by (simp flip: two_powi_add)
      finally show ?thesis using V0 by (simp add: pos_le_divide_eq)
    qed
    moreover have "3 / ?V \<le> two_powi 151"
    proof -
      have "3 \<le> two_powi 2" using two_powi_nat [of 2] by simp
      also have "two_powi 2 = two_powi 151 * two_powi (- 149)" by (simp flip: two_powi_add)
      also have "\<dots> \<le> two_powi 151 * ?V"
        using finite_abs32_ge [OF x(1) False] by (intro mult_left_mono) auto
      finally show ?thesis using V0 by (simp add: pos_divide_le_eq)
    qed
    ultimately have "- 130 \<le> j" "j \<le> 152" using j(3) [of "- 130" 151] by auto
    then have rep: "representable binary64 (two_powi j)" by (intro representable64_power) auto
    have "within64 ?inv (two_powi j)"
      by (rule f64_reciprocal_bound [OF sq(1,2), of "?V / 2"])
        (use V0 sq(3) j(1) rep in simp_all)
    moreover have "?V * two_powi j \<le> 8"
      using mult_left_mono [OF j(2), of ?V] V0 by simp
    moreover have "within64 (f64_of_f32 x) ?V" using f64_of_f32_exact [OF x(1)] by simp
    ultimately show ?thesis by blast
  qed
  then obtain A B where "within64 (f64_of_f32 x) A" "within64 ?inv B" "A * B \<le> 8" by blast
  then have "within64 (f64_mul (f64_of_f32 x) ?inv) 8" by (intro within64_mul) auto
  then show ?thesis by (intro within32_of_f64) auto
qed

lemma nonneg64_0: "nonneg64 0" "within64 0 (real 0 * two_powi 260)"
  by (simp_all add: nonneg64_def unpack64_def)

text \<open>Vectors shorter than \<open>2 ^ 53\<close>: the squared norm itself cannot overflow.\<close>

theorem normalize_l2_unit_components:
  assumes "normalize_l2 v = Inr r" "length v < 2 ^ 53"
  shows "unit_components r"
proof -
  obtain s where s: "squared_norm_loop 0 v = Inr s" "\<not> f64_eq s 0"
    and r: "r = map (\<lambda>x. f32_of_f64 (f64_mul (f64_of_f32 x)
      (f64_div 0x3FF0000000000000 (f64_sqrt s)))) v"
    using assms(1) by (auto simp: normalize_l2_def Let_def result_simps split: if_splits)
  have f: "nonneg64 s" "within64 s (real (length v) * two_powi 260)"
    "\<forall>x\<in>set v. f32_is_finite x \<and> abs32 x * abs32 x \<le> abs64 s"
    using squared_norm_loop_facts [OF s(1) nonneg64_0, of ] assms(2) by auto
  have "length v \<le> 2 ^ 53" using assms(2) by simp
  then have "real (length v) \<le> real (2 ^ 53)" by (rule of_nat_mono)
  then have "real (length v) \<le> two_powi 140"
    using two_powi_nat [of 140] by simp
  then have "real (length v) * two_powi 260 \<le> two_powi 140 * two_powi 260"
    by (intro mult_right_mono) auto
  then have w: "within64 s (two_powi 400)"
    using f(2) by (simp flip: two_powi_add) (rule within64_mono)
  have "snd (unpack64 s) \<noteq> 0"
  proof
    assume z: "snd (unpack64 s) = 0"
    then have "f64_eq s 0"
      by (simp add: f64_eq_def fp_eq_def is_nan_mag_def order_key_def signed_int_def unpack64_def)
    with s(2) show False ..
  qed
  then show ?thesis
    using f(1,3) w by (auto simp: r unit_components_def intro: normalized_component_bound)
qed

text \<open>The check a snapshot loader makes on every row: \<open>|squared_norm - 1| <= 1e-3\<close>.\<close>

definition norm_tolerance :: f64 where
  "norm_tolerance = 0x3F50624DD2F1A9FC"

definition nearly_unit :: "f64 \<Rightarrow> bool" where
  "nearly_unit squared_norm \<longleftrightarrow>
     \<not> f64_lt norm_tolerance (f64_abs (f64_sub squared_norm 0x3FF0000000000000))"

lemma nearly_unit_bound:
  assumes s: "nonneg64 s" "within64 s B" and near: "nearly_unit s"
  shows "abs64 s \<le> 2"
proof (rule ccontr)
  assume big: "\<not> abs64 s \<le> 2"
  let ?m1 = "0xBFF0000000000000 :: f64"
  let ?a = "unpack64 s" and ?b = "unpack64 ?m1"
  have neg: "f64_neg 0x3FF0000000000000 = ?m1" by (simp add: fp_eval)
  have b: "?b = (True, 0x3FF0000000000000)" "mag_parts binary64 0x3FF0000000000000 = (2 ^ 52, - 52)"
    by (simp_all add: fp_eval)
  let ?p = "mag_parts binary64 (snd ?a)" and ?q = "(2 ^ 52, - 52) :: nat \<times> int"
  define e where "e = min (snd ?p) (- 52)"
  define za where "za = align False ?p e"
  define zb where "zb = align False ?q e"
  have pos: "0 \<le> za" "0 \<le> zb" by (simp_all add: za_def zb_def align_def signed_int_def)
  have one: "real (2 ^ 52) * two_powi (- 52) = 1"
    using two_powi_nat [of 52] two_powi_add [of 52 "- 52"] by simp
  have va: "real_of_int za * two_powi e = abs64 s" "real_of_int zb * two_powi e = 1"
    using align_value [of e ?p False] align_value [of e ?q False] pos one
    by (simp_all add: za_def zb_def e_def magnitude_value_two_powi)
  have diff: "real_of_int (za - zb) * two_powi e = abs64 s - 1"
    using va by (simp add: left_diff_distrib)
  then have "0 < real_of_int (za - zb) * two_powi e" using big by linarith
  then have "0 < real_of_int (za - zb)" using two_powi_pos [of e] by (rule zero_less_mult_pos2)
  then have gt: "zb < za" by simp
  have al: "align True ?q e = - zb" by (simp add: zb_def align_def signed_int_def)
  have fin: "is_finite_mag binary64 ?a" using s(2) by (simp add: within64_def fp_within_def)
  have "fp_add binary64 ?a ?b = round_signed binary64 False (za - zb) e"
    using s(1) fin b al
    by (simp add: fp_add_def add_finite_def za_def e_def nonneg64_def is_finite_mag_def
        is_nan_mag_def is_inf_mag_def)
  then have add: "fp_add binary64 ?a ?b = (False, round_magnitude binary64 (nat (za - zb)) e)"
    using gt by (simp add: round_signed_def)
  have val: "real (nat (za - zb)) * two_powi e = abs64 s - 1" using diff gt by simp
  have g1: "magnitude_value binary64 0x3FF0000000000000 = 1"
    by (simp add: magnitude_value_two_powi b(2) one [simplified])
  have "0x3FF0000000000000 \<le> round_magnitude binary64 (nat (za - zb)) e"
    by (rule round_magnitude_ge) (use big in \<open>simp_all add: val g1\<close>)
  moreover have "round_magnitude binary64 (nat (za - zb)) e \<le> inf_mag binary64"
    by (simp add: round_magnitude_def round_at_def)
  ultimately have "f64_lt norm_tolerance (f64_abs (f64_sub s 0x3FF0000000000000))"
    by (simp add: f64_sub_def neg f64_add_def add f64_abs_def f64_lt_def fp_lt_def is_nan_mag_def
        order_key_def signed_int_def norm_tolerance_def unpack64_def [of "0x3F50624DD2F1A9FC"])
  with near show False by (simp add: nearly_unit_def)
qed

lemma abs32_within: "f32_is_finite x \<Longrightarrow> abs32 x \<le> B \<Longrightarrow> within32 x B"
  by (simp add: within32_def fp_within_def f32_is_finite_def)

theorem nearly_unit_components:
  assumes "squared_norm_loop 0 v = Inr s" "nearly_unit s" "length v < 2 ^ 53"
  shows "unit_components v"
proof -
  have f: "nonneg64 s" "within64 s (real (length v) * two_powi 260)"
    "\<forall>x\<in>set v. f32_is_finite x \<and> abs32 x * abs32 x \<le> abs64 s"
    using squared_norm_loop_facts [OF assms(1) nonneg64_0] assms(3) by auto
  have "abs64 s \<le> 2" using f(1,2) assms(2) by (rule nearly_unit_bound)
  have "within32 x 8" if "x \<in> set v" for x
  proof (rule abs32_within)
    show "f32_is_finite x" using f(3) that by blast
    have "abs32 x * abs32 x \<le> 8 * 8" using f(3) that \<open>abs64 s \<le> 2\<close> by force
    then show "abs32 x \<le> 8"
      by (metis abs_le_square_iff abs_numeral abs_of_nonneg magnitude_value_nonneg power2_eq_square)
  qed
  then show ?thesis by (simp add: unit_components_def)
qed

end
