(* ===== verification/Flat_Theorems.thy ===== *)
theory Flat_Theorems
  imports Flat_Index Score_Bounds
begin

text \<open>
  The exact index: the invariant that holds of every index the code can build, by
  insertions (failing ones included) and deletions, and the theorems on its operations.
  The invariant adds to the representation invariant that the stored components are small
  finite numbers, which is what keeps every similarity a number: the ranking of the code
  is a strict order on scores that are not NaN only.
\<close>

definition flat_inv :: "flat_index \<Rightarrow> bool" where
  "flat_inv ix \<longleftrightarrow> flat_wf ix \<and> unit_components (flat_vectors ix)
     \<and> flat_dimension ix < score_dimension (flat_kernel ix)"

inductive flat_reachable :: "flat_index \<Rightarrow> bool" where
  create: "flat_create dims kern = Inr ix \<Longrightarrow> dims < score_dimension kern \<Longrightarrow> flat_reachable ix"
| add: "flat_reachable ix \<Longrightarrow> flat_add fault vid v ix = (ix', r) \<Longrightarrow> flat_reachable ix'"
| erase: "flat_reachable ix \<Longrightarrow> flat_erase vid ix = (ix', b) \<Longrightarrow> flat_reachable ix'"

lemma score_dimension_le: "score_dimension raw \<le> 2 ^ 53"
  by (simp add: score_dimension_def)

lemma score_dimension_gt1: "1 < score_dimension raw" "0 < score_dimension raw"
  by (simp_all add: score_dimension_def)

lemma flat_add_vectors:
  assumes "flat_add fault vid v ix = (ix', Inr u)" "normalize_l2 v = Inr r"
  shows "flat_vectors ix' = flat_vectors ix @ r"
  using assms by (auto simp: flat_add_def flat_append_def Let_def split: if_splits)

lemma flat_add_inv:
  assumes "flat_inv ix" "flat_add fault vid v ix = (ix', res)"
  shows "flat_inv ix'"
proof (cases res)
  case (Inl e)
  then have "ix' = ix" using assms by (intro flat_add_failure) (auto simp: flat_inv_def)
  then show ?thesis using assms by simp
next
  case (Inr u)
  note add = assms(2) [unfolded Inr]
  have wf: "flat_wf ix" using assms(1) by (simp add: flat_inv_def)
  obtain r where r: "normalize_l2 v = Inr r" "flat_wf ix'"
    "flat_dimension ix' = flat_dimension ix" "flat_kernel ix' = flat_kernel ix"
    using wf add by (rule flat_add_success)
  have "length v = flat_dimension ix" using add by (rule flat_add_ok_cases)
  then have "length v < 2 ^ 53"
    using assms(1) score_dimension_le [of "flat_kernel ix"] by (simp add: flat_inv_def)
  with r(1) have "unit_components r" by (rule normalize_l2_unit_components)
  then show ?thesis using assms(1) r flat_add_vectors [OF add r(1)] by (simp add: flat_inv_def)
qed

lemma set_write_row: "set (write_row d xs i r) \<subseteq> set xs \<union> set r"
  by (auto simp: write_row_def dest: in_set_takeD in_set_dropD)

lemma flat_erase_vectors: "set (flat_vectors (fst (flat_erase vid ix))) \<subseteq> set (flat_vectors ix)"
proof -
  have "set (write_row d xs i (row_of d xs j)) \<subseteq> set xs" for d i j and xs :: "f32 list"
    using set_write_row [of d xs i "row_of d xs j"] set_row_of [of d xs j] by blast
  then have "set (flat_vectors (flat_move_last row j ix)) \<subseteq> set (flat_vectors ix)" for row j
    by (simp add: flat_move_last_def Let_def)
  from subset_trans [OF set_take_subset this] set_take_subset [of _ "flat_vectors ix"]
  show ?thesis by (cases "flat_id_to_row ix vid") (simp_all add: flat_erase_def Let_def)
qed

lemma flat_erase_inv:
  assumes "flat_inv ix"
  shows "flat_inv (fst (flat_erase vid ix))"
proof (cases "flat_id_to_row ix vid")
  case None
  then show ?thesis using assms by (simp add: flat_erase_absent)
next
  case (Some row)
  have wf: "flat_wf ix" using assms by (simp add: flat_inv_def)
  show ?thesis
    using assms flat_erase_present [OF wf Some] unit_components_subset [OF _ flat_erase_vectors]
    by (simp add: flat_inv_def)
qed

lemma flat_create_inv:
  "flat_create dims kern = Inr ix \<Longrightarrow> dims < score_dimension kern \<Longrightarrow> flat_inv ix"
  using flat_create_wf by (fastforce simp: flat_inv_def flat_create_def split: if_splits)

lemma flat_reachable_inv: "flat_reachable ix \<Longrightarrow> flat_inv ix"
proof (induction rule: flat_reachable.induct)
  case (erase ix vid ix' b)
  then show ?case using flat_erase_inv [of ix vid] by simp
qed (auto intro: flat_create_inv flat_add_inv)

lemma flat_inv_scored:
  assumes inv: "flat_inv ix" and q: "normalize_l2 query = Inr q" "length query = flat_dimension ix"
  shows "flat_scored ix (flat_kernel ix) q"
proof -
  let ?raw = "flat_kernel ix"
  have len: "length q = flat_dimension ix" "length query < 2 ^ 53"
    using q inv score_dimension_le [of ?raw] by (simp_all add: length_normalize_l2 flat_inv_def)
  have fin: "f32_is_finite (raw_dot_product ?raw q (row_of (flat_dimension ix) (flat_vectors ix) i))"
    for i
  proof (rule raw_dot_product_finite)
    show "unit_components q" using q(1) len(2) by (rule normalize_l2_unit_components)
    show "unit_components (row_of (flat_dimension ix) (flat_vectors ix) i)"
      using inv unfolding flat_inv_def by (blast intro: unit_components_subset [OF _ set_row_of])
    show "length q < score_dimension ?raw" using inv len by (simp add: flat_inv_def)
  qed
  have "\<not> f32_is_nan x" if "f32_is_finite x" for x
    using that by (simp add: f32_is_nan_def f32_is_finite_def is_nan_mag_def is_finite_mag_def)
  then show ?thesis
    using fin by (auto simp: flat_scored_def flat_candidates_def flat_candidate_def has_score_def)
qed

section \<open>Theorems\<close>

definition flat_sample :: flat_index where
  "flat_sample =
     \<lparr>flat_dimension = 1, flat_kernel = Scalar, flat_vectors = [0x3F800000, 0xBF800000],
      flat_ids = [7, 9], flat_id_to_row = [7 \<mapsto> 0, 9 \<mapsto> 1]\<rparr>"

lemma flat_sample_inv: "flat_inv flat_sample"
proof -
  have "unit_components [0x3F800000]" "unit_components [0xBF800000]"
    using normalize_l2_unit_components [OF normalize_l2_one]
      normalize_l2_unit_components [OF normalize_l2_minus_two] by simp_all
  then show ?thesis
    by (auto simp: flat_inv_def flat_wf_def flat_sample_def score_dimension_def nth_Cons
        split: nat.splits)
qed

lemma flat_sample_fields [simp]:
  "flat_dimension flat_sample = 1" "flat_kernel flat_sample = Scalar"
  "flat_size flat_sample = 2" "flat_id_to_row flat_sample = [7 \<mapsto> 0, 9 \<mapsto> 1]"
  by (simp_all add: flat_sample_def flat_size_def)

text \<open>C4: an index built by any sequence of insertions, failing insertions and deletions
  satisfies the invariant: the ID map and the row array agree, IDs are distinct, the float
  array has one row per ID, and every stored component is a finite number of small
  magnitude.\<close>

theorem flat_reachable_invariant: "flat_reachable ix \<Longrightarrow> flat_inv ix"
  by (rule flat_reachable_inv)

theorem flat_reachable_invariant_witness:
  "flat_inv (\<lparr>flat_dimension = 3, flat_kernel = Avx2, flat_vectors = [], flat_ids = [],
     flat_id_to_row = Map.empty\<rparr>)"
  by (rule flat_reachable_invariant, rule flat_reachable.create [of 3 Avx2])
    (simp_all add: flat_create_def score_dimension_def)

text \<open>C1: exact Top-K search. A search that is not interrupted, with a valid query and
  \<open>k > 0\<close>, returns: the results are ranked best first (larger score, then smaller ID), have
  distinct IDs, are \<open>min k\<close> of the index size many, each is a stored vector with its
  similarity to the normalised query, and every stored vector left out ranks below every
  vector returned.\<close>

theorem flat_search_exact:
  assumes "flat_inv ix" "quiet ctx env" "check_interval ctx \<noteq> 0" "k \<noteq> 0"
    and "length query = flat_dimension ix" "normalize_l2 query = Inr q"
    and "flat_kernel ix = Avx2 \<longrightarrow> avx2"
  shows "\<exists>rs. flat_search avx2 ix query k ctx env = Inr rs
    \<and> sorted_wrt is_better rs \<and> distinct (map result_id rs)
    \<and> length rs = min k (flat_size ix)
    \<and> (\<forall>r\<in>set rs. \<exists>v. flat_abs ix (result_id r) = Some v
          \<and> result_score r = raw_dot_product (flat_kernel ix) q v)
    \<and> (\<forall>r\<in>set rs. \<forall>vid v. flat_abs ix vid = Some v \<and> vid \<notin> result_id ` set rs \<longrightarrow>
          is_better r \<lparr>result_id = vid,
            result_score = raw_dot_product (flat_kernel ix) q v\<rparr>)"
proof -
  have scored: "flat_scored ix (flat_kernel ix) q" using assms by (intro flat_inv_scored)
  moreover have wf: "flat_wf ix" using assms by (simp add: flat_inv_def)
  ultimately have "flat_search avx2 ix query k ctx env = Inr (flat_top_k ix (flat_kernel ix) q k)"
    using assms by (intro flat_search_quiet)
  with flat_top_k_facts [OF wf scored, where k = k] show ?thesis by fastforce
qed

theorem flat_search_exact_witness:
  "\<exists>rs. flat_search False flat_sample [0xC0000000] 1 default_context (\<lambda>_. (NoReason, 0)) = Inr rs
    \<and> length rs = 1"
  using flat_search_exact [OF flat_sample_inv default_context_quiet _ _ _ normalize_l2_minus_two,
      where k = 1 and ?avx2.0 = False and env = "\<lambda>_. (NoReason, 0)"]
  by (auto simp: default_context_def)

text \<open>Whatever a search observes of the clock and of its cancellation object, a
  well-formed request either is interrupted (and says by which reason) or returns exactly
  the Top-K of the stored vectors: no partial result ever escapes.\<close>

theorem flat_search_all_or_nothing:
  assumes "flat_inv ix" "check_interval ctx \<noteq> 0"
    and "length query = flat_dimension ix" "normalize_l2 query = Inr q"
    and "flat_kernel ix = Avx2 \<longrightarrow> avx2"
  shows "(\<exists>r. flat_search avx2 ix query k ctx env = Inl (Search_interrupted r) \<and> r \<noteq> NoReason)
    \<or> flat_search avx2 ix query k ctx env = Inr (flat_top_k ix (flat_kernel ix) q k)"
proof (cases "flat_search avx2 ix query k ctx env")
  case (Inl e)
  then have "is_interruption e" using assms by (intro flat_search_interrupted)
  with Inl show ?thesis by (auto simp: is_interruption_def)
next
  case (Inr rs)
  have wf: "flat_wf ix" using assms by (simp add: flat_inv_def)
  have "flat_scored ix (flat_kernel ix) q'" if "normalize_l2 query = Inr q'" for q'
    using assms that by (intro flat_inv_scored)
  from flat_search_outcome [OF wf this Inr] assms Inr show ?thesis
    by (auto simp: flat_top_k_def)
qed

theorem flat_search_all_or_nothing_witness:
  "(\<exists>r. flat_search False flat_sample [0x3F800000] 1 default_context (\<lambda>_. (Cancelled, 0)) =
        Inl (Search_interrupted r) \<and> r \<noteq> NoReason)
    \<or> flat_search False flat_sample [0x3F800000] 1 default_context (\<lambda>_. (Cancelled, 0)) =
        Inr (flat_top_k flat_sample Scalar [0x3F800000] 1)"
  using flat_search_all_or_nothing [OF flat_sample_inv _ _ normalize_l2_one,
      where k = 1 and ?avx2.0 = False and ctx = default_context and env = "\<lambda>_. (Cancelled, 0)"]
  by (simp add: default_context_def)

text \<open>C2: insertion. \<open>add\<close> succeeds exactly when the dimension matches, the ID is new,
  the vector can be normalised and no allocation fails; then it adds the normalised
  vector under its ID and nothing else. When it throws, the state is the one before the
  call, also when the allocation of the ID array or of the float array failed half way.\<close>

theorem flat_add_refines:
  assumes "flat_inv ix"
  shows "case flat_add fault vid v ix of
      (ix', Inr u) \<Rightarrow> \<exists>r. normalize_l2 v = Inr r \<and> flat_abs ix vid = None
        \<and> flat_abs ix' = (flat_abs ix)(vid \<mapsto> r) \<and> flat_ids ix' = flat_ids ix @ [vid]
        \<and> flat_inv ix'
    | (ix', Inl e) \<Rightarrow> ix' = ix \<and>
        (if length v \<noteq> flat_dimension ix then
           e = Invalid_argument ''vector dimension does not match index dimension''
         else if flat_abs ix vid \<noteq> None then e = Invalid_argument ''vector ID already exists''
         else normalize_l2 v = Inl e \<or> e = Bad_alloc \<and> fault \<noteq> None)"
proof -
  have wf: "flat_wf ix" using assms by (simp add: flat_inv_def)
  obtain ix' res where add: "flat_add fault vid v ix = (ix', res)" by fastforce
  show ?thesis
  proof (cases res)
    case (Inr u)
    with add have ok: "flat_add fault vid v ix = (ix', Inr u)" by simp
    obtain r where "normalize_l2 v = Inr r" "flat_abs ix vid = None"
      "flat_abs ix' = (flat_abs ix)(vid \<mapsto> r)" "flat_ids ix' = flat_ids ix @ [vid]"
      using wf ok by (rule flat_add_success)
    with ok flat_add_inv [OF assms add] show ?thesis by auto
  next
    case (Inl e)
    then have "ix' = ix" using flat_add_failure [OF wf] add by auto
    with add Inl show ?thesis
      by (auto simp: flat_add_def flat_append_def flat_abs_def Let_def
          split: if_splits sum.splits)
  qed
qed

theorem flat_add_refines_witness:
  "flat_inv flat_sample \<and> flat_abs (fst (flat_add None 3 [0xC0000000] flat_sample)) 3 =
     Some [0xBF800000]"
proof -
  have "snd (flat_add None 3 [0xC0000000] flat_sample) = Inr ()"
    by (simp add: flat_add_def flat_append_def flat_sample_def)
  then show ?thesis
    using flat_add_refines [OF flat_sample_inv, where fault = None and vid = 3
        and v = "[0xC0000000]"] flat_sample_inv
    by (auto split: prod.splits sum.splits)
qed

text \<open>C3: deletion. \<open>erase\<close> returns whether the ID was stored, removes its vector and
  leaves every other ID with its vector, although it moves the last row into the gap.\<close>

theorem flat_erase_refines:
  assumes "flat_inv ix"
  shows "(snd (flat_erase vid ix) \<longleftrightarrow> flat_abs ix vid \<noteq> None)
    \<and> flat_abs (fst (flat_erase vid ix)) = (flat_abs ix)(vid := None)
    \<and> flat_inv (fst (flat_erase vid ix))"
proof -
  have wf: "flat_wf ix" using assms by (simp add: flat_inv_def)
  have "(snd (flat_erase vid ix) \<longleftrightarrow> flat_abs ix vid \<noteq> None)
    \<and> flat_abs (fst (flat_erase vid ix)) = (flat_abs ix)(vid := None)"
    using flat_erase_absent [of ix vid] flat_erase_present(1,3) [OF wf]
    by (cases "flat_id_to_row ix vid"; fastforce simp: flat_abs_def fun_eq_iff)
  then show ?thesis using flat_erase_inv [OF assms] by blast
qed

theorem flat_erase_refines_witness:
  "snd (flat_erase 7 flat_sample) \<and> \<not> snd (flat_erase 8 flat_sample)"
  using flat_erase_refines [OF flat_sample_inv, of 7] flat_erase_refines [OF flat_sample_inv, of 8]
  by (simp add: flat_abs_def)

text \<open>The search result depends on the stored vectors only, not on the order of the
  insertions and deletions that led to them nor on the rows they occupy.\<close>

theorem flat_search_history_independent:
  assumes "flat_inv ix" "flat_inv iy" "flat_abs ix = flat_abs iy"
    and "flat_dimension ix = flat_dimension iy" "flat_kernel ix = flat_kernel iy"
    and "quiet ctx env" "check_interval ctx \<noteq> 0" "k \<noteq> 0"
    and "length query = flat_dimension ix" "normalize_l2 query = Inr q"
    and "flat_kernel ix = Avx2 \<longrightarrow> avx2"
  shows "flat_search avx2 ix query k ctx env = flat_search avx2 iy query k ctx env"
proof -
  have wf: "flat_wf ix" "flat_wf iy" using assms by (simp_all add: flat_inv_def)
  have scored: "flat_scored ix (flat_kernel ix) q" "flat_scored iy (flat_kernel iy) q"
    using assms flat_inv_scored [of ix query q] flat_inv_scored [of iy query q] by simp_all
  have "flat_search avx2 ix query k ctx env = Inr (flat_top_k ix (flat_kernel ix) q k)"
    "flat_search avx2 iy query k ctx env = Inr (flat_top_k iy (flat_kernel iy) q k)"
    by (rule flat_search_quiet; use wf scored assms in simp)+
  with flat_top_k_cong [OF wf assms(3) scored(1)] assms(5) show ?thesis by simp
qed

definition flat_sample_swapped :: flat_index where
  "flat_sample_swapped =
     \<lparr>flat_dimension = 1, flat_kernel = Scalar, flat_vectors = [0xBF800000, 0x3F800000],
      flat_ids = [9, 7], flat_id_to_row = [9 \<mapsto> 0, 7 \<mapsto> 1]\<rparr>"

theorem flat_search_history_independent_witness:
  "flat_search False flat_sample [0x3F800000] 1 default_context (\<lambda>_. (NoReason, 0)) =
   flat_search False flat_sample_swapped [0x3F800000] 1 default_context (\<lambda>_. (NoReason, 0))"
proof (rule flat_search_history_independent [OF flat_sample_inv])
  show "flat_inv flat_sample_swapped"
    using flat_sample_inv by (auto simp: flat_sample_def flat_sample_swapped_def flat_inv_def
        flat_wf_def score_dimension_def nth_Cons split: nat.splits)
  show "flat_abs flat_sample = flat_abs flat_sample_swapped"
    by (auto simp: flat_abs_def flat_sample_def flat_sample_swapped_def row_of_def)
qed (simp_all add: flat_sample_def flat_sample_swapped_def default_context_def
    normalize_l2_one quiet_def clock_max_def)

end
