(* ===== verification/Byte_Codec.thy ===== *)
theory Byte_Codec
  imports Prelude
begin

text \<open>
  The binary layer the two snapshot formats share (src/flat_index_io.cpp and
  src/hnsw_index_io.cpp each hold a copy): little-endian integers, the FNV-1a checksum,
  overflow-checked arithmetic, exact reads from an input stream and writes to an output
  stream that may fail. A file is its list of bytes; a reader is what is left of it and
  the running checksum. The locale \<open>codec\<close> is the contract of a printer and a parser:
  the parser inverts the printer, accepts nothing else, and updates the checksum with the
  bytes it consumed.
\<close>

unbundle bit_operations_syntax

section \<open>Little-endian integers\<close>

text \<open>The write loop emits the low byte and shifts; the read loop ors shifted bytes.\<close>

fun le_bytes :: "nat \<Rightarrow> 'a::len word \<Rightarrow> u8 list" where
  "le_bytes 0 v = []"
| "le_bytes (Suc n) v = ucast (v AND 0xFF) # le_bytes n (drop_bit 8 v)"

fun le_value :: "nat \<Rightarrow> 'a::len word \<Rightarrow> u8 list \<Rightarrow> 'a word" where
  "le_value i v [] = v"
| "le_value i v (b # bs) = le_value (Suc i) (v OR push_bit (8 * i) (ucast b)) bs"

lemma length_le_bytes [simp]: "length (le_bytes n v) = n"
  by (induction n v rule: le_bytes.induct) auto

lemma le_bytes_0xFF: "le_bytes (Suc n) v = ucast v # le_bytes n (drop_bit 8 v)"
proof -
  have mask: "(0xFF :: 'a word) = mask 8" by (simp add: mask_eq_exp_minus_1)
  have "ucast (v AND 0xFF) = (ucast v :: u8)"
    unfolding mask by (intro bit_word_eqI) (auto simp: bit_simps dest: bit_imp_le_length)
  then show ?thesis by simp
qed

lemma bit_le_value:
  "bit (le_value i (v :: 'a::len word) bs) k \<longleftrightarrow> bit v k \<or>
     (k < LENGTH('a) \<and> 8 * i \<le> k \<and> (k - 8 * i) div 8 < length bs \<and>
      bit (bs ! ((k - 8 * i) div 8)) ((k - 8 * i) mod 8))"
proof (induction bs arbitrary: i v)
  case (Cons b bs)
  let ?v = "v OR push_bit (8 * i) (ucast b) :: 'a word"
  have len: "bit b j \<Longrightarrow> j < 8" for j using bit_imp_le_length [of b j] by simp
  have hd: "bit ?v k \<longleftrightarrow> bit v k \<or> (k < LENGTH('a) \<and> 8 * i \<le> k \<and> k < 8 * i + 8 \<and> bit b (k - 8 * i))"
    using len [of "k - 8 * i"] by (auto simp: bit_simps)
  consider "k < 8 * i" | "8 * i \<le> k" "k < 8 * i + 8" | "8 * i + 8 \<le> k" by linarith
  then show ?case
  proof cases
    case 3
    then obtain j where j: "k = 8 * i + 8 + j" by (metis le_iff_add)
    then have "(k - 8 * i) div 8 = Suc (j div 8)" "(k - 8 * i) mod 8 = j mod 8"
      "k - 8 * Suc i = j" by auto
    with 3 show ?thesis by (simp add: Cons.IH hd)
  qed (auto simp: Cons.IH hd)
qed simp

lemma le_bytes_nth: "j < n \<Longrightarrow> le_bytes n v ! j = ucast (drop_bit (8 * j) v)"
proof (induction n arbitrary: v j)
  case (Suc n)
  then show ?case
    by (cases j) (simp_all del: le_bytes.simps add: le_bytes_0xFF drop_bit_drop_bit add.commute)
qed simp

lemma le_value_le_bytes [simp]:
  assumes "LENGTH('a) = 8 * n"
  shows "le_value 0 0 (le_bytes n v) = (v :: 'a::len word)"
proof (rule bit_word_eqI)
  fix k assume k: "k < LENGTH('a)"
  then have "k div 8 < n" using assms by simp
  then have "bit (le_bytes n v ! (k div 8)) (k mod 8) \<longleftrightarrow> bit v k"
    by (simp add: le_bytes_nth bit_simps)
  with k \<open>k div 8 < n\<close> show "bit (le_value 0 0 (le_bytes n v) :: 'a word) k = bit v k"
    by (simp add: bit_le_value)
qed

lemma le_bytes_le_value [simp]:
  assumes "LENGTH('a) = 8 * n" "length bs = n"
  shows "le_bytes n (le_value 0 0 bs :: 'a::len word) = bs"
proof (rule nth_equalityI)
  fix j assume j: "j < length (le_bytes n (le_value 0 0 bs :: 'a word))"
  have "bit (le_bytes n (le_value 0 0 bs :: 'a word) ! j) k = bit (bs ! j) k" if "k < 8" for k
  proof -
    have "(8 * j + k) div 8 = j" "(8 * j + k) mod 8 = k" "8 * j + k < LENGTH('a)"
      using that j assms by auto
    then show ?thesis using j assms that by (simp add: le_bytes_nth bit_simps bit_le_value)
  qed
  then show "le_bytes n (le_value 0 0 bs :: 'a word) ! j = bs ! j"
    by (intro bit_word_eqI) simp
qed (simp add: assms)

lemma le_bytes_inj:
  "LENGTH('a) = 8 * n \<Longrightarrow> le_bytes n v = le_bytes n w \<longleftrightarrow> v = (w :: 'a::len word)"
  by (metis le_value_le_bytes)

section \<open>The FNV-1a checksum\<close>

definition fnv_offset_basis :: u64 where "fnv_offset_basis = 14695981039346656037"
definition fnv_prime :: u64 where "fnv_prime = 1099511628211"

definition update_checksum :: "u64 \<Rightarrow> u8 \<Rightarrow> u64" where
  "update_checksum checksum byte = (checksum XOR ucast byte) * fnv_prime"

fun checksum_integer :: "nat \<Rightarrow> u64 \<Rightarrow> 'a::len word \<Rightarrow> u64" where
  "checksum_integer 0 c v = c"
| "checksum_integer (Suc n) c v =
     checksum_integer n (update_checksum c (ucast (v AND 0xFF))) (drop_bit 8 v)"

abbreviation checksum_bytes :: "u64 \<Rightarrow> u8 list \<Rightarrow> u64" where
  "checksum_bytes \<equiv> foldl update_checksum"

lemma checksum_integer_bytes: "checksum_integer n c v = checksum_bytes c (le_bytes n v)"
  by (induction n c v rule: checksum_integer.induct) simp_all

text \<open>
  Each step is a bijection of the checksum, since the prime is odd, and for a fixed
  checksum it is injective in the byte. So two byte strings of equal length that differ
  in exactly one byte never have the same checksum.
\<close>

lemma fnv_prime_inverse: "fnv_prime * 14886173955864302971 = 1"
  by (simp add: fnv_prime_def)

lemma fnv_prime_cancel: "x * fnv_prime = y * fnv_prime \<Longrightarrow> x = y"
proof -
  assume "x * fnv_prime = y * fnv_prime"
  then have "x * (fnv_prime * 14886173955864302971) = y * (fnv_prime * 14886173955864302971)"
    by (simp only: mult.assoc [symmetric])
  then show ?thesis by (simp add: fnv_prime_inverse)
qed

lemma xor_cancel: "x XOR y = x' XOR y \<Longrightarrow> x = (x' :: u64)"
  by (drule arg_cong [of _ _ "\<lambda>z. z XOR y"]) (simp add: xor.assoc)

lemma update_checksum_inj: "update_checksum c b = update_checksum c' b \<Longrightarrow> c = c'"
  unfolding update_checksum_def by (drule fnv_prime_cancel) (rule xor_cancel)

lemma update_checksum_byte: "update_checksum c b = update_checksum c b' \<Longrightarrow> b = b'"
proof -
  assume "update_checksum c b = update_checksum c b'"
  then have "ucast b XOR c = ucast b' XOR c"
    unfolding update_checksum_def by (drule_tac fnv_prime_cancel) (simp only: xor.commute)
  then have "ucast b = (ucast b' :: u64)" by (rule xor_cancel)
  then have eq: "bit (ucast b :: u64) n = bit (ucast b' :: u64) n" for n by simp
  have "bit b n = bit b' n" if "n < 8" for n using eq [of n] that by (simp add: bit_simps)
  then show ?thesis by (intro bit_word_eqI) simp
qed

lemma checksum_bytes_inj: "checksum_bytes c bs = checksum_bytes c' bs \<Longrightarrow> c = c'"
  by (induction bs arbitrary: c c') (auto dest: update_checksum_inj)

lemma checksum_detects_byte:
  "checksum_bytes c (as @ b # bs) = checksum_bytes c (as @ b' # bs) \<longleftrightarrow> b = b'"
  by (auto dest!: checksum_bytes_inj update_checksum_byte)

section \<open>Checked arithmetic\<close>

text \<open>\<open>p\<close> is the prefix of the file's \<open>fail\<close>.\<close>

definition fail :: "string \<Rightarrow> string \<Rightarrow> 'a result" where
  "fail p message = Inl (Runtime_error (p @ message))"

definition checked_multiply :: "string \<Rightarrow> u64 \<Rightarrow> u64 \<Rightarrow> string \<Rightarrow> u64 result" where
  "checked_multiply p lhs rhs field =
     (if lhs \<noteq> 0 \<and> (- 1) div lhs < rhs then fail p (field @ '' overflows'')
      else Inr (lhs * rhs))"

definition checked_add :: "string \<Rightarrow> u64 \<Rightarrow> u64 \<Rightarrow> string \<Rightarrow> u64 result" where
  "checked_add p lhs rhs field =
     (if (- 1) - lhs < rhs then fail p (field @ '' overflows'') else Inr (lhs + rhs))"

text \<open>A \<open>uint64_t\<close> as \<open>size_t\<close>; the platform's \<open>size_t\<close> has 64 bits.\<close>

definition to_size_t :: "string \<Rightarrow> u64 \<Rightarrow> string \<Rightarrow> string \<Rightarrow> nat result" where
  "to_size_t p value field suffix =
     (if 2 ^ 64 - 1 < unat value then fail p (field @ suffix) else Inr (unat value))"

lemma to_size_t_eq [simp]: "to_size_t p v field suffix = Inr (unat v)"
  using unat_u64 [of v] by (simp add: to_size_t_def)

lemma fail_not_Inr [simp]: "fail p m \<noteq> Inr x" "Inr x \<noteq> fail p m"
  by (simp_all add: fail_def)

lemma unat_max_u64: "unat (- 1 :: u64) = 2 ^ 64 - 1"
  by (simp add: unsigned_minus_1_eq_mask mask_eq_exp_minus_1)

lemma checked_add_Inr [result_simps]:
  "checked_add p a b m = Inr r \<longleftrightarrow> unat a + unat b < 2 ^ 64 \<and> r = a + b"
proof -
  have "unat ((- 1) - a) = 2 ^ 64 - 1 - unat a"
    by (subst unat_sub) (simp_all add: unat_max_u64)
  then have "(- 1) - a < b \<longleftrightarrow> \<not> unat a + unat b < 2 ^ 64"
    unfolding word_less_nat_alt using unat_u64 [of a] by simp linarith
  then show ?thesis by (auto simp: checked_add_def)
qed

lemma checked_multiply_Inr [result_simps]:
  "checked_multiply p a b m = Inr r \<longleftrightarrow> unat a * unat b < 2 ^ 64 \<and> r = a * b"
proof (cases "a = 0")
  case False
  then have pos: "0 < unat a" by (simp add: unat_gt_0)
  have "(- 1) div a < b \<longleftrightarrow> (2 ^ 64 - 1) div unat a < unat b"
    unfolding word_less_nat_alt by (simp add: unat_div_distrib unat_max_u64)
  also have "\<dots> \<longleftrightarrow> 2 ^ 64 - 1 < unat a * unat b"
    using pos by (simp add: div_less_iff_less_mult mult.commute)
  finally show ?thesis using False by (auto simp: checked_multiply_def)
next
  case True
  then show ?thesis by (auto simp: checked_multiply_def)
qed

lemma checked_add_exact: "checked_add p a b m = Inr r \<Longrightarrow> unat r = unat a + unat b"
  by (auto simp: result_simps unat_add_lem [symmetric])

lemma checked_multiply_exact: "checked_multiply p a b m = Inr r \<Longrightarrow> unat r = unat a * unat b"
  by (auto simp: result_simps unat_mult_lem [symmetric])

section \<open>Input streams\<close>

text \<open>What is left of the file, and the checksum of the bytes it covers so far.\<close>

type_synonym reader = "u8 list \<times> u64"

definition read_exact :: "string \<Rightarrow> nat \<Rightarrow> u8 list \<Rightarrow> (u8 list \<times> u8 list) result" where
  "read_exact p n input =
     (if length input < n then fail p ''file is truncated'' else Inr (take n input, drop n input))"

text \<open>\<open>read_little_endian\<close> leaves the checksum alone, \<open>read_payload_value\<close> updates it.\<close>

definition read_little_endian :: "string \<Rightarrow> nat \<Rightarrow> reader \<Rightarrow> ('a::len word \<times> reader) result" where
  "read_little_endian p n r =
     (case r of (input, checksum) \<Rightarrow>
        and_then (read_exact p n input) (\<lambda>(bytes, rest).
          Inr (le_value 0 0 bytes, (rest, checksum))))"

definition read_payload_value :: "string \<Rightarrow> nat \<Rightarrow> reader \<Rightarrow> ('a::len word \<times> reader) result" where
  "read_payload_value p n r =
     (case r of (input, checksum) \<Rightarrow>
        and_then (read_exact p n input) (\<lambda>(bytes, rest).
          Inr (le_value 0 0 bytes, (rest, checksum_bytes checksum bytes))))"

lemma read_exact_Inr [result_simps]:
  "read_exact p n input = Inr (bytes, rest) \<longleftrightarrow> length bytes = n \<and> input = bytes @ rest"
  by (auto simp: read_exact_def)

lemma read_exact_append [simp]: "length bytes = n \<Longrightarrow> read_exact p n (bytes @ rest) = Inr (bytes, rest)"
  by (simp add: read_exact_Inr)

lemma read_little_endian_Inr [result_simps]:
  assumes "LENGTH('a) = 8 * n"
  shows "read_little_endian p n (input, c) = Inr (v :: 'a::len word, (rest, c')) \<longleftrightarrow>
    input = le_bytes n v @ rest \<and> c' = c"
  using assms by (auto simp: read_little_endian_def result_simps split: prod.splits)

section \<open>Printers and parsers\<close>

text \<open>
  The contract of one item of a format: on the values that satisfy \<open>ok\<close> the parser reads
  back what the printer wrote, and whatever it accepts is the printed form of the value it
  returns, with the checksum advanced over exactly those bytes.
\<close>

locale codec =
  fixes parse :: "reader \<Rightarrow> ('a \<times> reader) result" and show_bytes :: "'a \<Rightarrow> u8 list"
    and ok :: "'a \<Rightarrow> bool"
  assumes parse_show:
      "ok x \<Longrightarrow> parse (show_bytes x @ rest, c) = Inr (x, (rest, checksum_bytes c (show_bytes x)))"
    and show_parse:
      "parse (input, c) = Inr (x, (rest, c')) \<Longrightarrow>
         ok x \<and> input = show_bytes x @ rest \<and> c' = checksum_bytes c (show_bytes x)"
begin

lemma parse_iff:
  "parse (input, c) = Inr (x, (rest, c')) \<longleftrightarrow>
     ok x \<and> input = show_bytes x @ rest \<and> c' = checksum_bytes c (show_bytes x)"
  using parse_show show_parse by auto

text \<open>The encoding is prefix-free, so a value is determined by any input it begins.\<close>

lemma show_prefix_free: "ok x \<Longrightarrow> ok y \<Longrightarrow> show_bytes x @ r = show_bytes y @ s \<Longrightarrow> x = y \<and> r = s"
  by (metis parse_show Inr_inject prod.inject)

end

text \<open>A sequence of items of known number.\<close>

fun parse_many :: "(reader \<Rightarrow> ('a \<times> reader) result) \<Rightarrow> nat \<Rightarrow> reader \<Rightarrow> ('a list \<times> reader) result" where
  "parse_many item 0 r = Inr ([], r)"
| "parse_many item (Suc n) r =
     and_then (item r) (\<lambda>(x, r). and_then (parse_many item n r) (\<lambda>(xs, r). Inr (x # xs, r)))"

definition show_many :: "('a \<Rightarrow> u8 list) \<Rightarrow> 'a list \<Rightarrow> u8 list" where
  "show_many sh xs = concat (map sh xs)"

lemma show_many_simps [simp]:
  "show_many sh [] = []" "show_many sh (x # xs) = sh x @ show_many sh xs"
  by (simp_all add: show_many_def)

context codec
begin

lemma parse_many_iff:
  "parse_many parse n (input, c) = Inr (xs, (rest, c')) \<longleftrightarrow>
     length xs = n \<and> (\<forall>x\<in>set xs. ok x) \<and> input = show_many show_bytes xs @ rest
     \<and> c' = checksum_bytes c (show_many show_bytes xs)"
proof (induction n arbitrary: input c xs)
  case 0
  then show ?case by auto
next
  case (Suc n)
  have step: "parse_many parse (Suc n) (input, c) = Inr (xs, (rest, c')) \<longleftrightarrow>
      (\<exists>y ys m c1. xs = y # ys \<and> parse (input, c) = Inr (y, (m, c1))
         \<and> parse_many parse n (m, c1) = Inr (ys, (rest, c')))"
    by (auto simp: result_simps)
  show ?case
  proof (cases xs)
    case (Cons y ys)
    have "parse_many parse (Suc n) (input, c) = Inr (xs, (rest, c')) \<longleftrightarrow>
        (\<exists>m c1. ok y \<and> input = show_bytes y @ m \<and> c1 = checksum_bytes c (show_bytes y)
           \<and> length ys = n \<and> (\<forall>x\<in>set ys. ok x) \<and> m = show_many show_bytes ys @ rest
           \<and> c' = checksum_bytes c1 (show_many show_bytes ys))"
      unfolding step [unfolded Cons] Cons parse_iff Suc.IH list.inject by blast
    also have "\<dots> \<longleftrightarrow> length xs = Suc n \<and> (\<forall>x\<in>set xs. ok x)
        \<and> input = show_many show_bytes xs @ rest
        \<and> c' = checksum_bytes c (show_many show_bytes xs)"
      by (simp add: Cons) blast
    finally show ?thesis .
  next
    case Nil
    then show ?thesis unfolding step by simp
  qed
qed

end

lemma read_payload_value_codec:
  assumes "LENGTH('a) = 8 * n"
  shows "codec (read_payload_value p n) (le_bytes n :: 'a::len word \<Rightarrow> u8 list) (\<lambda>_. True)"
  using assms
  by unfold_locales (auto simp: read_payload_value_def result_simps split: prod.splits)

interpretation u64_codec: codec "read_payload_value p 8" "le_bytes 8 :: u64 \<Rightarrow> u8 list" "\<lambda>_. True"
  for p by (rule read_payload_value_codec) simp

interpretation u32_codec: codec "read_payload_value p 4" "le_bytes 4 :: u32 \<Rightarrow> u8 list" "\<lambda>_. True"
  for p by (rule read_payload_value_codec) simp

interpretation u8_codec: codec "read_payload_value p 1" "le_bytes 1 :: u8 \<Rightarrow> u8 list" "\<lambda>_. True"
  for p by (rule read_payload_value_codec) simp

section \<open>Output streams\<close>

text \<open>
  A file opened with \<open>trunc\<close> starts empty. The device accepts \<open>room\<close> more bytes; a write
  that does not fit leaves a partial file and fails the stream, as may the final flush.
\<close>

record out_stream =
  written :: "u8 list"
  room :: nat

definition write_exact :: "string \<Rightarrow> u8 list \<Rightarrow> out_stream \<Rightarrow> out_stream \<times> unit result" where
  "write_exact message data s =
     (if length data \<le> room s then
        (s\<lparr>written := written s @ data, room := room s - length data\<rparr>, Inr ())
      else (s\<lparr>written := written s @ take (room s) data, room := 0\<rparr>, Inl (Runtime_error message)))"

fun write_all :: "string \<Rightarrow> u8 list list \<Rightarrow> out_stream \<Rightarrow> out_stream \<times> unit result" where
  "write_all message [] s = (s, Inr ())"
| "write_all message (d # ds) s =
     (case write_exact message d s of
        (s', Inl e) \<Rightarrow> (s', Inl e)
      | (s', Inr u) \<Rightarrow> write_all message ds s')"

lemma write_all_eq:
  "write_all message ds s =
     (if length (concat ds) \<le> room s then
        (s\<lparr>written := written s @ concat ds, room := room s - length (concat ds)\<rparr>, Inr ())
      else (s\<lparr>written := written s @ take (room s) (concat ds), room := 0\<rparr>,
            Inl (Runtime_error message)))"
  by (induction ds arbitrary: s) (auto simp: write_exact_def)

end
