(* ===== verification/Snapshot_Rows.thy ===== *)
theory Snapshot_Rows
  imports Byte_Codec Score_Bounds
begin

text \<open>
  What the two snapshot formats have in common beyond the byte layer: the ID section, whose
  loop builds the ID map and rejects duplicates, the float section, whose loop rejects
  non-finite components and rows that are not of unit length, and constant header fields.
  The error prefix and messages of the two files are parameters.
\<close>

section \<open>Header constants\<close>

definition endian_marker :: u32 where "endian_marker = 0x01020304"
definition normalized_cosine_flag :: u32 where "normalized_cosine_flag = 1"

definition expect_u32 :: "string \<Rightarrow> u32 \<Rightarrow> string \<Rightarrow> reader \<Rightarrow> reader result" where
  "expect_u32 p expected message r =
     and_then (read_little_endian p 4 r) (\<lambda>(v, r).
       if v \<noteq> expected then fail p message else Inr r)"

lemma expect_u32_Inr [result_simps]:
  "expect_u32 p expected m (input, c) = Inr (rest, c') \<longleftrightarrow>
     input = le_bytes 4 expected @ rest \<and> c' = c"
  by (auto simp: expect_u32_def result_simps)

section \<open>The sections\<close>

fun read_ids ::
  "string \<Rightarrow> string \<Rightarrow> nat \<Rightarrow> nat \<Rightarrow> (vector_id \<rightharpoonup> nat) \<Rightarrow> vector_id list \<Rightarrow> reader \<Rightarrow>
   (((vector_id \<rightharpoonup> nat) \<times> vector_id list) \<times> reader) result" where
  "read_ids p duplicate 0 i id_to_row ids r = Inr ((id_to_row, ids), r)"
| "read_ids p duplicate (Suc n) i id_to_row ids r =
     and_then (read_payload_value p 8 r) (\<lambda>(vid, r).
       if id_to_row vid \<noteq> None then fail p duplicate
       else read_ids p duplicate n (Suc i) (id_to_row(vid \<mapsto> i)) (ids @ [vid]) r)"

fun read_row ::
  "string \<Rightarrow> string \<Rightarrow> nat \<Rightarrow> f64 \<Rightarrow> f32 list \<Rightarrow> reader \<Rightarrow> ((f64 \<times> f32 list) \<times> reader) result" where
  "read_row p nonfinite 0 squared_norm vectors r = Inr ((squared_norm, vectors), r)"
| "read_row p nonfinite (Suc n) squared_norm vectors r =
     and_then (read_payload_value p 4 r) (\<lambda>(v, r).
       if \<not> f32_is_finite v then fail p nonfinite
       else let wide_value = f64_of_f32 v in
         read_row p nonfinite n (f64_add squared_norm (f64_mul wide_value wide_value)) (vectors @ [v]) r)"

fun read_rows ::
  "string \<Rightarrow> string \<Rightarrow> string \<Rightarrow> nat \<Rightarrow> nat \<Rightarrow> f32 list \<Rightarrow> reader \<Rightarrow> (f32 list \<times> reader) result" where
  "read_rows p nonfinite unnormalized 0 dims vectors r = Inr (vectors, r)"
| "read_rows p nonfinite unnormalized (Suc n) dims vectors r =
     and_then (read_row p nonfinite dims 0 vectors r) (\<lambda>((squared_norm, vectors), r).
       if \<not> nearly_unit squared_norm then
         fail p unnormalized
       else read_rows p nonfinite unnormalized n dims vectors r)"

section \<open>What the loops accept\<close>

definition normalized_row :: "f32 list \<Rightarrow> bool" where
  "normalized_row row =
     (case squared_norm_loop 0 row of Inl e \<Rightarrow> False | Inr squared_norm \<Rightarrow> nearly_unit squared_norm)"

lemma normalized_row_iff:
  "normalized_row row \<longleftrightarrow> (\<exists>s. squared_norm_loop 0 row = Inr s \<and> nearly_unit s)"
  by (auto simp: normalized_row_def split: sum.splits)

lemma read_ids_iff:
  "read_ids p duplicate n i m ids (input, c) = Inr ((m', ids'), (rest, c')) \<longleftrightarrow>
     (\<exists>new. length new = n \<and> ids' = ids @ new \<and> input = show_many (le_bytes 8) new @ rest
        \<and> c' = checksum_bytes c (show_many (le_bytes 8) new)
        \<and> distinct new \<and> (\<forall>x\<in>set new. m x = None) \<and> m' = m(new [\<mapsto>] [i..<i + n]))"
proof (induction n arbitrary: i m ids input c)
  case 0
  then show ?case by auto
next
  case (Suc n)
  have "read_ids p duplicate (Suc n) i m ids (input, c) = Inr ((m', ids'), (rest, c')) \<longleftrightarrow>
      (\<exists>x r. input = le_bytes 8 x @ r \<and> m x = None
         \<and> read_ids p duplicate n (Suc i) (m(x \<mapsto> i)) (ids @ [x])
             (r, checksum_bytes c (le_bytes 8 x)) = Inr ((m', ids'), (rest, c')))"
    by (auto simp: result_simps u64_codec.parse_iff split: if_splits)
  also have "\<dots> \<longleftrightarrow> (\<exists>x new. length new = n \<and> ids' = ids @ x # new
      \<and> input = show_many (le_bytes 8) (x # new) @ rest
      \<and> c' = checksum_bytes c (show_many (le_bytes 8) (x # new))
      \<and> distinct (x # new) \<and> (\<forall>y\<in>set (x # new). m y = None)
      \<and> m' = m(x # new [\<mapsto>] [i..<i + Suc n]))"
  proof -
    have fresh: "(\<forall>y\<in>set new. (m(x \<mapsto> i)) y = None) \<longleftrightarrow> x \<notin> set new \<and> (\<forall>y\<in>set new. m y = None)"
      for x new by auto
    have upd: "(m(x \<mapsto> i))(new [\<mapsto>] [Suc i..<Suc i + n]) = m(x # new [\<mapsto>] [i..<i + Suc n])"
      for x new by (simp del: upt_Suc add: upt_conv_Cons)
    show ?thesis unfolding Suc.IH fresh upd by auto
  qed
  finally show ?case by (simp only: length_Suc_conv) blast
qed

lemma read_row_iff:
  "read_row p nonfinite n sq vs (input, c) = Inr ((sq', vs'), (rest, c')) \<longleftrightarrow>
     (\<exists>new. length new = n \<and> vs' = vs @ new \<and> input = show_many (le_bytes 4) new @ rest
        \<and> c' = checksum_bytes c (show_many (le_bytes 4) new)
        \<and> squared_norm_loop sq new = Inr sq')"
proof (induction n arbitrary: sq vs input c)
  case 0
  then show ?case by auto
next
  case (Suc n)
  have "read_row p nonfinite (Suc n) sq vs (input, c) = Inr ((sq', vs'), (rest, c')) \<longleftrightarrow>
      (\<exists>x r. input = le_bytes 4 x @ r \<and> f32_is_finite x
         \<and> read_row p nonfinite n (f64_add sq (f64_mul (f64_of_f32 x) (f64_of_f32 x))) (vs @ [x])
             (r, checksum_bytes c (le_bytes 4 x)) = Inr ((sq', vs'), (rest, c')))"
    by (auto simp: result_simps u32_codec.parse_iff Let_def split: if_splits)
  also have "\<dots> \<longleftrightarrow> (\<exists>x new. length new = n \<and> vs' = vs @ x # new
      \<and> input = show_many (le_bytes 4) (x # new) @ rest
      \<and> c' = checksum_bytes c (show_many (le_bytes 4) (x # new))
      \<and> squared_norm_loop sq (x # new) = Inr sq')"
    unfolding Suc.IH by (auto simp: Let_def)
  finally show ?case by (simp only: length_Suc_conv) blast
qed

lemma read_rows_iff:
  "read_rows p nonfinite unnormalized n d vs (input, c) = Inr (vs', (rest, c')) \<longleftrightarrow>
     (\<exists>rows. length rows = n \<and> vs' = vs @ concat rows
        \<and> (\<forall>row\<in>set rows. length row = d \<and> normalized_row row)
        \<and> input = show_many (le_bytes 4) (concat rows) @ rest
        \<and> c' = checksum_bytes c (show_many (le_bytes 4) (concat rows)))"
proof (induction n arbitrary: vs input c)
  case 0
  then show ?case by auto
next
  case (Suc n)
  have "read_rows p nonfinite unnormalized (Suc n) d vs (input, c) = Inr (vs', (rest, c')) \<longleftrightarrow>
      (\<exists>row r. length row = d \<and> normalized_row row \<and> input = show_many (le_bytes 4) row @ r
         \<and> read_rows p nonfinite unnormalized n d (vs @ row) (r, checksum_bytes c (show_many (le_bytes 4) row))
           = Inr (vs', (rest, c')))"
  proof
    assume "read_rows p nonfinite unnormalized (Suc n) d vs (input, c) = Inr (vs', (rest, c'))"
    then show "\<exists>row r. length row = d \<and> normalized_row row \<and> input = show_many (le_bytes 4) row @ r
         \<and> read_rows p nonfinite unnormalized n d (vs @ row) (r, checksum_bytes c (show_many (le_bytes 4) row))
           = Inr (vs', (rest, c'))"
      by (auto simp: result_simps read_row_iff normalized_row_iff split: if_splits)
  next
    assume "\<exists>row r. length row = d \<and> normalized_row row \<and> input = show_many (le_bytes 4) row @ r
         \<and> read_rows p nonfinite unnormalized n d (vs @ row) (r, checksum_bytes c (show_many (le_bytes 4) row))
           = Inr (vs', (rest, c'))"
    then obtain row r s where row: "length row = d" "squared_norm_loop 0 row = Inr s" "nearly_unit s"
      "input = show_many (le_bytes 4) row @ r"
      and rows: "read_rows p nonfinite unnormalized n d (vs @ row) (r, checksum_bytes c (show_many (le_bytes 4) row))
           = Inr (vs', (rest, c'))"
      by (auto simp: normalized_row_iff)
    have "read_row p nonfinite d 0 vs (input, c) =
        Inr ((s, vs @ row), (r, checksum_bytes c (show_many (le_bytes 4) row)))"
      using row by (auto simp: read_row_iff)
    then show "read_rows p nonfinite unnormalized (Suc n) d vs (input, c) = Inr (vs', (rest, c'))"
      using row rows by simp
  qed
  also have "\<dots> \<longleftrightarrow> (\<exists>row rows. length rows = n \<and> vs' = vs @ concat (row # rows)
      \<and> (\<forall>x\<in>set (row # rows). length x = d \<and> normalized_row x)
      \<and> input = show_many (le_bytes 4) (concat (row # rows)) @ rest
      \<and> c' = checksum_bytes c (show_many (le_bytes 4) (concat (row # rows))))"
    unfolding Suc.IH by (auto simp: show_many_def)
  finally show ?case by (simp only: length_Suc_conv) blast
qed

section \<open>Rows, matrices and maps\<close>

lemma length_show_many: "length (show_many (le_bytes k) xs) = length xs * k"
  by (induction xs) simp_all

lemma concat_rows:
  "length vs = n * d \<Longrightarrow> concat (map (row_of d vs) [0..<n]) = vs"
proof (induction n arbitrary: vs)
  case (Suc n)
  let ?l = "take (n * d) vs"
  have len: "length ?l = n * d" using Suc.prems by simp
  have row: "row_of d vs i = row_of d ?l i" if "i < n" for i
    using row_of_take [of vs "Suc n" d i n] Suc.prems that by simp
  have "map (row_of d vs) [0..<n] = map (row_of d ?l) [0..<n]"
    by (intro map_cong) (simp_all add: row)
  then have "concat (map (row_of d vs) [0..<n]) = ?l" using Suc.IH [OF len] by (simp only:)
  moreover have "row_of d vs n = drop (n * d) vs" using Suc.prems by (simp add: row_of_def)
  ultimately show ?case by simp
qed simp

lemma row_of_concat:
  "\<forall>row\<in>set rows. length row = d \<Longrightarrow> i < length rows \<Longrightarrow> row_of d (concat rows) i = rows ! i"
proof (induction rows arbitrary: i)
  case (Cons r rows)
  show ?case
  proof (cases i)
    case 0
    then show ?thesis using Cons.prems by (simp add: row_of_def)
  next
    case (Suc j)
    have "row_of d (concat (r # rows)) i = row_of d (concat rows) j"
      using Cons.prems by (simp add: row_of_def Suc)
    also have "\<dots> = rows ! j" using Cons.prems Suc by (intro Cons.IH) simp_all
    finally show ?thesis by (simp add: Suc)
  qed
qed simp

lemma length_concat_rows: "\<forall>row\<in>set rows. length row = d \<Longrightarrow> length (concat rows) = length rows * d"
  by (induction rows) auto

lemma map_upds_index:
  assumes "distinct xs"
  shows "(Map.empty(xs [\<mapsto>] [0..<length xs])) x = Some i \<longleftrightarrow> i < length xs \<and> xs ! i = x"
  using assms
proof (induction xs rule: rev_induct)
  case (snoc y ys)
  have "Map.empty(ys @ [y] [\<mapsto>] [0..<length (ys @ [y])]) =
      (Map.empty(ys [\<mapsto>] [0..<length ys]))(y \<mapsto> length ys)"
    by (simp add: map_upds_def)
  with snoc show ?case by (auto simp: nth_append less_Suc_eq)
qed simp

lemma foldl_checksum_integer:
  "foldl (checksum_integer k) c xs = checksum_bytes c (show_many (le_bytes k) xs)"
  by (induction xs arbitrary: c) (simp_all add: checksum_integer_bytes)

lemma normalized_row_components:
  "normalized_row row \<Longrightarrow> length row < 2 ^ 53 \<Longrightarrow> unit_components row"
  unfolding normalized_row_iff using nearly_unit_components by blast

end
