(* ===== verification/Flat_Index_Io.thy ===== *)
theory Flat_Index_Io
  imports Flat_Theorems Snapshot_Rows
begin

text \<open>
  src/flat_index_io.cpp: the snapshot format of the exact index, version 1. Saving writes
  a 56-byte header, the IDs and the float array; loading checks every header field, the
  file size, ID uniqueness, the norm of every row and the checksum. The main lemma says
  that a load succeeds with an index exactly when the file is the encoding of that index.
\<close>

section \<open>The format\<close>

definition flat_prefix :: string where
  "flat_prefix = ''invalid fast-vector index: ''"

definition flat_magic :: "u8 list" where
  "flat_magic = [0x46, 0x56, 0x49, 0x4E, 0x44, 0x45, 0x58, 0]"

definition flat_format_version :: u32 where "flat_format_version = 1"
definition flat_header_size :: u32 where "flat_header_size = 56"
lemmas flat_format_defs =
  flat_format_version_def flat_header_size_def endian_marker_def normalized_cosine_flag_def

definition payload_size :: "u64 \<Rightarrow> u64 \<Rightarrow> u64 result" where
  "payload_size vectors dims =
     and_then (checked_multiply flat_prefix vectors 8 ''ID data size'') (\<lambda>id_bytes.
     and_then (checked_multiply flat_prefix vectors dims ''vector element count'') (\<lambda>element_count.
     and_then (checked_multiply flat_prefix element_count 4 ''vector data size'') (\<lambda>vector_bytes.
       checked_add flat_prefix id_bytes vector_bytes ''payload size'')))"

section \<open>Saving\<close>

definition flat_checksum :: "flat_index \<Rightarrow> u64" where
  "flat_checksum ix =
     foldl (checksum_integer 4) (foldl (checksum_integer 8) fnv_offset_basis (flat_ids ix))
       (flat_vectors ix)"

definition flat_header :: "flat_index \<Rightarrow> u64 \<Rightarrow> u8 list list" where
  "flat_header ix stored_payload_size =
     [flat_magic, le_bytes 4 flat_format_version, le_bytes 4 flat_header_size,
      le_bytes 4 endian_marker, le_bytes 4 normalized_cosine_flag,
      le_bytes 8 (of_nat (flat_dimension ix) :: u64), le_bytes 8 (of_nat (flat_size ix) :: u64),
      le_bytes 8 stored_payload_size, le_bytes 8 (flat_checksum ix)]"

text \<open>
  \<open>save\<close>, on a file system that opens the file or not, a device with room for so many bytes
  and a flush that works or not. The first component is the content of the file afterwards,
  or \<open>None\<close> when it was not touched.
\<close>

definition flat_save ::
  "bool \<Rightarrow> nat \<Rightarrow> bool \<Rightarrow> string \<Rightarrow> flat_index \<Rightarrow> u8 list option \<times> unit result" where
  "flat_save opens capacity flushes path ix =
     (case payload_size (of_nat (flat_size ix)) (of_nat (flat_dimension ix)) of
        Inl e \<Rightarrow> (None, Inl e)
      | Inr stored_payload_size \<Rightarrow>
          if \<not> opens then
            (None, Inl (Runtime_error (''cannot open index for writing: '' @ path)))
          else
            (case write_all ''failed to write fast-vector index''
                (flat_header ix stored_payload_size @ map (le_bytes 8) (flat_ids ix)
                  @ map (le_bytes 4) (flat_vectors ix)) \<lparr>written = [], room = capacity\<rparr> of
               (output, Inl e) \<Rightarrow> (Some (written output), Inl e)
             | (output, Inr u) \<Rightarrow>
                 if flushes then (Some (written output), Inr ())
                 else (Some (written output),
                       Inl (Runtime_error (''failed to flush fast-vector index: '' @ path)))))"

section \<open>Loading\<close>

definition flat_read_header ::
  "u8 list \<Rightarrow> ((u64 \<times> u64 \<times> u64 \<times> u64) \<times> u8 list) result" where
  "flat_read_header file =
     and_then (read_exact flat_prefix 8 file) (\<lambda>(magic, input).
       if magic \<noteq> flat_magic then fail flat_prefix ''magic does not match''
       else
         and_then (expect_u32 flat_prefix flat_format_version ''unsupported format version''
           (input, 0)) (\<lambda>r.
         and_then (expect_u32 flat_prefix flat_header_size
           ''header size does not match version 1'' r) (\<lambda>r.
         and_then (expect_u32 flat_prefix endian_marker
           ''endianness marker does not match'' r) (\<lambda>r.
         and_then (expect_u32 flat_prefix normalized_cosine_flag
           ''unsupported index flags'' r) (\<lambda>r.
         and_then (read_little_endian flat_prefix 8 r) (\<lambda>(stored_dimension, r).
         and_then (read_little_endian flat_prefix 8 r) (\<lambda>(stored_count, r).
         and_then (read_little_endian flat_prefix 8 r) (\<lambda>(stored_payload_size, r).
         and_then (read_little_endian flat_prefix 8 r) (\<lambda>(stored_checksum, r).
           Inr ((stored_dimension, stored_count, stored_payload_size, stored_checksum),
                fst r))))))))))"

definition flat_check_sizes :: "u64 \<Rightarrow> u64 \<Rightarrow> u64 \<Rightarrow> nat \<Rightarrow> unit result" where
  "flat_check_sizes stored_dimension stored_count stored_payload_size file_size =
     (if stored_dimension = 0 then fail flat_prefix ''dimension must be greater than zero''
      else
        and_then (payload_size stored_count stored_dimension) (\<lambda>expected_payload_size.
          if stored_payload_size \<noteq> expected_payload_size then
            fail flat_prefix ''payload size does not match dimension and count''
          else
            and_then (checked_add flat_prefix (ucast flat_header_size) stored_payload_size
              ''file size'') (\<lambda>expected_file_size.
              if file_size \<noteq> unat expected_file_size then
                fail flat_prefix ''file size does not match the header''
              else Inr ())))"

definition flat_read_ids ::
  "nat \<Rightarrow> nat \<Rightarrow> (vector_id \<rightharpoonup> nat) \<Rightarrow> vector_id list \<Rightarrow> reader \<Rightarrow>
   (((vector_id \<rightharpoonup> nat) \<times> vector_id list) \<times> reader) result" where
  "flat_read_ids = read_ids flat_prefix ''payload contains duplicate vector IDs''"

definition flat_read_rows :: "nat \<Rightarrow> nat \<Rightarrow> f32 list \<Rightarrow> reader \<Rightarrow> (f32 list \<times> reader) result" where
  "flat_read_rows =
     read_rows flat_prefix ''payload contains a non-finite vector value''
       ''payload contains a vector that is not L2-normalized''"

definition flat_load :: "string \<Rightarrow> u8 list option \<Rightarrow> dot_kernel \<Rightarrow> flat_index result" where
  "flat_load path file kern =
     (case file of
        None \<Rightarrow> Inl (Runtime_error (''cannot open index for reading: '' @ path))
      | Some content \<Rightarrow>
          and_then (flat_read_header content)
            (\<lambda>((stored_dimension, stored_count, stored_payload_size, stored_checksum), input).
          and_then (flat_check_sizes stored_dimension stored_count stored_payload_size
            (length content)) (\<lambda>_.
          and_then (to_size_t flat_prefix stored_dimension ''dimension''
            '' exceeds this platform's limits'') (\<lambda>dims.
          and_then (to_size_t flat_prefix stored_count ''vector count''
            '' exceeds this platform's limits'') (\<lambda>vector_count.
          and_then (checked_multiply flat_prefix stored_count stored_dimension
            ''vector element count'') (\<lambda>_.
          and_then (flat_read_ids vector_count 0 Map.empty [] (input, fnv_offset_basis))
            (\<lambda>((id_to_row, ids), r).
          and_then (flat_read_rows vector_count dims [] r) (\<lambda>(vectors, r).
            if snd r \<noteq> stored_checksum then fail flat_prefix ''payload checksum does not match''
            else
              and_then (flat_create dims kern) (\<lambda>ix.
                Inr (ix\<lparr>flat_ids := ids, flat_id_to_row := id_to_row,
                  flat_vectors := vectors\<rparr>))))))))))"

section \<open>Loading inverts encoding\<close>

text \<open>The file of an index: what a successful save leaves.\<close>

definition flat_payload_size :: "flat_index \<Rightarrow> nat" where
  "flat_payload_size ix = flat_size ix * 8 + flat_size ix * flat_dimension ix * 4"

definition flat_encode :: "flat_index \<Rightarrow> u8 list" where
  "flat_encode ix =
     concat (flat_header ix (of_nat (flat_payload_size ix)))
     @ show_many (le_bytes 8) (flat_ids ix) @ show_many (le_bytes 4) (flat_vectors ix)"

text \<open>The indexes the format can hold.\<close>

definition flat_storable :: "flat_index \<Rightarrow> bool" where
  "flat_storable ix \<longleftrightarrow>
     flat_wf ix
   \<and> (\<forall>i < flat_size ix. normalized_row (row_of (flat_dimension ix) (flat_vectors ix) i))
   \<and> flat_dimension ix < 2 ^ 64 \<and> 56 + flat_payload_size ix < 2 ^ 64"

lemma payload_size_Inr:
  "payload_size n d = Inr r \<longleftrightarrow>
     unat n * 8 + unat n * unat d * 4 < 2 ^ 64 \<and> unat r = unat n * 8 + unat n * unat d * 4"
proof
  assume "payload_size n d = Inr r"
  then obtain a b c where *: "checked_multiply flat_prefix n 8 ''ID data size'' = Inr a"
    "checked_multiply flat_prefix n d ''vector element count'' = Inr b"
    "checked_multiply flat_prefix b 4 ''vector data size'' = Inr c"
    "checked_add flat_prefix a c ''payload size'' = Inr r"
    by (auto simp: payload_size_def and_then_eq_Inr)
  from checked_multiply_exact [OF *(1)] checked_multiply_exact [OF *(2)]
    checked_multiply_exact [OF *(3)] checked_add_exact [OF *(4)] unat_u64 [of r]
  show "unat n * 8 + unat n * unat d * 4 < 2 ^ 64
    \<and> unat r = unat n * 8 + unat n * unat d * 4" by simp
next
  assume *: "unat n * 8 + unat n * unat d * 4 < 2 ^ 64
    \<and> unat r = unat n * 8 + unat n * unat d * 4"
  have nd: "unat (n * d) = unat n * unat d" and n8: "unat (n * 8) = unat n * 8"
    using * by (simp_all add: unat_mult_lem [THEN iffD1])
  have "unat n * unat d * 4 < 2 ^ 64" using * by linarith
  then have "unat (n * d) * unat (4 :: u64) < 2 ^ 64" by (simp add: nd)
  then have nd4: "unat (n * d * 4) = unat n * unat d * 4"
    using unat_mult_lem [of "n * d" 4] by (simp add: nd)
  have sum: "unat (n * 8 + n * d * 4) = unat n * 8 + unat n * unat d * 4"
    using * n8 nd4 by (simp add: unat_add_lem [THEN iffD1])
  then have "r = n * 8 + n * d * 4" using * by (intro word_unat_eq_iff [THEN iffD2]) simp
  with * nd n8 nd4 show "payload_size n d = Inr r"
    by (simp add: payload_size_def checked_multiply_Inr checked_add_Inr and_then_eq_Inr)
qed

lemma flat_read_header_iff:
  "flat_read_header content = Inr ((d, n, bytes, checksum), input) \<longleftrightarrow>
     content = flat_magic @ le_bytes 4 flat_format_version @ le_bytes 4 flat_header_size
       @ le_bytes 4 endian_marker @ le_bytes 4 normalized_cosine_flag
       @ le_bytes 8 d @ le_bytes 8 n @ le_bytes 8 bytes @ le_bytes 8 checksum @ input"
proof -
  have magic: "length flat_magic = 8" by (simp add: flat_magic_def)
  show ?thesis
    by (auto simp: flat_read_header_def result_simps magic split: if_splits)
qed

text \<open>The map of a well-formed index is determined by its ID array.\<close>

lemma flat_id_to_row_eq:
  assumes "flat_wf ix"
  shows "flat_id_to_row ix = Map.empty(flat_ids ix [\<mapsto>] [0..<flat_size ix])"
proof
  fix x
  have "distinct (flat_ids ix)" using assms by (simp add: flat_wf_def)
  then show "flat_id_to_row ix x = (Map.empty(flat_ids ix [\<mapsto>] [0..<flat_size ix])) x"
    using flat_row_Some [OF assms, of x] map_upds_index [of "flat_ids ix" x]
    by (simp add: flat_size_def) (metis not_Some_eq)
qed

lemma flat_checksum_bytes:
  "flat_checksum ix = checksum_bytes (checksum_bytes fnv_offset_basis
     (show_many (le_bytes 8) (flat_ids ix))) (show_many (le_bytes 4) (flat_vectors ix))"
  by (simp add: flat_checksum_def foldl_checksum_integer)

lemma flat_storable_words:
  assumes "flat_storable ix"
  shows "unat (of_nat (flat_size ix) :: u64) = flat_size ix"
    and "unat (of_nat (flat_dimension ix) :: u64) = flat_dimension ix"
    and "unat (of_nat (flat_payload_size ix) :: u64) = flat_payload_size ix"
  by (rule unat_of_nat_u64, use assms in \<open>simp add: flat_storable_def flat_payload_size_def\<close>)+

lemma length_flat_encode:
  assumes "flat_wf ix"
  shows "length (flat_encode ix) = 56 + flat_payload_size ix"
  using assms
  by (simp add: flat_encode_def flat_header_def flat_magic_def length_show_many flat_wf_def
      flat_payload_size_def flat_size_def)

lemma flat_check_sizes_Inr:
  "flat_check_sizes d n psize file_size = Inr u \<longleftrightarrow>
     d \<noteq> 0 \<and> unat psize = unat n * 8 + unat n * unat d * 4 \<and> 56 + unat psize < 2 ^ 64
     \<and> file_size = 56 + unat psize"
proof -
  have header: "unat (ucast flat_header_size :: u64) = 56" by (simp add: flat_header_size_def)
  have add: "checked_add flat_prefix (ucast flat_header_size) psize ''file size'' = Inr r \<longleftrightarrow>
      56 + unat psize < 2 ^ 64 \<and> unat r = 56 + unat psize" for r
    using checked_add_exact [of flat_prefix "ucast flat_header_size" psize "''file size''" r]
      unat_add_lem [of "ucast flat_header_size" psize]
    by (auto simp: checked_add_Inr header word_unat_eq_iff)
  show ?thesis
  proof
    assume "flat_check_sizes d n psize file_size = Inr u"
    then obtain f where "d \<noteq> 0" "payload_size n d = Inr psize"
      "checked_add flat_prefix (ucast flat_header_size) psize ''file size'' = Inr f"
      "file_size = unat f"
      by (auto simp: flat_check_sizes_def and_then_eq_Inr split: if_splits)
    then show "d \<noteq> 0 \<and> unat psize = unat n * 8 + unat n * unat d * 4 \<and> 56 + unat psize < 2 ^ 64
        \<and> file_size = 56 + unat psize"
      by (simp only: add payload_size_Inr simp_thms)
  next
    assume ok: "d \<noteq> 0 \<and> unat psize = unat n * 8 + unat n * unat d * 4 \<and> 56 + unat psize < 2 ^ 64
        \<and> file_size = 56 + unat psize"
    then have "unat n * 8 + unat n * unat d * 4 < 2 ^ 64" by linarith
    with ok have size: "payload_size n d = Inr psize" by (simp only: payload_size_Inr simp_thms)
    have lt: "56 + unat psize < 2 ^ 64" using ok by blast
    note eq = unat_of_nat_u64 [OF lt]
    have f: "checked_add flat_prefix (ucast flat_header_size) psize ''file size'' =
        Inr (of_nat (56 + unat psize))"
      by (intro add [THEN iffD2] conjI lt eq)
    show "flat_check_sizes d n psize file_size = Inr u"
      using ok eq by (simp only: flat_check_sizes_def size f and_then_Inr) simp
  qed
qed

lemma flat_load_storable:
  assumes ok: "flat_storable ix"
  shows "flat_load path (Some (flat_encode ix)) (flat_kernel ix) = Inr ix"
proof -
  let ?n = "flat_size ix" and ?d = "flat_dimension ix" and ?vs = "flat_vectors ix"
  let ?dw = "of_nat ?d :: u64" and ?nw = "of_nat ?n :: u64"
    and ?pw = "of_nat (flat_payload_size ix) :: u64"
  have wf: "flat_wf ix" using ok by (simp add: flat_storable_def)
  have len: "length ?vs = ?n * ?d" "0 < ?d" "distinct (flat_ids ix)" "length (flat_ids ix) = ?n"
    using wf by (simp_all add: flat_wf_def flat_size_def)
  note words = flat_storable_words [OF ok]
  have header: "flat_read_header (flat_encode ix) = Inr ((?dw, ?nw, ?pw, flat_checksum ix),
      show_many (le_bytes 8) (flat_ids ix) @ show_many (le_bytes 4) ?vs)"
    by (simp add: flat_read_header_iff flat_encode_def flat_header_def)
  have dw: "?dw \<noteq> 0" using words(2) len(2) by auto
  have sizes: "flat_check_sizes ?dw ?nw ?pw (length (flat_encode ix)) = Inr ()"
    unfolding flat_check_sizes_Inr words length_flat_encode [OF wf]
    using ok dw by (simp add: flat_storable_def flat_payload_size_def)
  have "?n * ?d < 2 ^ 64" using ok by (simp add: flat_storable_def flat_payload_size_def)
  then have mult: "checked_multiply flat_prefix ?nw ?dw m = Inr (?nw * ?dw)" for m
    by (simp add: checked_multiply_Inr words)
  let ?c = "checksum_bytes fnv_offset_basis (show_many (le_bytes 8) (flat_ids ix))"
  have ids: "flat_read_ids ?n 0 Map.empty []
      (show_many (le_bytes 8) (flat_ids ix) @ show_many (le_bytes 4) ?vs, fnv_offset_basis) =
      Inr ((flat_id_to_row ix, flat_ids ix), (show_many (le_bytes 4) ?vs, ?c))"
    using len flat_id_to_row_eq [OF wf] by (auto simp: flat_read_ids_def read_ids_iff)
  let ?rows = "map (row_of ?d ?vs) [0..<?n]"
  have "flat_read_rows ?n ?d [] (show_many (le_bytes 4) ?vs, ?c) =
      Inr (?vs, ([], checksum_bytes ?c (show_many (le_bytes 4) ?vs)))"
    unfolding flat_read_rows_def read_rows_iff
    using ok concat_rows [OF len(1)] length_row_of [OF len(1)]
    by (intro exI [of _ ?rows]) (simp add: flat_storable_def)
  with header sizes mult ids len(2) show ?thesis
    by (simp add: flat_load_def words flat_create_def flat_checksum_bytes)
qed

lemma flat_load_accepts:
  assumes load: "flat_load path (Some content) kern = Inr ix"
  shows "flat_storable ix \<and> flat_kernel ix = kern \<and> content = flat_encode ix"
proof -
  obtain dw nw pw cw input m ids vs r r'
    where header: "flat_read_header content = Inr ((dw, nw, pw, cw), input)"
      and sizes: "flat_check_sizes dw nw pw (length content) = Inr ()"
      and ids: "flat_read_ids (unat nw) 0 Map.empty [] (input, fnv_offset_basis) = Inr ((m, ids), r)"
      and rows: "flat_read_rows (unat nw) (unat dw) [] r = Inr (vs, (r', cw))"
      and ix: "ix = \<lparr>flat_dimension = unat dw, flat_kernel = kern, flat_vectors = vs,
                   flat_ids = ids, flat_id_to_row = m\<rparr>"
    using load by (auto simp: flat_load_def and_then_eq_Inr flat_create_def split: if_splits)
  obtain r1 c1 where r: "r = (r1, c1)" by fastforce
  from ids [unfolded r flat_read_ids_def read_ids_iff]
  have ids': "length ids = unat nw" "input = show_many (le_bytes 8) ids @ r1" "distinct ids"
    "c1 = checksum_bytes fnv_offset_basis (show_many (le_bytes 8) ids)"
    and m: "m = Map.empty(ids [\<mapsto>] [0..<length ids])" by auto
  from rows [unfolded r flat_read_rows_def read_rows_iff] obtain rows where
    rows': "length rows = unat nw" "vs = concat rows"
      "\<forall>row\<in>set rows. length row = unat dw \<and> normalized_row row"
    and r1: "r1 = show_many (le_bytes 4) vs @ r'"
      "cw = checksum_bytes c1 (show_many (le_bytes 4) vs)" by auto
  from sizes [unfolded flat_check_sizes_Inr]
  have dw: "dw \<noteq> 0" and pw: "unat pw = unat nw * 8 + unat nw * unat dw * 4" "56 + unat pw < 2 ^ 64"
    "length content = 56 + unat pw" by auto
  have vs: "length vs = unat nw * unat dw" using rows' length_concat_rows [of rows "unat dw"] by simp
  have sz: "flat_size ix = unat nw" "flat_payload_size ix = unat pw"
    by (simp_all add: ix flat_size_def flat_payload_size_def ids' pw)
  have content: "content = flat_magic @ le_bytes 4 flat_format_version @ le_bytes 4 flat_header_size
       @ le_bytes 4 endian_marker @ le_bytes 4 normalized_cosine_flag
       @ le_bytes 8 dw @ le_bytes 8 nw @ le_bytes 8 pw @ le_bytes 8 cw
       @ show_many (le_bytes 8) ids @ show_many (le_bytes 4) vs @ r'"
    using header [unfolded flat_read_header_iff] ids'(2) r1(1) by simp
  have "length content = 56 + (unat nw * 8 + unat nw * unat dw * 4) + length r'"
    by (simp add: content flat_magic_def length_show_many ids' vs)
  then have "r' = []" using pw by simp
  have wf: "flat_wf ix"
  proof (rule flat_wfI)
    have at: "m x = Some i \<longleftrightarrow> i < length ids \<and> ids ! i = x" for x i
      using map_upds_index [OF ids'(3)] by (simp only: m)
    then show "flat_id_to_row ix (flat_ids ix ! i) = Some i" if "i < length (flat_ids ix)" for i
      using that by (simp add: ix)
    show "dom (flat_id_to_row ix) = set (flat_ids ix)"
      using at by (auto simp: ix in_set_conv_nth dom_def)
    show "0 < flat_dimension ix" using dw by (simp add: ix unat_gt_0)
    show "length (flat_vectors ix) = length (flat_ids ix) * flat_dimension ix"
      by (simp add: ix vs ids')
  qed
  moreover have "normalized_row (row_of (flat_dimension ix) (flat_vectors ix) i)" if "i < flat_size ix" for i
    using that rows' row_of_concat [of rows "unat dw" i] by (simp add: ix flat_size_def ids')
  ultimately have "flat_storable ix"
    using pw unat_u64 [of dw] unfolding flat_storable_def sz by (simp add: ix)
  moreover have "cw = flat_checksum ix" by (simp add: r1 ids' flat_checksum_bytes ix)
  then have "content = flat_encode ix"
    unfolding content flat_encode_def flat_header_def sz
    by (simp add: ix flat_size_def ids' \<open>r' = []\<close>)
  ultimately show ?thesis by (simp add: ix)
qed

definition flat_payload :: "flat_index \<Rightarrow> u8 list" where
  "flat_payload ix = show_many (le_bytes 8) (flat_ids ix) @ show_many (le_bytes 4) (flat_vectors ix)"

lemma flat_encode_payload:
  "flat_encode ix = concat (flat_header ix (of_nat (flat_payload_size ix))) @ flat_payload ix"
  by (simp add: flat_encode_def flat_payload_def)

lemma flat_checksum_payload: "flat_checksum ix = checksum_bytes fnv_offset_basis (flat_payload ix)"
  by (simp add: flat_checksum_bytes flat_payload_def)

lemma length_flat_header: "length (concat (flat_header ix p)) = 56"
  by (simp add: flat_header_def flat_magic_def)

lemma flat_header_inj:
  assumes "concat (flat_header ix p) = concat (flat_header iy q)"
  shows "of_nat (flat_dimension ix) = (of_nat (flat_dimension iy) :: u64)"
    "of_nat (flat_size ix) = (of_nat (flat_size iy) :: u64)" "p = q"
    "flat_checksum ix = flat_checksum iy"
  using assms by (simp_all del: le_bytes.simps add: flat_header_def flat_magic_def le_bytes_inj)

lemma flat_encode_prefix:
  assumes "flat_encode iy @ rest = flat_encode ix" "flat_storable ix" "flat_storable iy"
  shows "rest = []"
proof -
  have "concat (flat_header iy (of_nat (flat_payload_size iy))) =
      concat (flat_header ix (of_nat (flat_payload_size ix)))"
    using assms(1) by (simp add: flat_encode_payload length_flat_header)
  then have "of_nat (flat_payload_size iy) = (of_nat (flat_payload_size ix) :: u64)"
    by (rule flat_header_inj)
  then have "flat_payload_size iy = flat_payload_size ix"
    by (metis flat_storable_words(3) assms(2,3))
  then have "length (flat_encode iy) = length (flat_encode ix)"
    using assms by (simp add: length_flat_encode flat_storable_def)
  then show ?thesis using arg_cong [OF assms(1), of length] by simp
qed

lemma flat_storable_inv:
  assumes "flat_storable ix" "flat_dimension ix < score_dimension (flat_kernel ix)"
  shows "flat_inv ix"
proof -
  have wf: "flat_wf ix" using assms by (simp add: flat_storable_def)
  then have len: "length (flat_vectors ix) = flat_size ix * flat_dimension ix"
    by (simp add: flat_wf_def flat_size_def)
  have "unit_components (row_of (flat_dimension ix) (flat_vectors ix) i)" if "i < flat_size ix" for i
    using assms that length_row_of [OF len that] score_dimension_le [of "flat_kernel ix"]
    by (intro normalized_row_components) (simp_all add: flat_storable_def)
  then have "unit_components (concat (map (row_of (flat_dimension ix) (flat_vectors ix)) [0..<flat_size ix]))"
    by (auto simp: unit_components_def)
  then show ?thesis using wf assms(2) by (simp add: concat_rows [OF len] flat_inv_def)
qed

lemma flat_sample_storable: "flat_storable flat_sample"
proof -
  have "normalized_row [0x3F800000]" "normalized_row [0xBF800000]"
    by (simp_all add: normalized_row_def nearly_unit_def norm_tolerance_def fp_eval)
  then have "normalized_row (row_of 1 (flat_vectors flat_sample) i)" if "i < 2" for i
    using that less_2_cases [OF that] by (auto simp: flat_sample_def row_of_def)
  then show ?thesis
    using flat_sample_inv by (simp add: flat_storable_def flat_inv_def flat_payload_size_def)
qed

section \<open>Theorems\<close>

text \<open>C10: a load succeeds with an index exactly when the index can be stored (the
  representation invariant holds, every row has unit length within the tolerance, the sizes
  fit 64 bits) and the file is, byte for byte, the encoding of that index. So loading inverts
  saving, and no file but a well-formed one is ever accepted.\<close>

theorem flat_load_exact:
  "flat_load path (Some content) kern = Inr ix \<longleftrightarrow>
     flat_storable ix \<and> flat_kernel ix = kern \<and> content = flat_encode ix"
  using flat_load_storable flat_load_accepts by blast

text \<open>C11: saving an index the format can hold. When \<open>save\<close> reports success, the file is the
  encoding and loading it gives the index back; when it fails, the file was not touched, or
  holds the whole encoding (only the flush failed), or is cut short, and then every load of
  it is refused.\<close>

theorem flat_save_outcome:
  assumes "flat_storable ix"
  shows "case flat_save opens capacity flushes path ix of
      (file, Inr u) \<Rightarrow> file = Some (flat_encode ix)
        \<and> flat_load path file (flat_kernel ix) = Inr ix
    | (None, Inl e) \<Rightarrow> \<not> opens
    | (Some content, Inl e) \<Rightarrow> content = flat_encode ix \<and> \<not> flushes
        \<or> (\<forall>path' kern iy. flat_load path' (Some content) kern \<noteq> Inr iy)"
proof -
  have size: "payload_size (of_nat (flat_size ix)) (of_nat (flat_dimension ix)) =
      Inr (of_nat (flat_payload_size ix))"
    using assms flat_storable_words [OF assms]
    by (simp only: payload_size_Inr flat_storable_def flat_payload_size_def) simp
  have bytes: "concat (flat_header ix (of_nat (flat_payload_size ix))
      @ map (le_bytes 8) (flat_ids ix) @ map (le_bytes 4) (flat_vectors ix)) = flat_encode ix"
    by (simp add: flat_encode_def show_many_def)
  have cut: "flat_load path' (Some (take n (flat_encode ix))) kern \<noteq> Inr iy"
    if n: "n < length (flat_encode ix)" for path' kern iy n
  proof
    assume "flat_load path' (Some (take n (flat_encode ix))) kern = Inr iy"
    then have iy: "flat_storable iy" "take n (flat_encode ix) = flat_encode iy"
      using flat_load_accepts by auto
    then have "flat_encode iy @ drop n (flat_encode ix) = flat_encode ix"
      by (metis append_take_drop_id)
    then have "drop n (flat_encode ix) = []" using assms iy(1) by (rule flat_encode_prefix)
    then show False using n by simp
  qed
  have short: "capacity < length (flat_encode ix)" if "\<not> length (flat_encode ix) \<le> capacity"
    using that by simp
  show ?thesis
    unfolding flat_save_def size write_all_eq bytes sum.case
    using cut [OF short] flat_load_storable [OF assms] by simp
qed

text \<open>No damage to a single byte of the payload goes unnoticed: if one byte after the
  header is replaced by another value, loading fails.\<close>

theorem flat_corruption_detected:
  assumes "flat_storable ix" "56 \<le> i" "i < length (flat_encode ix)" "b \<noteq> flat_encode ix ! i"
  shows "flat_load path (Some ((flat_encode ix)[i := b])) kern \<noteq> Inr iy"
proof
  assume "flat_load path (Some ((flat_encode ix)[i := b])) kern = Inr iy"
  then have iy: "flat_storable iy" and eq: "(flat_encode ix)[i := b] = flat_encode iy"
    using flat_load_accepts by auto
  have "(flat_encode ix)[i := b] = concat (flat_header ix (of_nat (flat_payload_size ix)))
      @ (flat_payload ix)[i - 56 := b]"
    using assms by (simp add: flat_encode_payload list_update_append length_flat_header)
  then have header: "concat (flat_header ix (of_nat (flat_payload_size ix))) =
      concat (flat_header iy (of_nat (flat_payload_size iy)))"
    and payload: "(flat_payload ix)[i - 56 := b] = flat_payload iy"
    using eq by (simp_all add: flat_encode_payload length_flat_header)
  have i: "i - 56 < length (flat_payload ix)" "flat_encode ix ! i = flat_payload ix ! (i - 56)"
    using assms by (auto simp: flat_encode_payload nth_append length_flat_header)
  let ?as = "take (i - 56) (flat_payload ix)" and ?bs = "drop (Suc (i - 56)) (flat_payload ix)"
  have "flat_checksum ix = flat_checksum iy" using header by (rule flat_header_inj)
  then have "checksum_bytes fnv_offset_basis (?as @ b # ?bs) =
      checksum_bytes fnv_offset_basis (?as @ flat_payload ix ! (i - 56) # ?bs)"
    using i payload by (simp only: flat_checksum_payload upd_conv_take_nth_drop id_take_nth_drop [symmetric])
  then show False using assms i by (simp only: checksum_detects_byte)
qed

theorem flat_save_outcome_witness:
  "case flat_save True 10 True ''index.fvi'' flat_sample of
      (Some content, Inl e) \<Rightarrow> length content = 10
        \<and> flat_load ''index.fvi'' (Some content) Scalar \<noteq> Inr flat_sample
    | _ \<Rightarrow> False"
proof -
  have "length (flat_encode flat_sample) = 80"
    using length_flat_encode [of flat_sample] flat_sample_inv
    by (simp add: flat_inv_def flat_payload_size_def)
  then have "\<exists>e. flat_save True 10 True ''index.fvi'' flat_sample =
      (Some (take 10 (flat_encode flat_sample)), Inl e)"
    using flat_storable_words(3) [OF flat_sample_storable] payload_size_Inr
    by (simp add: flat_save_def write_all_eq flat_encode_def show_many_def flat_payload_size_def
        payload_size_def checked_multiply_def checked_add_def)
  then show ?thesis
    using flat_save_outcome [OF flat_sample_storable, where opens = True and capacity = 10
        and flushes = True and path = "''index.fvi''"]
      \<open>length (flat_encode flat_sample) = 80\<close>
    by auto
qed

theorem flat_corruption_detected_witness:
  "\<forall>path iy. flat_load path (Some ((flat_encode flat_sample)[60 := 1])) Scalar \<noteq> Inr iy"
proof (intro allI, rule flat_corruption_detected [OF flat_sample_storable])
  show "60 < length (flat_encode flat_sample)"
    using length_flat_encode [of flat_sample] flat_sample_inv
    by (simp add: flat_inv_def flat_payload_size_def)
  show "1 \<noteq> flat_encode flat_sample ! 60"
    by (simp del: le_bytes.simps add: flat_encode_payload nth_append length_flat_header
        flat_payload_def flat_sample_def le_bytes_nth)
qed simp

lemma flat_load_inv:
  assumes "flat_load path file kern = Inr ix" "flat_dimension ix < score_dimension kern"
  shows "flat_inv ix"
  using assms flat_load_accepts [of path _ kern ix]
  by (cases "file") (auto simp: flat_load_def intro: flat_storable_inv)

end
