(* ===== verification/Mersenne.thy ===== *)
theory Mersenne
  imports Prelude
begin

text \<open>
  The generator of the level distribution, \<open>std::mt19937_64\<close>, as the C++ standard defines
  the \<open>mersenne_twister_engine\<close>: the state is the window of the last 312 outputs of the
  recurrence, oldest first, and a step appends the next one.
\<close>

unbundle bit_operations_syntax

type_synonym mt_state = "u64 list"

definition mt_size :: nat where "mt_size = 312"

definition mt_seed_step :: "nat \<Rightarrow> u64 \<Rightarrow> u64" where
  "mt_seed_step i x = 6364136223846793005 * (x XOR drop_bit 62 x) + of_nat i"

fun mt_seed_from :: "nat \<Rightarrow> nat \<Rightarrow> u64 \<Rightarrow> mt_state" where
  "mt_seed_from i 0 x = []"
| "mt_seed_from i (Suc n) x = x # mt_seed_from (Suc i) n (mt_seed_step (Suc i) x)"

definition mt_seed :: "u64 \<Rightarrow> mt_state" where
  "mt_seed s = mt_seed_from 0 mt_size s"

definition mt_twist :: "u64 \<Rightarrow> u64 \<Rightarrow> u64 \<Rightarrow> u64" where
  "mt_twist x0 x1 x156 =
     (let y = (x0 AND 0xFFFFFFFF80000000) OR (x1 AND 0x7FFFFFFF)
      in x156 XOR drop_bit 1 y XOR (if odd y then 0xB5026F5AA96619E9 else 0))"

definition mt_temper :: "u64 \<Rightarrow> u64" where
  "mt_temper x =
     (let z1 = x XOR (drop_bit 29 x AND 0x5555555555555555);
          z2 = z1 XOR (push_bit 17 z1 AND 0x71D67FFFEDA60000);
          z3 = z2 XOR (push_bit 37 z2 AND 0xFFF7EEE000000000)
      in z3 XOR drop_bit 43 z3)"

definition mt_next :: "mt_state \<Rightarrow> u64 \<times> mt_state" where
  "mt_next st =
     (let x = mt_twist (st ! 0) (st ! 1) (st ! 156) in (mt_temper x, tl st @ [x]))"

lemma length_mt_seed [simp]: "length (mt_seed s) = mt_size"
proof -
  have "length (mt_seed_from i n x) = n" for i n x
    by (induction n arbitrary: i x) simp_all
  then show ?thesis by (simp add: mt_seed_def)
qed

lemma length_mt_next [simp]: "length st = mt_size \<Longrightarrow> length (snd (mt_next st)) = mt_size"
  by (simp add: mt_next_def mt_size_def Let_def)

end
