(* ===== verification/Hnsw_Index.thy ===== *)
theory Hnsw_Index
  imports Mersenne Flat_Index
begin

text \<open>
  src/hnsw_index.cpp and include/fast_vector/hnsw_index.h: the state of the approximate
  index and the read-only half of its operations: configuration checks, the random level,
  greedy descent, the best-first search of a layer, neighbour selection and search.
  Every array access of the code is checked (\<open>read_at\<close>), so that the absence of
  undefined behaviour can be proved. \<open>std::log\<close> is the parameter \<open>lg\<close>.
\<close>

section \<open>State\<close>

datatype neighbor_selection = Simple | Heuristic

record hnsw_config =
  cfg_dimension :: nat
  max_connections :: nat
  ef_construction :: nat
  ef_search :: nat
  random_seed :: u64
  cfg_kernel :: dot_kernel
  selection :: neighbor_selection

record hnsw_node =
  node_levels :: "nat list list"
  node_deleted :: bool

record candidate =
  cand_node :: nat
  cand_score :: f32

record hnsw_index =
  hnsw_config :: hnsw_config
  hnsw_vectors :: "f32 list"
  hnsw_ids :: "vector_id list"
  hnsw_graph :: "hnsw_node list"
  hnsw_id_to_node :: "vector_id \<rightharpoonup> nat"
  hnsw_random :: mt_state
  hnsw_entry :: nat
  hnsw_max_level :: nat
  hnsw_deleted :: nat

definition maximum_generated_level :: nat where "maximum_generated_level = 63"

text \<open>The enum has two values only, so the last check of the code never fires.\<close>

definition validate_config :: "hnsw_config \<Rightarrow> hnsw_config result" where
  "validate_config cfg =
     (if cfg_dimension cfg = 0 then
        Inl (Invalid_argument ''index dimension must be greater than zero'')
      else if max_connections cfg < 2 then
        Inl (Invalid_argument ''HNSW max_connections must be at least two'')
      else if (2 ^ 32 - 1) div 2 < max_connections cfg then
        Inl (Invalid_argument ''HNSW max_connections is too large'')
      else if ef_construction cfg < max_connections cfg then
        Inl (Invalid_argument ''HNSW ef_construction must be at least max_connections'')
      else if ef_search cfg = 0 then
        Inl (Invalid_argument ''HNSW ef_search must be greater than zero'')
      else if selection cfg \<noteq> Simple \<and> selection cfg \<noteq> Heuristic then
        Inl (Invalid_argument ''HNSW neighbor selection strategy is invalid'')
      else Inr cfg)"

definition hnsw_create :: "bool \<Rightarrow> hnsw_config \<Rightarrow> hnsw_index result" where
  "hnsw_create avx2 config =
     and_then (validate_config config) (\<lambda>cfg.
     and_then (resolve_dot_product_kernel avx2 (cfg_kernel cfg)) (\<lambda>raw.
       Inr \<lparr>hnsw_config = cfg, hnsw_vectors = [], hnsw_ids = [], hnsw_graph = [],
            hnsw_id_to_node = Map.empty, hnsw_random = mt_seed (random_seed cfg),
            hnsw_entry = 0, hnsw_max_level = 0, hnsw_deleted = 0\<rparr>))"

definition hnsw_size :: "hnsw_index \<Rightarrow> nat" where
  "hnsw_size ix = length (hnsw_ids ix) - hnsw_deleted ix"

definition maximum_connections :: "hnsw_index \<Rightarrow> nat \<Rightarrow> nat" where
  "maximum_connections ix level =
     (if level = 0 then max_connections (hnsw_config ix) * 2
      else max_connections (hnsw_config ix))"

section \<open>The random level\<close>

text \<open>\<open>9007199254740993.0\<close> is no double; the literal denotes its neighbour \<open>2^53\<close>.\<close>

definition level_denominator :: f64 where "level_denominator = f64_of_nat 9007199254740993"

definition random_level :: "(f64 \<Rightarrow> f64) \<Rightarrow> nat \<Rightarrow> mt_state \<Rightarrow> (nat \<times> mt_state) result" where
  "random_level lg connections st =
     (case mt_next st of (bits, st') \<Rightarrow>
        let mantissa = drop_bit 11 bits + 1;
            uniform = f64_div (f64_of_nat (unat mantissa)) level_denominator;
            multiplier = f64_div 0x3FF0000000000000 (lg (f64_of_nat connections))
        in and_then (f64_to_size (f64_mul (f64_neg (lg uniform)) multiplier)) (\<lambda>level.
             Inr (min level maximum_generated_level, st')))"

section \<open>Candidates\<close>

definition hnsw_is_better :: "vector_id list \<Rightarrow> candidate \<Rightarrow> candidate \<Rightarrow> bool" where
  "hnsw_is_better ids lhs rhs =
     (if \<not> f32_eq (cand_score lhs) (cand_score rhs) then
        f32_lt (cand_score rhs) (cand_score lhs)
      else ids ! cand_node lhs < ids ! cand_node rhs)"

definition cand_valid :: "candidate \<Rightarrow> bool" where
  "cand_valid c \<longleftrightarrow> \<not> f32_is_nan (cand_score c)"

interpretation hnsw_rank: ranking "hnsw_is_better ids" cand_valid "\<lambda>c. ids ! cand_node c" for ids
  by unfold_locales
    (auto simp: hnsw_is_better_def cand_valid_def f32_eq_key f32_lt_key split: if_splits)

text \<open>\<open>similarity\<close>: the row of the node must lie in the float array.\<close>

definition similarity :: "hnsw_index \<Rightarrow> f32 list \<Rightarrow> nat \<Rightarrow> f32 result" where
  "similarity ix q node =
     (let d = cfg_dimension (hnsw_config ix) in
      if node * d + d \<le> length (hnsw_vectors ix) then
        Inr (raw_dot_product (cfg_kernel (hnsw_config ix)) q (row_of d (hnsw_vectors ix) node))
      else Inl Undefined_behaviour)"

text \<open>
  \<open>Candidate{node, similarity(query, node)}\<close>. The comparisons of the queues read
  \<open>ids_[node]\<close> of the candidates only, so that read is checked here, once per candidate.
\<close>

definition make_candidate :: "hnsw_index \<Rightarrow> f32 list \<Rightarrow> nat \<Rightarrow> candidate result" where
  "make_candidate ix q node =
     and_then (read_at (hnsw_ids ix) node) (\<lambda>_.
     and_then (similarity ix q node) (\<lambda>score. Inr \<lparr>cand_node = node, cand_score = score\<rparr>))"

definition neighbors_at :: "hnsw_index \<Rightarrow> nat \<Rightarrow> nat \<Rightarrow> nat list result" where
  "neighbors_at ix node level =
     and_then (read_at (hnsw_graph ix) node) (\<lambda>g. read_at (node_levels g) level)"

section \<open>Greedy descent\<close>

fun greedy_round ::
  "hnsw_index \<Rightarrow> f32 list \<Rightarrow> search_context \<Rightarrow> environment \<Rightarrow> nat list \<Rightarrow> candidate \<Rightarrow> bool \<Rightarrow>
   probe \<Rightarrow> (candidate \<times> bool \<times> probe) result" where
  "greedy_round ix q ctx env [] best improved p = Inr (best, improved, p)"
| "greedy_round ix q ctx env (neighbor # ns) best improved p =
     and_then (checkpoint ctx env p) (\<lambda>p.
     and_then (make_candidate ix q neighbor) (\<lambda>cand.
       if hnsw_is_better (hnsw_ids ix) cand best then greedy_round ix q ctx env ns cand True p
       else greedy_round ix q ctx env ns best improved p))"

text \<open>The nodes that would beat a candidate: each improving round leaves fewer.\<close>

definition beaters :: "hnsw_index \<Rightarrow> f32 list \<Rightarrow> candidate \<Rightarrow> nat set" where
  "beaters ix q best =
     {n. \<exists>c. make_candidate ix q n = Inr c \<and> hnsw_is_better (hnsw_ids ix) c best}"

lemma make_candidate_Inr [result_simps]:
  "make_candidate ix q n = Inr c \<longleftrightarrow>
     n < length (hnsw_ids ix)
     \<and> n * cfg_dimension (hnsw_config ix) + cfg_dimension (hnsw_config ix) \<le> length (hnsw_vectors ix)
     \<and> c = \<lparr>cand_node = n, cand_score = raw_dot_product (cfg_kernel (hnsw_config ix)) q
              (row_of (cfg_dimension (hnsw_config ix)) (hnsw_vectors ix) n)\<rparr>"
  by (auto simp: make_candidate_def similarity_def result_simps Let_def)

lemma finite_beaters: "finite (beaters ix q best)"
  by (rule finite_subset [of _ "{..<length (hnsw_ids ix)}"])
    (auto simp: beaters_def make_candidate_Inr)

lemma beaters_mono:
  assumes "make_candidate ix q n = Inr c" "hnsw_is_better (hnsw_ids ix) c best"
  shows "beaters ix q c \<subset> beaters ix q best"
proof -
  have "beaters ix q c \<subseteq> beaters ix q best"
    using assms(2) hnsw_rank.trans by (fastforce simp: beaters_def)
  moreover have "n \<in> beaters ix q best" using assms by (auto simp: beaters_def)
  moreover have "n \<notin> beaters ix q c" using assms(1) hnsw_rank.irrefl by (auto simp: beaters_def)
  ultimately show ?thesis by blast
qed

lemma greedy_round_result:
  assumes "greedy_round ix q ctx env ns best improved p = Inr (best', improved', p')"
  shows "best' = best \<and> improved' = improved \<or>
    improved' \<and> (\<exists>n\<in>set ns. make_candidate ix q n = Inr best') \<and> beaters ix q best' \<subset> beaters ix q best"
  using assms
proof (induction ns arbitrary: best improved p)
  case (Cons n ns)
  then obtain p1 c where c: "make_candidate ix q n = Inr c"
    and rest: "(if hnsw_is_better (hnsw_ids ix) c best then greedy_round ix q ctx env ns c True p1
      else greedy_round ix q ctx env ns best improved p1) = Inr (best', improved', p')"
    by (auto simp: and_then_eq_Inr split del: if_split)
  show ?case
  proof (cases "hnsw_is_better (hnsw_ids ix) c best")
    case True
    have sub: "beaters ix q c \<subset> beaters ix q best" using c True by (rule beaters_mono)
    from rest True have "greedy_round ix q ctx env ns c True p1 = Inr (best', improved', p')"
      by simp
    from Cons.IH [OF this] consider "best' = c" "improved'"
      | "improved'" "\<exists>n\<in>set ns. make_candidate ix q n = Inr best'" "beaters ix q best' \<subset> beaters ix q c"
      by blast
    then show ?thesis
    proof cases
      case 1
      then show ?thesis using c sub by simp
    next
      case 2
      then show ?thesis using psubset_trans [OF 2(3) sub] by auto
    qed
  next
    case False
    with rest have "greedy_round ix q ctx env ns best improved p1 = Inr (best', improved', p')"
      by simp
    from Cons.IH [OF this] show ?thesis by auto
  qed
qed auto

function greedy_loop ::
  "hnsw_index \<Rightarrow> f32 list \<Rightarrow> nat \<Rightarrow> search_context \<Rightarrow> environment \<Rightarrow> candidate \<Rightarrow> probe \<Rightarrow>
   (candidate \<times> probe) result" where
  "greedy_loop ix q level ctx env best p =
     and_then (neighbors_at ix (cand_node best) level) (\<lambda>ns.
     and_then (greedy_round ix q ctx env ns best False p) (\<lambda>r.
       if fst (snd r) then greedy_loop ix q level ctx env (fst r) (snd (snd r))
       else Inr (fst r, snd (snd r))))"
  by pat_completeness auto

termination
proof (relation "measure (\<lambda>(ix, q, level, ctx, env, best, p). card (beaters ix q best))", goal_cases)
  case (2 ix q level ctx env best p ns r)
  obtain best' improved' p' where r: "r = (best', improved', p')" by (cases r)
  have "beaters ix q (fst r) \<subset> beaters ix q best"
    using greedy_round_result [of ix q ctx env ns best False p best' improved' p'] 2 r by simp
  then show ?case by (simp add: psubset_card_mono finite_beaters)
qed simp

declare greedy_loop.simps [simp del]

definition greedy_search_layer ::
  "hnsw_index \<Rightarrow> f32 list \<Rightarrow> nat \<Rightarrow> nat \<Rightarrow> search_context \<Rightarrow> environment \<Rightarrow> nat \<Rightarrow> (nat \<times> nat) result" where
  "greedy_search_layer ix q entry level ctx env n =
     and_then (make_candidate ix q entry) (\<lambda>best.
     and_then (greedy_loop ix q level ctx env best (0, n)) (\<lambda>(best, p).
       Inr (cand_node best, snd p)))"

section \<open>Best-first search of a layer\<close>

record layer_state =
  layer_pending :: "candidate pqueue"
  layer_best :: "candidate pqueue"
  layer_visited :: "bool list"
  layer_probe :: probe

text \<open>\<open>best.size() < ef || is_better(candidate, best.top())\<close>.\<close>

definition layer_admits :: "vector_id list \<Rightarrow> nat \<Rightarrow> candidate \<Rightarrow> candidate pqueue \<Rightarrow> bool result" where
  "layer_admits ids ef c best =
     (if length best < ef then Inr True
      else and_then (read_at best 0) (\<lambda>top. Inr (hnsw_is_better ids c top)))"

text \<open>\<open>best.size() >= ef && is_better(best.top(), current)\<close>.\<close>

definition layer_finished :: "vector_id list \<Rightarrow> nat \<Rightarrow> candidate \<Rightarrow> candidate pqueue \<Rightarrow> bool result" where
  "layer_finished ids ef current best =
     (if ef \<le> length best then
        and_then (read_at best 0) (\<lambda>top. Inr (hnsw_is_better ids top current))
      else Inr False)"

definition layer_accept ::
  "hnsw_index \<Rightarrow> nat \<Rightarrow> bool \<Rightarrow> candidate \<Rightarrow> layer_state \<Rightarrow> layer_state result" where
  "layer_accept ix ef live_only c s =
     and_then (layer_admits (hnsw_ids ix) ef c (layer_best s)) (\<lambda>admitted.
       if \<not> admitted then Inr s
       else
         and_then (read_at (hnsw_graph ix) (cand_node c)) (\<lambda>node.
           Inr (s\<lparr>layer_pending :=
                     pq_push (\<lambda>a b. hnsw_is_better (hnsw_ids ix) b a) c (layer_pending s),
                   layer_best :=
                     (if \<not> live_only \<or> \<not> node_deleted node
                      then push_bounded (hnsw_is_better (hnsw_ids ix)) ef c (layer_best s)
                      else layer_best s)\<rparr>)))"

fun layer_visit ::
  "hnsw_index \<Rightarrow> f32 list \<Rightarrow> nat \<Rightarrow> bool \<Rightarrow> search_context \<Rightarrow> environment \<Rightarrow> nat list \<Rightarrow>
   layer_state \<Rightarrow> layer_state result" where
  "layer_visit ix q ef live_only ctx env [] s = Inr s"
| "layer_visit ix q ef live_only ctx env (neighbor # ns) s =
     and_then (checkpoint ctx env (layer_probe s)) (\<lambda>p.
     and_then (read_at (layer_visited s) neighbor) (\<lambda>seen.
       if seen then layer_visit ix q ef live_only ctx env ns (s\<lparr>layer_probe := p\<rparr>)
       else
         and_then (make_candidate ix q neighbor) (\<lambda>c.
         and_then (layer_accept ix ef live_only c
             (s\<lparr>layer_probe := p, layer_visited := (layer_visited s)[neighbor := True]\<rparr>)) (\<lambda>s.
           layer_visit ix q ef live_only ctx env ns s))))"

text \<open>Each candidate in the queue was unvisited before: the measure of the outer loop.\<close>

definition layer_work :: "layer_state \<Rightarrow> nat" where
  "layer_work s = length (layer_pending s) + length (filter Not (layer_visited s))"

lemma unvisited_update:
  "i < length v \<Longrightarrow> \<not> v ! i \<Longrightarrow> Suc (length (filter Not (v[i := True]))) = length (filter Not v)"
  by (induction v arbitrary: i) (auto split: nat.splits)

lemma layer_accept_work:
  assumes "layer_accept ix ef live_only c s = Inr s'"
  shows "length (layer_pending s') \<le> Suc (length (layer_pending s))
    \<and> layer_visited s' = layer_visited s \<and> layer_probe s' = layer_probe s"
  using assms by (auto simp: layer_accept_def result_simps split: if_splits)

lemma layer_visit_work:
  "layer_visit ix q ef live_only ctx env ns s = Inr s' \<Longrightarrow> layer_work s' \<le> layer_work s"
proof (induction ns arbitrary: s)
  case (Cons n ns)
  then obtain p seen where seen: "n < length (layer_visited s)" "seen = layer_visited s ! n"
    and rest: "(if seen then layer_visit ix q ef live_only ctx env ns (s\<lparr>layer_probe := p\<rparr>)
       else and_then (make_candidate ix q n) (\<lambda>c.
         and_then (layer_accept ix ef live_only c
             (s\<lparr>layer_probe := p, layer_visited := (layer_visited s)[n := True]\<rparr>)) (\<lambda>s.
           layer_visit ix q ef live_only ctx env ns s))) = Inr s'"
    by (auto simp: and_then_eq_Inr read_at_eq_Inr split del: if_split)
  show ?case
  proof (cases seen)
    case True
    then have "layer_work s' \<le> layer_work (s\<lparr>layer_probe := p\<rparr>)" using Cons.IH rest by simp
    then show ?thesis by (simp add: layer_work_def)
  next
    case False
    with rest obtain c s1 where "layer_accept ix ef live_only c
          (s\<lparr>layer_probe := p, layer_visited := (layer_visited s)[n := True]\<rparr>) = Inr s1"
      and s': "layer_visit ix q ef live_only ctx env ns s1 = Inr s'"
      by (auto simp: and_then_eq_Inr)
    from layer_accept_work [OF this(1)] have "layer_work s1 \<le> layer_work s"
      using unvisited_update [of n "layer_visited s"] False seen by (simp add: layer_work_def)
    with Cons.IH [OF s'] show ?thesis by linarith
  qed
qed simp

function layer_loop ::
  "hnsw_index \<Rightarrow> f32 list \<Rightarrow> nat \<Rightarrow> nat \<Rightarrow> bool \<Rightarrow> search_context \<Rightarrow> environment \<Rightarrow>
   layer_state \<Rightarrow> layer_state result" where
  "layer_loop ix q ef level live_only ctx env s =
     (case layer_pending s of
        [] \<Rightarrow> Inr s
      | current # pending \<Rightarrow>
          and_then (checkpoint ctx env (layer_probe s)) (\<lambda>p.
          and_then (layer_finished (hnsw_ids ix) ef current (layer_best s)) (\<lambda>stop.
            if stop then Inr (s\<lparr>layer_probe := p\<rparr>)
            else
              and_then (neighbors_at ix (cand_node current) level) (\<lambda>ns.
              and_then (layer_visit ix q ef live_only ctx env ns
                  (s\<lparr>layer_pending := pending, layer_probe := p\<rparr>)) (\<lambda>s'.
                layer_loop ix q ef level live_only ctx env s')))))"
  by pat_completeness auto

termination
proof (relation "measure (\<lambda>(ix, q, ef, level, live_only, ctx, env, s). layer_work s)", goal_cases)
  case (2 ix q ef level live_only ctx env s current pending p stop ns s')
  then have "layer_work s' \<le> layer_work (s\<lparr>layer_pending := pending, layer_probe := p\<rparr>)"
    by (intro layer_visit_work)
  with 2 show ?case by (simp add: layer_work_def)
qed simp

declare layer_loop.simps [simp del]

definition search_layer ::
  "hnsw_index \<Rightarrow> f32 list \<Rightarrow> nat \<Rightarrow> nat \<Rightarrow> nat \<Rightarrow> bool \<Rightarrow> search_context \<Rightarrow> environment \<Rightarrow> nat \<Rightarrow>
   (candidate list \<times> nat) result" where
  "search_layer ix q entry ef level live_only ctx env n =
     and_then (check ctx env n) (\<lambda>n.
     and_then (make_candidate ix q entry) (\<lambda>initial.
     and_then (read_at (hnsw_graph ix) entry) (\<lambda>node.
     and_then (layer_loop ix q ef level live_only ctx env
         \<lparr>layer_pending = [initial],
          layer_best = (if \<not> live_only \<or> \<not> node_deleted node then [initial] else []),
          layer_visited = (replicate (length (hnsw_graph ix)) False)[entry := True],
          layer_probe = (0, n)\<rparr>) (\<lambda>s.
     and_then (drain ctx env (layer_best s) (layer_probe s) []) (\<lambda>(p, out).
       Inr (sort_by (hnsw_is_better (hnsw_ids ix)) out, snd p))))))"

section \<open>Neighbour selection\<close>

definition row_at :: "hnsw_index \<Rightarrow> nat \<Rightarrow> f32 list result" where
  "row_at ix node =
     (let d = cfg_dimension (hnsw_config ix) in
      if node * d + d \<le> length (hnsw_vectors ix) then Inr (row_of d (hnsw_vectors ix) node)
      else Inl Undefined_behaviour)"

fun is_diverse :: "hnsw_index \<Rightarrow> f32 list \<Rightarrow> f32 \<Rightarrow> nat list \<Rightarrow> bool result" where
  "is_diverse ix v score [] = Inr True"
| "is_diverse ix v score (selected_node # ss) =
     and_then (similarity ix v selected_node) (\<lambda>sim.
       if f32_ge sim score then Inr False else is_diverse ix v score ss)"

fun heuristic_scan ::
  "hnsw_index \<Rightarrow> nat \<Rightarrow> candidate list \<Rightarrow> nat list \<Rightarrow> nat list \<Rightarrow> (nat list \<times> nat list) result" where
  "heuristic_scan ix limit [] selected pruned = Inr (selected, pruned)"
| "heuristic_scan ix limit (c # cs) selected pruned =
     and_then (row_at ix (cand_node c)) (\<lambda>candidate_vector.
     and_then (is_diverse ix candidate_vector (cand_score c) selected) (\<lambda>diverse.
       if diverse \<and> length selected < limit then
         heuristic_scan ix limit cs (selected @ [cand_node c]) pruned
       else heuristic_scan ix limit cs selected (pruned @ [cand_node c])))"

fun fill_pruned :: "nat \<Rightarrow> nat list \<Rightarrow> nat list \<Rightarrow> nat list" where
  "fill_pruned limit [] selected = selected"
| "fill_pruned limit (c # cs) selected =
     (if length selected = limit then selected else fill_pruned limit cs (selected @ [c]))"

definition select_neighbors :: "hnsw_index \<Rightarrow> candidate list \<Rightarrow> nat \<Rightarrow> nat list result" where
  "select_neighbors ix candidates maximum_count =
     (let limit = min maximum_count (length candidates) in
      if selection (hnsw_config ix) = Simple then Inr (map cand_node (take limit candidates))
      else
        and_then (heuristic_scan ix limit candidates [] []) (\<lambda>(selected, pruned).
          Inr (fill_pruned limit pruned selected)))"

section \<open>Search\<close>

text \<open>\<open>for (level = l; level > stop; --level) entry = greedy_search_layer(...)\<close>.\<close>

fun descend ::
  "hnsw_index \<Rightarrow> f32 list \<Rightarrow> search_context \<Rightarrow> environment \<Rightarrow> nat \<Rightarrow> nat \<Rightarrow> nat \<Rightarrow> nat \<Rightarrow>
   (nat \<times> nat) result" where
  "descend ix q ctx env stop 0 entry n = Inr (entry, n)"
| "descend ix q ctx env stop (Suc l) entry n =
     (if Suc l > stop then
        and_then (greedy_search_layer ix q entry (Suc l) ctx env n) (\<lambda>(entry, n).
          descend ix q ctx env stop l entry n)
      else Inr (entry, n))"

fun collect_results ::
  "hnsw_index \<Rightarrow> search_context \<Rightarrow> environment \<Rightarrow> candidate list \<Rightarrow> probe \<Rightarrow> search_result list \<Rightarrow>
   (search_result list \<times> probe) result" where
  "collect_results ix ctx env [] p results = Inr (results, p)"
| "collect_results ix ctx env (c # cs) p results =
     and_then (checkpoint ctx env p) (\<lambda>p.
     and_then (read_at (hnsw_ids ix) (cand_node c)) (\<lambda>vid.
       collect_results ix ctx env cs p
         (results @ [\<lparr>result_id = vid, result_score = cand_score c\<rparr>])))"

definition hnsw_search_ef ::
  "hnsw_index \<Rightarrow> f32 list \<Rightarrow> nat \<Rightarrow> nat \<Rightarrow> search_context \<Rightarrow> environment \<Rightarrow>
   search_result list result" where
  "hnsw_search_ef ix query k ef ctx env =
     and_then (validate_context ctx) (\<lambda>_.
     and_then (check ctx env 0) (\<lambda>n.
       if k = 0 then Inr []
       else if length query \<noteq> cfg_dimension (hnsw_config ix) then
         Inl (Invalid_argument ''query dimension does not match index dimension'')
       else if ef = 0 then
         Inl (Invalid_argument ''HNSW ef_search must be greater than zero'')
       else
         and_then (normalize_l2 query) (\<lambda>q.
           if hnsw_size ix = 0 then Inr []
           else
             and_then (descend ix q ctx env 0 (hnsw_max_level ix) (hnsw_entry ix) n)
               (\<lambda>(entry, n).
             let result_count = min k (hnsw_size ix); effective_ef = max result_count ef in
             and_then (search_layer ix q entry effective_ef 0 True ctx env n) (\<lambda>(candidates, n).
             and_then (collect_results ix ctx env (take result_count candidates) (0, n) [])
               (\<lambda>(results, p).
             and_then (check ctx env (snd p)) (\<lambda>_. Inr results)))))))"

text \<open>The overloads without a candidate-list size or without a context.\<close>

definition hnsw_search ::
  "hnsw_index \<Rightarrow> f32 list \<Rightarrow> nat \<Rightarrow> search_context \<Rightarrow> environment \<Rightarrow> search_result list result" where
  "hnsw_search ix query k ctx env = hnsw_search_ef ix query k (ef_search (hnsw_config ix)) ctx env"

definition hnsw_search_ef_default ::
  "hnsw_index \<Rightarrow> f32 list \<Rightarrow> nat \<Rightarrow> nat \<Rightarrow> environment \<Rightarrow> search_result list result" where
  "hnsw_search_ef_default ix query k ef env = hnsw_search_ef ix query k ef default_context env"

definition hnsw_search_default ::
  "hnsw_index \<Rightarrow> f32 list \<Rightarrow> nat \<Rightarrow> environment \<Rightarrow> search_result list result" where
  "hnsw_search_default ix query k env =
     hnsw_search_ef_default ix query k (ef_search (hnsw_config ix)) env"

section \<open>Deletion and counters\<close>

definition hnsw_erase :: "vector_id \<Rightarrow> hnsw_index \<Rightarrow> (hnsw_index \<times> bool) result" where
  "hnsw_erase vid ix =
     (case hnsw_id_to_node ix vid of
        None \<Rightarrow> Inr (ix, False)
      | Some node \<Rightarrow>
          and_then (read_at (hnsw_graph ix) node) (\<lambda>g.
            if node_deleted g then Inr (ix, False)
            else Inr (ix\<lparr>hnsw_graph := (hnsw_graph ix)[node := g\<lparr>node_deleted := True\<rparr>],
                         hnsw_deleted := hnsw_deleted ix + 1\<rparr>, True)))"

definition live_ids :: "hnsw_index \<Rightarrow> vector_id list result" where
  "live_ids ix =
     (if length (hnsw_graph ix) < length (hnsw_ids ix) then Inl Undefined_behaviour
      else Inr (sort (map fst (filter (\<lambda>(vid, g). \<not> node_deleted g)
             (zip (hnsw_ids ix) (hnsw_graph ix))))))"

record hnsw_stats =
  stat_node_count :: nat
  stat_max_level :: nat
  stat_directed_edge_count :: nat
  stat_maximum_node_degree :: nat
  stat_live_count :: nat
  stat_deleted_count :: nat

definition node_edges :: "hnsw_node \<Rightarrow> nat" where
  "node_edges g = sum_list (map length (node_levels g))"

definition node_degree :: "hnsw_node \<Rightarrow> nat" where
  "node_degree g = foldl (\<lambda>d ns. max d (length ns)) 0 (node_levels g)"

definition hnsw_stats_of :: "hnsw_index \<Rightarrow> hnsw_stats" where
  "hnsw_stats_of ix =
     \<lparr>stat_node_count = length (hnsw_ids ix),
      stat_max_level = (if hnsw_graph ix = [] then 0 else hnsw_max_level ix),
      stat_directed_edge_count = foldl (\<lambda>n g. n + node_edges g) 0 (hnsw_graph ix),
      stat_maximum_node_degree = foldl (\<lambda>d g. max d (node_degree g)) 0 (hnsw_graph ix),
      stat_live_count = hnsw_size ix, stat_deleted_count = hnsw_deleted ix\<rparr>"

end
