(* ===== verification/Hnsw_Graph.thy ===== *)
theory Hnsw_Graph
  imports Hnsw_Index Flat_Theorems
begin

text \<open>
  The invariant of the approximate index: sizes and maps agree, every adjacency list names
  distinct existing other nodes of its layer within the degree limit, the entry point is on
  the top layer, the tombstone count is right and the stored components are small finite
  numbers. Under it no read of the search code is out of range.
\<close>

section \<open>Graphs\<close>

definition edges :: "hnsw_node list \<Rightarrow> nat \<Rightarrow> nat \<Rightarrow> nat list" where
  "edges g u l = node_levels (g ! u) ! l"

definition on_layer :: "hnsw_node list \<Rightarrow> nat \<Rightarrow> nat \<Rightarrow> bool" where
  "on_layer g l u \<longleftrightarrow> u < length g \<and> l < length (node_levels (g ! u))"

definition list_ok :: "hnsw_node list \<Rightarrow> nat \<Rightarrow> nat \<Rightarrow> nat list \<Rightarrow> bool" where
  "list_ok g u l ns \<longleftrightarrow> distinct ns \<and> u \<notin> set ns \<and> (\<forall>v\<in>set ns. on_layer g l v)"

definition graph_wf :: "hnsw_node list \<Rightarrow> bool" where
  "graph_wf g \<longleftrightarrow>
     (\<forall>u < length g. node_levels (g ! u) \<noteq> []) \<and> (\<forall>u l. on_layer g l u \<longrightarrow> list_ok g u l (edges g u l))"

definition degrees_ok :: "(nat \<Rightarrow> nat) \<Rightarrow> hnsw_node list \<Rightarrow> bool" where
  "degrees_ok limit g \<longleftrightarrow> (\<forall>u l. on_layer g l u \<longrightarrow> length (edges g u l) \<le> limit l)"

definition symmetric :: "hnsw_node list \<Rightarrow> bool" where
  "symmetric g \<longleftrightarrow>
     (\<forall>u v l. on_layer g l u \<longrightarrow> v \<in> set (edges g u l) \<longrightarrow> u \<in> set (edges g v l))"

definition deleted_nodes :: "hnsw_node list \<Rightarrow> nat" where
  "deleted_nodes g = length (filter node_deleted g)"

lemma on_layer_down: "on_layer g l u \<Longrightarrow> m \<le> l \<Longrightarrow> on_layer g m u"
  by (auto simp: on_layer_def)

lemma graph_wf_edge:
  assumes "graph_wf g" "on_layer g l u" "v \<in> set (edges g u l)"
  shows "on_layer g l v" "v \<noteq> u"
  using assms by (auto simp: graph_wf_def list_ok_def)

section \<open>The invariant\<close>

definition config_ok :: "hnsw_config \<Rightarrow> bool" where
  "config_ok cfg \<longleftrightarrow> 0 < cfg_dimension cfg \<and> 2 \<le> max_connections cfg
     \<and> max_connections cfg \<le> 2 ^ 31 - 1 \<and> max_connections cfg \<le> ef_construction cfg
     \<and> 0 < ef_search cfg"

lemma validate_config_Inr: "validate_config cfg = Inr cfg' \<longleftrightarrow> config_ok cfg \<and> cfg' = cfg"
  by (cases "selection cfg") (auto simp: validate_config_def config_ok_def)

definition entry_ok :: "hnsw_index \<Rightarrow> bool" where
  "entry_ok ix \<longleftrightarrow>
     hnsw_max_level ix \<le> maximum_generated_level
   \<and> (\<forall>u < length (hnsw_graph ix).
        length (node_levels (hnsw_graph ix ! u)) \<le> Suc (hnsw_max_level ix))
   \<and> (hnsw_graph ix = [] \<longrightarrow> hnsw_entry ix = 0 \<and> hnsw_max_level ix = 0)
   \<and> (hnsw_graph ix \<noteq> [] \<longrightarrow> on_layer (hnsw_graph ix) (hnsw_max_level ix) (hnsw_entry ix))"

definition storage_ok :: "hnsw_index \<Rightarrow> bool" where
  "storage_ok ix \<longleftrightarrow>
     length (hnsw_graph ix) = length (hnsw_ids ix)
   \<and> length (hnsw_vectors ix) = length (hnsw_ids ix) * cfg_dimension (hnsw_config ix)
   \<and> length (hnsw_ids ix) < 2 ^ 32
   \<and> distinct (hnsw_ids ix)
   \<and> (\<forall>vid i. hnsw_id_to_node ix vid = Some i \<longleftrightarrow> i < length (hnsw_ids ix) \<and> hnsw_ids ix ! i = vid)"

definition scores_ok :: "hnsw_index \<Rightarrow> bool" where
  "scores_ok ix \<longleftrightarrow> unit_components (hnsw_vectors ix)
     \<and> cfg_dimension (hnsw_config ix) < score_dimension (cfg_kernel (hnsw_config ix))"

definition hnsw_wf :: "hnsw_index \<Rightarrow> bool" where
  "hnsw_wf ix \<longleftrightarrow>
     config_ok (hnsw_config ix) \<and> storage_ok ix \<and> scores_ok ix \<and> entry_ok ix
   \<and> graph_wf (hnsw_graph ix) \<and> degrees_ok (maximum_connections ix) (hnsw_graph ix)
   \<and> hnsw_deleted ix = deleted_nodes (hnsw_graph ix)
   \<and> length (hnsw_random ix) = mt_size"

text \<open>The vectors by ID: what the index stores, tombstones left out.\<close>

definition hnsw_abs :: "hnsw_index \<Rightarrow> vector_id \<rightharpoonup> f32 list" where
  "hnsw_abs ix vid =
     (case hnsw_id_to_node ix vid of
        None \<Rightarrow> None
      | Some node \<Rightarrow>
          if node_deleted (hnsw_graph ix ! node) then None
          else Some (row_of (cfg_dimension (hnsw_config ix)) (hnsw_vectors ix) node))"

section \<open>Candidates\<close>

definition cand_of :: "hnsw_index \<Rightarrow> f32 list \<Rightarrow> nat \<Rightarrow> candidate" where
  "cand_of ix q node =
     \<lparr>cand_node = node,
      cand_score = raw_dot_product (cfg_kernel (hnsw_config ix)) q
        (row_of (cfg_dimension (hnsw_config ix)) (hnsw_vectors ix) node)\<rparr>"

lemma cand_node_cand_of [simp]: "cand_node (cand_of ix q node) = node"
  by (simp add: cand_of_def)

lemma storage_row:
  "storage_ok ix \<Longrightarrow> node < length (hnsw_graph ix) \<Longrightarrow>
     node * cfg_dimension (hnsw_config ix) + cfg_dimension (hnsw_config ix)
       \<le> length (hnsw_vectors ix)"
  by (simp add: storage_ok_def row_fits)

lemma make_candidate_wf [simp]:
  "storage_ok ix \<Longrightarrow> node < length (hnsw_graph ix) \<Longrightarrow> make_candidate ix q node = Inr (cand_of ix q node)"
  using storage_row [of ix node] by (simp add: make_candidate_Inr cand_of_def storage_ok_def)

lemma neighbors_at_wf [simp]:
  "on_layer (hnsw_graph ix) l u \<Longrightarrow> neighbors_at ix u l = Inr (edges (hnsw_graph ix) u l)"
  by (simp add: neighbors_at_def on_layer_def edges_def)

text \<open>Queries whose scores against the stored vectors are numbers.\<close>

definition query_ok :: "hnsw_index \<Rightarrow> f32 list \<Rightarrow> bool" where
  "query_ok ix q \<longleftrightarrow> unit_components q \<and> length q = cfg_dimension (hnsw_config ix)"

lemma finite_not_nan: "f32_is_finite x \<Longrightarrow> \<not> f32_is_nan x"
  by (simp add: f32_is_nan_def f32_is_finite_def is_nan_mag_def is_finite_mag_def)

lemma cand_of_valid:
  assumes "scores_ok ix" "query_ok ix q"
  shows "cand_valid (cand_of ix q node)"
proof -
  have "unit_components (row_of (cfg_dimension (hnsw_config ix)) (hnsw_vectors ix) node)"
    using assms(1) unfolding scores_ok_def by (blast intro: unit_components_subset [OF _ set_row_of])
  then have "f32_is_finite (raw_dot_product (cfg_kernel (hnsw_config ix)) q
      (row_of (cfg_dimension (hnsw_config ix)) (hnsw_vectors ix) node))"
    using assms by (intro raw_dot_product_finite) (simp_all add: scores_ok_def query_ok_def)
  then show ?thesis by (simp add: cand_valid_def cand_of_def finite_not_nan)
qed

lemma cands_rankable:
  assumes "storage_ok ix" "scores_ok ix" "query_ok ix q" "distinct nodes"
    and "\<forall>v\<in>set nodes. v < length (hnsw_graph ix)"
  shows "hnsw_rank.rankable (hnsw_ids ix) (map (cand_of ix q) nodes)"
proof -
  have "inj_on (\<lambda>v. hnsw_ids ix ! v) (set nodes)"
    using assms(1,5) by (auto simp: inj_on_def storage_ok_def nth_eq_iff_index_eq)
  then have "distinct (map (\<lambda>v. hnsw_ids ix ! v) nodes)"
    using assms(4) by (simp add: distinct_map)
  then show ?thesis
    using cand_of_valid [OF assms(2,3)] by (auto simp: hnsw_rank.rankable_def comp_def)
qed

end
