(* ===== verification/Hnsw_Search.thy ===== *)
theory Hnsw_Search
  imports Hnsw_Graph
begin

text \<open>
  What the searches of the approximate index promise under its invariant: no undefined
  behaviour, termination, sound results (live, distinct, ranked, with their true scores),
  and completeness of a layer search that found fewer than \<open>ef\<close> candidates.
\<close>

text \<open>The only exception a search raises once its arguments are checked.\<close>

definition stopped :: "search_context \<Rightarrow> environment \<Rightarrow> cpp_error \<Rightarrow> bool" where
  "stopped ctx env e \<longleftrightarrow> is_interruption e \<and> \<not> quiet ctx env"

lemma check_stopped: "check ctx env n = Inl e \<Longrightarrow> stopped ctx env e"
  using check_error quiet_check by (fastforce simp: stopped_def)

lemma checkpoint_stopped: "checkpoint ctx env p = Inl e \<Longrightarrow> stopped ctx env e"
  using checkpoint_error [of ctx env p e] quiet_checkpoint [of ctx env p] by (auto simp: stopped_def)

lemma drain_stopped: "drain ctx env q p out = Inl e \<Longrightarrow> stopped ctx env e"
  by (induction q arbitrary: p out) (auto simp: result_simps dest: checkpoint_stopped)

section \<open>Greedy descent\<close>

lemma greedy_round_wf:
  assumes "storage_ok ix" "\<forall>v\<in>set ns. v < length (hnsw_graph ix)"
  shows "case greedy_round ix q ctx env ns best improved p of
      Inl e \<Rightarrow> stopped ctx env e
    | Inr (best', improved', p') \<Rightarrow> best' = best \<or> (\<exists>v\<in>set ns. best' = cand_of ix q v)"
  using assms(2)
proof (induction ns arbitrary: best improved p)
  case (Cons n ns)
  show ?case
  proof (cases "checkpoint ctx env p")
    case (Inl e)
    then show ?thesis by (auto dest: checkpoint_stopped)
  next
    case (Inr p1)
    have IH: "case greedy_round ix q ctx env ns b i p1 of
        Inl e \<Rightarrow> stopped ctx env e
      | Inr (best', improved', p') \<Rightarrow> best' = b \<or> (\<exists>v\<in>set ns. best' = cand_of ix q v)" for b i
      using Cons by simp
    show ?thesis
      using IH [of "cand_of ix q n" True] IH [of best improved] Cons.prems assms(1)
      by (auto simp: Inr split: sum.splits)
  qed
qed simp

lemma greedy_loop_wf:
  assumes "storage_ok ix" "graph_wf (hnsw_graph ix)" "on_layer (hnsw_graph ix) l (cand_node best)"
  shows "case greedy_loop ix q l ctx env best p of
      Inl e \<Rightarrow> stopped ctx env e
    | Inr (best', p') \<Rightarrow> on_layer (hnsw_graph ix) l (cand_node best')"
  using assms
proof (induction ix q l ctx env best p rule: greedy_loop.induct)
  case (1 ix q l ctx env best p)
  let ?ns = "edges (hnsw_graph ix) (cand_node best) l"
  have layer: "\<forall>v\<in>set ?ns. on_layer (hnsw_graph ix) l v"
    using 1 by (auto dest: graph_wf_edge)
  then have lt: "\<forall>v\<in>set ?ns. v < length (hnsw_graph ix)" by (auto simp: on_layer_def)
  note round = greedy_round_wf [OF 1(2) lt, where q = q and ctx = ctx and env = env and best = best
      and improved = False and p = p]
  show ?case
  proof (cases "greedy_round ix q ctx env ?ns best False p")
    case (Inl e)
    then show ?thesis using 1 round by (subst greedy_loop.simps) simp
  next
    case (Inr r)
    obtain b i p' where r: "r = (b, i, p')" by (cases r)
    have b: "on_layer (hnsw_graph ix) l (cand_node b)" using round layer 1 by (auto simp: Inr r)
    show ?thesis
    proof (cases i)
      case True
      have "case greedy_loop ix q l ctx env (fst r) (snd (snd r)) of
          Inl e \<Rightarrow> stopped ctx env e
        | Inr (best', p') \<Rightarrow> on_layer (hnsw_graph ix) l (cand_node best')"
        by (rule 1(1) [OF _ Inr]) (use 1 b True in \<open>simp_all add: r\<close>)
      then show ?thesis using 1 True by (subst greedy_loop.simps) (simp add: Inr r)
    next
      case False
      then show ?thesis using 1 b by (subst greedy_loop.simps) (simp add: Inr r)
    qed
  qed
qed

lemma greedy_search_layer_wf:
  assumes "storage_ok ix" "graph_wf (hnsw_graph ix)" "on_layer (hnsw_graph ix) l entry"
  shows "case greedy_search_layer ix q entry l ctx env n of
      Inl e \<Rightarrow> stopped ctx env e
    | Inr (entry', n') \<Rightarrow> on_layer (hnsw_graph ix) l entry'"
proof -
  have "entry < length (hnsw_graph ix)" using assms(3) by (simp add: on_layer_def)
  then show ?thesis
    using greedy_loop_wf [OF assms(1,2), of l "cand_of ix q entry", where q = q and ctx = ctx
        and env = env and p = "(0, n)"] assms
    by (auto simp: greedy_search_layer_def split: sum.splits)
qed

lemma descend_wf:
  assumes "storage_ok ix" "graph_wf (hnsw_graph ix)" "on_layer (hnsw_graph ix) l entry"
  shows "case descend ix q ctx env stop l entry n of
      Inl e \<Rightarrow> stopped ctx env e
    | Inr (entry', n') \<Rightarrow> on_layer (hnsw_graph ix) (min stop l) entry'"
  using assms(3)
proof (induction l arbitrary: entry n)
  case 0
  then show ?case by simp
next
  case (Suc l)
  show ?case
  proof (cases "stop < Suc l")
    case True
    show ?thesis
    proof (cases "greedy_search_layer ix q entry (Suc l) ctx env n")
      case (Inl e)
      then show ?thesis using greedy_search_layer_wf [OF assms(1,2) Suc.prems, where q = q and ctx = ctx
          and env = env and n = n] True
        by simp
    next
      case (Inr r)
      obtain e' n' where r: "r = (e', n')" by (cases r)
      have eq: "min stop (Suc l) = min stop l" using True by simp
      have "on_layer (hnsw_graph ix) l e'"
        using greedy_search_layer_wf [OF assms(1,2) Suc.prems, where q = q and ctx = ctx
          and env = env and n = n]
        by (auto simp: Inr r intro: on_layer_down)
      from Suc.IH [OF this, of n'] show ?thesis using True unfolding eq by (simp add: Inr r)
    qed
  next
    case False
    then show ?thesis using Suc.prems by (auto simp: min_def intro: on_layer_down)
  qed
qed

section \<open>The search of a layer\<close>

lemma mset_push_bounded: "mset (push_bounded b n c q) \<subseteq># add_mset c (mset q)"
proof -
  have "mset (tl q') \<subseteq># mset q'" for q' :: "'a list" by (cases q') simp_all
  from this [of "pq_push b c q"] show ?thesis
    by (simp add: push_bounded_def pq_pop_def Let_def)
qed

lemma length_push_bounded:
  "length q \<le> n \<Longrightarrow> length (push_bounded b n c q) = min n (Suc (length q))"
  by (auto simp: push_bounded_def pq_pop_def Let_def)

lemma push_bounded_room: "length q < n \<Longrightarrow> push_bounded b n c q = pq_push b c q"
  by (simp add: push_bounded_def Let_def)

text \<open>Candidates of nodes of the layer that were visited.\<close>

definition cand_ok :: "hnsw_index \<Rightarrow> f32 list \<Rightarrow> nat \<Rightarrow> bool list \<Rightarrow> candidate \<Rightarrow> bool" where
  "cand_ok ix q l visited c \<longleftrightarrow>
     c = cand_of ix q (cand_node c) \<and> on_layer (hnsw_graph ix) l (cand_node c)
   \<and> visited ! cand_node c"

definition wanted :: "hnsw_index \<Rightarrow> bool \<Rightarrow> nat \<Rightarrow> bool" where
  "wanted ix live_only v \<longleftrightarrow> \<not> live_only \<or> \<not> node_deleted (hnsw_graph ix ! v)"

definition layer_inv :: "hnsw_index \<Rightarrow> f32 list \<Rightarrow> nat \<Rightarrow> nat \<Rightarrow> bool \<Rightarrow> layer_state \<Rightarrow> bool" where
  "layer_inv ix q l ef live_only s \<longleftrightarrow>
     length (layer_visited s) = length (hnsw_graph ix)
   \<and> (\<forall>c\<in>set (layer_pending s) \<union> set (layer_best s). cand_ok ix q l (layer_visited s) c)
   \<and> distinct (map cand_node (layer_best s))
   \<and> length (layer_best s) \<le> ef
   \<and> (\<forall>c\<in>set (layer_best s). wanted ix live_only (cand_node c))"

text \<open>
  While the result queue has room, nothing was discarded: every visited node that is wanted
  is in it, and every visited node but those of \<open>X\<close> is still pending or has been expanded.
\<close>

definition layer_closed :: "hnsw_index \<Rightarrow> nat \<Rightarrow> nat \<Rightarrow> bool \<Rightarrow> nat set \<Rightarrow> layer_state \<Rightarrow> bool" where
  "layer_closed ix l ef live_only X s \<longleftrightarrow>
     (length (layer_best s) < ef \<longrightarrow>
       (\<forall>v < length (hnsw_graph ix). layer_visited s ! v \<longrightarrow>
          (v \<in> X \<or> v \<in> cand_node ` set (layer_pending s)
             \<or> (\<forall>w\<in>set (edges (hnsw_graph ix) v l). layer_visited s ! w))
        \<and> (wanted ix live_only v \<longrightarrow> v \<in> cand_node ` set (layer_best s))))"

definition layer_grows :: "layer_state \<Rightarrow> layer_state \<Rightarrow> bool" where
  "layer_grows s s' \<longleftrightarrow> length (layer_best s) \<le> length (layer_best s')
     \<and> length (layer_visited s) = length (layer_visited s')
     \<and> (\<forall>v < length (layer_visited s). layer_visited s ! v \<longrightarrow> layer_visited s' ! v)"

lemma layer_grows_trans: "layer_grows s t \<Longrightarrow> layer_grows t u \<Longrightarrow> layer_grows s u"
  by (auto simp: layer_grows_def)

lemma cand_ok_visit: "cand_ok ix q l visited c \<Longrightarrow> cand_ok ix q l (visited[n := True]) c"
  by (cases "n = cand_node c"; cases "n < length visited") (simp_all add: cand_ok_def list_update_beyond)

lemma distinct_submset: "mset xs \<subseteq># mset ys \<Longrightarrow> distinct ys \<Longrightarrow> distinct xs"
proof -
  assume sub: "mset xs \<subseteq># mset ys" and "distinct ys"
  then have "count (mset ys) a \<le> 1" for a by (simp add: distinct_count_atmost_1)
  then have le: "count (mset xs) a \<le> 1" for a
    using mset_subset_eq_count [OF sub, of a] by (meson le_trans)
  have "count (mset xs) a = (if a \<in> set xs then 1 else 0)" for a
    using le [of a] count_mset_0_iff [of xs a] by (auto simp: le_Suc_eq)
  then show "distinct xs" by (simp add: distinct_count_atmost_1)
qed

lemma layer_accept_wf:
  fixes p :: probe
  assumes inv: "layer_inv ix q l ef live_only s" and ef: "0 < ef"
    and n: "on_layer (hnsw_graph ix) l n" "\<not> layer_visited s ! n"
  defines "s1 \<equiv> s\<lparr>layer_probe := p, layer_visited := (layer_visited s)[n := True]\<rparr>"
  shows "\<exists>s'. layer_accept ix ef live_only (cand_of ix q n) s1 = Inr s' \<and> layer_inv ix q l ef live_only s'
    \<and> (layer_closed ix l ef live_only X s \<longrightarrow> layer_closed ix l ef live_only X s')
    \<and> layer_grows s s' \<and> layer_visited s' = (layer_visited s)[n := True]"
proof -
  let ?c = "cand_of ix q n" and ?g = "hnsw_graph ix" and ?b = "hnsw_is_better (hnsw_ids ix)"
  let ?V = "(layer_visited s)[n := True]"
  have lt: "n < length ?g" "n < length (layer_visited s)"
    using n inv by (auto simp: on_layer_def layer_inv_def)
  have c: "cand_ok ix q l ?V ?c" using n lt by (simp add: cand_ok_def)
  have old: "\<forall>c\<in>set (layer_pending s) \<union> set (layer_best s). cand_ok ix q l ?V c"
    using inv cand_ok_visit by (auto simp: layer_inv_def)
  have "n \<notin> cand_node ` set (layer_best s)"
    using inv n(2) by (auto simp: layer_inv_def cand_ok_def)
  then have dist: "distinct (map cand_node (?c # layer_best s))" using inv by (simp add: layer_inv_def)
  have len: "length (layer_best s) \<le> ef" using inv by (simp add: layer_inv_def)
  have "\<exists>a. layer_admits (hnsw_ids ix) ef ?c (layer_best s) = Inr a \<and> (length (layer_best s) < ef \<longrightarrow> a)"
    using ef by (cases "layer_best s") (auto simp: layer_admits_def read_at_def)
  then obtain a where a: "layer_admits (hnsw_ids ix) ef ?c (layer_best s) = Inr a"
    "length (layer_best s) < ef \<longrightarrow> a" by blast
  show ?thesis
  proof (cases a)
    case False
    then have full: "\<not> length (layer_best s) < ef" using a by simp
    have "layer_accept ix ef live_only ?c s1 = Inr s1"
      using a False by (simp add: layer_accept_def s1_def)
    moreover have "layer_inv ix q l ef live_only s1" using inv old by (simp add: layer_inv_def s1_def)
    moreover have "layer_closed ix l ef live_only X s1" using full by (simp add: layer_closed_def s1_def)
    moreover have "layer_grows s s1" using lt by (auto simp: layer_grows_def s1_def nth_list_update)
    ultimately show ?thesis by (intro exI [of _ s1]) (simp add: s1_def)
  next
    case True
    define best' where "best' = (if wanted ix live_only n then push_bounded ?b ef ?c (layer_best s)
      else layer_best s)"
    define pending' where "pending' = pq_push (\<lambda>a b. ?b b a) ?c (layer_pending s)"
    define s' where "s' = s1\<lparr>layer_pending := pending', layer_best := best'\<rparr>"
    have eq: "layer_accept ix ef live_only ?c s1 = Inr s'"
      using a(1) True lt
      by (simp add: layer_accept_def s'_def s1_def best'_def pending'_def wanted_def)
    have sub: "mset best' \<subseteq># mset (?c # layer_best s)"
      using mset_push_bounded [of ?b ef ?c "layer_best s"] by (simp add: best'_def)
    then have set': "set best' \<subseteq> insert ?c (set (layer_best s))"
      using set_mset_mono [OF sub] by simp
    have "mset (map cand_node best') \<subseteq># mset (map cand_node (?c # layer_best s))"
      using sub by (metis image_mset_subseteq_mono mset_map)
    then have dist': "distinct (map cand_node best')" using dist by (rule distinct_submset)
    have len': "length best' \<le> ef" "length (layer_best s) \<le> length best'"
      using length_push_bounded [OF len, of ?b ?c] len by (auto simp: best'_def)
    have "layer_inv ix q l ef live_only s'"
      unfolding layer_inv_def
      using inv old c set' dist' len'(1) by (auto simp: s'_def s1_def pending'_def best'_def layer_inv_def)
    moreover have "layer_closed ix l ef live_only X s'" if closed: "layer_closed ix l ef live_only X s"
      unfolding layer_closed_def
    proof (intro impI allI)
      fix v
      assume room: "length (layer_best s') < ef" and v: "v < length ?g" "layer_visited s' ! v"
      have room': "length (layer_best s) < ef" using room len' by (simp add: s'_def)
      have best: "set best' = (if wanted ix live_only n then insert ?c (set (layer_best s))
          else set (layer_best s))"
        using push_bounded_room [OF room', of ?b ?c] by (simp add: best'_def)
      have mono: "layer_visited s ! w \<Longrightarrow> layer_visited s' ! w" for w
        using lt by (cases "w = n") (simp_all add: s'_def s1_def)
      show "(v \<in> X \<or> v \<in> cand_node ` set (layer_pending s')
             \<or> (\<forall>w\<in>set (edges ?g v l). layer_visited s' ! w))
        \<and> (wanted ix live_only v \<longrightarrow> v \<in> cand_node ` set (layer_best s'))"
      proof (cases "v = n")
        case True
        then show ?thesis by (auto simp: s'_def s1_def pending'_def best image_iff)
      next
        case False
        then have "layer_visited s ! v" using v by (simp add: s'_def s1_def)
        then have "(v \<in> X \<or> v \<in> cand_node ` set (layer_pending s)
             \<or> (\<forall>w\<in>set (edges ?g v l). layer_visited s ! w))
          \<and> (wanted ix live_only v \<longrightarrow> v \<in> cand_node ` set (layer_best s))"
          using closed room' v(1) by (simp add: layer_closed_def)
        then show ?thesis using mono by (auto simp: s'_def pending'_def best)
      qed
    qed
    moreover have "layer_grows s s'" using lt len' by (auto simp: layer_grows_def s'_def s1_def nth_list_update)
    ultimately show ?thesis using eq by (intro exI [of _ s']) (simp add: s'_def s1_def)
  qed
qed

lemma layer_probe_inv [simp]:
  "layer_inv ix q l ef live_only (s\<lparr>layer_probe := p\<rparr>) = layer_inv ix q l ef live_only s"
  "layer_closed ix l ef live_only X (s\<lparr>layer_probe := p\<rparr>) = layer_closed ix l ef live_only X s"
  "layer_grows s (s'\<lparr>layer_probe := p\<rparr>) = layer_grows s s'"
  by (simp_all add: layer_inv_def layer_closed_def layer_grows_def)

lemma layer_grows_refl [simp]: "layer_grows s s"
  by (simp add: layer_grows_def)

lemma layer_visit_wf:
  assumes "storage_ok ix" "0 < ef" "\<forall>n\<in>set ns. on_layer (hnsw_graph ix) l n"
    and "layer_inv ix q l ef live_only s"
  shows "case layer_visit ix q ef live_only ctx env ns s of
      Inl e \<Rightarrow> stopped ctx env e
    | Inr s' \<Rightarrow> layer_inv ix q l ef live_only s'
        \<and> (layer_closed ix l ef live_only X s \<longrightarrow> layer_closed ix l ef live_only X s')
        \<and> layer_grows s s' \<and> (\<forall>n\<in>set ns. layer_visited s' ! n)"
  using assms(3,4)
proof (induction ns arbitrary: s)
  case (Cons n ns)
  have n: "on_layer (hnsw_graph ix) l n" "n < length (layer_visited s)" "n < length (hnsw_graph ix)"
    using Cons.prems by (auto simp: layer_inv_def on_layer_def)
  show ?case
  proof (cases "checkpoint ctx env (layer_probe s)")
    case (Inl e)
    then show ?thesis by (auto dest: checkpoint_stopped)
  next
    case (Inr p)
    show ?thesis
    proof (cases "layer_visited s ! n")
      case True
      have "case layer_visit ix q ef live_only ctx env ns (s\<lparr>layer_probe := p\<rparr>) of
          Inl e \<Rightarrow> stopped ctx env e
        | Inr s' \<Rightarrow> layer_inv ix q l ef live_only s'
            \<and> (layer_closed ix l ef live_only X s \<longrightarrow> layer_closed ix l ef live_only X s')
            \<and> layer_grows s s' \<and> (\<forall>n\<in>set ns. layer_visited s' ! n)"
        using Cons.IH [of "s\<lparr>layer_probe := p\<rparr>"] Cons.prems
        by (simp add: layer_grows_def split: sum.splits)
      then show ?thesis using True n Inr by (auto simp: layer_grows_def split: sum.splits)
    next
      case False
      obtain s1 where s1: "layer_accept ix ef live_only (cand_of ix q n)
          (s\<lparr>layer_probe := p, layer_visited := (layer_visited s)[n := True]\<rparr>) = Inr s1"
        "layer_inv ix q l ef live_only s1"
        "layer_closed ix l ef live_only X s \<longrightarrow> layer_closed ix l ef live_only X s1"
        "layer_grows s s1" "layer_visited s1 = (layer_visited s)[n := True]"
        using layer_accept_wf [OF Cons.prems(2) assms(2) n(1) False] by blast
      have IH: "case layer_visit ix q ef live_only ctx env ns s1 of
          Inl e \<Rightarrow> stopped ctx env e
        | Inr s' \<Rightarrow> layer_inv ix q l ef live_only s'
            \<and> (layer_closed ix l ef live_only X s1 \<longrightarrow> layer_closed ix l ef live_only X s')
            \<and> layer_grows s1 s' \<and> (\<forall>n\<in>set ns. layer_visited s' ! n)"
        using Cons.IH [OF _ s1(2)] Cons.prems by simp
      have "layer_visited s1 ! n" "n < length (layer_visited s1)" using n s1(5) by simp_all
      then have "layer_grows s1 s' \<Longrightarrow> layer_visited s' ! n" for s' by (simp add: layer_grows_def)
      then show ?thesis
        using False n Inr assms(1) s1 IH layer_grows_trans [OF s1(4)]
        by (auto split: sum.splits)
    qed
  qed
qed (auto simp: layer_grows_def)

lemma layer_loop_wf:
  assumes "storage_ok ix" "graph_wf (hnsw_graph ix)" "0 < ef"
    and "layer_inv ix q l ef live_only s" "layer_closed ix l ef live_only {} s"
  shows "case layer_loop ix q ef l live_only ctx env s of
      Inl e \<Rightarrow> stopped ctx env e
    | Inr s' \<Rightarrow> layer_inv ix q l ef live_only s' \<and> layer_grows s s'
        \<and> (length (layer_best s') < ef \<longrightarrow>
             layer_closed ix l ef live_only {} s' \<and> layer_pending s' = [])"
  using assms
proof (induction ix q ef l live_only ctx env s rule: layer_loop.induct)
  case (1 ix q ef l live_only ctx env s)
  let ?g = "hnsw_graph ix"
  show ?case
  proof (cases "layer_pending s")
    case Nil
    then show ?thesis using 1 by (subst layer_loop.simps) simp
  next
    case (Cons current pending)
    have cur: "on_layer ?g l (cand_node current)" using 1 Cons by (simp add: layer_inv_def cand_ok_def)
    have ns: "\<forall>v\<in>set (edges ?g (cand_node current) l). on_layer ?g l v"
      using 1(3) cur by (auto dest: graph_wf_edge)
    show ?thesis
    proof (cases "checkpoint ctx env (layer_probe s)")
      case (Inl e)
      then show ?thesis by (subst layer_loop.simps) (auto simp: Cons dest: checkpoint_stopped)
    next
      case (Inr p)
      have "\<exists>stop. layer_finished (hnsw_ids ix) ef current (layer_best s) = Inr stop
          \<and> (stop \<longrightarrow> ef \<le> length (layer_best s))"
        using 1(4) by (cases "layer_best s") (auto simp: layer_finished_def read_at_def)
      then obtain stop where stop: "layer_finished (hnsw_ids ix) ef current (layer_best s) = Inr stop"
        "stop \<longrightarrow> ef \<le> length (layer_best s)" by blast
      show ?thesis
      proof (cases stop)
        case True
        then show ?thesis using 1 stop by (subst layer_loop.simps) (simp add: Cons Inr)
      next
        case False
        let ?s = "s\<lparr>layer_pending := pending, layer_probe := p\<rparr>"
        have inv: "layer_inv ix q l ef live_only ?s" using 1(5) by (simp add: layer_inv_def Cons)
        have closed: "layer_closed ix l ef live_only {cand_node current} ?s"
          using 1(6) by (auto simp: layer_closed_def Cons)
        note visit = layer_visit_wf [OF 1(2,4) ns inv, where ctx = ctx and env = env
            and X = "{cand_node current}"]
        show ?thesis
        proof (cases "layer_visit ix q ef live_only ctx env (edges ?g (cand_node current) l) ?s")
          case (Inl e)
          then show ?thesis using visit stop False cur
            by (subst layer_loop.simps) (simp add: Cons \<open>checkpoint _ _ _ = _\<close>)
        next
          case Inr': (Inr s')
          have s': "layer_inv ix q l ef live_only s'" "layer_closed ix l ef live_only {cand_node current} s'"
            "layer_grows s s'" "\<forall>v\<in>set (edges ?g (cand_node current) l). layer_visited s' ! v"
            using visit closed by (auto simp: Inr' layer_grows_def)
          have "layer_closed ix l ef live_only {} s'" using s'(2,4) by (auto simp: layer_closed_def)
          note IH = 1(1) [OF Cons Inr stop(1) False neighbors_at_wf [OF cur] Inr' 1(2,3,4) s'(1) this]
          have "layer_loop ix q ef l live_only ctx env s = layer_loop ix q ef l live_only ctx env s'"
            using stop False cur
            by (subst layer_loop.simps) (simp add: Cons Inr Inr')
          then show ?thesis using IH layer_grows_trans [OF s'(3)] by (auto split: sum.splits)
        qed
      qed
    qed
  qed
qed

text \<open>The nodes a walk along the edges of a layer can reach.\<close>

definition layer_reach :: "hnsw_node list \<Rightarrow> nat \<Rightarrow> (nat \<times> nat) set" where
  "layer_reach g l = {(u, v). v \<in> set (edges g u l)}\<^sup>*"

lemma layer_reach_closed:
  assumes "(u, v) \<in> layer_reach g l" "P u" "\<And>x y. P x \<Longrightarrow> y \<in> set (edges g x l) \<Longrightarrow> P y"
  shows "P v"
  using assms(1,2) unfolding layer_reach_def
  by (induction rule: rtrancl_induct) (auto intro: assms(3))

lemma search_layer_wf:
  assumes "storage_ok ix" "scores_ok ix" "graph_wf (hnsw_graph ix)" "query_ok ix q"
    and "0 < ef" "on_layer (hnsw_graph ix) l entry"
  shows "case search_layer ix q entry ef l live_only ctx env n of
      Inl e \<Rightarrow> stopped ctx env e
    | Inr (cs, n') \<Rightarrow> \<exists>nodes. cs = map (cand_of ix q) nodes \<and> distinct nodes
        \<and> sorted_wrt (hnsw_is_better (hnsw_ids ix)) cs \<and> length cs \<le> ef
        \<and> (\<forall>v\<in>set nodes. on_layer (hnsw_graph ix) l v \<and> wanted ix live_only v)
        \<and> (\<not> live_only \<longrightarrow> nodes \<noteq> [])
        \<and> (length cs < ef \<longrightarrow> (\<forall>v. (entry, v) \<in> layer_reach (hnsw_graph ix) l \<longrightarrow>
             wanted ix live_only v \<longrightarrow> v \<in> set nodes))"
proof (cases "check ctx env n")
  case (Inl e)
  then show ?thesis by (auto simp: search_layer_def dest: check_stopped)
next
  case (Inr n1)
  let ?g = "hnsw_graph ix" and ?c = "cand_of ix q entry"
  let ?best = "if wanted ix live_only entry then [?c] else []"
  define s where "s = \<lparr>layer_pending = [?c], layer_best = ?best,
      layer_visited = (replicate (length ?g) False)[entry := True], layer_probe = (0, n1)\<rparr>"
  have lt: "entry < length ?g" using assms(6) by (simp add: on_layer_def)
  have inv: "layer_inv ix q l ef live_only s"
    using assms(5,6) lt by (auto simp: layer_inv_def s_def cand_ok_def)
  have closed: "layer_closed ix l ef live_only {} s"
    using lt by (auto simp: layer_closed_def s_def nth_list_update)
  have eq: "search_layer ix q entry ef l live_only ctx env n =
      and_then (layer_loop ix q ef l live_only ctx env s) (\<lambda>s.
        and_then (drain ctx env (layer_best s) (layer_probe s) []) (\<lambda>(p, out).
          Inr (sort_by (hnsw_is_better (hnsw_ids ix)) out, snd p)))"
    using lt assms(1) by (simp add: search_layer_def Inr s_def wanted_def)
  note loop = layer_loop_wf [OF assms(1,3,5) inv closed, where ctx = ctx and env = env]
  show ?thesis
  proof (cases "layer_loop ix q ef l live_only ctx env s")
    case (Inl e)
    then show ?thesis using loop by (simp add: eq)
  next
    case Inr': (Inr t)
    define nodes where "nodes = map cand_node (layer_best t)"
    have t: "layer_inv ix q l ef live_only t" "layer_grows s t"
      and full: "length (layer_best t) < ef \<Longrightarrow> layer_closed ix l ef live_only {} t \<and> layer_pending t = []"
      using loop by (auto simp: Inr')
    have best: "layer_best t = map (cand_of ix q) nodes"
      using t(1) by (auto simp: nodes_def layer_inv_def cand_ok_def intro!: map_idI [symmetric])
    have nodes: "distinct nodes" "length nodes \<le> ef"
      "\<forall>v\<in>set nodes. on_layer ?g l v \<and> wanted ix live_only v"
      using t(1) by (auto simp: nodes_def layer_inv_def cand_ok_def)
    have reach: "v \<in> set nodes"
      if short: "length nodes < ef" and v: "(entry, v) \<in> layer_reach ?g l" "wanted ix live_only v" for v
    proof -
      have closed: "layer_closed ix l ef live_only {} t" "layer_pending t = []"
        and room: "length (layer_best t) < ef"
        using full short by (auto simp: nodes_def)
      have "on_layer ?g l v \<and> layer_visited t ! v"
        using v(1)
      proof (rule layer_reach_closed)
        show "on_layer ?g l entry \<and> layer_visited t ! entry"
          using t(2) lt assms(6) by (auto simp: layer_grows_def s_def)
      next
        fix x y
        assume x: "on_layer ?g l x \<and> layer_visited t ! x" and y: "y \<in> set (edges ?g x l)"
        then have "x < length ?g" by (simp add: on_layer_def)
        then have "layer_visited t ! y"
          using closed room x y by (simp add: layer_closed_def)
        then show "on_layer ?g l y \<and> layer_visited t ! y"
          using graph_wf_edge(1) [OF assms(3)] x y by blast
      qed
      then show ?thesis
        using closed(1) room v(2) by (auto simp: layer_closed_def nodes_def on_layer_def)
    qed
    have rank: "hnsw_rank.rankable (hnsw_ids ix) (layer_best t)"
      unfolding best using nodes by (intro cands_rankable assms) (auto simp: on_layer_def)
    show ?thesis
    proof (cases "drain ctx env (layer_best t) (layer_probe t) []")
      case (Inl e)
      then show ?thesis by (auto simp: eq Inr' dest: drain_stopped)
    next
      case drained: (Inr r)
      obtain p out where r: "r = (p, out)" by (cases r)
      have out: "out = layer_best t" using drain_Inr drained r by fastforce
      define order where "order = map cand_node (sort_by (hnsw_is_better (hnsw_ids ix)) out)"
      have m: "mset order = mset nodes" by (simp add: order_def out nodes_def)
      then have order: "set order = set nodes" "distinct order" "length order = length nodes"
        using nodes(1) by (metis set_mset_mset, metis mset_eq_imp_distinct_iff, metis size_mset)
      have sorted: "sort_by (hnsw_is_better (hnsw_ids ix)) out = map (cand_of ix q) order"
        unfolding order_def using best by (auto simp: out intro!: map_idI [symmetric])
      have "sorted_wrt (hnsw_is_better (hnsw_ids ix)) (map (cand_of ix q) order)"
        unfolding sorted [symmetric] out using rank by (rule hnsw_rank.ranked_sort_by)
      moreover have "\<not> live_only \<Longrightarrow> order \<noteq> []"
        using t(2) order(3) by (auto simp: layer_grows_def s_def wanted_def nodes_def)
      ultimately show ?thesis
        using nodes reach order
        by (simp add: eq Inr' drained r sorted) (intro exI [of _ order], simp)
    qed
  qed
qed

section \<open>Search\<close>

definition result_of :: "hnsw_index \<Rightarrow> f32 list \<Rightarrow> nat \<Rightarrow> search_result" where
  "result_of ix q v =
     \<lparr>result_id = hnsw_ids ix ! v, result_score = cand_score (cand_of ix q v)\<rparr>"

lemma is_better_result_of:
  "is_better (result_of ix q u) (result_of ix q v) \<longleftrightarrow>
     hnsw_is_better (hnsw_ids ix) (cand_of ix q u) (cand_of ix q v)"
  by (simp add: is_better_def hnsw_is_better_def result_of_def)

lemma collect_results_wf:
  assumes "storage_ok ix" "\<forall>v\<in>set nodes. v < length (hnsw_graph ix)"
  shows "case collect_results ix ctx env (map (cand_of ix q) nodes) p out of
      Inl e \<Rightarrow> stopped ctx env e
    | Inr (rs, p') \<Rightarrow> rs = out @ map (result_of ix q) nodes"
  using assms(2)
proof (induction nodes arbitrary: p out)
  case (Cons v nodes)
  show ?case
  proof (cases "checkpoint ctx env p")
    case (Inl e)
    then show ?thesis by (auto dest: checkpoint_stopped)
  next
    case (Inr p1)
    then show ?thesis
      using Cons.IH [where p = p1 and out = "out @ [result_of ix q v]"] Cons.prems assms(1)
      by (auto simp: storage_ok_def result_of_def split: sum.splits)
  qed
qed simp

lemma hnsw_query_ok:
  assumes "hnsw_wf ix" "normalize_l2 query = Inr q" "length query = cfg_dimension (hnsw_config ix)"
  shows "query_ok ix q"
proof -
  have "length query < 2 ^ 53"
    using assms score_dimension_le [of "cfg_kernel (hnsw_config ix)"]
    by (simp add: hnsw_wf_def scores_ok_def)
  then show ?thesis
    using assms normalize_l2_unit_components by (simp add: query_ok_def length_normalize_l2)
qed

definition live_nodes :: "hnsw_index \<Rightarrow> nat list" where
  "live_nodes ix = filter (wanted ix True) [0..<length (hnsw_graph ix)]"

lemma set_live_nodes: "set (live_nodes ix) = {v. v < length (hnsw_graph ix) \<and> wanted ix True v}"
  by (auto simp: live_nodes_def)

lemma length_live_nodes: "hnsw_wf ix \<Longrightarrow> length (live_nodes ix) = hnsw_size ix"
proof -
  assume wf: "hnsw_wf ix"
  let ?g = "hnsw_graph ix"
  have "filter node_deleted ?g = map (\<lambda>v. ?g ! v) (filter (\<lambda>v. node_deleted (?g ! v)) [0..<length ?g])"
    by (metis filter_map map_nth comp_def filter_cong)
  then have "deleted_nodes ?g = length (filter (\<lambda>v. node_deleted (?g ! v)) [0..<length ?g])"
    by (simp add: deleted_nodes_def)
  moreover have "length (live_nodes ix) + length (filter (\<lambda>v. node_deleted (?g ! v)) [0..<length ?g])
      = length ?g"
    using sum_length_filter_compl [of "wanted ix True" "[0..<length ?g]"]
    by (simp add: live_nodes_def wanted_def)
  ultimately show ?thesis using wf by (simp add: hnsw_wf_def storage_ok_def hnsw_size_def)
qed

lemma live_abs:
  assumes "hnsw_wf ix" "v < length (hnsw_graph ix)" "wanted ix True v"
  shows "hnsw_abs ix (hnsw_ids ix ! v) =
    Some (row_of (cfg_dimension (hnsw_config ix)) (hnsw_vectors ix) v)"
proof -
  have "hnsw_id_to_node ix (hnsw_ids ix ! v) = Some v"
    using assms by (simp add: hnsw_wf_def storage_ok_def)
  then show ?thesis using assms(3) by (simp add: hnsw_abs_def wanted_def)
qed

lemma abs_live:
  assumes "hnsw_wf ix" "hnsw_abs ix vid = Some r"
  obtains v where "v \<in> set (live_nodes ix)" "hnsw_ids ix ! v = vid"
    "r = row_of (cfg_dimension (hnsw_config ix)) (hnsw_vectors ix) v"
  using assms by (auto simp: hnsw_abs_def set_live_nodes wanted_def hnsw_wf_def storage_ok_def
      split: option.splits if_splits)

text \<open>The nodes behind the results: ranked, live, and all reachable ones when they are few.\<close>

lemma hnsw_search_nodes:
  assumes wf: "hnsw_wf ix" and args: "check_interval ctx \<noteq> 0" "k \<noteq> 0" "ef \<noteq> 0"
    and q: "length query = cfg_dimension (hnsw_config ix)" "normalize_l2 query = Inr q"
  shows "case hnsw_search_ef ix query k ef ctx env of
      Inl e \<Rightarrow> stopped ctx env e
    | Inr rs \<Rightarrow> \<exists>nodes entry. rs = map (result_of ix q) (take (min k (hnsw_size ix)) nodes)
        \<and> distinct nodes \<and> set nodes \<subseteq> set (live_nodes ix)
        \<and> sorted_wrt (hnsw_is_better (hnsw_ids ix)) (map (cand_of ix q) nodes)
        \<and> (hnsw_size ix = 0 \<or> on_layer (hnsw_graph ix) 0 entry
          \<and> (length nodes < max (min k (hnsw_size ix)) ef \<longrightarrow>
              (\<forall>v\<in>set (live_nodes ix). (entry, v) \<in> layer_reach (hnsw_graph ix) 0 \<longrightarrow> v \<in> set nodes)))"
proof (cases "check ctx env 0")
  case (Inl e)
  then show ?thesis using args
    by (auto simp: hnsw_search_ef_def validate_context_def dest: check_stopped)
next
  case (Inr n)
  let ?g = "hnsw_graph ix" and ?m = "hnsw_max_level ix"
  have ok: "storage_ok ix" "scores_ok ix" "graph_wf ?g" "entry_ok ix"
    using wf by (simp_all add: hnsw_wf_def)
  have qok: "query_ok ix q" using wf q by (intro hnsw_query_ok)
  show ?thesis
  proof (cases "hnsw_size ix = 0")
    case True
    then have "hnsw_search_ef ix query k ef ctx env = Inr []"
      using args q Inr by (simp add: hnsw_search_ef_def validate_context_def)
    then show ?thesis using True by (auto intro!: exI [of _ "[] :: nat list"])
  next
    case False
    then have "?g \<noteq> []" using ok by (auto simp: storage_ok_def hnsw_size_def)
    then have top: "on_layer ?g ?m (hnsw_entry ix)" using ok(4) by (simp add: entry_ok_def)
    note down = descend_wf [OF ok(1,3) top, where q = q and ctx = ctx and env = env and stop = 0 and n = n]
    show ?thesis
    proof (cases "descend ix q ctx env 0 ?m (hnsw_entry ix) n")
      case (Inl e)
      then show ?thesis using down args q False Inr
        by (simp add: hnsw_search_ef_def validate_context_def)
    next
      case desc: (Inr r)
      obtain entry n' where r: "r = (entry, n')" by (cases r)
      have entry: "on_layer ?g 0 entry" using down by (simp add: desc r)
      let ?rc = "min k (hnsw_size ix)"
      let ?ef = "max ?rc ef"
      have ef: "0 < ?ef" using args by simp
      note layer = search_layer_wf [OF ok(1-3) qok ef entry, where live_only = True and ctx = ctx
          and env = env and n = n']
      have eq: "hnsw_search_ef ix query k ef ctx env =
          and_then (search_layer ix q entry ?ef 0 True ctx env n') (\<lambda>(candidates, n).
          and_then (collect_results ix ctx env (take ?rc candidates) (0, n) []) (\<lambda>(results, p).
          and_then (check ctx env (snd p)) (\<lambda>_. Inr results)))"
        using args q False Inr desc
        by (simp add: hnsw_search_ef_def validate_context_def r Let_def)
      show ?thesis
      proof (cases "search_layer ix q entry ?ef 0 True ctx env n'")
        case (Inl e)
        then show ?thesis using layer by (simp add: eq)
      next
        case found: (Inr r')
        obtain cs n2 where r': "r' = (cs, n2)" by (cases r')
        obtain nodes where nodes: "cs = map (cand_of ix q) nodes" "distinct nodes"
          "sorted_wrt (hnsw_is_better (hnsw_ids ix)) cs"
          "\<forall>v\<in>set nodes. on_layer ?g 0 v \<and> wanted ix True v"
          "length cs < ?ef \<longrightarrow> (\<forall>v. (entry, v) \<in> layer_reach ?g 0 \<longrightarrow> wanted ix True v \<longrightarrow> v \<in> set nodes)"
          using layer by (auto simp: found r')
        have live: "set nodes \<subseteq> set (live_nodes ix)"
          using nodes(4) by (auto simp: set_live_nodes on_layer_def)
        have "\<forall>v\<in>set (take ?rc nodes). v < length ?g"
          using live by (auto simp: set_live_nodes dest: in_set_takeD)
        note coll = collect_results_wf [OF ok(1) this, where q = q and ctx = ctx and env = env
            and p = "(0, n2)" and out = "[]"]
        show ?thesis
        proof (cases "collect_results ix ctx env (take ?rc cs) (0, n2) []")
          case (Inl e)
          then show ?thesis using coll by (simp add: eq found r' nodes(1) take_map)
        next
          case collected: (Inr r'')
          obtain rs p where r'': "r'' = (rs, p)" by (cases r'')
          have rs: "rs = map (result_of ix q) (take ?rc nodes)"
            using coll collected by (simp add: nodes(1) take_map r'')
          show ?thesis
          proof (cases "check ctx env (snd p)")
            case (Inl e)
            then show ?thesis by (auto simp: eq found r' collected r'' dest: check_stopped)
          next
            case (Inr n3)
            have res: "hnsw_search_ef ix query k ef ctx env = Inr rs"
              by (simp add: eq found r' collected r'' Inr)
            have few: "length nodes < ?ef \<Longrightarrow>
                \<forall>v\<in>set (live_nodes ix). (entry, v) \<in> layer_reach ?g 0 \<longrightarrow> v \<in> set nodes"
              using nodes(5) by (auto simp: nodes(1) set_live_nodes)
            show ?thesis
              unfolding res sum.case
              by (intro exI [of _ nodes] exI [of _ entry] conjI disjI2 impI)
                (use rs nodes(2,3) live entry few in \<open>simp_all add: nodes(1) del: max_less_iff_conj\<close>)
          qed
        qed
      qed
    qed
  qed
qed

lemma results_rankable:
  assumes "hnsw_wf ix" "query_ok ix q" "distinct nodes" "set nodes \<subseteq> set (live_nodes ix)"
  shows "flat_rank.rankable (map (result_of ix q) nodes)"
proof -
  have "hnsw_rank.rankable (hnsw_ids ix) (map (cand_of ix q) nodes)"
    using assms by (intro cands_rankable) (auto simp: hnsw_wf_def set_live_nodes)
  then show ?thesis
    by (auto simp: flat_rank.rankable_def hnsw_rank.rankable_def comp_def result_of_def has_score_def
        cand_valid_def cong: map_cong)
qed

definition connected_base :: "hnsw_index \<Rightarrow> bool" where
  "connected_base ix \<longleftrightarrow>
     (\<forall>u < length (hnsw_graph ix). \<forall>v < length (hnsw_graph ix). (u, v) \<in> layer_reach (hnsw_graph ix) 0)"

definition live_results :: "hnsw_index \<Rightarrow> f32 list \<Rightarrow> search_result list" where
  "live_results ix q = map (result_of ix q) (live_nodes ix)"

lemma hnsw_search_exhaustive:
  assumes wf: "hnsw_wf ix" and args: "check_interval ctx \<noteq> 0" "k \<noteq> 0" "ef \<noteq> 0" "quiet ctx env"
    and q: "length query = cfg_dimension (hnsw_config ix)" "normalize_l2 query = Inr q"
    and big: "hnsw_size ix \<le> ef" and conn: "connected_base ix"
  shows "hnsw_search_ef ix query k ef ctx env = Inr (take k (sort_by is_better (live_results ix q)))"
proof -
  obtain rs where rs: "hnsw_search_ef ix query k ef ctx env = Inr rs"
    using hnsw_search_nodes [OF wf args(1-3) q, where env = env] args(4)
    by (auto simp: stopped_def split: sum.splits)
  then obtain nodes entry where nodes: "rs = map (result_of ix q) (take (min k (hnsw_size ix)) nodes)"
    "distinct nodes" "set nodes \<subseteq> set (live_nodes ix)"
    "sorted_wrt (hnsw_is_better (hnsw_ids ix)) (map (cand_of ix q) nodes)"
    and few: "hnsw_size ix = 0 \<or> on_layer (hnsw_graph ix) 0 entry
          \<and> (length nodes < max (min k (hnsw_size ix)) ef \<longrightarrow>
              (\<forall>v\<in>set (live_nodes ix). (entry, v) \<in> layer_reach (hnsw_graph ix) 0 \<longrightarrow> v \<in> set nodes))"
    using hnsw_search_nodes [OF wf args(1-3) q, where env = env] by auto
  have live: "distinct (live_nodes ix)" "length (live_nodes ix) = hnsw_size ix"
    using length_live_nodes [OF wf] by (simp_all add: live_nodes_def)
  have "set (live_nodes ix) \<subseteq> set nodes"
  proof (cases "hnsw_size ix = 0 \<or> length nodes < max (min k (hnsw_size ix)) ef")
    case True
    then show ?thesis
    proof
      assume "hnsw_size ix = 0"
      then show ?thesis using live by simp
    next
      assume less: "length nodes < max (min k (hnsw_size ix)) ef"
      show ?thesis
      proof (cases "hnsw_size ix = 0")
        case True
        then show ?thesis using live by simp
      next
        case False
        then show ?thesis
          using few less conn by (auto simp: connected_base_def set_live_nodes on_layer_def)
      qed
    qed
  next
    case False
    then have "length (live_nodes ix) \<le> length nodes" using big live by linarith
    then have "card (set (live_nodes ix)) \<le> card (set nodes)"
      using live(1) nodes(2) by (simp add: distinct_card)
    then show ?thesis using nodes(3) by (metis List.finite_set card_seteq)
  qed
  then have "mset nodes = mset (live_nodes ix)"
    using nodes(2,3) live(1) by (metis set_eq_iff_mset_eq_distinct subset_antisym)
  then have m: "mset (map (result_of ix q) nodes) = mset (live_results ix q)"
    and len: "length nodes = hnsw_size ix"
    using live(2) by (simp_all add: live_results_def) (metis size_mset)
  have "sorted_wrt is_better (map (result_of ix q) nodes)"
    using nodes(4) by (simp add: sorted_wrt_map is_better_result_of)
  moreover have "flat_rank.rankable (live_results ix q)"
    unfolding live_results_def
    using wf hnsw_query_ok [OF wf q(2,1)] live(1) by (intro results_rankable) simp_all
  ultimately have "sort_by is_better (live_results ix q) = map (result_of ix q) nodes"
    using m by (intro flat_rank.sort_by_eqI)
  then show ?thesis by (simp add: rs nodes(1) take_map len [symmetric] min_def)
qed

lemma live_results_set:
  assumes "hnsw_wf ix"
  shows "set (live_results ix q) =
    {\<lparr>result_id = vid, result_score = raw_dot_product (cfg_kernel (hnsw_config ix)) q v\<rparr> |
       vid v. hnsw_abs ix vid = Some v}"
    (is "_ = ?A")
proof
  show "set (live_results ix q) \<subseteq> ?A"
    using live_abs [OF assms]
    by (auto simp: live_results_def set_live_nodes result_of_def cand_of_def)
  show "?A \<subseteq> set (live_results ix q)"
  proof
    fix r assume "r \<in> ?A"
    then obtain vid v where v: "hnsw_abs ix vid = Some v"
      and r: "r = \<lparr>result_id = vid, result_score = raw_dot_product (cfg_kernel (hnsw_config ix)) q v\<rparr>"
      by blast
    from assms v obtain n where "n \<in> set (live_nodes ix)" "hnsw_ids ix ! n = vid"
      "v = row_of (cfg_dimension (hnsw_config ix)) (hnsw_vectors ix) n" by (rule abs_live)
    then show "r \<in> set (live_results ix q)"
      by (auto simp: live_results_def r result_of_def cand_of_def image_iff)
  qed
qed

lemma hnsw_search_facts:
  assumes "hnsw_wf ix" "check_interval ctx \<noteq> 0" "ef \<noteq> 0"
    and "length query = cfg_dimension (hnsw_config ix)" "normalize_l2 query = Inr q"
  shows "case hnsw_search_ef ix query k ef ctx env of
      Inl e \<Rightarrow> \<not> quiet ctx env \<and> (\<exists>r. e = Search_interrupted r \<and> r \<noteq> NoReason)
    | Inr rs \<Rightarrow> sorted_wrt is_better rs \<and> distinct (map result_id rs)
        \<and> length rs \<le> min k (hnsw_size ix)
        \<and> (\<forall>r\<in>set rs. \<exists>v. hnsw_abs ix (result_id r) = Some v
             \<and> result_score r = raw_dot_product (cfg_kernel (hnsw_config ix)) q v)"
proof (cases "k = 0")
  case True
  then show ?thesis using assms(2)
    by (cases "check ctx env 0") (auto simp: hnsw_search_ef_def validate_context_def stopped_def
        is_interruption_def dest: check_stopped)
next
  case False
  note spec = hnsw_search_nodes [OF assms(1,2) False assms(3,4,5), where env = env]
  show ?thesis
  proof (cases "hnsw_search_ef ix query k ef ctx env")
    case (Inl e)
    then show ?thesis using spec by (simp add: stopped_def is_interruption_def)
  next
    case (Inr rs)
    let ?rc = "min k (hnsw_size ix)"
    obtain nodes where nodes: "rs = map (result_of ix q) (take ?rc nodes)" "distinct nodes"
      "set nodes \<subseteq> set (live_nodes ix)"
      "sorted_wrt (hnsw_is_better (hnsw_ids ix)) (map (cand_of ix q) nodes)"
      using spec by (auto simp: Inr)
    have "sorted_wrt is_better (map (result_of ix q) nodes)"
      using nodes(4) by (simp add: sorted_wrt_map is_better_result_of)
    then have "sorted_wrt is_better rs"
      unfolding nodes(1) take_map [symmetric] by (rule sorted_wrt_take)
    moreover have "flat_rank.rankable rs"
      unfolding nodes(1)
      using nodes hnsw_query_ok [OF assms(1,5,4)] assms(1)
      by (intro results_rankable) (auto dest: in_set_takeD)
    moreover have "set rs \<subseteq> set (live_results ix q)"
      using nodes(3) by (auto simp: nodes(1) live_results_def dest: in_set_takeD)
    ultimately show ?thesis
      using live_results_set [OF assms(1), of q] Inr
      by (auto simp: flat_rank.rankable_def nodes(1))
  qed
qed

text \<open>C7: a search of the approximate index with valid arguments either is interrupted, or
  returns at most \<open>min k\<close> of the live count many results that are ranked best first, have
  distinct IDs and are live stored vectors with their true similarities; tombstones never
  show. It always terminates and reads no array out of range.\<close>

theorem hnsw_search_sound:
  assumes "hnsw_wf ix" "check_interval ctx \<noteq> 0" "ef \<noteq> 0"
    and "length query = cfg_dimension (hnsw_config ix)" "normalize_l2 query = Inr q"
  shows "case hnsw_search_ef ix query k ef ctx env of
      Inl e \<Rightarrow> \<not> quiet ctx env \<and> (\<exists>r. e = Search_interrupted r \<and> r \<noteq> NoReason)
    | Inr rs \<Rightarrow> sorted_wrt is_better rs \<and> distinct (map result_id rs)
        \<and> length rs \<le> min k (hnsw_size ix)
        \<and> (\<forall>r\<in>set rs. \<exists>v. hnsw_abs ix (result_id r) = Some v
             \<and> result_score r = raw_dot_product (cfg_kernel (hnsw_config ix)) q v)"
  by (rule hnsw_search_facts [OF assms])

text \<open>Two live nodes and a tombstone on one layer, stored vectors 1.0, -1.0 and 1.0.\<close>

definition hnsw_sample :: hnsw_index where
  "hnsw_sample =
     \<lparr>hnsw_config = \<lparr>cfg_dimension = 1, max_connections = 2, ef_construction = 2, ef_search = 2,
        random_seed = 42, cfg_kernel = Scalar, selection = Simple\<rparr>,
      hnsw_vectors = [0x3F800000, 0xBF800000, 0x3F800000], hnsw_ids = [7, 9, 4],
      hnsw_graph = [\<lparr>node_levels = [[1, 2]], node_deleted = False\<rparr>,
        \<lparr>node_levels = [[0, 2]], node_deleted = False\<rparr>,
        \<lparr>node_levels = [[0, 1]], node_deleted = True\<rparr>],
      hnsw_id_to_node = [7 \<mapsto> 0, 9 \<mapsto> 1, 4 \<mapsto> 2], hnsw_random = mt_seed 42,
      hnsw_entry = 0, hnsw_max_level = 0, hnsw_deleted = 1\<rparr>"

lemma less_3_cases: "(u :: nat) < 3 \<Longrightarrow> u = 0 \<or> u = 1 \<or> u = 2"
  by linarith

lemma hnsw_sample_layer:
  "on_layer (hnsw_graph hnsw_sample) l u \<longleftrightarrow> l = 0 \<and> u < 3"
  by (cases "u < 3", insert less_3_cases [of u], auto simp: on_layer_def hnsw_sample_def)

lemma hnsw_sample_wf: "hnsw_wf hnsw_sample"
proof -
  have "config_ok (hnsw_config hnsw_sample)" by (simp add: config_ok_def hnsw_sample_def)
  moreover have "storage_ok hnsw_sample"
  proof -
    have "([7 \<mapsto> 0, 9 \<mapsto> 1, 4 \<mapsto> 2] :: vector_id \<rightharpoonup> nat) vid = Some i \<longleftrightarrow>
        i < 3 \<and> [7, 9, 4] ! i = vid" for vid i
      by (cases "i < 3", insert less_3_cases [of i], auto split: if_splits)
    then show ?thesis
      by (simp add: storage_ok_def hnsw_sample_def numeral_3_eq_3 del: fun_upd_apply)
  qed
  moreover have "scores_ok hnsw_sample"
    using flat_sample_inv by (simp add: scores_ok_def hnsw_sample_def score_dimension_def
        flat_inv_def flat_sample_def)
  moreover have "entry_ok hnsw_sample"
    unfolding entry_ok_def hnsw_sample_layer
    by (auto simp: hnsw_sample_def maximum_generated_level_def less_Suc_eq)
  moreover have "graph_wf (hnsw_graph hnsw_sample)"
    unfolding graph_wf_def list_ok_def hnsw_sample_layer
    by (auto simp: hnsw_sample_def edges_def less_Suc_eq numeral_3_eq_3 numeral_2_eq_2)
  moreover have "degrees_ok (maximum_connections hnsw_sample) (hnsw_graph hnsw_sample)"
    unfolding degrees_ok_def hnsw_sample_layer
    by (auto simp: hnsw_sample_def edges_def maximum_connections_def dest!: less_3_cases)
  moreover have "hnsw_deleted hnsw_sample = deleted_nodes (hnsw_graph hnsw_sample)"
    by (simp add: hnsw_sample_def deleted_nodes_def)
  ultimately show ?thesis by (simp add: hnsw_wf_def hnsw_sample_def)
qed

theorem hnsw_search_sound_witness:
  "case hnsw_search_ef hnsw_sample [0x3F800000] 5 10 default_context (\<lambda>_. (NoReason, 0)) of
     Inl e \<Rightarrow> False
   | Inr rs \<Rightarrow> sorted_wrt is_better rs \<and> length rs \<le> 2 \<and> 4 \<notin> result_id ` set rs"
proof -
  let ?e = "\<lambda>_. (NoReason, 0)"
  have "hnsw_abs hnsw_sample 4 = None" by (simp add: hnsw_abs_def hnsw_sample_def)
  moreover have "hnsw_size hnsw_sample = 2" by (simp add: hnsw_size_def hnsw_sample_def)
  moreover have "check_interval default_context \<noteq> 0" by (simp add: default_context_def)
  moreover have "length [0x3F800000 :: f32] = cfg_dimension (hnsw_config hnsw_sample)"
    by (simp add: hnsw_sample_def)
  ultimately show ?thesis
    using hnsw_search_sound [OF hnsw_sample_wf, where ctx = default_context and ef = 10
        and query = "[0x3F800000]" and q = "[0x3F800000]" and k = 5 and env = ?e]
    by (cases "hnsw_search_ef hnsw_sample [0x3F800000] 5 10 default_context ?e") auto
qed

end
