(* ===== verification/Hnsw_Insert.thy ===== *)
theory Hnsw_Insert
  imports Hnsw_Search
begin

text \<open>
  The mutating half of src/hnsw_index.cpp: insertion under a transaction that journals the
  adjacency lists it touches, pruning, and rebuilding. Every allocation is a step that may
  fail: the transaction carries a budget of allocations that still succeed (\<open>None\<close>: all).
  An exception leaves the transaction without a commit, and its destructor rolls back.
\<close>

section \<open>Transactions\<close>

text \<open>A journal entry: node, level and the adjacency list before the first change.\<close>

type_synonym backup = "nat \<times> nat \<times> nat list"

record hnsw_tx =
  tx_index :: hnsw_index
  tx_node_count :: nat
  tx_vector_count :: nat
  tx_random :: mt_state
  tx_entry :: nat
  tx_level :: nat
  tx_backups :: "backup list"
  tx_inserted :: "vector_id option"
  tx_budget :: "nat option"

definition tx_begin :: "nat option \<Rightarrow> hnsw_index \<Rightarrow> hnsw_tx" where
  "tx_begin budget ix =
     \<lparr>tx_index = ix, tx_node_count = length (hnsw_ids ix), tx_vector_count = length (hnsw_vectors ix),
      tx_random = hnsw_random ix, tx_entry = hnsw_entry ix, tx_level = hnsw_max_level ix,
      tx_backups = [], tx_inserted = None, tx_budget = budget\<rparr>"

definition set_edges :: "hnsw_node list \<Rightarrow> nat \<Rightarrow> nat \<Rightarrow> nat list \<Rightarrow> hnsw_node list" where
  "set_edges g u l ns = g[u := (g ! u)\<lparr>node_levels := (node_levels (g ! u))[l := ns]\<rparr>]"

definition restore_backups :: "backup list \<Rightarrow> hnsw_node list \<Rightarrow> hnsw_node list" where
  "restore_backups backups g = fold (\<lambda>(u, l, ns) g. set_edges g u l ns) backups g"

text \<open>The destructor of a transaction that was not committed.\<close>

definition tx_rollback :: "hnsw_tx \<Rightarrow> hnsw_index" where
  "tx_rollback tx =
     (let ix = tx_index tx in
      ix\<lparr>hnsw_graph := take (tx_node_count tx) (restore_backups (tx_backups tx) (hnsw_graph ix)),
         hnsw_id_to_node :=
           (case tx_inserted tx of None \<Rightarrow> hnsw_id_to_node ix
            | Some vid \<Rightarrow> (hnsw_id_to_node ix)(vid := None)),
         hnsw_ids := take (tx_node_count tx) (hnsw_ids ix),
         hnsw_vectors := take (tx_vector_count tx) (hnsw_vectors ix),
         hnsw_random := tx_random tx, hnsw_entry := tx_entry tx, hnsw_max_level := tx_level tx\<rparr>)"

text \<open>Steps of the insertion: the state so far is kept when a step throws.\<close>

type_synonym 'a tx_step = "hnsw_tx \<Rightarrow> hnsw_tx \<times> 'a result"

definition tx_bind :: "'a tx_step \<Rightarrow> ('a \<Rightarrow> 'b tx_step) \<Rightarrow> 'b tx_step" where
  "tx_bind m f tx = (case m tx of (tx', Inl e) \<Rightarrow> (tx', Inl e) | (tx', Inr x) \<Rightarrow> f x tx')"

definition tx_return :: "'a \<Rightarrow> 'a tx_step" where
  "tx_return x tx = (tx, Inr x)"

definition tx_lift :: "(hnsw_index \<Rightarrow> 'a result) \<Rightarrow> 'a tx_step" where
  "tx_lift f tx = (tx, f (tx_index tx))"

definition tx_update :: "(hnsw_index \<Rightarrow> hnsw_index) \<Rightarrow> unit tx_step" where
  "tx_update f tx = (tx\<lparr>tx_index := f (tx_index tx)\<rparr>, Inr ())"

definition tx_alloc :: "unit tx_step" where
  "tx_alloc tx =
     (case tx_budget tx of
        None \<Rightarrow> (tx, Inr ())
      | Some 0 \<Rightarrow> (tx, Inl Bad_alloc)
      | Some (Suc n) \<Rightarrow> (tx\<lparr>tx_budget := Some n\<rparr>, Inr ()))"

fun tx_each :: "('a \<Rightarrow> unit tx_step) \<Rightarrow> 'a list \<Rightarrow> unit tx_step" where
  "tx_each f [] = tx_return ()"
| "tx_each f (x # xs) = tx_bind (f x) (\<lambda>_. tx_each f xs)"

definition tx_remember :: "nat \<Rightarrow> nat \<Rightarrow> unit tx_step" where
  "tx_remember node level tx =
     (if tx_node_count tx \<le> node then (tx, Inr ())
      else if \<exists>b\<in>set (tx_backups tx). fst b = node \<and> fst (snd b) = level then (tx, Inr ())
      else
        tx_bind (tx_lift (\<lambda>ix. neighbors_at ix node level)) (\<lambda>ns.
        tx_bind tx_alloc (\<lambda>_ tx.
          (tx\<lparr>tx_backups := tx_backups tx @ [(node, level, ns)]\<rparr>, Inr ()))) tx)"

definition tx_insert_id :: "vector_id \<Rightarrow> nat \<Rightarrow> unit tx_step" where
  "tx_insert_id vid node =
     tx_bind tx_alloc (\<lambda>_ tx.
       let ix = tx_index tx in
       if hnsw_id_to_node ix vid \<noteq> None then
         (tx, Inl (Invalid_argument ''vector ID already exists''))
       else (tx\<lparr>tx_index := ix\<lparr>hnsw_id_to_node := (hnsw_id_to_node ix)(vid \<mapsto> node)\<rparr>,
                tx_inserted := Some vid\<rparr>, Inr ()))"

section \<open>Pruning\<close>

fun make_candidates :: "hnsw_index \<Rightarrow> f32 list \<Rightarrow> nat list \<Rightarrow> candidate list result" where
  "make_candidates ix owner [] = Inr []"
| "make_candidates ix owner (n # ns) =
     and_then (make_candidate ix owner n) (\<lambda>c.
     and_then (make_candidates ix owner ns) (\<lambda>cs. Inr (c # cs)))"

definition update_edges :: "nat \<Rightarrow> nat \<Rightarrow> (nat list \<Rightarrow> nat list) \<Rightarrow> unit tx_step" where
  "update_edges node level f =
     tx_bind (tx_lift (\<lambda>ix. neighbors_at ix node level)) (\<lambda>ns.
       tx_update (\<lambda>ix. ix\<lparr>hnsw_graph := set_edges (hnsw_graph ix) node level (f ns)\<rparr>))"

text \<open>
  The loop body over the pruned node's list. Erasing from the very list the loop iterates
  over would be undefined; it would take a self-loop.
\<close>

definition prune_one :: "nat \<Rightarrow> nat \<Rightarrow> nat list \<Rightarrow> nat \<Rightarrow> unit tx_step" where
  "prune_one node level selected previous_neighbor =
     (if previous_neighbor \<in> set selected then tx_return ()
      else
        tx_bind (tx_remember previous_neighbor level) (\<lambda>_.
        if previous_neighbor = node then tx_lift (\<lambda>_. Inl Undefined_behaviour)
        else update_edges previous_neighbor level (removeAll node)))"

definition prune_neighbors :: "nat \<Rightarrow> nat \<Rightarrow> unit tx_step" where
  "prune_neighbors node level =
     tx_bind (tx_lift (\<lambda>ix. neighbors_at ix node level)) (\<lambda>neighbors.
     tx_bind (tx_lift (\<lambda>ix. Inr (maximum_connections ix level))) (\<lambda>maximum_count.
       if length neighbors \<le> maximum_count then tx_return ()
       else
         tx_bind (tx_lift (\<lambda>ix. row_at ix node)) (\<lambda>owner.
         tx_bind tx_alloc (\<lambda>_.
         tx_bind (tx_lift (\<lambda>ix. and_then (make_candidates ix owner neighbors)
             (\<lambda>cs. Inr (sort_by (hnsw_is_better (hnsw_ids ix)) cs)))) (\<lambda>candidates.
         tx_bind tx_alloc (\<lambda>_.
         tx_bind (tx_lift (\<lambda>ix. select_neighbors ix candidates maximum_count)) (\<lambda>selected.
         tx_bind (tx_each (prune_one node level selected) neighbors) (\<lambda>_.
           update_edges node level (\<lambda>_. selected)))))))))"

section \<open>Insertion\<close>

definition insertion_env :: environment where
  "insertion_env n = (NoReason, 0)"

text \<open>\<open>max_size()\<close> of a \<open>std::vector<float>\<close>: \<open>PTRDIFF_MAX / sizeof(float)\<close>.\<close>

definition vector_max_size :: nat where
  "vector_max_size = (2 ^ 63 - 1) div 4"

definition append_node :: "vector_id \<Rightarrow> f32 list \<Rightarrow> nat list list \<Rightarrow> nat \<Rightarrow> unit tx_step" where
  "append_node vid normalized levels new_node =
     tx_bind tx_alloc (\<lambda>_.
     tx_bind (tx_update (\<lambda>ix. ix\<lparr>hnsw_vectors := hnsw_vectors ix @ normalized\<rparr>)) (\<lambda>_.
     tx_bind tx_alloc (\<lambda>_.
     tx_bind (tx_update (\<lambda>ix. ix\<lparr>hnsw_ids := hnsw_ids ix @ [vid]\<rparr>)) (\<lambda>_.
     tx_bind tx_alloc (\<lambda>_.
     tx_bind (tx_update (\<lambda>ix. ix\<lparr>hnsw_graph :=
         hnsw_graph ix @ [\<lparr>node_levels = levels, node_deleted = False\<rparr>]\<rparr>)) (\<lambda>_.
       tx_insert_id vid new_node))))))"

text \<open>The connection plan, from the first connected level down to level 0.\<close>

fun plan_connections :: "f32 list \<Rightarrow> nat \<Rightarrow> nat \<Rightarrow> nat list list \<Rightarrow> nat list list tx_step" where
  "plan_connections normalized 0 entry plan = tx_return plan"
| "plan_connections normalized (Suc level) entry plan =
     tx_bind tx_alloc (\<lambda>_.
     tx_bind (tx_lift (\<lambda>ix. search_layer ix normalized entry (ef_construction (hnsw_config ix)) level
         False default_context insertion_env 0)) (\<lambda>(candidates, n).
     tx_bind tx_alloc (\<lambda>_.
     tx_bind (tx_lift (\<lambda>ix. select_neighbors ix candidates (maximum_connections ix level))) (\<lambda>selected.
       plan_connections normalized level
         (if candidates = [] then entry else cand_node (hd candidates)) (plan[level := selected])))))"

definition connect_one :: "nat \<Rightarrow> nat \<Rightarrow> nat \<Rightarrow> unit tx_step" where
  "connect_one new_node level neighbor =
     tx_bind (tx_remember neighbor level) (\<lambda>_.
     tx_bind tx_alloc (\<lambda>_.
     tx_bind (update_edges neighbor level (\<lambda>ns. ns @ [new_node])) (\<lambda>_.
       prune_neighbors neighbor level)))"

definition connect_level :: "nat \<Rightarrow> nat \<Rightarrow> unit tx_step" where
  "connect_level new_node level =
     tx_bind (tx_lift (\<lambda>ix. neighbors_at ix new_node level)) (\<lambda>neighbors.
     tx_bind tx_alloc (\<lambda>_.
       tx_each (connect_one new_node level) neighbors))"

definition insert_first :: "vector_id \<Rightarrow> f32 list \<Rightarrow> nat \<Rightarrow> nat \<Rightarrow> unit tx_step" where
  "insert_first vid normalized level new_node =
     tx_bind (append_node vid normalized (replicate (level + 1) []) new_node) (\<lambda>_.
       tx_update (\<lambda>ix. ix\<lparr>hnsw_entry := new_node, hnsw_max_level := level\<rparr>))"

definition insert_connected :: "vector_id \<Rightarrow> f32 list \<Rightarrow> nat \<Rightarrow> nat \<Rightarrow> unit tx_step" where
  "insert_connected vid normalized level new_node =
     tx_bind (tx_lift (\<lambda>ix. descend ix normalized default_context insertion_env level
         (hnsw_max_level ix) (hnsw_entry ix) 0)) (\<lambda>(entry, n).
     tx_bind tx_alloc (\<lambda>_.
     tx_bind (tx_lift (\<lambda>ix. Inr (hnsw_max_level ix))) (\<lambda>max_level.
     tx_bind (plan_connections normalized (min level max_level + 1) entry (replicate (level + 1) []))
       (\<lambda>plan.
     tx_bind (append_node vid normalized plan new_node) (\<lambda>_.
     tx_bind (tx_each (connect_level new_node) [0..<min level max_level + 1]) (\<lambda>_.
       if max_level < level then
         tx_update (\<lambda>ix. ix\<lparr>hnsw_entry := new_node, hnsw_max_level := level\<rparr>)
       else tx_return ()))))))"

definition insertion :: "(f64 \<Rightarrow> f64) \<Rightarrow> vector_id \<Rightarrow> f32 list \<Rightarrow> unit tx_step" where
  "insertion lg vid normalized =
     tx_bind (tx_lift (\<lambda>ix. random_level lg (max_connections (hnsw_config ix)) (hnsw_random ix)))
       (\<lambda>(level, st).
     tx_bind (tx_update (\<lambda>ix. ix\<lparr>hnsw_random := st\<rparr>)) (\<lambda>_.
     tx_bind (tx_lift (\<lambda>ix. Inr (length (hnsw_ids ix) mod 2 ^ 32, hnsw_graph ix = [])))
       (\<lambda>(new_node, first).
         if first then insert_first vid normalized level new_node
         else insert_connected vid normalized level new_node)))"

definition insert_normalized ::
  "nat option \<Rightarrow> (f64 \<Rightarrow> f64) \<Rightarrow> vector_id \<Rightarrow> f32 list \<Rightarrow> hnsw_index \<Rightarrow> hnsw_index \<times> unit result" where
  "insert_normalized budget lg vid normalized ix =
     (if vector_max_size - length (hnsw_vectors ix) < cfg_dimension (hnsw_config ix) then
        (ix, Inl (Length_error ''HNSW vector storage capacity exceeded''))
      else
        case insertion lg vid normalized (tx_begin budget ix) of
          (tx, Inr u) \<Rightarrow> (tx_index tx, Inr ())
        | (tx, Inl e) \<Rightarrow> (tx_rollback tx, Inl e))"

definition hnsw_add ::
  "nat option \<Rightarrow> (f64 \<Rightarrow> f64) \<Rightarrow> vector_id \<Rightarrow> f32 list \<Rightarrow> hnsw_index \<Rightarrow> hnsw_index \<times> unit result" where
  "hnsw_add budget lg vid v ix =
     (if length v \<noteq> cfg_dimension (hnsw_config ix) then
        (ix, Inl (Invalid_argument ''vector dimension does not match index dimension''))
      else if hnsw_id_to_node ix vid \<noteq> None then
        (ix, Inl (Invalid_argument ''vector ID already exists''))
      else if 2 ^ 32 - 1 \<le> length (hnsw_ids ix) then
        (ix, Inl (Length_error ''HNSW node index capacity exceeded''))
      else
        case normalize_l2 v of
          Inl e \<Rightarrow> (ix, Inl e)
        | Inr normalized \<Rightarrow>
            if budget = Some 0 then (ix, Inl Bad_alloc)
            else insert_normalized (map_option (\<lambda>n. n - 1) budget) lg vid normalized ix)"

section \<open>Rebuilding\<close>

fun rebuild_from ::
  "(f64 \<Rightarrow> f64) \<Rightarrow> hnsw_index \<Rightarrow> vector_id list \<Rightarrow> hnsw_index \<Rightarrow> hnsw_index result" where
  "rebuild_from lg source [] result = Inr result"
| "rebuild_from lg source (vid # vids) result =
     (case hnsw_id_to_node source vid of
        None \<Rightarrow> Inl (Out_of_range ''unordered_map::at'')
      | Some node \<Rightarrow>
          and_then (row_at source node) (\<lambda>row.
            case insert_normalized None lg vid row result of
              (result', Inl e) \<Rightarrow> Inl e
            | (result', Inr u) \<Rightarrow> rebuild_from lg source vids result'))"

definition hnsw_rebuild :: "bool \<Rightarrow> (f64 \<Rightarrow> f64) \<Rightarrow> u64 \<Rightarrow> hnsw_index \<Rightarrow> hnsw_index result" where
  "hnsw_rebuild avx2 lg seed ix =
     and_then (hnsw_create avx2 ((hnsw_config ix)\<lparr>random_seed := seed\<rparr>)) (\<lambda>result.
     and_then (live_ids ix) (\<lambda>vids. rebuild_from lg ix vids result))"

section \<open>Rollback\<close>

lemma set_edges_set_edges [simp]: "set_edges (set_edges g u l a) u l b = set_edges g u l b"
  by (cases "u < length g") (simp_all add: set_edges_def list_update_beyond)

lemma set_edges_commute:
  "(u, l) \<noteq> (v, m) \<Longrightarrow> set_edges (set_edges g u l a) v m b = set_edges (set_edges g v m b) u l a"
  by (cases "u < length g"; cases "v < length g"; cases "u = v")
    (auto simp: set_edges_def list_update_swap nth_list_update list_update_beyond)

lemma set_edges_same [simp]: "set_edges g u l (edges g u l) = g"
  by (simp add: set_edges_def edges_def)

lemma edges_set_edges_other:
  "(u, l) \<noteq> (v, m) \<Longrightarrow> edges (set_edges g u l a) v m = edges g v m"
  by (cases "u < length g"; cases "u = v") (auto simp: set_edges_def edges_def list_update_beyond)

lemma length_set_edges [simp]: "length (set_edges g u l a) = length g"
  by (simp add: set_edges_def)

definition backup_keys :: "backup list \<Rightarrow> (nat \<times> nat) set" where
  "backup_keys bs = (\<lambda>(u, l, ns). (u, l)) ` set bs"

lemma length_restore_backups [simp]: "length (restore_backups bs g) = length g"
  unfolding restore_backups_def by (induction bs arbitrary: g) (auto split: prod.splits)

lemma restore_backups_Cons:
  "restore_backups ((u, l, ns) # bs) g = restore_backups bs (set_edges g u l ns)"
  by (simp add: restore_backups_def)

lemma restore_set_edges_covered:
  "(u, l) \<in> backup_keys bs \<Longrightarrow> restore_backups bs (set_edges g u l a) = restore_backups bs g"
proof (induction bs arbitrary: g)
  case (Cons b bs)
  obtain v m ns where b: "b = (v, m, ns)" by (cases b)
  show ?case
  proof (cases "(u, l) = (v, m)")
    case True
    then show ?thesis by (simp add: b restore_backups_Cons)
  next
    case False
    then have "(u, l) \<in> backup_keys bs" using Cons.prems by (auto simp: backup_keys_def b)
    then show ?thesis
      using Cons.IH set_edges_commute [OF False] by (simp add: b restore_backups_Cons)
  qed
qed (simp add: backup_keys_def)

lemma restore_set_edges_new:
  "(u, l) \<notin> backup_keys bs \<Longrightarrow>
     restore_backups bs (set_edges g u l a) = set_edges (restore_backups bs g) u l a"
proof (induction bs arbitrary: g)
  case (Cons b bs)
  obtain v m ns where b: "b = (v, m, ns)" by (cases b)
  have "(u, l) \<noteq> (v, m)" "(u, l) \<notin> backup_keys bs" using Cons.prems by (auto simp: backup_keys_def b)
  then show ?case
    using Cons.IH set_edges_commute [of u l v m g a ns] by (simp add: b restore_backups_Cons)
qed (simp add: restore_backups_def)

lemma edges_restore_new:
  "(u, l) \<notin> backup_keys bs \<Longrightarrow> edges (restore_backups bs g) u l = edges g u l"
proof (induction bs arbitrary: g)
  case (Cons b bs)
  obtain v m ns where b: "b = (v, m, ns)" by (cases b)
  have "(v, m) \<noteq> (u, l)" "(u, l) \<notin> backup_keys bs" using Cons.prems by (auto simp: backup_keys_def b)
  then show ?case
    using Cons.IH edges_set_edges_other [of v m u l g ns] by (simp add: b restore_backups_Cons)
qed (simp add: restore_backups_def)

lemma restore_backups_snoc:
  "restore_backups (bs @ [(u, l, ns)]) g = set_edges (restore_backups bs g) u l ns"
  by (simp add: restore_backups_def)

lemma take_set_edges: "n \<le> u \<Longrightarrow> take n (set_edges g u l a) = take n g"
  by (simp add: set_edges_def)

lemma set_edges_append: "u < length g \<Longrightarrow> set_edges (g @ h) u l a = set_edges g u l a @ h"
  by (simp add: set_edges_def nth_append list_update_append)

lemma restore_backups_append:
  "\<forall>(u, l)\<in>backup_keys bs. u < length g \<Longrightarrow> restore_backups bs (g @ h) = restore_backups bs g @ h"
proof (induction bs arbitrary: g)
  case (Cons b bs)
  obtain v m ns where b: "b = (v, m, ns)" by (cases b)
  then show ?case using Cons by (auto simp: restore_backups_Cons backup_keys_def set_edges_append)
qed (simp add: restore_backups_def)

subsection \<open>Triples\<close>

text \<open>\<open>P\<close> before a step gives \<open>Q\<close> after it returned and \<open>E\<close> after it threw.\<close>

definition tx_valid ::
  "(hnsw_tx \<Rightarrow> bool) \<Rightarrow> 'a tx_step \<Rightarrow> ('a \<Rightarrow> hnsw_tx \<Rightarrow> bool) \<Rightarrow> (cpp_error \<Rightarrow> hnsw_tx \<Rightarrow> bool) \<Rightarrow> bool" where
  "tx_valid P m Q E \<longleftrightarrow>
     (\<forall>tx. P tx \<longrightarrow> (case m tx of (tx', Inl e) \<Rightarrow> E e tx' | (tx', Inr x) \<Rightarrow> Q x tx'))"

lemma tx_validD:
  "tx_valid P m Q E \<Longrightarrow> P tx \<Longrightarrow> (case m tx of (tx', Inl e) \<Rightarrow> E e tx' | (tx', Inr x) \<Rightarrow> Q x tx')"
  by (simp add: tx_valid_def)

lemma tx_valid_bind:
  "tx_valid P m R E \<Longrightarrow> (\<And>x. tx_valid (R x) (f x) Q E) \<Longrightarrow> tx_valid P (tx_bind m f) Q E"
  by (fastforce simp: tx_valid_def tx_bind_def split: prod.splits sum.splits)

lemma tx_valid_return: "(\<And>tx. P tx \<Longrightarrow> Q x tx) \<Longrightarrow> tx_valid P (tx_return x) Q E"
  by (simp add: tx_valid_def tx_return_def)

lemma tx_valid_lift:
  assumes "\<And>tx x. P tx \<Longrightarrow> f (tx_index tx) = Inr x \<Longrightarrow> Q x tx"
    and "\<And>tx e. P tx \<Longrightarrow> f (tx_index tx) = Inl e \<Longrightarrow> E e tx"
  shows "tx_valid P (tx_lift f) Q E"
  using assms by (auto simp: tx_valid_def tx_lift_def split: sum.splits)

lemma tx_valid_update:
  "(\<And>tx. P tx \<Longrightarrow> Q () (tx\<lparr>tx_index := f (tx_index tx)\<rparr>)) \<Longrightarrow> tx_valid P (tx_update f) Q E"
  by (simp add: tx_valid_def tx_update_def)

lemma tx_valid_alloc:
  assumes "\<And>tx b. P tx \<Longrightarrow> Q () (tx\<lparr>tx_budget := b\<rparr>)" "\<And>tx. P tx \<Longrightarrow> E Bad_alloc tx"
  shows "tx_valid P tx_alloc Q E"
proof -
  have "tx = tx\<lparr>tx_budget := tx_budget tx\<rparr>" for tx :: hnsw_tx by simp
  then have "P tx \<Longrightarrow> Q () tx" for tx using assms(1) by metis
  then show ?thesis using assms by (auto simp: tx_valid_def tx_alloc_def split: option.splits nat.splits)
qed

lemma tx_valid_each:
  "(\<And>x. x \<in> set xs \<Longrightarrow> tx_valid I (f x) (\<lambda>_. I) E) \<Longrightarrow> tx_valid I (tx_each f xs) (\<lambda>_. I) E"
  by (induction xs) (auto intro: tx_valid_return tx_valid_bind)

lemma tx_valid_conseq:
  "tx_valid P m Q E \<Longrightarrow> (\<And>tx. P' tx \<Longrightarrow> P tx) \<Longrightarrow> (\<And>x tx. Q x tx \<Longrightarrow> Q' x tx) \<Longrightarrow> tx_valid P' m Q' E"
  by (fastforce simp: tx_valid_def split: prod.splits sum.splits)

subsection \<open>Every step can be rolled back\<close>

text \<open>Rolling back gives the index the insertion started from.\<close>

definition tx_good :: "hnsw_index \<Rightarrow> hnsw_tx \<Rightarrow> bool" where
  "tx_good ix0 tx \<longleftrightarrow>
     tx_rollback tx = ix0
   \<and> tx_node_count tx \<le> length (hnsw_graph (tx_index tx))
   \<and> tx_node_count tx \<le> length (hnsw_ids (tx_index tx))
   \<and> tx_vector_count tx \<le> length (hnsw_vectors (tx_index tx))
   \<and> (\<forall>(u, l)\<in>backup_keys (tx_backups tx). u < tx_node_count tx)"

definition journaled :: "nat \<Rightarrow> nat \<Rightarrow> hnsw_tx \<Rightarrow> bool" where
  "journaled u l tx \<longleftrightarrow> tx_node_count tx \<le> u \<or> (u, l) \<in> backup_keys (tx_backups tx)"

lemma tx_good_budget [simp]:
  "tx_good ix0 (tx\<lparr>tx_budget := b\<rparr>) = tx_good ix0 tx" "journaled u l (tx\<lparr>tx_budget := b\<rparr>) = journaled u l tx"
  by (simp_all add: tx_good_def tx_rollback_def journaled_def Let_def)

lemma tx_good_set_edges:
  assumes "tx_good ix0 tx" "journaled u l tx"
  shows "tx_good ix0 (tx\<lparr>tx_index := (tx_index tx)\<lparr>hnsw_graph := set_edges (hnsw_graph (tx_index tx)) u l ns\<rparr>\<rparr>)"
proof -
  let ?b = "tx_backups tx" and ?g = "hnsw_graph (tx_index tx)" and ?n = "tx_node_count tx"
  have "take ?n (restore_backups ?b (set_edges ?g u l ns)) = take ?n (restore_backups ?b ?g)"
  proof (cases "(u, l) \<in> backup_keys ?b")
    case True
    then show ?thesis by (simp add: restore_set_edges_covered)
  next
    case False
    then have "?n \<le> u" using assms(2) by (simp add: journaled_def)
    then show ?thesis using False by (simp add: restore_set_edges_new take_set_edges)
  qed
  then show ?thesis
    using assms(1) by (cases "tx_inserted tx") (simp_all add: tx_good_def tx_rollback_def Let_def)
qed

lemma tx_remember_good:
  "tx_valid (\<lambda>tx. tx_good ix0 tx \<and> journaled v m tx) (tx_remember u l)
     (\<lambda>_ tx. tx_good ix0 tx \<and> journaled v m tx \<and> journaled u l tx) (\<lambda>_. tx_good ix0)"
proof (unfold tx_valid_def, intro allI impI)
  fix tx assume pre: "tx_good ix0 tx \<and> journaled v m tx"
  let ?bs = "tx_backups tx" and ?g = "hnsw_graph (tx_index tx)"
  let ?post = "case tx_remember u l tx of (tx', Inl e) \<Rightarrow> tx_good ix0 tx'
    | (tx', Inr x) \<Rightarrow> tx_good ix0 tx' \<and> journaled v m tx' \<and> journaled u l tx'"
  have key: "(\<exists>b\<in>set ?bs. fst b = u \<and> fst (snd b) = l) \<longleftrightarrow> (u, l) \<in> backup_keys ?bs"
    by (force simp: backup_keys_def)
  consider "tx_node_count tx \<le> u" | "tx_node_count tx > u" "(u, l) \<in> backup_keys ?bs"
    | "tx_node_count tx > u" "(u, l) \<notin> backup_keys ?bs" by linarith
  then show ?post
  proof cases
    case 3
    define ns where "ns = edges ?g u l"
    have add: "tx_good ix0 tx' \<and> journaled v m tx' \<and> journaled u l tx'"
      if tx': "tx' = tx\<lparr>tx_budget := b, tx_backups := ?bs @ [(u, l, ns)]\<rparr>" for tx' b
    proof -
      have "restore_backups (?bs @ [(u, l, ns)]) ?g = restore_backups ?bs ?g"
        unfolding restore_backups_snoc ns_def
        by (subst edges_restore_new [OF 3(2), symmetric]) simp
      moreover have "backup_keys (?bs @ [(u, l, ns)]) = insert (u, l) (backup_keys ?bs)"
        by (auto simp: backup_keys_def)
      ultimately show ?thesis
        using pre 3 by (auto simp: tx' tx_good_def tx_rollback_def journaled_def Let_def)
    qed
    have tx: "tx\<lparr>tx_budget := tx_budget tx\<rparr> = tx" by simp
    show ?thesis
    proof (cases "neighbors_at (tx_index tx) u l")
      case (Inl e)
      then show ?thesis using 3 pre by (simp add: tx_remember_def key tx_bind_def tx_lift_def)
    next
      case (Inr x)
      then have "x = ns" by (auto simp: neighbors_at_def result_simps ns_def edges_def)
      with Inr 3 pre add [of _ "tx_budget tx"] add show ?thesis
        by (auto simp: tx_remember_def key tx_bind_def tx_lift_def tx_alloc_def
            split: option.split nat.split)
    qed
  qed (use pre in \<open>auto simp: tx_remember_def key journaled_def\<close>)
qed

lemma update_edges_good:
  "tx_valid (\<lambda>tx. tx_good ix0 tx \<and> journaled v m tx \<and> journaled u l tx) (update_edges u l f)
     (\<lambda>_ tx. tx_good ix0 tx \<and> journaled v m tx \<and> journaled u l tx) (\<lambda>_. tx_good ix0)"
  unfolding update_edges_def
  by (rule tx_valid_bind [OF tx_valid_lift [where Q = "\<lambda>_ tx. tx_good ix0 tx \<and> journaled v m tx \<and> journaled u l tx"]
        tx_valid_update])
    (auto simp: tx_good_set_edges, auto simp: journaled_def)

lemma prune_one_good:
  "tx_valid (\<lambda>tx. tx_good ix0 tx \<and> journaled u l tx) (prune_one u l selected r)
     (\<lambda>_ tx. tx_good ix0 tx \<and> journaled u l tx) (\<lambda>_. tx_good ix0)"
proof (cases "r \<in> set selected \<or> r = u")
  case True
  then show ?thesis
    by (auto simp: prune_one_def intro!: tx_valid_return tx_valid_lift tx_valid_bind [OF tx_remember_good])
next
  case False
  have "tx_valid (\<lambda>tx. tx_good ix0 tx \<and> journaled u l tx)
     (tx_bind (tx_remember r l) (\<lambda>_. update_edges r l (removeAll u)))
     (\<lambda>_ tx. tx_good ix0 tx \<and> journaled u l tx \<and> journaled r l tx) (\<lambda>_. tx_good ix0)"
    by (rule tx_valid_bind [OF tx_remember_good update_edges_good])
  then show ?thesis
    using False by (auto simp: prune_one_def intro: tx_valid_conseq)
qed

lemma tx_valid_alloc_good:
  "tx_valid (\<lambda>tx. tx_good ix0 tx \<and> journaled u l tx) tx_alloc
     (\<lambda>_ tx. tx_good ix0 tx \<and> journaled u l tx) (\<lambda>_. tx_good ix0)"
  by (rule tx_valid_alloc) simp_all

lemma tx_valid_lift_good:
  "tx_valid (\<lambda>tx. tx_good ix0 tx \<and> journaled u l tx) (tx_lift f)
     (\<lambda>_ tx. tx_good ix0 tx \<and> journaled u l tx) (\<lambda>_. tx_good ix0)"
  by (rule tx_valid_lift) simp_all

lemma prune_neighbors_good:
  "tx_valid (\<lambda>tx. tx_good ix0 tx \<and> journaled u l tx) (prune_neighbors u l)
     (\<lambda>_ tx. tx_good ix0 tx \<and> journaled u l tx) (\<lambda>_. tx_good ix0)"
proof -
  have last: "tx_valid (\<lambda>tx. tx_good ix0 tx \<and> journaled u l tx) (update_edges u l f)
     (\<lambda>_ tx. tx_good ix0 tx \<and> journaled u l tx) (\<lambda>_. tx_good ix0)" for f
    by (rule tx_valid_conseq [OF update_edges_good [where v = u and m = l]]) simp_all
  show ?thesis
    unfolding prune_neighbors_def
    apply (rule tx_valid_bind [OF tx_valid_lift_good])+
    subgoal for neighbors maximum_count
      by (cases "length neighbors \<le> maximum_count")
        (auto intro!: tx_valid_return tx_valid_bind [OF tx_valid_lift_good]
          tx_valid_bind [OF tx_valid_alloc_good] tx_valid_bind [OF tx_valid_each [OF prune_one_good]]
          last)
    done
qed

lemma connect_one_good:
  "tx_valid (tx_good ix0) (connect_one new_node l u) (\<lambda>_. tx_good ix0) (\<lambda>_. tx_good ix0)"
proof -
  have remember: "tx_valid (tx_good ix0) (tx_remember u l)
     (\<lambda>_ tx. tx_good ix0 tx \<and> journaled u l tx) (\<lambda>_. tx_good ix0)"
    unfolding tx_valid_def
  proof (intro allI impI)
    fix tx assume good: "tx_good ix0 tx"
    have "journaled (tx_node_count tx) 0 tx" by (simp add: journaled_def)
    then have "case tx_remember u l tx of (tx', Inl e) \<Rightarrow> tx_good ix0 tx'
        | (tx', Inr x) \<Rightarrow> tx_good ix0 tx' \<and> journaled (tx_node_count tx) 0 tx' \<and> journaled u l tx'"
      using good by (intro tx_validD [OF tx_remember_good] conjI)
    then show "case tx_remember u l tx of (tx', Inl e) \<Rightarrow> tx_good ix0 tx'
        | (tx', Inr x) \<Rightarrow> tx_good ix0 tx' \<and> journaled u l tx'"
      by (cases "tx_remember u l tx"; cases "snd (tx_remember u l tx)") simp_all
  qed
  have push: "tx_valid (\<lambda>tx. tx_good ix0 tx \<and> journaled u l tx) (update_edges u l f)
     (\<lambda>_ tx. tx_good ix0 tx \<and> journaled u l tx) (\<lambda>_. tx_good ix0)" for f
    by (rule tx_valid_conseq [OF update_edges_good [where v = u and m = l]]) simp_all
  have prune: "tx_valid (\<lambda>tx. tx_good ix0 tx \<and> journaled u l tx) (prune_neighbors u l)
     (\<lambda>_. tx_good ix0) (\<lambda>_. tx_good ix0)"
    by (rule tx_valid_conseq [OF prune_neighbors_good]) simp_all
  show ?thesis
    unfolding connect_one_def
    by (rule tx_valid_bind [OF remember tx_valid_bind [OF tx_valid_alloc_good
          tx_valid_bind [OF push prune]]])
qed

lemma connect_level_good:
  "tx_valid (tx_good ix0) (connect_level new_node l) (\<lambda>_. tx_good ix0) (\<lambda>_. tx_good ix0)"
  unfolding connect_level_def
  by (rule tx_valid_bind [OF tx_valid_lift [where Q = "\<lambda>_. tx_good ix0"]
        tx_valid_bind [OF tx_valid_alloc [where Q = "\<lambda>_. tx_good ix0"]
          tx_valid_each [OF connect_one_good]]]) simp_all

abbreviation tx_fresh :: "hnsw_index \<Rightarrow> hnsw_tx \<Rightarrow> bool" where
  "tx_fresh ix0 tx \<equiv> tx_good ix0 tx \<and> tx_inserted tx = None"

lemma tx_valid_alloc_fresh:
  "tx_valid (tx_fresh ix0) tx_alloc (\<lambda>_. tx_fresh ix0) (\<lambda>_. tx_good ix0)"
  by (rule tx_valid_alloc) simp_all

lemma tx_valid_lift_fresh:
  "tx_valid (tx_fresh ix0) (tx_lift f) (\<lambda>_. tx_fresh ix0) (\<lambda>_. tx_good ix0)"
  by (rule tx_valid_lift) simp_all

lemma plan_connections_fresh:
  "tx_valid (tx_fresh ix0) (plan_connections v n entry plan) (\<lambda>_. tx_fresh ix0) (\<lambda>_. tx_good ix0)"
proof (induction n arbitrary: entry plan)
  case (Suc l)
  then show ?case
    by (auto intro!: tx_valid_bind [OF tx_valid_alloc_fresh] tx_valid_bind [OF tx_valid_lift_fresh]
        split: prod.splits)
qed (auto intro: tx_valid_return)

lemma append_node_good:
  "tx_valid (tx_fresh ix0) (append_node vid v levels new_node) (\<lambda>_. tx_good ix0) (\<lambda>_. tx_good ix0)"
proof -
  have insert: "tx_valid (tx_fresh ix0) (tx_insert_id vid new_node) (\<lambda>_. tx_good ix0) (\<lambda>_. tx_good ix0)"
    unfolding tx_insert_id_def
    by (rule tx_valid_bind [OF tx_valid_alloc_fresh])
      (auto simp: tx_valid_def tx_good_def tx_rollback_def Let_def fun_upd_idem split: prod.splits)
  have upd: "tx_valid (tx_fresh ix0) (tx_update f) (\<lambda>_. tx_fresh ix0) (\<lambda>_. tx_good ix0)"
    if "f = (\<lambda>ix. ix\<lparr>hnsw_vectors := hnsw_vectors ix @ v\<rparr>) \<or> f = (\<lambda>ix. ix\<lparr>hnsw_ids := hnsw_ids ix @ [vid]\<rparr>)
      \<or> f = (\<lambda>ix. ix\<lparr>hnsw_graph := hnsw_graph ix @ [\<lparr>node_levels = levels, node_deleted = False\<rparr>]\<rparr>)" for f
  proof (rule tx_valid_update)
    fix tx assume fresh: "tx_fresh ix0 tx"
    have "restore_backups (tx_backups tx) (hnsw_graph (tx_index tx) @ h) =
        restore_backups (tx_backups tx) (hnsw_graph (tx_index tx)) @ h" for h
      using fresh by (intro restore_backups_append) (fastforce simp: tx_good_def)
    then show "tx_fresh ix0 (tx\<lparr>tx_index := f (tx_index tx)\<rparr>)"
      using that fresh by (auto simp: tx_good_def tx_rollback_def Let_def)
  qed
  show ?thesis
    unfolding append_node_def
    by (intro tx_valid_bind [OF tx_valid_alloc_fresh] tx_valid_bind [OF upd] insert) simp_all
qed

lemma tx_good_overwrite:
  assumes "tx_good ix0 tx"
  shows "tx_good ix0 (tx\<lparr>tx_index := (tx_index tx)\<lparr>hnsw_random := st\<rparr>\<rparr>)"
    and "tx_good ix0 (tx\<lparr>tx_index := (tx_index tx)\<lparr>hnsw_entry := e, hnsw_max_level := l\<rparr>\<rparr>)"
  using assms by (cases "tx_inserted tx"; simp add: tx_good_def tx_rollback_def Let_def)+

lemma tx_update_entry_good:
  "tx_valid (tx_good ix0) (tx_update (\<lambda>ix. ix\<lparr>hnsw_entry := e, hnsw_max_level := l\<rparr>))
     (\<lambda>_. tx_good ix0) (\<lambda>_. tx_good ix0)"
  by (rule tx_valid_update) (rule tx_good_overwrite)

lemma insertion_good:
  "tx_valid (tx_fresh ix0) (insertion lg vid v) (\<lambda>_. tx_good ix0) (\<lambda>_. tx_good ix0)"
proof -
  have rng: "tx_valid (tx_fresh ix0) (tx_update (\<lambda>ix. ix\<lparr>hnsw_random := st\<rparr>))
     (\<lambda>_. tx_fresh ix0) (\<lambda>_. tx_good ix0)" for st
    by (rule tx_valid_update) (simp add: tx_good_overwrite)
  have first: "tx_valid (tx_fresh ix0) (insert_first vid v level new_node) (\<lambda>_. tx_good ix0)
      (\<lambda>_. tx_good ix0)" for level new_node
    unfolding insert_first_def by (rule tx_valid_bind [OF append_node_good tx_update_entry_good])
  have connected: "tx_valid (tx_fresh ix0) (insert_connected vid v level new_node) (\<lambda>_. tx_good ix0)
      (\<lambda>_. tx_good ix0)" for level new_node
    unfolding insert_connected_def
    apply (rule tx_valid_bind [OF tx_valid_lift_fresh])
    subgoal for x
      by (cases x, simp only: prod.case)
        (intro tx_valid_bind [OF tx_valid_alloc_fresh] tx_valid_bind [OF tx_valid_lift_fresh]
          tx_valid_bind [OF plan_connections_fresh] tx_valid_bind [OF append_node_good]
          tx_valid_bind [OF tx_valid_each [OF connect_level_good]],
         simp add: tx_update_entry_good tx_valid_return)
    done
  show ?thesis
    unfolding insertion_def
    by (auto intro!: tx_valid_bind [OF tx_valid_lift_fresh] tx_valid_bind [OF rng] first connected
        split: prod.splits)
qed

lemma insert_normalized_rollback:
  assumes "length (hnsw_graph ix) = length (hnsw_ids ix)"
    and "insert_normalized budget lg vid v ix = (ix', Inl e)"
  shows "ix' = ix"
proof -
  have "tx_fresh ix (tx_begin budget ix)"
    using assms(1) by (simp add: tx_good_def tx_begin_def tx_rollback_def restore_backups_def
        backup_keys_def Let_def)
  then have "tx_good ix (fst (insertion lg vid v (tx_begin budget ix)))"
    using tx_validD [OF insertion_good, of ix "tx_begin budget ix" lg vid v]
    by (auto split: prod.splits sum.splits)
  then show ?thesis
    using assms(2) by (auto simp: insert_normalized_def tx_good_def split: if_splits prod.splits sum.splits)
qed

text \<open>C5: insertion into the approximate index has the strong exception guarantee: whatever
  exception ends it, and whichever of its allocations is the one that fails, the index
  (adjacency lists, ID map, entry point, top layer, generator state) is exactly what it was
  before the call.\<close>

theorem hnsw_add_strong_guarantee:
  assumes "length (hnsw_graph ix) = length (hnsw_ids ix)"
    and "hnsw_add budget lg vid v ix = (ix', Inl e)"
  shows "ix' = ix"
  using assms(2) insert_normalized_rollback [OF assms(1)]
  by (auto simp: hnsw_add_def split: if_splits sum.splits)

end
