(* ===== verification/Random_Level.thy ===== *)
theory Random_Level
  imports Hnsw_Index Score_Bounds
begin

text \<open>
  The level of a new node: for every generator state and every library logarithm of
  documented range, \<open>random_level\<close> is a number up to 63, and its conversion of a double to
  an integer is never undefined.
\<close>

text \<open>
  What the code needs of \<open>std::log\<close>: on the uniform numbers it forms, which lie in
  \<open>[2^-53, 1]\<close>, the result is a double in \<open>[-64, 0]\<close>; on the configured degrees, between 2 and
  \<open>2^31 - 1\<close>, it is a double in \<open>[1/2, 32]\<close>.
\<close>

definition log_contract :: "(f64 \<Rightarrow> f64) \<Rightarrow> bool" where
  "log_contract lg \<longleftrightarrow>
     (\<forall>m. 1 \<le> m \<and> m \<le> 2 ^ 53 \<longrightarrow>
        within64 (lg (f64_div (f64_of_nat m) level_denominator)) 64
        \<and> (nonneg64 (lg (f64_div (f64_of_nat m) level_denominator)) \<longrightarrow>
             within64 (lg (f64_div (f64_of_nat m) level_denominator)) 0))
   \<and> (\<forall>d. 2 \<le> d \<and> d \<le> 2 ^ 31 - 1 \<longrightarrow>
        nonneg64 (lg (f64_of_nat d)) \<and> within64 (lg (f64_of_nat d)) 32
        \<and> 1 / 2 \<le> abs64 (lg (f64_of_nat d)))"

lemma truncate_parts_le:
  "real (truncate_parts (m, e)) \<le> real m * two_powi e"
proof (cases "0 \<le> e")
  case True
  then show ?thesis using two_powi_nat [of "nat e"] by (simp add: truncate_parts_def)
next
  case False
  then have e: "e = - int (nat (- e))" by simp
  have "two_powi e * 2 ^ nat (- e) = 1"
    using two_powi_add [of e "- e"] two_powi_nat [of "nat (- e)"] False by simp
  then have "two_powi e = 1 / 2 ^ nat (- e)" by (simp add: eq_divide_eq)
  moreover have "real (m div 2 ^ nat (- e)) \<le> real m / 2 ^ nat (- e)"
    using of_nat_div_le_of_nat [of m "2 ^ nat (- e)"] by simp
  ultimately show ?thesis using False by (simp add: truncate_parts_def)
qed

lemma f64_to_size_ok:
  assumes "within64 x B" "B < 2 ^ 64" "nonneg64 x \<or> within64 x 0"
  shows "\<exists>n. f64_to_size x = Inr n"
proof -
  obtain m e where p: "mag_parts binary64 (snd (unpack64 x)) = (m, e)" by fastforce
  have val: "abs64 x = real m * two_powi e" using p by (simp add: magnitude_value_two_powi)
  have le: "abs64 x \<le> C" if "within64 x C" for C
    using that by (simp add: within64_def fp_within_def)
  have fin: "is_finite_mag binary64 (unpack64 x)" using assms(1) by (simp add: within64_def fp_within_def)
  have "real (truncate_parts (m, e)) < 2 ^ 64"
    using truncate_parts_le [of m e] le [OF assms(1)] assms(2) val by linarith
  then have lt: "truncate_parts (m, e) < 2 ^ 64" by (metis of_nat_less_iff of_nat_numeral of_nat_power)
  have "truncate_parts (m, e) = 0" if "within64 x 0"
    using truncate_parts_le [of m e] le [OF that] val by simp
  then show ?thesis
    using assms(3) lt fin by (auto simp: f64_to_size_def p size_of_truncated_def nonneg64_def)
qed

lemma unpack64_neg: "unpack64 (f64_neg x) = (\<not> fst (unpack64 x), snd (unpack64 x))"
  if "within64 x B"
  using that unfolding f64_neg_def
  by (intro unpack_pack64) (simp add: within64_def fp_within_def is_finite_mag_def)

lemma within64_neg: "within64 x B \<Longrightarrow> within64 (f64_neg x) C \<longleftrightarrow> within64 x C"
  using unpack64_neg [of x B] by (auto simp: within64_def fp_within_def is_finite_mag_def)

lemma nonneg64_mul:
  assumes "nonneg64 x" "nonneg64 y" "within64 x A" "within64 y B" "representable binary64 (A * B)"
  shows "nonneg64 (f64_mul x y)"
proof -
  have "fp_within binary64 (fp_mul binary64 (unpack64 x) (unpack64 y)) (A * B)"
    using assms by (intro within_mul [of _ _ A _ B]) (simp_all add: within64_def binary64_def)
  then have "unpack64 (f64_mul x y) = fp_mul binary64 (unpack64 x) (unpack64 y)"
    unfolding f64_mul_def by (rule within_unpack_pack64)
  then show ?thesis
    using assms by (simp add: nonneg64_def fp_mul_def within64_def fp_within_def is_finite_mag_def
        is_nan_mag_def is_inf_mag_def)
qed

lemma random_level_total:
  assumes lg: "log_contract lg" and d: "2 \<le> d" "d \<le> 2 ^ 31 - 1"
  shows "\<exists>level. random_level lg d st = Inr (level, snd (mt_next st)) \<and> level \<le> maximum_generated_level"
proof -
  obtain bits st' where out: "mt_next st = (bits, st')" by fastforce
  define mantissa where "mantissa = drop_bit 11 bits + 1"
  have m: "1 \<le> unat mantissa" "unat mantissa \<le> 2 ^ 53"
  proof -
    have lt: "unat (drop_bit 11 bits) < 2 ^ 53"
      using unsigned_less [of bits, where 'a = nat]
      by (simp add: unat_drop_bit_eq drop_bit_nat_def)
    then have "unat (drop_bit 11 bits) + unat (1 :: u64) < 2 ^ LENGTH(64)" by simp
    then have "unat mantissa = unat (drop_bit 11 bits) + 1"
      unfolding mantissa_def by (simp only: unat_add_lem) simp
    then show "1 \<le> unat mantissa" "unat mantissa \<le> 2 ^ 53" using lt by simp_all
  qed
  let ?u = "f64_div (f64_of_nat (unat mantissa)) level_denominator"
  let ?l = "lg ?u" and ?c = "lg (f64_of_nat d)"
  let ?inv = "f64_div 0x3FF0000000000000 ?c"
  have l: "within64 ?l 64" "nonneg64 ?l \<longrightarrow> within64 ?l 0"
    and c: "nonneg64 ?c" "within64 ?c 32" "1 / 2 \<le> abs64 ?c"
    using lg m d by (simp_all add: log_contract_def)
  have rep: "representable binary64 4" "representable binary64 256" "representable binary64 0"
    using representable64 [of 4 0] representable64 [of 256 0] representable64 [of 0 0] two_powi_nat [of 0]
    by simp_all
  have "within64 ?inv 4 \<and> nonneg64 ?inv"
    by (rule f64_reciprocal [OF c(1,2), of "1 / 2"]) (use c rep in simp_all)
  then have inv: "within64 ?inv 4" and inv0: "nonneg64 ?inv" by simp_all
  let ?p = "f64_mul (f64_neg ?l) ?inv"
  have neg: "within64 (f64_neg ?l) 64" using l(1) by (simp add: within64_neg)
  have p: "within64 ?p 256" using neg inv rep by (intro within64_mul [of _ 64 _ 4]) simp_all
  have "nonneg64 ?p \<or> within64 ?p 0"
  proof (cases "nonneg64 ?l")
    case True
    then have "within64 (f64_neg ?l) 0" using l within64_neg [OF l(1)] by simp
    then have "within64 ?p 0" using inv rep by (intro within64_mul [of _ 0 _ 4]) simp_all
    then show ?thesis ..
  next
    case False
    then have "nonneg64 (f64_neg ?l)" using unpack64_neg [OF l(1)] by (simp add: nonneg64_def)
    then have "nonneg64 ?p" using neg inv inv0 rep by (intro nonneg64_mul [of _ _ 64 4]) simp_all
    then show ?thesis ..
  qed
  with p obtain n where "f64_to_size ?p = Inr n" using f64_to_size_ok [OF p] by auto
  then show ?thesis by (simp add: random_level_def out mantissa_def Let_def)
qed

section \<open>The uniform number\<close>

lemma level_denominator_value: "level_denominator = 0x4340000000000000"
  by (simp add: level_denominator_def fp_eval)

lemma f64_of_nat_exact:
  assumes "representable binary64 (real n)"
  shows "unpack64 (f64_of_nat n) = (False, round_magnitude binary64 n 0)"
    and "abs64 (f64_of_nat n) = real n"
    and "snd (unpack64 (f64_of_nat n)) < inf_mag binary64"
proof -
  have "real n * two_powi 0 = real n" using two_powi_nat [of 0] by simp
  with assms have r: "round_magnitude binary64 n 0 < inf_mag binary64
      \<and> magnitude_value binary64 (round_magnitude binary64 n 0) = real n"
    using round_magnitude_exact [of binary64 n 0] by (simp add: binary64_def)
  show u: "unpack64 (f64_of_nat n) = (False, round_magnitude binary64 n 0)"
    unfolding f64_of_nat_def using r by (intro unpack_pack64) simp
  show "abs64 (f64_of_nat n) = real n" "snd (unpack64 (f64_of_nat n)) < inf_mag binary64"
    using r by (simp_all add: u)
qed

lemma representable_53:
  assumes "m \<le> 2 ^ 53" shows "representable binary64 (real m)"
proof (cases "m = 2 ^ 53")
  case True
  then show ?thesis using representable64 [of 1 53] two_powi_nat [of 53] by simp
next
  case False
  then show ?thesis using assms representable64 [of m 0] two_powi_nat [of 0] by simp
qed

text \<open>The quotient never exceeds 1; it is 1 for the largest mantissa.\<close>

lemma uniform_le_one:
  assumes "1 \<le> m" "m \<le> 2 ^ 53"
  shows "snd (unpack64 (f64_div (f64_of_nat m) level_denominator)) \<le> 0x3FF0000000000000"
proof -
  let ?g = "round_magnitude binary64 m 0"
  obtain p e where pe: "mag_parts binary64 ?g = (p, e)" by fastforce
  note m = f64_of_nat_exact [OF representable_53 [OF assms(2)]]
  have val: "real p * two_powi e = real m"
    using m(2) by (simp add: m(1) magnitude_value_two_powi pe)
  have den: "unpack64 0x4340000000000000 = (False, 0x4340000000000000)"
    "mag_parts binary64 0x4340000000000000 = (2 ^ 52, 1)" "bit_len (2 ^ 52) = 53"
    "fp_prec binary64 = 53"
    by (simp_all add: fp_eval)
  have fin: "is_finite_mag binary64 (unpack64 (f64_of_nat m))"
    using m(3) by (simp add: is_finite_mag_def)
  have N: "(p * 2 ^ 108) div 2 ^ 52 = p * 2 ^ 56" "(p * 2 ^ 108) mod 2 ^ 52 = (0 :: nat)"
    by (simp_all add: div_mult_swap [symmetric] mod_mult_right_eq [symmetric])
  define r where "r = round_magnitude binary64 (2 * (p * 2 ^ 56)) (e - 1 - 108 - 1)"
  have df: "div_finite binary64 (p, e) (2 ^ 52, 1) 108 = r"
    unfolding div_finite_def fst_conv snd_conv N r_def with_sticky_def by simp
  have inf: "inf_mag binary64 = 0x7FF0000000000000" by (simp add: fp_eval)
  have "fp_div binary64 (unpack64 (f64_of_nat m)) (unpack64 level_denominator) =
      (False, div_finite binary64 (p, e) (2 ^ 52, 1) (fp_prec binary64 + 2 + bit_len (2 ^ 52)))"
    using fin m(1) den(2)
    by (simp del: power_numeral add: fp_div_def level_denominator_value den(1) pe
        is_finite_mag_def is_nan_mag_def is_inf_mag_def inf)
  then have div: "fp_div binary64 (unpack64 (f64_of_nat m)) (unpack64 level_denominator) = (False, r)"
    unfolding den(3,4) df [symmetric] by simp
  have "real (2 * (p * 2 ^ 56)) * two_powi (e - 110) = real p * two_powi e * (2 ^ 57 * two_powi (- 110))"
    using two_powi_add [of e "- 110"] by simp
  also have "\<dots> = real m * (2 ^ 57 * two_powi (- 110))" by (simp add: val)
  also have "\<dots> \<le> 2 ^ 53 * (2 ^ 57 * two_powi (- 110))"
    using assms(2) of_nat_mono [OF assms(2), where 'a = real] by (intro mult_right_mono) simp_all
  also have "\<dots> = 1" using two_powi_add [of 110 "- 110"] two_powi_nat [of 110] by simp
  also have "1 = magnitude_value binary64 0x3FF0000000000000"
    using two_powi_nat [of 52] two_powi_add [of 52 "- 52"]
    by (simp add: magnitude_value_two_powi fp_eval)
  finally have "r \<le> 0x3FF0000000000000"
    unfolding r_def by (intro round_magnitude_le) (simp_all add: binary64_def)
  moreover have "unpack64 (f64_div (f64_of_nat m) level_denominator) = (False, r)"
    unfolding f64_div_def div using calculation by (intro unpack_pack64) simp
  ultimately show ?thesis by simp
qed

section \<open>Theorem\<close>

text \<open>A logarithm that satisfies the contract, coarse as it is.\<close>

definition coarse_log :: "f64 \<Rightarrow> f64" where
  "coarse_log x = (if snd (unpack64 x) \<le> 0x3FF0000000000000 then 0 else 0x3FF0000000000000)"

lemma coarse_log_contract: "log_contract coarse_log"
proof -
  have one: "abs64 0x3FF0000000000000 = 1" "nonneg64 0x3FF0000000000000" "within64 0x3FF0000000000000 32"
    "within64 0 64" "within64 0 0"
  proof -
    have u: "unpack64 0x3FF0000000000000 = (False, 0x3FF0000000000000)" "unpack64 0 = (False, 0)"
      "inf_mag binary64 = 0x7FF0000000000000"
      by (simp_all add: fp_eval)
    have one: "magnitude_value binary64 0x3FF0000000000000 = 1"
      using two_powi_nat [of 52] two_powi_add [of 52 "- 52"]
      by (simp add: magnitude_value_two_powi fp_eval)
    have zero: "magnitude_value binary64 0 = 0"
      by (simp add: magnitude_value_two_powi fp_eval)
    show "abs64 0x3FF0000000000000 = 1" "nonneg64 0x3FF0000000000000"
      "within64 0x3FF0000000000000 32" "within64 0 64" "within64 0 0"
      by (simp_all add: u one zero nonneg64_def within64_def fp_within_def is_finite_mag_def)
  qed
  have "coarse_log (f64_of_nat d) = 0x3FF0000000000000" if d: "2 \<le> d" "d \<le> 2 ^ 31 - 1" for d
  proof -
    have "representable binary64 (real d)" using d by (intro representable_53) simp
    note ex = f64_of_nat_exact [OF this]
    have "\<not> abs64 (f64_of_nat d) \<le> abs64 0x3FF0000000000000" using d one by (simp add: ex(2))
    then have "\<not> snd (unpack64 (f64_of_nat d)) \<le> snd (unpack64 0x3FF0000000000000)" by simp
    moreover have "snd (unpack64 0x3FF0000000000000) = 0x3FF0000000000000" by (simp add: fp_eval)
    ultimately show ?thesis by (simp add: coarse_log_def)
  qed
  then show ?thesis using one uniform_le_one
    by (simp add: log_contract_def coarse_log_def)
qed

text \<open>C12: the level of a new node. Whatever the state of the generator and for every library
  logarithm of the documented range, \<open>random_level\<close> returns a level of at most 63 and advances
  the generator by one step; the division, the product and the conversion to an integer never
  leave the defined range.\<close>

theorem random_level_bounded:
  assumes "log_contract lg" "2 \<le> d" "d \<le> 2 ^ 31 - 1"
  shows "\<exists>level. random_level lg d st = Inr (level, snd (mt_next st)) \<and> level \<le> 63"
  using random_level_total [OF assms, of st] by (simp add: maximum_generated_level_def)

theorem random_level_bounded_witness:
  "\<exists>level. random_level coarse_log 16 (mt_seed 42) = Inr (level, snd (mt_next (mt_seed 42))) \<and> level \<le> 63"
  using random_level_bounded [OF coarse_log_contract, of 16 "mt_seed 42"] by simp

end
