(* ===== verification/Hnsw_Invariant.thy ===== *)
theory Hnsw_Invariant
  imports Hnsw_Insert Random_Level
begin

text \<open>
  Insertion keeps the invariant of the approximate index: the steps of \<open>Hnsw_Insert\<close> are
  followed on the adjacency relation they leave behind. When no allocation fails, insertion
  succeeds; the new graph has no dangling, duplicate or self edges, respects the degree
  limits, and is symmetric when the old one was.
\<close>

section \<open>Neighbour selection\<close>

lemma similarity_wf: "storage_ok ix \<Longrightarrow> v < length (hnsw_graph ix) \<Longrightarrow> \<exists>s. similarity ix q v = Inr s"
  using storage_row [of ix v] by (simp add: similarity_def Let_def)

lemma row_at_wf: "storage_ok ix \<Longrightarrow> v < length (hnsw_graph ix) \<Longrightarrow>
    row_at ix v = Inr (row_of (cfg_dimension (hnsw_config ix)) (hnsw_vectors ix) v)"
  using storage_row [of ix v] by (simp add: row_at_def Let_def)

lemma is_diverse_wf:
  "storage_ok ix \<Longrightarrow> \<forall>v\<in>set ss. v < length (hnsw_graph ix) \<Longrightarrow> \<exists>b. is_diverse ix v score ss = Inr b"
proof (induction ss)
  case (Cons s ss)
  then show ?case using similarity_wf [of ix s v] by auto
qed auto

lemma heuristic_scan_wf:
  assumes "storage_ok ix" "\<forall>c\<in>set cs. cand_node c < length (hnsw_graph ix)"
    and "\<forall>v\<in>set selected. v < length (hnsw_graph ix)" "length selected \<le> limit"
  shows "\<exists>s' p'. heuristic_scan ix limit cs selected pruned = Inr (s', p') \<and> length s' \<le> limit
    \<and> mset s' + mset p' = mset selected + mset pruned + mset (map cand_node cs)"
  using assms(2-)
proof (induction cs arbitrary: selected pruned)
  case (Cons c cs)
  have row: "row_at ix (cand_node c) =
      Inr (row_of (cfg_dimension (hnsw_config ix)) (hnsw_vectors ix) (cand_node c))" (is "_ = Inr ?r")
    using Cons.prems assms(1) by (intro row_at_wf) simp_all
  obtain b where b: "is_diverse ix ?r (cand_score c) selected = Inr b"
    using is_diverse_wf [OF assms(1) Cons.prems(2)] by blast
  show ?case
  proof (cases "b \<and> length selected < limit")
    case True
    then show ?thesis
      using Cons.IH [of "selected @ [cand_node c]" pruned] Cons.prems row b by (auto simp: ac_simps)
  next
    case False
    then show ?thesis
      using Cons.IH [of selected "pruned @ [cand_node c]"] Cons.prems row b by (auto simp: ac_simps)
  qed
qed simp

lemma fill_pruned_facts:
  assumes "length selected \<le> limit"
  shows "length (fill_pruned limit cs selected) = min limit (length selected + length cs)
    \<and> mset (fill_pruned limit cs selected) \<subseteq># mset selected + mset cs"
  using assms
proof (induction cs arbitrary: selected)
  case (Cons c cs)
  show ?case
  proof (cases "length selected = limit")
    case False
    then show ?thesis using Cons.IH [of "selected @ [c]"] Cons.prems by simp
  qed simp
qed simp

lemma select_neighbors_wf:
  assumes "storage_ok ix" "\<forall>c\<in>set cs. cand_node c < length (hnsw_graph ix)"
    and "distinct (map cand_node cs)"
  shows "\<exists>s. select_neighbors ix cs n = Inr s \<and> distinct s \<and> set s \<subseteq> cand_node ` set cs
    \<and> length s = min n (length cs)"
proof (cases "selection (hnsw_config ix) = Simple")
  case True
  have "distinct (map cand_node (take (min n (length cs)) cs))"
    using assms(3) by (simp add: take_map [symmetric])
  then show ?thesis using True
    by (auto simp: select_neighbors_def Let_def dest: in_set_takeD)
next
  case False
  let ?l = "min n (length cs)"
  obtain s p where sp: "heuristic_scan ix ?l cs [] [] = Inr (s, p)" "length s \<le> ?l"
    "mset s + mset p = mset (map cand_node cs)"
    using heuristic_scan_wf [OF assms(1,2), of "[]" ?l "[]"] by auto
  let ?f = "fill_pruned ?l p s"
  have "length s + length p = length cs" using arg_cong [OF sp(3), of size] by simp
  moreover from fill_pruned_facts [OF sp(2), of p]
  have "length ?f = min ?l (length s + length p)" "mset ?f \<subseteq># mset s + mset p" by blast+
  ultimately have f: "length ?f = ?l" "mset ?f \<subseteq># mset (map cand_node cs)"
    by (simp_all only: sp(3) min.assoc min.idem)
  have "distinct ?f" by (rule distinct_submset [OF f(2) assms(3)])
  moreover have "set ?f \<subseteq> cand_node ` set cs" using set_mset_mono [OF f(2)] by simp
  ultimately show ?thesis using False sp(1) f(1) by (simp add: select_neighbors_def Let_def)
qed

lemma make_candidates_wf:
  "storage_ok ix \<Longrightarrow> \<forall>v\<in>set ns. v < length (hnsw_graph ix) \<Longrightarrow>
     make_candidates ix owner ns = Inr (map (cand_of ix owner) ns)"
  by (induction ns) simp_all

section \<open>Triples on the index\<close>

text \<open>Steps that only fail for want of memory, when allocations may fail at all.\<close>

definition ix_valid ::
  "nat option \<Rightarrow> (hnsw_index \<Rightarrow> bool) \<Rightarrow> 'a tx_step \<Rightarrow> ('a \<Rightarrow> hnsw_index \<Rightarrow> bool) \<Rightarrow> bool" where
  "ix_valid b P m Q \<longleftrightarrow>
     tx_valid (\<lambda>tx. (b = None \<longrightarrow> tx_budget tx = None) \<and> P (tx_index tx)) m
       (\<lambda>x tx. (b = None \<longrightarrow> tx_budget tx = None) \<and> Q x (tx_index tx))
       (\<lambda>e tx. e = Bad_alloc \<and> b \<noteq> None)"

lemma ix_bind:
  "ix_valid b P m R \<Longrightarrow> (\<And>x. ix_valid b (R x) (f x) Q) \<Longrightarrow> ix_valid b P (tx_bind m f) Q"
  unfolding ix_valid_def by (rule tx_valid_bind)

lemma ix_return: "(\<And>ix. P ix \<Longrightarrow> Q x ix) \<Longrightarrow> ix_valid b P (tx_return x) Q"
  unfolding ix_valid_def by (auto intro: tx_valid_return)

lemma ix_alloc: "ix_valid b P tx_alloc (\<lambda>_. P)"
  by (auto simp: ix_valid_def tx_valid_def tx_alloc_def split: option.splits nat.splits)

lemma ix_lift:
  "(\<And>ix. P ix \<Longrightarrow> \<exists>x. f ix = Inr x \<and> Q x ix) \<Longrightarrow> ix_valid b P (tx_lift f) Q"
  unfolding ix_valid_def by (rule tx_valid_lift) fastforce+

lemma ix_update: "(\<And>ix. P ix \<Longrightarrow> Q () (f ix)) \<Longrightarrow> ix_valid b P (tx_update f) Q"
  unfolding ix_valid_def by (rule tx_valid_update) simp

lemma ix_conseq:
  "ix_valid b P m Q \<Longrightarrow> (\<And>ix. P' ix \<Longrightarrow> P ix) \<Longrightarrow> (\<And>x ix. Q x ix \<Longrightarrow> Q' x ix) \<Longrightarrow> ix_valid b P' m Q'"
  unfolding ix_valid_def by (erule tx_valid_conseq) auto

lemma ix_remember:
  assumes "\<And>ix. P ix \<Longrightarrow> on_layer (hnsw_graph ix) l u"
  shows "ix_valid b P (tx_remember u l) (\<lambda>_. P)"
  unfolding ix_valid_def tx_valid_def
  using assms
  by (auto simp: tx_remember_def tx_bind_def tx_lift_def tx_alloc_def split: option.split nat.split)

lemma ix_insert_id:
  assumes "\<And>ix. P ix \<Longrightarrow> hnsw_id_to_node ix vid = None"
    and "\<And>ix. P ix \<Longrightarrow> Q () (ix\<lparr>hnsw_id_to_node := (hnsw_id_to_node ix)(vid \<mapsto> node)\<rparr>)"
  shows "ix_valid b P (tx_insert_id vid node) Q"
  unfolding tx_insert_id_def
  by (rule ix_bind [OF ix_alloc]) (use assms in \<open>auto simp: ix_valid_def tx_valid_def Let_def\<close>)

lemma ix_update_edges:
  assumes "\<And>ix. P ix \<Longrightarrow> on_layer (hnsw_graph ix) l u"
    and "\<And>ix. P ix \<Longrightarrow>
      Q () (ix\<lparr>hnsw_graph := set_edges (hnsw_graph ix) u l (f (edges (hnsw_graph ix) u l))\<rparr>)"
  shows "ix_valid b P (update_edges u l f) Q"
  unfolding update_edges_def
  by (rule ix_bind [OF ix_lift [where Q = "\<lambda>ns ix. P ix \<and> ns = edges (hnsw_graph ix) u l"] ix_update])
    (use assms in auto)

lemma ix_each:
  assumes "\<And>ys x zs. xs = ys @ x # zs \<Longrightarrow> ix_valid b (I ys) (f x) (\<lambda>_. I (ys @ [x]))"
  shows "ix_valid b (I []) (tx_each f xs) (\<lambda>_. I xs)"
proof -
  have "xs = ys @ zs \<Longrightarrow> ix_valid b (I ys) (tx_each f zs) (\<lambda>_. I xs)" for ys zs
  proof (induction zs arbitrary: ys)
    case (Cons z zs)
    then show ?case using assms [of ys z zs] Cons.IH [of "ys @ [z]"] by (auto intro: ix_bind)
  qed (auto intro: ix_return)
  from this [of "[]" xs] show ?thesis by simp
qed

lemma ix_pre: "(A \<Longrightarrow> ix_valid b P m Q) \<Longrightarrow> ix_valid b (\<lambda>ix. A \<and> P ix) m Q"
  by (cases A) (simp_all add: ix_valid_def tx_valid_def)

lemma ix_lift_det:
  assumes "\<And>ix. P ix \<Longrightarrow> f ix = Inr x" "ix_valid b P (g x) Q"
  shows "ix_valid b P (tx_bind (tx_lift f) g) Q"
proof (rule ix_bind [OF ix_lift [where Q = "\<lambda>y ix. y = x \<and> P ix"]])
  show "ix_valid b (\<lambda>ix. y = x \<and> P ix) (g y) Q" for y by (rule ix_pre) (use assms(2) in simp)
qed (use assms(1) in auto)

section \<open>Graphs as adjacency functions\<close>

definition same_shape :: "hnsw_node list \<Rightarrow> hnsw_node list \<Rightarrow> bool" where
  "same_shape g h \<longleftrightarrow> length g = length h \<and>
     (\<forall>u < length g. length (node_levels (g ! u)) = length (node_levels (h ! u))
        \<and> node_deleted (g ! u) = node_deleted (h ! u))"

type_synonym adjacency = "nat \<Rightarrow> nat \<Rightarrow> nat list"

text \<open>The index differs from \<open>ix1\<close> in its adjacency lists only, and these are \<open>E\<close>.\<close>

definition linked :: "hnsw_index \<Rightarrow> adjacency \<Rightarrow> hnsw_index \<Rightarrow> bool" where
  "linked ix1 E ix \<longleftrightarrow>
     ix = ix1\<lparr>hnsw_graph := hnsw_graph ix\<rparr> \<and> same_shape (hnsw_graph ix1) (hnsw_graph ix)
   \<and> (\<forall>u l. on_layer (hnsw_graph ix1) l u \<longrightarrow> edges (hnsw_graph ix) u l = E u l)"

lemma on_layer_shape: "same_shape g h \<Longrightarrow> on_layer h l u = on_layer g l u"
  by (auto simp: same_shape_def on_layer_def)

lemma linked_layer: "linked ix1 E ix \<Longrightarrow> on_layer (hnsw_graph ix) l u = on_layer (hnsw_graph ix1) l u"
  by (simp add: linked_def on_layer_shape)

lemma linked_edges:
  "linked ix1 E ix \<Longrightarrow> on_layer (hnsw_graph ix1) l u \<Longrightarrow> edges (hnsw_graph ix) u l = E u l"
  by (simp add: linked_def)

lemma linked_fields:
  assumes "linked ix1 E ix"
  shows "hnsw_config ix = hnsw_config ix1" "hnsw_ids ix = hnsw_ids ix1"
    "hnsw_vectors ix = hnsw_vectors ix1" "length (hnsw_graph ix) = length (hnsw_graph ix1)"
    "maximum_connections ix l = maximum_connections ix1 l"
proof -
  obtain g where "ix = ix1\<lparr>hnsw_graph := g\<rparr>" using assms by (auto simp: linked_def)
  then show "hnsw_config ix = hnsw_config ix1" "hnsw_ids ix = hnsw_ids ix1"
    "hnsw_vectors ix = hnsw_vectors ix1" "maximum_connections ix l = maximum_connections ix1 l"
    by (simp_all add: maximum_connections_def)
  show "length (hnsw_graph ix) = length (hnsw_graph ix1)"
    using assms by (simp add: linked_def same_shape_def)
qed

lemma linked_storage: "linked ix1 E ix \<Longrightarrow> storage_ok ix1 \<Longrightarrow> storage_ok ix"
proof -
  assume l: "linked ix1 E ix" and ok: "storage_ok ix1"
  obtain g where ix: "ix = ix1\<lparr>hnsw_graph := g\<rparr>" using l by (auto simp: linked_def)
  then show ?thesis using linked_fields(4) [OF l] ok by (simp add: storage_ok_def)
qed

lemma same_shape_set_edges: "same_shape g h \<Longrightarrow> same_shape g (set_edges h u l a)"
  by (cases "u < length h") (auto simp: same_shape_def set_edges_def nth_list_update list_update_beyond)

lemma edges_set_edges:
  "on_layer g l u \<Longrightarrow> edges (set_edges g u l a) v m = (if v = u \<and> m = l then a else edges g v m)"
  using edges_set_edges_other [of u l v m g a]
  by (auto simp: on_layer_def set_edges_def edges_def)

lemma linked_set_edges:
  assumes "linked ix1 E ix" "on_layer (hnsw_graph ix1) l u"
    and "\<And>v m. F v m = (if v = u \<and> m = l then a else E v m)"
  shows "linked ix1 F (ix\<lparr>hnsw_graph := set_edges (hnsw_graph ix) u l a\<rparr>)"
proof -
  obtain g where ix: "ix = ix1\<lparr>hnsw_graph := g\<rparr>" using assms(1) by (auto simp: linked_def)
  show ?thesis
    using assms linked_layer [OF assms(1)]
    by (auto simp: linked_def ix same_shape_set_edges edges_set_edges)
qed

section \<open>Pruning\<close>

definition unlinked :: "adjacency \<Rightarrow> nat \<Rightarrow> nat \<Rightarrow> nat list \<Rightarrow> nat list \<Rightarrow> adjacency" where
  "unlinked E v l S ys =
     (\<lambda>u m. if m = l \<and> u \<in> set ys \<and> u \<notin> set S then removeAll v (E u m) else E u m)"

definition relinked :: "adjacency \<Rightarrow> nat \<Rightarrow> nat \<Rightarrow> nat list \<Rightarrow> adjacency" where
  "relinked E v l S = (\<lambda>u m. if u = v \<and> m = l then S else unlinked E v l S (E v l) u m)"

lemma prune_one_valid:
  assumes "on_layer (hnsw_graph ix1) l x" "x \<noteq> v"
  shows "ix_valid b (linked ix1 (unlinked E v l S ys)) (prune_one v l S x)
    (\<lambda>_. linked ix1 (unlinked E v l S (ys @ [x])))"
proof (cases "x \<in> set S")
  case True
  then have "unlinked E v l S (ys @ [x]) = unlinked E v l S ys"
    by (auto simp: unlinked_def fun_eq_iff)
  then show ?thesis using True by (auto simp: prune_one_def intro: ix_return)
next
  case False
  have "ix_valid b (linked ix1 (unlinked E v l S ys))
      (tx_bind (tx_remember x l) (\<lambda>_. update_edges x l (removeAll v)))
      (\<lambda>_. linked ix1 (unlinked E v l S (ys @ [x])))"
    by (rule ix_bind [OF ix_remember ix_update_edges])
      (use assms False in \<open>auto simp: linked_layer linked_edges unlinked_def intro!: linked_set_edges\<close>)
  then show ?thesis using False assms by (simp add: prune_one_def)
qed

lemma prune_neighbors_valid:
  assumes ok: "storage_ok ix1" and v: "on_layer (hnsw_graph ix1) l v"
    and E: "distinct (E v l)" "v \<notin> set (E v l)" "\<forall>u\<in>set (E v l). on_layer (hnsw_graph ix1) l u"
  shows "ix_valid b (linked ix1 E) (prune_neighbors v l)
    (\<lambda>_ ix. \<exists>S. distinct S \<and> set S \<subseteq> set (E v l) \<and> length S \<le> maximum_connections ix1 l
       \<and> linked ix1 (relinked E v l S) ix)"
proof -
  let ?ns = "E v l" and ?m = "maximum_connections ix1 l"
  let ?Q = "\<lambda>_ ix. \<exists>S. distinct S \<and> set S \<subseteq> set ?ns \<and> length S \<le> ?m \<and> linked ix1 (relinked E v l S) ix"
  have same: "relinked E v l ?ns = E" by (auto simp: relinked_def unlinked_def fun_eq_iff)
  have lt: "v < length (hnsw_graph ix1)" "\<forall>u\<in>set ?ns. u < length (hnsw_graph ix1)"
    using v E(3) by (auto simp: on_layer_def)
  define owner where "owner = row_of (cfg_dimension (hnsw_config ix1)) (hnsw_vectors ix1) v"
  define cands where "cands = sort_by (hnsw_is_better (hnsw_ids ix1)) (map (cand_of ix1 owner) ?ns)"
  have cand_of: "cand_of ix = cand_of ix1" if "linked ix1 E ix" for ix
    using linked_fields [OF that] by (simp add: cand_of_def fun_eq_iff)
  have cands: "cand_node ` set cands = set ?ns" "distinct (map cand_node cands)" "length cands = length ?ns"
  proof -
    have "mset (map cand_node cands) = mset (map cand_node (map (cand_of ix1 owner) ?ns))"
      by (simp only: cands_def mset_map mset_sort_by)
    also have "\<dots> = mset ?ns" by (simp only: map_map comp_def cand_node_cand_of list.map_ident)
    finally show "cand_node ` set cands = set ?ns" "distinct (map cand_node cands)"
      using E(1) by (metis set_map set_mset_mset, metis mset_eq_imp_distinct_iff)
    show "length cands = length ?ns" by (simp add: cands_def)
  qed
  have finish: "ix_valid b (linked ix1 E)
      (tx_bind (tx_each (prune_one v l S) ?ns) (\<lambda>_. update_edges v l (\<lambda>_. S))) ?Q"
    if S: "distinct S" "set S \<subseteq> set ?ns" "length S \<le> ?m" for S
  proof (rule ix_bind)
    have start: "unlinked E v l S [] = E" by (simp add: unlinked_def fun_eq_iff)
    have "ix_valid b (linked ix1 (unlinked E v l S ys)) (prune_one v l S x)
        (\<lambda>_. linked ix1 (unlinked E v l S (ys @ [x])))" if "?ns = ys @ x # zs" for ys x zs
    proof -
      have "x \<in> set ?ns" by (simp add: that)
      then show ?thesis using E by (intro prune_one_valid) auto
    qed
    from ix_each [where I = "\<lambda>ys. linked ix1 (unlinked E v l S ys)", OF this]
    show "ix_valid b (linked ix1 E) (tx_each (prune_one v l S) ?ns)
        (\<lambda>_. linked ix1 (unlinked E v l S ?ns))" by (simp add: start)
  next
    show "ix_valid b (linked ix1 (unlinked E v l S ?ns)) (update_edges v l (\<lambda>_. S)) ?Q" for x
      by (rule ix_update_edges)
        (use v S in \<open>auto simp: linked_layer relinked_def intro!: exI [of _ S] linked_set_edges\<close>)
  qed
  have pick: "ix_valid b (linked ix1 E)
      (tx_bind (tx_lift (\<lambda>ix. select_neighbors ix cands ?m)) (\<lambda>selected.
         tx_bind (tx_each (prune_one v l selected) ?ns) (\<lambda>_. update_edges v l (\<lambda>_. selected)))) ?Q"
  proof (rule ix_bind [OF ix_lift [where Q = "\<lambda>S ix. (distinct S \<and> set S \<subseteq> set ?ns \<and> length S \<le> ?m)
      \<and> linked ix1 E ix"]])
    fix ix assume l: "linked ix1 E ix"
    then have "\<forall>c\<in>set cands. cand_node c < length (hnsw_graph ix)"
      using lt(2) cands(1) linked_fields(4) [OF l] by (metis image_eqI)
    from select_neighbors_wf [OF linked_storage [OF l ok] this cands(2), of ?m]
    show "\<exists>S. select_neighbors ix cands ?m = Inr S \<and>
        (distinct S \<and> set S \<subseteq> set ?ns \<and> length S \<le> ?m) \<and> linked ix1 E ix"
      using l cands(1) by auto
  qed (rule ix_pre, rule finish, auto)
  have sorted: "and_then (make_candidates ix owner ?ns)
      (\<lambda>cs. Inr (sort_by (hnsw_is_better (hnsw_ids ix)) cs)) = Inr cands" if l: "linked ix1 E ix" for ix
    using make_candidates_wf [OF linked_storage [OF l ok], of ?ns owner] lt(2)
    by (simp add: linked_fields [OF l] cand_of [OF l] cands_def)
  show ?thesis
    unfolding prune_neighbors_def
    apply (rule ix_lift_det [where x = ?ns])
    subgoal using v by (simp add: linked_layer linked_edges)
    apply (rule ix_lift_det [where x = ?m])
    subgoal by (simp add: linked_fields)
    apply (cases "length ?ns \<le> ?m")
    subgoal using E(1) same by (auto intro!: ix_return exI [of _ ?ns])
    apply (simp only: if_False)
    apply (rule ix_lift_det [where x = owner])
    subgoal for ix using lt(1) row_at_wf [OF linked_storage [OF _ ok], of E ix v]
      by (simp add: linked_fields owner_def)
    apply (rule ix_bind [OF ix_alloc])
    apply (rule ix_lift_det [where x = cands])
    subgoal by (rule sorted)
    by (rule ix_bind [OF ix_alloc pick])
qed

section \<open>Connecting the new node\<close>

text \<open>
  \<open>pend v m\<close>: the edge from the new node \<open>n\<close> to \<open>v\<close> on layer \<open>m\<close> has not been answered
  yet. Until then \<open>v\<close> does not list \<open>n\<close>, and that edge alone may lack its reverse.
\<close>

definition conn_inv ::
  "hnsw_node list \<Rightarrow> (nat \<Rightarrow> nat) \<Rightarrow> nat \<Rightarrow> bool \<Rightarrow> (nat \<Rightarrow> nat \<Rightarrow> bool) \<Rightarrow> adjacency \<Rightarrow> bool" where
  "conn_inv g limit n bi pend E \<longleftrightarrow>
     (\<forall>u m. on_layer g m u \<longrightarrow> distinct (E u m) \<and> u \<notin> set (E u m)
        \<and> (\<forall>v\<in>set (E u m). on_layer g m v) \<and> length (E u m) \<le> limit m)
   \<and> (\<forall>u m. on_layer g m u \<longrightarrow> u \<noteq> n \<longrightarrow> n \<in> set (E u m) \<longrightarrow> \<not> pend u m)
   \<and> (bi \<longrightarrow> (\<forall>u v m. on_layer g m u \<longrightarrow> v \<in> set (E u m) \<longrightarrow>
        u \<in> set (E v m) \<or> (u = n \<and> pend v m)))"

definition answered :: "nat \<Rightarrow> nat \<Rightarrow> (nat \<Rightarrow> nat \<Rightarrow> bool) \<Rightarrow> nat \<Rightarrow> nat \<Rightarrow> bool" where
  "answered v l pend = (\<lambda>u m. pend u m \<and> \<not> (u = v \<and> m = l))"

definition pushed :: "adjacency \<Rightarrow> nat \<Rightarrow> nat \<Rightarrow> nat \<Rightarrow> adjacency" where
  "pushed E n v l = (\<lambda>u m. if u = v \<and> m = l then E u m @ [n] else E u m)"

lemma relinked_pushed_set:
  "u \<noteq> v \<or> m \<noteq> l \<Longrightarrow> set (relinked (pushed E n v l) v l S u m) =
     (if m = l \<and> u \<in> insert n (set (E v l)) \<and> u \<notin> set S then set (E u m) - {v} else set (E u m))"
  "relinked (pushed E n v l) v l S v l = S"
  by (auto simp: relinked_def unlinked_def pushed_def)

lemma connect_step:
  assumes inv: "conn_inv g limit n bi pend E"
    and v: "on_layer g l v" "v \<noteq> n" "v \<in> set (E n l)" "pend v l" and n: "on_layer g l n"
    and S: "distinct S" "set S \<subseteq> insert n (set (E v l))" "length S \<le> limit l"
  defines "F \<equiv> relinked (pushed E n v l) v l S"
  shows "conn_inv g limit n bi (answered v l pend) F"
    and "set (E n l) - {v} \<subseteq> set (F n l)" "set (F n l) \<subseteq> set (E n l)"
proof -
  have F: "set (F u m) = (if m = l \<and> u \<in> insert n (set (E v l)) \<and> u \<notin> set S
      then set (E u m) - {v} else set (E u m))" if "u \<noteq> v \<or> m \<noteq> l" for u m
    unfolding F_def by (rule relinked_pushed_set(1) [OF that])
  have Fv: "F v l = S" unfolding F_def by (rule relinked_pushed_set(2))
  show "set (E n l) - {v} \<subseteq> set (F n l)" "set (F n l) \<subseteq> set (E n l)"
    using v(2) by (auto simp: F)
  have base: "distinct (E u m)" "u \<notin> set (E u m)" "\<forall>w\<in>set (E u m). on_layer g m w"
    "length (E u m) \<le> limit m" if "on_layer g m u" for u m
    using inv that by (auto simp: conn_inv_def)
  have fresh: "n \<notin> set (E v l)" using inv v by (auto simp: conn_inv_def)
  have vS: "v \<notin> set S" using S(2) base(2) [OF v(1)] v(2) by blast
  have F_other: "distinct (F u m) \<and> length (F u m) \<le> length (E u m)"
    if "on_layer g m u" "u \<noteq> v \<or> m \<noteq> l" for u m
  proof -
    have "F u m = E u m \<or> F u m = removeAll v (E u m)"
      using that(2) by (auto simp: F_def relinked_def unlinked_def pushed_def)
    then show ?thesis using base(1) [OF that(1)] length_removeAll_less_eq [of v "E u m"]
      by (auto simp: distinct_removeAll)
  qed
  have A: "distinct (F u m) \<and> u \<notin> set (F u m) \<and> (\<forall>w\<in>set (F u m). on_layer g m w)
      \<and> length (F u m) \<le> limit m" if layer: "on_layer g m u" for u m
  proof (cases "u = v \<and> m = l")
    case True
    then show ?thesis using Fv S vS base(3) [OF v(1)] n by auto
  next
    case False
    then have "set (F u m) \<subseteq> set (E u m)" using F [of u m] by auto
    then show ?thesis
      using F_other [OF layer] False base [OF layer] by (meson le_trans subsetD)
  qed
  have B: "\<not> answered v l pend u m" if "on_layer g m u" "u \<noteq> n" "n \<in> set (F u m)" for u m
  proof (cases "u = v \<and> m = l")
    case False
    then have "n \<in> set (E u m)" using F [of u m] that(3) by (auto split: if_splits)
    then show ?thesis using inv that by (auto simp: conn_inv_def answered_def)
  qed (simp add: answered_def)
  have C: "u \<in> set (F w m) \<or> (u = n \<and> answered v l pend w m)"
    if bi: "bi" and layer: "on_layer g m u" and w: "w \<in> set (F u m)" for u w m
  proof -
    have rev_edge: "x \<in> set (E y k) \<or> (x = n \<and> pend y k)" if "on_layer g k x" "y \<in> set (E x k)" for x y k
      using inv that \<open>bi\<close> by (auto simp: conn_inv_def)
    show ?thesis
    proof (cases "m = l")
      case False
      then show ?thesis using rev_edge [OF layer, of w] w F [of u m] F [of w m] by (auto simp: answered_def)
    next
      case True
      show ?thesis
      proof (cases "u = v")
        case True
        then have "w \<in> set S" using w Fv \<open>m = l\<close> by simp
        then have wv: "w \<noteq> v" using vS by auto
        have "v \<in> set (E w l)"
          using \<open>w \<in> set S\<close> S(2) v rev_edge [OF v(1), of w] by auto
        then show ?thesis using F [of w l] wv \<open>w \<in> set S\<close> True \<open>m = l\<close> by simp
      next
        case False
        then have wE: "w \<in> set (E u l)" and keep: "u \<in> insert n (set (E v l)) \<and> u \<notin> set S \<longrightarrow> w \<noteq> v"
          using w F [of u l] True by (auto split: if_splits)
        have either: "u \<in> set (E w l) \<or> (u = n \<and> pend w l)" using rev_edge layer wE True by blast
        show ?thesis
        proof (cases "w = v")
          case True
          then have "u \<in> insert n (set (E v l))" using either by auto
          then have "u \<in> set S" using keep True by blast
          then show ?thesis using Fv True \<open>m = l\<close> by simp
        next
          case wv: False
          then show ?thesis using either F [of w l] False True by (auto simp: answered_def)
        qed
      qed
    qed
  qed
  show "conn_inv g limit n bi (answered v l pend) F"
    unfolding conn_inv_def using A B C by blast
qed

lemma ix_ex: "(\<And>E. ix_valid b (P E) m Q) \<Longrightarrow> ix_valid b (\<lambda>ix. \<exists>E. P E ix) m Q"
proof -
  assume A: "\<And>E. ix_valid b (P E) m Q"
  show ?thesis
    unfolding ix_valid_def tx_valid_def
  proof (intro allI impI, elim conjE exE)
    fix tx :: hnsw_tx and E
    assume "b = None \<longrightarrow> tx_budget tx = None" "P E (tx_index tx)"
    then show "case m tx of (tx', Inl e) \<Rightarrow> e = Bad_alloc \<and> b \<noteq> None
        | (tx', Inr x) \<Rightarrow> (b = None \<longrightarrow> tx_budget tx' = None) \<and> Q x (tx_index tx')"
      by (intro tx_validD [OF A [of E, unfolded ix_valid_def]]) simp
  qed
qed

lemma relinked_pushed_level: "m \<noteq> l \<Longrightarrow> relinked (pushed E n v l) v l S u m = E u m"
  by (simp add: relinked_def unlinked_def pushed_def)

lemma connect_one_valid:
  assumes ok: "storage_ok ix1"
    and inv: "conn_inv (hnsw_graph ix1) (maximum_connections ix1) n bi pend E"
    and v: "on_layer (hnsw_graph ix1) l v" "v \<noteq> n" "v \<in> set (E n l)" "pend v l"
    and n: "on_layer (hnsw_graph ix1) l n"
  shows "ix_valid b (linked ix1 E) (connect_one n l v)
    (\<lambda>_ ix. \<exists>F. linked ix1 F ix
       \<and> conn_inv (hnsw_graph ix1) (maximum_connections ix1) n bi (answered v l pend) F
       \<and> set (E n l) - {v} \<subseteq> set (F n l) \<and> set (F n l) \<subseteq> set (E n l)
       \<and> (\<forall>m. m \<noteq> l \<longrightarrow> F n m = E n m))" (is "ix_valid b _ _ ?Q")
proof -
  let ?E = "pushed E n v l"
  have Ev: "distinct (E v l)" "v \<notin> set (E v l)" "\<forall>u\<in>set (E v l). on_layer (hnsw_graph ix1) l u"
    "n \<notin> set (E v l)"
    using inv v by (auto simp: conn_inv_def)
  have push: "ix_valid b (linked ix1 E) (update_edges v l (\<lambda>ns. ns @ [n])) (\<lambda>_. linked ix1 ?E)"
    by (rule ix_update_edges)
      (use v in \<open>auto simp: linked_layer linked_edges pushed_def intro!: linked_set_edges\<close>)
  have "ix_valid b (linked ix1 ?E) (prune_neighbors v l) ?Q"
  proof (rule ix_conseq [OF prune_neighbors_valid [where E = ?E, OF ok v(1)]])
    show "distinct (?E v l)" "v \<notin> set (?E v l)" "\<forall>u\<in>set (?E v l). on_layer (hnsw_graph ix1) l u"
      using Ev v(2) n by (auto simp: pushed_def)
  next
    fix x ix
    assume "\<exists>S. distinct S \<and> set S \<subseteq> set (?E v l) \<and> length S \<le> maximum_connections ix1 l
       \<and> linked ix1 (relinked ?E v l S) ix"
    then obtain S where S: "distinct S" "set S \<subseteq> insert n (set (E v l))"
      "length S \<le> maximum_connections ix1 l" and l: "linked ix1 (relinked ?E v l S) ix"
      by (auto simp: pushed_def)
    show "?Q x ix"
      using connect_step [OF inv v n S] l
      by (intro exI [of _ "relinked ?E v l S"]) (simp add: relinked_pushed_level)
  qed
  then show ?thesis
    unfolding connect_one_def
    by (intro ix_bind [OF ix_remember] ix_bind [OF ix_alloc] ix_bind [OF push])
      (use v in \<open>simp_all add: linked_layer\<close>)
qed

text \<open>A whole layer, then all layers from 0 up to the first connected one.\<close>

definition conn_state ::
  "hnsw_index \<Rightarrow> nat \<Rightarrow> bool \<Rightarrow> nat \<Rightarrow> (nat \<Rightarrow> nat \<Rightarrow> bool) \<Rightarrow> adjacency \<Rightarrow> hnsw_index \<Rightarrow> bool" where
  "conn_state ix1 n bi hi pend E ix \<longleftrightarrow>
     linked ix1 E ix \<and> conn_inv (hnsw_graph ix1) (maximum_connections ix1) n bi pend E
   \<and> (\<forall>m > hi. E n m = [])"

lemma connect_level_valid:
  assumes ok: "storage_ok ix1" and n: "on_layer (hnsw_graph ix1) l n" and hi: "l \<le> hi"
  shows "ix_valid b (\<lambda>ix. \<exists>E. conn_state ix1 n bi hi (\<lambda>u m. l \<le> m) E ix) (connect_level n l)
    (\<lambda>_ ix. \<exists>E. conn_state ix1 n bi hi (\<lambda>u m. Suc l \<le> m) E ix)"
proof (rule ix_ex)
  fix E :: adjacency
  let ?g = "hnsw_graph ix1" and ?lim = "maximum_connections ix1" and ?N = "E n l"
  let ?pend = "\<lambda>ys u m. l \<le> m \<and> \<not> (m = l \<and> u \<in> set ys)"
  let ?I = "\<lambda>ys ix. \<exists>F. conn_state ix1 n bi hi (?pend ys) F ix
      \<and> set ?N - set ys \<subseteq> set (F n l) \<and> set (F n l) \<subseteq> set ?N"
  have step: "ix_valid b (?I ys) (connect_one n l v) (\<lambda>_. ?I (ys @ [v]))"
    if split: "?N = ys @ v # zs" and N: "distinct ?N" "n \<notin> set ?N" "\<forall>u\<in>set ?N. on_layer ?g l u"
    for ys v zs
  proof (rule ix_ex)
    fix F :: adjacency
    have v: "on_layer ?g l v" "v \<noteq> n" "v \<notin> set ys" "v \<in> set ?N" using split N by auto
    have pend: "answered v l (?pend ys) = ?pend (ys @ [v])" by (auto simp: answered_def fun_eq_iff)
    have one: "ix_valid b (linked ix1 F) (connect_one n l v)
        (\<lambda>_ ix. \<exists>G. linked ix1 G ix \<and> conn_inv ?g ?lim n bi (?pend (ys @ [v])) G
           \<and> set (F n l) - {v} \<subseteq> set (G n l) \<and> set (G n l) \<subseteq> set (F n l)
           \<and> (\<forall>m. m \<noteq> l \<longrightarrow> G n m = F n m))"
      if F: "conn_inv ?g ?lim n bi (?pend ys) F" "set ?N - set ys \<subseteq> set (F n l)"
      unfolding pend [symmetric]
      by (rule connect_one_valid [OF ok F(1) v(1,2) _ _ n]) (use F(2) v(3,4) in auto)
    have "ix_valid b (\<lambda>ix. (conn_inv ?g ?lim n bi (?pend ys) F \<and> (\<forall>m > hi. F n m = [])
        \<and> set ?N - set ys \<subseteq> set (F n l) \<and> set (F n l) \<subseteq> set ?N) \<and> linked ix1 F ix) (connect_one n l v)
        (\<lambda>_. ?I (ys @ [v]))"
    proof (rule ix_pre)
      assume F: "conn_inv ?g ?lim n bi (?pend ys) F \<and> (\<forall>m > hi. F n m = [])
        \<and> set ?N - set ys \<subseteq> set (F n l) \<and> set (F n l) \<subseteq> set ?N"
      show "ix_valid b (linked ix1 F) (connect_one n l v) (\<lambda>_. ?I (ys @ [v]))"
      proof (rule ix_conseq [OF one])
        fix x ix
        assume "\<exists>G. linked ix1 G ix \<and> conn_inv ?g ?lim n bi (?pend (ys @ [v])) G
           \<and> set (F n l) - {v} \<subseteq> set (G n l) \<and> set (G n l) \<subseteq> set (F n l)
           \<and> (\<forall>m. m \<noteq> l \<longrightarrow> G n m = F n m)"
        then obtain G where G: "linked ix1 G ix" "conn_inv ?g ?lim n bi (?pend (ys @ [v])) G"
          "set (F n l) - {v} \<subseteq> set (G n l)" "set (G n l) \<subseteq> set (F n l)" "\<forall>m. m \<noteq> l \<longrightarrow> G n m = F n m"
          by blast
        have "conn_state ix1 n bi hi (?pend (ys @ [v])) G ix"
          using G F hi by (auto simp: conn_state_def)
        moreover have "set ?N - set (ys @ [v]) \<subseteq> set (G n l)" "set (G n l) \<subseteq> set ?N"
          using G(3,4) F by auto
        ultimately show "?I (ys @ [v]) ix" by blast
      qed (use F in simp_all)
    qed
    then show "ix_valid b (\<lambda>ix. conn_state ix1 n bi hi (?pend ys) F ix
        \<and> set ?N - set ys \<subseteq> set (F n l) \<and> set (F n l) \<subseteq> set ?N) (connect_one n l v) (\<lambda>_. ?I (ys @ [v]))"
      by (rule ix_conseq) (auto simp: conn_state_def)
  qed
  have finish: "\<exists>F. conn_state ix1 n bi hi (\<lambda>u m. Suc l \<le> m) F ix" if "?I ?N ix" for ix
  proof -
    from that obtain F where F: "conn_state ix1 n bi hi (?pend ?N) F ix" "set (F n l) \<subseteq> set ?N" by blast
    from F(1) have inv: "conn_inv ?g ?lim n bi (?pend ?N) F" by (simp add: conn_state_def)
    have new: "\<not> Suc l \<le> m" if "on_layer ?g m u" "u \<noteq> n" "n \<in> set (F u m)" for u m
    proof -
      have "\<not> ?pend ?N u m" using inv that unfolding conn_inv_def by blast
      then show ?thesis by auto
    qed
    have mirrored: "u \<in> set (F v m) \<or> (u = n \<and> Suc l \<le> m)"
      if "bi" "on_layer ?g m u" "v \<in> set (F u m)" for u v m
    proof -
      have "u \<in> set (F v m) \<or> (u = n \<and> ?pend ?N v m)"
        using inv that unfolding conn_inv_def by blast
      then show ?thesis using that(3) F(2) by (cases "m = l") auto
    qed
    have "conn_inv ?g ?lim n bi (\<lambda>u m. Suc l \<le> m) F"
      using inv new mirrored unfolding conn_inv_def by blast
    then show ?thesis using F by (auto simp: conn_state_def)
  qed
  have "ix_valid b (linked ix1 E) (connect_level n l) (\<lambda>_ ix. \<exists>F. conn_state ix1 n bi hi (\<lambda>u m. Suc l \<le> m) F ix)"
    if E: "conn_inv ?g ?lim n bi (\<lambda>u m. l \<le> m) E" "\<forall>m > hi. E n m = []"
  proof -
    have N: "distinct ?N" "n \<notin> set ?N" "\<forall>u\<in>set ?N. on_layer ?g l u"
      using E n by (auto simp: conn_inv_def)
    have each: "ix_valid b (?I []) (tx_each (connect_one n l) ?N) (\<lambda>_. ?I ?N)"
      by (rule ix_each) (rule step [OF _ N])
    have start: "?I [] ix" if "linked ix1 E ix" for ix
      using that E by (auto simp: conn_state_def)
    show ?thesis
      unfolding connect_level_def
    proof (rule ix_lift_det [where x = ?N])
      show "neighbors_at ix n l = Inr ?N" if "linked ix1 E ix" for ix
        using that n by (simp add: linked_layer linked_edges)
      show "ix_valid b (linked ix1 E) (tx_bind tx_alloc (\<lambda>_. tx_each (connect_one n l) ?N))
          (\<lambda>_ ix. \<exists>F. conn_state ix1 n bi hi (\<lambda>u m. Suc l \<le> m) F ix)"
        by (rule ix_bind [OF ix_alloc]) (rule ix_conseq [OF each], erule start, erule finish)
    qed
  qed
  then have "ix_valid b (\<lambda>ix. (conn_inv ?g ?lim n bi (\<lambda>u m. l \<le> m) E \<and> (\<forall>m > hi. E n m = [])) \<and> linked ix1 E ix)
      (connect_level n l) (\<lambda>_ ix. \<exists>F. conn_state ix1 n bi hi (\<lambda>u m. Suc l \<le> m) F ix)"
    by (intro ix_pre) blast
  then show "ix_valid b (conn_state ix1 n bi hi (\<lambda>u m. l \<le> m) E) (connect_level n l)
      (\<lambda>_ ix. \<exists>F. conn_state ix1 n bi hi (\<lambda>u m. Suc l \<le> m) F ix)"
    by (rule ix_conseq) (auto simp: conn_state_def)
qed

lemma connect_levels_valid:
  assumes ok: "storage_ok ix1" and n: "on_layer (hnsw_graph ix1) hi n"
  shows "ix_valid b (\<lambda>ix. \<exists>E. conn_state ix1 n bi hi (\<lambda>u m. True) E ix)
    (tx_each (connect_level n) [0..<hi + 1])
    (\<lambda>_ ix. \<exists>E. conn_state ix1 n bi hi (\<lambda>u m. hi < m) E ix)"
proof -
  let ?I = "\<lambda>(ys :: nat list) ix. \<exists>E. conn_state ix1 n bi hi (\<lambda>u m. length ys \<le> m) E ix"
  have step: "ix_valid b (?I ys) (connect_level n l) (\<lambda>_. ?I (ys @ [l]))"
    if split: "[0..<hi + 1] = ys @ l # zs" for ys l zs
  proof -
    have len: "hi + 1 = length ys + Suc (length zs)"
      using arg_cong [OF split, of length] by (simp del: upt_Suc)
    have "[0..<hi + 1] ! length ys = l" unfolding split by simp
    moreover have "length ys < hi + 1" using len by simp
    ultimately have l: "l = length ys" "l \<le> hi" by (simp_all del: upt_Suc)
    show ?thesis
      using connect_level_valid [OF ok on_layer_down [OF n l(2)] l(2), of b bi] l(1) by simp
  qed
  have "ix_valid b (?I []) (tx_each (connect_level n) [0..<hi + 1]) (\<lambda>_. ?I [0..<hi + 1])"
    by (rule ix_each [where I = ?I], rule step)
  moreover have "(length [0..<hi + 1] \<le> m) = (hi < m)" for m by (simp add: Suc_le_eq del: upt_Suc)
  ultimately show ?thesis by (simp del: upt_Suc)
qed

end
