(* ===== verification/Hnsw_Correct.thy ===== *)
theory Hnsw_Correct
  imports Hnsw_Invariant
begin

text \<open>
  The operations of the approximate index as a whole: insertion succeeds when memory lasts and
  is a map update, deletion is a deletion in the map, rebuilding keeps the live vectors, and
  every index the operations can build satisfies the invariant.
\<close>

section \<open>Planning the connections\<close>

definition plan_ok :: "hnsw_index \<Rightarrow> nat \<Rightarrow> nat \<Rightarrow> nat list list \<Rightarrow> bool" where
  "plan_ok ix k hi plan \<longleftrightarrow> length plan = k \<and>
     (\<forall>m < k. distinct (plan ! m) \<and> (\<forall>v\<in>set (plan ! m). on_layer (hnsw_graph ix) m v)
        \<and> length (plan ! m) \<le> maximum_connections ix m \<and> (hi < m \<longrightarrow> plan ! m = []))"

lemma plan_ok_update:
  assumes "plan_ok ix k hi plan" "m \<le> hi" "distinct ns" "\<forall>v\<in>set ns. on_layer (hnsw_graph ix) m v"
    and "length ns \<le> maximum_connections ix m"
  shows "plan_ok ix k hi (plan[m := ns])"
proof -
  have "plan[m := ns] ! i = (if i = m then ns else plan ! i)" if "i < length plan" for i
    using that by (cases "i = m") simp_all
  then show ?thesis using assms by (auto simp: plan_ok_def)
qed

lemma plan_connections_valid:
  assumes wf: "hnsw_wf ix" and q: "query_ok ix q"
  shows "plan_ok ix k hi plan \<Longrightarrow> n \<le> Suc hi \<Longrightarrow> n \<noteq> 0 \<longrightarrow> on_layer (hnsw_graph ix) (n - 1) entry \<Longrightarrow>
    ix_valid b (\<lambda>i. i = ix) (plan_connections q n entry plan) (\<lambda>plan' i. i = ix \<and> plan_ok ix k hi plan')"
proof (induction n arbitrary: entry plan)
  case 0
  then show ?case by (auto intro: ix_return)
next
  case (Suc l)
  let ?ef = "ef_construction (hnsw_config ix)" and ?m = "maximum_connections ix l"
  have ok: "storage_ok ix" "scores_ok ix" "graph_wf (hnsw_graph ix)" and ef: "0 < ?ef"
    using wf by (auto simp: hnsw_wf_def config_ok_def)
  have entry: "on_layer (hnsw_graph ix) l entry" using Suc.prems by simp
  note spec = search_layer_wf [OF ok q ef entry, where live_only = False and ctx = default_context
      and env = insertion_env and n = 0]
  obtain cs n' where layer: "search_layer ix q entry ?ef l False default_context insertion_env 0 = Inr (cs, n')"
    using spec by (auto simp: stopped_def split: sum.splits)
  then obtain nodes where nodes: "cs = map (cand_of ix q) nodes" "distinct nodes"
    "\<forall>v\<in>set nodes. on_layer (hnsw_graph ix) l v" "nodes \<noteq> []"
    using spec by auto
  have cs: "\<forall>c\<in>set cs. cand_node c < length (hnsw_graph ix)" "distinct (map cand_node cs)"
    using nodes by (auto simp: on_layer_def comp_def)
  from select_neighbors_wf [OF ok(1) cs, of ?m] obtain s where
    s: "select_neighbors ix cs ?m = Inr s" "distinct s" "set s \<subseteq> set nodes" "length s \<le> ?m"
    using nodes(1) by (auto simp: image_image)
  have next_entry: "on_layer (hnsw_graph ix) l (cand_node (hd cs))" "cs \<noteq> []"
    using nodes by (simp_all add: hd_map)
  have rest: "ix_valid b (\<lambda>i. i = ix) (plan_connections q l (cand_node (hd cs)) (plan[l := s]))
      (\<lambda>plan' i. i = ix \<and> plan_ok ix k hi plan')"
  proof (rule Suc.IH)
    show "plan_ok ix k hi (plan[l := s])"
      using Suc.prems s nodes(3) by (intro plan_ok_update) auto
    show "l \<noteq> 0 \<longrightarrow> on_layer (hnsw_graph ix) (l - 1) (cand_node (hd cs))"
      using next_entry(1) by (auto intro: on_layer_down)
  qed (use Suc.prems in simp)
  show ?case
    unfolding plan_connections.simps
    by (rule ix_bind [OF ix_alloc ix_lift_det [where x = "(cs, n')"]];
        (simp only: prod.case)?; (rule ix_bind [OF ix_alloc ix_lift_det [where x = s]])?)
      (use layer s next_entry rest in simp_all)
qed

section \<open>Appending the node\<close>

definition appended :: "hnsw_index \<Rightarrow> vector_id \<Rightarrow> f32 list \<Rightarrow> nat list list \<Rightarrow> hnsw_index" where
  "appended ix vid v levels =
     ix\<lparr>hnsw_vectors := hnsw_vectors ix @ v, hnsw_ids := hnsw_ids ix @ [vid],
        hnsw_graph := hnsw_graph ix @ [\<lparr>node_levels = levels, node_deleted = False\<rparr>],
        hnsw_id_to_node := (hnsw_id_to_node ix)(vid \<mapsto> length (hnsw_ids ix))\<rparr>"

lemma appended_fields [simp]:
  "hnsw_config (appended ix vid v levels) = hnsw_config ix"
  "hnsw_vectors (appended ix vid v levels) = hnsw_vectors ix @ v"
  "hnsw_ids (appended ix vid v levels) = hnsw_ids ix @ [vid]"
  "hnsw_graph (appended ix vid v levels) = hnsw_graph ix @ [\<lparr>node_levels = levels, node_deleted = False\<rparr>]"
  "maximum_connections (appended ix vid v levels) = maximum_connections ix"
  "hnsw_entry (appended ix vid v levels) = hnsw_entry ix"
  "hnsw_max_level (appended ix vid v levels) = hnsw_max_level ix"
  "hnsw_deleted (appended ix vid v levels) = hnsw_deleted ix"
  "hnsw_random (appended ix vid v levels) = hnsw_random ix"
  by (simp_all add: appended_def maximum_connections_def fun_eq_iff)

lemma append_node_valid:
  assumes "hnsw_id_to_node ix vid = None"
  shows "ix_valid b (\<lambda>i. i = ix) (append_node vid v levels (length (hnsw_ids ix)))
    (\<lambda>_ i. i = appended ix vid v levels)"
proof -
  define i1 where "i1 = ix\<lparr>hnsw_vectors := hnsw_vectors ix @ v\<rparr>"
  define i2 where "i2 = i1\<lparr>hnsw_ids := hnsw_ids i1 @ [vid]\<rparr>"
  define i3 where "i3 = i2\<lparr>hnsw_graph := hnsw_graph i2 @ [\<lparr>node_levels = levels, node_deleted = False\<rparr>]\<rparr>"
  have upd: "ix_valid b (\<lambda>i. i = a) (tx_update f) (\<lambda>_ i. i = f a)" for a f
    by (rule ix_update) simp
  have "ix_valid b (\<lambda>i. i = i3) (tx_insert_id vid (length (hnsw_ids ix)))
      (\<lambda>_ i. i = appended ix vid v levels)"
    by (rule ix_insert_id) (use assms in \<open>auto simp: i1_def i2_def i3_def appended_def\<close>)
  then show ?thesis
    unfolding append_node_def
    by (intro ix_bind [OF ix_alloc] ix_bind [OF upd]) (simp add: i1_def i2_def i3_def)
qed

lemma appended_storage:
  assumes "storage_ok ix" "hnsw_id_to_node ix vid = None" "length v = cfg_dimension (hnsw_config ix)"
    and "length (hnsw_ids ix) < 2 ^ 32 - 1"
  shows "storage_ok (appended ix vid v levels)"
proof -
  have fresh: "vid \<notin> set (hnsw_ids ix)"
    using assms(1,2) by (metis in_set_conv_nth option.distinct(1) storage_ok_def)
  have "(hnsw_id_to_node (appended ix vid v levels) w = Some i) =
      (i < Suc (length (hnsw_ids ix)) \<and> (hnsw_ids ix @ [vid]) ! i = w)" for w i
    using assms(1,2) fresh
    by (auto simp: appended_def storage_ok_def nth_append less_Suc_eq in_set_conv_nth)
  then show ?thesis
    using assms fresh by (simp add: storage_ok_def)
qed

lemma appended_layer:
  "on_layer (hnsw_graph (appended ix vid v levels)) l u \<longleftrightarrow>
     on_layer (hnsw_graph ix) l u \<or> (u = length (hnsw_graph ix) \<and> l < length levels)"
  by (auto simp: on_layer_def nth_append)

lemma appended_abs:
  assumes "storage_ok ix" "hnsw_id_to_node ix vid = None" "length v = cfg_dimension (hnsw_config ix)"
  shows "hnsw_abs (appended ix vid v levels) = (hnsw_abs ix)(vid \<mapsto> v)"
proof
  fix w
  let ?d = "cfg_dimension (hnsw_config ix)"
  have len: "length (hnsw_vectors ix) = length (hnsw_ids ix) * ?d" "length (hnsw_graph ix) = length (hnsw_ids ix)"
    using assms(1) by (simp_all add: storage_ok_def)
  have old: "row_of ?d (hnsw_vectors ix @ v) n = row_of ?d (hnsw_vectors ix) n" if "n < length (hnsw_ids ix)" for n
    using that len by (intro row_of_append_left) simp_all
  have new: "row_of ?d (hnsw_vectors ix @ v) (length (hnsw_ids ix)) = v"
    using len assms(3) by (intro row_of_append_last) simp_all
  have node: "n < length (hnsw_ids ix)" if "hnsw_id_to_node ix w = Some n" for n
    using assms(1) that by (auto simp: storage_ok_def)
  show "hnsw_abs (appended ix vid v levels) w = ((hnsw_abs ix)(vid \<mapsto> v)) w"
  proof (cases "w = vid")
    case True
    then show ?thesis using new len by (simp add: hnsw_abs_def appended_def nth_append)
  next
    case False
    then show ?thesis
      using node old len by (auto simp: hnsw_abs_def appended_def nth_append split: option.splits)
  qed
qed

section \<open>Insertion\<close>

text \<open>The connections of the appended node start from its plan, all of them unanswered.\<close>

lemma appended_connections:
  fixes vid v
  assumes wf: "hnsw_wf ix" and plan: "plan_ok ix (Suc level) hi levels"
  defines "ix1 \<equiv> appended ix vid v levels" and "n \<equiv> length (hnsw_graph ix)"
  shows "\<exists>E. conn_state ix1 n (symmetric (hnsw_graph ix)) hi (\<lambda>u m. True) E ix1"
proof -
  let ?g = "hnsw_graph ix" and ?g1 = "hnsw_graph ix1"
  have old: "distinct (edges ?g u m)" "u \<notin> set (edges ?g u m)"
    "\<forall>v\<in>set (edges ?g u m). on_layer ?g m v" "length (edges ?g u m) \<le> maximum_connections ix m"
    if "on_layer ?g m u" for u m
    using wf that by (auto simp: hnsw_wf_def graph_wf_def list_ok_def degrees_ok_def)
  have layer1: "on_layer ?g1 m u \<longleftrightarrow> on_layer ?g m u \<or> (u = n \<and> m < Suc level)" for m u
    using plan unfolding ix1_def n_def appended_layer by (simp add: plan_ok_def)
  have edges_old: "edges ?g1 u m = edges ?g u m" if "on_layer ?g m u" for u m
    using that by (simp add: ix1_def on_layer_def edges_def nth_append)
  have limit: "maximum_connections ix1 = maximum_connections ix" by (simp add: ix1_def)
  have edges_new: "edges ?g1 n m = levels ! m" for m
    by (simp add: ix1_def n_def edges_def)
  have lt: "u < n" if "on_layer ?g m u" for u m
    using that by (simp add: on_layer_def n_def)
  have new: "distinct (levels ! m)" "\<forall>v\<in>set (levels ! m). on_layer ?g m v"
    "length (levels ! m) \<le> maximum_connections ix m" "hi < m \<Longrightarrow> levels ! m = []" if "m < Suc level" for m
    using plan that by (auto simp: plan_ok_def)
  have "distinct (edges ?g1 u m) \<and> u \<notin> set (edges ?g1 u m) \<and> (\<forall>v\<in>set (edges ?g1 u m). on_layer ?g1 m v)
      \<and> length (edges ?g1 u m) \<le> maximum_connections ix1 m" if u: "on_layer ?g1 m u" for u m
  proof (cases "on_layer ?g m u")
    case True
    then show ?thesis using old [OF True] by (simp add: edges_old layer1 limit)
  next
    case False
    then have "u = n" "m < Suc level" using u layer1 by auto
    then show ?thesis using new [of m] lt by (auto simp: edges_new layer1 limit)
  qed
  moreover have "n \<notin> set (edges ?g1 u m)" if "on_layer ?g1 m u" "u \<noteq> n" for u m
    using that old(3) [of m u] lt by (auto simp: layer1 edges_old)
  moreover have "u \<in> set (edges ?g1 w m) \<or> u = n"
    if "symmetric ?g" "on_layer ?g1 m u" "w \<in> set (edges ?g1 u m)" for u w m
    using that old(3) [of m u] by (auto simp: symmetric_def layer1 edges_old)
  moreover define E where "E = (\<lambda>u m. if on_layer ?g1 m u then edges ?g1 u m else [])"
  ultimately have "conn_inv ?g1 (maximum_connections ix1) n (symmetric ?g) (\<lambda>u m. True) E"
    unfolding conn_inv_def by (auto simp: E_def)
  moreover have "E n m = []" if "hi < m" for m
    using new(4) [of m] that lt [of m n] by (auto simp: E_def layer1 edges_new)
  moreover have "linked ix1 E ix1" by (simp add: linked_def same_shape_def E_def)
  ultimately show ?thesis by (auto simp: conn_state_def)
qed

text \<open>What a finished insertion leaves behind.\<close>

definition inserted :: "hnsw_index \<Rightarrow> vector_id \<Rightarrow> f32 list \<Rightarrow> hnsw_index \<Rightarrow> bool" where
  "inserted ix vid v i \<longleftrightarrow>
     hnsw_wf i \<and> hnsw_config i = hnsw_config ix \<and> hnsw_ids i = hnsw_ids ix @ [vid]
   \<and> hnsw_vectors i = hnsw_vectors ix @ v \<and> hnsw_deleted i = hnsw_deleted ix
   \<and> hnsw_abs i = (hnsw_abs ix)(vid \<mapsto> v)
   \<and> (symmetric (hnsw_graph ix) \<longrightarrow> symmetric (hnsw_graph i))"

lemma same_shape_deleted:
  assumes "same_shape g h" shows "deleted_nodes h = deleted_nodes g"
proof -
  have "map node_deleted h = map node_deleted g"
    using assms by (intro nth_equalityI) (auto simp: same_shape_def)
  moreover have "deleted_nodes k = length (filter id (map node_deleted k))" for k
    by (simp add: deleted_nodes_def filter_map)
  ultimately show ?thesis by (simp only:)
qed

lemma linked_abs: "linked ix1 E ix \<Longrightarrow> storage_ok ix1 \<Longrightarrow> hnsw_abs ix = hnsw_abs ix1"
proof -
  assume l: "linked ix1 E ix" and ok: "storage_ok ix1"
  obtain g where ix: "ix = ix1\<lparr>hnsw_graph := g\<rparr>" using l by (auto simp: linked_def)
  have "node_deleted (g ! n) = node_deleted (hnsw_graph ix1 ! n)"
    if "hnsw_id_to_node ix1 vid = Some n" for vid n
    using l ok that by (simp add: linked_def same_shape_def ix storage_ok_def)
  then show ?thesis by (auto simp: hnsw_abs_def ix fun_eq_iff split: option.split)
qed

text \<open>Once every connection is answered the graph satisfies the invariant again.\<close>

lemma conn_state_graph:
  assumes "conn_state ix1 n bi hi (\<lambda>u m. hi < m) E i"
  shows "\<forall>u l. on_layer (hnsw_graph i) l u \<longrightarrow> list_ok (hnsw_graph i) u l (edges (hnsw_graph i) u l)"
    and "degrees_ok (maximum_connections i) (hnsw_graph i)"
    and "bi \<Longrightarrow> symmetric (hnsw_graph i)"
proof -
  have l: "linked ix1 E i" and inv: "conn_inv (hnsw_graph ix1) (maximum_connections ix1) n bi (\<lambda>u m. hi < m) E"
    and none: "\<forall>m > hi. E n m = []"
    using assms by (simp_all add: conn_state_def)
  note eq = linked_layer [OF l] linked_edges [OF l] linked_fields(5) [OF l]
  show "\<forall>u l. on_layer (hnsw_graph i) l u \<longrightarrow> list_ok (hnsw_graph i) u l (edges (hnsw_graph i) u l)"
    using inv by (auto simp: conn_inv_def list_ok_def eq)
  show "degrees_ok (maximum_connections i) (hnsw_graph i)"
    using inv by (auto simp: conn_inv_def degrees_ok_def eq)
  show "symmetric (hnsw_graph i)" if bi
    unfolding symmetric_def
  proof (intro allI impI)
    fix u v m assume u: "on_layer (hnsw_graph i) m u" and v: "v \<in> set (edges (hnsw_graph i) u m)"
    have "on_layer (hnsw_graph ix1) m v" using inv u v by (auto simp: conn_inv_def eq)
    moreover have "u \<in> set (E v m) \<or> (u = n \<and> hi < m)"
      using inv u v that unfolding conn_inv_def by (auto simp: eq)
    moreover have "\<not> (u = n \<and> hi < m)" using none u v by (auto simp: eq)
    ultimately show "u \<in> set (edges (hnsw_graph i) v m)" by (simp add: eq)
  qed
qed

lemma insertedI:
  assumes wf: "hnsw_wf ix" and fresh: "hnsw_id_to_node ix vid = None"
    and v: "length v = cfg_dimension (hnsw_config ix)" "unit_components v"
    and room: "length (hnsw_ids ix) < 2 ^ 32 - 1"
    and levels: "length levels = Suc level" "level \<le> maximum_generated_level"
    and l: "linked (appended ix vid v levels) E i"
    and graph: "\<forall>u l. on_layer (hnsw_graph i) l u \<longrightarrow> list_ok (hnsw_graph i) u l (edges (hnsw_graph i) u l)"
      "degrees_ok (maximum_connections i) (hnsw_graph i)"
      "symmetric (hnsw_graph ix) \<Longrightarrow> symmetric (hnsw_graph i)"
  shows "inserted ix vid v
    (if hnsw_graph ix = [] \<or> hnsw_max_level ix < level
     then i\<lparr>hnsw_entry := length (hnsw_graph ix), hnsw_max_level := level\<rparr> else i)" (is "inserted ix vid v ?i")
proof -
  let ?ix1 = "appended ix vid v levels" and ?n = "length (hnsw_graph ix)"
  have parts: "storage_ok ix" "scores_ok ix" "entry_ok ix" "config_ok (hnsw_config ix)"
    "hnsw_deleted ix = deleted_nodes (hnsw_graph ix)" "length (hnsw_random ix) = mt_size" "graph_wf (hnsw_graph ix)"
    using wf by (simp_all add: hnsw_wf_def)
  obtain g where i: "i = ?ix1\<lparr>hnsw_graph := g\<rparr>" using l by (auto simp: linked_def)
  have shape: "same_shape (hnsw_graph ?ix1) g" using l by (simp add: linked_def i)
  have len: "length g = Suc ?n" using shape by (simp add: same_shape_def)
  have storage1: "storage_ok ?ix1" by (rule appended_storage [OF parts(1) fresh v(1) room])
  have levels_of: "length (node_levels (g ! u)) = (if u < ?n then length (node_levels (hnsw_graph ix ! u)) else Suc level)"
    if "u < Suc ?n" for u
  proof -
    have "length (node_levels (g ! u)) = length (node_levels (hnsw_graph ?ix1 ! u))"
      using shape that by (simp add: same_shape_def)
    then show ?thesis using that levels by (auto simp: nth_append less_Suc_eq)
  qed
  have max_conn: "maximum_connections (i\<lparr>hnsw_entry := a, hnsw_max_level := c\<rparr>) = maximum_connections i" for a c
    by (simp add: maximum_connections_def fun_eq_iff)
  have same: "hnsw_graph ?i = g" "hnsw_config ?i = hnsw_config ix" "hnsw_ids ?i = hnsw_ids ix @ [vid]"
    "hnsw_vectors ?i = hnsw_vectors ix @ v" "hnsw_deleted ?i = hnsw_deleted ix"
    "hnsw_random ?i = hnsw_random ix" "maximum_connections ?i = maximum_connections i"
    using max_conn by (auto simp: i)
  have storage: "storage_ok ?i"
    using linked_storage [OF l storage1] by (auto simp: storage_ok_def)
  moreover have "scores_ok ?i" using parts(2) v(2) by (simp add: scores_ok_def same)
  moreover have "entry_ok ?i"
  proof -
    have old: "length (node_levels (hnsw_graph ix ! u)) \<le> Suc (hnsw_max_level ix)" if "u < ?n" for u
      using parts(3) that by (simp add: entry_ok_def)
    show ?thesis
    proof (cases "hnsw_graph ix = [] \<or> hnsw_max_level ix < level")
      case True
      then show ?thesis
        using levels len levels_of old by (fastforce simp: entry_ok_def i on_layer_def)
    next
      case False
      then have "on_layer (hnsw_graph ix) (hnsw_max_level ix) (hnsw_entry ix)"
        "hnsw_max_level ix \<le> maximum_generated_level"
        using parts(3) by (simp_all add: entry_ok_def)
      then have "on_layer g (hnsw_max_level ix) (hnsw_entry ix)"
        using levels_of len by (simp add: on_layer_def)
      moreover have "length (node_levels (g ! u)) \<le> Suc (hnsw_max_level ix)" if "u < length g" for u
        using levels_of [of u] old [of u] that False len by auto
      ultimately show ?thesis
        using False len \<open>hnsw_max_level ix \<le> maximum_generated_level\<close> by (auto simp: entry_ok_def i)
    qed
  qed
  moreover have "graph_wf g"
  proof -
    have "node_levels (g ! u) \<noteq> []" if "u < length g" for u
      using levels_of [of u] that len parts(7) by (cases "u < ?n") (auto simp: graph_wf_def)
    then show ?thesis using graph(1) by (simp add: graph_wf_def i)
  qed
  moreover have "deleted_nodes g = deleted_nodes (hnsw_graph ix)"
    using same_shape_deleted [OF shape] by (simp add: deleted_nodes_def)
  ultimately have "hnsw_wf ?i"
    using graph(2) parts by (simp add: hnsw_wf_def same) (simp add: i)
  moreover have "hnsw_abs ?i = (hnsw_abs ix)(vid \<mapsto> v)"
  proof -
    have "hnsw_abs ?i = hnsw_abs i" by (simp add: hnsw_abs_def fun_eq_iff split: option.split)
    then show ?thesis
      using linked_abs [OF l storage1] appended_abs [OF parts(1) fresh v(1)] by simp
  qed
  ultimately show ?thesis
    using graph(3) by (simp add: inserted_def same) (simp add: i)
qed

lemma insert_first_valid:
  assumes wf: "hnsw_wf ix" and fresh: "hnsw_id_to_node ix vid = None"
    and v: "length v = cfg_dimension (hnsw_config ix)" "unit_components v"
    and room: "length (hnsw_ids ix) < 2 ^ 32 - 1" and level: "level \<le> maximum_generated_level"
    and empty: "hnsw_graph ix = []"
  shows "ix_valid b (\<lambda>i. i = ix) (insert_first vid v level (length (hnsw_ids ix)))
    (\<lambda>_. inserted ix vid v)"
proof -
  let ?levels = "replicate (level + 1) []" and ?n = "length (hnsw_ids ix)"
  let ?ix1 = "appended ix vid v ?levels"
  have n: "?n = 0" using wf empty by (simp add: hnsw_wf_def storage_ok_def)
  have none: "edges (hnsw_graph ?ix1) u l = []" if "on_layer (hnsw_graph ?ix1) l u" for u l
    using that empty by (auto simp: on_layer_def edges_def simp del: replicate_Suc)
  have "inserted ix vid v
    (if hnsw_graph ix = [] \<or> hnsw_max_level ix < level
     then ?ix1\<lparr>hnsw_entry := length (hnsw_graph ix), hnsw_max_level := level\<rparr> else ?ix1)"
  proof (rule insertedI [OF wf fresh v room])
    show "linked ?ix1 (edges (hnsw_graph ?ix1)) ?ix1" by (simp add: linked_def same_shape_def)
  qed (use none level in \<open>simp_all add: list_ok_def degrees_ok_def symmetric_def\<close>)
  then have "inserted ix vid v (?ix1\<lparr>hnsw_entry := ?n, hnsw_max_level := level\<rparr>)"
    using n by (simp add: empty)
  then show ?thesis
    unfolding insert_first_def
    by (intro ix_bind [OF append_node_valid [OF fresh]] ix_update) simp
qed

lemma insert_connected_valid:
  assumes wf: "hnsw_wf ix" and fresh: "hnsw_id_to_node ix vid = None"
    and v: "length v = cfg_dimension (hnsw_config ix)" "unit_components v"
    and room: "length (hnsw_ids ix) < 2 ^ 32 - 1" and level: "level \<le> maximum_generated_level"
    and some: "hnsw_graph ix \<noteq> []"
  shows "ix_valid b (\<lambda>i. i = ix) (insert_connected vid v level (length (hnsw_ids ix)))
    (\<lambda>_. inserted ix vid v)"
proof -
  let ?g = "hnsw_graph ix" and ?n = "length (hnsw_ids ix)" and ?top = "hnsw_max_level ix"
  let ?hi = "min level ?top"
  have ok: "storage_ok ix" "graph_wf ?g" and n: "?n = length ?g"
    and start: "on_layer ?g ?top (hnsw_entry ix)"
    using wf some by (auto simp: hnsw_wf_def storage_ok_def entry_ok_def)
  have q: "query_ok ix v" using v by (simp add: query_ok_def)
  obtain entry k where down: "descend ix v default_context insertion_env level ?top (hnsw_entry ix) 0 =
      Inr (entry, k)" and entry: "on_layer ?g ?hi entry"
    using descend_wf [OF ok start, where q = v and ctx = default_context and env = insertion_env
        and stop = level and n = 0]
    by (auto simp: stopped_def split: sum.splits)
  have plan: "ix_valid b (\<lambda>i. i = ix) (plan_connections v (?hi + 1) entry (replicate (level + 1) []))
      (\<lambda>plan i. i = ix \<and> plan_ok ix (Suc level) ?hi plan)"
    by (rule plan_connections_valid [OF wf q])
      (use entry in \<open>auto simp: plan_ok_def simp del: replicate_Suc\<close>)
  have connect: "ix_valid b (\<lambda>i. i = appended ix vid v plan)
      (tx_bind (tx_each (connect_level ?n) [0..<?hi + 1]) (\<lambda>_.
        if ?top < level then tx_update (\<lambda>ix. ix\<lparr>hnsw_entry := ?n, hnsw_max_level := level\<rparr>)
        else tx_return ())) (\<lambda>_. inserted ix vid v)"
    if plan: "plan_ok ix (Suc level) ?hi plan" for plan
  proof (rule ix_bind)
    let ?ix1 = "appended ix vid v plan"
    have "on_layer (hnsw_graph ?ix1) ?hi ?n"
      unfolding appended_layer using plan n by (auto simp: plan_ok_def)
    from connect_levels_valid [OF appended_storage [OF ok(1) fresh v(1) room] this]
    show "ix_valid b (\<lambda>i. i = ?ix1) (tx_each (connect_level ?n) [0..<?hi + 1])
        (\<lambda>_ i. \<exists>E. conn_state ?ix1 ?n (symmetric ?g) ?hi (\<lambda>u m. ?hi < m) E i)"
      by (rule ix_conseq) (use appended_connections [OF wf plan] n in simp_all)
    show "ix_valid b (\<lambda>i. \<exists>E. conn_state ?ix1 ?n (symmetric ?g) ?hi (\<lambda>u m. ?hi < m) E i)
        (if ?top < level then tx_update (\<lambda>ix. ix\<lparr>hnsw_entry := ?n, hnsw_max_level := level\<rparr>)
         else tx_return ()) (\<lambda>_. inserted ix vid v)" for x
    proof (rule ix_ex)
      fix E
      have "inserted ix vid v
        (if ?g = [] \<or> ?top < level then i\<lparr>hnsw_entry := length ?g, hnsw_max_level := level\<rparr> else i)"
        if i: "conn_state ?ix1 ?n (symmetric ?g) ?hi (\<lambda>u m. ?hi < m) E i" for i
      proof (rule insertedI [OF wf fresh v room _ level _ conn_state_graph [OF i]])
        show "length plan = Suc level" using plan by (simp add: plan_ok_def)
        show "linked ?ix1 E i" using i by (simp add: conn_state_def)
      qed
      then show "ix_valid b (conn_state ?ix1 ?n (symmetric ?g) ?hi (\<lambda>u m. ?hi < m) E)
        (if ?top < level then tx_update (\<lambda>ix. ix\<lparr>hnsw_entry := ?n, hnsw_max_level := level\<rparr>)
         else tx_return ()) (\<lambda>_. inserted ix vid v)"
        using some n by (auto intro!: ix_update ix_return)
    qed
  qed
  show ?thesis
    unfolding insert_connected_def
  proof (rule ix_lift_det [where x = "(entry, k)"], simp add: down, simp only: prod.case,
      rule ix_bind [OF ix_alloc], rule ix_lift_det [where x = ?top], simp, rule ix_bind [OF plan])
    fix plan
    show "ix_valid b (\<lambda>i. i = ix \<and> plan_ok ix (Suc level) ?hi plan)
        (tx_bind (append_node vid v plan ?n) (\<lambda>_.
         tx_bind (tx_each (connect_level ?n) [0..<?hi + 1]) (\<lambda>_.
           if ?top < level then tx_update (\<lambda>ix. ix\<lparr>hnsw_entry := ?n, hnsw_max_level := level\<rparr>)
           else tx_return ()))) (\<lambda>_. inserted ix vid v)"
      unfolding conj_commute [of "_ = ix"]
      by (rule ix_pre) (intro ix_bind [OF append_node_valid [OF fresh]] connect)
  qed
qed

lemma insertion_valid:
  assumes wf: "hnsw_wf ix" and lg: "log_contract lg" and fresh: "hnsw_id_to_node ix vid = None"
    and v: "length v = cfg_dimension (hnsw_config ix)" "unit_components v"
    and room: "length (hnsw_ids ix) < 2 ^ 32 - 1"
  shows "ix_valid b (\<lambda>i. i = ix) (insertion lg vid v) (\<lambda>_. inserted ix vid v)"
proof -
  let ?m = "max_connections (hnsw_config ix)" and ?st = "snd (mt_next (hnsw_random ix))"
  let ?ix = "ix\<lparr>hnsw_random := ?st\<rparr>"
  have "2 \<le> ?m" "?m \<le> 2 ^ 31 - 1" using wf by (simp_all add: hnsw_wf_def config_ok_def)
  from random_level_total [OF lg this, of "hnsw_random ix"] obtain level where
    level: "random_level lg ?m (hnsw_random ix) = Inr (level, ?st)" "level \<le> maximum_generated_level"
    by blast
  have same: "maximum_connections ?ix = maximum_connections ix" "hnsw_abs ?ix = hnsw_abs ix"
    by (simp_all add: maximum_connections_def hnsw_abs_def fun_eq_iff split: option.split)
  have wf': "hnsw_wf ?ix"
    using wf same by (simp add: hnsw_wf_def storage_ok_def scores_ok_def entry_ok_def)
  have ins: "inserted ?ix vid v = inserted ix vid v" by (simp add: inserted_def same fun_eq_iff)
  have n: "length (hnsw_ids ix) mod 2 ^ 32 = length (hnsw_ids ix)" using room by simp
  have "ix_valid b (\<lambda>i. i = ?ix)
      (if hnsw_graph ix = [] then insert_first vid v level (length (hnsw_ids ix))
       else insert_connected vid v level (length (hnsw_ids ix))) (\<lambda>_. inserted ix vid v)"
    using insert_first_valid [OF wf' _ _ v(2) _ level(2), of vid b]
      insert_connected_valid [OF wf' _ _ v(2) _ level(2), of vid b] fresh v(1) room
    by (simp add: ins)
  moreover have "ix_valid b (\<lambda>i. i = ix) (tx_update (\<lambda>i. i\<lparr>hnsw_random := ?st\<rparr>)) (\<lambda>_ i. i = ?ix)"
    by (rule ix_update) simp
  ultimately show ?thesis
    unfolding insertion_def
    apply (intro ix_lift_det [where x = "(level, ?st)"])
    subgoal using level by simp
    apply (simp only: prod.case)
    apply (rule ix_bind, assumption)
    apply (rule ix_lift_det [where x = "(length (hnsw_ids ix), hnsw_graph ix = [])"])
    subgoal using n by simp
    by simp
qed

text \<open>Insertion of a normalized vector, and \<open>add\<close>.\<close>

lemma insert_normalized_cases:
  assumes "hnsw_wf ix" "log_contract lg" "hnsw_id_to_node ix vid = None"
    and "length v = cfg_dimension (hnsw_config ix)" "unit_components v"
    and "length (hnsw_ids ix) < 2 ^ 32 - 1"
  shows "case insert_normalized budget lg vid v ix of
      (ix', Inr u) \<Rightarrow> inserted ix vid v ix'
    | (ix', Inl e) \<Rightarrow> ix' = ix \<and> (e = Bad_alloc \<and> budget \<noteq> None \<or>
        (\<exists>m. e = Length_error m) \<and> vector_max_size - length (hnsw_vectors ix) < cfg_dimension (hnsw_config ix))"
proof -
  let ?r = "insertion lg vid v (tx_begin budget ix)"
  have "case ?r of (tx, Inr u) \<Rightarrow> inserted ix vid v (tx_index tx) | (tx, Inl e) \<Rightarrow> e = Bad_alloc \<and> budget \<noteq> None"
    using tx_validD [OF insertion_valid [OF assms, of budget, unfolded ix_valid_def], of "tx_begin budget ix"]
    by (auto simp: tx_begin_def split: prod.splits sum.splits)
  moreover have "length (hnsw_graph ix) = length (hnsw_ids ix)"
    using assms(1) by (simp add: hnsw_wf_def storage_ok_def)
  ultimately show ?thesis
    using insert_normalized_rollback [of ix budget lg vid v]
    by (fastforce simp: insert_normalized_def split: prod.splits sum.splits if_splits)
qed

end
