(* ===== verification/Hnsw_Theorems.thy ===== *)
theory Hnsw_Theorems
  imports Hnsw_Correct
begin

text \<open>
  What the operations of the approximate index promise: insertion and deletion as updates of
  the map from IDs to vectors, rebuilding, counters, and the invariant of every index the
  operations can build.
\<close>

section \<open>Operations on the invariant\<close>

lemma hnsw_create_wf:
  assumes "hnsw_create avx2 cfg = Inr ix" "cfg_dimension cfg < score_dimension (cfg_kernel cfg)"
  shows "hnsw_wf ix" "symmetric (hnsw_graph ix)" "hnsw_config ix = cfg" "hnsw_ids ix = []"
    "hnsw_deleted ix = 0" "hnsw_abs ix = Map.empty" "hnsw_vectors ix = []"
proof -
  have ok: "config_ok cfg" and ix: "ix = \<lparr>hnsw_config = cfg, hnsw_vectors = [], hnsw_ids = [], hnsw_graph = [],
      hnsw_id_to_node = Map.empty, hnsw_random = mt_seed (random_seed cfg),
      hnsw_entry = 0, hnsw_max_level = 0, hnsw_deleted = 0\<rparr>"
    using assms(1) by (auto simp: hnsw_create_def result_simps validate_config_Inr)
  show "hnsw_wf ix" using ok assms(2)
    by (simp add: ix hnsw_wf_def storage_ok_def scores_ok_def entry_ok_def graph_wf_def degrees_ok_def
        on_layer_def deleted_nodes_def)
  show "symmetric (hnsw_graph ix)" "hnsw_config ix = cfg" "hnsw_ids ix = []" "hnsw_deleted ix = 0"
    "hnsw_abs ix = Map.empty" "hnsw_vectors ix = []"
    by (simp_all add: ix symmetric_def on_layer_def hnsw_abs_def fun_eq_iff)
qed

text \<open>Node numbers are 32 bits wide and the float array has a largest size.\<close>

definition hnsw_full :: "hnsw_index \<Rightarrow> bool" where
  "hnsw_full ix \<longleftrightarrow> 2 ^ 32 - 1 \<le> length (hnsw_ids ix)
     \<or> vector_max_size - length (hnsw_vectors ix) < cfg_dimension (hnsw_config ix)"

lemma hnsw_add_cases:
  assumes wf: "hnsw_wf ix" and lg: "log_contract lg"
  shows "case hnsw_add budget lg vid v ix of
      (ix', Inr u) \<Rightarrow> hnsw_id_to_node ix vid = None
        \<and> (\<exists>r. normalize_l2 v = Inr r \<and> length v = cfg_dimension (hnsw_config ix) \<and> inserted ix vid r ix')
    | (ix', Inl e) \<Rightarrow> ix' = ix \<and>
        (if length v \<noteq> cfg_dimension (hnsw_config ix) then
           e = Invalid_argument ''vector dimension does not match index dimension''
         else if hnsw_id_to_node ix vid \<noteq> None then e = Invalid_argument ''vector ID already exists''
         else (\<exists>m. e = Length_error m) \<and> hnsw_full ix \<or> normalize_l2 v = Inl e \<or> e = Bad_alloc \<and> budget \<noteq> None)"
proof (cases "length v \<noteq> cfg_dimension (hnsw_config ix) \<or> hnsw_id_to_node ix vid \<noteq> None
    \<or> 2 ^ 32 - 1 \<le> length (hnsw_ids ix) \<or> (\<exists>e. normalize_l2 v = Inl e) \<or> budget = Some 0")
  case True
  then show ?thesis by (cases "normalize_l2 v") (auto simp: hnsw_add_def hnsw_full_def)
next
  case False
  then obtain r where r: "normalize_l2 v = Inr r" by (cases "normalize_l2 v") auto
  have len: "length v = cfg_dimension (hnsw_config ix)" and fresh: "hnsw_id_to_node ix vid = None"
    and room: "length (hnsw_ids ix) < 2 ^ 32 - 1" and b: "budget \<noteq> Some 0" using False by auto
  have "query_ok ix r" by (rule hnsw_query_ok [OF wf r len])
  then have "length r = cfg_dimension (hnsw_config ix)" "unit_components r" by (simp_all add: query_ok_def)
  from insert_normalized_cases [OF wf lg fresh this room, of "map_option (\<lambda>n. n - 1) budget"]
  show ?thesis
    using False len fresh r b by (auto simp: hnsw_add_def hnsw_full_def split: prod.splits sum.splits)
qed

lemma hnsw_erase_facts:
  assumes wf: "hnsw_wf ix"
  shows "\<exists>ix' b. hnsw_erase vid ix = Inr (ix', b) \<and> (b \<longleftrightarrow> hnsw_abs ix vid \<noteq> None) \<and> hnsw_wf ix'
    \<and> hnsw_abs ix' = (hnsw_abs ix)(vid := None) \<and> hnsw_config ix' = hnsw_config ix
    \<and> edges (hnsw_graph ix') = edges (hnsw_graph ix)
    \<and> on_layer (hnsw_graph ix') = on_layer (hnsw_graph ix)"
proof (cases "hnsw_abs ix vid")
  case None
  have "hnsw_erase vid ix = Inr (ix, False)"
  proof (cases "hnsw_id_to_node ix vid")
    case (Some node)
    then have "node < length (hnsw_graph ix)" using wf by (auto simp: hnsw_wf_def storage_ok_def)
    moreover have "node_deleted (hnsw_graph ix ! node)"
      using None Some by (simp add: hnsw_abs_def split: if_splits)
    ultimately show ?thesis using Some by (simp add: hnsw_erase_def)
  qed (simp add: hnsw_erase_def)
  then show ?thesis using wf None by (intro exI [of _ ix] exI [of _ False]) (simp add: fun_upd_idem)
next
  case (Some r)
  let ?g = "hnsw_graph ix"
  obtain node where node: "hnsw_id_to_node ix vid = Some node" "\<not> node_deleted (?g ! node)"
    using Some by (auto simp: hnsw_abs_def split: option.splits if_splits)
  then have lt: "node < length ?g" using wf by (auto simp: hnsw_wf_def storage_ok_def)
  define h where "h = ?g[node := (?g ! node)\<lparr>node_deleted := True\<rparr>]"
  define ix' where "ix' = ix\<lparr>hnsw_graph := h, hnsw_deleted := hnsw_deleted ix + 1\<rparr>"
  have levels: "node_levels (h ! u) = node_levels (?g ! u)" for u
    using lt by (simp add: h_def nth_list_update)
  have eq: "edges h = edges ?g" "on_layer h = on_layer ?g" "length h = length ?g"
    by (auto simp: fun_eq_iff edges_def on_layer_def levels) (simp_all add: h_def)
  have "deleted_nodes h = deleted_nodes ?g + 1"
  proof -
    have "?g = take node ?g @ ?g ! node # drop (Suc node) ?g" by (rule id_take_nth_drop [OF lt])
    then have "deleted_nodes ?g = length (filter node_deleted (take node ?g))
        + length (filter node_deleted (drop (Suc node) ?g))"
      unfolding deleted_nodes_def by (metis (no_types) filter.simps(2) filter_append length_append node(2))
    moreover have "h = take node ?g @ (?g ! node)\<lparr>node_deleted := True\<rparr> # drop (Suc node) ?g"
      unfolding h_def by (rule upd_conv_take_nth_drop [OF lt])
    ultimately show ?thesis by (simp add: deleted_nodes_def)
  qed
  moreover have "maximum_connections ix' = maximum_connections ix"
    by (simp add: ix'_def maximum_connections_def fun_eq_iff)
  ultimately have "hnsw_wf ix'"
    using wf levels eq
    by (auto simp: hnsw_wf_def storage_ok_def scores_ok_def entry_ok_def graph_wf_def list_ok_def
        degrees_ok_def ix'_def)
  moreover have "hnsw_abs ix' w = ((hnsw_abs ix)(vid := None)) w" for w
  proof (cases "hnsw_id_to_node ix w")
    case (Some n)
    then have "n = node \<longleftrightarrow> w = vid" using node(1) wf
      by (metis hnsw_wf_def option.inject storage_ok_def)
    then show ?thesis using Some lt by (auto simp: hnsw_abs_def ix'_def h_def nth_list_update)
  next
    case None
    then show ?thesis using node(1) by (auto simp: hnsw_abs_def ix'_def)
  qed
  moreover have "hnsw_erase vid ix = Inr (ix', True)"
    using node lt by (simp add: hnsw_erase_def read_at_def ix'_def h_def)
  ultimately show ?thesis using Some eq by (auto simp: ix'_def)
qed

section \<open>Rebuilding\<close>

lemma live_ids_facts:
  assumes "hnsw_wf ix"
  shows "\<exists>vids. live_ids ix = Inr vids \<and> set vids = dom (hnsw_abs ix) \<and> distinct vids \<and> sorted vids
    \<and> length vids = hnsw_size ix"
proof -
  let ?zs = "filter (\<lambda>(vid, g). \<not> node_deleted g) (zip (hnsw_ids ix) (hnsw_graph ix))"
  have ok: "storage_ok ix" and len: "length (hnsw_graph ix) = length (hnsw_ids ix)"
    using assms by (simp_all add: hnsw_wf_def storage_ok_def)
  have zip: "zip (hnsw_ids ix) (hnsw_graph ix) =
      map (\<lambda>i. (hnsw_ids ix ! i, hnsw_graph ix ! i)) [0..<length (hnsw_graph ix)]"
    using len by (intro nth_equalityI) simp_all
  have ids: "map fst ?zs = map (\<lambda>i. hnsw_ids ix ! i) (live_nodes ix)"
  proof -
    have "wanted ix True = (\<lambda>i. \<not> node_deleted (hnsw_graph ix ! i))" by (simp add: wanted_def fun_eq_iff)
    then show ?thesis by (simp add: zip filter_map comp_def live_nodes_def)
  qed
  have "set (map fst ?zs) = dom (hnsw_abs ix)"
  proof (intro equalityI subsetI)
    fix vid assume "vid \<in> set (map fst ?zs)"
    then obtain i where "i < length (hnsw_graph ix)" "wanted ix True i" "vid = hnsw_ids ix ! i"
      unfolding ids by (auto simp: set_live_nodes)
    then show "vid \<in> dom (hnsw_abs ix)" using live_abs [OF assms] by auto
  next
    fix vid assume "vid \<in> dom (hnsw_abs ix)"
    then obtain r where "hnsw_abs ix vid = Some r" by auto
    from abs_live [OF assms this] show "vid \<in> set (map fst ?zs)" unfolding ids by auto
  qed
  moreover have "distinct (map fst ?zs)"
    unfolding ids distinct_map using ok
    by (auto simp: live_nodes_def inj_on_def storage_ok_def nth_eq_iff_index_eq)
  moreover have "length (map fst ?zs) = hnsw_size ix"
    unfolding ids using length_live_nodes [OF assms] by simp
  ultimately show ?thesis using len by (simp add: live_ids_def)
qed

lemma rebuild_from_facts:
  assumes wf: "hnsw_wf ix" and lg: "log_contract lg"
    and room: "length (hnsw_vectors ix) \<le> vector_max_size"
  shows "hnsw_wf res \<Longrightarrow> distinct (done_ids @ vids) \<Longrightarrow> set (done_ids @ vids) \<subseteq> dom (hnsw_abs ix) \<Longrightarrow>
    hnsw_ids res = done_ids \<Longrightarrow> hnsw_deleted res = 0 \<Longrightarrow>
    cfg_dimension (hnsw_config res) = cfg_dimension (hnsw_config ix) \<Longrightarrow>
    hnsw_abs res = hnsw_abs ix |` set done_ids \<Longrightarrow>
    \<exists>ix'. rebuild_from lg ix vids res = Inr ix' \<and> hnsw_wf ix' \<and> hnsw_ids ix' = done_ids @ vids
      \<and> hnsw_deleted ix' = 0 \<and> hnsw_config ix' = hnsw_config res
      \<and> hnsw_abs ix' = hnsw_abs ix |` set (done_ids @ vids)
      \<and> (symmetric (hnsw_graph res) \<longrightarrow> symmetric (hnsw_graph ix'))"
proof (induction vids arbitrary: done_ids res)
  case Nil
  then show ?case by simp
next
  case (Cons vid vids)
  let ?d = "cfg_dimension (hnsw_config ix)"
  have ok: "storage_ok ix" "storage_ok res" using wf Cons.prems(1) by (simp_all add: hnsw_wf_def)
  obtain r where r: "hnsw_abs ix vid = Some r" using Cons.prems(3) by auto
  then obtain node where node: "hnsw_id_to_node ix vid = Some node" "node < length (hnsw_graph ix)"
    "r = row_of ?d (hnsw_vectors ix) node"
    using ok(1) by (auto simp: hnsw_abs_def storage_ok_def split: option.splits if_splits)
  have fresh: "hnsw_id_to_node res vid = None"
    using Cons.prems(2,4) ok(2) by (cases "hnsw_id_to_node res vid") (auto simp: storage_ok_def)
  have unit: "unit_components r" using wf unfolding node(3) hnsw_wf_def scores_ok_def
    by (blast intro: unit_components_subset [OF _ set_row_of])
  have len: "length r = cfg_dimension (hnsw_config res)"
    using ok(1) node(2) Cons.prems(6) unfolding node(3) storage_ok_def by (simp only: length_row_of)
  have fewer: "length done_ids < length (hnsw_ids ix)"
  proof -
    have "dom (hnsw_abs ix) \<subseteq> set (hnsw_ids ix)"
      using ok(1) by (auto simp: hnsw_abs_def storage_ok_def split: option.splits)
    then have "card (set (done_ids @ vid # vids)) \<le> length (hnsw_ids ix)"
      using Cons.prems(3) by (meson List.finite_set card_length card_mono le_trans order_trans)
    then show ?thesis using distinct_card [OF Cons.prems(2)] by simp
  qed
  have few: "length (hnsw_ids res) < 2 ^ 32 - 1"
    using fewer ok(1) Cons.prems(4) by (simp add: storage_ok_def)
  have fits: "\<not> vector_max_size - length (hnsw_vectors res) < cfg_dimension (hnsw_config res)"
  proof -
    have "Suc (length done_ids) * ?d \<le> length (hnsw_ids ix) * ?d" using fewer by (intro mult_le_mono1) simp
    then show ?thesis using ok room Cons.prems(4,6) by (simp add: storage_ok_def)
  qed
  obtain res' where ins: "insert_normalized None lg vid r res = (res', Inr ())" "inserted res vid r res'"
    using insert_normalized_cases [OF Cons.prems(1) lg fresh len unit few, of None] fits
    by (auto split: prod.splits sum.splits)
  have row: "row_at ix node = Inr r" using row_at_wf [OF ok(1) node(2)] node(3) by simp
  have "hnsw_abs res' = hnsw_abs ix |` set (done_ids @ [vid])"
    using ins(2) Cons.prems(7) r by (auto simp: inserted_def restrict_map_def fun_eq_iff)
  from Cons.IH [OF _ _ _ _ _ _ this] Cons.prems ins(2)
  show ?case using node(1) row ins(1) by (auto simp: inserted_def)
qed

section \<open>Theorems\<close>

lemma foldl_max_le: "foldl (\<lambda>d x. max d (f x)) a xs \<le> (b :: nat) \<longleftrightarrow> a \<le> b \<and> (\<forall>x\<in>set xs. f x \<le> b)"
  by (induction xs arbitrary: a) auto

text \<open>C6: insertion into the approximate index. On a well-formed index \<open>add\<close> either stores the
  normalised vector under its new ID and leaves everything else as it was (the new graph is
  again well formed, within the degree limits, and symmetric if the old one was), or changes
  nothing and throws: for a wrong dimension, a known ID (also a deleted one), a vector that
  cannot be normalised, a full index, or because an allocation failed. No other failure and no
  out-of-range access exists.\<close>

theorem hnsw_add_refines:
  assumes "hnsw_wf ix" "log_contract lg"
  shows "case hnsw_add budget lg vid v ix of
      (ix', Inr u) \<Rightarrow> hnsw_id_to_node ix vid = None
        \<and> (\<exists>r. normalize_l2 v = Inr r \<and> hnsw_abs ix' = (hnsw_abs ix)(vid \<mapsto> r))
        \<and> hnsw_wf ix' \<and> hnsw_ids ix' = hnsw_ids ix @ [vid]
        \<and> (symmetric (hnsw_graph ix) \<longrightarrow> symmetric (hnsw_graph ix'))
    | (ix', Inl e) \<Rightarrow> ix' = ix \<and>
        (if length v \<noteq> cfg_dimension (hnsw_config ix) then
           e = Invalid_argument ''vector dimension does not match index dimension''
         else if hnsw_id_to_node ix vid \<noteq> None then e = Invalid_argument ''vector ID already exists''
         else (\<exists>m. e = Length_error m) \<and> hnsw_full ix \<or> normalize_l2 v = Inl e
           \<or> e = Bad_alloc \<and> budget \<noteq> None)"
  using hnsw_add_cases [OF assms, where budget = budget and vid = vid and v = v]
  by (auto simp: inserted_def split: prod.splits sum.splits)

theorem hnsw_add_refines_witness:
  "hnsw_abs (fst (hnsw_add None coarse_log 3 [0xC0000000] hnsw_sample)) 3 = Some [0xBF800000]"
proof -
  have "\<not> hnsw_full hnsw_sample" by (simp add: hnsw_full_def hnsw_sample_def vector_max_size_def)
  moreover have "cfg_dimension (hnsw_config hnsw_sample) = 1" "hnsw_id_to_node hnsw_sample 3 = None"
    by (simp_all add: hnsw_sample_def)
  ultimately show ?thesis
    using hnsw_add_refines [OF hnsw_sample_wf coarse_log_contract, where budget = None and vid = 3
        and v = "[0xC0000000]"]
    by (cases "hnsw_add None coarse_log 3 [0xC0000000] hnsw_sample") (auto split: sum.splits)
qed

text \<open>Deletion from the approximate index. \<open>erase\<close> never fails; it returns whether the ID
  was live, removes its vector from the stored map and leaves every other vector and every
  edge of the graph in place.\<close>

theorem hnsw_erase_refines:
  assumes "hnsw_wf ix"
  shows "\<exists>ix' b. hnsw_erase vid ix = Inr (ix', b) \<and> (b \<longleftrightarrow> hnsw_abs ix vid \<noteq> None)
    \<and> hnsw_abs ix' = (hnsw_abs ix)(vid := None) \<and> hnsw_wf ix'
    \<and> edges (hnsw_graph ix') = edges (hnsw_graph ix)"
  using hnsw_erase_facts [OF assms, of vid] by blast

theorem hnsw_erase_refines_witness:
  "\<exists>ix'. hnsw_erase 7 hnsw_sample = Inr (ix', True) \<and> hnsw_abs ix' 7 = None"
proof -
  have "hnsw_abs hnsw_sample 7 \<noteq> None" by (simp add: hnsw_abs_def hnsw_sample_def)
  then show ?thesis using hnsw_erase_refines [OF hnsw_sample_wf, of 7] by auto
qed

lemma hnsw_rebuild_facts:
  assumes "hnsw_wf ix" "log_contract lg" "length (hnsw_vectors ix) \<le> vector_max_size"
    and "cfg_kernel (hnsw_config ix) = Avx2 \<longrightarrow> avx2"
  shows "\<exists>ix'. hnsw_rebuild avx2 lg seed ix = Inr ix' \<and> hnsw_abs ix' = hnsw_abs ix
    \<and> hnsw_wf ix' \<and> symmetric (hnsw_graph ix') \<and> hnsw_deleted ix' = 0
    \<and> sorted (hnsw_ids ix') \<and> set (hnsw_ids ix') = dom (hnsw_abs ix)
    \<and> hnsw_config ix' = (hnsw_config ix)\<lparr>random_seed := seed\<rparr>"
proof -
  let ?cfg = "(hnsw_config ix)\<lparr>random_seed := seed\<rparr>"
  have cfg: "config_ok ?cfg" "cfg_dimension ?cfg < score_dimension (cfg_kernel ?cfg)"
    using assms(1) by (simp_all add: hnsw_wf_def config_ok_def scores_ok_def)
  then obtain start where start: "hnsw_create avx2 ?cfg = Inr start"
    using assms(4) by (auto simp: hnsw_create_def validate_config_Inr result_simps
        resolve_dot_product_kernel_Inr)
  note fresh = hnsw_create_wf [OF start cfg(2)]
  obtain vids where vids: "live_ids ix = Inr vids" "set vids = dom (hnsw_abs ix)" "distinct vids" "sorted vids"
    using live_ids_facts [OF assms(1)] by blast
  have "hnsw_abs ix |` set vids = hnsw_abs ix" using vids(2) by (auto simp: restrict_map_def fun_eq_iff)
  then show ?thesis
    using rebuild_from_facts [OF assms(1-3) fresh(1), of "[]" vids] fresh vids start
    by (auto simp: hnsw_rebuild_def)
qed

text \<open>Rebuilding drops the tombstones and keeps the contents: on a well-formed index
  whose floats fit the vector limit, \<open>rebuild\<close> succeeds; the new index stores exactly the
  live vectors under their IDs, in increasing order of ID and unchanged to the bit, has no
  tombstone, the requested seed, and a symmetric well-formed graph.\<close>

theorem hnsw_rebuild_refines:
  assumes "hnsw_wf ix" "log_contract lg" "length (hnsw_vectors ix) \<le> vector_max_size"
    and "cfg_kernel (hnsw_config ix) = Avx2 \<longrightarrow> avx2"
  shows "\<exists>ix'. hnsw_rebuild avx2 lg seed ix = Inr ix' \<and> hnsw_abs ix' = hnsw_abs ix
    \<and> hnsw_wf ix' \<and> symmetric (hnsw_graph ix') \<and> hnsw_deleted ix' = 0
    \<and> sorted (hnsw_ids ix') \<and> set (hnsw_ids ix') = dom (hnsw_abs ix)
    \<and> hnsw_config ix' = (hnsw_config ix)\<lparr>random_seed := seed\<rparr>"
  using assms by (rule hnsw_rebuild_facts)

theorem hnsw_rebuild_refines_witness:
  "\<exists>ix'. hnsw_rebuild False coarse_log 1 hnsw_sample = Inr ix' \<and> set (hnsw_ids ix') = {7, 9}"
proof -
  have "dom (hnsw_abs hnsw_sample) = {7, 9}"
    by (auto simp: hnsw_abs_def hnsw_sample_def split: if_splits)
  then show ?thesis
    using hnsw_rebuild_refines [OF hnsw_sample_wf coarse_log_contract, where ?avx2.0 = False and seed = 1]
    by (auto simp: hnsw_sample_def vector_max_size_def)
qed

text \<open>The counters. The statistics of a well-formed index add up: every node is live or
  deleted, the live count is the number of stored IDs, and no adjacency list is longer than
  twice the configured number of connections.\<close>

theorem hnsw_stats_consistent:
  assumes "hnsw_wf ix"
  shows "stat_live_count (hnsw_stats_of ix) + stat_deleted_count (hnsw_stats_of ix)
        = stat_node_count (hnsw_stats_of ix)
    \<and> stat_live_count (hnsw_stats_of ix) = card (dom (hnsw_abs ix))
    \<and> stat_maximum_node_degree (hnsw_stats_of ix) \<le> 2 * max_connections (hnsw_config ix)"
proof -
  have wf: "storage_ok ix" "hnsw_deleted ix = deleted_nodes (hnsw_graph ix)"
    "degrees_ok (maximum_connections ix) (hnsw_graph ix)"
    using assms by (simp_all add: hnsw_wf_def)
  have "hnsw_deleted ix \<le> length (hnsw_ids ix)"
    using wf(1) by (metis deleted_nodes_def length_filter_le storage_ok_def wf(2))
  moreover have "hnsw_size ix = card (dom (hnsw_abs ix))"
    using live_ids_facts [OF assms] by (metis distinct_card)
  moreover have "node_degree g \<le> 2 * max_connections (hnsw_config ix)" if g: "g \<in> set (hnsw_graph ix)" for g
  proof -
    obtain u where u: "u < length (hnsw_graph ix)" "g = hnsw_graph ix ! u"
      using g by (metis in_set_conv_nth)
    have "length ns \<le> 2 * max_connections (hnsw_config ix)" if ns: "ns \<in> set (node_levels g)" for ns
    proof -
      obtain l where "l < length (node_levels g)" "ns = node_levels g ! l"
        using ns by (metis in_set_conv_nth)
      then have "length ns \<le> maximum_connections ix l"
        using wf(3) u by (auto simp: degrees_ok_def on_layer_def edges_def)
      then show ?thesis by (simp add: maximum_connections_def split: if_splits)
    qed
    then show ?thesis by (simp add: node_degree_def foldl_max_le)
  qed
  ultimately show ?thesis by (simp add: hnsw_stats_of_def hnsw_size_def foldl_max_le)
qed

theorem hnsw_stats_consistent_witness:
  "stat_live_count (hnsw_stats_of hnsw_sample) = 2
    \<and> stat_maximum_node_degree (hnsw_stats_of hnsw_sample) \<le> 4"
  using hnsw_stats_consistent [OF hnsw_sample_wf]
  by (simp add: hnsw_sample_def hnsw_stats_of_def hnsw_size_def)

section \<open>Reachable indexes\<close>

text \<open>
  The histories of an index: creation, insertions (whatever their outcome and whichever
  allocation fails), deletions. The dimension is one for which scores cannot overflow.
\<close>

inductive hnsw_reachable :: "(f64 \<Rightarrow> f64) \<Rightarrow> hnsw_index \<Rightarrow> bool" for lg where
  create: "hnsw_create avx2 cfg = Inr ix \<Longrightarrow> cfg_dimension cfg < score_dimension (cfg_kernel cfg) \<Longrightarrow>
    hnsw_reachable lg ix"
| add: "hnsw_reachable lg ix \<Longrightarrow> hnsw_add budget lg vid v ix = (ix', res) \<Longrightarrow> hnsw_reachable lg ix'"
| erase: "hnsw_reachable lg ix \<Longrightarrow> hnsw_erase vid ix = Inr (ix', b) \<Longrightarrow> hnsw_reachable lg ix'"

inductive_cases hnsw_reachableE: "hnsw_reachable lg ix"

text \<open>C9: every index that creation, insertions (successful or failing at any allocation) and
  deletions can build is well formed and its graph is symmetric: edges run both ways, inside
  the degree limits, between existing distinct nodes of the layer.\<close>

theorem hnsw_reachable_invariant:
  assumes "log_contract lg" "hnsw_reachable lg ix"
  shows "hnsw_wf ix \<and> symmetric (hnsw_graph ix)"
  using assms(2)
proof induction
  case (create avx2 cfg ix)
  then show ?case by (simp add: hnsw_create_wf)
next
  case (add ix budget vid v ix' res)
  then show ?case
    using hnsw_add_cases [OF _ assms(1), where ix = ix and budget = budget and vid = vid and v = v]
    by (cases res) (auto simp: inserted_def)
next
  case (erase ix vid ix' b)
  then show ?case
    using hnsw_erase_facts [of ix vid] by (auto simp: symmetric_def)
qed

definition hnsw_tiny :: hnsw_config where
  "hnsw_tiny = \<lparr>cfg_dimension = 1, max_connections = 2, ef_construction = 2, ef_search = 2,
     random_seed = 42, cfg_kernel = Scalar, selection = Heuristic\<rparr>"

theorem hnsw_reachable_invariant_witness:
  "\<exists>ix. hnsw_create False hnsw_tiny = Inr ix
    \<and> symmetric (hnsw_graph (fst (hnsw_add (Some 9) coarse_log 5 [0x3F800000] ix)))"
proof -
  have "config_ok hnsw_tiny" by (simp add: config_ok_def hnsw_tiny_def)
  then obtain ix where ix: "hnsw_create False hnsw_tiny = Inr ix"
    by (auto simp: hnsw_create_def validate_config_Inr resolve_dot_product_kernel_Inr result_simps
        hnsw_tiny_def)
  moreover have "hnsw_reachable coarse_log ix"
    by (rule hnsw_reachable.create [OF ix]) (simp add: hnsw_tiny_def score_dimension_def)
  ultimately show ?thesis
    using hnsw_reachable_invariant [OF coarse_log_contract hnsw_reachable.add]
    by (metis prod.collapse)
qed

text \<open>The strong guarantee at work: the second allocation of an insertion fails.\<close>

theorem hnsw_add_strong_guarantee_witness:
  "hnsw_add (Some 1) coarse_log 5 [0x3F800000] hnsw_sample = (hnsw_sample, Inl Bad_alloc)"
proof -
  obtain level where "random_level coarse_log 2 (mt_seed 42) = Inr (level, snd (mt_next (mt_seed 42)))"
    using random_level_total [OF coarse_log_contract, of 2 "mt_seed 42"] by auto
  then have "snd (insertion coarse_log 5 [0x3F800000] (tx_begin (Some 0) hnsw_sample)) = Inl Bad_alloc"
    by (simp add: insertion_def insert_connected_def tx_bind_def tx_lift_def tx_update_def tx_alloc_def
        tx_begin_def hnsw_sample_def)
  then have out: "hnsw_add (Some 1) coarse_log 5 [0x3F800000] hnsw_sample = (ix', Inl Bad_alloc)"
    if "ix' = fst (hnsw_add (Some 1) coarse_log 5 [0x3F800000] hnsw_sample)" for ix'
    unfolding that
    by (auto simp: hnsw_add_def insert_normalized_def hnsw_sample_def vector_max_size_def
        split: prod.splits sum.splits)
  have "length (hnsw_graph hnsw_sample) = length (hnsw_ids hnsw_sample)"
    by (simp add: hnsw_sample_def)
  from hnsw_add_strong_guarantee [OF this out] out show ?thesis by simp
qed

end
