(* ===== verification/Index_Agreement.thy ===== *)
theory Index_Agreement
  imports Hnsw_Theorems Flat_Theorems
begin

text \<open>
  The two indexes agree: an approximate search whose candidate list holds every live vector
  returns what the exact index returns, provided the base layer is connected.
\<close>

text \<open>C8: the approximate index is exact when it may be. Two well-formed indexes with the same
  contents, dimension and kernel return the same list for the same query, to the bit, when
  nothing interrupts the searches, the candidate list of the approximate search is at least as
  long as the number of stored vectors, and every node of the base layer reaches every other.\<close>

theorem hnsw_search_agrees_with_flat:
  assumes "flat_inv fx" "hnsw_wf hx" "flat_abs fx = hnsw_abs hx"
    and "flat_dimension fx = cfg_dimension (hnsw_config hx)"
    and "flat_kernel fx = cfg_kernel (hnsw_config hx)"
    and "quiet ctx env" "check_interval ctx \<noteq> 0" "k \<noteq> 0"
    and "length query = flat_dimension fx" "normalize_l2 query = Inr q"
    and "flat_kernel fx = Avx2 \<longrightarrow> avx2"
    and "ef \<noteq> 0" "hnsw_size hx \<le> ef" "connected_base hx"
  shows "hnsw_search_ef hx query k ef ctx env = flat_search avx2 fx query k ctx env"
proof -
  let ?kern = "flat_kernel fx"
  have wf: "flat_wf fx" using assms(1) by (simp add: flat_inv_def)
  have scored: "flat_scored fx ?kern q" using assms by (intro flat_inv_scored) simp_all
  have "set (live_results hx q) = set (flat_candidates fx ?kern q)"
    unfolding live_results_set [OF assms(2)] flat_candidates_set [OF wf]
    using assms(3,5) by simp
  moreover have live: "flat_rank.rankable (live_results hx q)"
    unfolding live_results_def
    using assms hnsw_query_ok [OF assms(2,10)] by (intro results_rankable) (simp_all add: live_nodes_def)
  moreover have flat: "flat_rank.rankable (flat_candidates fx ?kern q)"
    using flat_candidates_rankable [OF wf scored] .
  ultimately have "mset (live_results hx q) = mset (flat_candidates fx ?kern q)"
    by (auto simp: set_eq_iff_mset_eq_distinct [symmetric] flat_rank.rankable_def distinct_map)
  then have "sort_by is_better (live_results hx q) = sort_by is_better (flat_candidates fx ?kern q)"
    using live by (intro flat_rank.sort_by_mset_cong)
  moreover have "hnsw_search_ef hx query k ef ctx env = Inr (take k (sort_by is_better (live_results hx q)))"
    using assms by (intro hnsw_search_exhaustive) simp_all
  moreover have "flat_search avx2 fx query k ctx env = Inr (flat_top_k fx ?kern q k)"
    using wf scored assms by (intro flat_search_quiet) simp_all
  ultimately show ?thesis by (simp add: flat_top_k_def)
qed

lemma hnsw_sample_connected: "connected_base hnsw_sample"
proof -
  let ?g = "hnsw_graph hnsw_sample"
  have edge: "(u, v) \<in> layer_reach ?g 0" if "u < 3" "v < 3" for u v
    using that less_3_cases [of u] less_3_cases [of v] 
    by (cases "u = v") (auto simp: layer_reach_def hnsw_sample_def edges_def intro!: r_into_rtrancl)
  then show ?thesis by (simp add: connected_base_def hnsw_sample_def)
qed

theorem hnsw_search_agrees_with_flat_witness:
  "hnsw_search_ef hnsw_sample [0xC0000000] 1 2 default_context (\<lambda>_. (NoReason, 0)) =
   flat_search False flat_sample [0xC0000000] 1 default_context (\<lambda>_. (NoReason, 0))"
proof (rule hnsw_search_agrees_with_flat [OF flat_sample_inv hnsw_sample_wf])
  show "flat_abs flat_sample = hnsw_abs hnsw_sample"
    by (auto simp: flat_abs_def hnsw_abs_def flat_sample_def hnsw_sample_def fun_eq_iff row_of_def)
qed (simp_all add: hnsw_sample_connected default_context_def quiet_def hnsw_size_def,
     simp_all add: flat_sample_def hnsw_sample_def normalize_l2_minus_two clock_max_def)

end
