(* ===== verification/Rng_Text.thy ===== *)
theory Rng_Text
  imports Mersenne
begin

text \<open>
  The textual form of the generator state that snapshots carry. \<open>operator<<\<close> of
  \<open>std::mt19937_64\<close> writes the last 312 state words in decimal, separated by spaces, and
  \<open>operator>>\<close> reads them back, skipping white space; a number that is missing or does not fit
  64 bits fails the stream. (An implementation may append its own position to this list; the
  code relies on the round trip only.)
\<close>

section \<open>Printing\<close>

fun digits :: "nat \<Rightarrow> u8 list" where
  "digits n = (if n < 10 then [of_nat (48 + n)] else digits (n div 10) @ [of_nat (48 + n mod 10)])"

declare digits.simps [simp del]

fun rng_show :: "mt_state \<Rightarrow> u8 list" where
  "rng_show [] = []"
| "rng_show [x] = digits (unat x)"
| "rng_show (x # y # ys) = digits (unat x) @ 32 # rng_show (y # ys)"

section \<open>Reading\<close>

definition is_space :: "u8 \<Rightarrow> bool" where
  "is_space b \<longleftrightarrow> b = 32 \<or> 9 \<le> b \<and> b \<le> 13"

definition is_digit :: "u8 \<Rightarrow> bool" where
  "is_digit b \<longleftrightarrow> 48 \<le> b \<and> b \<le> 57"

definition digits_value :: "u8 list \<Rightarrow> nat" where
  "digits_value ds = foldl (\<lambda>n b. 10 * n + (unat b - 48)) 0 ds"

text \<open>Formatted input of an unsigned 64-bit number; a minus sign negates modulo \<open>2^64\<close>.\<close>

definition read_number :: "u8 list \<Rightarrow> (u64 \<times> u8 list) option" where
  "read_number input =
     (let text = dropWhile is_space input;
          negative = (text \<noteq> [] \<and> hd text = 45);
          body = (if text \<noteq> [] \<and> (hd text = 45 \<or> hd text = 43) then tl text else text);
          ds = takeWhile is_digit body
      in if ds = [] \<or> 2 ^ 64 \<le> digits_value ds then None
         else Some (if negative then - of_nat (digits_value ds) else of_nat (digits_value ds),
                    dropWhile is_digit body))"

fun rng_read :: "nat \<Rightarrow> u8 list \<Rightarrow> (mt_state \<times> u8 list) option" where
  "rng_read 0 input = Some ([], input)"
| "rng_read (Suc n) input =
     (case read_number input of
        None \<Rightarrow> None
      | Some (x, rest) \<Rightarrow>
          (case rng_read n rest of None \<Rightarrow> None | Some (xs, rest) \<Rightarrow> Some (x # xs, rest)))"

lemma length_rng_read: "rng_read n input = Some (st, rest) \<Longrightarrow> length st = n"
  by (induction n arbitrary: input st) (auto split: option.splits prod.splits)

section \<open>Round trip\<close>

lemma unat_digit: "d < 10 \<Longrightarrow> unat (of_nat (48 + d) :: u8) = 48 + d"
  by (simp only: unsigned_of_nat) (simp add: take_bit_nat_eq_self)

lemma is_digit_digit: "d < 10 \<Longrightarrow> is_digit (of_nat (48 + d))"
  using unat_digit [of d] by (simp add: is_digit_def word_le_nat_alt)

lemma digits_facts:
  "digits n \<noteq> []" "\<forall>b\<in>set (digits n). is_digit b" "digits_value (digits n) = n"
proof -
  have "digits n \<noteq> [] \<and> (\<forall>b\<in>set (digits n). is_digit b) \<and> digits_value (digits n) = n"
  proof (induction n rule: digits.induct)
    case (1 n)
    show ?case
    proof (cases "n < 10")
      case True
      then show ?thesis
        using unat_digit [of n] is_digit_digit [of n]
        by (simp add: digits.simps [of n] digits_value_def)
    next
      case False
      have "n mod 10 < 10" by simp
      note d = unat_digit [OF this] is_digit_digit [OF this]
      have "digits n = digits (n div 10) @ [of_nat (48 + n mod 10)]"
        using False by (simp add: digits.simps [of n])
      then show ?thesis using 1 [OF False] d by (auto simp: digits_value_def)
    qed
  qed
  then show "digits n \<noteq> []" "\<forall>b\<in>set (digits n). is_digit b" "digits_value (digits n) = n" by blast+
qed

lemma length_digits: "n < 10 ^ Suc k \<Longrightarrow> length (digits n) \<le> Suc k"
proof (induction k arbitrary: n)
  case 0
  then show ?case by (simp add: digits.simps [of n])
next
  case (Suc k)
  then have "n div 10 < 10 ^ Suc k" by (simp add: div_less_iff_less_mult)
  with Suc.IH show ?case by (subst digits.simps) simp
qed

lemma read_number_digits:
  assumes "n < 2 ^ 64" "rest = [] \<or> \<not> is_digit (hd rest)" "\<forall>b\<in>set pre. is_space b"
  shows "read_number (pre @ digits n @ rest) = Some (of_nat n, rest)"
proof -
  obtain d ds where d: "digits n = d # ds" using digits_facts(1) by (cases "digits n") auto
  have dig: "is_digit d" "\<forall>b\<in>set ds. is_digit b" using digits_facts(2) [of n] by (simp_all add: d)
  then have hd: "\<not> is_space d" "d \<noteq> 45" "d \<noteq> 43"
    by (auto simp: is_digit_def is_space_def word_le_nat_alt)
  have skip: "dropWhile is_space (pre @ digits n @ rest) = digits n @ rest"
    using assms(3) hd(1) by (simp add: dropWhile_append d)
  have take: "takeWhile is_digit (digits n @ rest) = digits n" "dropWhile is_digit (digits n @ rest) = rest"
    using assms(2) digits_facts(2) [of n]
    by (cases rest; simp add: takeWhile_append dropWhile_append)+
  have body: "(digits n @ rest \<noteq> [] \<and> (hd (digits n @ rest) = 45 \<or> hd (digits n @ rest) = 43)) = False"
    "(digits n @ rest \<noteq> [] \<and> hd (digits n @ rest) = 45) = False"
    using hd by (simp_all add: d)
  show ?thesis
    unfolding read_number_def Let_def skip body if_False take
    using digits_facts(1,3) [of n] assms(1) by simp
qed

lemma rng_read_show: "rng_read (length st) (rng_show st) = Some (st, [])"
proof -
  have sp: "is_space 32" "\<not> is_digit 32" by (simp_all add: is_space_def is_digit_def)
  have one: "read_number (pre @ digits (unat x) @ rest) = Some (x, rest)"
    if "rest = [] \<or> \<not> is_digit (hd rest)" "\<forall>b\<in>set pre. is_space b" for x :: u64 and rest pre
    using read_number_digits [OF _ that, of "unat x"] unsigned_less [of x, where 'a = nat] by simp
  have "\<forall>b\<in>set pre. is_space b \<Longrightarrow> st \<noteq> [] \<Longrightarrow> rng_read (length st) (pre @ rng_show st) = Some (st, [])" for pre
  proof (induction st arbitrary: pre rule: rng_show.induct)
    case (2 x)
    then show ?case using one [of "[]" pre x] by simp
  next
    case (3 x y ys)
    have "rng_read (length (y # ys)) ([32] @ rng_show (y # ys)) = Some (y # ys, [])"
      using sp by (intro 3) simp_all
    then show ?case
      using one [of "32 # rng_show (y # ys)" pre x] sp 3(2) by simp
  qed simp
  from this [of "[]"] show ?thesis by (cases st) auto
qed

lemma length_rng_show: "length (rng_show st) \<le> 21 * length st" "st \<noteq> [] \<Longrightarrow> rng_show st \<noteq> []"
proof -
  have d: "length (digits (unat x)) \<le> 20" for x :: u64
  proof -
    have "unat x < 10 ^ Suc 19" using unsigned_less [of x, where 'a = nat] by simp
    then show ?thesis using length_digits [of "unat x" 19] by simp
  qed
  show "length (rng_show st) \<le> 21 * length st"
  proof (induction st rule: rng_show.induct)
    case (2 x)
    then show ?case using d [of x] by simp
  next
    case (3 x y ys)
    then show ?case using d [of x] by simp
  qed simp
  show "st \<noteq> [] \<Longrightarrow> rng_show st \<noteq> []"
    by (cases st rule: rng_show.cases) (simp_all add: digits_facts)
qed

end
