(* ===== verification/Hnsw_Index_Io.thy ===== *)
theory Hnsw_Index_Io
  imports Snapshot_Rows Rng_Text Hnsw_Index
begin

text \<open>
  src/hnsw_index_io.cpp: the snapshot format of the approximate index. \<open>hnsw_save\<close> writes
  version 3 (header, IDs, floats, graph, tombstones, generator state); \<open>hnsw_load\<close> reads
  versions 1 to 3 and checks every field it relies on. The checksum covers the header too.
  The position of the stream is the size of the file less what is left to read.
\<close>

section \<open>Constants and helpers\<close>

definition hnsw_prefix :: string where "hnsw_prefix = ''invalid HNSW index: ''"

definition hnsw_magic :: "u8 list" where
  "hnsw_magic = [0x46, 0x56, 0x48, 0x4E, 0x53, 0x57, 0, 0]"

definition hnsw_current_version :: u32 where "hnsw_current_version = 3"
definition hnsw_rng_state_version :: u32 where "hnsw_rng_state_version = 2"
definition hnsw_legacy_version :: u32 where "hnsw_legacy_version = 1"
definition hnsw_header_size :: u32 where "hnsw_header_size = 112"
definition hnsw_maximum_rng_state_bytes :: u32 where "hnsw_maximum_rng_state_bytes = 16 * 1024"
definition hnsw_maximum_level :: u32 where "hnsw_maximum_level = 63"
definition hnsw_empty_entry :: u64 where "hnsw_empty_entry = - 1"

lemmas hnsw_format_defs =
  hnsw_current_version_def hnsw_rng_state_version_def hnsw_legacy_version_def hnsw_header_size_def
  hnsw_maximum_rng_state_bytes_def hnsw_maximum_level_def endian_marker_def normalized_cosine_flag_def

definition hnsw_fail :: "string \<Rightarrow> 'a result" where
  "hnsw_fail reason = fail hnsw_prefix reason"

definition hnsw_checked_add :: "u64 \<Rightarrow> u64 \<Rightarrow> string \<Rightarrow> u64 result" where
  "hnsw_checked_add left right field = checked_add hnsw_prefix left right field"

definition hnsw_checked_multiply :: "u64 \<Rightarrow> u64 \<Rightarrow> string \<Rightarrow> u64 result" where
  "hnsw_checked_multiply left right field = checked_multiply hnsw_prefix left right field"

definition checked_size :: "u64 \<Rightarrow> string \<Rightarrow> nat result" where
  "checked_size v field = to_size_t hnsw_prefix v field '' exceeds platform limits''"

text \<open>\<open>read_integer\<close> of a type of \<open>n\<close> bytes, with the checksum or (null pointer) without.\<close>

definition read_integer :: "nat \<Rightarrow> reader \<Rightarrow> ('a::len word \<times> reader) result" where
  "read_integer n r = read_payload_value hnsw_prefix n r"

definition read_integer_unsummed :: "nat \<Rightarrow> reader \<Rightarrow> ('a::len word \<times> reader) result" where
  "read_integer_unsummed n r = read_little_endian hnsw_prefix n r"

definition expect_integer :: "u32 \<Rightarrow> string \<Rightarrow> reader \<Rightarrow> reader result" where
  "expect_integer expected message r =
     and_then (read_integer 4 r) (\<lambda>(v, r). if v \<noteq> expected then hnsw_fail message else Inr r)"

section \<open>The header\<close>

record hnsw_header =
  hd_version :: u32
  hd_dimension :: u64
  hd_count :: u64
  hd_max_connections :: u64
  hd_ef_construction :: u64
  hd_ef_search :: u64
  hd_seed :: u64
  hd_selection :: u32
  hd_maximum_level :: u64
  hd_entry_point :: u64
  hd_payload_bytes :: u64

definition checksum_header :: "u64 \<Rightarrow> hnsw_header \<Rightarrow> u64" where
  "checksum_header checksum header =
     (let c = foldl update_checksum checksum hnsw_magic;
          c = checksum_integer 4 c (hd_version header);
          c = checksum_integer 4 c hnsw_header_size;
          c = checksum_integer 4 c endian_marker;
          c = checksum_integer 4 c normalized_cosine_flag;
          c = checksum_integer 8 c (hd_dimension header);
          c = checksum_integer 8 c (hd_count header);
          c = checksum_integer 8 c (hd_max_connections header);
          c = checksum_integer 8 c (hd_ef_construction header);
          c = checksum_integer 8 c (hd_ef_search header);
          c = checksum_integer 8 c (hd_seed header);
          c = checksum_integer 4 c (hd_selection header);
          c = checksum_integer 4 c (0 :: u32);
          c = checksum_integer 8 c (hd_maximum_level header);
          c = checksum_integer 8 c (hd_entry_point header)
      in checksum_integer 8 c (hd_payload_bytes header))"

text \<open>The pieces \<open>write_header\<close> writes, in order.\<close>

definition write_header :: "hnsw_header \<Rightarrow> u64 \<Rightarrow> u8 list list" where
  "write_header header checksum =
     [hnsw_magic, le_bytes 4 (hd_version header), le_bytes 4 hnsw_header_size,
      le_bytes 4 endian_marker, le_bytes 4 normalized_cosine_flag,
      le_bytes 8 (hd_dimension header), le_bytes 8 (hd_count header),
      le_bytes 8 (hd_max_connections header), le_bytes 8 (hd_ef_construction header),
      le_bytes 8 (hd_ef_search header), le_bytes 8 (hd_seed header),
      le_bytes 4 (hd_selection header), le_bytes 4 (0 :: u32),
      le_bytes 8 (hd_maximum_level header), le_bytes 8 (hd_entry_point header),
      le_bytes 8 (hd_payload_bytes header), le_bytes 8 checksum]"

definition read_header :: "u8 list \<Rightarrow> ((hnsw_header \<times> u64) \<times> reader) result" where
  "read_header content =
     (if length content < 8 \<or> take 8 content \<noteq> hnsw_magic then hnsw_fail ''magic does not match''
      else
        and_then (read_integer 4 (drop 8 content, foldl update_checksum fnv_offset_basis hnsw_magic))
          (\<lambda>(version, r).
        if version < hnsw_legacy_version \<or> hnsw_current_version < version then
          hnsw_fail ''unsupported format version''
        else
          and_then (expect_integer hnsw_header_size
            ''header size does not match the format version'' r) (\<lambda>r.
          and_then (expect_integer endian_marker ''endianness marker does not match'' r) (\<lambda>r.
          and_then (expect_integer normalized_cosine_flag ''unsupported index flags'' r) (\<lambda>r.
          and_then (read_integer 8 r) (\<lambda>(dims, r).
          and_then (read_integer 8 r) (\<lambda>(nodes, r).
          and_then (read_integer 8 r) (\<lambda>(m, r).
          and_then (read_integer 8 r) (\<lambda>(efc, r).
          and_then (read_integer 8 r) (\<lambda>(efs, r).
          and_then (read_integer 8 r) (\<lambda>(seed, r).
          and_then (read_integer 4 r) (\<lambda>(sel, r).
          and_then (expect_integer 0 ''reserved header field is not zero'' r) (\<lambda>r.
          and_then (read_integer 8 r) (\<lambda>(level, r).
          and_then (read_integer 8 r) (\<lambda>(entry, r).
          and_then (read_integer 8 r) (\<lambda>(payload, r).
          and_then (read_integer_unsummed 8 r) (\<lambda>(stored_checksum, r).
            Inr ((\<lparr>hd_version = version, hd_dimension = dims, hd_count = nodes,
                   hd_max_connections = m, hd_ef_construction = efc, hd_ef_search = efs,
                   hd_seed = seed, hd_selection = sel, hd_maximum_level = level,
                   hd_entry_point = entry, hd_payload_bytes = payload\<rparr>, stored_checksum), r))))))))))))))))))"

text \<open>The least and the largest payload the header can stand for.\<close>

definition minimum_payload_bytes :: "hnsw_header \<Rightarrow> u64 \<Rightarrow> u64 \<Rightarrow> u64 result" where
  "minimum_payload_bytes header id_bytes vector_bytes =
     and_then (hnsw_checked_multiply (hd_count header) 8 ''graph bytes'') (\<lambda>minimum_graph_bytes.
     and_then (hnsw_checked_add id_bytes vector_bytes ''payload'') (\<lambda>data.
     and_then (hnsw_checked_add data minimum_graph_bytes ''payload'') (\<lambda>minimum.
     and_then
       (if hnsw_rng_state_version \<le> hd_version header then
          hnsw_checked_add minimum (4 + 1) ''RNG state and payload''
        else Inr minimum) (\<lambda>minimum.
       if hd_version header = hnsw_current_version then
         and_then (hnsw_checked_add 8 (hd_count header) ''tombstone bytes'') (\<lambda>tombstones.
           hnsw_checked_add minimum tombstones ''tombstones and payload'')
       else Inr minimum))))"

definition maximum_payload_bytes :: "hnsw_header \<Rightarrow> u64 \<Rightarrow> u64 \<Rightarrow> u64 result" where
  "maximum_payload_bytes header id_bytes vector_bytes =
     and_then (hnsw_checked_multiply (hd_max_connections header * 2) 4 ''degree bytes'') (\<lambda>degree_bytes.
     and_then (hnsw_checked_add 4 degree_bytes ''layer bytes'') (\<lambda>layer_bytes.
     and_then (hnsw_checked_multiply (ucast hnsw_maximum_level + 1) layer_bytes ''graph bytes'') (\<lambda>layers.
     and_then (hnsw_checked_add 4 layers ''graph bytes'') (\<lambda>node_bytes.
     and_then (hnsw_checked_multiply (hd_count header) node_bytes ''graph bytes'') (\<lambda>graph_bytes.
     and_then (hnsw_checked_add id_bytes vector_bytes ''payload'') (\<lambda>data.
     and_then (hnsw_checked_add data graph_bytes ''payload'') (\<lambda>maximum.
     and_then
       (if hnsw_rng_state_version \<le> hd_version header then
          hnsw_checked_add maximum (4 + ucast hnsw_maximum_rng_state_bytes) ''RNG state and payload''
        else Inr maximum) (\<lambda>maximum.
       if hd_version header = hnsw_current_version then
         and_then (hnsw_checked_add 8 (hd_count header) ''tombstone bytes'') (\<lambda>tombstones.
           hnsw_checked_add maximum tombstones ''tombstones and payload'')
       else Inr maximum))))))))"

definition validate_header :: "hnsw_header \<Rightarrow> nat \<Rightarrow> unit result" where
  "validate_header header file_bytes =
     (if hd_dimension header = 0 \<or> hd_max_connections header < 2
         \<or> (2 ^ 32 - 1) div 2 < hd_max_connections header
         \<or> hd_ef_construction header < hd_max_connections header \<or> hd_ef_search header = 0
         \<or> 1 < hd_selection header \<or> 2 ^ 32 - 1 < hd_count header
         \<or> ucast hnsw_maximum_level < hd_maximum_level header then
        hnsw_fail ''invalid configuration or node count''
      else
        and_then (checked_size (hd_dimension header) ''dimension'') (\<lambda>_.
        and_then (checked_size (hd_max_connections header) ''M'') (\<lambda>_.
        and_then (checked_size (hd_ef_construction header) ''efConstruction'') (\<lambda>_.
        and_then (checked_size (hd_ef_search header) ''efSearch'') (\<lambda>_.
        and_then (hnsw_checked_multiply (hd_count header) (hd_dimension header) ''vector count'') (\<lambda>elements.
        and_then (checked_size elements ''vector count'') (\<lambda>_.
        and_then (hnsw_checked_multiply elements 4 ''vector bytes'') (\<lambda>vector_bytes.
        and_then (hnsw_checked_multiply (hd_count header) 8 ''ID bytes'') (\<lambda>id_bytes.
        and_then (minimum_payload_bytes header id_bytes vector_bytes) (\<lambda>minimum_payload.
        if hd_payload_bytes header < minimum_payload then
          hnsw_fail ''payload is too small for the declared dimensions and node count''
        else
        and_then (maximum_payload_bytes header id_bytes vector_bytes) (\<lambda>maximum_payload.
        and_then
          (if maximum_payload < hd_payload_bytes header then Inr False
           else and_then (hnsw_checked_add (ucast hnsw_header_size) (hd_payload_bytes header) ''file size'')
             (\<lambda>size. Inr (unat size = file_bytes))) (\<lambda>sizes_match.
        if \<not> sizes_match then hnsw_fail ''file size does not match the header''
        else if hd_count header = 0 then
          (if hd_entry_point header \<noteq> hnsw_empty_entry \<or> hd_maximum_level header \<noteq> 0 then
             hnsw_fail ''empty graph has an invalid entry point or maximum level''
           else Inr ())
        else if hd_count header \<le> hd_entry_point header then hnsw_fail ''entry point is out of range''
        else Inr ()))))))))))))"

section \<open>Loading\<close>

definition hnsw_read_ids ::
  "nat \<Rightarrow> nat \<Rightarrow> (vector_id \<rightharpoonup> nat) \<Rightarrow> vector_id list \<Rightarrow> reader \<Rightarrow>
   (((vector_id \<rightharpoonup> nat) \<times> vector_id list) \<times> reader) result" where
  "hnsw_read_ids = read_ids hnsw_prefix ''duplicate external vector ID''"

definition hnsw_read_rows :: "nat \<Rightarrow> nat \<Rightarrow> f32 list \<Rightarrow> reader \<Rightarrow> (f32 list \<times> reader) result" where
  "hnsw_read_rows = read_rows hnsw_prefix ''non-finite vector component'' ''vector is not L2-normalized''"

text \<open>The set of neighbours seen so far is the set of the list read so far.\<close>

fun read_neighbors :: "nat \<Rightarrow> nat \<Rightarrow> nat \<Rightarrow> nat list \<Rightarrow> reader \<Rightarrow> (nat list \<times> reader) result" where
  "read_neighbors nodes node 0 neighbors r = Inr (neighbors, r)"
| "read_neighbors nodes node (Suc n) neighbors r =
     and_then (read_integer 4 r) (\<lambda>(neighbor :: u32, r).
       if nodes \<le> unat neighbor then hnsw_fail ''neighbor node index is out of range''
       else if unat neighbor = node then hnsw_fail ''self-loop is not allowed''
       else if unat neighbor \<in> set neighbors then hnsw_fail ''duplicate neighbor in adjacency list''
       else read_neighbors nodes node n (neighbors @ [unat neighbor]) r)"

definition stream_position :: "nat \<Rightarrow> reader \<Rightarrow> u64" where
  "stream_position file_size r = of_nat (file_size - length (fst r))"

definition degree_limit :: "hnsw_header \<Rightarrow> nat \<Rightarrow> u64" where
  "degree_limit header layer =
     (if layer = 0 then hd_max_connections header * 2 else hd_max_connections header)"

definition read_layer ::
  "hnsw_header \<Rightarrow> nat \<Rightarrow> nat \<Rightarrow> nat \<Rightarrow> reader \<Rightarrow> (nat list \<times> reader) result" where
  "read_layer header file_size node layer r =
     and_then (read_integer 4 r) (\<lambda>(degree :: u32, r).
     if degree_limit header layer < ucast degree \<or> hd_count header \<le> ucast degree then
       hnsw_fail ''adjacency degree exceeds its limit''
     else
       and_then (hnsw_checked_add (ucast hnsw_header_size) (hd_payload_bytes header) ''file size'')
         (\<lambda>file_end.
       and_then
         (if file_end < stream_position file_size r then Inr True
          else and_then (hnsw_checked_multiply (ucast degree) 4 ''adjacency bytes'') (\<lambda>bytes.
            Inr (file_end - stream_position file_size r < bytes))) (\<lambda>too_long.
         if too_long then hnsw_fail ''adjacency list exceeds remaining payload bytes''
         else read_neighbors (unat (hd_count header)) node (unat degree) [] r)))"

fun read_layers ::
  "hnsw_header \<Rightarrow> nat \<Rightarrow> nat \<Rightarrow> nat \<Rightarrow> nat \<Rightarrow> reader \<Rightarrow> (nat list list \<times> reader) result" where
  "read_layers header file_size node layer 0 r = Inr ([], r)"
| "read_layers header file_size node layer (Suc n) r =
     and_then (read_layer header file_size node layer r) (\<lambda>(ns, r).
     and_then (read_layers header file_size node (Suc layer) n r) (\<lambda>(levels, r).
       Inr (ns # levels, r)))"

definition read_node ::
  "hnsw_header \<Rightarrow> nat \<Rightarrow> nat \<Rightarrow> reader \<Rightarrow> ((u32 \<times> hnsw_node) \<times> reader) result" where
  "read_node header file_size node r =
     and_then (read_integer 4 r) (\<lambda>(level :: u32, r).
     if hnsw_maximum_level < level \<or> hd_maximum_level header < ucast level then
       hnsw_fail ''node level exceeds the declared maximum''
     else
       and_then (read_layers header file_size node 0 (unat (level + 1)) r) (\<lambda>(levels, r).
         Inr ((level, \<lparr>node_levels = levels, node_deleted = False\<rparr>), r)))"

fun read_nodes ::
  "hnsw_header \<Rightarrow> nat \<Rightarrow> nat \<Rightarrow> nat \<Rightarrow> u32 \<Rightarrow> reader \<Rightarrow> ((u32 \<times> hnsw_node list) \<times> reader) result" where
  "read_nodes header file_size node 0 observed r = Inr ((observed, []), r)"
| "read_nodes header file_size node (Suc n) observed r =
     and_then (read_node header file_size node r) (\<lambda>((level, g), r).
     and_then (read_nodes header file_size (Suc node) n (max observed level) r)
       (\<lambda>((observed, graph), r). Inr ((observed, g # graph), r)))"

text \<open>Every neighbour is present on the layer that refers to it.\<close>

definition layers_present :: "hnsw_node list \<Rightarrow> bool" where
  "layers_present graph \<longleftrightarrow>
     list_all (\<lambda>g. list_all (\<lambda>(layer, ns).
       list_all (\<lambda>neighbor. layer < length (node_levels (graph ! neighbor))) ns)
       (enumerate 0 (node_levels g))) graph"

fun read_flags :: "hnsw_node list \<Rightarrow> nat \<Rightarrow> reader \<Rightarrow> ((nat \<times> hnsw_node list) \<times> reader) result" where
  "read_flags [] deleted r = Inr ((deleted, []), r)"
| "read_flags (g # graph) deleted r =
     and_then (read_integer 1 r) (\<lambda>(flag :: u8, r).
       if 1 < flag then hnsw_fail ''invalid tombstone flag''
       else and_then (read_flags graph (deleted + unat flag) r) (\<lambda>((deleted, graph), r).
         Inr ((deleted, g\<lparr>node_deleted := flag \<noteq> 0\<rparr> # graph), r)))"

definition read_tombstones ::
  "hnsw_header \<Rightarrow> nat \<Rightarrow> hnsw_node list \<Rightarrow> reader \<Rightarrow> ((nat \<times> hnsw_node list) \<times> reader) result" where
  "read_tombstones header ids graph r =
     (if hd_version header = hnsw_current_version then
        and_then (read_integer 8 r) (\<lambda>(live_count :: u64, r).
          if hd_count header < live_count then hnsw_fail ''live count exceeds physical node count''
          else and_then (read_flags graph 0 r) (\<lambda>((deleted, graph), r).
            if ids - deleted \<noteq> unat live_count then
              hnsw_fail ''live count does not match tombstone flags''
            else Inr ((deleted, graph), r)))
      else Inr ((0, graph), r))"

definition read_random_state ::
  "hnsw_header \<Rightarrow> nat \<Rightarrow> mt_state \<Rightarrow> reader \<Rightarrow> (mt_state \<times> reader) result" where
  "read_random_state header file_size seeded r =
     (if hnsw_rng_state_version \<le> hd_version header then
        and_then (read_integer 4 r) (\<lambda>(state_length :: u32, r).
        and_then (hnsw_checked_add (ucast hnsw_header_size) (hd_payload_bytes header) ''file size'')
          (\<lambda>file_end.
        if state_length = 0 \<or> hnsw_maximum_rng_state_bytes < state_length
           \<or> file_end < stream_position file_size r
           \<or> ucast state_length \<noteq> file_end - stream_position file_size r then
          hnsw_fail ''RNG state length does not match the payload''
        else if length (fst r) < unat state_length then hnsw_fail ''RNG state is truncated''
        else
          (let random_state = take (unat state_length) (fst r);
               r = (drop (unat state_length) (fst r), foldl update_checksum (snd r) random_state)
           in case rng_read mt_size random_state of
                None \<Rightarrow> hnsw_fail ''RNG state is invalid''
              | Some (st, rest) \<Rightarrow>
                  if dropWhile is_space rest \<noteq> [] then hnsw_fail ''RNG state contains trailing data''
                  else Inr (st, r))))
      else Inr (seeded, r))"

definition header_config :: "hnsw_header \<Rightarrow> dot_kernel \<Rightarrow> hnsw_config" where
  "header_config header kern =
     \<lparr>cfg_dimension = unat (hd_dimension header), max_connections = unat (hd_max_connections header),
      ef_construction = unat (hd_ef_construction header), ef_search = unat (hd_ef_search header),
      random_seed = hd_seed header, cfg_kernel = kern,
      selection = (if hd_selection header = 0 then Simple else Heuristic)\<rparr>"

text \<open>\<open>max_size()\<close> of the containers, by the size of their elements or nodes.\<close>

definition exceeds_containers :: "nat \<Rightarrow> nat \<Rightarrow> bool" where
  "exceeds_containers nodes elements \<longleftrightarrow>
     (2 ^ 63 - 1) div 8 < nodes \<or> (2 ^ 63 - 1) div 32 < nodes \<or> (2 ^ 63 - 1) div 24 < nodes
     \<or> (2 ^ 63 - 1) div 4 < elements"

definition hnsw_load :: "bool \<Rightarrow> string \<Rightarrow> u8 list option \<Rightarrow> dot_kernel \<Rightarrow> hnsw_index result" where
  "hnsw_load avx2 path file kern =
     (case file of
        None \<Rightarrow> Inl (Runtime_error (''cannot open HNSW index for reading: '' @ path))
      | Some content \<Rightarrow>
          and_then (read_header content) (\<lambda>((header, stored_checksum), r).
          and_then (validate_header header (length content)) (\<lambda>_.
          and_then (checked_size (hd_count header) ''node count'') (\<lambda>nodes.
          and_then (checked_size (hd_dimension header) ''dimension'') (\<lambda>dims.
          and_then (hnsw_create avx2 (header_config header kern)) (\<lambda>ix.
          and_then (hnsw_checked_multiply (hd_count header) (hd_dimension header) ''vector count'')
            (\<lambda>elements.
          and_then (checked_size elements ''vector count'') (\<lambda>element_count.
          if exceeds_containers nodes element_count then
            hnsw_fail ''declared index exceeds container capacity''
          else
          and_then (hnsw_read_ids nodes 0 Map.empty [] r) (\<lambda>((id_to_node, ids), r).
          and_then (hnsw_read_rows nodes dims [] r) (\<lambda>(vectors, r).
          and_then (read_nodes header (length content) 0 nodes 0 r) (\<lambda>((observed, graph), r).
          if ucast observed \<noteq> hd_maximum_level header then
            hnsw_fail ''maximum level does not match node levels''
          else
          and_then (if nodes = 0 then Inr True
                    else and_then (read_at graph (unat (hd_entry_point header))) (\<lambda>g.
                      Inr (of_nat (length (node_levels g)) - 1 = hd_maximum_level header)))
            (\<lambda>entry_on_top.
          if \<not> entry_on_top then hnsw_fail ''entry point is not present on the maximum level''
          else if \<not> layers_present graph then
            hnsw_fail ''neighbor is not present on the referenced layer''
          else
          and_then (read_tombstones header (length ids) graph r) (\<lambda>((deleted, graph), r).
          and_then (read_random_state header (length content) (hnsw_random ix) r) (\<lambda>(st, r).
          if snd r \<noteq> stored_checksum then hnsw_fail ''checksum does not match''
          else
          and_then (checked_size (hd_maximum_level header) ''maximum level'') (\<lambda>level.
            Inr (ix\<lparr>hnsw_ids := ids, hnsw_id_to_node := id_to_node, hnsw_vectors := vectors,
              hnsw_graph := graph, hnsw_deleted := deleted, hnsw_random := st,
              hnsw_entry := (if nodes = 0 then 0 else unat (ucast (hd_entry_point header) :: u32)),
              hnsw_max_level := level\<rparr>))))))))))))))))"

section \<open>Saving\<close>

fun add_layer_bytes :: "nat list list \<Rightarrow> u64 \<Rightarrow> u64 result" where
  "add_layer_bytes [] payload = Inr payload"
| "add_layer_bytes (ns # levels) payload =
     and_then (hnsw_checked_add payload 4 ''payload'') (\<lambda>payload.
     and_then (hnsw_checked_multiply (of_nat (length ns)) 4 ''edge bytes'') (\<lambda>edges.
     and_then (hnsw_checked_add payload edges ''payload'') (\<lambda>payload. add_layer_bytes levels payload)))"

fun add_graph_bytes :: "hnsw_node list \<Rightarrow> u64 \<Rightarrow> u64 result" where
  "add_graph_bytes [] payload = Inr payload"
| "add_graph_bytes (g # graph) payload =
     and_then (hnsw_checked_add payload 4 ''payload'') (\<lambda>payload.
     and_then (add_layer_bytes (node_levels g) payload) (\<lambda>payload. add_graph_bytes graph payload))"

definition hnsw_payload_bytes :: "hnsw_index \<Rightarrow> u64 \<Rightarrow> u8 list \<Rightarrow> u64 result" where
  "hnsw_payload_bytes ix elements random_state =
     (let nodes = of_nat (length (hnsw_ids ix)) in
      and_then (hnsw_checked_multiply nodes 8 ''ID bytes'') (\<lambda>id_bytes.
      and_then (hnsw_checked_multiply elements 4 ''vector bytes'') (\<lambda>vector_bytes.
      and_then (hnsw_checked_add id_bytes vector_bytes ''payload'') (\<lambda>payload.
      and_then (add_graph_bytes (hnsw_graph ix) payload) (\<lambda>payload.
      if random_state = [] \<or> unat hnsw_maximum_rng_state_bytes < length random_state then
        hnsw_fail ''RNG state cannot be represented in the snapshot format''
      else
      and_then (hnsw_checked_add payload (4 + of_nat (length random_state)) ''payload'') (\<lambda>payload.
      and_then (hnsw_checked_add 8 nodes ''tombstone bytes'') (\<lambda>tombstones.
        hnsw_checked_add payload tombstones ''payload'')))))))"

definition hnsw_header_of :: "hnsw_index \<Rightarrow> u64 \<Rightarrow> hnsw_header" where
  "hnsw_header_of ix payload_bytes =
     \<lparr>hd_version = hnsw_current_version,
      hd_dimension = of_nat (cfg_dimension (hnsw_config ix)),
      hd_count = of_nat (length (hnsw_ids ix)),
      hd_max_connections = of_nat (max_connections (hnsw_config ix)),
      hd_ef_construction = of_nat (ef_construction (hnsw_config ix)),
      hd_ef_search = of_nat (ef_search (hnsw_config ix)),
      hd_seed = random_seed (hnsw_config ix),
      hd_selection = (if selection (hnsw_config ix) = Simple then 0 else 1),
      hd_maximum_level = (if hnsw_ids ix = [] then 0 else of_nat (hnsw_max_level ix)),
      hd_entry_point = (if hnsw_ids ix = [] then hnsw_empty_entry else of_nat (hnsw_entry ix)),
      hd_payload_bytes = payload_bytes\<rparr>"

definition checksum_node :: "u64 \<Rightarrow> hnsw_node \<Rightarrow> u64" where
  "checksum_node c g =
     foldl (\<lambda>c ns. foldl (\<lambda>c v. checksum_integer 4 c (of_nat v :: u32))
         (checksum_integer 4 c (of_nat (length ns) :: u32)) ns)
       (checksum_integer 4 c (of_nat (length (node_levels g)) - 1 :: u32)) (node_levels g)"

definition node_flag :: "hnsw_node \<Rightarrow> u8" where
  "node_flag g = (if node_deleted g then 1 else 0)"

definition hnsw_checksum :: "hnsw_index \<Rightarrow> hnsw_header \<Rightarrow> u8 list \<Rightarrow> u64" where
  "hnsw_checksum ix header random_state =
     (let c = checksum_header fnv_offset_basis header;
          c = foldl (checksum_integer 8) c (hnsw_ids ix);
          c = foldl (checksum_integer 4) c (hnsw_vectors ix);
          c = foldl checksum_node c (hnsw_graph ix);
          c = checksum_integer 8 c (of_nat (hnsw_size ix) :: u64);
          c = foldl (\<lambda>c g. checksum_integer 1 c (node_flag g)) c (hnsw_graph ix);
          c = checksum_integer 4 c (of_nat (length random_state) :: u32)
      in foldl update_checksum c random_state)"

definition write_node :: "hnsw_node \<Rightarrow> u8 list list" where
  "write_node g =
     le_bytes 4 (of_nat (length (node_levels g)) - 1 :: u32) #
     concat (map (\<lambda>ns. le_bytes 4 (of_nat (length ns) :: u32) #
       map (\<lambda>v. le_bytes 4 (of_nat v :: u32)) ns) (node_levels g))"

text \<open>Everything \<open>save\<close> writes before the generator state, in order.\<close>

definition hnsw_pieces :: "hnsw_index \<Rightarrow> hnsw_header \<Rightarrow> u64 \<Rightarrow> u8 list \<Rightarrow> u8 list list" where
  "hnsw_pieces ix header checksum random_state =
     write_header header checksum @ map (le_bytes 8) (hnsw_ids ix) @ map (le_bytes 4) (hnsw_vectors ix)
     @ concat (map write_node (hnsw_graph ix)) @ [le_bytes 8 (of_nat (hnsw_size ix) :: u64)]
     @ map (\<lambda>g. le_bytes 1 (node_flag g)) (hnsw_graph ix)
     @ [le_bytes 4 (of_nat (length random_state) :: u32)]"

text \<open>
  \<open>save\<close> against a device as in the exact index's format. The write of the generator state is
  not checked on its own: its failure shows at the flush.
\<close>

definition hnsw_save ::
  "bool \<Rightarrow> nat \<Rightarrow> bool \<Rightarrow> string \<Rightarrow> hnsw_index \<Rightarrow> u8 list option \<times> unit result" where
  "hnsw_save opens capacity flushes path ix =
     (let nodes = of_nat (length (hnsw_ids ix)) :: u64;
          dims = of_nat (cfg_dimension (hnsw_config ix)) :: u64;
          random_state = rng_show (hnsw_random ix);
          prepared =
            and_then (hnsw_checked_multiply nodes dims ''vector count'') (\<lambda>elements.
            if 2 ^ 32 - 1 < nodes \<or> unat elements \<noteq> length (hnsw_vectors ix)
               \<or> length (hnsw_graph ix) \<noteq> length (hnsw_ids ix)
               \<or> (2 ^ 32 - 1) div 2 < max_connections (hnsw_config ix) then
              hnsw_fail ''in-memory index exceeds snapshot format limits''
            else if length (filter node_deleted (hnsw_graph ix)) \<noteq> hnsw_deleted ix then
              hnsw_fail ''in-memory tombstone count is inconsistent''
            else hnsw_payload_bytes ix elements random_state)
      in case prepared of
           Inl e \<Rightarrow> (None, Inl e)
         | Inr payload_bytes \<Rightarrow>
             (let header = hnsw_header_of ix payload_bytes;
                  checksum = hnsw_checksum ix header random_state
              in if \<not> opens then
                   (None, Inl (Runtime_error (''cannot open HNSW index for writing: '' @ path)))
                 else
                   (case write_all ''failed to write HNSW index''
                        (hnsw_pieces ix header checksum random_state) \<lparr>written = [], room = capacity\<rparr> of
                      (output, Inl e) \<Rightarrow> (Some (written output), Inl e)
                    | (output, Inr u) \<Rightarrow>
                        (case write_exact (''failed to flush HNSW index: '' @ path) random_state output of
                           (output, Inl e) \<Rightarrow> (Some (written output), Inl e)
                         | (output, Inr u) \<Rightarrow>
                             if flushes then (Some (written output), Inr ())
                             else (Some (written output),
                                   Inl (Runtime_error (''failed to flush HNSW index: '' @ path)))))))"

end
