(* ===== verification/Hnsw_Snapshot.thy ===== *)
theory Hnsw_Snapshot
  imports Hnsw_Index_Io Hnsw_Graph
begin

text \<open>
  The snapshot format of the approximate index is read back as it was written: the bytes of
  every section, and the proof that the loader's loops accept them.
\<close>

section \<open>Integers\<close>

lemma read_integer_show [simp]:
  "read_integer 4 (le_bytes 4 v @ rest, c) = Inr (v :: u32, (rest, checksum_bytes c (le_bytes 4 v)))"
  "read_integer 8 (le_bytes 8 w @ rest, c) = Inr (w :: u64, (rest, checksum_bytes c (le_bytes 8 w)))"
  "read_integer 1 (le_bytes 1 x @ rest, c) = Inr (x :: u8, (rest, checksum_bytes c (le_bytes 1 x)))"
  by (simp_all only: read_integer_def u32_codec.parse_iff u64_codec.parse_iff u8_codec.parse_iff simp_thms)

lemma read_integer_iff [result_simps]:
  "read_integer 4 (input, c) = Inr (v :: u32, (rest, c')) \<longleftrightarrow>
     input = le_bytes 4 v @ rest \<and> c' = checksum_bytes c (le_bytes 4 v)"
  "read_integer 8 (input, c) = Inr (w :: u64, (rest, c')) \<longleftrightarrow>
     input = le_bytes 8 w @ rest \<and> c' = checksum_bytes c (le_bytes 8 w)"
  "read_integer 1 (input, c) = Inr (x :: u8, (rest, c')) \<longleftrightarrow>
     input = le_bytes 1 x @ rest \<and> c' = checksum_bytes c (le_bytes 1 x)"
  by (simp_all only: read_integer_def u32_codec.parse_iff u64_codec.parse_iff u8_codec.parse_iff simp_thms)

lemma expect_integer_show [simp]:
  "expect_integer v m (le_bytes 4 v @ rest, c) = Inr (rest, checksum_bytes c (le_bytes 4 v))"
  by (simp add: expect_integer_def del: le_bytes.simps)

lemma expect_integer_iff [result_simps]:
  "expect_integer v m (input, c) = Inr (rest, c') \<longleftrightarrow>
     input = le_bytes 4 v @ rest \<and> c' = checksum_bytes c (le_bytes 4 v)"
  by (auto simp: expect_integer_def result_simps hnsw_fail_def simp del: le_bytes.simps)

lemma hnsw_fail_not_Inr [simp]: "hnsw_fail m \<noteq> Inr x" "Inr x \<noteq> hnsw_fail m"
  by (simp_all add: hnsw_fail_def)

lemma unat_of_nat_u32: "n < 2 ^ 32 \<Longrightarrow> unat (of_nat n :: u32) = n"
  by (simp add: unsigned_of_nat take_bit_nat_eq_self)

lemma unat_ucast_u32: "unat (ucast (x :: u32) :: u64) = unat x"
  using unsigned_less [of x, where 'a = nat] by (simp add: unsigned_ucast_eq take_bit_nat_eq_self)

section \<open>The graph section\<close>

definition layer_bytes :: "nat list \<Rightarrow> u8 list" where
  "layer_bytes ns = le_bytes 4 (of_nat (length ns) :: u32) @ show_many (\<lambda>v. le_bytes 4 (of_nat v :: u32)) ns"

definition node_bytes :: "nat list list \<Rightarrow> u8 list" where
  "node_bytes levels = le_bytes 4 (of_nat (length levels) - 1 :: u32) @ show_many layer_bytes levels"

definition neighbors_ok :: "nat \<Rightarrow> nat \<Rightarrow> nat list \<Rightarrow> bool" where
  "neighbors_ok nodes node ns \<longleftrightarrow> distinct ns \<and> (\<forall>v\<in>set ns. v < nodes \<and> v \<noteq> node)"

lemma length_layer_bytes: "length (layer_bytes ns) = 4 + 4 * length ns"
  by (induction ns) (simp_all add: layer_bytes_def)

lemma neighbors_ok_degree: "neighbors_ok nodes node ns \<Longrightarrow> node < nodes \<Longrightarrow> length ns < nodes"
proof -
  assume ok: "neighbors_ok nodes node ns" and n: "node < nodes"
  then have "set ns \<subseteq> {..<nodes} - {node}" by (auto simp: neighbors_ok_def)
  then have "card (set ns) \<le> card ({..<nodes} - {node})" by (intro card_mono) auto
  then show ?thesis using ok n by (simp add: neighbors_ok_def distinct_card)
qed

lemma read_neighbors_iff:
  assumes "nodes \<le> 2 ^ 32"
  shows "read_neighbors nodes node n acc (input, c) = Inr (ns, (rest, c')) \<longleftrightarrow>
    (\<exists>new. length new = n \<and> ns = acc @ new \<and> neighbors_ok nodes node new \<and> set new \<inter> set acc = {}
       \<and> input = show_many (\<lambda>v. le_bytes 4 (of_nat v :: u32)) new @ rest
       \<and> c' = checksum_bytes c (show_many (\<lambda>v. le_bytes 4 (of_nat v :: u32)) new))"
proof (induction n arbitrary: acc input c)
  case 0
  then show ?case by (auto simp: neighbors_ok_def)
next
  case (Suc n)
  have "read_neighbors nodes node (Suc n) acc (input, c) = Inr (ns, (rest, c')) \<longleftrightarrow>
      (\<exists>(w :: u32) r. input = le_bytes 4 w @ r \<and> unat w < nodes \<and> unat w \<noteq> node \<and> unat w \<notin> set acc
         \<and> read_neighbors nodes node n (acc @ [unat w]) (r, checksum_bytes c (le_bytes 4 w))
           = Inr (ns, (rest, c')))"
  proof (cases "read_integer 4 (input, c) :: (u32 \<times> reader) result")
    case (Inl e)
    moreover have "input \<noteq> le_bytes 4 w @ r" for w :: u32 and r using Inl by (auto simp del: le_bytes.simps)
    ultimately show ?thesis by simp
  next
    case (Inr x)
    then obtain w r c1 where x: "read_integer 4 (input, c) = Inr (w :: u32, (r, c1))" by (cases x) auto
    then have "input = le_bytes 4 w @ r" "c1 = checksum_bytes c (le_bytes 4 w)" by (simp_all add: result_simps)
    then show ?thesis by (simp add: le_bytes_inj del: le_bytes.simps)
  qed
  also have "\<dots> \<longleftrightarrow> (\<exists>v r. input = le_bytes 4 (of_nat v :: u32) @ r \<and> v < nodes \<and> v \<noteq> node \<and> v \<notin> set acc
         \<and> read_neighbors nodes node n (acc @ [v]) (r, checksum_bytes c (le_bytes 4 (of_nat v :: u32)))
           = Inr (ns, (rest, c')))"
  proof -
    have "unat (of_nat v :: u32) = v" if "v < nodes" for v
      using that assms by (intro unat_of_nat_u32) simp
    moreover have "of_nat (unat w) = w" for w :: u32 by simp
    ultimately show ?thesis by metis
  qed
  also have "\<dots> \<longleftrightarrow> (\<exists>v new. length new = n \<and> ns = acc @ v # new \<and> neighbors_ok nodes node (v # new)
         \<and> set (v # new) \<inter> set acc = {}
         \<and> input = show_many (\<lambda>v. le_bytes 4 (of_nat v :: u32)) (v # new) @ rest
         \<and> c' = checksum_bytes c (show_many (\<lambda>v. le_bytes 4 (of_nat v :: u32)) (v # new)))"
    unfolding Suc.IH by (auto simp: neighbors_ok_def simp del: le_bytes.simps)
  finally show ?case by (simp only: length_Suc_conv) blast
qed

text \<open>The file the header describes: its size is that of header and payload.\<close>

definition sized :: "hnsw_header \<Rightarrow> nat \<Rightarrow> bool" where
  "sized header file_size \<longleftrightarrow>
     file_size = 112 + unat (hd_payload_bytes header) \<and> file_size < 2 ^ 64 \<and> unat (hd_count header) < 2 ^ 32"

lemma sized_file_end:
  assumes "sized header file_size"
  shows "hnsw_checked_add (ucast hnsw_header_size) (hd_payload_bytes header) m = Inr (of_nat file_size)"
proof -
  have size: "unat (ucast hnsw_header_size :: u64) = 112" by (simp add: hnsw_header_size_def)
  have fits: "unat (ucast hnsw_header_size :: u64) + unat (hd_payload_bytes header) < 2 ^ 64"
    and fs: "file_size = unat (ucast hnsw_header_size :: u64) + unat (hd_payload_bytes header)"
    unfolding size using assms by (simp_all add: sized_def)
  have "unat (of_nat file_size :: u64) = file_size" using fits fs by (intro unat_of_nat_u64) (simp only:)
  also have "\<dots> = unat (ucast hnsw_header_size + hd_payload_bytes header :: u64)"
    unfolding fs by (rule sym, rule unat_add_lem [THEN iffD1]) (use fits in simp)
  finally have "of_nat file_size = (ucast hnsw_header_size + hd_payload_bytes header :: u64)"
    by (simp only: word_unat_eq_iff)
  then show ?thesis
    using fits unfolding hnsw_checked_add_def checked_add_Inr by (simp only: simp_thms)
qed

lemma stream_left:
  assumes "sized header file_size" "length input \<le> file_size"
  shows "\<not> of_nat file_size < stream_position file_size (input, c)"
    and "unat (of_nat file_size - stream_position file_size (input, c)) = length input"
proof -
  have "file_size < 2 ^ 64" using assms by (simp add: sized_def)
  then have u: "unat (of_nat file_size :: u64) = file_size"
    "unat (stream_position file_size (input, c)) = file_size - length input"
    unfolding stream_position_def by (simp_all only: unat_of_nat_u64 fst_conv less_imp_diff_less)
  show "\<not> of_nat file_size < stream_position file_size (input, c)"
    unfolding word_less_nat_alt u by simp
  then have "stream_position file_size (input, c) \<le> of_nat file_size" by simp
  then show "unat (of_nat file_size - stream_position file_size (input, c)) = length input"
    using u assms(2) by (simp add: unat_sub)
qed

lemma read_layer_iff:
  assumes sized: "sized header file_size" and input: "length input \<le> file_size"
    and node: "node < unat (hd_count header)"
  shows "read_layer header file_size node layer (input, c) = Inr (ns, (rest, c')) \<longleftrightarrow>
    neighbors_ok (unat (hd_count header)) node ns \<and> length ns \<le> unat (degree_limit header layer)
    \<and> input = layer_bytes ns @ rest \<and> c' = checksum_bytes c (layer_bytes ns)"
    (is "?L \<longleftrightarrow> ?R")
proof (cases "read_integer 4 (input, c) :: (u32 \<times> reader) result")
  case (Inl e)
  moreover have "input \<noteq> layer_bytes ns @ rest"
    using Inl by (auto simp: layer_bytes_def simp del: le_bytes.simps)
  ultimately show ?thesis by (simp add: read_layer_def)
next
  case (Inr x)
  then obtain w r c1 where x: "read_integer 4 (input, c) = Inr (w :: u32, (r, c1))" by (cases x) auto
  then have i: "input = le_bytes 4 w @ r" "c1 = checksum_bytes c (le_bytes 4 w)" by (simp_all add: result_simps)
  have count: "unat (hd_count header) \<le> 2 ^ 32" using sized by (simp add: sized_def)
  have left: "length r \<le> file_size" using input i by simp
  note st = stream_left [OF sized left, of c1]
  let ?d = "unat w" and ?word = "\<lambda>v. le_bytes 4 (of_nat v :: u32)"
  have deg: "degree_limit header layer < ucast w \<or> hd_count header \<le> ucast w \<longleftrightarrow>
      \<not> (?d \<le> unat (degree_limit header layer) \<and> ?d < unat (hd_count header))"
    by (auto simp: word_less_nat_alt word_le_nat_alt unat_ucast_u32)
  have mult: "hnsw_checked_multiply (ucast w) 4 m = Inr (ucast w * 4)"
    "unat (ucast w * 4 :: u64) = 4 * ?d" for m
  proof -
    have "unat (ucast w :: u64) * unat (4 :: u64) < 2 ^ 64"
      using unsigned_less [of w, where 'a = nat] by (simp add: unat_ucast_u32)
    then show "hnsw_checked_multiply (ucast w) 4 m = Inr (ucast w * 4)" "unat (ucast w * 4 :: u64) = 4 * ?d"
      by (simp_all add: hnsw_checked_multiply_def checked_multiply_Inr unat_mult_lem [THEN iffD1] unat_ucast_u32)
  qed
  have "?L \<longleftrightarrow> ?d \<le> unat (degree_limit header layer) \<and> ?d < unat (hd_count header)
      \<and> 4 * ?d \<le> length r
      \<and> read_neighbors (unat (hd_count header)) node ?d [] (r, c1) = Inr (ns, (rest, c'))"
  proof -
    have long: "of_nat file_size - stream_position file_size (r, c1) < ucast w * 4 \<longleftrightarrow> \<not> 4 * ?d \<le> length r"
      unfolding word_less_nat_alt mult(2) st(2) by (simp add: not_le)
    show ?thesis
      unfolding read_layer_def x and_then_Inr prod.case deg sized_file_end [OF sized] mult(1) long
      using st(1) by auto
  qed
  also have "\<dots> \<longleftrightarrow> ?d \<le> unat (degree_limit header layer) \<and> ?d < unat (hd_count header)
      \<and> 4 * ?d \<le> length r \<and> length ns = ?d \<and> neighbors_ok (unat (hd_count header)) node ns
      \<and> r = show_many ?word ns @ rest \<and> c' = checksum_bytes c1 (show_many ?word ns)"
    by (simp add: read_neighbors_iff [OF count])
  also have "\<dots> \<longleftrightarrow> ?R"
  proof
    assume R: ?R
    then have less: "length ns < unat (hd_count header)" using neighbors_ok_degree node by blast
    then have u: "unat (of_nat (length ns) :: u32) = length ns"
      using count by (intro unat_of_nat_u32) simp
    from R i(1) have w: "w = of_nat (length ns)" and r: "r = show_many ?word ns @ rest"
      by (auto simp: layer_bytes_def le_bytes_inj simp del: le_bytes.simps)
    have "length (show_many ?word ns) = 4 * length ns" by (induction ns) simp_all
    then show "?d \<le> unat (degree_limit header layer) \<and> ?d < unat (hd_count header)
      \<and> 4 * ?d \<le> length r \<and> length ns = ?d \<and> neighbors_ok (unat (hd_count header)) node ns
      \<and> r = show_many ?word ns @ rest \<and> c' = checksum_bytes c1 (show_many ?word ns)"
      using R less u i(2) by (simp add: w r layer_bytes_def del: le_bytes.simps)
  next
    assume A: "?d \<le> unat (degree_limit header layer) \<and> ?d < unat (hd_count header)
      \<and> 4 * ?d \<le> length r \<and> length ns = ?d \<and> neighbors_ok (unat (hd_count header)) node ns
      \<and> r = show_many ?word ns @ rest \<and> c' = checksum_bytes c1 (show_many ?word ns)"
    then have "w = of_nat (length ns)" by simp
    then show ?R using A i by (simp add: layer_bytes_def del: le_bytes.simps)
  qed
  finally show ?thesis .
qed

definition layers_ok :: "hnsw_header \<Rightarrow> nat \<Rightarrow> nat \<Rightarrow> nat list list \<Rightarrow> bool" where
  "layers_ok header node layer levels \<longleftrightarrow>
     (\<forall>l < length levels. neighbors_ok (unat (hd_count header)) node (levels ! l)
        \<and> length (levels ! l) \<le> unat (degree_limit header (layer + l)))"

lemma layers_ok_Cons:
  "layers_ok header node layer (ns # levels) \<longleftrightarrow>
     neighbors_ok (unat (hd_count header)) node ns \<and> length ns \<le> unat (degree_limit header layer)
     \<and> layers_ok header node (Suc layer) levels"
  by (auto simp: layers_ok_def All_less_Suc2)

lemma read_layers_iff:
  assumes "sized header file_size" "node < unat (hd_count header)"
  shows "length input \<le> file_size \<Longrightarrow>
    read_layers header file_size node layer n (input, c) = Inr (levels, (rest, c')) \<longleftrightarrow>
    length levels = n \<and> layers_ok header node layer levels
    \<and> input = show_many layer_bytes levels @ rest \<and> c' = checksum_bytes c (show_many layer_bytes levels)"
proof (induction n arbitrary: layer input c levels)
  case 0
  then show ?case by (auto simp: layers_ok_def)
next
  case (Suc n)
  have step: "read_layers header file_size node layer (Suc n) (input, c) = Inr (levels, (rest, c')) \<longleftrightarrow>
      (\<exists>ns ls r c1. levels = ns # ls \<and> read_layer header file_size node layer (input, c) = Inr (ns, (r, c1))
         \<and> read_layers header file_size node (Suc layer) n (r, c1) = Inr (ls, (rest, c')))"
    by (auto simp: result_simps)
  show ?case
  proof (cases levels)
    case (Cons ns ls)
    have "read_layers header file_size node layer (Suc n) (input, c) = Inr (levels, (rest, c')) \<longleftrightarrow>
      (\<exists>r c1. (neighbors_ok (unat (hd_count header)) node ns \<and> length ns \<le> unat (degree_limit header layer)
          \<and> input = layer_bytes ns @ r \<and> c1 = checksum_bytes c (layer_bytes ns))
        \<and> read_layers header file_size node (Suc layer) n (r, c1) = Inr (ls, (rest, c')))"
      unfolding step [unfolded Cons] Cons read_layer_iff [OF assms(1) Suc.prems assms(2)] list.inject by blast
    also have "\<dots> \<longleftrightarrow> (\<exists>r c1. (neighbors_ok (unat (hd_count header)) node ns
          \<and> length ns \<le> unat (degree_limit header layer)
          \<and> input = layer_bytes ns @ r \<and> c1 = checksum_bytes c (layer_bytes ns))
        \<and> length ls = n \<and> layers_ok header node (Suc layer) ls
        \<and> r = show_many layer_bytes ls @ rest \<and> c' = checksum_bytes c1 (show_many layer_bytes ls))"
    proof -
      have "read_layers header file_size node (Suc layer) n (r, c1) = Inr (ls, (rest, c')) \<longleftrightarrow>
          length ls = n \<and> layers_ok header node (Suc layer) ls
          \<and> r = show_many layer_bytes ls @ rest \<and> c' = checksum_bytes c1 (show_many layer_bytes ls)"
        if "input = layer_bytes ns @ r" for r c1
        using that Suc.prems by (intro Suc.IH) simp
      then show ?thesis by blast
    qed
    finally show ?thesis by (auto simp: Cons layers_ok_Cons)
  next
    case Nil
    then show ?thesis unfolding step by simp
  qed
qed

text \<open>One node, and all nodes from number \<open>node\<close> on.\<close>

definition node_ok :: "hnsw_header \<Rightarrow> nat \<Rightarrow> hnsw_node \<Rightarrow> bool" where
  "node_ok header node g \<longleftrightarrow> \<not> node_deleted g \<and> node_levels g \<noteq> []
     \<and> length (node_levels g) \<le> 64 \<and> length (node_levels g) \<le> Suc (unat (hd_maximum_level header))
     \<and> layers_ok header node 0 (node_levels g)"

lemma node_bytes_level:
  assumes "levels \<noteq> []" "length levels \<le> 64"
  shows "unat (of_nat (length levels) - 1 :: u32) = length levels - 1"
proof -
  have "of_nat (length levels) - 1 = (of_nat (length levels - 1) :: u32)"
    using assms(1) by (cases levels) simp_all
  then show ?thesis using assms(2) by (simp only:) (intro unat_of_nat_u32, simp)
qed

lemma read_node_iff:
  assumes "sized header file_size" "node < unat (hd_count header)" "length input \<le> file_size"
  shows "read_node header file_size node (input, c) = Inr ((level, g), (rest, c')) \<longleftrightarrow>
    node_ok header node g \<and> unat level = length (node_levels g) - 1
    \<and> input = node_bytes (node_levels g) @ rest \<and> c' = checksum_bytes c (node_bytes (node_levels g))"
    (is "?L \<longleftrightarrow> ?R")
proof (cases "read_integer 4 (input, c) :: (u32 \<times> reader) result")
  case (Inl e)
  moreover have "input \<noteq> node_bytes (node_levels g) @ rest"
    using Inl by (auto simp: node_bytes_def simp del: le_bytes.simps)
  ultimately show ?thesis by (simp add: read_node_def)
next
  case (Inr x)
  then obtain w r c1 where x: "read_integer 4 (input, c) = Inr (w :: u32, (r, c1))" by (cases x) auto
  then have i: "input = le_bytes 4 w @ r" "c1 = checksum_bytes c (le_bytes 4 w)" by (simp_all add: result_simps)
  have left: "length r \<le> file_size" using assms(3) i by simp
  have lim: "hnsw_maximum_level < w \<or> hd_maximum_level header < ucast w \<longleftrightarrow>
      \<not> (unat w \<le> 63 \<and> unat w \<le> unat (hd_maximum_level header))"
    by (auto simp: word_less_nat_alt unat_ucast_u32 hnsw_maximum_level_def)
  have suc: "unat (w + 1) = Suc (unat w)" if "unat w \<le> 63"
    using that unat_add_lem [of w 1] by simp
  have "?L \<longleftrightarrow> unat w \<le> 63 \<and> unat w \<le> unat (hd_maximum_level header) \<and> level = w \<and> \<not> node_deleted g
      \<and> read_layers header file_size node 0 (Suc (unat w)) (r, c1) = Inr (node_levels g, (rest, c'))"
    unfolding read_node_def x and_then_Inr prod.case lim using suc
    by (cases g) (auto simp: and_then_eq_Inr)
  also have "\<dots> \<longleftrightarrow> unat w \<le> 63 \<and> unat w \<le> unat (hd_maximum_level header) \<and> level = w \<and> \<not> node_deleted g
      \<and> length (node_levels g) = Suc (unat w) \<and> layers_ok header node 0 (node_levels g)
      \<and> r = show_many layer_bytes (node_levels g) @ rest
      \<and> c' = checksum_bytes c1 (show_many layer_bytes (node_levels g))"
    unfolding read_layers_iff [OF assms(1,2) left] by blast
  also have "\<dots> \<longleftrightarrow> ?R"
  proof
    assume R: ?R
    then have w: "w = of_nat (length (node_levels g)) - 1" "r = show_many layer_bytes (node_levels g) @ rest"
      using i(1) by (auto simp: node_bytes_def le_bytes_inj simp del: le_bytes.simps)
    have "unat w = length (node_levels g) - 1"
      using R node_bytes_level [of "node_levels g"] unfolding w(1) by (simp add: node_ok_def)
    moreover have "level = w" using R calculation by (simp add: word_unat_eq_iff)
    moreover have "length (node_levels g) = Suc (length (node_levels g) - 1)"
      using R by (cases "node_levels g") (auto simp: node_ok_def)
    ultimately show "unat w \<le> 63 \<and> unat w \<le> unat (hd_maximum_level header) \<and> level = w \<and> \<not> node_deleted g
      \<and> length (node_levels g) = Suc (unat w) \<and> layers_ok header node 0 (node_levels g)
      \<and> r = show_many layer_bytes (node_levels g) @ rest
      \<and> c' = checksum_bytes c1 (show_many layer_bytes (node_levels g))"
      using R w i(2) by (auto simp: node_ok_def node_bytes_def simp del: le_bytes.simps)
  next
    assume A: "unat w \<le> 63 \<and> unat w \<le> unat (hd_maximum_level header) \<and> level = w \<and> \<not> node_deleted g
      \<and> length (node_levels g) = Suc (unat w) \<and> layers_ok header node 0 (node_levels g)
      \<and> r = show_many layer_bytes (node_levels g) @ rest
      \<and> c' = checksum_bytes c1 (show_many layer_bytes (node_levels g))"
    then have "w = of_nat (length (node_levels g)) - 1" by simp
    then show ?R using A i by (auto simp: node_ok_def node_bytes_def simp del: le_bytes.simps)
  qed
  finally show ?thesis .
qed

definition nodes_ok :: "hnsw_header \<Rightarrow> nat \<Rightarrow> hnsw_node list \<Rightarrow> bool" where
  "nodes_ok header node graph \<longleftrightarrow> (\<forall>i < length graph. node_ok header (node + i) (graph ! i))"

definition graph_bytes :: "hnsw_node list \<Rightarrow> u8 list" where
  "graph_bytes graph = show_many (\<lambda>g. node_bytes (node_levels g)) graph"

definition top_level :: "nat \<Rightarrow> hnsw_node list \<Rightarrow> nat" where
  "top_level m graph = foldl (\<lambda>m g. max m (length (node_levels g) - 1)) m graph"

lemma read_nodes_iff:
  assumes "sized header file_size"
  shows "length input \<le> file_size \<Longrightarrow> node + n \<le> unat (hd_count header) \<Longrightarrow>
    read_nodes header file_size node n observed (input, c) = Inr ((observed', graph), (rest, c')) \<longleftrightarrow>
    length graph = n \<and> nodes_ok header node graph \<and> unat observed' = top_level (unat observed) graph
    \<and> input = graph_bytes graph @ rest \<and> c' = checksum_bytes c (graph_bytes graph)"
proof (induction n arbitrary: node observed input c graph)
  case 0
  then show ?case by (auto simp: nodes_ok_def top_level_def graph_bytes_def word_unat_eq_iff)
next
  case (Suc n)
  have node: "node < unat (hd_count header)" using Suc.prems by simp
  have step: "read_nodes header file_size node (Suc n) observed (input, c) = Inr ((observed', graph), (rest, c')) \<longleftrightarrow>
      (\<exists>level g gs r c1. graph = g # gs \<and> read_node header file_size node (input, c) = Inr ((level, g), (r, c1))
         \<and> read_nodes header file_size (Suc node) n (max observed level) (r, c1) = Inr ((observed', gs), (rest, c')))"
    by (auto simp: result_simps)
  show ?case
  proof (cases graph)
    case (Cons g gs)
    have max: "unat (max a b) = max (unat a) (unat b)" for a b :: u32
      by (simp add: max_def word_le_nat_alt)
    have lvl: "node_ok header node g \<Longrightarrow> unat (of_nat (length (node_levels g)) - 1 :: u32) = length (node_levels g) - 1"
      by (rule node_bytes_level) (simp_all add: node_ok_def)
    let ?l = "length (node_levels g) - 1" and ?nb = "node_bytes (node_levels g)"
    let ?rest = "\<lambda>r c1. length gs = n \<and> nodes_ok header (Suc node) gs
        \<and> unat observed' = top_level (max (unat observed) ?l) gs
        \<and> r = graph_bytes gs @ rest \<and> c' = checksum_bytes c1 (graph_bytes gs)"
    have ih: "read_nodes header file_size (Suc node) n (max observed level) (r, c1) = Inr ((observed', gs), (rest, c'))
        \<longleftrightarrow> ?rest r c1"
      if "input = ?nb @ r" "unat level = ?l" for r c1 level
      using that Suc.prems by (subst Suc.IH) (simp_all add: max)
    have ok: "nodes_ok header node (g # gs) \<longleftrightarrow> node_ok header node g \<and> nodes_ok header (Suc node) gs"
      by (auto simp: nodes_ok_def All_less_Suc2)
    have "read_nodes header file_size node (Suc n) observed (input, c) = Inr ((observed', graph), (rest, c')) \<longleftrightarrow>
      (\<exists>(level :: u32) r c1. (node_ok header node g \<and> unat level = ?l
          \<and> input = ?nb @ r \<and> c1 = checksum_bytes c ?nb)
        \<and> read_nodes header file_size (Suc node) n (max observed level) (r, c1) = Inr ((observed', gs), (rest, c')))"
      unfolding step [unfolded Cons] Cons read_node_iff [OF assms node Suc.prems(1)] list.inject by blast
    also have "\<dots> \<longleftrightarrow> (\<exists>(level :: u32) r c1. (node_ok header node g \<and> unat level = ?l
          \<and> input = ?nb @ r \<and> c1 = checksum_bytes c ?nb) \<and> ?rest r c1)"
      using ih by blast
    also have "\<dots> \<longleftrightarrow> node_ok header node g \<and> (\<exists>r. input = ?nb @ r \<and> ?rest r (checksum_bytes c ?nb))"
      using lvl by blast
    also have "\<dots> \<longleftrightarrow> length graph = Suc n \<and> nodes_ok header node graph
        \<and> unat observed' = top_level (unat observed) graph
        \<and> input = graph_bytes graph @ rest \<and> c' = checksum_bytes c (graph_bytes graph)"
      unfolding Cons ok by (auto simp: top_level_def graph_bytes_def)
    finally show ?thesis .
  next
    case Nil
    then show ?thesis unfolding step by simp
  qed
qed

section \<open>Tombstones\<close>

definition flag_graph :: "hnsw_node list \<Rightarrow> bool list \<Rightarrow> hnsw_node list" where
  "flag_graph graph bs = map2 (\<lambda>g b. g\<lparr>node_deleted := b\<rparr>) graph bs"

definition flag_bytes :: "bool list \<Rightarrow> u8 list" where
  "flag_bytes bs = show_many (\<lambda>b. le_bytes 1 (if b then 1 else 0 :: u8)) bs"

lemma flag_cases: "\<not> 1 < (flag :: u8) \<Longrightarrow> flag = 0 \<or> flag = 1"
  by (simp add: word_less_nat_alt word_unat_eq_iff) linarith

lemma read_flags_iff:
  "read_flags graph d (input, c) = Inr ((d', graph'), (rest, c')) \<longleftrightarrow>
    (\<exists>bs. length bs = length graph \<and> graph' = flag_graph graph bs \<and> d' = d + length (filter id bs)
       \<and> input = flag_bytes bs @ rest \<and> c' = checksum_bytes c (flag_bytes bs))"
proof (induction graph arbitrary: d input c graph')
  case Nil
  then show ?case by (auto simp: flag_graph_def flag_bytes_def)
next
  case (Cons g graph)
  let ?w = "\<lambda>b. if b then 1 else 0 :: u8"
  have "read_flags (g # graph) d (input, c) = Inr ((d', graph'), (rest, c')) \<longleftrightarrow>
      (\<exists>(w :: u8) r gs. input = le_bytes 1 w @ r \<and> \<not> 1 < w \<and> graph' = g\<lparr>node_deleted := w \<noteq> 0\<rparr> # gs
         \<and> read_flags graph (d + unat w) (r, checksum_bytes c (le_bytes 1 w)) = Inr ((d', gs), (rest, c')))"
  proof (cases "read_integer 1 (input, c) :: (u8 \<times> reader) result")
    case (Inl e)
    moreover have "input \<noteq> le_bytes 1 w @ r" for w :: u8 and r
      using Inl read_integer_show(3) [of w r c] by auto
    ultimately show ?thesis by simp
  next
    case (Inr x)
    then obtain w r c1 where x: "read_integer 1 (input, c) = Inr (w :: u8, (r, c1))" by (cases x) auto
    note i = x [unfolded read_integer_iff(3)]
    then have eq: "le_bytes 1 (w' :: u8) @ r' = input \<longleftrightarrow> w' = w \<and> r' = r" for w' r'
      by (metis x read_integer_show(3) read_integer_iff(3) Inr_inject Pair_inject)
    have "read_flags (g # graph) d (input, c) = Inr ((d', graph'), (rest, c')) \<longleftrightarrow>
      (\<exists>gs. \<not> 1 < w \<and> graph' = g\<lparr>node_deleted := w \<noteq> 0\<rparr> # gs
         \<and> read_flags graph (d + unat w) (r, c1) = Inr ((d', gs), (rest, c')))"
      by (auto simp: x and_then_eq_Inr simp del: le_bytes.simps One_nat_def)
    then show ?thesis using i eq by blast
  qed
  also have "\<dots> \<longleftrightarrow> (\<exists>b r gs. input = le_bytes 1 (?w b) @ r \<and> graph' = g\<lparr>node_deleted := b\<rparr> # gs
         \<and> read_flags graph (d + of_bool b) (r, checksum_bytes c (le_bytes 1 (?w b))) = Inr ((d', gs), (rest, c')))"
    (is "?A \<longleftrightarrow> ?B")
  proof
    assume ?A
    then obtain w r gs where A: "input = le_bytes 1 (w :: u8) @ r" "w = 0 \<or> w = 1"
      "graph' = g\<lparr>node_deleted := w \<noteq> 0\<rparr> # gs"
      "read_flags graph (d + unat w) (r, checksum_bytes c (le_bytes 1 w)) = Inr ((d', gs), (rest, c'))"
      using flag_cases by blast
    then show ?B by (intro exI [of _ "w \<noteq> 0"] exI [of _ r] exI [of _ gs]) (auto simp del: le_bytes.simps)
  next
    assume ?B
    then obtain b r gs where B: "input = le_bytes 1 (?w b) @ r" "graph' = g\<lparr>node_deleted := b\<rparr> # gs"
      "read_flags graph (d + of_bool b) (r, checksum_bytes c (le_bytes 1 (?w b))) = Inr ((d', gs), (rest, c'))"
      by blast
    then show ?A by (intro exI [of _ "?w b"] exI [of _ r] exI [of _ gs]) (auto simp del: le_bytes.simps)
  qed
  also have "\<dots> \<longleftrightarrow> (\<exists>b bs. length bs = length graph \<and> graph' = flag_graph (g # graph) (b # bs)
       \<and> d' = d + length (filter id (b # bs))
       \<and> input = flag_bytes (b # bs) @ rest \<and> c' = checksum_bytes c (flag_bytes (b # bs)))"
    unfolding Cons.IH by (auto simp: flag_graph_def flag_bytes_def simp del: le_bytes.simps)
  finally show ?case by (simp only: length_Suc_conv list.size(4) add_Suc_right add_0_right) blast
qed

section \<open>The generator state\<close>

definition rng_bytes :: "u8 list \<Rightarrow> u8 list" where
  "rng_bytes random_state = le_bytes 4 (of_nat (length random_state) :: u32) @ random_state"

definition rng_text_of :: "u8 list \<Rightarrow> mt_state \<Rightarrow> bool" where
  "rng_text_of random_state st \<longleftrightarrow> random_state \<noteq> [] \<and> length random_state \<le> 16 * 1024
     \<and> (\<exists>rest. rng_read mt_size random_state = Some (st, rest) \<and> dropWhile is_space rest = [])"

lemma rng_text_show: "length st = mt_size \<Longrightarrow> rng_text_of (rng_show st) st"
  using rng_read_show [of st] length_rng_show [of st]
  by (cases "st = []") (auto simp: rng_text_of_def mt_size_def)

lemma read_random_state_iff:
  assumes "sized header file_size" "length input \<le> file_size" "hnsw_rng_state_version \<le> hd_version header"
  shows "read_random_state header file_size seeded (input, c) = Inr (st, (rest, c')) \<longleftrightarrow>
    (\<exists>random_state. rng_text_of random_state st \<and> input = rng_bytes random_state \<and> rest = []
       \<and> c' = checksum_bytes c (rng_bytes random_state))" (is "?L \<longleftrightarrow> ?R")
proof (cases "read_integer 4 (input, c) :: (u32 \<times> reader) result")
  case (Inl e)
  moreover have "input \<noteq> rng_bytes random_state" for random_state
    using Inl by (auto simp: rng_bytes_def simp del: le_bytes.simps)
  ultimately show ?thesis using assms(3) by (simp add: read_random_state_def)
next
  case (Inr x)
  then obtain w r c1 where x: "read_integer 4 (input, c) = Inr (w :: u32, (r, c1))" by (cases x) auto
  then have i: "input = le_bytes 4 w @ r" "c1 = checksum_bytes c (le_bytes 4 w)" by (simp_all add: result_simps)
  have left: "length r \<le> file_size" using assms(2) i by simp
  note st = stream_left [OF assms(1) left, of c1]
  have bad: "w = 0 \<or> hnsw_maximum_rng_state_bytes < w \<or> of_nat file_size < stream_position file_size (r, c1)
      \<or> ucast w \<noteq> of_nat file_size - stream_position file_size (r, c1) \<longleftrightarrow>
      \<not> (unat w \<noteq> 0 \<and> unat w \<le> 16 * 1024 \<and> unat w = length r)"
  proof -
    have "ucast w \<noteq> of_nat file_size - stream_position file_size (r, c1) \<longleftrightarrow> unat w \<noteq> length r"
      by (simp add: word_unat_eq_iff st(2) unat_ucast_u32)
    moreover have "hnsw_maximum_rng_state_bytes < w \<longleftrightarrow> 16 * 1024 < unat w"
      by (simp add: word_less_nat_alt hnsw_maximum_rng_state_bytes_def)
    moreover have "w = 0 \<longleftrightarrow> unat w = 0" by (simp add: unat_eq_zero)
    ultimately show ?thesis using st(1) by auto
  qed
  have "?L \<longleftrightarrow> unat w \<noteq> 0 \<and> unat w \<le> 16 * 1024 \<and> unat w = length r
      \<and> (\<exists>m. rng_read mt_size r = Some (st, m) \<and> dropWhile is_space m = [])
      \<and> rest = [] \<and> c' = checksum_bytes c1 r"
    unfolding read_random_state_def x and_then_Inr prod.case bad sized_file_end [OF assms(1)]
    using assms(3) by (auto split: option.splits prod.splits)
  also have "\<dots> \<longleftrightarrow> ?R"
  proof
    assume A: "unat w \<noteq> 0 \<and> unat w \<le> 16 * 1024 \<and> unat w = length r
      \<and> (\<exists>m. rng_read mt_size r = Some (st, m) \<and> dropWhile is_space m = [])
      \<and> rest = [] \<and> c' = checksum_bytes c1 r"
    moreover have "w = of_nat (unat w)" by simp
    ultimately have "w = of_nat (length r)" by metis
    moreover have "r \<noteq> []" using A by auto
    ultimately show ?R using A i
      by (intro exI [of _ r]) (simp add: rng_text_of_def rng_bytes_def del: le_bytes.simps)
  next
    assume ?R
    then obtain t where t: "rng_text_of t st" "input = rng_bytes t" "rest = []"
      "c' = checksum_bytes c (rng_bytes t)" by blast
    then have w: "w = of_nat (length t)" "r = t"
      using i(1) by (auto simp: rng_bytes_def le_bytes_inj simp del: le_bytes.simps)
    have u: "unat w = length t" unfolding w(1)
      using t(1) by (intro unat_of_nat_u32) (simp add: rng_text_of_def)
    show "unat w \<noteq> 0 \<and> unat w \<le> 16 * 1024 \<and> unat w = length r
      \<and> (\<exists>m. rng_read mt_size r = Some (st, m) \<and> dropWhile is_space m = [])
      \<and> rest = [] \<and> c' = checksum_bytes c1 r"
      using t i(2) u w by (simp add: rng_text_of_def rng_bytes_def del: le_bytes.simps)
  qed
  finally show ?thesis .
qed

end
