(* ===== verification/Hnsw_Header.thy ===== *)
theory Hnsw_Header
  imports Hnsw_Snapshot
begin

text \<open>
  The header of the approximate index's snapshots: what \<open>read_header\<close> accepts, and the
  payload limits of \<open>validate_header\<close> as natural numbers, free of overflow.
\<close>

section \<open>Reading the header\<close>

definition header_bytes :: "hnsw_header \<Rightarrow> u8 list" where
  "header_bytes header = concat (butlast (write_header header 0))"

definition known_version :: "hnsw_header \<Rightarrow> bool" where
  "known_version header \<longleftrightarrow> hd_version header \<in> {1, 2, 3}"

lemma header_bytes_eq:
  "header_bytes header =
     hnsw_magic @ le_bytes 4 (hd_version header) @ le_bytes 4 hnsw_header_size
     @ le_bytes 4 endian_marker @ le_bytes 4 normalized_cosine_flag
     @ le_bytes 8 (hd_dimension header) @ le_bytes 8 (hd_count header)
     @ le_bytes 8 (hd_max_connections header) @ le_bytes 8 (hd_ef_construction header)
     @ le_bytes 8 (hd_ef_search header) @ le_bytes 8 (hd_seed header)
     @ le_bytes 4 (hd_selection header) @ le_bytes 4 (0 :: u32)
     @ le_bytes 8 (hd_maximum_level header) @ le_bytes 8 (hd_entry_point header)
     @ le_bytes 8 (hd_payload_bytes header)"
  by (simp add: header_bytes_def write_header_def del: le_bytes.simps)

lemma concat_write_header: "concat (write_header header c) = header_bytes header @ le_bytes 8 c"
  by (simp add: header_bytes_eq write_header_def del: le_bytes.simps)

lemma length_hnsw_magic [simp]: "length hnsw_magic = 8"
  by (simp add: hnsw_magic_def)

lemma length_header_bytes [simp]: "length (header_bytes header) = 104"
  by (simp add: header_bytes_eq del: le_bytes.simps)

lemma header_bytes_inj: "header_bytes h = header_bytes h' \<Longrightarrow> h = h'"
  by (cases h, cases h') (simp add: header_bytes_eq le_bytes_inj del: le_bytes.simps)

lemma checksum_header_bytes: "checksum_header c header = checksum_bytes c (header_bytes header)"
  by (simp add: checksum_header_def header_bytes_eq checksum_integer_bytes Let_def
      del: le_bytes.simps checksum_integer.simps)

lemma version_bounds:
  "\<not> (v < hnsw_legacy_version \<or> hnsw_current_version < v) \<longleftrightarrow> v \<in> {1, 2, 3 :: u32}"
proof
  assume "\<not> (v < hnsw_legacy_version \<or> hnsw_current_version < v)"
  then have "1 \<le> unat v" "unat v \<le> 3"
    by (simp_all add: hnsw_format_defs word_less_nat_alt word_le_nat_alt not_less)
  then have "unat v = 1 \<or> unat v = 2 \<or> unat v = 3" by linarith
  then show "v \<in> {1, 2, 3}" by (auto simp: word_unat_eq_iff)
qed (auto simp: hnsw_format_defs)

lemma read_integer_unsummed_iff [result_simps]:
  "read_integer_unsummed 8 (input, c) = Inr (w :: u64, (rest, c')) \<longleftrightarrow>
     input = le_bytes 8 w @ rest \<and> c' = c"
  by (simp add: read_integer_unsummed_def read_little_endian_Inr)

lemma read_integer_unsummed_show [simp]:
  "read_integer_unsummed 8 (le_bytes 8 (w :: u64) @ rest, c) = Inr (w, (rest, c))"
  by (simp only: read_integer_unsummed_iff simp_thms)

lemma read_header_iff:
  "read_header content = Inr ((header, stored), (rest, c)) \<longleftrightarrow>
     known_version header \<and> content = header_bytes header @ le_bytes 8 stored @ rest
     \<and> c = checksum_bytes fnv_offset_basis (header_bytes header)" (is "?L \<longleftrightarrow> ?R")
proof
  assume ?L
  then have magic: "take 8 content = hnsw_magic" by (simp add: read_header_def split: if_splits)
  from \<open>?L\<close> show ?R
    using append_take_drop_id [of 8 content, unfolded magic]
    by (auto simp: read_header_def result_simps header_bytes_eq known_version_def
        simp del: le_bytes.simps append_take_drop_id split: if_splits) (use version_bounds in blast)
next
  assume R: ?R
  have "\<not> (hd_version header < hnsw_legacy_version \<or> hnsw_current_version < hd_version header)"
    using R by (simp only: version_bounds known_version_def)
  then show ?L
    using R by (simp add: read_header_def header_bytes_eq del: le_bytes.simps)
qed

section \<open>Payload limits\<close>

text \<open>A sum or product of words that stand for natural numbers either is exact or throws.\<close>

lemma hnsw_checked_add_nat:
  assumes "a < 2 ^ 64" "b < 2 ^ 64"
  shows "hnsw_checked_add (of_nat a) (of_nat b) m = Inr r \<longleftrightarrow> a + b < 2 ^ 64 \<and> r = of_nat (a + b)"
  using assms by (simp only: hnsw_checked_add_def checked_add_Inr unat_of_nat_u64 of_nat_add)

lemma hnsw_checked_multiply_nat:
  assumes "a < 2 ^ 64" "b < 2 ^ 64"
  shows "hnsw_checked_multiply (of_nat a) (of_nat b) m = Inr r \<longleftrightarrow> a * b < 2 ^ 64 \<and> r = of_nat (a * b)"
  using assms by (simp only: hnsw_checked_multiply_def checked_multiply_Inr unat_of_nat_u64 of_nat_mult)

lemma and_then_add_nat:
  assumes "a < 2 ^ 64" "b < 2 ^ 64"
  shows "and_then (hnsw_checked_add (of_nat a) (of_nat b) m) f = Inr r \<longleftrightarrow>
    a + b < 2 ^ 64 \<and> f (of_nat (a + b)) = Inr r"
  using assms by (auto simp only: and_then_eq_Inr hnsw_checked_add_nat)

lemma and_then_multiply_nat:
  assumes "a < 2 ^ 64" "b < 2 ^ 64"
  shows "and_then (hnsw_checked_multiply (of_nat a) (of_nat b) m) f = Inr r \<longleftrightarrow>
    a * b < 2 ^ 64 \<and> f (of_nat (a * b)) = Inr r"
  using assms by (auto simp only: and_then_eq_Inr hnsw_checked_multiply_nat)

definition trailer_limit :: "hnsw_header \<Rightarrow> nat \<Rightarrow> nat" where
  "trailer_limit header random_bytes =
     (if hnsw_rng_state_version \<le> hd_version header then 4 + random_bytes else 0)
     + (if hd_version header = hnsw_current_version then 8 + unat (hd_count header) else 0)"

definition data_bytes :: "hnsw_header \<Rightarrow> nat" where
  "data_bytes header = unat (hd_count header) * 8 + unat (hd_count header) * unat (hd_dimension header) * 4"

definition minimum_payload :: "hnsw_header \<Rightarrow> nat" where
  "minimum_payload header = data_bytes header + unat (hd_count header) * 8 + trailer_limit header 1"

definition maximum_payload :: "hnsw_header \<Rightarrow> nat" where
  "maximum_payload header =
     data_bytes header + unat (hd_count header) * (4 + 64 * (4 + unat (hd_max_connections header) * 2 * 4))
     + trailer_limit header (16 * 1024)"

text \<open>What the generator state and the tombstones add to either limit.\<close>

lemma trailer_limit_iff:
  assumes "p < 2 ^ 64" "unat (hd_count header) < 2 ^ 32" "k < 2 ^ 32" "kw = of_nat (4 + k)"
  shows "and_then
       (if hnsw_rng_state_version \<le> hd_version header then
          hnsw_checked_add (of_nat p) kw m1
        else Inr (of_nat p)) (\<lambda>minimum.
       if hd_version header = hnsw_current_version then
         and_then (hnsw_checked_add 8 (hd_count header) m2) (\<lambda>tombstones.
           hnsw_checked_add minimum tombstones m3)
       else Inr minimum) = Inr r \<longleftrightarrow>
    p + trailer_limit header k < 2 ^ 64 \<and> r = of_nat (p + trailer_limit header k)"
proof -
  let ?c = "unat (hd_count header)"
  have fits: "4 + k < 2 ^ 64" "8 < (2 :: nat) ^ 64" "?c < 2 ^ 64" "8 + ?c < 2 ^ 64" using assms(2,3) by simp_all
  have words: "and_then (hnsw_checked_add 8 (hd_count header) m2) f
      = and_then (hnsw_checked_add (of_nat 8) (of_nat ?c) m2) f" for f :: "u64 \<Rightarrow> u64 result"
    by simp
  have rng: "hd_version header = hnsw_current_version \<Longrightarrow> hnsw_rng_state_version \<le> hd_version header"
    by (simp add: hnsw_format_defs)
  show ?thesis
  proof (cases "hnsw_rng_state_version \<le> hd_version header")
    case old: True
    show ?thesis
    proof (cases "hd_version header = hnsw_current_version")
      case True
      have t: "trailer_limit header k = (4 + k) + (8 + ?c)"
        using True old by (simp add: trailer_limit_def)
      show ?thesis
        unfolding t if_P [OF old] if_P [OF True] words assms(4) add.assoc [symmetric]
        using assms(1) fits
        by (auto simp only: and_then_add_nat hnsw_checked_add_nat add.assoc)
    next
      case False
      have t: "trailer_limit header k = 4 + k"
        using False old by (simp add: trailer_limit_def)
      show ?thesis
        unfolding t if_P [OF old] if_not_P [OF False] assms(4)
        using assms(1) fits by (auto simp only: and_then_add_nat)
    qed
  next
    case False
    then have "hd_version header \<noteq> hnsw_current_version" using rng by blast
    then show ?thesis using False assms(1) by (auto simp: trailer_limit_def)
  qed
qed

lemma minimum_payload_bytes_iff:
  assumes "i + v = data_bytes header" "i < 2 ^ 64" "v < 2 ^ 64" "unat (hd_count header) < 2 ^ 32"
  shows "minimum_payload_bytes header (of_nat i) (of_nat v) = Inr r \<longleftrightarrow>
    minimum_payload header < 2 ^ 64 \<and> r = of_nat (minimum_payload header)"
proof -
  let ?c = "unat (hd_count header)"
  have graph: "and_then (hnsw_checked_multiply (hd_count header) 8 m) f = f (of_nat (?c * 8))"
    for m and f :: "u64 \<Rightarrow> u64 result"
  proof -
    have "hnsw_checked_multiply (hd_count header) 8 m = Inr (of_nat (?c * 8))"
      using assms(4) hnsw_checked_multiply_nat [of ?c 8] by simp
    then show ?thesis by (simp only: and_then_Inr)
  qed
  have five: "4 + 1 = (of_nat (4 + 1) :: u64)" and one: "(1 :: nat) < 2 ^ 32" by simp_all
  note trailer = trailer_limit_iff [OF _ assms(4) one five]
  have "?c * 8 < 2 ^ 64" using assms(4) by simp
  then have "minimum_payload_bytes header (of_nat i) (of_nat v) = Inr r \<longleftrightarrow>
     i + v < 2 ^ 64 \<and> i + v + ?c * 8 < 2 ^ 64
     \<and> i + v + ?c * 8 + trailer_limit header 1 < 2 ^ 64 \<and> r = of_nat (i + v + ?c * 8 + trailer_limit header 1)"
    using assms(2-4) unfolding minimum_payload_bytes_def graph
    by (auto simp only: and_then_add_nat trailer)
  then show ?thesis unfolding minimum_payload_def assms(1) by auto
qed

lemma maximum_payload_bytes_iff:
  assumes "i + v = data_bytes header" "i < 2 ^ 64" "v < 2 ^ 64" "unat (hd_count header) < 2 ^ 32"
    "unat (hd_max_connections header) < 2 ^ 31"
  shows "maximum_payload_bytes header (of_nat i) (of_nat v) = Inr r \<longleftrightarrow>
    maximum_payload header < 2 ^ 64 \<and> r = of_nat (maximum_payload header)"
proof -
  let ?c = "unat (hd_count header)" and ?m = "unat (hd_max_connections header)"
  have degree: "and_then (hnsw_checked_multiply (hd_max_connections header * 2) 4 m) f = f (of_nat (?m * 2 * 4))"
    and layer: "and_then (hnsw_checked_add 4 (of_nat (?m * 2 * 4)) m) f = f (of_nat (4 + ?m * 2 * 4))"
    and layers: "and_then (hnsw_checked_multiply (ucast hnsw_maximum_level + 1) (of_nat (4 + ?m * 2 * 4)) m) f
      = f (of_nat (64 * (4 + ?m * 2 * 4)))"
    and node: "and_then (hnsw_checked_add 4 (of_nat (64 * (4 + ?m * 2 * 4))) m) f
      = f (of_nat (4 + 64 * (4 + ?m * 2 * 4)))"
    and graph: "and_then (hnsw_checked_multiply (hd_count header) (of_nat (4 + 64 * (4 + ?m * 2 * 4))) m) f
      = and_then (hnsw_checked_multiply (of_nat ?c) (of_nat (4 + 64 * (4 + ?m * 2 * 4))) m) f"
    for m and f :: "u64 \<Rightarrow> u64 result"
  proof -
    have "ucast hnsw_maximum_level + 1 = (of_nat 64 :: u64)" by (simp add: hnsw_maximum_level_def)
    moreover have "hd_max_connections header * 2 = of_nat (?m * 2)" by simp
    moreover have "4 = (of_nat 4 :: u64)" by simp
    ultimately have words: "hnsw_checked_multiply (hd_max_connections header * 2) 4 m
        = hnsw_checked_multiply (of_nat (?m * 2)) (of_nat 4) m"
      "hnsw_checked_add 4 (of_nat (?m * 2 * 4)) m = hnsw_checked_add (of_nat 4) (of_nat (?m * 2 * 4)) m"
      "hnsw_checked_multiply (ucast hnsw_maximum_level + 1) (of_nat (4 + ?m * 2 * 4)) m
        = hnsw_checked_multiply (of_nat 64) (of_nat (4 + ?m * 2 * 4)) m"
      "hnsw_checked_add 4 (of_nat (64 * (4 + ?m * 2 * 4))) m
        = hnsw_checked_add (of_nat 4) (of_nat (64 * (4 + ?m * 2 * 4))) m"
      by (simp_all only:)
    have exact: "hnsw_checked_add (of_nat a) (of_nat b) m = Inr (of_nat (a + b))"
      if "a < 2 ^ 64" "b < 2 ^ 64" "a + b < 2 ^ 64" for a b
      using that by (simp only: hnsw_checked_add_nat simp_thms)
    have exact': "hnsw_checked_multiply (of_nat a) (of_nat b) m = Inr (of_nat (a * b))"
      if "a < 2 ^ 64" "b < 2 ^ 64" "a * b < 2 ^ 64" for a b
      using that by (simp only: hnsw_checked_multiply_nat simp_thms)
    show "and_then (hnsw_checked_multiply (hd_max_connections header * 2) 4 m) f = f (of_nat (?m * 2 * 4))"
      unfolding words using assms(5) by (subst exact') simp_all
    show "and_then (hnsw_checked_add 4 (of_nat (?m * 2 * 4)) m) f = f (of_nat (4 + ?m * 2 * 4))"
      unfolding words using assms(5) by (subst exact) simp_all
    show "and_then (hnsw_checked_multiply (ucast hnsw_maximum_level + 1) (of_nat (4 + ?m * 2 * 4)) m) f
      = f (of_nat (64 * (4 + ?m * 2 * 4)))"
      unfolding words using assms(5) by (subst exact') simp_all
    show "and_then (hnsw_checked_add 4 (of_nat (64 * (4 + ?m * 2 * 4))) m) f
      = f (of_nat (4 + 64 * (4 + ?m * 2 * 4)))"
      unfolding words using assms(5) by (subst exact) simp_all
  qed simp
  let ?g = "4 + 64 * (4 + ?m * 2 * 4)"
  have rng: "4 + ucast hnsw_maximum_rng_state_bytes = (of_nat (4 + 16 * 1024) :: u64)"
    and less: "16 * 1024 < (2 :: nat) ^ 32" by (simp_all add: hnsw_maximum_rng_state_bytes_def)
  note trailer = trailer_limit_iff [OF _ assms(4) less rng]
  have "?g < 2 ^ 64" using assms(5) by simp
  moreover have "?c < 2 ^ 64" using assms(4) by simp
  ultimately have "maximum_payload_bytes header (of_nat i) (of_nat v) = Inr r \<longleftrightarrow>
     ?c * ?g < 2 ^ 64 \<and> i + v < 2 ^ 64 \<and> i + v + ?c * ?g < 2 ^ 64
     \<and> i + v + ?c * ?g + trailer_limit header (16 * 1024) < 2 ^ 64
     \<and> r = of_nat (i + v + ?c * ?g + trailer_limit header (16 * 1024))"
    using assms(2-4) unfolding maximum_payload_bytes_def degree layer layers node graph
    by (auto simp only: and_then_add_nat and_then_multiply_nat trailer)
  then show ?thesis unfolding maximum_payload_def assms(1) by auto
qed

section \<open>Valid headers\<close>

definition header_fields :: "hnsw_header \<Rightarrow> bool" where
  "header_fields header \<longleftrightarrow>
     hd_dimension header \<noteq> 0 \<and> 2 \<le> unat (hd_max_connections header)
   \<and> unat (hd_max_connections header) < 2 ^ 31
   \<and> unat (hd_max_connections header) \<le> unat (hd_ef_construction header)
   \<and> hd_ef_search header \<noteq> 0 \<and> hd_selection header \<in> {0, 1}
   \<and> unat (hd_count header) < 2 ^ 32 \<and> unat (hd_maximum_level header) \<le> 63"

definition header_sizes :: "hnsw_header \<Rightarrow> nat \<Rightarrow> bool" where
  "header_sizes header file_size \<longleftrightarrow>
     maximum_payload header < 2 ^ 64 \<and> minimum_payload header \<le> unat (hd_payload_bytes header)
   \<and> unat (hd_payload_bytes header) \<le> maximum_payload header
   \<and> file_size = 112 + unat (hd_payload_bytes header) \<and> file_size < 2 ^ 64"

definition header_entry :: "hnsw_header \<Rightarrow> bool" where
  "header_entry header \<longleftrightarrow>
     (if hd_count header = 0 then hd_entry_point header = hnsw_empty_entry \<and> hd_maximum_level header = 0
      else unat (hd_entry_point header) < unat (hd_count header))"

lemma header_fields_iff:
  "\<not> (hd_dimension header = 0 \<or> hd_max_connections header < 2
       \<or> (2 ^ 32 - 1) div 2 < hd_max_connections header
       \<or> hd_ef_construction header < hd_max_connections header \<or> hd_ef_search header = 0
       \<or> 1 < hd_selection header \<or> 2 ^ 32 - 1 < hd_count header
       \<or> ucast hnsw_maximum_level < hd_maximum_level header) \<longleftrightarrow> header_fields header"
proof -
  have "(2 ^ 32 - 1) div 2 < hd_max_connections header \<longleftrightarrow> \<not> unat (hd_max_connections header) < 2 ^ 31"
    by (simp add: word_less_nat_alt not_less) linarith
  moreover have "2 ^ 32 - 1 < hd_count header \<longleftrightarrow> \<not> unat (hd_count header) < 2 ^ 32"
    by (simp add: word_less_nat_alt not_less) linarith
  moreover have "1 < hd_selection header \<longleftrightarrow> \<not> hd_selection header \<in> {0, 1}"
    by (simp add: word_less_nat_alt word_unat_eq_iff) linarith
  moreover have "hd_max_connections header < 2 \<longleftrightarrow> \<not> 2 \<le> unat (hd_max_connections header)"
    by (simp add: word_less_nat_alt not_le)
  moreover have "ucast hnsw_maximum_level < hd_maximum_level header \<longleftrightarrow> \<not> unat (hd_maximum_level header) \<le> 63"
    by (simp add: word_less_nat_alt hnsw_maximum_level_def not_le)
  ultimately show ?thesis by (auto simp: header_fields_def word_less_nat_alt)
qed

lemma checked_size_eq [simp]: "checked_size v m = Inr (unat v)"
  by (simp add: checked_size_def)

lemma unit_result: "(u :: unit) = ()" by simp

lemma validate_header_iff:
  "validate_header header file_size = Inr () \<longleftrightarrow>
     header_fields header \<and> header_sizes header file_size \<and> header_entry header"
proof (cases "header_fields header")
  case True
  let ?c = "unat (hd_count header)" and ?d = "unat (hd_dimension header)"
    and ?m = "unat (hd_max_connections header)" and ?p = "unat (hd_payload_bytes header)"
  have c: "?c < 2 ^ 32" "?m < 2 ^ 31" using True by (simp_all add: header_fields_def)
  have words: "?c < 2 ^ 64" "?d < 2 ^ 64" "?p < 2 ^ 64" by (rule unat_u64)+
  have of_nat: "hd_count header = of_nat ?c" "hd_dimension header = of_nat ?d"
    "hd_payload_bytes header = of_nat ?p" "4 = (of_nat 4 :: u64)" "8 = (of_nat 8 :: u64)"
    "ucast hnsw_header_size = (of_nat 112 :: u64)"
    by (simp_all add: hnsw_header_size_def)
  have elements: "hnsw_checked_multiply (hd_count header) (hd_dimension header) m = Inr e \<longleftrightarrow>
      ?c * ?d < 2 ^ 64 \<and> e = of_nat (?c * ?d)" for m e
    using hnsw_checked_multiply_nat [OF words(1,2)] of_nat by metis
  have vector: "hnsw_checked_multiply (of_nat (?c * ?d)) 4 m = Inr e \<longleftrightarrow>
      ?c * ?d * 4 < 2 ^ 64 \<and> e = of_nat (?c * ?d * 4)" if "?c * ?d < 2 ^ 64" for m e
    using hnsw_checked_multiply_nat [OF that, of 4] by simp
  have ids: "hnsw_checked_multiply (hd_count header) 8 m = Inr (of_nat (?c * 8))" for m
    using hnsw_checked_multiply_nat [OF words(1), of 8] c by simp
  have size: "hnsw_checked_add (ucast hnsw_header_size) (hd_payload_bytes header) m = Inr e \<longleftrightarrow>
      112 + ?p < 2 ^ 64 \<and> e = of_nat (112 + ?p)" for m e
  proof -
    have "(112 :: nat) < 2 ^ 64" by simp
    from hnsw_checked_add_nat [OF this words(3)] show ?thesis unfolding of_nat(6) by simp
  qed
  have data: "?c * 8 + ?c * ?d * 4 = data_bytes header" by (simp add: data_bytes_def)
  have c8: "?c * 8 < 2 ^ 64" using c by simp
  have "?c * 8 \<le> ?c * (4 + 64 * (4 + ?m * 2 * 4))" by (rule mult_le_mono2) simp
  moreover have "trailer_limit header 1 \<le> trailer_limit header (16 * 1024)" by (simp add: trailer_limit_def)
  ultimately have "minimum_payload header \<le> maximum_payload header"
    unfolding minimum_payload_def maximum_payload_def by (intro add_le_mono le_refl)
  then have small: "data_bytes header \<le> maximum_payload header" "minimum_payload header \<le> maximum_payload header"
    by (simp_all add: minimum_payload_def)
  have bind: "and_then m f = Inr () \<longleftrightarrow> P \<and> f x = Inr ()" if "\<And>r. m = Inr r \<longleftrightarrow> P \<and> r = x"
    for m :: "u64 result" and f :: "u64 \<Rightarrow> unit result" and P x
    using that by (auto simp only: and_then_eq_Inr)
  note minimum = minimum_payload_bytes_iff [OF data c8 _ c(1)]
  note maximum = maximum_payload_bytes_iff [OF data c8 _ c]
  have last: "and_then (if of_nat (maximum_payload header) < hd_payload_bytes header then Inr False
      else and_then (hnsw_checked_add (ucast hnsw_header_size) (hd_payload_bytes header) ''file size'')
        (\<lambda>size. Inr (unat size = file_size))) (\<lambda>sizes_match.
        if \<not> sizes_match then hnsw_fail ''file size does not match the header''
        else if hd_count header = 0 then
          (if hd_entry_point header \<noteq> hnsw_empty_entry \<or> hd_maximum_level header \<noteq> 0 then
             hnsw_fail ''empty graph has an invalid entry point or maximum level''
           else Inr ())
        else if hd_count header \<le> hd_entry_point header then hnsw_fail ''entry point is out of range''
        else Inr ()) = Inr () \<longleftrightarrow>
      ?p \<le> maximum_payload header \<and> file_size = 112 + ?p \<and> file_size < 2 ^ 64 \<and> header_entry header"
    if "maximum_payload header < 2 ^ 64"
  proof -
    have "\<not> of_nat (maximum_payload header) < hd_payload_bytes header \<longleftrightarrow> ?p \<le> maximum_payload header"
      using that by (simp add: word_less_nat_alt unat_of_nat_u64 not_less)
    moreover have "hd_count header \<le> hd_entry_point header \<longleftrightarrow> \<not> unat (hd_entry_point header) < ?c"
      by (simp add: word_le_nat_alt not_less)
    moreover have "(\<exists>s. hnsw_checked_add (ucast hnsw_header_size) (hd_payload_bytes header) ''file size'' = Inr s
        \<and> unat s = file_size) \<longleftrightarrow> file_size = 112 + ?p \<and> file_size < 2 ^ 64"
      unfolding size using unat_of_nat_u64 [of "112 + ?p"] by auto
    ultimately show ?thesis
      by (auto simp: header_entry_def and_then_eq_Inr split: if_splits)
  qed
  have too_small: "\<not> hd_payload_bytes header < of_nat (minimum_payload header) \<longleftrightarrow> minimum_payload header \<le> ?p"
    if "minimum_payload header < 2 ^ 64"
    using that by (simp add: word_less_nat_alt unat_of_nat_u64 not_less)
  have "validate_header header file_size = Inr () \<longleftrightarrow>
      ?c * ?d < 2 ^ 64 \<and> ?c * ?d * 4 < 2 ^ 64 \<and> minimum_payload header < 2 ^ 64
      \<and> minimum_payload header \<le> ?p \<and> maximum_payload header < 2 ^ 64 \<and> ?p \<le> maximum_payload header
      \<and> file_size = 112 + ?p \<and> file_size < 2 ^ 64 \<and> header_entry header"
    unfolding validate_header_def if_not_P [OF header_fields_iff [THEN iffD2, OF True]] checked_size_eq and_then_Inr
    apply (subst bind [OF elements])
    apply (rule conj_cong [OF refl])
    apply (subst bind [OF vector], assumption)
    apply (rule conj_cong [OF refl])
    apply (simp only: ids and_then_Inr)
    apply (subst bind [OF minimum], assumption)
    apply (rule conj_cong [OF refl])
    apply (cases "minimum_payload header \<le> ?p")
    apply (simp only: too_small [THEN iffD2] if_False simp_thms)
    apply (subst bind [OF maximum], assumption)
    apply (rule conj_cong [OF refl])
    apply (simp only: last)
    apply (simp add: too_small [symmetric])
    done
  moreover have "?c * ?d * 4 \<le> data_bytes header" by (simp add: data_bytes_def)
  ultimately show ?thesis using True small unfolding header_sizes_def by auto
next
  case False
  then show ?thesis unfolding header_fields_iff [symmetric] by (simp add: validate_header_def)
qed

end
