(* ===== verification/Hnsw_Load.thy ===== *)
theory Hnsw_Load
  imports Hnsw_Header
begin

text \<open>
  What the loader of the approximate index accepts: exactly the files that are a header, its
  checksum and the sections of an index that satisfies the structural invariant, with unit
  rows. The graph section is compared with the invariant first, the sections after it next.
\<close>

section \<open>The graph section and the invariant\<close>

definition entry_at :: "hnsw_node list \<Rightarrow> nat \<Rightarrow> nat \<Rightarrow> bool" where
  "entry_at g entry level \<longleftrightarrow>
     level \<le> maximum_generated_level \<and> (\<forall>u < length g. length (node_levels (g ! u)) \<le> Suc level)
   \<and> (g = [] \<longrightarrow> entry = 0 \<and> level = 0) \<and> (g \<noteq> [] \<longrightarrow> on_layer g level entry)"

lemma entry_ok_at: "entry_ok ix \<longleftrightarrow> entry_at (hnsw_graph ix) (hnsw_entry ix) (hnsw_max_level ix)"
  by (simp add: entry_ok_def entry_at_def)

definition degree_bound :: "nat \<Rightarrow> nat \<Rightarrow> nat" where
  "degree_bound m level = (if level = 0 then m * 2 else m)"

lemma degree_bound_eq: "degree_bound (max_connections (hnsw_config ix)) = maximum_connections ix"
  by (simp add: fun_eq_iff degree_bound_def maximum_connections_def)

lemma unat_degree_limit:
  "unat (hd_max_connections header) < 2 ^ 31 \<Longrightarrow>
     unat (degree_limit header l) = degree_bound (unat (hd_max_connections header)) l"
proof -
  assume m: "unat (hd_max_connections header) < 2 ^ 31"
  have "hd_max_connections header * 2 = of_nat (unat (hd_max_connections header) * 2)" by simp
  then have "unat (hd_max_connections header * 2) = unat (hd_max_connections header) * 2"
    using m by (simp only:) (intro unat_of_nat_u64, simp)
  then show ?thesis by (simp add: degree_limit_def degree_bound_def)
qed

lemma layers_present_iff:
  "layers_present g \<longleftrightarrow>
     (\<forall>u l. on_layer g l u \<longrightarrow> (\<forall>v\<in>set (edges g u l). l < length (node_levels (g ! v))))"
  unfolding layers_present_def list_all_length edges_def on_layer_def
  by (simp add: nth_enumerate_eq list_all_length all_set_conv_all_nth) blast

lemma top_level_max:
  "graph \<noteq> [] \<Longrightarrow> top_level m graph = Max (insert m ((\<lambda>g. length (node_levels g) - 1) ` set graph))"
proof (induction graph arbitrary: m)
  case (Cons g graph)
  have s: "top_level m (g # graph) = top_level (max m (length (node_levels g) - 1)) graph"
    by (simp add: top_level_def)
  show ?case
  proof (cases "graph = []")
    case False
    let ?A = "(\<lambda>g. length (node_levels g) - 1) ` set graph"
    have "Max (insert (max m k) ?A) = Max (insert m (insert k ?A))" for k
      using False by (simp add: ac_simps)
    then show ?thesis unfolding s Cons.IH [OF False] by simp
  qed (simp add: s, simp add: top_level_def)
qed simp

lemma top_level_iff:
  "graph \<noteq> [] \<Longrightarrow> top_level 0 graph = m \<longleftrightarrow>
     (\<forall>g\<in>set graph. length (node_levels g) - 1 \<le> m) \<and> (\<exists>g\<in>set graph. length (node_levels g) - 1 = m)"
proof -
  assume ne: "graph \<noteq> []"
  then have "top_level 0 graph = Max ((\<lambda>g. length (node_levels g) - 1) ` set graph)"
    by (simp add: top_level_max)
  with ne show ?thesis
    by (auto simp: Max_eq_iff)
qed

lemma nodes_ok_iff:
  assumes count: "unat (hd_count header) = length g" and fields: "header_fields header"
  shows "nodes_ok header 0 g \<longleftrightarrow>
     (\<forall>x\<in>set g. \<not> node_deleted x) \<and> (\<forall>u < length g. node_levels (g ! u) \<noteq> [])
   \<and> (\<forall>u < length g. length (node_levels (g ! u)) \<le> Suc (unat (hd_maximum_level header)))
   \<and> (\<forall>u l. on_layer g l u \<longrightarrow> neighbors_ok (length g) u (edges g u l))
   \<and> degrees_ok (degree_bound (unat (hd_max_connections header))) g"
proof -
  have m: "unat (hd_max_connections header) < 2 ^ 31" and l: "unat (hd_maximum_level header) \<le> 63"
    using fields by (simp_all add: header_fields_def)
  then have 64: "k \<le> Suc (unat (hd_maximum_level header)) \<Longrightarrow> k \<le> 64" for k by linarith
  have layers: "layers_ok header u 0 (node_levels (g ! u)) \<longleftrightarrow>
      (\<forall>l. on_layer g l u \<longrightarrow> neighbors_ok (length g) u (edges g u l)
         \<and> length (edges g u l) \<le> degree_bound (unat (hd_max_connections header)) l)"
    if "u < length g" for u
    using that by (auto simp: layers_ok_def on_layer_def edges_def count unat_degree_limit [OF m])
  have "nodes_ok header 0 g \<longleftrightarrow> (\<forall>u < length g. \<not> node_deleted (g ! u) \<and> node_levels (g ! u) \<noteq> []
      \<and> length (node_levels (g ! u)) \<le> Suc (unat (hd_maximum_level header))
      \<and> layers_ok header u 0 (node_levels (g ! u)))"
    unfolding nodes_ok_def node_ok_def add_0 using 64 by blast
  moreover have "on_layer g l u \<Longrightarrow> u < length g" for u l by (simp add: on_layer_def)
  ultimately show ?thesis
    unfolding degrees_ok_def all_set_conv_all_nth [of g] using layers by blast
qed

lemma graph_section_iff:
  assumes count: "unat (hd_count header) = length g" and fields: "header_fields header"
    and entry: "g \<noteq> [] \<Longrightarrow> entry < length g" "g = [] \<Longrightarrow> entry = 0"
  shows "nodes_ok header 0 g \<and> top_level 0 g = unat (hd_maximum_level header)
     \<and> (g \<noteq> [] \<longrightarrow> of_nat (length (node_levels (g ! entry))) - 1 = hd_maximum_level header) \<and> layers_present g
   \<longleftrightarrow> (\<forall>x\<in>set g. \<not> node_deleted x) \<and> graph_wf g
     \<and> degrees_ok (degree_bound (unat (hd_max_connections header))) g
     \<and> entry_at g entry (unat (hd_maximum_level header))"
    (is "?L \<longleftrightarrow> ?R")
proof (cases "g = []")
  case True
  have "unat (hd_maximum_level header) = 0 \<longleftrightarrow> 0 = unat (hd_maximum_level header)" by auto
  then show ?thesis
    using True entry(2) by (auto simp: nodes_ok_def top_level_def layers_present_def graph_wf_def on_layer_def
        degrees_ok_def entry_at_def)
next
  case False
  let ?m = "unat (hd_maximum_level header)"
  note nodes = nodes_ok_iff [OF count fields]
  note e = entry(1) [OF False]
  have l: "?m \<le> 63" using fields by (simp add: header_fields_def)
  have top: "of_nat (length (node_levels (g ! entry))) - 1 = hd_maximum_level header \<longleftrightarrow>
      length (node_levels (g ! entry)) = Suc ?m"
    if "node_levels (g ! entry) \<noteq> []" "length (node_levels (g ! entry)) \<le> Suc ?m"
  proof -
    have "of_nat (length (node_levels (g ! entry))) - 1 = (of_nat (length (node_levels (g ! entry)) - 1) :: u64)"
      using that(1) by (cases "node_levels (g ! entry)") simp_all
    moreover have "unat (of_nat (length (node_levels (g ! entry)) - 1) :: u64) = length (node_levels (g ! entry)) - 1"
      using that(2) l by (intro unat_of_nat_u64) simp
    ultimately have "of_nat (length (node_levels (g ! entry))) - 1 = hd_maximum_level header \<longleftrightarrow>
        length (node_levels (g ! entry)) - 1 = ?m"
      by (simp only: word_unat_eq_iff)
    then show ?thesis using that(1) by (cases "node_levels (g ! entry)") simp_all
  qed
  have lists: "graph_wf g \<longleftrightarrow> (\<forall>u < length g. node_levels (g ! u) \<noteq> [])
      \<and> (\<forall>u l. on_layer g l u \<longrightarrow> neighbors_ok (length g) u (edges g u l)) \<and> layers_present g"
  proof -
    have "list_ok g u l ns \<longleftrightarrow>
        neighbors_ok (length g) u ns \<and> (\<forall>v\<in>set ns. l < length (node_levels (g ! v)))" for u l ns
      by (cases "u \<in> set ns") (auto simp: list_ok_def neighbors_ok_def on_layer_def)
    then show ?thesis unfolding graph_wf_def layers_present_iff by blast
  qed
  show ?thesis
  proof
    assume L: ?L
    then have "node_levels (g ! entry) \<noteq> []" "length (node_levels (g ! entry)) \<le> Suc ?m"
      using nodes e by blast+
    then have "length (node_levels (g ! entry)) = Suc ?m" using top L False by blast
    then have "entry_at g entry ?m"
      using L False e l by (simp add: entry_at_def on_layer_def maximum_generated_level_def nodes)
    then show ?R using L by (simp add: nodes lists)
  next
    assume R: ?R
    then have len: "length (node_levels (g ! entry)) = Suc ?m"
      and le: "\<forall>u < length g. length (node_levels (g ! u)) \<le> Suc ?m"
      using False by (auto simp: entry_at_def on_layer_def le_antisym Suc_leI)
    have "top_level 0 g = ?m"
      unfolding top_level_iff [OF False] using le len e
      by (auto simp: in_set_conv_nth intro!: bexI [of _ "g ! entry"] diff_le_mono [of _ "Suc ?m" 1, simplified])
    then show ?L using R len le top e by (auto simp: nodes lists)
  qed
qed

section \<open>Tombstones\<close>

text \<open>The nodes as the graph section gives them, before the tombstones are read.\<close>

definition undeleted :: "hnsw_node list \<Rightarrow> hnsw_node list" where
  "undeleted graph = map (\<lambda>g. g\<lparr>node_deleted := False\<rparr>) graph"

lemma undeleted_simps [simp]:
  "length (undeleted graph) = length graph" "undeleted graph = [] \<longleftrightarrow> graph = []"
  "graph_bytes (undeleted graph) = graph_bytes graph"
  by (simp_all add: undeleted_def graph_bytes_def show_many_def comp_def)

lemma undeleted_fresh: "\<forall>x\<in>set (undeleted graph). \<not> node_deleted x"
  by (simp add: undeleted_def)

lemma undeleted_nth [simp]: "u < length graph \<Longrightarrow> node_levels (undeleted graph ! u) = node_levels (graph ! u)"
  by (simp add: undeleted_def)

lemma undeleted_layer [simp]: "on_layer (undeleted graph) l u \<longleftrightarrow> on_layer graph l u"
  by (cases "u < length graph") (simp_all add: on_layer_def)

lemma undeleted_edges: "on_layer graph l u \<Longrightarrow> edges (undeleted graph) u l = edges graph u l"
  by (simp add: edges_def on_layer_def)

lemma undeleted_list [simp]: "list_ok (undeleted graph) u l ns \<longleftrightarrow> list_ok graph u l ns"
  unfolding list_ok_def undeleted_layer ..

lemma undeleted_graph [simp]:
  "graph_wf (undeleted graph) \<longleftrightarrow> graph_wf graph" "degrees_ok b (undeleted graph) \<longleftrightarrow> degrees_ok b graph"
  "entry_at (undeleted graph) e m \<longleftrightarrow> entry_at graph e m"
proof -
  show "graph_wf (undeleted graph) \<longleftrightarrow> graph_wf graph"
    unfolding graph_wf_def undeleted_simps undeleted_list undeleted_layer
    by (metis undeleted_nth undeleted_edges)
  show "degrees_ok b (undeleted graph) \<longleftrightarrow> degrees_ok b graph"
    unfolding degrees_ok_def undeleted_layer by (metis undeleted_edges)
  show "entry_at (undeleted graph) e m \<longleftrightarrow> entry_at graph e m"
    unfolding entry_at_def undeleted_simps undeleted_layer by (metis undeleted_nth)
qed

lemma undelete_node: "\<not> node_deleted g \<Longrightarrow> (g :: hnsw_node)\<lparr>node_deleted := False\<rparr> = g"
  by (cases g) simp

lemma flag_graph_undeleted:
  assumes fresh: "\<forall>x\<in>set g0. \<not> node_deleted x"
  shows "length bs = length g0 \<and> graph = flag_graph g0 bs \<longleftrightarrow> g0 = undeleted graph \<and> bs = map node_deleted graph"
proof -
  have "undeleted (flag_graph g0 bs) = g0" if "length bs = length g0"
  proof (rule nth_equalityI)
    fix i assume "i < length (undeleted (flag_graph g0 bs))"
    then have i: "i < length g0" "i < length bs" by (simp_all add: flag_graph_def)
    then have "undeleted (flag_graph g0 bs) ! i = (g0 ! i)\<lparr>node_deleted := False\<rparr>"
      by (simp add: flag_graph_def undeleted_def)
    also have "\<dots> = g0 ! i" using fresh i by (intro undelete_node) simp
    finally show "undeleted (flag_graph g0 bs) ! i = g0 ! i" .
  qed (simp add: that flag_graph_def undeleted_def)
  moreover have "map node_deleted (flag_graph g0 bs) = bs" if "length bs = length g0"
    using that by (intro nth_equalityI) (simp_all add: flag_graph_def)
  moreover have "flag_graph (undeleted graph) (map node_deleted graph) = graph"
  proof (induction graph)
    case (Cons g graph)
    then show ?case by (cases g) (simp add: flag_graph_def undeleted_def)
  qed (simp add: flag_graph_def undeleted_def)
  moreover have "length (map node_deleted graph) = length (undeleted graph)" by simp
  ultimately show ?thesis by metis
qed

definition tombstone_bytes :: "hnsw_header \<Rightarrow> hnsw_node list \<Rightarrow> u8 list" where
  "tombstone_bytes header graph =
     (if hd_version header = hnsw_current_version then
        le_bytes 8 (of_nat (length graph - deleted_nodes graph) :: u64) @ flag_bytes (map node_deleted graph)
      else [])"

lemma undeleted_same: "\<forall>x\<in>set g0. \<not> node_deleted x \<Longrightarrow>
    g0 = undeleted graph \<and> deleted_nodes graph = 0 \<longleftrightarrow> graph = g0"
proof -
  assume g0: "\<forall>x\<in>set g0. \<not> node_deleted x"
  have "undeleted graph = graph" if "deleted_nodes graph = 0"
    using that unfolding undeleted_def deleted_nodes_def
    by (intro map_idI undelete_node) (simp add: filter_empty_conv)
  moreover have "undeleted g0 = g0" using g0 unfolding undeleted_def by (intro map_idI undelete_node) simp
  moreover have "deleted_nodes g0 = 0" using g0 by (simp add: deleted_nodes_def filter_empty_conv)
  ultimately show ?thesis by auto
qed

lemma read_tombstones_iff:
  assumes count: "unat (hd_count header) = length g0" and fresh: "\<forall>x\<in>set g0. \<not> node_deleted x"
  shows "read_tombstones header (length g0) g0 (input, c) = Inr ((d, graph), (rest, c')) \<longleftrightarrow>
    g0 = undeleted graph \<and> d = deleted_nodes graph
    \<and> (hd_version header \<noteq> hnsw_current_version \<longrightarrow> deleted_nodes graph = 0)
    \<and> input = tombstone_bytes header graph @ rest \<and> c' = checksum_bytes c (tombstone_bytes header graph)"
proof (cases "hd_version header = hnsw_current_version")
  case True
  have small: "length g0 < 2 ^ 64" using unat_u64 [of "hd_count header"] count by simp
  have number: "length (filter id (map node_deleted graph)) = deleted_nodes graph" for graph
    by (simp add: deleted_nodes_def filter_map comp_def)
  have le: "deleted_nodes graph \<le> length graph" for graph by (simp add: deleted_nodes_def)
  have "read_tombstones header (length g0) g0 (input, c) = Inr ((d, graph), (rest, c')) \<longleftrightarrow>
      (\<exists>live r c1. read_integer 8 (input, c) = Inr (live, (r, c1)) \<and> \<not> hd_count header < live
         \<and> read_flags g0 0 (r, c1) = Inr ((d, graph), (rest, c')) \<and> length g0 - d = unat live)"
    using True by (auto simp: read_tombstones_def and_then_eq_Inr)
  also have "\<dots> \<longleftrightarrow> (\<exists>live bs. unat live \<le> length g0 \<and> (length bs = length g0 \<and> graph = flag_graph g0 bs)
      \<and> d = length (filter id bs) \<and> length g0 - d = unat live
      \<and> input = le_bytes 8 (live :: u64) @ flag_bytes bs @ rest
      \<and> c' = checksum_bytes (checksum_bytes c (le_bytes 8 live)) (flag_bytes bs))"
    unfolding read_integer_iff read_flags_iff word_less_nat_alt count not_less by (simp del: le_bytes.simps) blast
  also have "\<dots> \<longleftrightarrow> (\<exists>live. g0 = undeleted graph \<and> unat live \<le> length g0 \<and> d = deleted_nodes graph
      \<and> length g0 - d = unat live
      \<and> input = le_bytes 8 (live :: u64) @ flag_bytes (map node_deleted graph) @ rest
      \<and> c' = checksum_bytes (checksum_bytes c (le_bytes 8 live)) (flag_bytes (map node_deleted graph)))"
    unfolding flag_graph_undeleted [OF fresh] using number by metis
  also have "\<dots> \<longleftrightarrow> g0 = undeleted graph \<and> d = deleted_nodes graph
      \<and> input = tombstone_bytes header graph @ rest \<and> c' = checksum_bytes c (tombstone_bytes header graph)"
  proof -
    have "unat live \<le> length graph \<and> length graph - deleted_nodes graph = unat live \<longleftrightarrow>
        live = of_nat (length graph - deleted_nodes graph)" if "length graph < 2 ^ 64" for live :: u64
    proof -
      have "unat (of_nat (length graph - deleted_nodes graph) :: u64) = length graph - deleted_nodes graph"
        using that by (intro unat_of_nat_u64) simp
      then show ?thesis by (auto simp: word_unat_eq_iff)
    qed
    then have live: "(\<exists>live. g0 = undeleted graph \<and> unat live \<le> length g0 \<and> d = deleted_nodes graph
        \<and> length g0 - d = unat live \<and> P live) \<longleftrightarrow>
        g0 = undeleted graph \<and> d = deleted_nodes graph \<and> P (of_nat (length graph - deleted_nodes graph))"
      for P :: "u64 \<Rightarrow> bool" using small undeleted_simps(1) by metis
    show ?thesis unfolding live by (simp add: tombstone_bytes_def True del: le_bytes.simps)
  qed
  finally show ?thesis using True by blast
next
  case False
  then show ?thesis
    using undeleted_same [OF fresh, of graph] by (auto simp: read_tombstones_def tombstone_bytes_def)
qed

section \<open>The steps of a load\<close>

definition load_steps ::
  "bool \<Rightarrow> u8 list \<Rightarrow> dot_kernel \<Rightarrow> hnsw_header \<Rightarrow> u64 \<Rightarrow> reader \<Rightarrow> reader \<Rightarrow> reader \<Rightarrow> reader \<Rightarrow> reader \<Rightarrow>
   reader \<Rightarrow> hnsw_index \<Rightarrow> u32 \<Rightarrow> hnsw_node list \<Rightarrow> hnsw_index \<Rightarrow> bool" where
  "load_steps avx2 content kern header stored r0 r1 r2 r3 r4 r5 created observed g0 ix \<longleftrightarrow>
     read_header content = Inr ((header, stored), r0)
   \<and> validate_header header (length content) = Inr ()
   \<and> hnsw_create avx2 (header_config header kern) = Inr created
   \<and> (\<exists>elements. hnsw_checked_multiply (hd_count header) (hd_dimension header) ''vector count'' = Inr elements
        \<and> \<not> exceeds_containers (unat (hd_count header)) (unat elements))
   \<and> hnsw_read_ids (unat (hd_count header)) 0 Map.empty [] r0 = Inr ((hnsw_id_to_node ix, hnsw_ids ix), r1)
   \<and> hnsw_read_rows (unat (hd_count header)) (unat (hd_dimension header)) [] r1 = Inr (hnsw_vectors ix, r2)
   \<and> read_nodes header (length content) 0 (unat (hd_count header)) 0 r2 = Inr ((observed, g0), r3)
   \<and> ucast observed = hd_maximum_level header
   \<and> (unat (hd_count header) \<noteq> 0 \<longrightarrow> unat (hd_entry_point header) < length g0
        \<and> of_nat (length (node_levels (g0 ! unat (hd_entry_point header)))) - 1 = hd_maximum_level header)
   \<and> layers_present g0
   \<and> read_tombstones header (length (hnsw_ids ix)) g0 r3 = Inr ((hnsw_deleted ix, hnsw_graph ix), r4)
   \<and> read_random_state header (length content) (hnsw_random created) r4 = Inr (hnsw_random ix, r5)
   \<and> snd r5 = stored
   \<and> hnsw_config ix = hnsw_config created
   \<and> hnsw_entry ix = (if unat (hd_count header) = 0 then 0 else unat (ucast (hd_entry_point header) :: u32))
   \<and> hnsw_max_level ix = unat (hd_maximum_level header)"

lemma and_then_InrE: "and_then m f = Inr y \<Longrightarrow> (\<And>x. m = Inr x \<Longrightarrow> f x = Inr y \<Longrightarrow> P) \<Longrightarrow> P"
  by (auto simp: and_then_eq_Inr)

lemma case_prod_InrE:
  "(case p of (a, b) \<Rightarrow> f a b) = Inr y \<Longrightarrow> (\<And>a b. p = (a, b) \<Longrightarrow> f a b = Inr y \<Longrightarrow> P) \<Longrightarrow> P"
  by (cases p) simp

lemma case_prod_apply_InrE:
  "(case p of (a, b) \<Rightarrow> f a b) r = Inr y \<Longrightarrow> (\<And>a b. p = (a, b) \<Longrightarrow> f a b r = Inr y \<Longrightarrow> P) \<Longrightarrow> P"
  by (cases p) simp

lemma if_fail_InrE: "(if b then hnsw_fail m else r) = Inr y \<Longrightarrow> (\<not> b \<Longrightarrow> r = Inr y \<Longrightarrow> P) \<Longrightarrow> P"
  by (simp split: if_splits)

lemma hnsw_load_stepsE:
  assumes "hnsw_load avx2 path (Some content) kern = Inr ix"
  obtains header stored r0 r1 r2 r3 r4 r5 created observed g0
  where "load_steps avx2 content kern header stored r0 r1 r2 r3 r4 r5 created observed g0 ix"
  using assms unfolding hnsw_load_def option.case checked_size_eq and_then_Inr
  apply (elim and_then_InrE case_prod_InrE case_prod_apply_InrE if_fail_InrE)
  apply (hypsubst, drule Inr_inject, hypsubst)
  apply (rule that [OF load_steps_def [THEN iffD2]])
  apply (intro conjI exI impI)
  by (assumption | simp add: and_then_eq_Inr read_at_eq_Inr | force simp: and_then_eq_Inr read_at_eq_Inr)+

lemma hnsw_load_stepsI:
  "load_steps avx2 content kern header stored r0 r1 r2 r3 r4 r5 created observed g0 ix \<Longrightarrow>
     hnsw_load avx2 path (Some content) kern = Inr ix"
  by (auto simp: load_steps_def hnsw_load_def read_at_eq_Inr)

section \<open>What a file holds\<close>

definition hnsw_sections :: "hnsw_header \<Rightarrow> hnsw_index \<Rightarrow> u8 list \<Rightarrow> u8 list" where
  "hnsw_sections header ix random_state =
     show_many (le_bytes 8) (hnsw_ids ix) @ show_many (le_bytes 4) (hnsw_vectors ix)
     @ graph_bytes (hnsw_graph ix) @ tombstone_bytes header (hnsw_graph ix)
     @ (if hnsw_rng_state_version \<le> hd_version header then rng_bytes random_state else [])"

definition hnsw_file :: "hnsw_header \<Rightarrow> hnsw_index \<Rightarrow> u8 list \<Rightarrow> u8 list" where
  "hnsw_file header ix random_state =
     header_bytes header
     @ le_bytes 8 (checksum_bytes fnv_offset_basis (header_bytes header @ hnsw_sections header ix random_state))
     @ hnsw_sections header ix random_state"

text \<open>The header fields are those of the index.\<close>

definition describes :: "hnsw_header \<Rightarrow> hnsw_index \<Rightarrow> bool" where
  "describes header ix \<longleftrightarrow>
     known_version header
   \<and> header_config header (cfg_kernel (hnsw_config ix)) = hnsw_config ix \<and> hd_selection header \<in> {0, 1}
   \<and> unat (hd_count header) = length (hnsw_ids ix) \<and> unat (hd_maximum_level header) = hnsw_max_level ix
   \<and> (if hnsw_ids ix = [] then hd_entry_point header = hnsw_empty_entry
      else unat (hd_entry_point header) = hnsw_entry ix)"

definition unit_rows :: "hnsw_index \<Rightarrow> bool" where
  "unit_rows ix \<longleftrightarrow> (\<forall>i < length (hnsw_ids ix).
     normalized_row (row_of (cfg_dimension (hnsw_config ix)) (hnsw_vectors ix) i))"

text \<open>The invariant without the bound on scores, with unit rows.\<close>

definition stored_ok :: "hnsw_index \<Rightarrow> bool" where
  "stored_ok ix \<longleftrightarrow>
     config_ok (hnsw_config ix) \<and> storage_ok ix \<and> entry_ok ix \<and> graph_wf (hnsw_graph ix)
   \<and> degrees_ok (maximum_connections ix) (hnsw_graph ix)
   \<and> hnsw_deleted ix = deleted_nodes (hnsw_graph ix) \<and> unit_rows ix
   \<and> length (hnsw_vectors ix) \<le> (2 ^ 63 - 1) div 4"

text \<open>What the version says of tombstones and generator.\<close>

definition version_ok :: "hnsw_header \<Rightarrow> hnsw_index \<Rightarrow> u8 list \<Rightarrow> bool" where
  "version_ok header ix random_state \<longleftrightarrow>
     (hd_version header \<noteq> hnsw_current_version \<longrightarrow> deleted_nodes (hnsw_graph ix) = 0)
   \<and> (if hnsw_rng_state_version \<le> hd_version header then rng_text_of random_state (hnsw_random ix)
      else hnsw_random ix = mt_seed (random_seed (hnsw_config ix)))"

definition snapshot_of :: "bool \<Rightarrow> u8 list \<Rightarrow> hnsw_header \<Rightarrow> u8 list \<Rightarrow> u8 list \<Rightarrow> hnsw_index \<Rightarrow> bool" where
  "snapshot_of avx2 content header random_state rest ix \<longleftrightarrow>
     (cfg_kernel (hnsw_config ix) = Avx2 \<longrightarrow> avx2) \<and> describes header ix \<and> stored_ok ix
   \<and> version_ok header ix random_state \<and> header_sizes header (length content)
   \<and> content = hnsw_file header ix random_state @ rest
   \<and> (hnsw_rng_state_version \<le> hd_version header \<longrightarrow> rest = [])"

lemma header_config_ok:
  "header_fields header \<Longrightarrow> config_ok (header_config header kern)"
  by (auto simp: header_fields_def config_ok_def header_config_def unat_gt_0)

lemma describes_fields:
  assumes "describes header ix" "stored_ok ix"
  shows "header_fields header" "header_entry header"
proof -
  have cfg: "header_config header (cfg_kernel (hnsw_config ix)) = hnsw_config ix"
    and sel: "hd_selection header \<in> {0, 1}" and count: "unat (hd_count header) = length (hnsw_ids ix)"
    and level: "unat (hd_maximum_level header) = hnsw_max_level ix"
    and entry: "if hnsw_ids ix = [] then hd_entry_point header = hnsw_empty_entry
      else unat (hd_entry_point header) = hnsw_entry ix"
    using assms(1) unfolding describes_def by blast+
  have ok: "config_ok (hnsw_config ix)" "entry_ok ix"
    and len: "length (hnsw_graph ix) = length (hnsw_ids ix)" "length (hnsw_ids ix) < 2 ^ 32"
    using assms(2) unfolding stored_ok_def storage_ok_def by blast+
  have "config_ok (header_config header (cfg_kernel (hnsw_config ix)))" using ok(1) cfg by (simp only:)
  then have "0 < unat (hd_dimension header)" "2 \<le> unat (hd_max_connections header)"
    "unat (hd_max_connections header) < 2 ^ 31"
    "unat (hd_max_connections header) \<le> unat (hd_ef_construction header)" "0 < unat (hd_ef_search header)"
    by (simp_all add: config_ok_def header_config_def)
  moreover have "hnsw_max_level ix \<le> 63" using ok(2) by (simp add: entry_ok_def maximum_generated_level_def)
  ultimately show "header_fields header"
    unfolding header_fields_def using sel count level len(2) by (simp add: unat_gt_0)
  have ids: "hnsw_ids ix = [] \<longleftrightarrow> hd_count header = 0" "hnsw_graph ix = [] \<longleftrightarrow> hnsw_ids ix = []"
    using count len(1) by (auto simp: word_unat_eq_iff)
  show "header_entry header"
  proof (cases "hnsw_ids ix = []")
    case True
    then have "hnsw_max_level ix = 0" using ids(2) ok(2) by (simp add: entry_ok_def)
    then show ?thesis using True ids(1) level entry by (simp add: header_entry_def word_unat_eq_iff)
  next
    case False
    then have "hnsw_entry ix < length (hnsw_graph ix)" using ids(2) ok(2) by (simp add: entry_ok_def on_layer_def)
    then show ?thesis using False ids(1) len(1) count entry by (simp add: header_entry_def)
  qed
qed

section \<open>Loading\<close>

lemma option_eqI: "(\<And>x. a = Some x \<longleftrightarrow> b = Some x) \<Longrightarrow> a = b"
  by (cases a; cases b) auto

lemma id_map_iff:
  assumes "distinct ids"
  shows "m = Map.empty(ids [\<mapsto>] [0..<length ids]) \<longleftrightarrow>
    (\<forall>vid i. m vid = Some i \<longleftrightarrow> i < length ids \<and> ids ! i = vid)"
proof
  assume "\<forall>vid i. m vid = Some i \<longleftrightarrow> i < length ids \<and> ids ! i = vid"
  then have "m vid = Some i \<longleftrightarrow> (Map.empty(ids [\<mapsto>] [0..<length ids])) vid = Some i" for vid i
    by (simp only: map_upds_index [OF assms])
  then show "m = Map.empty(ids [\<mapsto>] [0..<length ids])" by (intro ext option_eqI)
qed (simp only: map_upds_index [OF assms] simp_thms)

lemma unit_rows_concat:
  assumes "length vs = n * d"
  shows "(\<exists>rows. length rows = n \<and> vs = concat rows \<and> (\<forall>row\<in>set rows. length row = d \<and> normalized_row row))
    \<longleftrightarrow> (\<forall>i < n. normalized_row (row_of d vs i))" (is "?L \<longleftrightarrow> ?R")
proof
  assume ?L
  then obtain rows where rows: "length rows = n" "vs = concat rows"
    "\<forall>row\<in>set rows. length row = d" "\<forall>row\<in>set rows. normalized_row row" by blast
  then show ?R using row_of_concat [OF rows(3)] by simp
next
  assume ?R
  then show ?L
    using concat_rows [OF assms] length_row_of [OF assms]
    by (intro exI [of _ "map (row_of d vs) [0..<n]"]) simp
qed

lemma data_section_iff:
  assumes ids: "length ids = n" and dist: "distinct ids"
  shows "hnsw_read_ids n 0 Map.empty [] (input, c) = Inr ((m, ids), (rest, c')) \<longleftrightarrow>
    (\<forall>vid i. m vid = Some i \<longleftrightarrow> i < length ids \<and> ids ! i = vid)
    \<and> input = show_many (le_bytes 8) ids @ rest \<and> c' = checksum_bytes c (show_many (le_bytes 8) ids)"
  unfolding hnsw_read_ids_def read_ids_iff id_map_iff [OF dist, symmetric]
  using ids dist by auto

lemma hnsw_read_ids_distinct:
  "hnsw_read_ids n 0 Map.empty [] (input, c) = Inr ((m, ids), r) \<Longrightarrow> length ids = n \<and> distinct ids"
  by (cases r) (auto simp: hnsw_read_ids_def read_ids_iff)

lemma hnsw_read_rows_iff:
  "hnsw_read_rows n d [] (input, c) = Inr (vs, (rest, c')) \<longleftrightarrow>
     length vs = n * d \<and> (\<forall>i < n. normalized_row (row_of d vs i))
     \<and> input = show_many (le_bytes 4) vs @ rest \<and> c' = checksum_bytes c (show_many (le_bytes 4) vs)"
proof -
  have "hnsw_read_rows n d [] (input, c) = Inr (vs, (rest, c')) \<longleftrightarrow>
     (\<exists>rows. length rows = n \<and> vs = concat rows \<and> (\<forall>row\<in>set rows. length row = d \<and> normalized_row row))
     \<and> input = show_many (le_bytes 4) vs @ rest \<and> c' = checksum_bytes c (show_many (le_bytes 4) vs)"
    unfolding hnsw_read_rows_def read_rows_iff by auto
  moreover have "length vs = n * d"
    if "length rows = n" "vs = concat rows" "\<forall>row\<in>set rows. length row = d \<and> normalized_row row" for rows
    using that length_concat_rows [of rows d] by simp
  ultimately show ?thesis using unit_rows_concat [of vs n d] by metis
qed

lemma exceeds_containers_iff:
  "n < 2 ^ 32 \<Longrightarrow> \<not> exceeds_containers n e \<longleftrightarrow> e \<le> (2 ^ 63 - 1) div 4"
  by (auto simp: exceeds_containers_def)

lemma random_state_section_iff:
  assumes "sized header file_size" "length input \<le> file_size"
  shows "read_random_state header file_size seeded (input, c) = Inr (st, (rest, c')) \<longleftrightarrow>
    (\<exists>t bytes. bytes = (if hnsw_rng_state_version \<le> hd_version header then rng_bytes t else [])
       \<and> (if hnsw_rng_state_version \<le> hd_version header then rng_text_of t st else st = seeded)
       \<and> (hnsw_rng_state_version \<le> hd_version header \<longrightarrow> rest = [])
       \<and> input = bytes @ rest \<and> c' = checksum_bytes c bytes)"
proof (cases "hnsw_rng_state_version \<le> hd_version header")
  case True
  then show ?thesis unfolding read_random_state_iff [OF assms True] by auto
qed (auto simp: read_random_state_def)

lemma hnsw_create_Inr:
  "hnsw_create avx2 cfg = Inr ix \<longleftrightarrow> config_ok cfg \<and> (cfg_kernel cfg = Avx2 \<longrightarrow> avx2)
     \<and> ix = \<lparr>hnsw_config = cfg, hnsw_vectors = [], hnsw_ids = [], hnsw_graph = [],
            hnsw_id_to_node = Map.empty, hnsw_random = mt_seed (random_seed cfg),
            hnsw_entry = 0, hnsw_max_level = 0, hnsw_deleted = 0\<rparr>"
  by (auto simp: hnsw_create_def result_simps validate_config_Inr resolve_dot_product_kernel_Inr)

lemma header_sized:
  "header_fields header \<Longrightarrow> header_sizes header file_size \<Longrightarrow> sized header file_size"
  by (simp add: header_fields_def header_sizes_def sized_def)

lemma hnsw_load_accepts:
  assumes "hnsw_load avx2 path (Some content) kern = Inr ix"
  shows "cfg_kernel (hnsw_config ix) = kern
    \<and> (\<exists>header random_state rest. snapshot_of avx2 content header random_state rest ix)"
proof -
  from assms obtain header stored r0 r1 r2 r3 r4 r5 created observed g0
    where L: "load_steps avx2 content kern header stored r0 r1 r2 r3 r4 r5 created observed g0 ix"
    by (rule hnsw_load_stepsE)
  let ?n = "unat (hd_count header)" and ?d = "unat (hd_dimension header)"
  obtain i0 c0 i1 c1 i2 c2 i3 c3 i4 c4 i5 c5 where r: "r0 = (i0, c0)" "r1 = (i1, c1)" "r2 = (i2, c2)"
    "r3 = (i3, c3)" "r4 = (i4, c4)" "r5 = (i5, c5)" by (metis prod.exhaust)
  note L = L [unfolded load_steps_def r]
  from L have header: "known_version header" "content = header_bytes header @ le_bytes 8 stored @ i0"
    "c0 = checksum_bytes fnv_offset_basis (header_bytes header)"
    by (simp_all only: read_header_iff)
  from L have valid: "header_fields header" "header_sizes header (length content)" "header_entry header"
    by (simp_all only: validate_header_iff)
  note sized = header_sized [OF valid(1,2)]
  have small: "?n < 2 ^ 32" using valid(1) by (simp add: header_fields_def)
  from L have create: "config_ok (header_config header kern)" "kern = Avx2 \<longrightarrow> avx2"
    "hnsw_config created = header_config header kern" "hnsw_random created = mt_seed (hd_seed header)"
    by (simp_all add: hnsw_create_Inr header_config_def)
  from L have reads: "hnsw_read_ids ?n 0 Map.empty [] (i0, c0) = Inr ((hnsw_id_to_node ix, hnsw_ids ix), (i1, c1))"
    "hnsw_read_rows ?n ?d [] (i1, c1) = Inr (hnsw_vectors ix, (i2, c2))"
    "read_nodes header (length content) 0 ?n 0 (i2, c2) = Inr ((observed, g0), (i3, c3))"
    "read_tombstones header (length (hnsw_ids ix)) g0 (i3, c3) = Inr ((hnsw_deleted ix, hnsw_graph ix), (i4, c4))"
    "read_random_state header (length content) (hnsw_random created) (i4, c4) = Inr (hnsw_random ix, (i5, c5))"
    by blast+
  have ids: "length (hnsw_ids ix) = ?n" "distinct (hnsw_ids ix)"
    using hnsw_read_ids_distinct [OF reads(1)] by blast+
  note id_section = reads(1) [unfolded data_section_iff [OF ids]]
  note row_section = reads(2) [unfolded hnsw_read_rows_iff]
  have i2: "length i2 \<le> length content" using id_section row_section by (simp add: header(2))
  note node_section = reads(3) [unfolded read_nodes_iff [OF sized i2, of 0 ?n, simplified]]
  have g0: "length g0 = ?n" using node_section by blast
  let ?entry = "if g0 = [] then 0 else unat (hd_entry_point header)"
  have "nodes_ok header 0 g0 \<and> top_level 0 g0 = unat (hd_maximum_level header)
     \<and> (g0 \<noteq> [] \<longrightarrow> of_nat (length (node_levels (g0 ! ?entry))) - 1 = hd_maximum_level header)
     \<and> layers_present g0"
    using L node_section g0 unat_ucast_u32 [of observed] by auto
  then have graph: "\<forall>x\<in>set g0. \<not> node_deleted x" "graph_wf g0"
    "degrees_ok (degree_bound (unat (hd_max_connections header))) g0"
    "entry_at g0 ?entry (unat (hd_maximum_level header))"
    using graph_section_iff [of header g0 ?entry] g0 valid(1) L by auto
  note tomb = reads(4) [unfolded ids(1) g0 [symmetric] read_tombstones_iff [OF g0 [symmetric] graph(1)]]
  have i4: "length i4 \<le> length content" using i2 node_section tomb by simp
  from reads(5) [unfolded random_state_section_iff [OF sized i4]] obtain t bytes where
    rng: "bytes = (if hnsw_rng_state_version \<le> hd_version header then rng_bytes t else [])"
      "if hnsw_rng_state_version \<le> hd_version header then rng_text_of t (hnsw_random ix)
       else hnsw_random ix = hnsw_random created"
      "hnsw_rng_state_version \<le> hd_version header \<longrightarrow> i5 = []" "i4 = bytes @ i5" "c5 = checksum_bytes c4 bytes"
    by blast
  have sections: "i0 = hnsw_sections header ix t @ i5"
    using id_section row_section node_section tomb rng(1,4) by (simp add: hnsw_sections_def)
  have "c5 = checksum_bytes fnv_offset_basis (header_bytes header @ hnsw_sections header ix t)"
    using id_section row_section node_section tomb rng(1,5) header(3) by (simp add: hnsw_sections_def)
  then have stored: "stored = checksum_bytes fnv_offset_basis (header_bytes header @ hnsw_sections header ix t)"
    using L by simp
  have content: "content = hnsw_file header ix t @ i5"
    unfolding header(2) sections by (simp add: hnsw_file_def stored)
  have ix: "hnsw_config ix = header_config header kern" "hnsw_max_level ix = unat (hd_maximum_level header)"
    "hnsw_entry ix = (if ?n = 0 then 0 else unat (ucast (hd_entry_point header) :: u32))"
    using L create(3) by auto
  have undeleted: "g0 = undeleted (hnsw_graph ix)" using tomb by blast
  then have graph_len: "length (hnsw_graph ix) = ?n" using g0 by simp
  have entry: "hnsw_entry ix = ?entry"
  proof (cases "?n = 0")
    case False
    then have "unat (hd_entry_point header) < 2 ^ 32"
      using valid(3) small by (auto simp: header_entry_def word_unat_eq_iff split: if_splits)
    then have "unat (ucast (hd_entry_point header) :: u32) = unat (hd_entry_point header)"
      by (simp add: unsigned_ucast_eq take_bit_nat_eq_self)
    then show ?thesis using False g0 ix(3) by auto
  qed (use g0 ix(3) in auto)
  have "describes header ix"
    unfolding describes_def
    using header(1) ix ids(1) entry g0 valid(1,3)
    by (auto simp: header_config_def header_fields_def header_entry_def word_unat_eq_iff split: if_splits)
  moreover have "stored_ok ix"
    unfolding stored_ok_def
  proof (intro conjI)
    show "config_ok (hnsw_config ix)" using create(1) ix(1) by simp
    show "storage_ok ix"
      unfolding storage_ok_def using ids id_section row_section graph_len small
      by (auto simp: ix(1) header_config_def)
    show "entry_ok ix" using graph(4) unfolding entry_ok_at entry ix(2) undeleted by simp
    show "graph_wf (hnsw_graph ix)" using graph(2) unfolding undeleted by simp
    have "max_connections (hnsw_config ix) = unat (hd_max_connections header)" by (simp add: ix(1) header_config_def)
    then show "degrees_ok (maximum_connections ix) (hnsw_graph ix)"
      using graph(3) unfolding undeleted degree_bound_eq [symmetric] by simp
    show "hnsw_deleted ix = deleted_nodes (hnsw_graph ix)" using tomb by blast
    show "unit_rows ix" using row_section ids(1) by (simp add: unit_rows_def ix(1) header_config_def)
    from L obtain elements where "hnsw_checked_multiply (hd_count header) (hd_dimension header) ''vector count'' = Inr elements"
      "\<not> exceeds_containers ?n (unat elements)" by blast
    then show "length (hnsw_vectors ix) \<le> (2 ^ 63 - 1) div 4"
      using row_section exceeds_containers_iff [OF small]
        checked_multiply_exact [of hnsw_prefix "hd_count header" "hd_dimension header" "''vector count''" elements]
      by (simp add: hnsw_checked_multiply_def)
  qed
  moreover have "version_ok header ix t"
    unfolding version_ok_def using tomb rng(2) create(4) by (auto simp: ix(1) header_config_def)
  ultimately have "snapshot_of avx2 content header t i5 ix"
    unfolding snapshot_of_def using content valid(2) rng(3) create(2) by (simp add: ix(1) header_config_def)
  then show ?thesis by (auto simp: ix(1) header_config_def)
qed

lemma hnsw_load_snapshot:
  assumes snap: "snapshot_of avx2 content header t rest ix"
  shows "hnsw_load avx2 path (Some content) (cfg_kernel (hnsw_config ix)) = Inr ix"
proof -
  let ?n = "unat (hd_count header)" and ?d = "unat (hd_dimension header)"
    and ?kern = "cfg_kernel (hnsw_config ix)" and ?g0 = "undeleted (hnsw_graph ix)"
    and ?level = "unat (hd_maximum_level header)"
  have desc: "describes header ix" and ok: "stored_ok ix" and sizes: "header_sizes header (length content)"
    and version: "version_ok header ix t" and avx2: "?kern = Avx2 \<longrightarrow> avx2"
    and content: "content = hnsw_file header ix t @ rest"
    and trailing: "hnsw_rng_state_version \<le> hd_version header \<longrightarrow> rest = []"
    using snap unfolding snapshot_of_def by blast+
  note fields = describes_fields [OF desc ok]
  note sized = header_sized [OF fields(1) sizes]
  have cfg: "header_config header ?kern = hnsw_config ix" and count: "?n = length (hnsw_ids ix)"
    and level: "?level = hnsw_max_level ix" and known: "known_version header"
    and entry: "if hnsw_ids ix = [] then hd_entry_point header = hnsw_empty_entry
      else unat (hd_entry_point header) = hnsw_entry ix"
    using desc unfolding describes_def by blast+
  have dims: "cfg_dimension (hnsw_config ix) = ?d" "random_seed (hnsw_config ix) = hd_seed header"
    "max_connections (hnsw_config ix) = unat (hd_max_connections header)"
    using arg_cong [OF cfg, of cfg_dimension] arg_cong [OF cfg, of random_seed]
      arg_cong [OF cfg, of max_connections] by (simp_all add: header_config_def)
  have small: "?n < 2 ^ 32" using fields(1) by (simp add: header_fields_def)
  have storage: "length (hnsw_graph ix) = ?n" "length (hnsw_vectors ix) = ?n * ?d" "distinct (hnsw_ids ix)"
    "\<forall>vid i. hnsw_id_to_node ix vid = Some i \<longleftrightarrow> i < length (hnsw_ids ix) \<and> hnsw_ids ix ! i = vid"
    using ok dims unfolding stored_ok_def storage_ok_def count by simp_all
  have g0: "length ?g0 = ?n" "\<forall>x\<in>set ?g0. \<not> node_deleted x"
    using storage(1) undeleted_fresh by simp_all
  let ?ids = "show_many (le_bytes 8) (hnsw_ids ix)" and ?rows = "show_many (le_bytes 4) (hnsw_vectors ix)"
    and ?graph = "graph_bytes (hnsw_graph ix)" and ?tomb = "tombstone_bytes header (hnsw_graph ix)"
    and ?rng = "if hnsw_rng_state_version \<le> hd_version header then rng_bytes t else []"
  let ?c0 = "checksum_bytes fnv_offset_basis (header_bytes header)"
  let ?c1 = "checksum_bytes ?c0 ?ids" let ?c2 = "checksum_bytes ?c1 ?rows" let ?c3 = "checksum_bytes ?c2 ?graph"
  let ?c4 = "checksum_bytes ?c3 ?tomb" let ?c5 = "checksum_bytes ?c4 ?rng"
  let ?i5 = rest let ?i4 = "?rng @ ?i5" let ?i3 = "?tomb @ ?i4" let ?i2 = "?graph @ ?i3"
  let ?i1 = "?rows @ ?i2" let ?i0 = "?ids @ ?i1"
  let ?stored = "checksum_bytes fnv_offset_basis (header_bytes header @ hnsw_sections header ix t)"
  let ?created = "\<lparr>hnsw_config = hnsw_config ix, hnsw_vectors = [], hnsw_ids = [], hnsw_graph = [],
            hnsw_id_to_node = Map.empty, hnsw_random = mt_seed (hd_seed header),
            hnsw_entry = 0, hnsw_max_level = 0, hnsw_deleted = 0\<rparr>"
  let ?entry = "if ?g0 = [] then 0 else unat (hd_entry_point header)"
  have c5: "?c5 = ?stored" by (simp add: hnsw_sections_def)
  have whole: "content = header_bytes header @ le_bytes 8 ?stored @ ?i0"
    unfolding content hnsw_file_def by (simp add: hnsw_sections_def)
  have head: "read_header content = Inr ((header, ?stored), (?i0, ?c0))"
    unfolding read_header_iff using known whole by blast
  have valid: "validate_header header (length content) = Inr ()"
    unfolding validate_header_iff using fields sizes by blast
  have create: "hnsw_create avx2 (header_config header ?kern) = Inr ?created"
    using ok avx2 unfolding cfg hnsw_create_Inr stored_ok_def by (simp add: dims)
  have ids: "hnsw_read_ids ?n 0 Map.empty [] (?i0, ?c0) = Inr ((hnsw_id_to_node ix, hnsw_ids ix), (?i1, ?c1))"
    using storage(4) by (simp add: data_section_iff [OF count [symmetric] storage(3)])
  have rows: "hnsw_read_rows ?n ?d [] (?i1, ?c1) = Inr (hnsw_vectors ix, (?i2, ?c2))"
    using storage(2) ok unfolding hnsw_read_rows_iff stored_ok_def unit_rows_def by (simp add: dims count)
  have len: "length ?i2 \<le> length content" "length ?i4 \<le> length content" by (simp_all add: whole)
  have "hnsw_graph ix = [] \<Longrightarrow> hnsw_entry ix = 0" "hnsw_graph ix \<noteq> [] \<Longrightarrow> hnsw_entry ix < length (hnsw_graph ix)"
    using ok unfolding stored_ok_def entry_ok_def on_layer_def by blast+
  moreover have empty: "hnsw_graph ix = [] \<longleftrightarrow> hnsw_ids ix = []" using storage(1) count by auto
  ultimately have entry_index: "hnsw_entry ix = ?entry" "?g0 \<noteq> [] \<Longrightarrow> ?entry < length ?g0"
    "?g0 = [] \<Longrightarrow> ?entry = 0" "hnsw_entry ix < 2 ^ 32"
    using entry storage(1) small by (auto split: if_splits)
  have sections: "nodes_ok header 0 ?g0" "top_level 0 ?g0 = ?level"
     "?g0 \<noteq> [] \<longrightarrow> of_nat (length (node_levels (?g0 ! ?entry))) - 1 = hd_maximum_level header"
     "layers_present ?g0"
    using ok g0(2) entry_index(1)
      graph_section_iff [OF g0(1) [symmetric] fields(1) entry_index(2,3)]
    unfolding stored_ok_def entry_ok_at degree_bound_eq [symmetric] level [symmetric] dims(3)
    by simp_all
  let ?observed = "ucast (hd_maximum_level header) :: u32"
  have "?level \<le> 63" using fields(1) by (simp add: header_fields_def)
  then have observed: "unat ?observed = ?level" by (simp add: unsigned_ucast_eq take_bit_nat_eq_self)
  then have top: "ucast ?observed = hd_maximum_level header" by (simp add: word_unat_eq_iff unat_ucast_u32)
  have nodes: "read_nodes header (length content) 0 ?n 0 (?i2, ?c2) = Inr ((?observed, ?g0), (?i3, ?c3))"
    using sections g0(1) observed by (subst read_nodes_iff [OF sized len(1)]) simp_all
  have tomb: "read_tombstones header (length (hnsw_ids ix)) ?g0 (?i3, ?c3) =
      Inr ((hnsw_deleted ix, hnsw_graph ix), (?i4, ?c4))"
    using ok version unfolding count [symmetric] g0(1) [symmetric] stored_ok_def version_ok_def
    by (subst read_tombstones_iff [OF _ g0(2)]) (simp_all add: storage(1))
  have rng: "read_random_state header (length content) (mt_seed (hd_seed header)) (?i4, ?c4) =
      Inr (hnsw_random ix, (?i5, ?c5))"
    unfolding random_state_section_iff [OF sized len(2)]
    using version trailing by (intro exI [of _ t] exI [of _ ?rng]) (simp add: version_ok_def dims)
  have fits: "hnsw_checked_multiply (hd_count header) (hd_dimension header) ''vector count'' =
      Inr (of_nat (?n * ?d))" "\<not> exceeds_containers ?n (unat (of_nat (?n * ?d) :: u64))"
  proof -
    have le: "?n * ?d \<le> (2 ^ 63 - 1) div 4" using ok storage(2) by (simp add: stored_ok_def)
    then have u: "unat (of_nat (?n * ?d) :: u64) = ?n * ?d" by (intro unat_of_nat_u64) simp
    then show "hnsw_checked_multiply (hd_count header) (hd_dimension header) ''vector count'' = Inr (of_nat (?n * ?d))"
      using le unfolding hnsw_checked_multiply_def checked_multiply_Inr by simp
    show "\<not> exceeds_containers ?n (unat (of_nat (?n * ?d) :: u64))"
      unfolding u exceeds_containers_iff [OF small] using le .
  qed
  have "unat (ucast (hd_entry_point header) :: u32) = unat (hd_entry_point header)" if "?n \<noteq> 0"
    using that entry entry_index(4) count by (auto simp: unsigned_ucast_eq take_bit_nat_eq_self)
  then have entry': "hnsw_entry ix = (if ?n = 0 then 0 else unat (ucast (hd_entry_point header) :: u32))"
    using entry_index(1) g0(1) by auto
  have "load_steps avx2 content ?kern header ?stored (?i0, ?c0) (?i1, ?c1) (?i2, ?c2) (?i3, ?c3) (?i4, ?c4)
      (?i5, ?c5) ?created ?observed ?g0 ix"
    unfolding load_steps_def
  proof (intro conjI exI impI)
    show "unat (hd_entry_point header) < length ?g0" "of_nat (length (node_levels (?g0 ! unat (hd_entry_point header)))) - 1
        = hd_maximum_level header" if "?n \<noteq> 0"
    proof -
      from that have ne: "?g0 \<noteq> []" using g0(1) by auto
      show "unat (hd_entry_point header) < length ?g0" using entry_index(2) [OF ne] by (simp only: ne if_False)
      show "of_nat (length (node_levels (?g0 ! unat (hd_entry_point header)))) - 1 = hd_maximum_level header"
        using sections(3) ne by (simp only: if_False simp_thms)
    qed
    show "read_random_state header (length content) (hnsw_random ?created) (?i4, ?c4) =
      Inr (hnsw_random ix, (?i5, ?c5))" using rng by simp
    show "snd (?i5, ?c5) = ?stored" using c5 by simp
    show "hnsw_config ix = hnsw_config ?created" by simp
  qed (fact head valid create fits ids rows nodes top sections(4) tomb entry' level [symmetric])+
  then show ?thesis by (rule hnsw_load_stepsI)
qed

lemma hnsw_load_iff:
  "hnsw_load avx2 path (Some content) kern = Inr ix \<longleftrightarrow>
     cfg_kernel (hnsw_config ix) = kern
     \<and> (\<exists>header random_state rest. snapshot_of avx2 content header random_state rest ix)"
  using hnsw_load_accepts hnsw_load_snapshot by blast

end
