(* ===== verification/Hnsw_Save.thy ===== *)
theory Hnsw_Save
  imports Hnsw_Load
begin

text \<open>
  What \<open>save\<close> writes for the approximate index: the bytes of every section, their number as
  the code computes it, and the limits the loader checks it against.
\<close>

section \<open>The number of bytes\<close>

lemma length_layers: "length (show_many layer_bytes levels) = (\<Sum>ns\<leftarrow>levels. 4 + 4 * length ns)"
  by (induction levels) (simp_all add: length_layer_bytes)

lemma length_node_bytes: "length (node_bytes levels) = 4 + (\<Sum>ns\<leftarrow>levels. 4 + 4 * length ns)"
  by (simp add: node_bytes_def length_layers)

lemma node_bytes_bounds:
  assumes "levels \<noteq> []" "length levels \<le> 64" "\<forall>ns\<in>set levels. length ns \<le> k"
  shows "8 \<le> length (node_bytes levels)" "length (node_bytes levels) \<le> 4 + 64 * (4 + k * 4)"
proof -
  show "8 \<le> length (node_bytes levels)" using assms(1) by (cases levels) (simp_all add: length_node_bytes)
  have "(\<Sum>ns\<leftarrow>levels. 4 + 4 * length ns) \<le> length levels * (4 + k * 4)"
    using assms(3) by (induction levels) auto
  also have "\<dots> \<le> 64 * (4 + k * 4)" using assms(2) by (rule mult_le_mono1)
  finally show "length (node_bytes levels) \<le> 4 + 64 * (4 + k * 4)" by (simp add: length_node_bytes)
qed

lemma graph_bytes_bounds:
  assumes "\<forall>g\<in>set graph. a \<le> length (node_bytes (node_levels g)) \<and> length (node_bytes (node_levels g)) \<le> b"
  shows "length graph * a \<le> length (graph_bytes graph)" "length (graph_bytes graph) \<le> length graph * b"
  using assms by (induction graph) (auto simp: graph_bytes_def)

lemma graph_wf_bytes:
  assumes "graph_wf graph" "degrees_ok (degree_bound m) graph" "entry_at graph entry level"
  shows "length graph * 8 \<le> length (graph_bytes graph)"
    "length (graph_bytes graph) \<le> length graph * (4 + 64 * (4 + m * 2 * 4))"
proof -
  have "8 \<le> length (node_bytes (node_levels g))
      \<and> length (node_bytes (node_levels g)) \<le> 4 + 64 * (4 + m * 2 * 4)" if "g \<in> set graph" for g
  proof -
    from that obtain u where u: "u < length graph" "g = graph ! u" by (auto simp: in_set_conv_nth)
    have "node_levels g \<noteq> []" using assms(1) u by (simp add: graph_wf_def)
    moreover have "length (node_levels g) \<le> Suc level" "level \<le> 63"
      using assms(3) u by (simp_all add: entry_at_def maximum_generated_level_def)
    moreover have "length (node_levels g ! l) \<le> m * 2" if "l < length (node_levels g)" for l
    proof -
      have "length (edges graph u l) \<le> degree_bound m l"
        using assms(2) u that by (simp add: degrees_ok_def on_layer_def)
      also have "\<dots> \<le> m * 2" by (simp add: degree_bound_def)
      finally show ?thesis using u by (simp add: edges_def)
    qed
    ultimately show ?thesis using node_bytes_bounds [of "node_levels g" "m * 2"] by (simp add: all_set_conv_all_nth)
  qed
  then have "\<forall>g\<in>set graph. 8 \<le> length (node_bytes (node_levels g))
      \<and> length (node_bytes (node_levels g)) \<le> 4 + 64 * (4 + m * 2 * 4)" by blast
  from graph_bytes_bounds [OF this]
  show "length graph * 8 \<le> length (graph_bytes graph)"
    "length (graph_bytes graph) \<le> length graph * (4 + 64 * (4 + m * 2 * 4))" .
qed

text \<open>The loop of \<open>save\<close> that adds up the graph section.\<close>

lemma add_exact: "a + b < 2 ^ 64 \<Longrightarrow> hnsw_checked_add (of_nat a) (of_nat b) m = Inr (of_nat (a + b))"
  by (subst hnsw_checked_add_nat) auto

lemma multiply_exact:
  "a < 2 ^ 64 \<Longrightarrow> b < 2 ^ 64 \<Longrightarrow> a * b < 2 ^ 64 \<Longrightarrow>
     hnsw_checked_multiply (of_nat a) (of_nat b) m = Inr (of_nat (a * b))"
  by (subst hnsw_checked_multiply_nat) auto

lemma add_four: "a + 4 < 2 ^ 64 \<Longrightarrow> hnsw_checked_add (of_nat a) 4 m = Inr (of_nat (a + 4))"
  using add_exact [of a 4] by simp

lemma multiply_four: "a * 4 < 2 ^ 64 \<Longrightarrow> hnsw_checked_multiply (of_nat a) 4 m = Inr (of_nat (a * 4))"
  using multiply_exact [of a 4] by simp

lemma add_layer_bytes_exact:
  "p + length (show_many layer_bytes levels) < 2 ^ 64 \<Longrightarrow>
     add_layer_bytes levels (of_nat p) = Inr (of_nat (p + length (show_many layer_bytes levels)))"
proof (induction levels arbitrary: p)
  case (Cons ns levels)
  have fits: "p + 4 < 2 ^ 64" "length ns * 4 < 2 ^ 64" "p + 4 + length ns * 4 < 2 ^ 64"
    "p + 4 + length ns * 4 + length (show_many layer_bytes levels) < 2 ^ 64"
    using Cons.prems by (simp_all add: length_layer_bytes)
  have "add_layer_bytes (ns # levels) (of_nat p) = add_layer_bytes levels (of_nat (p + 4 + length ns * 4))"
    unfolding add_layer_bytes.simps add_four [OF fits(1)] multiply_four [OF fits(2)] and_then_Inr
      add_exact [OF fits(3)] ..
  then show ?case using Cons.IH [OF fits(4)] by (simp add: length_layer_bytes ac_simps)
qed simp

lemma add_graph_bytes_exact:
  "p + length (graph_bytes graph) < 2 ^ 64 \<Longrightarrow>
     add_graph_bytes graph (of_nat p) = Inr (of_nat (p + length (graph_bytes graph)))"
proof (induction graph arbitrary: p)
  case (Cons g graph)
  have fits: "p + 4 < 2 ^ 64" "p + 4 + length (show_many layer_bytes (node_levels g)) < 2 ^ 64"
    "p + 4 + length (show_many layer_bytes (node_levels g)) + length (graph_bytes graph) < 2 ^ 64"
    using Cons.prems by (simp_all add: graph_bytes_def node_bytes_def)
  have "add_graph_bytes (g # graph) (of_nat p) =
      add_graph_bytes graph (of_nat (p + 4 + length (show_many layer_bytes (node_levels g))))"
    unfolding add_graph_bytes.simps add_four [OF fits(1)] and_then_Inr add_layer_bytes_exact [OF fits(2)] ..
  then show ?case using Cons.IH [OF fits(3)] by (simp add: graph_bytes_def node_bytes_def ac_simps)
qed (simp add: graph_bytes_def)

section \<open>The bytes written\<close>

lemma checksum_node_bytes:
  "checksum_node c g = checksum_bytes c (node_bytes (node_levels g))"
proof -
  have layer: "foldl (\<lambda>c v. checksum_integer 4 c (of_nat v :: u32)) c ns
      = checksum_bytes c (show_many (\<lambda>v. le_bytes 4 (of_nat v :: u32)) ns)" for c ns
    by (induction ns arbitrary: c) (simp_all add: checksum_integer_bytes del: checksum_integer.simps le_bytes.simps)
  have "foldl (\<lambda>c ns. foldl (\<lambda>c v. checksum_integer 4 c (of_nat v :: u32))
         (checksum_integer 4 c (of_nat (length ns) :: u32)) ns) c levels
      = checksum_bytes c (show_many layer_bytes levels)" for c levels
    by (induction levels arbitrary: c)
      (simp_all add: layer [unfolded checksum_integer_bytes] checksum_integer_bytes layer_bytes_def del: checksum_integer.simps le_bytes.simps)
  then show ?thesis
    by (simp add: checksum_node_def node_bytes_def checksum_integer_bytes del: checksum_integer.simps le_bytes.simps)
qed

lemma write_node_bytes: "concat (write_node g) = node_bytes (node_levels g)"
proof -
  have "concat (concat (map (\<lambda>ns. le_bytes 4 (of_nat (length ns) :: u32) #
       map (\<lambda>v. le_bytes 4 (of_nat v :: u32)) ns) levels)) = show_many layer_bytes levels" for levels
    by (induction levels) (simp_all add: layer_bytes_def show_many_def del: le_bytes.simps)
  then show ?thesis by (simp add: write_node_def node_bytes_def del: le_bytes.simps)
qed

lemma graph_checksum: "foldl checksum_node c graph = checksum_bytes c (graph_bytes graph)"
  by (induction graph arbitrary: c) (simp_all add: checksum_node_bytes graph_bytes_def)

lemma graph_pieces: "concat (concat (map write_node graph)) = graph_bytes graph"
  by (induction graph) (simp_all add: write_node_bytes graph_bytes_def)

lemma flag_pieces:
  "foldl (\<lambda>c g. checksum_integer 1 c (node_flag g)) c graph = checksum_bytes c (flag_bytes (map node_deleted graph))"
  "concat (map (\<lambda>g. le_bytes 1 (node_flag g)) graph) = flag_bytes (map node_deleted graph)"
proof -
  show "foldl (\<lambda>c g. checksum_integer 1 c (node_flag g)) c graph = checksum_bytes c (flag_bytes (map node_deleted graph))"
    by (induction graph arbitrary: c)
      (simp_all add: checksum_integer_bytes node_flag_def flag_bytes_def
        del: checksum_integer.simps le_bytes.simps One_nat_def)
  show "concat (map (\<lambda>g. le_bytes 1 (node_flag g)) graph) = flag_bytes (map node_deleted graph)"
    by (induction graph) (simp_all add: node_flag_def flag_bytes_def del: le_bytes.simps One_nat_def)
qed

definition hnsw_payload :: "hnsw_index \<Rightarrow> nat" where
  "hnsw_payload ix =
     length (hnsw_sections (hnsw_header_of ix 0) ix (rng_show (hnsw_random ix)))"

definition hnsw_encode :: "hnsw_index \<Rightarrow> u8 list" where
  "hnsw_encode ix =
     hnsw_file (hnsw_header_of ix (of_nat (hnsw_payload ix))) ix (rng_show (hnsw_random ix))"

lemma hnsw_header_version [simp]:
  "hd_version (hnsw_header_of ix p) = hnsw_current_version"
  "hnsw_rng_state_version \<le> hnsw_current_version"
  by (simp_all add: hnsw_header_of_def hnsw_format_defs)

lemma hnsw_sections_current:
  "length (hnsw_graph ix) = length (hnsw_ids ix) \<Longrightarrow> hnsw_deleted ix = deleted_nodes (hnsw_graph ix) \<Longrightarrow>
   hnsw_sections (hnsw_header_of ix p) ix t =
     show_many (le_bytes 8) (hnsw_ids ix) @ show_many (le_bytes 4) (hnsw_vectors ix)
     @ graph_bytes (hnsw_graph ix) @ le_bytes 8 (of_nat (hnsw_size ix) :: u64)
     @ flag_bytes (map node_deleted (hnsw_graph ix)) @ le_bytes 4 (of_nat (length t) :: u32) @ t"
  by (simp add: hnsw_sections_def tombstone_bytes_def rng_bytes_def hnsw_size_def del: le_bytes.simps)

lemma hnsw_checksum_eq:
  assumes "length (hnsw_graph ix) = length (hnsw_ids ix)" "hnsw_deleted ix = deleted_nodes (hnsw_graph ix)"
  shows "hnsw_checksum ix (hnsw_header_of ix p) t =
    checksum_bytes fnv_offset_basis (header_bytes (hnsw_header_of ix p) @ hnsw_sections (hnsw_header_of ix p) ix t)"
  unfolding hnsw_checksum_def hnsw_sections_current [OF assms] Let_def
  by (simp add: checksum_header_bytes foldl_checksum_integer graph_checksum
      flag_pieces [unfolded checksum_integer_bytes] checksum_integer_bytes
      del: checksum_integer.simps le_bytes.simps One_nat_def)

lemma hnsw_pieces_eq:
  assumes "length (hnsw_graph ix) = length (hnsw_ids ix)" "hnsw_deleted ix = deleted_nodes (hnsw_graph ix)"
  shows "concat (hnsw_pieces ix (hnsw_header_of ix p) (hnsw_checksum ix (hnsw_header_of ix p) t) t) @ t =
    hnsw_file (hnsw_header_of ix p) ix t"
  unfolding hnsw_pieces_def hnsw_file_def hnsw_sections_current [OF assms] hnsw_checksum_eq [OF assms]
  by (simp add: concat_write_header graph_pieces flag_pieces show_many_def del: le_bytes.simps One_nat_def)

section \<open>Indexes the format can hold\<close>

definition hnsw_storable :: "hnsw_index \<Rightarrow> bool" where
  "hnsw_storable ix \<longleftrightarrow>
     stored_ok ix \<and> length (hnsw_random ix) = mt_size \<and> cfg_dimension (hnsw_config ix) < 2 ^ 64
   \<and> ef_construction (hnsw_config ix) < 2 ^ 64 \<and> ef_search (hnsw_config ix) < 2 ^ 64
   \<and> 112 + maximum_payload (hnsw_header_of ix 0) < 2 ^ 64"

lemma payload_limits_of:
  "maximum_payload (hnsw_header_of ix p) = maximum_payload (hnsw_header_of ix 0)"
  "minimum_payload (hnsw_header_of ix p) = minimum_payload (hnsw_header_of ix 0)"
  by (simp_all add: maximum_payload_def minimum_payload_def data_bytes_def trailer_limit_def hnsw_header_of_def)

lemma hnsw_sections_of:
  "hnsw_sections (hnsw_header_of ix p) ix t = hnsw_sections (hnsw_header_of ix 0) ix t"
  by (simp add: hnsw_sections_def tombstone_bytes_def)

lemma storable_facts:
  assumes "hnsw_storable ix"
  shows "length (hnsw_graph ix) = length (hnsw_ids ix)" "hnsw_deleted ix = deleted_nodes (hnsw_graph ix)"
    "length (hnsw_ids ix) < 2 ^ 32" "hnsw_max_level ix \<le> 63" "max_connections (hnsw_config ix) < 2 ^ 31"
    "length (hnsw_vectors ix) = length (hnsw_ids ix) * cfg_dimension (hnsw_config ix)"
    "hnsw_graph ix = [] \<Longrightarrow> hnsw_max_level ix = 0 \<and> hnsw_entry ix = 0"
    "hnsw_graph ix \<noteq> [] \<Longrightarrow> hnsw_entry ix < length (hnsw_graph ix)"
    "rng_text_of (rng_show (hnsw_random ix)) (hnsw_random ix)"
proof -
  have storage: "storage_ok ix" and cfg: "config_ok (hnsw_config ix)" and entry: "entry_ok ix"
    using assms unfolding hnsw_storable_def stored_ok_def by blast+
  show "hnsw_deleted ix = deleted_nodes (hnsw_graph ix)" "rng_text_of (rng_show (hnsw_random ix)) (hnsw_random ix)"
    using assms rng_text_show unfolding hnsw_storable_def stored_ok_def by blast+
  show "length (hnsw_graph ix) = length (hnsw_ids ix)" "length (hnsw_ids ix) < 2 ^ 32"
    "length (hnsw_vectors ix) = length (hnsw_ids ix) * cfg_dimension (hnsw_config ix)"
    using storage unfolding storage_ok_def by blast+
  show "max_connections (hnsw_config ix) < 2 ^ 31" using cfg by (simp add: config_ok_def)
  show "hnsw_max_level ix \<le> 63" "hnsw_graph ix = [] \<Longrightarrow> hnsw_max_level ix = 0 \<and> hnsw_entry ix = 0"
    "hnsw_graph ix \<noteq> [] \<Longrightarrow> hnsw_entry ix < length (hnsw_graph ix)"
    using entry unfolding entry_ok_def maximum_generated_level_def on_layer_def by blast+
qed

lemma header_words:
  assumes "hnsw_storable ix"
  shows "unat (hd_count (hnsw_header_of ix p)) = length (hnsw_ids ix)"
    "unat (hd_dimension (hnsw_header_of ix p)) = cfg_dimension (hnsw_config ix)"
    "unat (hd_max_connections (hnsw_header_of ix p)) = max_connections (hnsw_config ix)"
    "unat (hd_ef_construction (hnsw_header_of ix p)) = ef_construction (hnsw_config ix)"
    "unat (hd_ef_search (hnsw_header_of ix p)) = ef_search (hnsw_config ix)"
    "unat (hd_maximum_level (hnsw_header_of ix p)) = hnsw_max_level ix"
    "hnsw_ids ix \<noteq> [] \<Longrightarrow> unat (hd_entry_point (hnsw_header_of ix p)) = hnsw_entry ix"
proof -
  note f = storable_facts [OF assms]
  have "hnsw_entry ix < length (hnsw_ids ix)" if "hnsw_ids ix \<noteq> []" using f(1,8) that by fastforce
  moreover have "hnsw_max_level ix = 0" if "hnsw_ids ix = []" using f(1,7) that by auto
  ultimately show "unat (hd_count (hnsw_header_of ix p)) = length (hnsw_ids ix)"
    "unat (hd_dimension (hnsw_header_of ix p)) = cfg_dimension (hnsw_config ix)"
    "unat (hd_max_connections (hnsw_header_of ix p)) = max_connections (hnsw_config ix)"
    "unat (hd_ef_construction (hnsw_header_of ix p)) = ef_construction (hnsw_config ix)"
    "unat (hd_ef_search (hnsw_header_of ix p)) = ef_search (hnsw_config ix)"
    "unat (hd_maximum_level (hnsw_header_of ix p)) = hnsw_max_level ix"
    "hnsw_ids ix \<noteq> [] \<Longrightarrow> unat (hd_entry_point (hnsw_header_of ix p)) = hnsw_entry ix"
    using f(3-5) assms unfolding hnsw_storable_def
    by (auto simp: hnsw_header_of_def unat_of_nat_u64)
qed

lemma storable_payload:
  assumes "hnsw_storable ix"
  shows "minimum_payload (hnsw_header_of ix 0) \<le> hnsw_payload ix"
    "hnsw_payload ix \<le> maximum_payload (hnsw_header_of ix 0)" "112 + hnsw_payload ix < 2 ^ 64"
proof -
  note f = storable_facts [OF assms] and w = header_words [OF assms, of 0]
  have graph: "length (hnsw_graph ix) * 8 \<le> length (graph_bytes (hnsw_graph ix))"
    "length (graph_bytes (hnsw_graph ix)) \<le> length (hnsw_graph ix) * (4 + 64 * (4 + max_connections (hnsw_config ix) * 2 * 4))"
    using assms graph_wf_bytes [of "hnsw_graph ix" "max_connections (hnsw_config ix)"]
    unfolding hnsw_storable_def stored_ok_def degree_bound_eq entry_ok_at by blast+
  have random: "1 \<le> length (rng_show (hnsw_random ix))" "length (rng_show (hnsw_random ix)) \<le> 16 * 1024"
    using f(9) by (cases "rng_show (hnsw_random ix)"; simp add: rng_text_of_def)+
  have flags: "length (flag_bytes bs) = length bs" for bs by (induction bs) (simp_all add: flag_bytes_def)
  have size: "hnsw_payload ix = length (hnsw_ids ix) * 8 + length (hnsw_ids ix) * cfg_dimension (hnsw_config ix) * 4
      + length (graph_bytes (hnsw_graph ix)) + (4 + length (rng_show (hnsw_random ix))) + (8 + length (hnsw_ids ix))"
    unfolding hnsw_payload_def hnsw_sections_current [OF f(1,2)]
    by (simp add: length_show_many flags f(1,6) del: le_bytes.simps)
  show min: "minimum_payload (hnsw_header_of ix 0) \<le> hnsw_payload ix"
    unfolding size minimum_payload_def data_bytes_def trailer_limit_def w(1,2)
    using graph(1) random(1) f(1) by simp
  show max: "hnsw_payload ix \<le> maximum_payload (hnsw_header_of ix 0)"
    unfolding size maximum_payload_def data_bytes_def trailer_limit_def w(1-3)
    using graph(2) random(2) f(1) by simp
  show "112 + hnsw_payload ix < 2 ^ 64" using max assms by (simp add: hnsw_storable_def)
qed

lemma length_hnsw_encode: "length (hnsw_encode ix) = 112 + hnsw_payload ix"
  unfolding hnsw_encode_def hnsw_file_def hnsw_sections_of [of ix "of_nat (hnsw_payload ix)"]
  by (simp del: le_bytes.simps) (simp add: hnsw_payload_def)

lemma storable_snapshot:
  assumes "hnsw_storable ix" "cfg_kernel (hnsw_config ix) = Avx2 \<Longrightarrow> avx2"
  shows "snapshot_of avx2 (hnsw_encode ix) (hnsw_header_of ix (of_nat (hnsw_payload ix)))
    (rng_show (hnsw_random ix)) [] ix"
proof -
  let ?h = "hnsw_header_of ix (of_nat (hnsw_payload ix))"
  note f = storable_facts [OF assms(1)] and w = header_words [OF assms(1)] and p = storable_payload [OF assms(1)]
  have "header_config ?h (cfg_kernel (hnsw_config ix)) = hnsw_config ix"
  proof -
    have sel: "(if (if selection (hnsw_config ix) = Simple then 0 else 1) = (0 :: u32) then Simple else Heuristic)
        = selection (hnsw_config ix)" by (cases "selection (hnsw_config ix)") simp_all
    then have "(if hd_selection ?h = 0 then Simple else Heuristic) = selection (hnsw_config ix)"
      by (simp add: hnsw_header_of_def)
    moreover have "hd_seed ?h = random_seed (hnsw_config ix)" by (simp add: hnsw_header_of_def)
    ultimately show ?thesis
      by (intro hnsw_config.equality) (simp_all add: header_config_def w)
  qed
  then have desc: "describes ?h ix"
    unfolding describes_def using w by (simp add: known_version_def) (simp add: hnsw_header_of_def hnsw_format_defs)
  have payload: "unat (hd_payload_bytes ?h) = hnsw_payload ix"
    using p(3) by (simp add: hnsw_header_of_def unat_of_nat_u64)
  have "maximum_payload ?h = maximum_payload (hnsw_header_of ix 0)"
    "minimum_payload ?h = minimum_payload (hnsw_header_of ix 0)"
    by (rule payload_limits_of)+
  moreover note length_hnsw_encode [of ix]
  moreover have "maximum_payload (hnsw_header_of ix 0) < 2 ^ 64" using assms(1) by (simp add: hnsw_storable_def)
  ultimately have "header_sizes ?h (length (hnsw_encode ix))"
    unfolding header_sizes_def payload using p by simp
  moreover have "stored_ok ix" using assms(1) unfolding hnsw_storable_def by blast
  moreover have "version_ok ?h ix (rng_show (hnsw_random ix))" using f(9) by (simp add: version_ok_def)
  ultimately show ?thesis
    using assms(2) desc unfolding snapshot_of_def hnsw_encode_def by simp
qed

section \<open>Saving\<close>

lemma hnsw_payload_bytes_exact:
  assumes "hnsw_storable ix"
  shows "hnsw_payload_bytes ix (of_nat (length (hnsw_vectors ix))) (rng_show (hnsw_random ix)) =
    Inr (of_nat (hnsw_payload ix))"
proof -
  let ?n = "length (hnsw_ids ix)" and ?v = "length (hnsw_vectors ix)" and ?t = "rng_show (hnsw_random ix)"
    and ?g = "length (graph_bytes (hnsw_graph ix))"
  note f = storable_facts [OF assms]
  have flags: "length (flag_bytes bs) = length bs" for bs by (induction bs) (simp_all add: flag_bytes_def)
  have size: "hnsw_payload ix = ?n * 8 + ?v * 4 + ?g + (4 + length ?t) + (8 + ?n)"
    unfolding hnsw_payload_def hnsw_sections_current [OF f(1,2)]
    by (simp add: length_show_many flags f(1) del: le_bytes.simps)
  have fits: "?n * 8 + ?v * 4 + ?g + (4 + length ?t) + (8 + ?n) < 2 ^ 64"
    using storable_payload(3) [OF assms] unfolding size by simp
  have ids: "hnsw_checked_multiply (of_nat ?n) 8 m = Inr (of_nat (?n * 8))" for m
    using multiply_exact [of ?n 8 m] fits by simp
  have rows: "hnsw_checked_multiply (of_nat ?v) 4 m = Inr (of_nat (?v * 4))" for m
    using multiply_four [of ?v m] fits by simp
  have data: "hnsw_checked_add (of_nat (?n * 8)) (of_nat (?v * 4)) m = Inr (of_nat (?n * 8 + ?v * 4))" for m
    using fits by (intro add_exact) simp
  have graph: "add_graph_bytes (hnsw_graph ix) (of_nat (?n * 8 + ?v * 4)) = Inr (of_nat (?n * 8 + ?v * 4 + ?g))"
    using fits by (intro add_graph_bytes_exact) simp
  have "?t \<noteq> []" "length ?t \<le> 16 * 1024" using f(9) by (simp_all add: rng_text_of_def)
  then have random: "\<not> (?t = [] \<or> unat hnsw_maximum_rng_state_bytes < length ?t)"
    by (simp add: hnsw_maximum_rng_state_bytes_def)
  have four: "4 + of_nat (length ?t) = (of_nat (4 + length ?t) :: u64)" and eight: "8 = (of_nat 8 :: u64)"
    by simp_all
  have state: "hnsw_checked_add (of_nat (?n * 8 + ?v * 4 + ?g)) (4 + of_nat (length ?t)) m
      = Inr (of_nat (?n * 8 + ?v * 4 + ?g + (4 + length ?t)))" for m
    unfolding four using fits by (intro add_exact) simp
  have tombstones: "hnsw_checked_add 8 (of_nat ?n) m = Inr (of_nat (8 + ?n))" for m
    unfolding eight using fits by (intro add_exact) simp
  have last: "hnsw_checked_add (of_nat (?n * 8 + ?v * 4 + ?g + (4 + length ?t))) (of_nat (8 + ?n)) m
      = Inr (of_nat (hnsw_payload ix))" for m
    unfolding size using fits by (intro add_exact)
  show ?thesis
    unfolding hnsw_payload_bytes_def Let_def ids rows data graph state tombstones last and_then_Inr if_not_P [OF random] ..
qed

lemma hnsw_save_storable:
  assumes "hnsw_storable ix"
  shows "hnsw_save opens capacity flushes path ix =
    (if \<not> opens then (None, Inl (Runtime_error (''cannot open HNSW index for writing: '' @ path)))
     else if length (hnsw_encode ix) \<le> capacity \<and> flushes then (Some (hnsw_encode ix), Inr ())
     else if length (hnsw_encode ix) \<le> capacity then
       (Some (hnsw_encode ix), Inl (Runtime_error (''failed to flush HNSW index: '' @ path)))
     else (Some (take capacity (hnsw_encode ix)),
       Inl (Runtime_error (if length (hnsw_encode ix) - length (rng_show (hnsw_random ix)) \<le> capacity
         then ''failed to flush HNSW index: '' @ path else ''failed to write HNSW index''))))"
proof -
  let ?n = "length (hnsw_ids ix)" and ?v = "length (hnsw_vectors ix)" and ?t = "rng_show (hnsw_random ix)"
    and ?d = "cfg_dimension (hnsw_config ix)"
  note f = storable_facts [OF assms]
  have small: "?v < 2 ^ 64" "?d < 2 ^ 64" "?n < 2 ^ 64"
    using assms f(3) by (simp_all add: hnsw_storable_def stored_ok_def)
  have elements: "hnsw_checked_multiply (of_nat ?n) (of_nat ?d) m = Inr (of_nat ?v)" for m
    using small f(6) by (subst multiply_exact) simp_all
  have "\<not> 2 ^ 32 - 1 < (of_nat ?n :: u64)" using f(3) small by (simp add: word_less_nat_alt unat_of_nat_u64)
  moreover have "unat (of_nat ?v :: u64) = ?v" by (rule unat_of_nat_u64 [OF small(1)])
  ultimately have limits: "\<not> (2 ^ 32 - 1 < (of_nat ?n :: u64) \<or> unat (of_nat ?v :: u64) \<noteq> ?v
      \<or> length (hnsw_graph ix) \<noteq> ?n \<or> (2 ^ 32 - 1) div 2 < max_connections (hnsw_config ix))"
    using f(1,5) by simp
  have deleted: "\<not> length (filter node_deleted (hnsw_graph ix)) \<noteq> hnsw_deleted ix"
    using f(2) by (simp add: deleted_nodes_def)
  let ?h = "hnsw_header_of ix (of_nat (hnsw_payload ix))"
  let ?pieces = "concat (hnsw_pieces ix ?h (hnsw_checksum ix ?h ?t) ?t)"
  have encode: "hnsw_encode ix = ?pieces @ ?t"
    unfolding hnsw_encode_def hnsw_pieces_eq [OF f(1,2)] ..
  show ?thesis
    unfolding hnsw_save_def Let_def elements and_then_Inr if_not_P [OF limits] if_not_P [OF deleted]
      hnsw_payload_bytes_exact [OF assms] sum.case write_all_eq encode
    by (auto simp: write_exact_def)
qed

end
