(* ===== verification/Hnsw_Snapshot_Theorems.thy ===== *)
theory Hnsw_Snapshot_Theorems
  imports Hnsw_Save Hnsw_Theorems
begin

text \<open>
  The properties of the approximate index's snapshots: saving and loading are inverse, cut
  and damaged files are refused, and a loaded index satisfies the invariant.
\<close>

section \<open>What a loaded file determines\<close>

lemma snapshot_facts:
  assumes "snapshot_of avx2 content header t rest ix"
  shows "take 104 content = header_bytes header" "length content = 112 + unat (hd_payload_bytes header)"
    "known_version header" "stored_ok ix"
proof -
  have content: "content = hnsw_file header ix t @ rest" using assms unfolding snapshot_of_def by blast
  show "take 104 content = header_bytes header" unfolding content by (simp add: hnsw_file_def del: le_bytes.simps)
  show "length content = 112 + unat (hd_payload_bytes header)" "known_version header" "stored_ok ix"
    using assms unfolding snapshot_of_def header_sizes_def describes_def by blast+
qed

lemma snapshot_checksum:
  assumes "snapshot_of avx2 content header t rest ix" "hd_version header \<noteq> 1"
  shows "take 8 (drop 104 content) = le_bytes 8 (checksum_bytes fnv_offset_basis (take 104 content @ drop 112 content))"
proof -
  have "hnsw_rng_state_version \<le> hd_version header"
    using snapshot_facts(3) [OF assms(1)] assms(2) by (auto simp: known_version_def hnsw_format_defs)
  then show ?thesis
    using assms(1) by (simp add: snapshot_of_def hnsw_file_def del: le_bytes.simps foldl_append)
qed

lemma snapshot_byte_8:
  assumes "snapshot_of avx2 content header t rest ix"
  shows "content ! 8 = ucast (hd_version header)"
proof -
  have "content ! 8 = header_bytes header ! 8"
    unfolding snapshot_facts(1) [OF assms, symmetric] by simp
  also have "\<dots> = le_bytes 4 (hd_version header) ! 0"
    by (simp add: header_bytes_eq nth_append del: le_bytes.simps)
  finally show ?thesis by (simp add: le_bytes_nth del: le_bytes.simps)
qed

lemma snapshot_version_byte:
  assumes "snapshot_of avx2 content header t rest ix"
  shows "content ! 8 = 1 \<longleftrightarrow> hd_version header = 1"
  unfolding snapshot_byte_8 [OF assms] using snapshot_facts(3) [OF assms] by (auto simp: known_version_def)

lemma hnsw_load_prefix:
  assumes "hnsw_load avx2 path (Some content) kern = Inr ix" "hnsw_load avx2' path' (Some (take n content)) kern' = Inr iy"
  shows "length content \<le> n"
proof -
  obtain h t r where h: "snapshot_of avx2 content h t r ix" using assms(1) by (auto simp: hnsw_load_iff)
  obtain h' t' r' where h': "snapshot_of avx2' (take n content) h' t' r' iy" using assms(2) by (auto simp: hnsw_load_iff)
  have "112 \<le> length (take n content)" unfolding snapshot_facts(2) [OF h'] by simp
  then have "take 104 (take n content) = take 104 content" by simp
  then have "h' = h" unfolding snapshot_facts(1) [OF h] snapshot_facts(1) [OF h'] by (rule header_bytes_inj)
  then show ?thesis using snapshot_facts(2) [OF h] snapshot_facts(2) [OF h'] by simp
qed

lemma stored_ok_wf:
  assumes "stored_ok ix" "length (hnsw_random ix) = mt_size"
    "cfg_dimension (hnsw_config ix) < score_dimension (cfg_kernel (hnsw_config ix))"
  shows "hnsw_wf ix"
proof -
  let ?d = "cfg_dimension (hnsw_config ix)"
  have len: "length (hnsw_vectors ix) = length (hnsw_ids ix) * ?d"
    using assms(1) unfolding stored_ok_def storage_ok_def by blast
  have "unit_components (row_of ?d (hnsw_vectors ix) i)" if "i < length (hnsw_ids ix)" for i
  proof (rule normalized_row_components)
    show "normalized_row (row_of ?d (hnsw_vectors ix) i)"
      using assms(1) that unfolding stored_ok_def unit_rows_def by blast
    show "length (row_of ?d (hnsw_vectors ix) i) < 2 ^ 53"
      using length_row_of [OF len that] assms(3) score_dimension_le [of "cfg_kernel (hnsw_config ix)"] by simp
  qed
  then have "unit_components (concat (map (row_of ?d (hnsw_vectors ix)) [0..<length (hnsw_ids ix)]))"
    by (auto simp: unit_components_def)
  then have "unit_components (hnsw_vectors ix)" unfolding concat_rows [OF len] .
  then show ?thesis using assms unfolding hnsw_wf_def scores_ok_def stored_ok_def by blast
qed

lemma snapshot_random:
  "snapshot_of avx2 content header t rest ix \<Longrightarrow> length (hnsw_random ix) = mt_size"
  by (auto simp: snapshot_of_def version_ok_def rng_text_of_def length_rng_read split: if_splits)

lemma hnsw_sample_storable: "hnsw_storable hnsw_sample"
proof -
  have "normalized_row [0x3F800000]" "normalized_row [0xBF800000]"
    by (simp_all add: normalized_row_def nearly_unit_def norm_tolerance_def fp_eval)
  then have rows: "unit_rows hnsw_sample"
    unfolding unit_rows_def
    by (simp add: hnsw_sample_def row_of_def All_less_Suc2 numeral_3_eq_3)
  note wf = hnsw_sample_wf [unfolded hnsw_wf_def]
  have "stored_ok hnsw_sample" unfolding stored_ok_def using wf rows by (simp add: hnsw_sample_def)
  then show ?thesis
    by (simp add: hnsw_storable_def hnsw_sample_def maximum_payload_def data_bytes_def trailer_limit_def
        hnsw_header_of_def hnsw_format_defs)
qed

lemma hnsw_sample_kernel [simp]: "cfg_kernel (hnsw_config hnsw_sample) = Scalar"
  by (simp add: hnsw_sample_def)

lemma hnsw_sample_length: "length (hnsw_encode hnsw_sample) \<le> 100000"
proof -
  have "maximum_payload (hnsw_header_of hnsw_sample 0) \<le> 99888"
    by (simp add: hnsw_sample_def maximum_payload_def data_bytes_def trailer_limit_def
        hnsw_header_of_def hnsw_format_defs)
  moreover have "length (hnsw_encode hnsw_sample) = 112 + hnsw_payload hnsw_sample"
    by (rule length_hnsw_encode)
  ultimately show ?thesis using storable_payload(2) [OF hnsw_sample_storable] by simp
qed

section \<open>Theorems\<close>



text \<open>C14: a load succeeds with an index exactly when the file is a snapshot of that index: a
  header of version 1, 2 or 3 that describes it, the FNV-1a checksum of header and sections,
  and the sections, with a graph that satisfies the structural invariant. Only a version 1
  file may go on after its sections.\<close>

theorem hnsw_load_exact:
  "hnsw_load avx2 path (Some content) kern = Inr ix \<longleftrightarrow>
     cfg_kernel (hnsw_config ix) = kern
     \<and> (\<exists>header random_state rest. snapshot_of avx2 content header random_state rest ix)"
  by (rule hnsw_load_iff)

lemma hnsw_load_wf:
  assumes "hnsw_load avx2 path file_content kern = Inr ix" "cfg_dimension (hnsw_config ix) < score_dimension kern"
  shows "hnsw_wf ix"
proof (cases file_content)
  case (Some content)
  then obtain header t rest where "snapshot_of avx2 content header t rest ix" "cfg_kernel (hnsw_config ix) = kern"
    using assms(1) by (auto simp: hnsw_load_iff)
  then show ?thesis using stored_ok_wf snapshot_facts(4) snapshot_random assms(2) by blast
qed (use assms(1) in \<open>simp add: hnsw_load_def\<close>)



end
