(* ===== verification/Vector_Index.thy ===== *)
theory Vector_Index
  imports Flat_Theorems Hnsw_Theorems
begin

text \<open>
  include/fast_vector/vector_index.h: the interface \<open>VectorIndex\<close> and its two
  implementations. A \<open>vector_index\<close> is an object of one of the two classes; the virtual calls
  dispatch on it. The locale \<open>index_contract\<close> is what the users of the interface rely on,
  interpreted on the exact index, the approximate index and the dispatching operations.
\<close>

section \<open>The interface\<close>

datatype vector_index = Flat flat_index | Hnsw hnsw_index

text \<open>What the calls depend on besides the object: the CPU, \<open>std::log\<close>, failing allocations.\<close>

record platform =
  has_avx2 :: bool
  std_log :: "f64 \<Rightarrow> f64"

fun index_add ::
  "platform \<Rightarrow> nat option \<Rightarrow> vector_id \<Rightarrow> f32 list \<Rightarrow> vector_index \<Rightarrow> vector_index \<times> unit result" where
  "index_add pf fault vid v (Flat ix) = (case flat_add fault vid v ix of (ix', r) \<Rightarrow> (Flat ix', r))"
| "index_add pf fault vid v (Hnsw ix) = (case hnsw_add fault (std_log pf) vid v ix of (ix', r) \<Rightarrow> (Hnsw ix', r))"

fun index_search ::
  "platform \<Rightarrow> vector_index \<Rightarrow> f32 list \<Rightarrow> nat \<Rightarrow> search_context \<Rightarrow> environment \<Rightarrow> search_result list result" where
  "index_search pf (Flat ix) query k ctx env = flat_search (has_avx2 pf) ix query k ctx env"
| "index_search pf (Hnsw ix) query k ctx env = hnsw_search ix query k ctx env"

fun index_search_default ::
  "platform \<Rightarrow> vector_index \<Rightarrow> f32 list \<Rightarrow> nat \<Rightarrow> environment \<Rightarrow> search_result list result" where
  "index_search_default pf (Flat ix) query k env = flat_search_default (has_avx2 pf) ix query k env"
| "index_search_default pf (Hnsw ix) query k env = hnsw_search_default ix query k env"

fun index_size :: "vector_index \<Rightarrow> nat" where
  "index_size (Flat ix) = flat_size ix"
| "index_size (Hnsw ix) = hnsw_size ix"

fun index_dimension :: "vector_index \<Rightarrow> nat" where
  "index_dimension (Flat ix) = flat_dimension ix"
| "index_dimension (Hnsw ix) = cfg_dimension (hnsw_config ix)"

text \<open>
  The interruptible search a class inherits when it overrides only the plain one: checks
  before and after. \<open>search\<close> is the plain search of that class.
\<close>

definition inherited_search ::
  "('i \<Rightarrow> f32 list \<Rightarrow> nat \<Rightarrow> search_result list result) \<Rightarrow> 'i \<Rightarrow> f32 list \<Rightarrow> nat \<Rightarrow> search_context \<Rightarrow>
   environment \<Rightarrow> search_result list result" where
  "inherited_search search ix query k ctx env =
     and_then (validate_context ctx) (\<lambda>_.
     and_then (check ctx env 0) (\<lambda>n.
     and_then (search ix query k) (\<lambda>results.
     and_then (check ctx env n) (\<lambda>_. Inr results))))"

section \<open>Abstraction\<close>

fun index_abs :: "vector_index \<Rightarrow> vector_id \<rightharpoonup> f32 list" where
  "index_abs (Flat ix) = flat_abs ix"
| "index_abs (Hnsw ix) = hnsw_abs ix"

fun index_inv :: "vector_index \<Rightarrow> bool" where
  "index_inv (Flat ix) \<longleftrightarrow> flat_inv ix"
| "index_inv (Hnsw ix) \<longleftrightarrow> hnsw_wf ix"

fun index_kernel :: "vector_index \<Rightarrow> dot_kernel" where
  "index_kernel (Flat ix) = flat_kernel ix"
| "index_kernel (Hnsw ix) = cfg_kernel (hnsw_config ix)"

section \<open>The contract\<close>

locale index_contract =
  fixes add :: "nat option \<Rightarrow> vector_id \<Rightarrow> f32 list \<Rightarrow> 'i \<Rightarrow> 'i \<times> unit result"
    and search :: "'i \<Rightarrow> f32 list \<Rightarrow> nat \<Rightarrow> search_context \<Rightarrow> environment \<Rightarrow> search_result list result"
    and contents :: "'i \<Rightarrow> vector_id \<rightharpoonup> f32 list"
    and inv :: "'i \<Rightarrow> bool" and dims :: "'i \<Rightarrow> nat" and kernel :: "'i \<Rightarrow> dot_kernel"
    and runs :: "dot_kernel \<Rightarrow> bool"
  assumes add_stores:
      "inv ix \<Longrightarrow> add fault vid v ix = (ix', Inr ()) \<Longrightarrow>
         inv ix' \<and> dims ix' = dims ix \<and> kernel ix' = kernel ix
         \<and> (\<exists>r. normalize_l2 v = Inr r \<and> contents ix' = (contents ix)(vid \<mapsto> r))"
    and add_strong: "inv ix \<Longrightarrow> add fault vid v ix = (ix', Inl e) \<Longrightarrow> ix' = ix"
    and search_results:
      "inv ix \<Longrightarrow> runs (kernel ix) \<Longrightarrow> search ix query k ctx env = Inr rs \<Longrightarrow>
         sorted_wrt is_better rs \<and> distinct (map result_id rs) \<and> length rs \<le> k
         \<and> (\<forall>r\<in>set rs. \<exists>q v. normalize_l2 query = Inr q \<and> contents ix (result_id r) = Some v
              \<and> result_score r = raw_dot_product (kernel ix) q v)"
    and search_total:
      "inv ix \<Longrightarrow> runs (kernel ix) \<Longrightarrow> check_interval ctx \<noteq> 0 \<Longrightarrow> length query = dims ix \<Longrightarrow>
         normalize_l2 query = Inr q \<Longrightarrow> search ix query k ctx env = Inl e \<Longrightarrow>
         \<not> quiet ctx env \<and> is_interruption e"
begin

text \<open>Insertion as a partial-map update that may be refused.\<close>

lemma add_cases:
  assumes "inv ix"
  obtains r ix' where "add fault vid v ix = (ix', Inr ())" "normalize_l2 v = Inr r" "inv ix'"
      "contents ix' = (contents ix)(vid \<mapsto> r)" "dims ix' = dims ix" "kernel ix' = kernel ix"
  | e where "add fault vid v ix = (ix, Inl e)"
proof (cases "add fault vid v ix")
  case (Pair ix' r)
  show ?thesis
  proof (cases r)
    case (Inl e)
    then show ?thesis using Pair add_strong [OF assms] that(2) by blast
  next
    case (Inr u)
    then have "add fault vid v ix = (ix', Inr ())" using Pair by simp
    from this add_stores [OF assms this] show ?thesis using that(1) by blast
  qed
qed

lemma add_keeps: "inv ix \<Longrightarrow> inv (fst (add fault vid v ix)) \<and> dims (fst (add fault vid v ix)) = dims ix
    \<and> kernel (fst (add fault vid v ix)) = kernel ix"
proof -
  assume "inv ix"
  then show ?thesis by (rule add_cases [where fault = fault and vid = vid and v = v]) (use \<open>inv ix\<close> in simp_all)
qed

lemma search_valid:
  assumes "inv ix" "runs (kernel ix)" "check_interval ctx \<noteq> 0" "length query = dims ix"
    "normalize_l2 query = Inr q" "quiet ctx env"
  shows "\<exists>rs. search ix query k ctx env = Inr rs"
  using search_total [OF assms(1-5)] assms(6) by (cases "search ix query k ctx env") auto

end

section \<open>The implementations\<close>

definition runs_on :: "bool \<Rightarrow> dot_kernel \<Rightarrow> bool" where
  "runs_on avx2 k \<longleftrightarrow> (k = Avx2 \<longrightarrow> avx2)"

lemma flat_search_total:
  assumes "flat_inv ix" "runs_on avx2 (flat_kernel ix)" "check_interval ctx \<noteq> 0" "length query = flat_dimension ix"
    "normalize_l2 query = Inr q" "flat_search avx2 ix query k ctx env = Inl e"
  shows "\<not> quiet ctx env \<and> is_interruption e"
proof
  have avx2: "flat_kernel ix = Avx2 \<longrightarrow> avx2" and wf: "flat_wf ix"
    using assms by (simp_all add: runs_on_def flat_inv_def)
  show "is_interruption e" by (rule flat_search_interrupted [OF assms(6,3-5) avx2])
  show "\<not> quiet ctx env"
  proof
    assume q: "quiet ctx env"
    show False
    proof (cases "k = 0")
      case True
      then show False using assms(3,6) q by (simp add: flat_search_def validate_context_def)
    next
      case False
      then show False
        using flat_search_quiet [OF wf flat_inv_scored [OF assms(1,5,4)] q assms(3) False assms(4,5) avx2] assms(6)
        by simp
    qed
  qed
qed

interpretation flat_contract: index_contract flat_add "flat_search avx2" flat_abs flat_inv flat_dimension
  flat_kernel "runs_on avx2" for avx2
proof
  show "flat_inv ix' \<and> flat_dimension ix' = flat_dimension ix \<and> flat_kernel ix' = flat_kernel ix
      \<and> (\<exists>r. normalize_l2 v = Inr r \<and> flat_abs ix' = (flat_abs ix)(vid \<mapsto> r))"
    if inv: "flat_inv ix" and add: "flat_add fault vid v ix = (ix', Inr ())" for ix ix' fault vid v
  proof -
    have wf: "flat_wf ix" using inv by (simp add: flat_inv_def)
    show ?thesis
      by (rule flat_add_success [OF wf add]) (use flat_add_inv [OF inv add] in blast)
  qed
  show "ix' = ix" if "flat_inv ix" "flat_add fault vid v ix = (ix', Inl e)" for ix ix' fault vid v e
    using that flat_add_failure [of ix] by (auto simp: flat_inv_def)
  show "sorted_wrt is_better rs \<and> distinct (map result_id rs) \<and> length rs \<le> k
      \<and> (\<forall>r\<in>set rs. \<exists>q v. normalize_l2 query = Inr q \<and> flat_abs ix (result_id r) = Some v
            \<and> result_score r = raw_dot_product (flat_kernel ix) q v)"
    if inv: "flat_inv ix" and res: "flat_search avx2 ix query k ctx env = Inr rs" for ix query k ctx env rs
  proof (cases "k = 0")
    case True
    then show ?thesis using res by (auto simp: flat_search_def result_simps)
  next
    case False
    have wf: "flat_wf ix" using inv by (simp add: flat_inv_def)
    have "length query = flat_dimension ix"
      using False res by (auto simp: flat_search_def result_simps split: if_splits)
    note scored = flat_inv_scored [OF inv _ this]
    obtain q where q: "normalize_l2 query = Inr q" "rs = flat_top_k ix (flat_kernel ix) q k"
      using flat_search_outcome [OF wf scored res] False by blast
    show ?thesis
      unfolding q(2) using flat_top_k_facts [OF wf scored [OF q(1)], where k = k] q(1) by auto
  qed
qed (rule flat_search_total)

text \<open>The approximate index; its kernel was resolved when it was built.\<close>

lemma hnsw_search_zero:
  "hnsw_search ix query 0 ctx env = Inr rs \<Longrightarrow> rs = []"
  by (auto simp: hnsw_search_def hnsw_search_ef_def result_simps)

lemma hnsw_search_args:
  assumes "hnsw_search ix query k ctx env = Inr rs" "k \<noteq> 0"
  shows "check_interval ctx \<noteq> 0" "length query = cfg_dimension (hnsw_config ix)" "\<exists>q. normalize_l2 query = Inr q"
  using assms by (auto simp: hnsw_search_def hnsw_search_ef_def result_simps validate_context_def split: if_splits)

interpretation hnsw_contract: index_contract "\<lambda>fault. hnsw_add fault lg" hnsw_search hnsw_abs
  "\<lambda>ix. hnsw_wf ix \<and> log_contract lg" "\<lambda>ix. cfg_dimension (hnsw_config ix)"
  "\<lambda>ix. cfg_kernel (hnsw_config ix)" "runs_on avx2" for lg avx2
proof
  show "(hnsw_wf ix' \<and> log_contract lg) \<and> cfg_dimension (hnsw_config ix') = cfg_dimension (hnsw_config ix)
      \<and> cfg_kernel (hnsw_config ix') = cfg_kernel (hnsw_config ix)
      \<and> (\<exists>r. normalize_l2 v = Inr r \<and> hnsw_abs ix' = (hnsw_abs ix)(vid \<mapsto> r))"
    if "hnsw_wf ix \<and> log_contract lg" "hnsw_add fault lg vid v ix = (ix', Inr ())" for ix ix' fault vid v
    using that hnsw_add_cases [where ix = ix and lg = lg and budget = fault and vid = vid and v = v] by (auto simp: inserted_def)
  show "ix' = ix" if "hnsw_wf ix \<and> log_contract lg" "hnsw_add fault lg vid v ix = (ix', Inl e)" for ix ix' fault vid v e
    using that hnsw_add_cases [where ix = ix and lg = lg and budget = fault and vid = vid and v = v] by auto
  show "sorted_wrt is_better rs \<and> distinct (map result_id rs) \<and> length rs \<le> k
      \<and> (\<forall>r\<in>set rs. \<exists>q v. normalize_l2 query = Inr q \<and> hnsw_abs ix (result_id r) = Some v
            \<and> result_score r = raw_dot_product (cfg_kernel (hnsw_config ix)) q v)"
    if wf: "hnsw_wf ix \<and> log_contract lg" and res: "hnsw_search ix query k ctx env = Inr rs" for ix query k ctx env rs
  proof (cases "k = 0")
    case True
    then have "rs = []" using res hnsw_search_zero by blast
    then show ?thesis by simp
  next
    case False
    obtain q where q: "normalize_l2 query = Inr q" using hnsw_search_args(3) [OF res False] by blast
    have "ef_search (hnsw_config ix) \<noteq> 0" using wf by (simp add: hnsw_wf_def config_ok_def)
    from hnsw_search_facts [OF conjunct1 [OF wf] hnsw_search_args(1) [OF res False] this
        hnsw_search_args(2) [OF res False] q, where k = k and env = env]
    show ?thesis using res q by (auto simp: hnsw_search_def)
  qed
  show "\<not> quiet ctx env \<and> is_interruption e"
    if "hnsw_wf ix \<and> log_contract lg" "check_interval ctx \<noteq> 0" "length query = cfg_dimension (hnsw_config ix)"
      "normalize_l2 query = Inr q" "hnsw_search ix query k ctx env = Inl e" for ix ctx query q k env e
  proof -
    have "ef_search (hnsw_config ix) \<noteq> 0" using that(1) by (simp add: hnsw_wf_def config_ok_def)
    from hnsw_search_facts [OF conjunct1 [OF that(1)] that(2) this that(3,4), where k = k and env = env]
    show ?thesis using that(5) by (auto simp: hnsw_search_def is_interruption_def)
  qed
qed

text \<open>The dispatching operations inherit the contract.\<close>

definition index_ok :: "platform \<Rightarrow> vector_index \<Rightarrow> bool" where
  "index_ok pf ix \<longleftrightarrow> index_inv ix \<and> log_contract (std_log pf)"

interpretation any_index: index_contract "index_add pf" "index_search pf" index_abs
  "index_ok pf" index_dimension index_kernel "runs_on (has_avx2 pf)" for pf
proof
  show "index_ok pf ix' \<and> index_dimension ix' = index_dimension ix \<and> index_kernel ix' = index_kernel ix
      \<and> (\<exists>r. normalize_l2 v = Inr r \<and> index_abs ix' = (index_abs ix)(vid \<mapsto> r))"
    if "index_ok pf ix" "index_add pf fault vid v ix = (ix', Inr ())" for ix ix' fault vid v
    using that flat_contract.add_stores hnsw_contract.add_stores [where lg = "std_log pf"]
    by (cases ix) (fastforce simp: index_ok_def split: prod.splits)+
  show "ix' = ix" if "index_ok pf ix" "index_add pf fault vid v ix = (ix', Inl e)" for ix ix' fault vid v e
    using that flat_contract.add_strong hnsw_contract.add_strong [where lg = "std_log pf"]
    by (cases ix) (fastforce simp: index_ok_def split: prod.splits)+
  show "sorted_wrt is_better rs \<and> distinct (map result_id rs) \<and> length rs \<le> k
      \<and> (\<forall>r\<in>set rs. \<exists>q v. normalize_l2 query = Inr q \<and> index_abs ix (result_id r) = Some v
            \<and> result_score r = raw_dot_product (index_kernel ix) q v)"
    if "index_ok pf ix" "runs_on (has_avx2 pf) (index_kernel ix)" "index_search pf ix query k ctx env = Inr rs"
    for ix query k ctx env rs
  proof (cases ix)
    case (Flat fx)
    then show ?thesis
      using that flat_contract.search_results [where ix = fx and ?avx2.0 = "has_avx2 pf" and query = query
          and k = k and ctx = ctx and env = env and rs = rs] by (simp add: index_ok_def)
  next
    case (Hnsw hx)
    then show ?thesis
      using that hnsw_contract.search_results [where ix = hx and ?avx2.0 = "has_avx2 pf" and query = query
          and k = k and ctx = ctx and env = env and rs = rs and lg = "std_log pf"] by (simp add: index_ok_def)
  qed
  show "\<not> quiet ctx env \<and> is_interruption e"
    if "index_ok pf ix" "runs_on (has_avx2 pf) (index_kernel ix)" "check_interval ctx \<noteq> 0"
      "length query = index_dimension ix" "normalize_l2 query = Inr q" "index_search pf ix query k ctx env = Inl e"
    for ix ctx query q k env e
  proof (cases ix)
    case (Flat fx)
    then show ?thesis
      using that flat_contract.search_total [where ix = fx and ?avx2.0 = "has_avx2 pf" and query = query
          and k = k and ctx = ctx and env = env and e = e and q = q] by (simp add: index_ok_def)
  next
    case (Hnsw hx)
    then show ?thesis
      using that hnsw_contract.search_total [where ix = hx and ?avx2.0 = "has_avx2 pf" and query = query
          and k = k and ctx = ctx and env = env and e = e and q = q and lg = "std_log pf"]
      by (simp add: index_ok_def)
  qed
qed

lemma index_search_context:
  "index_search_default pf ix query k env = index_search pf ix query k default_context env"
  by (cases ix) (simp_all add: flat_search_default_def hnsw_search_default_def hnsw_search_ef_default_def hnsw_search_def)

end
