(* ===== verification/Vector_Store.thy ===== *)
theory Vector_Store
  imports Vector_Index
begin

text \<open>
  src/vector_store.cpp: the application layer around one index. A writable store owns its
  index behind a reader-writer lock; a read-only store publishes immutable snapshots. Every
  operation is one atomic step: the exclusive lock, the publication mutex and the atomic
  snapshot pointer serialise them. What a search observes of clock, cancellation and lock is
  in its environment.
\<close>

section \<open>State\<close>

record snapshot_identity =
  snapshot_id :: string
  generation :: u64
  embedding_revision :: string

definition no_identity :: snapshot_identity where
  "no_identity = \<lparr>snapshot_id = [], generation = 0, embedding_revision = []\<rparr>"

text \<open>The pointer to the index may be null.\<close>

record serving_snapshot =
  snap_index :: "vector_index option"
  snap_version :: u64
  snap_identity :: snapshot_identity

record vector_record =
  record_id :: vector_id
  record_values :: "f32 list"

record snapshot_search_result =
  neighbors :: "search_result list"
  snapshot_version :: u64
  result_identity :: snapshot_identity

record vector_store =
  writable_index :: "vector_index option"
  published :: "serving_snapshot option"
  maximum_batch_size :: nat
  read_only :: bool
  successful_queries :: u64
  failed_queries :: u64
  inserted_vectors :: u64

record store_stats =
  stats_index_size :: nat
  stats_dimension :: nat
  stats_successful :: u64
  stats_failed :: u64
  stats_inserted :: u64
  stats_read_only :: bool
  stats_version :: u64
  stats_identity :: snapshot_identity

text \<open>Following a pointer that may be null.\<close>

definition deref :: "'a option \<Rightarrow> 'a result" where
  "deref p = (case p of None \<Rightarrow> Inl Undefined_behaviour | Some x \<Rightarrow> Inr x)"

lemma deref_Inr [simp, result_simps]: "deref p = Inr x \<longleftrightarrow> p = Some x"
  by (cases p) (simp_all add: deref_def)

section \<open>Publication\<close>

definition publish_snapshot ::
  "vector_index option \<Rightarrow> snapshot_identity \<Rightarrow> vector_store \<Rightarrow> vector_store result" where
  "publish_snapshot index identity s =
     (case published s of
        Some previous \<Rightarrow>
          if generation (snap_identity previous) \<noteq> 0 then Inl Snapshot_mismatch
          else if snap_version previous = - 1 then Inl (Length_error ''snapshot version exhausted'')
          else Inr (s\<lparr>published := Some \<lparr>snap_index = index, snap_version = snap_version previous + 1,
            snap_identity = identity\<rparr>\<rparr>)
      | None \<Rightarrow>
          Inr (s\<lparr>published := Some \<lparr>snap_index = index, snap_version = 1, snap_identity = identity\<rparr>\<rparr>))"

definition store_create ::
  "vector_index option \<Rightarrow> nat \<Rightarrow> bool \<Rightarrow> snapshot_identity \<Rightarrow> vector_store result" where
  "store_create index batch ro identity =
     (if index = None then Inl (Invalid_argument ''vector store requires an index'')
      else if batch = 0 then Inl (Invalid_argument ''maximum batch size must be greater than zero'')
      else if (snapshot_id identity = []) \<noteq> (generation identity = 0)
        \<or> (snapshot_id identity = [] \<and> embedding_revision identity \<noteq> [])
        \<or> 256 < length (snapshot_id identity) \<or> 256 < length (embedding_revision identity) then
        Inl (Invalid_argument ''invalid initial snapshot identity'')
      else
        let s = \<lparr>writable_index = index, published = None, maximum_batch_size = batch, read_only = ro,
                 successful_queries = 0, failed_queries = 0, inserted_vectors = 0\<rparr>
        in if ro then publish_snapshot index identity (s\<lparr>writable_index := None\<rparr>)
           else if snapshot_id identity \<noteq> [] \<or> generation identity \<noteq> 0 \<or> embedding_revision identity \<noteq> [] then
             Inl (Invalid_argument ''snapshot identity requires read-only mode'')
           else Inr s)"

definition replace_index :: "vector_index option \<Rightarrow> vector_store \<Rightarrow> vector_store result" where
  "replace_index index s =
     (if \<not> read_only s then Inl (Logic_error ''index replacement requires a read-only vector store'')
      else if index = None then Inl (Invalid_argument ''replacement index must not be null'')
      else publish_snapshot index no_identity s)"

definition serving_snapshot_of :: "vector_store \<Rightarrow> serving_snapshot option result" where
  "serving_snapshot_of s = (if \<not> read_only s then Inl Read_only_store else Inr (published s))"

definition prepare_snapshot ::
  "vector_index option \<Rightarrow> snapshot_identity \<Rightarrow> vector_store \<Rightarrow> serving_snapshot result" where
  "prepare_snapshot index identity s =
     (if \<not> read_only s then Inl Read_only_store
      else if index = None \<or> snapshot_id identity = [] \<or> generation identity = 0
        \<or> 256 < length (snapshot_id identity) \<or> 256 < length (embedding_revision identity) then
        Inl (Invalid_argument ''invalid serving snapshot identity'')
      else
        and_then (deref (published s)) (\<lambda>current.
        if generation identity \<le> generation (snap_identity current) then Inl Snapshot_mismatch
        else if snap_version current = - 1 then Inl (Length_error ''snapshot version exhausted'')
        else Inr \<lparr>snap_index = index, snap_version = snap_version current + 1, snap_identity = identity\<rparr>))"

definition activate_snapshot :: "serving_snapshot option \<Rightarrow> vector_store \<Rightarrow> vector_store result" where
  "activate_snapshot snapshot s =
     (if \<not> read_only s then Inl Read_only_store
      else case snapshot of
        None \<Rightarrow> Inl (Invalid_argument ''invalid serving snapshot'')
      | Some snap \<Rightarrow>
          if snap_index snap = None \<or> snapshot_id (snap_identity snap) = []
            \<or> generation (snap_identity snap) = 0 then
            Inl (Invalid_argument ''invalid serving snapshot'')
          else
            and_then (deref (published s)) (\<lambda>current.
            if generation (snap_identity snap) \<le> generation (snap_identity current)
              \<or> snap_version snap \<noteq> snap_version current + 1 then Inl Snapshot_mismatch
            else Inr (s\<lparr>published := Some snap\<rparr>)))"

section \<open>Insertion\<close>

text \<open>Under the exclusive lock; an exception leaves the counter.\<close>

definition store_insert ::
  "platform \<Rightarrow> nat option \<Rightarrow> vector_id \<Rightarrow> f32 list \<Rightarrow> vector_store \<Rightarrow> vector_store \<times> unit result" where
  "store_insert pf fault vid v s =
     (case writable_index s of
        None \<Rightarrow> (s, Inl Undefined_behaviour)
      | Some ix \<Rightarrow>
          (case index_add pf fault vid v ix of
             (ix', Inl e) \<Rightarrow> (s\<lparr>writable_index := Some ix'\<rparr>, Inl e)
           | (ix', Inr u) \<Rightarrow>
               (s\<lparr>writable_index := Some ix', inserted_vectors := inserted_vectors s + 1\<rparr>, Inr ())))"

definition store_add ::
  "platform \<Rightarrow> nat option \<Rightarrow> vector_id \<Rightarrow> f32 list \<Rightarrow> vector_store \<Rightarrow> vector_store \<times> unit result" where
  "store_add pf fault vid v s =
     (if read_only s then (s, Inl Read_only_store) else store_insert pf fault vid v s)"

fun validate_records :: "nat \<Rightarrow> vector_id list \<Rightarrow> vector_record list \<Rightarrow> unit result" where
  "validate_records dims ids [] = Inr ()"
| "validate_records dims ids (r # rs) =
     (if record_id r \<in> set ids then Inl (Invalid_argument ''batch contains a duplicate vector ID'')
      else if length (record_values r) \<noteq> dims then
        Inl (Invalid_argument ''vector dimension does not match index dimension'')
      else and_then (normalize_l2 (record_values r)) (\<lambda>_. validate_records dims (record_id r # ids) rs))"

definition validate_batch :: "vector_store \<Rightarrow> vector_record list \<Rightarrow> unit result" where
  "validate_batch s vectors =
     (if maximum_batch_size s < length vectors then Inl (Length_error ''batch exceeds maximum batch size'')
      else and_then (deref (writable_index s)) (\<lambda>ix. validate_records (index_dimension ix) [] vectors))"

text \<open>The faults of the insertions, in order.\<close>

fun insert_records ::
  "platform \<Rightarrow> (nat \<Rightarrow> nat option) \<Rightarrow> nat \<Rightarrow> vector_record list \<Rightarrow> vector_store \<Rightarrow> vector_store \<times> unit result" where
  "insert_records pf faults i [] s = (s, Inr ())"
| "insert_records pf faults i (r # rs) s =
     (case store_insert pf (faults i) (record_id r) (record_values r) s of
        (s', Inl e) \<Rightarrow> (s', Inl e)
      | (s', Inr u) \<Rightarrow> insert_records pf faults (Suc i) rs s')"

definition store_add_batch ::
  "platform \<Rightarrow> (nat \<Rightarrow> nat option) \<Rightarrow> vector_record list \<Rightarrow> vector_store \<Rightarrow> vector_store \<times> unit result" where
  "store_add_batch pf faults vectors s =
     (if read_only s then (s, Inl Read_only_store)
      else case validate_batch s vectors of
        Inl e \<Rightarrow> (s, Inl e)
      | Inr u \<Rightarrow> insert_records pf faults 0 vectors s)"

section \<open>Search\<close>

text \<open>What the checks see before, during and after the search of the index, and how many
  attempts at the shared lock time out.\<close>

record store_env =
  env_before :: environment
  env_search :: environment
  env_after :: environment
  lock_timeouts :: nat

fun lock_wait :: "search_context \<Rightarrow> environment \<Rightarrow> nat \<Rightarrow> nat \<Rightarrow> nat result" where
  "lock_wait ctx env 0 n = Inr n"
| "lock_wait ctx env (Suc timeouts) n = and_then (check ctx env n) (lock_wait ctx env timeouts)"

definition guarded_search ::
  "platform \<Rightarrow> vector_store \<Rightarrow> f32 list \<Rightarrow> nat \<Rightarrow> search_context \<Rightarrow> store_env \<Rightarrow> snapshot_search_result result" where
  "guarded_search pf s query k ctx e =
     and_then (validate_context ctx) (\<lambda>_.
     and_then (check ctx (env_before e) 0) (\<lambda>n.
     and_then
       (if read_only s then
          and_then (deref (published s)) (\<lambda>snapshot.
          if expected_snapshot_id ctx \<noteq> [] \<and> expected_snapshot_id ctx \<noteq> snapshot_id (snap_identity snapshot) then
            Inl Snapshot_mismatch
          else
            and_then (deref (snap_index snapshot)) (\<lambda>ix.
            and_then (index_search pf ix query k ctx (env_search e)) (\<lambda>results.
              Inr (results, snap_version snapshot, snap_identity snapshot))))
        else if expected_snapshot_id ctx \<noteq> [] then Inl Snapshot_mismatch
        else
          and_then (if enabled ctx then lock_wait ctx (env_before e) (lock_timeouts e) n else Inr n) (\<lambda>n.
          and_then (check ctx (env_before e) n) (\<lambda>_.
          and_then (deref (writable_index s)) (\<lambda>ix.
          and_then (index_search pf ix query k ctx (env_search e)) (\<lambda>results.
            Inr (results, 0, no_identity)))))) (\<lambda>(results, version, identity).
     and_then (check ctx (env_after e) 0) (\<lambda>_.
       Inr \<lparr>neighbors = results, snapshot_version = version, result_identity = identity\<rparr>))))"

definition store_search ::
  "platform \<Rightarrow> f32 list \<Rightarrow> nat \<Rightarrow> search_context \<Rightarrow> store_env \<Rightarrow> vector_store \<Rightarrow>
   vector_store \<times> snapshot_search_result result" where
  "store_search pf query k ctx e s =
     (case guarded_search pf s query k ctx e of
        Inl error \<Rightarrow> (s\<lparr>failed_queries := failed_queries s + 1\<rparr>, Inl error)
      | Inr r \<Rightarrow> (s\<lparr>successful_queries := successful_queries s + 1\<rparr>, Inr r))"

definition store_search_default ::
  "platform \<Rightarrow> f32 list \<Rightarrow> nat \<Rightarrow> store_env \<Rightarrow> vector_store \<Rightarrow> vector_store \<times> search_result list result" where
  "store_search_default pf query k e s =
     (case store_search pf query k default_context e s of
        (s', r) \<Rightarrow> (s', and_then r (\<lambda>r. Inr (neighbors r))))"

section \<open>Observers\<close>

definition observe :: "vector_store \<Rightarrow> vector_index \<Rightarrow> u64 \<Rightarrow> snapshot_identity \<Rightarrow> store_stats" where
  "observe s ix version identity =
     \<lparr>stats_index_size = index_size ix, stats_dimension = index_dimension ix,
      stats_successful = successful_queries s, stats_failed = failed_queries s,
      stats_inserted = inserted_vectors s, stats_read_only = read_only s,
      stats_version = version, stats_identity = identity\<rparr>"

definition store_stats_of :: "vector_store \<Rightarrow> store_stats result" where
  "store_stats_of s =
     (if read_only s then
        and_then (deref (published s)) (\<lambda>snapshot. and_then (deref (snap_index snapshot)) (\<lambda>ix.
          Inr (observe s ix (snap_version snapshot) (snap_identity snapshot))))
      else and_then (deref (writable_index s)) (\<lambda>ix. Inr (observe s ix 0 no_identity)))"

definition serving_index :: "vector_store \<Rightarrow> vector_index result" where
  "serving_index s =
     (if read_only s then and_then (deref (published s)) (\<lambda>snapshot. deref (snap_index snapshot))
      else deref (writable_index s))"

definition store_dimension :: "vector_store \<Rightarrow> nat result" where
  "store_dimension s = and_then (serving_index s) (\<lambda>ix. Inr (index_dimension ix))"

text \<open>\<open>busy\<close>: a writer holds the lock.\<close>

definition store_try_size :: "bool \<Rightarrow> vector_store \<Rightarrow> nat option result" where
  "store_try_size busy s =
     (if read_only s then and_then (serving_index s) (\<lambda>ix. Inr (Some (index_size ix)))
      else if busy then Inr None
      else and_then (serving_index s) (\<lambda>ix. Inr (Some (index_size ix))))"

end
