(* ===== verification/Vector_Store_Theorems.thy ===== *)
theory Vector_Store_Theorems
  imports Vector_Store
begin

text \<open>
  The properties of the store: its representation invariant over every history of calls,
  batches that are all or a prefix, searches that count once and answer from one snapshot,
  and publication that never loses an update.
\<close>

section \<open>The invariant\<close>

definition snapshot_ok :: "platform \<Rightarrow> serving_snapshot \<Rightarrow> bool" where
  "snapshot_ok pf snap \<longleftrightarrow>
     (\<exists>ix. snap_index snap = Some ix \<and> index_ok pf ix) \<and> snap_version snap \<noteq> 0
   \<and> (snapshot_id (snap_identity snap) = [] \<longleftrightarrow> generation (snap_identity snap) = 0)"

definition store_inv :: "platform \<Rightarrow> vector_store \<Rightarrow> bool" where
  "store_inv pf s \<longleftrightarrow>
     (if read_only s then writable_index s = None \<and> (\<exists>snap. published s = Some snap \<and> snapshot_ok pf snap)
      else published s = None \<and> (\<exists>ix. writable_index s = Some ix \<and> index_ok pf ix))
   \<and> maximum_batch_size s \<noteq> 0"

text \<open>The histories: calls with any arguments, whose new indexes satisfy their invariant and
  whose hand-made snapshots carry a positive version.\<close>

inductive store_step :: "platform \<Rightarrow> vector_store \<Rightarrow> vector_store \<Rightarrow> bool" for pf where
  add: "store_step pf s (fst (store_add pf fault vid v s))"
| add_batch: "store_step pf s (fst (store_add_batch pf faults vectors s))"
| search: "store_step pf s (fst (store_search pf query k ctx e s))"
| replace: "index_ok pf ix \<Longrightarrow> replace_index (Some ix) s = Inr s' \<Longrightarrow> store_step pf s s'"
| activate: "snap_index snap = Some ix \<Longrightarrow> index_ok pf ix \<Longrightarrow> snap_version snap \<noteq> 0 \<Longrightarrow>
    activate_snapshot (Some snap) s = Inr s' \<Longrightarrow> store_step pf s s'"

inductive store_reachable :: "platform \<Rightarrow> vector_store \<Rightarrow> bool" for pf where
  create: "index_ok pf ix \<Longrightarrow> store_create (Some ix) batch ro identity = Inr s \<Longrightarrow> store_reachable pf s"
| step: "store_reachable pf s \<Longrightarrow> store_step pf s s' \<Longrightarrow> store_reachable pf s'"

inductive_cases store_stepE: "store_step pf s s'"

lemma store_create_inv:
  "index_ok pf ix \<Longrightarrow> store_create (Some ix) batch ro identity = Inr s \<Longrightarrow> store_inv pf s"
  by (auto simp: store_create_def publish_snapshot_def store_inv_def snapshot_ok_def Let_def split: if_splits)

text \<open>An insertion into the writable index.\<close>

lemma store_insert_cases:
  assumes "store_inv pf s" "\<not> read_only s"
  obtains ix r ix' where "writable_index s = Some ix" "index_add pf fault vid v ix = (ix', Inr ())"
      "store_insert pf fault vid v s
        = (s\<lparr>writable_index := Some ix', inserted_vectors := inserted_vectors s + 1\<rparr>, Inr ())"
      "normalize_l2 v = Inr r" "index_abs ix' = (index_abs ix)(vid \<mapsto> r)" "index_ok pf ix'"
      "index_dimension ix' = index_dimension ix"
  | e where "store_insert pf fault vid v s = (s, Inl e)"
proof -
  obtain ix where ix: "writable_index s = Some ix" "index_ok pf ix" using assms by (auto simp: store_inv_def)
  show ?thesis
  proof (rule any_index.add_cases [OF ix(2), where fault = fault and vid = vid and v = v])
    fix r ix'
    assume "index_add pf fault vid v ix = (ix', Inr ())" "normalize_l2 v = Inr r" "index_ok pf ix'"
      "index_abs ix' = (index_abs ix)(vid \<mapsto> r)" "index_dimension ix' = index_dimension ix"
    then show ?thesis using that(1) [OF ix(1)] ix(1) by (simp add: store_insert_def)
  next
    fix e assume "index_add pf fault vid v ix = (ix, Inl e)"
    then show ?thesis using that(2) ix(1) by (simp add: store_insert_def)
  qed
qed

lemma store_insert_inv:
  "store_inv pf s \<Longrightarrow> \<not> read_only s \<Longrightarrow> store_inv pf (fst (store_insert pf fault vid v s))
     \<and> \<not> read_only (fst (store_insert pf fault vid v s))"
  by (rule store_insert_cases [where fault = fault and vid = vid and v = v]) (auto simp: store_inv_def)

lemma insert_records_inv:
  "store_inv pf s \<Longrightarrow> \<not> read_only s \<Longrightarrow> store_inv pf (fst (insert_records pf faults i vectors s))"
proof (induction vectors arbitrary: i s)
  case (Cons r rs)
  show ?case
    using store_insert_inv [OF Cons.prems, of "faults i" "record_id r" "record_values r"] Cons.IH
    by (auto split: prod.splits sum.splits)
qed simp

lemma store_step_inv: "store_step pf s s' \<Longrightarrow> store_inv pf s \<Longrightarrow> store_inv pf s'"
proof (induction rule: store_step.induct)
  case (add s fault vid v)
  then show ?case using store_insert_inv [of pf s] by (auto simp: store_add_def)
next
  case (add_batch s faults vectors)
  then show ?case using insert_records_inv [of pf s] by (auto simp: store_add_batch_def split: sum.splits)
next
  case (search s query k ctx e)
  then show ?case by (auto simp: store_search_def store_inv_def split: sum.splits)
next
  case (replace ix s s')
  then show ?case
    by (auto simp: replace_index_def publish_snapshot_def store_inv_def snapshot_ok_def no_identity_def
        eq_neg_iff_add_eq_0 split: if_splits option.splits)
next
  case (activate snap ix s s')
  then show ?case
    by (auto simp: activate_snapshot_def store_inv_def snapshot_ok_def result_simps split: if_splits)
qed

lemma store_reachable_inv: "store_reachable pf s \<Longrightarrow> store_inv pf s"
  by (induction rule: store_reachable.induct) (auto intro: store_create_inv store_step_inv)

section \<open>Publication\<close>

definition store_version :: "vector_store \<Rightarrow> nat" where
  "store_version s = (case published s of None \<Rightarrow> 0 | Some snap \<Rightarrow> unat (snap_version snap))"

text \<open>A publication takes the next version and keeps generations in order; anything else
  leaves the published snapshot as it is.\<close>

definition publishes :: "vector_store \<Rightarrow> vector_store \<Rightarrow> bool" where
  "publishes s s' \<longleftrightarrow> store_version s' = Suc (store_version s)"

lemma suc_version: "(v :: u64) + 1 \<noteq> 0 \<Longrightarrow> unat (v + 1) = Suc (unat v)"
  using unatSuc [of v] by (simp add: add.commute)

lemma replace_index_publishes:
  assumes "replace_index ix s = Inr s'"
  shows "publishes s s' \<and> (\<forall>snap. published s = Some snap \<longrightarrow> generation (snap_identity snap) = 0)"
  using assms suc_version
  by (auto simp: replace_index_def publish_snapshot_def publishes_def store_version_def eq_neg_iff_add_eq_0
      split: if_splits option.splits)

lemma activate_publishes:
  assumes "activate_snapshot (Some snap) s = Inr s'" "snap_version snap \<noteq> 0"
  shows "publishes s s' \<and> published s' = Some snap"
  using assms suc_version
  by (auto simp: activate_snapshot_def publishes_def store_version_def result_simps split: if_splits)

lemma insert_records_published:
  "published (fst (insert_records pf faults i vectors s)) = published s"
proof (induction vectors arbitrary: i s)
  case (Cons r rs)
  have "published (fst (store_insert pf f vid v s)) = published s" for f vid v
    by (auto simp: store_insert_def split: option.splits prod.splits sum.splits)
  then show ?case using Cons.IH by (auto split: prod.splits sum.splits) (metis fst_conv)+
qed simp

lemma store_step_published:
  assumes "store_step pf s s'"
  shows "published s' = published s \<or> publishes s s'"
  using assms
proof cases
  case (add fault vid v)
  then show ?thesis
    by (auto simp: store_add_def store_insert_def split: option.splits prod.splits sum.splits)
next
  case (add_batch faults vectors)
  then show ?thesis by (auto simp: store_add_batch_def insert_records_published split: sum.splits)
next
  case (search query k ctx e)
  then show ?thesis by (auto simp: store_search_def split: sum.splits)
next
  case (replace ix)
  then show ?thesis using replace_index_publishes by blast
next
  case (activate snap ix)
  then show ?thesis using activate_publishes by blast
qed

lemma store_steps_published:
  assumes "(store_step pf)\<^sup>*\<^sup>* s s'"
  shows "published s' = published s \<or> store_version s < store_version s'"
  using assms
proof (induction rule: rtranclp_induct)
  case (step t u)
  then show ?case using store_step_published [OF step.hyps(2)] by (auto simp: publishes_def store_version_def)
qed simp

lemma store_step_read_only: "store_step pf s s' \<Longrightarrow> read_only s' = read_only s"
proof (induction rule: store_step.induct)
  case (add_batch s faults vectors)
  have "read_only (fst (insert_records pf faults i vectors s)) = read_only s" for i
  proof (induction vectors arbitrary: i s)
    case (Cons r rs)
    have "read_only (fst (store_insert pf f vid v s)) = read_only s" for f vid v
      by (auto simp: store_insert_def split: option.splits prod.splits sum.splits)
    then show ?case using Cons.IH by (auto split: prod.splits sum.splits) (metis fst_conv)+
  qed simp
  then show ?case by (auto simp: store_add_batch_def split: sum.splits)
qed (auto simp: store_add_def store_insert_def store_search_def replace_index_def publish_snapshot_def
    activate_snapshot_def result_simps split: option.splits prod.splits sum.splits if_splits)

lemma store_steps_read_only: "(store_step pf)\<^sup>*\<^sup>* s s' \<Longrightarrow> read_only s' = read_only s"
  by (induction rule: rtranclp_induct) (auto dest: store_step_read_only)

section \<open>Batches\<close>

text \<open>The stored vectors of a writable store, and what a list of records adds to them.\<close>

definition store_abs :: "vector_store \<Rightarrow> vector_id \<rightharpoonup> f32 list" where
  "store_abs s = (case writable_index s of None \<Rightarrow> Map.empty | Some ix \<Rightarrow> index_abs ix)"

definition record_vector :: "vector_record \<Rightarrow> f32 list" where
  "record_vector r = (case normalize_l2 (record_values r) of Inl e \<Rightarrow> [] | Inr v \<Rightarrow> v)"

definition add_records :: "(vector_id \<rightharpoonup> f32 list) \<Rightarrow> vector_record list \<Rightarrow> vector_id \<rightharpoonup> f32 list" where
  "add_records m rs = foldl (\<lambda>m r. m(record_id r \<mapsto> record_vector r)) m rs"

definition holds_prefix :: "vector_store \<Rightarrow> vector_record list \<Rightarrow> nat \<Rightarrow> vector_store \<Rightarrow> bool" where
  "holds_prefix s rs n s' \<longleftrightarrow>
     n \<le> length rs \<and> store_abs s' = add_records (store_abs s) (take n rs)
   \<and> s' = s\<lparr>writable_index := writable_index s', inserted_vectors := inserted_vectors s + of_nat n\<rparr>"

lemma holds_prefix_refl: "holds_prefix s rs 0 s"
  by (simp add: holds_prefix_def add_records_def)

lemma holds_prefix_Cons:
  assumes "store_abs t = (store_abs s)(record_id r \<mapsto> record_vector r)"
    "t = s\<lparr>writable_index := writable_index t, inserted_vectors := inserted_vectors s + 1\<rparr>"
    "holds_prefix t rs n s'"
  shows "holds_prefix s (r # rs) (Suc n) s'"
proof -
  have "s' = s\<lparr>writable_index := writable_index s', inserted_vectors := inserted_vectors s + of_nat (Suc n)\<rparr>"
    using assms(2,3) unfolding holds_prefix_def by (cases s; cases t; cases s') (simp add: ac_simps)
  then show ?thesis using assms(1,3) by (simp add: holds_prefix_def add_records_def)
qed

lemma insert_records_prefix:
  assumes "store_inv pf s" "\<not> read_only s"
  shows "\<exists>n. holds_prefix s rs n (fst (insert_records pf faults i rs s))
    \<and> (case snd (insert_records pf faults i rs s) of Inl e \<Rightarrow> n < length rs | Inr u \<Rightarrow> n = length rs)"
  using assms
proof (induction rs arbitrary: i s)
  case Nil
  then show ?case using holds_prefix_refl by (intro exI [of _ 0]) simp
next
  case (Cons r rs)
  let ?ins = "store_insert pf (faults i) (record_id r) (record_values r) s"
  show ?case
  proof (rule store_insert_cases [OF Cons.prems, where fault = "faults i" and vid = "record_id r" and v = "record_values r"])
    fix ix v ix'
    let ?t = "s\<lparr>writable_index := Some ix', inserted_vectors := inserted_vectors s + 1\<rparr>"
    assume A: "writable_index s = Some ix" "?ins = (?t, Inr ())" "normalize_l2 (record_values r) = Inr v"
      "index_abs ix' = (index_abs ix)(record_id r \<mapsto> v)"
    have t: "store_inv pf ?t" "\<not> read_only ?t" using store_insert_inv [OF Cons.prems] A(2) by (metis fst_conv)+
    obtain n where n: "holds_prefix ?t rs n (fst (insert_records pf faults (Suc i) rs ?t))"
      "case snd (insert_records pf faults (Suc i) rs ?t) of Inl e \<Rightarrow> n < length rs | Inr u \<Rightarrow> n = length rs"
      using Cons.IH [OF t] by blast
    have "store_abs ?t = (store_abs s)(record_id r \<mapsto> record_vector r)"
      using A by (simp add: store_abs_def record_vector_def)
    from holds_prefix_Cons [OF this _ n(1)] n(2) A(2) show ?thesis
      by (intro exI [of _ "Suc n"]) (simp split: sum.splits)
  next
    fix e assume "?ins = (s, Inl e)"
    then show ?thesis using holds_prefix_refl by (intro exI [of _ 0]) simp
  qed
qed

section \<open>Searches\<close>

lemma guarded_search_facts:
  assumes "store_inv pf s" "\<And>ix. serving_index s = Inr ix \<Longrightarrow> runs_on (has_avx2 pf) (index_kernel ix)"
    and res: "guarded_search pf s query k ctx e = Inr r"
  shows "\<exists>ix. serving_index s = Inr ix \<and> sorted_wrt is_better (neighbors r) \<and> length (neighbors r) \<le> k
    \<and> (\<forall>x\<in>set (neighbors r). \<exists>q v. normalize_l2 query = Inr q \<and> index_abs ix (result_id x) = Some v
         \<and> result_score x = raw_dot_product (index_kernel ix) q v)"
    "if read_only s then \<exists>snap. published s = Some snap \<and> snapshot_version r = snap_version snap
        \<and> result_identity r = snap_identity snap
        \<and> expected_snapshot_id ctx \<in> {[], snapshot_id (snap_identity snap)}
     else snapshot_version r = 0 \<and> result_identity r = no_identity \<and> expected_snapshot_id ctx = []"
proof -
  obtain ix where ix: "serving_index s = Inr ix" "index_ok pf ix"
    using assms(1) by (auto simp: store_inv_def serving_index_def snapshot_ok_def deref_def split: if_splits)
  have "index_search pf ix query k ctx (env_search e) = Inr (neighbors r)"
    using res ix(1) by (auto simp: guarded_search_def serving_index_def result_simps split: if_splits)
  from any_index.search_results [OF ix(2) assms(2) [OF ix(1)] this] ix(1)
  show "\<exists>ix. serving_index s = Inr ix \<and> sorted_wrt is_better (neighbors r) \<and> length (neighbors r) \<le> k
    \<and> (\<forall>x\<in>set (neighbors r). \<exists>q v. normalize_l2 query = Inr q \<and> index_abs ix (result_id x) = Some v
         \<and> result_score x = raw_dot_product (index_kernel ix) q v)" by blast
  show "if read_only s then \<exists>snap. published s = Some snap \<and> snapshot_version r = snap_version snap
        \<and> result_identity r = snap_identity snap
        \<and> expected_snapshot_id ctx \<in> {[], snapshot_id (snap_identity snap)}
     else snapshot_version r = 0 \<and> result_identity r = no_identity \<and> expected_snapshot_id ctx = []"
    using res by (auto simp: guarded_search_def result_simps split: if_splits)
qed

lemma quiet_lock_wait: "quiet ctx env \<Longrightarrow> \<exists>n'. lock_wait ctx env timeouts n = Inr n'"
  by (induction timeouts arbitrary: n) simp_all

section \<open>Theorems\<close>

text \<open>C17: every store that calls of its operations can lead to, failed ones included, is
  consistent: exactly the ownership path of its mode is populated, its index satisfies the
  invariant of its class, a published snapshot has a positive version, and it has a snapshot
  ID exactly when it has a generation.\<close>

theorem store_reachable_invariant: "store_reachable pf s \<Longrightarrow> store_inv pf s"
  by (rule store_reachable_inv)

definition sample_platform :: platform where
  "sample_platform = \<lparr>has_avx2 = False, std_log = coarse_log\<rparr>"

definition sample_env :: store_env where
  "sample_env = \<lparr>env_before = \<lambda>_. (NoReason, 0), env_search = \<lambda>_. (NoReason, 0),
     env_after = \<lambda>_. (NoReason, 0), lock_timeouts = 0\<rparr>"

lemma check_interval_default [simp]: "check_interval default_context = 64"
  by (simp add: default_context_def)

lemma flat_sample_ok: "index_ok sample_platform (Flat flat_sample)"
  using flat_sample_inv coarse_log_contract by (simp add: index_ok_def sample_platform_def)

definition sample_store :: vector_store where
  "sample_store =
     \<lparr>writable_index = Some (Flat flat_sample), published = None, maximum_batch_size = 10, read_only = False,
      successful_queries = 0, failed_queries = 0, inserted_vectors = 0\<rparr>"

definition sample_snapshot :: serving_snapshot where
  "sample_snapshot = \<lparr>snap_index = Some (Flat flat_sample), snap_version = 1, snap_identity = no_identity\<rparr>"

definition sample_serving :: vector_store where
  "sample_serving =
     \<lparr>writable_index = None, published = Some sample_snapshot, maximum_batch_size = 10, read_only = True,
      successful_queries = 0, failed_queries = 0, inserted_vectors = 0\<rparr>"

lemma sample_store_create: "store_create (Some (Flat flat_sample)) 10 False no_identity = Inr sample_store"
  by (simp add: store_create_def sample_store_def no_identity_def)

lemma sample_serving_create: "store_create (Some (Flat flat_sample)) 10 True no_identity = Inr sample_serving"
  by (simp add: store_create_def sample_serving_def no_identity_def publish_snapshot_def sample_snapshot_def Let_def)

theorem store_reachable_invariant_witness:
  "store_inv sample_platform (fst (store_add sample_platform None 3 [0xC0000000] sample_store))"
  by (rule store_reachable_invariant [OF store_reachable.step [OF store_reachable.create
        [OF flat_sample_ok sample_store_create] store_step.add]])

text \<open>C16: publication by optimistic concurrency never loses an update. A snapshot prepared
  against one state of a read-only store can be activated in a later state, after any calls of
  other threads, exactly when no publication has happened in between; otherwise activation
  throws and changes nothing.\<close>

theorem store_activation_exact:
  assumes "store_inv pf s" "prepare_snapshot (Some ix) identity s = Inr snap" "(store_step pf)\<^sup>*\<^sup>* s s'"
  shows "activate_snapshot (Some snap) s' =
    (if published s' = published s then Inr (s'\<lparr>published := Some snap\<rparr>) else Inl Snapshot_mismatch)"
proof -
  obtain cur where cur: "read_only s" "published s = Some cur" "generation (snap_identity cur) < generation identity"
    "snap_version cur \<noteq> - 1" "snapshot_id identity \<noteq> []" "generation identity \<noteq> 0"
    and snap: "snap = \<lparr>snap_index = Some ix, snap_version = snap_version cur + 1, snap_identity = identity\<rparr>"
    using assms(2) by (auto simp: prepare_snapshot_def result_simps not_le split: if_splits)
  have ro: "read_only s'" using store_steps_read_only [OF assms(3)] cur(1) by simp
  show ?thesis
  proof (cases "published s' = published s")
    case True
    then show ?thesis using ro cur by (simp add: activate_snapshot_def snap not_le deref_def)
  next
    case False
    then have less: "store_version s < store_version s'" using store_steps_published [OF assms(3)] by blast
    then obtain cur' where cur': "published s' = Some cur'" by (auto simp: store_version_def split: option.splits)
    then have "snap_version cur' \<noteq> snap_version cur" using less cur(2) by (auto simp: store_version_def)
    then show ?thesis using False ro cur cur' by (simp add: activate_snapshot_def snap deref_def)
  qed
qed

theorem store_activation_exact_witness:
  "\<exists>snap. prepare_snapshot (Some (Flat flat_sample)) \<lparr>snapshot_id = ''v2'', generation = 2, embedding_revision = []\<rparr>
       sample_serving = Inr snap
     \<and> activate_snapshot (Some snap) (fst (store_search sample_platform [0xC0000000] 1 default_context sample_env sample_serving))
       \<noteq> Inl Snapshot_mismatch
     \<and> (\<exists>s'. replace_index (Some (Flat flat_sample)) sample_serving = Inr s'
          \<and> activate_snapshot (Some snap) s' = Inl Snapshot_mismatch)"
proof -
  let ?idn = "\<lparr>snapshot_id = ''v2'', generation = 2, embedding_revision = []\<rparr>"
  let ?search = "fst (store_search sample_platform [0xC0000000] 1 default_context sample_env sample_serving)"
  have inv: "store_inv sample_platform sample_serving" by (rule store_create_inv [OF flat_sample_ok sample_serving_create])
  obtain snap where snap: "prepare_snapshot (Some (Flat flat_sample)) ?idn sample_serving = Inr snap"
    by (simp add: prepare_snapshot_def sample_serving_def sample_snapshot_def no_identity_def deref_def)
  obtain s' where s': "replace_index (Some (Flat flat_sample)) sample_serving = Inr s'"
    by (simp add: replace_index_def publish_snapshot_def sample_serving_def sample_snapshot_def no_identity_def)
  have "published ?search = published sample_serving" by (auto simp: store_search_def split: sum.splits)
  moreover have "(store_step sample_platform)\<^sup>*\<^sup>* sample_serving ?search" by (intro r_into_rtranclp store_step.search)
  ultimately have "activate_snapshot (Some snap) ?search \<noteq> Inl Snapshot_mismatch"
    using store_activation_exact [OF inv snap] by simp
  moreover have "published s' \<noteq> published sample_serving"
    using replace_index_publishes [OF s'] by (auto simp: publishes_def store_version_def)
  then have "activate_snapshot (Some snap) s' = Inl Snapshot_mismatch"
    using store_activation_exact [OF inv snap r_into_rtranclp [where r = "store_step sample_platform", OF store_step.replace [OF flat_sample_ok s']]] by simp
  ultimately show ?thesis using snap s' by blast
qed

text \<open>A batch is stored as a prefix. Whatever fails, the records stored are the first so
  many of the batch, each under its ID and normalised, the counter of inserted vectors grew by
  their number, and nothing else changed; all are stored exactly when the call succeeds, and
  none if the store is read-only or the batch fails validation.\<close>

theorem store_add_batch_prefix:
  assumes "store_inv pf s"
  shows "\<exists>n. holds_prefix s vectors n (fst (store_add_batch pf faults vectors s))
    \<and> (snd (store_add_batch pf faults vectors s) = Inr () \<longrightarrow> n = length vectors)
    \<and> (snd (store_add_batch pf faults vectors s) \<noteq> Inr () \<longrightarrow> n < length vectors \<or> n = 0)
    \<and> (read_only s \<or> validate_batch s vectors \<noteq> Inr () \<longrightarrow> n = 0)"
proof (cases "read_only s \<or> validate_batch s vectors \<noteq> Inr ()")
  case True
  then have "fst (store_add_batch pf faults vectors s) = s" "snd (store_add_batch pf faults vectors s) \<noteq> Inr ()"
    by (auto simp: store_add_batch_def split: sum.splits)
  then show ?thesis using holds_prefix_refl by (intro exI [of _ 0]) simp
next
  case False
  then have eq: "store_add_batch pf faults vectors s = insert_records pf faults 0 vectors s"
    by (simp add: store_add_batch_def)
  show ?thesis
    using insert_records_prefix [OF assms, of vectors faults 0] False unfolding eq
    by (cases "snd (insert_records pf faults 0 vectors s)") auto
qed

theorem store_add_batch_prefix_witness:
  "store_abs (fst (store_add_batch sample_platform (\<lambda>_. None)
      [\<lparr>record_id = 3, record_values = [0xC0000000]\<rparr>, \<lparr>record_id = 3, record_values = [0x3F800000]\<rparr>] sample_store))
    = flat_abs flat_sample"
proof -
  let ?rs = "[\<lparr>record_id = 3, record_values = [0xC0000000]\<rparr>, \<lparr>record_id = 3, record_values = [0x3F800000]\<rparr>]"
  have inv: "store_inv sample_platform sample_store" by (rule store_create_inv [OF flat_sample_ok sample_store_create])
  have "validate_batch sample_store ?rs \<noteq> Inr ()"
    by (simp add: validate_batch_def sample_store_def deref_def normalize_l2_minus_two)
  then have "holds_prefix sample_store ?rs 0 (fst (store_add_batch sample_platform (\<lambda>_. None) ?rs sample_store))"
    using store_add_batch_prefix [OF inv, of ?rs "\<lambda>_. None"] by auto
  then show ?thesis by (simp add: holds_prefix_def add_records_def store_abs_def sample_store_def)
qed

text \<open>What a search of the store returns and counts. It changes nothing but one counter:
  successes or failures go up by one. A result consists of ranked live vectors of the one index
  served at that moment with their true scores, and carries the version and identity of exactly
  that snapshot; if the caller expected a snapshot ID, it is the one that answered.\<close>

theorem store_search_accounted:
  assumes "store_inv pf s" "\<And>ix. serving_index s = Inr ix \<Longrightarrow> runs_on (has_avx2 pf) (index_kernel ix)"
  shows "case store_search pf query k ctx e s of
      (s', Inl err) \<Rightarrow> s' = s\<lparr>failed_queries := failed_queries s + 1\<rparr>
    | (s', Inr r) \<Rightarrow> s' = s\<lparr>successful_queries := successful_queries s + 1\<rparr>
        \<and> (\<exists>ix. serving_index s = Inr ix \<and> sorted_wrt is_better (neighbors r) \<and> length (neighbors r) \<le> k
            \<and> (\<forall>x\<in>set (neighbors r). \<exists>q v. normalize_l2 query = Inr q \<and> index_abs ix (result_id x) = Some v
                 \<and> result_score x = raw_dot_product (index_kernel ix) q v))
        \<and> (if read_only s then \<exists>snap. published s = Some snap \<and> snapshot_version r = snap_version snap
              \<and> result_identity r = snap_identity snap
              \<and> expected_snapshot_id ctx \<in> {[], snapshot_id (snap_identity snap)}
           else snapshot_version r = 0 \<and> result_identity r = no_identity \<and> expected_snapshot_id ctx = [])"
proof (cases "guarded_search pf s query k ctx e")
  case (Inr r)
  show ?thesis
    unfolding store_search_def Inr using guarded_search_facts [OF assms Inr] by simp
qed (simp add: store_search_def)

theorem store_search_accounted_witness:
  "\<exists>r. store_search sample_platform [0xC0000000] 1 default_context sample_env sample_store
       = (sample_store\<lparr>successful_queries := 1\<rparr>, Inr r) \<and> length (neighbors r) \<le> 1 \<and> snapshot_version r = 0"
proof -
  have inv: "store_inv sample_platform sample_store" by (rule store_create_inv [OF flat_sample_ok sample_store_create])
  have runs: "runs_on (has_avx2 sample_platform) (index_kernel ix)" if "serving_index sample_store = Inr ix" for ix
    using that by (auto simp: serving_index_def sample_store_def runs_on_def deref_def)
  have "\<exists>rs. index_search sample_platform (Flat flat_sample) [0xC0000000] 1 default_context (env_search sample_env) = Inr rs"
    using flat_contract.search_valid [OF flat_sample_inv _ _ _ normalize_l2_minus_two default_context_quiet,
        where ?avx2.0 = False and k = 1]
    by (simp add: runs_on_def sample_platform_def)
  then obtain r where "guarded_search sample_platform sample_store [0xC0000000] 1 default_context sample_env = Inr r"
    by (auto simp: guarded_search_def sample_store_def default_context_def sample_env_def check_def
        validate_context_def enabled_def deref_def clock_max_def)
  then show ?thesis
    using store_search_accounted [OF inv runs, where query = "[0xC0000000]" and k = 1 and ctx = default_context and e = sample_env]
    by (auto simp: store_search_def sample_store_def)
qed

end
