(* ===== verification/Search_Executor.thy ===== *)
theory Search_Executor
  imports Vector_Store_Theorems
begin

text \<open>
  src/search_executor.cpp: the bounded FIFO scheduler of searches. The state holds what the
  queue mutex guards, the cancellation objects and promises of the admitted tasks, and of each
  worker thread where in its loop it stands. Every critical section, and every action of a
  worker between two of them, is one atomic operation; their interleavings are the step
  relation. A task's ticket is its number in order of admission: it names the promise and
  the cancellation object of the task. Clock ticks are nanoseconds.
\<close>

section \<open>State\<close>

record executor_config =
  workers :: u64
  queue_capacity :: u64
  task_check_interval :: u64

record search_task =
  task_query :: "f32 list"
  task_k :: nat
  task_context :: search_context
  enqueued :: int
  ticket :: nat

record search_outcome =
  outcome_result :: snapshot_search_result
  queue_us :: u64
  execution_us :: u64
  outcome_error :: "cpp_error option"

record executor_stats =
  stats_workers :: u64
  stats_queue_capacity :: u64
  queued :: u64
  running :: u64
  peak_queued :: u64
  peak_running :: u64
  admitted :: u64
  rejected :: u64
  started :: u64
  completed :: u64
  succeeded :: u64
  failed :: u64
  cancelled :: u64
  expired :: u64
  queue_us_total :: u64
  execution_us_total :: u64

text \<open>
  Where the loop of a worker stands: at the wait for work; with a task just dequeued; after a
  passed check; in the search (both with the time of the start and the waiting time); with an
  outcome to deliver; returned.
\<close>

datatype worker =
    Waiting
  | Taken search_task
  | Checked search_task int u64
  | Searching search_task int u64
  | Finishing search_task search_outcome
  | Exited

record executor =
  exec_store :: vector_store
  exec_config :: executor_config
  stopping :: bool
  queue :: "search_task list"
  active :: "nat option list"
  worker_states :: "worker list"
  stats :: executor_stats
  reasons :: "search_stop_reason list"
  promises :: "search_outcome option list"

definition microseconds :: "int \<Rightarrow> u64" where
  "microseconds d = word_of_int (sgn d * (\<bar>d\<bar> div 1000))"

definition no_result :: snapshot_search_result where
  "no_result = \<lparr>neighbors = [], snapshot_version = 0, result_identity = no_identity\<rparr>"

definition initial_stats :: "executor_config \<Rightarrow> executor_stats" where
  "initial_stats config =
     \<lparr>stats_workers = workers config, stats_queue_capacity = queue_capacity config, queued = 0,
      running = 0, peak_queued = 0, peak_running = 0, admitted = 0, rejected = 0, started = 0,
      completed = 0, succeeded = 0, failed = 0, cancelled = 0, expired = 0, queue_us_total = 0,
      execution_us_total = 0\<rparr>"

text \<open>The constructor; \<open>threads\<close> is how many threads the system can still create.\<close>

definition executor_create :: "nat \<Rightarrow> vector_store option \<Rightarrow> executor_config \<Rightarrow> executor result" where
  "executor_create threads st config =
     (case st of
        None \<Rightarrow> Inl (Invalid_argument ''search executor requires a store and positive limits'')
      | Some s \<Rightarrow>
          if workers config = 0 \<or> queue_capacity config = 0 \<or> task_check_interval config = 0 then
            Inl (Invalid_argument ''search executor requires a store and positive limits'')
          else if threads < unat (workers config) then Inl (Runtime_error ''thread creation failed'')
          else Inr \<lparr>exec_store = s, exec_config = config, stopping = False, queue = [],
            active = replicate (unat (workers config)) None,
            worker_states = replicate (unat (workers config)) Waiting,
            stats = initial_stats config, reasons = [], promises = []\<rparr>)"

section \<open>Admission\<close>

definition executor_submit ::
  "f32 list \<Rightarrow> nat \<Rightarrow> int \<Rightarrow> string \<Rightarrow> int \<Rightarrow> executor \<Rightarrow> executor \<times> nat result" where
  "executor_submit query k until expected now ex =
     (if stopping ex \<or> unat (queue_capacity (exec_config ex)) \<le> length (queue ex) then
        (ex\<lparr>stats := (stats ex)\<lparr>rejected := rejected (stats ex) + 1\<rparr>\<rparr>, Inl (Search_rejected (stopping ex)))
      else
        let t = length (promises ex);
            task = \<lparr>task_query = query, task_k = k,
              task_context = \<lparr>deadline = until, cancellation = Some t,
                check_interval = task_check_interval (exec_config ex), expected_snapshot_id = expected\<rparr>,
              enqueued = now, ticket = t\<rparr>;
            q = queue ex @ [task];
            n = of_nat (length q)
        in (ex\<lparr>queue := q, reasons := reasons ex @ [NoReason], promises := promises ex @ [None],
              stats := (stats ex)\<lparr>admitted := admitted (stats ex) + 1, queued := n,
                peak_queued := max (peak_queued (stats ex)) n\<rparr>\<rparr>, Inr t))"

section \<open>Completion\<close>

definition count_outcome :: "search_outcome \<Rightarrow> executor_stats \<Rightarrow> executor_stats" where
  "count_outcome outcome st =
     (let st = st\<lparr>completed := completed st + 1, queue_us_total := queue_us_total st + queue_us outcome,
            execution_us_total := execution_us_total st + execution_us outcome\<rparr>
      in case outcome_error outcome of
           None \<Rightarrow> st\<lparr>succeeded := succeeded st + 1\<rparr>
         | Some (Search_interrupted DeadlineExceeded) \<Rightarrow> st\<lparr>expired := expired st + 1\<rparr>
         | Some (Search_interrupted _) \<Rightarrow> st\<lparr>cancelled := cancelled st + 1\<rparr>
         | Some _ \<Rightarrow> st\<lparr>failed := failed st + 1\<rparr>)"

text \<open>A promise takes one value; a second one raises.\<close>

definition finish_locked :: "search_task \<Rightarrow> search_outcome \<Rightarrow> executor \<Rightarrow> executor result" where
  "finish_locked task outcome ex =
     and_then (read_at (promises ex) (ticket task)) (\<lambda>p.
     if p \<noteq> None then Inl (Logic_error ''promise already satisfied'')
     else Inr (ex\<lparr>stats := count_outcome outcome (stats ex),
                  promises := (promises ex)[ticket task := Some outcome]\<rparr>))"

text \<open>\<open>request()\<close> on the cancellation object of a ticket.\<close>

definition request_stop :: "nat \<Rightarrow> search_stop_reason \<Rightarrow> executor \<Rightarrow> executor" where
  "request_stop t reason ex = ex\<lparr>reasons := (reasons ex)[t := cancellation_request reason (reasons ex ! t)]\<rparr>"

definition task_check :: "executor \<Rightarrow> search_task \<Rightarrow> int \<Rightarrow> unit result" where
  "task_check ex task now =
     and_then (check (task_context task) (\<lambda>_. (reasons ex ! ticket task, now)) 0) (\<lambda>_. Inr ())"

definition error_of :: "'a result \<Rightarrow> cpp_error option" where
  "error_of r = (case r of Inl e \<Rightarrow> Some e | Inr _ \<Rightarrow> None)"

definition cancel_waiting_locked :: "search_task \<Rightarrow> int \<Rightarrow> int \<Rightarrow> executor \<Rightarrow> executor result" where
  "cancel_waiting_locked task now later ex =
     finish_locked task \<lparr>outcome_result = no_result, queue_us = microseconds (now - enqueued task),
       execution_us = 0, outcome_error = error_of (task_check ex task later)\<rparr> ex"

text \<open>The waiting task with a ticket leaves the queue; the rest keeps its order.\<close>

fun take_ticket :: "nat \<Rightarrow> search_task list \<Rightarrow> (search_task \<times> search_task list) option" where
  "take_ticket t [] = None"
| "take_ticket t (x # xs) =
     (if cancellation (task_context x) = Some t then Some (x, xs)
      else case take_ticket t xs of None \<Rightarrow> None | Some (y, ys) \<Rightarrow> Some (y, x # ys))"

definition set_queue :: "search_task list \<Rightarrow> executor \<Rightarrow> executor" where
  "set_queue q ex = ex\<lparr>queue := q, stats := (stats ex)\<lparr>queued := of_nat (length q)\<rparr>\<rparr>"

definition remove_waiting :: "nat \<Rightarrow> int \<Rightarrow> int \<Rightarrow> executor \<Rightarrow> executor result" where
  "remove_waiting t now later ex =
     (case take_ticket t (queue ex) of
        None \<Rightarrow> Inr ex
      | Some (task, rest) \<Rightarrow> cancel_waiting_locked task now later (set_queue rest ex))"

text \<open>\<open>cancel\<close>: the request needs no lock, the removal is a critical section.\<close>

definition executor_cancel ::
  "nat option \<Rightarrow> search_stop_reason \<Rightarrow> int \<Rightarrow> int \<Rightarrow> executor \<Rightarrow> executor result" where
  "executor_cancel handle reason now later ex =
     (case handle of
        None \<Rightarrow> Inl (Invalid_argument ''task cancellation requires a state and stop reason'')
      | Some t \<Rightarrow>
          if reason = NoReason then Inl (Invalid_argument ''task cancellation requires a state and stop reason'')
          else remove_waiting t now later (request_stop t reason ex))"

section \<open>Stopping\<close>

fun request_active :: "nat option list \<Rightarrow> executor \<Rightarrow> executor" where
  "request_active [] ex = ex"
| "request_active (None # cs) ex = request_active cs ex"
| "request_active (Some t # cs) ex = request_active cs (request_stop t Shutdown ex)"

text \<open>\<open>clock n\<close> is the \<open>n\<close>-th reading of the clock.\<close>

fun stop_queue :: "(nat \<Rightarrow> int) \<Rightarrow> nat \<Rightarrow> search_task list \<Rightarrow> executor \<Rightarrow> executor result" where
  "stop_queue clock n [] ex = Inr ex"
| "stop_queue clock n (task # rest) ex =
     and_then (cancel_waiting_locked task (clock n) (clock (Suc n))
       (request_stop (ticket task) Shutdown (set_queue rest ex))) (stop_queue clock (n + 2) rest)"

definition executor_stop :: "(nat \<Rightarrow> int) \<Rightarrow> executor \<Rightarrow> executor result" where
  "executor_stop clock ex =
     (if stopping ex then Inr ex
      else stop_queue clock 0 (queue ex) (request_active (active ex) (ex\<lparr>stopping := True\<rparr>)))"

text \<open>\<open>shutdown\<close> has stopped the executor and returns when it has joined every worker.\<close>

definition shutdown_returns :: "executor \<Rightarrow> bool" where
  "shutdown_returns ex \<longleftrightarrow> stopping ex \<and> (\<forall>w\<in>set (worker_states ex). w = Exited)"

section \<open>The loop of a worker\<close>

definition set_worker :: "nat \<Rightarrow> worker \<Rightarrow> executor \<Rightarrow> executor" where
  "set_worker i w ex = ex\<lparr>worker_states := (worker_states ex)[i := w]\<rparr>"

text \<open>The critical section that dequeues; \<open>None\<close> while the worker has to wait.\<close>

definition worker_take :: "nat \<Rightarrow> executor \<Rightarrow> executor option" where
  "worker_take i ex =
     (case queue ex of
        [] \<Rightarrow> if stopping ex then Some (set_worker i Exited ex) else None
      | task # rest \<Rightarrow>
          let ex = set_queue rest ex; r = running (stats ex) + 1
          in Some (set_worker i (Taken task)
               (ex\<lparr>active := (active ex)[i := cancellation (task_context task)],
                   stats := (stats ex)\<lparr>running := r, peak_running := max (peak_running (stats ex)) r\<rparr>\<rparr>)))"

definition worker_check :: "nat \<Rightarrow> search_task \<Rightarrow> int \<Rightarrow> int \<Rightarrow> executor \<Rightarrow> executor" where
  "worker_check i task now later ex =
     (let waited = microseconds (now - enqueued task)
      in case task_check ex task later of
           Inl e \<Rightarrow> set_worker i (Finishing task \<lparr>outcome_result = no_result, queue_us = waited,
                      execution_us = 0, outcome_error = Some e\<rparr>) ex
         | Inr u \<Rightarrow> set_worker i (Checked task now waited) ex)"

definition worker_start :: "nat \<Rightarrow> search_task \<Rightarrow> int \<Rightarrow> u64 \<Rightarrow> executor \<Rightarrow> executor" where
  "worker_start i task begun waited ex =
     set_worker i (Searching task begun waited) (ex\<lparr>stats := (stats ex)\<lparr>started := started (stats ex) + 1\<rparr>\<rparr>)"

definition worker_search ::
  "platform \<Rightarrow> nat \<Rightarrow> search_task \<Rightarrow> int \<Rightarrow> u64 \<Rightarrow> store_env \<Rightarrow> int \<Rightarrow> executor \<Rightarrow> executor" where
  "worker_search pf i task begun waited e now ex =
     (case store_search pf (task_query task) (task_k task) (task_context task) e (exec_store ex) of
        (st, r) \<Rightarrow>
          set_worker i (Finishing task
            \<lparr>outcome_result = (case r of Inl _ \<Rightarrow> no_result | Inr result \<Rightarrow> result), queue_us = waited,
             execution_us = microseconds (now - begun), outcome_error = error_of r\<rparr>)
            (ex\<lparr>exec_store := st\<rparr>))"

definition worker_finish :: "nat \<Rightarrow> search_task \<Rightarrow> search_outcome \<Rightarrow> executor \<Rightarrow> executor result" where
  "worker_finish i task outcome ex =
     and_then (finish_locked task outcome
       (ex\<lparr>active := (active ex)[i := None], stats := (stats ex)\<lparr>running := running (stats ex) - 1\<rparr>\<rparr>))
       (\<lambda>ex. Inr (set_worker i Waiting ex))"

text \<open>One action of worker \<open>i\<close>.\<close>

inductive worker_step :: "platform \<Rightarrow> executor \<Rightarrow> executor \<Rightarrow> bool" for pf where
  take: "i < length (worker_states ex) \<Longrightarrow> worker_states ex ! i = Waiting \<Longrightarrow>
    worker_take i ex = Some ex' \<Longrightarrow> worker_step pf ex ex'"
| check: "i < length (worker_states ex) \<Longrightarrow> worker_states ex ! i = Taken task \<Longrightarrow>
    worker_step pf ex (worker_check i task now later ex)"
| start: "i < length (worker_states ex) \<Longrightarrow> worker_states ex ! i = Checked task begun waited \<Longrightarrow>
    worker_step pf ex (worker_start i task begun waited ex)"
| search: "i < length (worker_states ex) \<Longrightarrow> worker_states ex ! i = Searching task begun waited \<Longrightarrow>
    worker_step pf ex (worker_search pf i task begun waited e now ex)"
| finish: "i < length (worker_states ex) \<Longrightarrow> worker_states ex ! i = Finishing task outcome \<Longrightarrow>
    worker_finish i task outcome ex = Inr ex' \<Longrightarrow> worker_step pf ex ex'"

text \<open>The clients of the executor, and whoever else uses its store.\<close>

inductive client_step :: "platform \<Rightarrow> executor \<Rightarrow> executor \<Rightarrow> bool" for pf where
  submit: "client_step pf ex (fst (executor_submit query k until expected now ex))"
| request: "reason \<noteq> NoReason \<Longrightarrow> client_step pf ex (request_stop t reason ex)"
| remove: "reasons ex ! t \<noteq> NoReason \<Longrightarrow> remove_waiting t now later ex = Inr ex' \<Longrightarrow> client_step pf ex ex'"
| stop: "executor_stop clock ex = Inr ex' \<Longrightarrow> client_step pf ex ex'"
| store: "store_step pf (exec_store ex) st \<Longrightarrow> client_step pf ex (ex\<lparr>exec_store := st\<rparr>)"

inductive executor_reachable :: "platform \<Rightarrow> executor \<Rightarrow> bool" for pf where
  create: "store_inv pf st \<Longrightarrow> executor_create threads (Some st) config = Inr ex \<Longrightarrow> executor_reachable pf ex"
| worker: "executor_reachable pf ex \<Longrightarrow> worker_step pf ex ex' \<Longrightarrow> executor_reachable pf ex'"
| client: "executor_reachable pf ex \<Longrightarrow> client_step pf ex ex' \<Longrightarrow> executor_reachable pf ex'"

end
