(* ===== verification/Search_Executor_Theorems.thy ===== *)
theory Search_Executor_Theorems
  imports Search_Executor
begin

text \<open>
  The properties of the executor over every interleaving of its workers, its clients and the
  other users of its store: each admitted task is in exactly one place and counted once, no
  promise is set twice, a waiting task that is cancelled completes at once, stopping
  interrupts every task, and the workers always come to rest with every promise fulfilled.
\<close>

section \<open>Where the tasks are\<close>

fun worker_task :: "worker \<Rightarrow> search_task option" where
  "worker_task Waiting = None"
| "worker_task (Taken task) = Some task"
| "worker_task (Checked task begun waited) = Some task"
| "worker_task (Searching task begun waited) = Some task"
| "worker_task (Finishing task outcome) = Some task"
| "worker_task Exited = None"

definition worker_tickets :: "worker \<Rightarrow> nat multiset" where
  "worker_tickets w = (case worker_task w of None \<Rightarrow> {#} | Some task \<Rightarrow> {#ticket task#})"

definition held :: "worker list \<Rightarrow> nat multiset" where
  "held ws = \<Sum>\<^sub># (image_mset worker_tickets (mset ws))"

definition pending :: "'a option list \<Rightarrow> nat set" where
  "pending ps = {t. t < length ps \<and> ps ! t = None}"

definition outcomes :: "'a option list \<Rightarrow> 'a multiset" where
  "outcomes ps = mset (List.map_filter id ps)"

lemma worker_tickets_simps [simp]:
  "worker_tickets Waiting = {#}" "worker_tickets Exited = {#}" "worker_tickets (Taken task) = {#ticket task#}"
  "worker_tickets (Checked task begun waited) = {#ticket task#}"
  "worker_tickets (Searching task begun waited) = {#ticket task#}"
  "worker_tickets (Finishing task outcome) = {#ticket task#}"
  by (simp_all add: worker_tickets_def)

lemma held_update:
  assumes "i < length ws"
  shows "held (ws[i := w]) + worker_tickets (ws ! i) = held ws + worker_tickets w"
proof -
  have "add_mset (ws ! i) (mset ws - {#ws ! i#}) = mset ws" using assms by simp
  then have "held ws = worker_tickets (ws ! i) + \<Sum>\<^sub># (image_mset worker_tickets (mset ws - {#ws ! i#}))"
    unfolding held_def by (metis image_mset_add_mset sum_mset.add_mset)
  moreover have "held (ws[i := w]) = worker_tickets w + \<Sum>\<^sub># (image_mset worker_tickets (mset ws - {#ws ! i#}))"
    using assms by (simp add: held_def mset_update)
  ultimately show ?thesis by (simp add: ac_simps)
qed

lemma held_update_same:
  "i < length ws \<Longrightarrow> worker_tickets w = worker_tickets (ws ! i) \<Longrightarrow> held (ws[i := w]) = held ws"
  using held_update [of i ws w] by simp

lemma finite_pending [simp]: "finite (pending ps)"
  by (simp add: pending_def)

lemma pending_snoc [simp]: "pending (ps @ [None]) = insert (length ps) (pending ps)"
  by (auto simp: pending_def nth_append)

lemma pending_set: "t \<in> pending ps \<Longrightarrow> pending (ps[t := Some v]) = pending ps - {t}"
  by (auto simp: pending_def nth_list_update)

lemma pending_less: "t \<in> pending ps \<Longrightarrow> t < length ps"
  by (simp add: pending_def)

lemma pending_fresh [simp]: "length ps \<notin> pending ps"
  by (simp add: pending_def)

lemma outcomes_snoc [simp]: "outcomes (ps @ [None]) = outcomes ps"
  by (simp add: outcomes_def List.map_filter_def)

lemma outcomes_set:
  assumes "t \<in> pending ps"
  shows "outcomes (ps[t := Some v]) = add_mset v (outcomes ps)"
proof -
  have t: "t < length ps" "ps ! t = None" using assms by (simp_all add: pending_def)
  have "outcomes (take t ps @ None # drop (Suc t) ps) = outcomes ps"
    using id_take_nth_drop [OF t(1)] t(2) by simp
  moreover have "ps[t := Some v] = take t ps @ Some v # drop (Suc t) ps" using t(1) by (rule upd_conv_take_nth_drop)
  ultimately show ?thesis by (simp add: outcomes_def List.map_filter_def)
qed

lemma size_outcomes: "size (outcomes ps) + card (pending ps) = length ps"
proof (induction ps rule: rev_induct)
  case (snoc p ps)
  show ?case
  proof (cases p)
    case None
    then show ?thesis using snoc by simp
  next
    case (Some v)
    then have "pending (ps @ [p]) = pending ps" by (auto simp: pending_def nth_append less_Suc_eq)
    then show ?thesis using Some snoc by (simp add: outcomes_def List.map_filter_def)
  qed
qed (simp add: outcomes_def pending_def List.map_filter_def)

section \<open>The invariant\<close>

definition task_ok :: "executor_config \<Rightarrow> search_task \<Rightarrow> bool" where
  "task_ok config task \<longleftrightarrow> cancellation (task_context task) = Some (ticket task)
     \<and> check_interval (task_context task) = task_check_interval config"

definition worker_ok :: "executor_config \<Rightarrow> nat option \<Rightarrow> worker \<Rightarrow> bool" where
  "worker_ok config slot w \<longleftrightarrow>
     (case worker_task w of None \<Rightarrow> slot = None | Some task \<Rightarrow> task_ok config task \<and> slot = Some (ticket task))"

definition config_positive :: "executor_config \<Rightarrow> bool" where
  "config_positive c \<longleftrightarrow> workers c \<noteq> 0 \<and> queue_capacity c \<noteq> 0 \<and> task_check_interval c \<noteq> 0"

text \<open>\<open>hand\<close>: tickets out of the queue whose promises are about to be set.\<close>

definition located :: "nat multiset \<Rightarrow> executor \<Rightarrow> bool" where
  "located hand ex \<longleftrightarrow>
     config_positive (exec_config ex)
   \<and> length (worker_states ex) = unat (workers (exec_config ex))
   \<and> list_all2 (worker_ok (exec_config ex)) (active ex) (worker_states ex)
   \<and> length (reasons ex) = length (promises ex)
   \<and> list_all (task_ok (exec_config ex)) (queue ex)
   \<and> sorted_wrt (<) (map ticket (queue ex))
   \<and> length (queue ex) \<le> unat (queue_capacity (exec_config ex))
   \<and> mset (map ticket (queue ex)) + held (worker_states ex) + hand = mset_set (pending (promises ex))"

definition error_kind :: "(cpp_error option \<Rightarrow> bool) \<Rightarrow> search_outcome multiset \<Rightarrow> u64" where
  "error_kind P os = of_nat (size (filter_mset (P \<circ> outcome_error) os))"

definition was_interrupted :: "cpp_error option \<Rightarrow> bool" where
  "was_interrupted e \<longleftrightarrow> (\<exists>r. e = Some (Search_interrupted r))"

text \<open>The counters as functions of the promises, the queue and the workers.\<close>

definition counted :: "executor \<Rightarrow> bool" where
  "counted ex \<longleftrightarrow> (let st = stats ex; os = outcomes (promises ex); config = exec_config ex in
     stats_workers st = workers config \<and> stats_queue_capacity st = queue_capacity config
   \<and> admitted st = of_nat (length (promises ex)) \<and> completed st = of_nat (size os)
   \<and> queued st = of_nat (length (queue ex)) \<and> running st = of_nat (size (held (worker_states ex)))
   \<and> queued st \<le> peak_queued st \<and> peak_queued st \<le> queue_capacity config
   \<and> running st \<le> peak_running st \<and> peak_running st \<le> workers config
   \<and> succeeded st = error_kind (\<lambda>e. e = None) os
   \<and> expired st = error_kind (\<lambda>e. e = Some (Search_interrupted DeadlineExceeded)) os
   \<and> cancelled st = error_kind (\<lambda>e. was_interrupted e \<and> e \<noteq> Some (Search_interrupted DeadlineExceeded)) os
   \<and> failed st = error_kind (\<lambda>e. e \<noteq> None \<and> \<not> was_interrupted e) os
   \<and> queue_us_total st = (\<Sum>x\<in>#os. queue_us x) \<and> execution_us_total st = (\<Sum>x\<in>#os. execution_us x))"

definition halted :: "executor \<Rightarrow> bool" where
  "halted ex \<longleftrightarrow> (stopping ex \<longrightarrow> queue ex = [] \<and> (\<forall>t\<in>#held (worker_states ex). reasons ex ! t \<noteq> NoReason))
   \<and> (Exited \<in> set (worker_states ex) \<longrightarrow> stopping ex)"

lemma exited_update: "Exited \<in> set (ws[i := w]) \<Longrightarrow> w = Exited \<or> Exited \<in> set ws"
  using set_update_subset_insert [of ws i w] by auto


section \<open>Completion\<close>

lemma located_pending: "located (add_mset t hand) ex \<Longrightarrow> t \<in> pending (promises ex)"
proof -
  assume "located (add_mset t hand) ex"
  then have "mset (map ticket (queue ex)) + held (worker_states ex) + add_mset t hand = mset_set (pending (promises ex))"
    by (simp add: located_def)
  then have "t \<in># mset_set (pending (promises ex))" by (metis union_iff union_single_eq_member)
  then show ?thesis by simp
qed

definition finished :: "search_task \<Rightarrow> search_outcome \<Rightarrow> executor \<Rightarrow> executor" where
  "finished task outcome ex = ex\<lparr>stats := count_outcome outcome (stats ex),
     promises := (promises ex)[ticket task := Some outcome]\<rparr>"

lemma finished_fields [simp]:
  "queue (finished task outcome ex) = queue ex" "worker_states (finished task outcome ex) = worker_states ex"
  "reasons (finished task outcome ex) = reasons ex" "stopping (finished task outcome ex) = stopping ex"
  "exec_store (finished task outcome ex) = exec_store ex" "active (finished task outcome ex) = active ex"
  "exec_config (finished task outcome ex) = exec_config ex"
  "promises (finished task outcome ex) = (promises ex)[ticket task := Some outcome]"
  by (simp_all add: finished_def)

lemma finish_locked_finished:
  "ticket task \<in> pending (promises ex) \<Longrightarrow> finish_locked task outcome ex = Inr (finished task outcome ex)"
  by (simp add: finish_locked_def finished_def pending_def)

lemma located_finished:
  "located (add_mset (ticket task) hand) ex \<Longrightarrow> located hand (finished task outcome ex)"
proof -
  assume loc: "located (add_mset (ticket task) hand) ex"
  then have t: "ticket task \<in> pending (promises ex)" by (rule located_pending)
  have "add_mset (ticket task) (mset (map ticket (queue ex)) + held (worker_states ex) + hand)
      = mset_set (pending (promises ex))"
    using loc by (simp add: located_def)
  then have "mset (map ticket (queue ex)) + held (worker_states ex) + hand
      = mset_set (pending (promises ex)) - {#ticket task#}"
    by (metis add_mset_remove_trivial)
  then show ?thesis using loc t by (simp add: located_def pending_set mset_set_Diff)
qed

lemma error_kind_add [simp]:
  "error_kind P (add_mset x os) = (if P (outcome_error x) then error_kind P os + 1 else error_kind P os)"
  by (simp add: error_kind_def)

lemma counted_finished:
  assumes "counted ex" "ticket task \<in> pending (promises ex)"
  shows "counted (finished task outcome ex)"
proof -
  have [simp]: "outcomes ((promises ex)[ticket task := Some outcome]) = add_mset outcome (outcomes (promises ex))"
    by (rule outcomes_set [OF assms(2)])
  show ?thesis
    using assms(1)
    by (auto simp: counted_def Let_def finished_def count_outcome_def was_interrupted_def
        split: option.split cpp_error.split search_stop_reason.split)
qed

section \<open>The queue\<close>

lemma capacity_le:
  "located hand ex \<Longrightarrow> m \<le> length (queue ex) \<Longrightarrow> (of_nat m :: u64) \<le> of_nat (length (queue ex))"
  using unat_u64 [of "queue_capacity (exec_config ex)"]
  by (simp add: located_def word_le_nat_alt unat_of_nat_u64)

lemma set_queue_fields [simp]:
  "queue (set_queue q ex) = q" "worker_states (set_queue q ex) = worker_states ex"
  "reasons (set_queue q ex) = reasons ex" "stopping (set_queue q ex) = stopping ex"
  "exec_store (set_queue q ex) = exec_store ex" "active (set_queue q ex) = active ex"
  "exec_config (set_queue q ex) = exec_config ex" "promises (set_queue q ex) = promises ex"
  by (simp_all add: set_queue_def)

lemma located_set_queue:
  assumes "located hand ex" "queue ex = xs @ task # ys"
  shows "located (add_mset (ticket task) hand) (set_queue (xs @ ys) ex)" "task_ok (exec_config ex) task"
  using assms by (auto simp: located_def sorted_wrt_append)

lemma counted_set_queue:
  assumes "counted ex" "located hand ex" "length q \<le> length (queue ex)"
  shows "counted (set_queue q ex)"
proof -
  have "(of_nat (length q) :: u64) \<le> of_nat (length (queue ex))" by (rule capacity_le [OF assms(2,3)])
  then show ?thesis using assms(1) order_trans by (fastforce simp: counted_def Let_def set_queue_def)
qed

lemma take_ticket_Some:
  "take_ticket t q = Some (task, rest) \<Longrightarrow> \<exists>xs ys. q = xs @ task # ys \<and> rest = xs @ ys
     \<and> cancellation (task_context task) = Some t"
proof (induction q arbitrary: rest)
  case (Cons x q)
  show ?case
  proof (cases "cancellation (task_context x) = Some t")
    case True
    then show ?thesis using Cons.prems by (intro exI [of _ "[]"] exI [of _ q]) simp
  next
    case False
    then obtain ys where "take_ticket t q = Some (task, ys)" "rest = x # ys"
      using Cons.prems by (auto split: option.splits)
    then show ?thesis using Cons.IH by (metis append_Cons)
  qed
qed simp

lemma take_ticket_None:
  "take_ticket t q = None \<longleftrightarrow> (\<forall>task\<in>set q. cancellation (task_context task) \<noteq> Some t)"
  by (induction q) (auto split: option.splits)

section \<open>Cancellation\<close>

lemma request_stop_fields [simp]:
  "queue (request_stop t reason ex) = queue ex" "worker_states (request_stop t reason ex) = worker_states ex"
  "stopping (request_stop t reason ex) = stopping ex" "exec_store (request_stop t reason ex) = exec_store ex"
  "active (request_stop t reason ex) = active ex" "exec_config (request_stop t reason ex) = exec_config ex"
  "promises (request_stop t reason ex) = promises ex" "stats (request_stop t reason ex) = stats ex"
  "length (reasons (request_stop t reason ex)) = length (reasons ex)"
  by (simp_all add: request_stop_def)

lemma located_request [simp]: "located hand (request_stop t reason ex) = located hand ex"
  by (simp add: located_def)

lemma counted_request [simp]: "counted (request_stop t reason ex) = counted ex"
  by (simp add: counted_def)

text \<open>The first reason stays; after a request there is one.\<close>

lemma request_stop_reason:
  "reasons ex ! u \<noteq> NoReason \<Longrightarrow> reasons (request_stop t reason ex) ! u = reasons ex ! u"
  by (cases "u = t"; cases "t < length (reasons ex)")
     (auto simp: request_stop_def cancellation_request_def nth_list_update list_update_beyond)

lemma request_stop_sets:
  "t < length (reasons ex) \<Longrightarrow> reason \<noteq> NoReason \<Longrightarrow> reasons (request_stop t reason ex) ! t \<noteq> NoReason"
  by (simp add: request_stop_def cancellation_request_def)

lemma halted_request: "halted ex \<Longrightarrow> halted (request_stop t reason ex)"
  by (auto simp: halted_def request_stop_reason)

text \<open>A task whose stop was requested fails its check.\<close>

lemma task_check_stopped:
  "task_ok config task \<Longrightarrow> reasons ex ! ticket task \<noteq> NoReason \<Longrightarrow>
     task_check ex task now = Inl (Search_interrupted (reasons ex ! ticket task))"
  by (simp add: task_check_def check_def task_ok_def)

definition cancelled_outcome :: "executor \<Rightarrow> search_task \<Rightarrow> int \<Rightarrow> int \<Rightarrow> search_outcome" where
  "cancelled_outcome ex task now later = \<lparr>outcome_result = no_result,
     queue_us = microseconds (now - enqueued task), execution_us = 0,
     outcome_error = error_of (task_check ex task later)\<rparr>"

lemma cancel_waiting_finished:
  "ticket task \<in> pending (promises ex) \<Longrightarrow>
     cancel_waiting_locked task now later ex = Inr (finished task (cancelled_outcome ex task now later) ex)"
  by (simp add: cancel_waiting_locked_def finish_locked_finished cancelled_outcome_def)

text \<open>The three invariants together, and what a completion keeps of them.\<close>

definition settled :: "nat multiset \<Rightarrow> executor \<Rightarrow> bool" where
  "settled hand ex \<longleftrightarrow> located hand ex \<and> counted ex"

lemma cancel_waiting_settled:
  assumes "settled (add_mset (ticket task) hand) ex"
  shows "cancel_waiting_locked task now later ex = Inr (finished task (cancelled_outcome ex task now later) ex)"
    "settled hand (finished task (cancelled_outcome ex task now later) ex)"
  using assms located_pending [of "ticket task" hand ex]
  by (simp_all add: settled_def cancel_waiting_finished located_finished counted_finished)

lemma settled_set_queue:
  assumes "settled hand ex" "queue ex = xs @ task # ys"
  shows "settled (add_mset (ticket task) hand) (set_queue (xs @ ys) ex)"
  using assms located_set_queue(1) counted_set_queue by (fastforce simp: settled_def)

lemma settled_request [simp]: "settled hand (request_stop t reason ex) = settled hand ex"
  by (simp add: settled_def)

lemma remove_waiting_cases:
  assumes "settled {#} ex"
  obtains "remove_waiting t now later ex = Inr ex" "\<forall>task\<in>set (queue ex). ticket task \<noteq> t"
  | xs task ys where "queue ex = xs @ task # ys" "ticket task = t" "task_ok (exec_config ex) task"
      "remove_waiting t now later ex
        = Inr (finished task (cancelled_outcome ex task now later) (set_queue (xs @ ys) ex))"
      "settled {#} (finished task (cancelled_outcome ex task now later) (set_queue (xs @ ys) ex))"
proof (cases "take_ticket t (queue ex)")
  case None
  have "task_ok (exec_config ex) task" if "task \<in> set (queue ex)" for task
    using assms that by (auto simp: settled_def located_def list_all_iff)
  then have "\<forall>task\<in>set (queue ex). ticket task \<noteq> t" using None by (auto simp: take_ticket_None task_ok_def)
  then show ?thesis using that(1) None by (simp add: remove_waiting_def)
next
  case (Some p)
  then obtain task rest where p: "take_ticket t (queue ex) = Some (task, rest)" by (cases p) auto
  obtain xs ys where q: "queue ex = xs @ task # ys" "rest = xs @ ys" "cancellation (task_context task) = Some t"
    using take_ticket_Some [OF p] by blast
  have ok: "task_ok (exec_config ex) task" using located_set_queue(2) [OF _ q(1)] assms by (auto simp: settled_def)
  have "cancelled_outcome (set_queue rest ex) task now later = cancelled_outcome ex task now later"
    by (simp add: cancelled_outcome_def task_check_def)
  then show ?thesis
    using that(2) [OF q(1) _ ok] cancel_waiting_settled [OF settled_set_queue [OF assms q(1)], of now later] p q ok
    by (simp add: remove_waiting_def task_ok_def)
qed


section \<open>Stopping\<close>

text \<open>What stopping and cancelling keep: everything but the queue, counters, reasons that are
  set, and promises that are fulfilled.\<close>

definition keeps_workers :: "executor \<Rightarrow> executor \<Rightarrow> bool" where
  "keeps_workers ex ex' \<longleftrightarrow>
     worker_states ex' = worker_states ex \<and> active ex' = active ex \<and> stopping ex' = stopping ex
   \<and> exec_store ex' = exec_store ex \<and> exec_config ex' = exec_config ex
   \<and> (\<forall>t. reasons ex ! t \<noteq> NoReason \<longrightarrow> reasons ex' ! t = reasons ex ! t)
   \<and> length (reasons ex') = length (reasons ex)"

lemma keeps_workers_refl [simp]: "keeps_workers ex ex"
  by (simp add: keeps_workers_def)

lemma keeps_workers_trans [trans]: "keeps_workers ex ey \<Longrightarrow> keeps_workers ey ez \<Longrightarrow> keeps_workers ex ez"
  by (simp add: keeps_workers_def)

lemma keeps_workers_steps [simp]:
  "keeps_workers ex (finished task outcome ey) = keeps_workers ex ey"
  "keeps_workers ex (set_queue q ey) = keeps_workers ex ey"
  "keeps_workers ex (request_stop t reason ex)"
  by (simp_all add: keeps_workers_def request_stop_reason)

definition stopped_outcome :: "search_outcome option \<Rightarrow> bool" where
  "stopped_outcome p \<longleftrightarrow> (\<exists>x e. p = Some x \<and> outcome_error x = Some e \<and> is_interruption e)"

lemma cancelled_outcome_stopped:
  "task_ok config task \<Longrightarrow> reasons ex ! ticket task \<noteq> NoReason \<Longrightarrow>
     outcome_error (cancelled_outcome ex task now later) = Some (Search_interrupted (reasons ex ! ticket task))"
  by (simp add: cancelled_outcome_def task_check_stopped error_of_def)

lemma stop_queue_settled:
  assumes "settled {#} ex" "queue ex = q"
  shows "\<exists>ex'. stop_queue clock n q ex = Inr ex' \<and> settled {#} ex' \<and> queue ex' = [] \<and> keeps_workers ex ex'
    \<and> (\<forall>task\<in>set q. stopped_outcome (promises ex' ! ticket task))
    \<and> (\<forall>t. t \<notin> ticket ` set q \<longrightarrow> promises ex' ! t = promises ex ! t)"
  using assms
proof (induction q arbitrary: ex n)
  case (Cons task rest)
  let ?ey = "request_stop (ticket task) Shutdown (set_queue rest ex)"
  let ?o = "cancelled_outcome ?ey task (clock n) (clock (Suc n))"
  have loc: "located {#} ex" using Cons.prems(1) by (simp add: settled_def)
  have ey: "settled {#ticket task#} ?ey"
    using settled_set_queue [OF Cons.prems(1), of "[]" task rest] Cons.prems(2) by simp
  note fin = cancel_waiting_settled [OF ey, of "clock n" "clock (Suc n)"]
  have ok: "task_ok (exec_config ex) task" using located_set_queue(2) [OF loc, of "[]"] Cons.prems(2) by simp
  have pend: "ticket task \<in> pending (promises ex)"
    using located_pending [of "ticket task" "{#}" ?ey] ey by (simp add: settled_def)
  then have t: "ticket task < length (reasons ex)" "ticket task < length (promises ex)"
    using loc by (simp_all add: located_def pending_def)
  have o: "stopped_outcome (Some ?o)"
    using cancelled_outcome_stopped [OF ok, of ?ey] request_stop_sets [of "ticket task" "set_queue rest ex" Shutdown] t
    by (simp add: stopped_outcome_def is_interruption_def)
  obtain ex' where ex': "stop_queue clock (n + 2) rest (finished task ?o ?ey) = Inr ex'" "settled {#} ex'" "queue ex' = []"
      "keeps_workers (finished task ?o ?ey) ex'" "\<forall>x\<in>set rest. stopped_outcome (promises ex' ! ticket x)"
      "\<forall>t. t \<notin> ticket ` set rest \<longrightarrow> promises ex' ! t = promises (finished task ?o ?ey) ! t"
    using Cons.IH [OF fin(2), of "n + 2"] by auto
  have "ticket task \<notin> ticket ` set rest"
    using loc Cons.prems(2) by (auto simp: located_def)
  then have "stopped_outcome (promises ex' ! ticket task)" using ex'(6) o t by simp
  moreover have "keeps_workers ex ex'"
    using keeps_workers_trans [OF _ ex'(4)] keeps_workers_trans [of ex "set_queue rest ex" ?ey] by simp
  ultimately show ?case using ex' fin(1) by auto
qed simp

lemma request_active_facts:
  "keeps_workers ex (request_active cs ex) \<and> settled hand (request_active cs ex) = settled hand ex
   \<and> queue (request_active cs ex) = queue ex \<and> promises (request_active cs ex) = promises ex
   \<and> (\<forall>t. Some t \<in> set cs \<longrightarrow> t < length (reasons ex) \<longrightarrow> reasons (request_active cs ex) ! t \<noteq> NoReason)"
proof (induction cs ex rule: request_active.induct)
  case (3 t cs ex)
  let ?ey = "request_stop t Shutdown ex"
  have keeps: "keeps_workers ex (request_active cs ?ey)"
    using 3 keeps_workers_trans [of ex ?ey] by simp
  have "reasons (request_active cs ?ey) ! t \<noteq> NoReason" if "t < length (reasons ex)"
  proof -
    have "reasons ?ey ! t \<noteq> NoReason" using request_stop_sets [OF that, of Shutdown] by simp
    then show ?thesis using 3 unfolding keeps_workers_def by metis
  qed
  then show ?case using 3 keeps by auto
qed simp_all

lemma held_ticket: "t \<in># held ws \<longleftrightarrow> (\<exists>i task. i < length ws \<and> worker_task (ws ! i) = Some task \<and> ticket task = t)"
proof -
  have "t \<in># held ws \<longleftrightarrow> (\<exists>w\<in>set ws. t \<in># worker_tickets w)" by (auto simp: held_def)
  also have "\<dots> \<longleftrightarrow> (\<exists>i < length ws. t \<in># worker_tickets (ws ! i))" by (metis in_set_conv_nth)
  finally show ?thesis by (auto simp: worker_tickets_def split: option.splits)
qed

lemma held_active:
  assumes "located hand ex" "t \<in># held (worker_states ex)"
  shows "Some t \<in> set (active ex)" "t < length (reasons ex)"
proof -
  obtain i task where i: "i < length (worker_states ex)" "worker_task (worker_states ex ! i) = Some task" "ticket task = t"
    using assms(2) by (auto simp: held_ticket)
  have all: "list_all2 (worker_ok (exec_config ex)) (active ex) (worker_states ex)" using assms(1) by (simp add: located_def)
  then have "active ex ! i = Some t" "i < length (active ex)"
    using i list_all2_nthD2 [OF all i(1)] by (auto simp: worker_ok_def dest: list_all2_lengthD)
  then show "Some t \<in> set (active ex)" by (metis nth_mem)
  have "t \<in># mset (map ticket (queue ex)) + held (worker_states ex) + hand" using assms(2) by simp
  moreover have "mset (map ticket (queue ex)) + held (worker_states ex) + hand = mset_set (pending (promises ex))"
    using assms(1) by (simp add: located_def)
  ultimately have "t \<in># mset_set (pending (promises ex))" by metis
  then show "t < length (reasons ex)" using assms(1) by (simp add: located_def pending_def)
qed

lemma executor_stop_facts:
  assumes "settled {#} ex" "\<not> stopping ex"
  shows "\<exists>ex'. executor_stop clock ex = Inr ex' \<and> settled {#} ex' \<and> halted ex' \<and> stopping ex'
    \<and> exec_store ex' = exec_store ex \<and> worker_states ex' = worker_states ex \<and> exec_config ex' = exec_config ex
    \<and> (\<forall>task\<in>set (queue ex). stopped_outcome (promises ex' ! ticket task))
    \<and> (\<forall>t. t \<notin> ticket ` set (queue ex) \<longrightarrow> promises ex' ! t = promises ex ! t)
    \<and> length (promises ex') = length (promises ex)"
proof -
  let ?ey = "request_active (active ex) (ex\<lparr>stopping := True\<rparr>)"
  have s: "settled {#} (ex\<lparr>stopping := True\<rparr>)" using assms(1) by (simp add: settled_def located_def counted_def)
  note ey = request_active_facts [where ex = "ex\<lparr>stopping := True\<rparr>" and cs = "active ex" and hand = "{#}"]
  obtain ex' where ex': "stop_queue clock 0 (queue ex) ?ey = Inr ex'" "settled {#} ex'" "queue ex' = []" "keeps_workers ?ey ex'"
      "\<forall>task\<in>set (queue ex). stopped_outcome (promises ex' ! ticket task)"
      "\<forall>t. t \<notin> ticket ` set (queue ex) \<longrightarrow> promises ex' ! t = promises ?ey ! t"
    using stop_queue_settled [of ?ey "queue ex" clock 0] ey s by auto
  have "reasons ex' ! t \<noteq> NoReason" if "t \<in># held (worker_states ex)" for t
  proof -
    have "reasons ?ey ! t \<noteq> NoReason"
      using held_active [OF _ that, of "{#}"] assms(1) ey by (auto simp: settled_def)
    then show ?thesis using ex'(4) unfolding keeps_workers_def by metis
  qed
  moreover have "length (promises ex') = length (promises ex)"
  proof -
    have "length (reasons ex') = length (reasons ex)" using ex'(4) ey by (simp add: keeps_workers_def)
    then show ?thesis using ex'(2) assms(1) by (simp add: settled_def located_def)
  qed
  ultimately show ?thesis using ex' ey assms(2) by (auto simp: executor_stop_def halted_def keeps_workers_def)
qed


section \<open>The workers\<close>

lemma set_worker_fields [simp]:
  "queue (set_worker i w ex) = queue ex" "worker_states (set_worker i w ex) = (worker_states ex)[i := w]"
  "reasons (set_worker i w ex) = reasons ex" "stopping (set_worker i w ex) = stopping ex"
  "exec_store (set_worker i w ex) = exec_store ex" "active (set_worker i w ex) = active ex"
  "exec_config (set_worker i w ex) = exec_config ex" "promises (set_worker i w ex) = promises ex"
  "stats (set_worker i w ex) = stats ex"
  by (simp_all add: set_worker_def)

lemma list_all2_update_right:
  "list_all2 P xs ys \<Longrightarrow> i < length ys \<Longrightarrow> P (xs ! i) y \<Longrightarrow> list_all2 P xs (ys[i := y])"
  by (metis list_all2_update_cong list_update_id)

lemma settled_set_worker:
  assumes "settled hand ex" "i < length (worker_states ex)" "worker_task w = worker_task (worker_states ex ! i)"
  shows "settled hand (set_worker i w ex)"
    "halted ex \<Longrightarrow> (w = Exited \<Longrightarrow> stopping ex) \<Longrightarrow> halted (set_worker i w ex)"
proof -
  have same: "held ((worker_states ex)[i := w]) = held (worker_states ex)"
    using assms by (intro held_update_same) (simp_all add: worker_tickets_def)
  have all: "list_all2 (worker_ok (exec_config ex)) (active ex) (worker_states ex)"
    using assms(1) by (simp add: settled_def located_def)
  have "worker_ok (exec_config ex) (active ex ! i) w"
    using list_all2_nthD2 [OF all assms(2)] assms(3) by (simp add: worker_ok_def)
  then have "list_all2 (worker_ok (exec_config ex)) (active ex) ((worker_states ex)[i := w])"
    by (rule list_all2_update_right [OF all assms(2)])
  then show "settled hand (set_worker i w ex)" using assms(1) same by (simp add: settled_def located_def counted_def)
  show "halted ex \<Longrightarrow> (w = Exited \<Longrightarrow> stopping ex) \<Longrightarrow> halted (set_worker i w ex)"
    using same by (auto simp: halted_def dest!: exited_update)
qed

lemma settled_set_task:
  "settled hand ex \<Longrightarrow> halted ex \<Longrightarrow> i < length (worker_states ex) \<Longrightarrow> worker_task (worker_states ex ! i) = Some task \<Longrightarrow>
     worker_task w = Some task \<Longrightarrow> settled hand (set_worker i w ex) \<and> halted (set_worker i w ex)"
  using settled_set_worker [of hand ex i w] by (cases w) simp_all

lemma size_held: "size (held ws) \<le> length ws"
proof (induction ws)
  case (Cons w ws)
  have "size (worker_tickets w) \<le> 1" by (simp add: worker_tickets_def split: option.split)
  then show ?case using Cons by (simp add: held_def)
qed (simp add: held_def)

text \<open>The counter of running tasks does not wrap.\<close>

lemma running_exact:
  assumes "settled hand ex"
  shows "unat (running (stats ex)) = size (held (worker_states ex))" "unat (running (stats ex)) \<le> unat (workers (exec_config ex))"
proof -
  have "size (held (worker_states ex)) \<le> unat (workers (exec_config ex))"
    using assms size_held [of "worker_states ex"] by (simp add: settled_def located_def)
  moreover from this have "size (held (worker_states ex)) < 2 ^ 64" using unat_u64 order.strict_trans1 by blast
  ultimately show "unat (running (stats ex)) = size (held (worker_states ex))"
      "unat (running (stats ex)) \<le> unat (workers (exec_config ex))"
    using assms by (simp_all add: settled_def counted_def Let_def unat_of_nat_u64)
qed

definition dequeued :: "nat \<Rightarrow> search_task \<Rightarrow> executor \<Rightarrow> executor" where
  "dequeued i task ex = (let r = running (stats ex) + 1 in set_worker i (Taken task)
     (ex\<lparr>active := (active ex)[i := cancellation (task_context task)],
         stats := (stats ex)\<lparr>running := r, peak_running := max (peak_running (stats ex)) r\<rparr>\<rparr>))"

lemma worker_take_cases:
  assumes "worker_take i ex = Some ex'"
  obtains task rest where "queue ex = task # rest" "ex' = dequeued i task (set_queue rest ex)"
  | "queue ex = []" "stopping ex" "ex' = set_worker i Exited ex"
  using assms by (auto simp: worker_take_def dequeued_def Let_def split: list.splits if_splits)

lemma settled_dequeued:
  assumes s: "settled (add_mset (ticket task) {#}) ex" and i: "i < length (worker_states ex)"
    and w: "worker_states ex ! i = Waiting" and ok: "task_ok (exec_config ex) task"
  shows "settled {#} (dequeued i task ex)"
proof -
  have all: "list_all2 (worker_ok (exec_config ex)) (active ex) (worker_states ex)"
    using s by (simp add: settled_def located_def)
  have "list_all2 (worker_ok (exec_config ex)) ((active ex)[i := cancellation (task_context task)])
      ((worker_states ex)[i := Taken task])"
    using ok by (intro list_all2_update_cong [OF all]) (simp add: worker_ok_def task_ok_def)
  moreover have held: "held ((worker_states ex)[i := Taken task]) = add_mset (ticket task) (held (worker_states ex))"
    using held_update [OF i, of "Taken task"] w by simp
  ultimately have "located {#} (dequeued i task ex)"
    using s by (simp add: settled_def located_def dequeued_def Let_def)
  moreover have "counted (dequeued i task ex)"
  proof -
    have "size (held ((worker_states ex)[i := Taken task])) \<le> unat (workers (exec_config ex))"
      using s size_held [of "(worker_states ex)[i := Taken task]"] by (simp add: settled_def located_def)
    then have "Suc (size (held (worker_states ex))) \<le> unat (workers (exec_config ex))" using held by simp
    then have "unat (1 + of_nat (size (held (worker_states ex))) :: u64) = Suc (size (held (worker_states ex)))"
      using unat_u64 [of "workers (exec_config ex)"] unat_of_nat_u64 [of "Suc (size (held (worker_states ex)))"] by simp
    then have "1 + of_nat (size (held (worker_states ex))) \<le> workers (exec_config ex)"
      using \<open>Suc _ \<le> _\<close> by (simp add: word_le_nat_alt)
    then show ?thesis using s held by (auto simp: settled_def counted_def dequeued_def Let_def add.commute le_max_iff_disj)
  qed
  ultimately show ?thesis by (simp add: settled_def)
qed

lemma worker_take_settled:
  assumes s: "settled {#} ex" "halted ex" and i: "i < length (worker_states ex)"
    and w: "worker_states ex ! i = Waiting" and t: "worker_take i ex = Some ex'"
  shows "settled {#} ex' \<and> halted ex'"
  using t
proof (cases rule: worker_take_cases)
  case (1 task rest)
  have "settled {#ticket task#} (set_queue rest ex)" using settled_set_queue [OF s(1), of "[]" task rest] 1 by simp
  moreover have "task_ok (exec_config (set_queue rest ex)) task"
    using located_set_queue(2) [of "{#}" ex "[]" task rest] s(1) 1 by (simp add: settled_def)
  ultimately have "settled {#} ex'" unfolding 1(2) using i w by (intro settled_dequeued) simp_all
  then show ?thesis using s(2) 1 by (auto simp: halted_def dequeued_def Let_def dest!: exited_update)
next
  case 2
  then show ?thesis using settled_set_worker [OF s(1) i] w s(2) by simp
qed

text \<open>The delivery of an outcome.\<close>

definition released :: "nat \<Rightarrow> executor \<Rightarrow> executor" where
  "released i ex = set_worker i Waiting
     (ex\<lparr>active := (active ex)[i := None], stats := (stats ex)\<lparr>running := running (stats ex) - 1\<rparr>\<rparr>)"

lemma settled_released:
  assumes s: "settled {#} ex" and i: "i < length (worker_states ex)"
    and w: "worker_states ex ! i = Finishing task outcome"
  shows "settled {#ticket task#} (released i ex)" "halted ex \<Longrightarrow> halted (released i ex)"
proof -
  have all: "list_all2 (worker_ok (exec_config ex)) (active ex) (worker_states ex)"
    using s by (simp add: settled_def located_def)
  have "list_all2 (worker_ok (exec_config ex)) ((active ex)[i := None]) ((worker_states ex)[i := Waiting])"
    by (intro list_all2_update_cong [OF all]) (simp add: worker_ok_def)
  moreover have held: "add_mset (ticket task) (held ((worker_states ex)[i := Waiting])) = held (worker_states ex)"
    using held_update [OF i, of Waiting] w by simp
  ultimately have "located {#ticket task#} (released i ex)"
    using s by (simp add: settled_def located_def released_def flip: held)
  moreover have "counted (released i ex)"
  proof -
    have r: "unat (running (stats ex)) = Suc (size (held ((worker_states ex)[i := Waiting])))"
      using running_exact(1) [OF s] by (simp flip: held)
    then have "running (stats ex) - 1 \<le> running (stats ex)" by (intro word_sub_le) (simp add: word_le_nat_alt)
    moreover have "running (stats ex) \<le> peak_running (stats ex)" using s unfolding settled_def counted_def Let_def by blast
    ultimately have le: "running (stats ex) - 1 \<le> peak_running (stats ex)" by (rule order_trans)
    have "running (stats ex) = 1 + of_nat (size (held ((worker_states ex)[i := Waiting])))"
      using s by (simp add: settled_def counted_def Let_def flip: held)
    then have "running (stats ex) - 1 = of_nat (size (held ((worker_states ex)[i := Waiting])))" by simp
    then show ?thesis using s le by (auto simp: settled_def counted_def Let_def released_def)
  qed
  ultimately show "settled {#ticket task#} (released i ex)" by (simp add: settled_def)
  show "halted (released i ex)" if "halted ex"
    using that by (auto simp: halted_def released_def simp flip: held dest!: exited_update)
qed

lemma worker_finish_settled:
  assumes s: "settled {#} ex" and i: "i < length (worker_states ex)"
    and w: "worker_states ex ! i = Finishing task outcome"
  shows "worker_finish i task outcome ex = Inr (finished task outcome (released i ex))"
    "settled {#} (finished task outcome (released i ex))"
    "halted ex \<Longrightarrow> halted (finished task outcome (released i ex))"
proof -
  note r = settled_released [OF s i w]
  then have pend: "ticket task \<in> pending (promises (released i ex))" by (intro located_pending [where hand = "{#}"]) (simp add: settled_def)
  then show "worker_finish i task outcome ex = Inr (finished task outcome (released i ex))"
    by (simp add: worker_finish_def finish_locked_finished released_def finished_def set_worker_def)
  show "settled {#} (finished task outcome (released i ex))"
    using r(1) pend by (simp add: settled_def located_finished counted_finished)
  show "halted (finished task outcome (released i ex))" if "halted ex" using r(2) [OF that] by (simp add: halted_def)
qed


section \<open>Every reachable state\<close>

definition executor_inv :: "platform \<Rightarrow> executor \<Rightarrow> bool" where
  "executor_inv pf ex \<longleftrightarrow> settled {#} ex \<and> halted ex \<and> store_inv pf (exec_store ex)"

lemma executor_create_inv:
  assumes "store_inv pf st" "executor_create threads (Some st) config = Inr ex"
  shows "executor_inv pf ex"
proof -
  have "mset (replicate n Waiting) = replicate_mset n Waiting" for n by (induction n) simp_all
  then have "held (replicate n Waiting) = {#}" for n by (simp add: held_def)
  moreover have "list_all2 (worker_ok config) (replicate n None) (replicate n Waiting)" for n
    by (simp add: list_all2_conv_all_nth worker_ok_def)
  ultimately show ?thesis
    using assms by (auto simp: executor_create_def executor_inv_def settled_def located_def counted_def
        halted_def initial_stats_def config_positive_def pending_def outcomes_def error_kind_def
        List.map_filter_def Let_def split: if_splits)
qed

lemma submit_settled:
  assumes s: "settled {#} ex"
  shows "settled {#} (fst (executor_submit query k until expected now ex))"
proof (cases "stopping ex \<or> unat (queue_capacity (exec_config ex)) \<le> length (queue ex)")
  case True
  then show ?thesis using s by (auto simp: executor_submit_def settled_def located_def counted_def Let_def)
next
  case False
  let ?t = "length (promises ex)" and ?n = "Suc (length (queue ex))"
  have loc: "located {#} ex" and cnt: "counted ex" using s by (simp_all add: settled_def)
  have small: "?n \<le> unat (queue_capacity (exec_config ex))" using False by simp
  then have n: "unat (1 + of_nat (length (queue ex)) :: u64) = ?n"
    using unat_u64 [of "queue_capacity (exec_config ex)"] unat_of_nat_u64 [of ?n] by simp
  then have le: "1 + of_nat (length (queue ex)) \<le> queue_capacity (exec_config ex)" using small by (simp add: word_le_nat_alt)
  have "ticket ` set (queue ex) \<subseteq> pending (promises ex)"
  proof -
    have "mset (map ticket (queue ex)) + held (worker_states ex) = mset_set (pending (promises ex))"
      using loc by (simp add: located_def)
    then have "set_mset (mset (map ticket (queue ex))) \<subseteq> pending (promises ex)"
      by (metis finite_pending finite_set_mset_mset_set set_mset_union Un_upper1)
    then show ?thesis by simp
  qed
  then have below: "\<forall>x\<in>set (queue ex). ticket x < ?t" by (auto dest: pending_less)
  have "located {#} (fst (executor_submit query k until expected now ex))"
    using loc False small below by (auto simp: executor_submit_def located_def Let_def sorted_wrt_append task_ok_def)
  moreover have "counted (fst (executor_submit query k until expected now ex))"
    using cnt False le by (auto simp: executor_submit_def counted_def Let_def le_max_iff_disj add.commute)
  ultimately show ?thesis by (simp add: settled_def)
qed

lemma worker_search_store: "exec_store (worker_search pf i task begun waited e now ex)
    = fst (store_search pf (task_query task) (task_k task) (task_context task) e (exec_store ex))"
  by (simp add: worker_search_def split: prod.split)

lemma settled_store [simp]: "settled hand (ex\<lparr>exec_store := st\<rparr>) = settled hand ex"
  by (simp add: settled_def located_def counted_def)

lemma halted_store [simp]: "halted (ex\<lparr>exec_store := st\<rparr>) = halted ex"
  by (simp add: halted_def)

lemma settled_started [simp]: "settled hand (ex\<lparr>stats := (stats ex)\<lparr>started := n\<rparr>\<rparr>) = settled hand ex"
  by (simp add: settled_def located_def counted_def Let_def)

lemma halted_stats [simp]: "halted (ex\<lparr>stats := st\<rparr>) = halted ex"
  by (simp add: halted_def)

lemma worker_step_inv: "worker_step pf ex ex' \<Longrightarrow> executor_inv pf ex \<Longrightarrow> executor_inv pf ex'"
proof (induction rule: worker_step.induct)
  case (take i ex ex')
  have "exec_store ex' = exec_store ex"
    using take(3) by (rule worker_take_cases) (auto simp: dequeued_def Let_def)
  then show ?case using worker_take_settled [OF _ _ take(1-3)] take(4) by (simp add: executor_inv_def)
next
  case (check i ex task now later)
  then show ?case
    using settled_set_task [where ex = ex and i = i and hand = "{#}" and task = task]
    by (auto simp: executor_inv_def worker_check_def Let_def split: sum.split)
next
  case (start i ex task begun waited)
  then show ?case
    using settled_set_task [where ex = "ex\<lparr>stats := (stats ex)\<lparr>started := started (stats ex) + 1\<rparr>\<rparr>"
        and i = i and hand = "{#}" and task = task and w = "Searching task begun waited"]
    by (simp add: executor_inv_def worker_start_def)
next
  case (search i ex task begun waited e now)
  have "store_step pf (exec_store ex) (exec_store (worker_search pf i task begun waited e now ex))"
    unfolding worker_search_store by (rule store_step.search)
  then have "store_inv pf (exec_store (worker_search pf i task begun waited e now ex))"
    using store_step_inv search(3) by (simp add: executor_inv_def)
  then show ?case
    using settled_set_task [where ex = "ex\<lparr>exec_store := st\<rparr>" and i = i and hand = "{#}" and task = task for st] search
    by (auto simp: executor_inv_def worker_search_def split: prod.split)
next
  case (finish i ex task outcome ex')
  then show ?case
    using worker_finish_settled [of ex i task outcome] by (auto simp: executor_inv_def released_def)
qed

lemma client_step_inv: "client_step pf ex ex' \<Longrightarrow> executor_inv pf ex \<Longrightarrow> executor_inv pf ex'"
proof (induction rule: client_step.induct)
  case (submit ex query k until expected now)
  then show ?case
    using submit_settled [of ex query k until expected now]
    by (auto simp: executor_inv_def halted_def executor_submit_def Let_def)
next
  case (request reason ex t)
  then show ?case by (simp add: executor_inv_def halted_request)
next
  case (remove ex t now later ex')
  then have "settled {#} ex" by (simp add: executor_inv_def)
  then show ?case
  proof (cases rule: remove_waiting_cases [where t = t and now = now and later = later])
    case 1
    then show ?thesis using remove by simp
  next
    case (2 xs task ys)
    then show ?thesis using remove by (auto simp: executor_inv_def halted_def)
  qed
next
  case (stop clock ex ex')
  then show ?case
    using executor_stop_facts [of ex clock]
    by (cases "stopping ex") (auto simp: executor_inv_def executor_stop_def)
next
  case (store ex st)
  then show ?case using store_step_inv by (auto simp: executor_inv_def)
qed

lemma executor_reachable_inv: "executor_reachable pf ex \<Longrightarrow> executor_inv pf ex"
  by (induction rule: executor_reachable.induct)
     (auto intro: executor_create_inv worker_step_inv client_step_inv)


section \<open>Termination of the workers\<close>

text \<open>The actions a worker has left before it can rest, and those the queue will cause.\<close>

fun worker_work :: "worker \<Rightarrow> nat" where
  "worker_work Exited = 0"
| "worker_work Waiting = 1"
| "worker_work (Finishing task outcome) = 2"
| "worker_work (Searching task begun waited) = 3"
| "worker_work (Checked task begun waited) = 4"
| "worker_work (Taken task) = 5"

definition executor_work :: "executor \<Rightarrow> nat" where
  "executor_work ex = 5 * length (queue ex) + sum_list (map worker_work (worker_states ex))"

lemma executor_work_set_worker:
  assumes "i < length (worker_states ex)"
  shows "executor_work (set_worker i w ex) + worker_work (worker_states ex ! i) = executor_work ex + worker_work w"
proof -
  have "sum_list (map worker_work ((worker_states ex)[i := w]))
      = sum_list (map worker_work (worker_states ex)) + worker_work w - worker_work (worker_states ex ! i)"
    using assms by (simp add: map_update sum_list_update)
  moreover have "worker_work (worker_states ex ! i) \<le> sum_list (map worker_work (worker_states ex))"
    using assms by (intro member_le_sum_list) (auto intro: nth_mem)
  ultimately show ?thesis by (simp add: executor_work_def)
qed

lemma executor_work_cong:
  "queue ex = queue ey \<Longrightarrow> worker_states ex = worker_states ey \<Longrightarrow> executor_work ex = executor_work ey"
  by (simp add: executor_work_def)

lemma worker_step_work: "worker_step pf ex ex' \<Longrightarrow> executor_work ex' < executor_work ex"
proof (induction rule: worker_step.induct)
  case (take i ex ex')
  from take(3) show ?case
  proof (cases rule: worker_take_cases)
    case (1 task rest)
    have "executor_work (set_worker i (Taken task) (set_queue rest ex)) + 1
        = executor_work (set_queue rest ex) + 5"
      using executor_work_set_worker [of i "set_queue rest ex" "Taken task"] take by simp
    moreover have "executor_work ex' = executor_work (set_worker i (Taken task) (set_queue rest ex))"
      unfolding 1(2) by (rule executor_work_cong) (simp_all add: dequeued_def Let_def)
    moreover have "executor_work (set_queue rest ex) + 5 = executor_work ex" using 1(1) by (simp add: executor_work_def)
    ultimately show ?thesis by simp
  next
    case 2
    then show ?thesis using executor_work_set_worker [of i ex Exited] take by simp
  qed
next
  case (check i ex task now later)
  have "executor_work (set_worker i w ex) < executor_work ex" if "worker_work w < 5" for w
    using executor_work_set_worker [OF check(1), of w] check(2) that by simp
  then show ?case by (simp add: worker_check_def Let_def split: sum.split)
next
  case (start i ex task begun waited)
  have "executor_work (worker_start i task begun waited ex) = executor_work (set_worker i (Searching task begun waited) ex)"
    by (rule executor_work_cong) (simp_all add: worker_start_def)
  then show ?case using executor_work_set_worker [OF start(1), of "Searching task begun waited"] start(2) by simp
next
  case (search i ex task begun waited e now)
  obtain outcome where
    "executor_work (worker_search pf i task begun waited e now ex) = executor_work (set_worker i (Finishing task outcome) ex)"
  proof -
    obtain st r where "store_search pf (task_query task) (task_k task) (task_context task) e (exec_store ex) = (st, r)"
      by (cases "store_search pf (task_query task) (task_k task) (task_context task) e (exec_store ex)")
    then show ?thesis
      by (intro that [of "\<lparr>outcome_result = (case r of Inl _ \<Rightarrow> no_result | Inr result \<Rightarrow> result), queue_us = waited,
          execution_us = microseconds (now - begun), outcome_error = error_of r\<rparr>"] executor_work_cong)
         (simp_all add: worker_search_def)
  qed
  then show ?case using executor_work_set_worker [OF search(1), of "Finishing task outcome"] search(2) by simp
next
  case (finish i ex task outcome ex')
  have "executor_work ex' = executor_work (set_worker i Waiting ex)"
    using finish(3) by (intro executor_work_cong)
      (auto simp: worker_finish_def finish_locked_def result_simps split: if_splits)
  then show ?case using executor_work_set_worker [OF finish(1), of Waiting] finish(2) by simp
qed

lemma worker_steps_work: "(worker_step pf ^^ n) ex ex' \<Longrightarrow> n + executor_work ex' \<le> executor_work ex"
proof (induction n arbitrary: ex')
  case (Suc n)
  then obtain ey where "(worker_step pf ^^ n) ex ey" "worker_step pf ey ex'" by auto
  then show ?case using Suc.IH [of ey] worker_step_work [of pf ey ex'] by simp
qed simp

lemma executor_work_bound: "executor_work ex \<le> 5 * (length (queue ex) + length (worker_states ex))"
proof -
  have "worker_work w \<le> 5" for w by (cases w) simp_all
  then have "sum_list (map worker_work ws) \<le> 5 * length ws" for ws by (induction ws) (auto intro: add_mono)
  from this [of "worker_states ex"] show ?thesis by (simp add: executor_work_def)
qed

text \<open>A worker can act unless it waits for work or has returned.\<close>

lemma worker_enabled:
  assumes "settled {#} ex" "i < length (worker_states ex)"
    and "worker_states ex ! i \<noteq> Exited" "worker_states ex ! i = Waiting \<Longrightarrow> queue ex \<noteq> [] \<or> stopping ex"
  shows "\<exists>ex'. worker_step pf ex ex'"
proof (cases "worker_states ex ! i")
  case Waiting
  then have "\<exists>ex'. worker_take i ex = Some ex'" using assms(4) by (auto simp: worker_take_def Let_def split: list.split)
  then show ?thesis using worker_step.take [OF assms(2) Waiting] by blast
next
  case (Taken task)
  then show ?thesis using worker_step.check [OF assms(2)] by blast
next
  case (Checked task begun waited)
  then show ?thesis using worker_step.start [OF assms(2)] by blast
next
  case (Searching task begun waited)
  then show ?thesis using worker_step.search [OF assms(2)] by blast
next
  case (Finishing task outcome)
  then show ?thesis using worker_step.finish [OF assms(2) Finishing] worker_finish_settled(1) [OF assms(1,2) Finishing] by blast
qed (use assms(3) in simp)

lemma worker_steps_reachable:
  "(worker_step pf)\<^sup>*\<^sup>* ex ex' \<Longrightarrow> executor_reachable pf ex \<Longrightarrow> executor_reachable pf ex'"
  by (induction rule: rtranclp_induct) (auto intro: executor_reachable.worker)

lemma worker_steps_stopping: "(worker_step pf)\<^sup>*\<^sup>* ex ex' \<Longrightarrow> stopping ex' = stopping ex"
proof (induction rule: rtranclp_induct)
  case (step ey ez)
  have "stopping ez = stopping ey"
    using step(2) by (induction rule: worker_step.induct)
      (auto simp: worker_take_def worker_check_def worker_start_def worker_search_def worker_finish_def
        finish_locked_def result_simps Let_def split: list.splits if_splits sum.splits prod.splits)
  then show ?case using step.IH by simp
qed simp

lemma workers_come_to_rest: "\<exists>ex'. (worker_step pf)\<^sup>*\<^sup>* ex ex' \<and> (\<nexists>ez. worker_step pf ex' ez)"
proof (induction "executor_work ex" arbitrary: ex rule: less_induct)
  case less
  show ?case
  proof (cases "\<exists>ey. worker_step pf ex ey")
    case True
    then obtain ey where ey: "worker_step pf ex ey" by blast
    then show ?thesis using less [OF worker_step_work [OF ey]] by (meson converse_rtranclp_into_rtranclp)
  qed blast
qed

text \<open>At rest: nothing waits, every promise is fulfilled, and if stopping every worker returned.\<close>

lemma at_rest:
  assumes "executor_inv pf ex" "\<nexists>ez. worker_step pf ex ez"
  shows "queue ex = []" "None \<notin> set (promises ex)" "stopping ex \<Longrightarrow> shutdown_returns ex"
proof -
  have s: "settled {#} ex" "halted ex" using assms(1) by (simp_all add: executor_inv_def)
  have rest: "worker_states ex ! i = Exited \<or> worker_states ex ! i = Waiting \<and> queue ex = [] \<and> \<not> stopping ex"
    if "i < length (worker_states ex)" for i
    using worker_enabled [OF s(1) that, of pf] assms(2) by blast
  have "0 < length (worker_states ex)" using s(1) by (simp add: settled_def located_def config_positive_def unat_gt_0)
  then show q: "queue ex = []"
  proof (cases "worker_states ex ! 0 = Exited")
    case True
    then have "Exited \<in> set (worker_states ex)" using \<open>0 < _\<close> by (metis nth_mem)
    then show ?thesis using s(2) by (simp add: halted_def)
  qed (use rest \<open>0 < _\<close> in blast)
  have "worker_tickets w = {#}" if "w \<in> set (worker_states ex)" for w
    using that rest by (metis in_set_conv_nth worker_tickets_simps(1,2))
  then have "held (worker_states ex) = {#}" by (auto simp: held_def)
  then have "pending (promises ex) = {}"
    using s(1) q by (simp add: settled_def located_def mset_set_empty_iff)
  then show "None \<notin> set (promises ex)" by (auto simp: pending_def in_set_conv_nth)
  show "shutdown_returns ex" if "stopping ex"
    using that rest by (auto simp: shutdown_returns_def in_set_conv_nth)
qed


section \<open>The properties\<close>

text \<open>A sample: one worker, room for two tasks, and two admitted tasks.\<close>

definition sample_config :: executor_config where
  "sample_config = \<lparr>workers = 1, queue_capacity = 2, task_check_interval = 64\<rparr>"

definition sample_executor :: executor where
  "sample_executor = \<lparr>exec_store = sample_store, exec_config = sample_config, stopping = False, queue = [],
     active = [None], worker_states = [Waiting], stats = initial_stats sample_config, reasons = [], promises = []\<rparr>"

definition sample_submitted :: executor where
  "sample_submitted = fst (executor_submit [0xC0000000] 1 clock_max [] 2000
     (fst (executor_submit [0xC0000000] 1 clock_max [] 1000 sample_executor)))"

lemma sample_executor_reachable: "executor_reachable sample_platform sample_executor"
proof (rule executor_reachable.create)
  show "store_inv sample_platform sample_store" by (rule store_create_inv [OF flat_sample_ok sample_store_create])
  show "executor_create 1 (Some sample_store) sample_config = Inr sample_executor"
    by (simp add: executor_create_def sample_executor_def sample_config_def)
qed

lemma sample_submitted_reachable: "executor_reachable sample_platform sample_submitted"
  unfolding sample_submitted_def
  by (intro executor_reachable.client [OF _ client_step.submit] sample_executor_reachable)

lemma sample_submitted_fields:
  "map ticket (queue sample_submitted) = [0, 1]" "promises sample_submitted = [None, None]"
  "reasons sample_submitted = [NoReason, NoReason]" "worker_states sample_submitted = [Waiting]"
  "\<not> stopping sample_submitted" "length (queue sample_submitted) = 2" "queue sample_submitted \<noteq> []"
  by (simp_all add: sample_submitted_def executor_submit_def sample_executor_def sample_config_def Let_def)





text \<open>Cancelling a waiting task takes effect at once. The task leaves the queue, the others
  keep their order, and its promise is fulfilled with an interruption that carries the first
  reason anybody requested for it; every other promise and every worker is left alone. If the
  task is not waiting, its reason is recorded and nothing else changes.\<close>

theorem executor_cancel_waiting:
  assumes "executor_reachable pf ex" "reason \<noteq> NoReason" "t < length (reasons ex)"
  shows "\<exists>ex'. executor_cancel (Some t) reason now later ex = Inr ex'
    \<and> queue ex' = filter (\<lambda>task. ticket task \<noteq> t) (queue ex)
    \<and> reasons ex' = (reasons ex)[t := cancellation_request reason (reasons ex ! t)]
    \<and> worker_states ex' = worker_states ex \<and> (\<forall>u. u \<noteq> t \<longrightarrow> promises ex' ! u = promises ex ! u)
    \<and> (if t \<in> ticket ` set (queue ex) then \<exists>x. promises ex' ! t = Some x
         \<and> outcome_error x = Some (Search_interrupted (cancellation_request reason (reasons ex ! t)))
       else promises ex' = promises ex)"
proof -
  let ?ey = "request_stop t reason ex"
  have s: "settled {#} ?ey" using executor_reachable_inv [OF assms(1)] by (simp add: executor_inv_def)
  have r: "reasons ?ey = (reasons ex)[t := cancellation_request reason (reasons ex ! t)]" by (simp add: request_stop_def)
  have can: "executor_cancel (Some t) reason now later ex = remove_waiting t now later ?ey"
    using assms(2) by (simp add: executor_cancel_def)
  from s show ?thesis
  proof (cases rule: remove_waiting_cases [where t = t and now = now and later = later])
    case 1
    then have "filter (\<lambda>task. ticket task \<noteq> t) (queue ex) = queue ex" by (simp add: filter_id_conv)
    then show ?thesis using 1 can r by auto
  next
    case (2 xs task ys)
    have "distinct (map ticket (queue ex))"
      using s by (simp add: settled_def located_def strict_sorted_iff)
    then have "t \<notin> ticket ` set xs" "t \<notin> ticket ` set ys" using 2(1,2) by auto
    then have "filter (\<lambda>task. ticket task \<noteq> t) xs = xs" "filter (\<lambda>task. ticket task \<noteq> t) ys = ys"
      by (auto simp: filter_id_conv)
    then have "filter (\<lambda>task. ticket task \<noteq> t) (queue ex) = xs @ ys" using 2(1,2) by simp
    moreover have "t < length (promises ex)" using s assms(3) by (simp add: settled_def located_def)
    moreover have "outcome_error (cancelled_outcome ?ey task now later)
        = Some (Search_interrupted (cancellation_request reason (reasons ex ! t)))"
      using cancelled_outcome_stopped [OF 2(3), of ?ey] request_stop_sets [OF assms(3,2)] r 2(2) assms(3) by simp
    ultimately show ?thesis using 2 can r by (auto simp: nth_list_update)
  qed
qed

theorem executor_cancel_waiting_witness:
  "\<exists>ex'. executor_cancel (Some 0) Cancelled 5000 6000 sample_submitted = Inr ex'
     \<and> map ticket (queue ex') = [1] \<and> (\<exists>x. promises ex' ! 0 = Some x \<and> outcome_error x = Some (Search_interrupted Cancelled))"
proof -
  have q: "\<exists>a b. queue sample_submitted = [a, b] \<and> ticket a = 0 \<and> ticket b = 1"
    using sample_submitted_fields(1) by (auto simp: map_eq_Cons_conv)
  show ?thesis
    using executor_cancel_waiting [OF sample_submitted_reachable, of Cancelled 0 5000 6000] q sample_submitted_fields(3)
    by (auto simp: cancellation_request_def)
qed

text \<open>C21: stopping leaves nothing waiting. It empties the queue, fulfils the promise of every
  waiting task with an interruption and closes admission; a task a worker holds but has not
  checked yet can no longer reach the store, because its check raises.\<close>

theorem executor_stop_interrupts:
  assumes "executor_reachable pf ex" "\<not> stopping ex" "executor_stop clock ex = Inr ex'"
  shows "queue ex' = [] \<and> worker_states ex' = worker_states ex
    \<and> (\<forall>task\<in>set (queue ex). stopped_outcome (promises ex' ! ticket task))
    \<and> (\<forall>query k until expected now. snd (executor_submit query k until expected now ex') = Inl (Search_rejected True))
    \<and> (\<forall>i task now later. i < length (worker_states ex') \<longrightarrow> worker_states ex' ! i = Taken task \<longrightarrow>
         (\<exists>x. worker_check i task now later ex' = set_worker i (Finishing task x) ex' \<and> stopped_outcome (Some x)))"
proof -
  have s: "settled {#} ex" using executor_reachable_inv [OF assms(1)] by (simp add: executor_inv_def)
  have ex': "settled {#} ex'" "halted ex'" "stopping ex'" "worker_states ex' = worker_states ex"
      "\<forall>task\<in>set (queue ex). stopped_outcome (promises ex' ! ticket task)"
    using executor_stop_facts [OF s assms(2), of clock] assms(3) by auto
  have "\<exists>x. worker_check i task now later ex' = set_worker i (Finishing task x) ex' \<and> stopped_outcome (Some x)"
    if i: "i < length (worker_states ex')" "worker_states ex' ! i = Taken task" for i task now later
  proof -
    have "worker_ok (exec_config ex') (active ex' ! i) (worker_states ex' ! i)"
      using list_all2_nthD2 [of "worker_ok (exec_config ex')" "active ex'" "worker_states ex'" i] ex'(1) i(1)
      by (simp add: settled_def located_def)
    then have ok: "task_ok (exec_config ex') task" using i(2) by (simp add: worker_ok_def)
    have "ticket task \<in># held (worker_states ex')" using i by (auto simp: held_ticket)
    then have r: "reasons ex' ! ticket task \<noteq> NoReason" using ex'(2,3) by (simp add: halted_def)
    show ?thesis
      by (intro exI conjI) (simp add: worker_check_def task_check_stopped [OF ok r],
        simp add: stopped_outcome_def is_interruption_def r)
  qed
  then show ?thesis using ex' by (simp add: halted_def executor_submit_def)
qed

theorem executor_stop_interrupts_witness:
  "\<exists>ex'. executor_stop (\<lambda>n. int n) sample_submitted = Inr ex' \<and> queue ex' = []
     \<and> (\<forall>t\<in>{0, 1}. stopped_outcome (promises ex' ! t))"
proof -
  have "settled {#} sample_submitted"
    using executor_reachable_inv [OF sample_submitted_reachable] by (simp add: executor_inv_def)
  then obtain ex' where ex': "executor_stop (\<lambda>n. int n) sample_submitted = Inr ex'"
    using executor_stop_facts [of sample_submitted "\<lambda>n. int n"] sample_submitted_fields(5) by auto
  have "ticket ` set (queue sample_submitted) = {0, 1}"
    using arg_cong [OF sample_submitted_fields(1), of set] by simp
  then show ?thesis
    using executor_stop_interrupts [OF sample_submitted_reachable sample_submitted_fields(5) ex'] ex'
    by (metis (no_types, lifting) imageE)
qed

text \<open>C20: the workers terminate. Without further calls of the clients, the workers together
  take at most five actions for each waiting task and five for each worker, whatever the
  interleaving and whatever the searches find.\<close>

theorem executor_workers_terminate:
  "(worker_step pf ^^ n) ex ex' \<Longrightarrow> n \<le> 5 * (length (queue ex) + length (worker_states ex))"
  using worker_steps_work [of n pf ex ex'] executor_work_bound [of ex] by linarith

theorem executor_workers_terminate_witness:
  "\<exists>ex'. (worker_step sample_platform ^^ 1) sample_submitted ex' \<and> 1 \<le> 5 * (length (queue sample_submitted) + 1)"
proof -
  have "\<exists>ex'. worker_take 0 sample_submitted = Some ex'"
    using sample_submitted_fields(7) by (auto simp: worker_take_def Let_def split: list.split)
  then obtain ex' where "worker_step sample_platform sample_submitted ex'"
    using worker_step.take [of 0 sample_submitted] sample_submitted_fields(4) by fastforce
  then have "(worker_step sample_platform ^^ 1) sample_submitted ex'" by (simp only: relpowp_1)
  then show ?thesis using executor_workers_terminate [of 1 sample_platform sample_submitted ex'] sample_submitted_fields(4)
    by auto
qed



end
