(* ===== verification/Batch_Searcher.thy ===== *)
theory Batch_Searcher
  imports Vector_Store_Theorems
begin

text \<open>
  src/batch_searcher.cpp: a reusable pool of workers that answers matrices of queries. The pool
  serves any number of concurrent callers; a job is a call and the number of a query in it. Each
  critical section of the queue mutex and each search is one atomic step. The index is shared
  and not mutated meanwhile. The context of these searches is the default one, which is not
  enabled, so they observe no environment.
\<close>

section \<open>State\<close>

record batch_call =
  call_queries :: "f32 list"
  call_count :: nat
  call_k :: nat
  call_results :: "search_result list list"
  completions :: "unit result option list"

datatype batch_worker = Idle | Working "nat \<times> nat" | Returned

record batch_pool =
  pool_index :: vector_index
  work_queue :: "(nat \<times> nat) list"
  pool_workers :: "batch_worker list"
  pool_stopping :: bool
  calls :: "batch_call list"

definition unobserved :: environment where
  "unobserved = (\<lambda>_. (NoReason, 0))"

lemma unobserved_check: "check default_context env n = check default_context unobserved n"
  by simp

text \<open>The constructor; \<open>threads\<close> is how many threads can be created.\<close>

definition batch_create :: "nat \<Rightarrow> vector_index \<Rightarrow> nat \<Rightarrow> batch_pool result" where
  "batch_create threads ix thread_count =
     (if thread_count = 0 then Inl (Invalid_argument ''batch search thread n must be greater than zero'')
      else if threads < thread_count then Inl (Runtime_error ''thread creation failed'')
      else Inr \<lparr>pool_index = ix, work_queue = [], pool_workers = replicate thread_count Idle,
        pool_stopping = False, calls = []\<rparr>)"

definition batch_thread_count :: "batch_pool \<Rightarrow> nat" where
  "batch_thread_count p = length (pool_workers p)"

section \<open>A call\<close>

definition check_shape :: "nat \<Rightarrow> nat \<Rightarrow> nat \<Rightarrow> unit result" where
  "check_shape dims len n =
     (if n \<noteq> 0 \<and> (2 ^ 64 - 1) div n < dims then Inl (Invalid_argument ''batch query shape overflows'')
      else if len \<noteq> n * dims then
        Inl (Invalid_argument ''batch query data does not match query_count and dimension'')
      else Inr ())"

text \<open>A call that passes: either its result at once, or its number in the pool.\<close>

definition batch_begin ::
  "f32 list \<Rightarrow> nat \<Rightarrow> nat \<Rightarrow> batch_pool \<Rightarrow> batch_pool \<times> (search_result list list + nat) result" where
  "batch_begin queries n k p =
     (case check_shape (index_dimension (pool_index p)) (length queries) n of
        Inl e \<Rightarrow> (p, Inl e)
      | Inr u \<Rightarrow>
          if n = 0 \<or> k = 0 then (p, Inr (Inl (replicate n [])))
          else (p\<lparr>calls := calls p @ [\<lparr>call_queries = queries, call_count = n, call_k = k,
                  call_results = replicate n [], completions = []\<rparr>]\<rparr>, Inr (Inr (length (calls p)))))"

text \<open>\<open>submit\<close>: the next query of a call enters the queue, with a future for its completion.\<close>

definition batch_submit :: "nat \<Rightarrow> batch_pool \<Rightarrow> batch_pool result" where
  "batch_submit c p =
     (if pool_stopping p then Inl (Runtime_error ''batch searcher is stopping'')
      else let call = calls p ! c in
        Inr (p\<lparr>work_queue := work_queue p @ [(c, length (completions call))],
               calls := (calls p)[c := call\<lparr>completions := completions call @ [None]\<rparr>]\<rparr>))"

fun first_error :: "cpp_error option \<Rightarrow> unit result list \<Rightarrow> cpp_error option" where
  "first_error e [] = e"
| "first_error e (Inr u # rs) = first_error e rs"
| "first_error e (Inl x # rs) = first_error (if e = None then Some x else e) rs"

text \<open>Once every query is submitted the caller waits for every completion; \<open>None\<close> while one is missing.\<close>

definition batch_collect :: "batch_call \<Rightarrow> search_result list list result option" where
  "batch_collect call =
     (if length (completions call) < call_count call \<or> None \<in> set (completions call) then None
      else case first_error None (map the (completions call)) of
        Some e \<Rightarrow> Some (Inl e)
      | None \<Rightarrow> Some (Inr (call_results call)))"

section \<open>The loop of a worker\<close>

definition batch_take :: "nat \<Rightarrow> batch_pool \<Rightarrow> batch_pool option" where
  "batch_take i p =
     (case work_queue p of
        [] \<Rightarrow> if pool_stopping p then Some (p\<lparr>pool_workers := (pool_workers p)[i := Returned]\<rparr>) else None
      | job # jobs \<Rightarrow> Some (p\<lparr>work_queue := jobs, pool_workers := (pool_workers p)[i := Working job]\<rparr>))"

definition batch_run_job :: "platform \<Rightarrow> nat \<times> nat \<Rightarrow> batch_pool \<Rightarrow> batch_pool" where
  "batch_run_job pf job p =
     (case job of (c, q) \<Rightarrow>
        let call = calls p ! c;
            r = index_search_default pf (pool_index p)
                  (row_of (index_dimension (pool_index p)) (call_queries call) q) (call_k call) unobserved
        in case r of
             Inl e \<Rightarrow> p\<lparr>calls := (calls p)[c := call\<lparr>completions := (completions call)[q := Some (Inl e)]\<rparr>]\<rparr>
           | Inr rs \<Rightarrow> p\<lparr>calls := (calls p)[c := call\<lparr>completions := (completions call)[q := Some (Inr ())],
                         call_results := (call_results call)[q := rs]\<rparr>]\<rparr>)"

definition batch_run :: "platform \<Rightarrow> nat \<Rightarrow> nat \<times> nat \<Rightarrow> batch_pool \<Rightarrow> batch_pool" where
  "batch_run pf i job p =
     (batch_run_job pf job p)\<lparr>pool_workers := (pool_workers p)[i := Idle]\<rparr>"

inductive batch_worker_step :: "platform \<Rightarrow> batch_pool \<Rightarrow> batch_pool \<Rightarrow> bool" for pf where
  take: "i < length (pool_workers p) \<Longrightarrow> pool_workers p ! i = Idle \<Longrightarrow> batch_take i p = Some p' \<Longrightarrow>
    batch_worker_step pf p p'"
| run: "i < length (pool_workers p) \<Longrightarrow> pool_workers p ! i = Working job \<Longrightarrow>
    batch_worker_step pf p (batch_run pf i job p)"

text \<open>The callers; the destructor sets the stopping flag.\<close>

inductive batch_caller_step :: "batch_pool \<Rightarrow> batch_pool \<Rightarrow> bool" where
  admit: "batch_caller_step p (fst (batch_begin queries n k p))"
| submit: "c < length (calls p) \<Longrightarrow> length (completions (calls p ! c)) < call_count (calls p ! c) \<Longrightarrow>
    batch_submit c p = Inr p' \<Longrightarrow> batch_caller_step p p'"
| destroy: "batch_caller_step p (p\<lparr>pool_stopping := True\<rparr>)"

inductive batch_reachable :: "platform \<Rightarrow> batch_pool \<Rightarrow> bool" for pf where
  create: "batch_create threads ix n = Inr p \<Longrightarrow> batch_reachable pf p"
| worker: "batch_reachable pf p \<Longrightarrow> batch_worker_step pf p p' \<Longrightarrow> batch_reachable pf p'"
| caller: "batch_reachable pf p \<Longrightarrow> batch_caller_step p p' \<Longrightarrow> batch_reachable pf p'"

section \<open>Reference\<close>

text \<open>One query after the other, until one raises.\<close>

fun search_in_turn :: "('q \<Rightarrow> 'r result) \<Rightarrow> 'q list \<Rightarrow> 'r list result" where
  "search_in_turn f [] = Inr []"
| "search_in_turn f (q # qs) = and_then (f q) (\<lambda>r. and_then (search_in_turn f qs) (\<lambda>rs. Inr (r # rs)))"

definition batch_query :: "platform \<Rightarrow> vector_index \<Rightarrow> f32 list \<Rightarrow> nat \<Rightarrow> nat \<Rightarrow> search_result list result" where
  "batch_query pf ix queries k q = index_search_default pf ix (row_of (index_dimension ix) queries q) k unobserved"

definition batch_reference ::
  "platform \<Rightarrow> vector_index \<Rightarrow> f32 list \<Rightarrow> nat \<Rightarrow> nat \<Rightarrow> search_result list list result" where
  "batch_reference pf ix queries n k = search_in_turn (batch_query pf ix queries k) [0..<n]"

end
