(* ===== verification/Batch_Searcher_Theorems.thy ===== *)
theory Batch_Searcher_Theorems
  imports Batch_Searcher
begin

text \<open>
  The pool of the batch searcher is a parallel implementation of a sequential loop: whatever the
  interleaving of workers and callers, a call collects the results of its queries in order, or the
  error of the first query that raises; and the workers always finish the submitted queries.
\<close>

section \<open>The two readings of a batch\<close>

definition outcome_of :: "'a result \<Rightarrow> unit result" where
  "outcome_of r = (case r of Inl e \<Rightarrow> Inl e | Inr _ \<Rightarrow> Inr ())"

lemma outcome_of_simps [simp]: "outcome_of (Inl e) = Inl e" "outcome_of (Inr x) = Inr ()"
  by (simp_all add: outcome_of_def)

lemma first_error_Some [simp]: "first_error (Some e) rs = Some e"
proof (induction rs)
  case (Cons r rs)
  then show ?case by (cases r) simp_all
qed simp

lemma search_in_turn_errors:
  "first_error None (map (outcome_of \<circ> f) qs) = (case search_in_turn f qs of Inl e \<Rightarrow> Some e | Inr _ \<Rightarrow> None)"
proof (induction qs)
  case (Cons q qs)
  show ?case
  proof (cases "f q")
    case (Inr r)
    then show ?thesis using Cons by (cases "search_in_turn f qs") simp_all
  qed simp
qed simp

lemma search_in_turn_results:
  "search_in_turn f qs = Inr rs \<longleftrightarrow> length rs = length qs \<and> (\<forall>i < length qs. f (qs ! i) = Inr (rs ! i))"
proof (induction qs arbitrary: rs)
  case (Cons q qs)
  show ?case
    by (cases rs) (auto simp: result_simps Cons.IH nth_Cons less_Suc_eq_0_disj split: nat.split)
qed auto

section \<open>The invariant\<close>

definition working_jobs :: "batch_worker list \<Rightarrow> (nat \<times> nat) set" where
  "working_jobs ws = {job. \<exists>j < length ws. ws ! j = Working job}"

definition jobs_of :: "batch_pool \<Rightarrow> (nat \<times> nat) set" where
  "jobs_of p = set (work_queue p) \<union> working_jobs (pool_workers p)"

definition call_ok :: "(nat \<Rightarrow> search_result list result) \<Rightarrow> nat set \<Rightarrow> batch_call \<Rightarrow> bool" where
  "call_ok f open_jobs call \<longleftrightarrow>
     length (completions call) \<le> call_count call \<and> length (call_results call) = call_count call
   \<and> (\<forall>q < length (completions call).
        case completions call ! q of
          None \<Rightarrow> q \<in> open_jobs
        | Some r \<Rightarrow> r = outcome_of (f q) \<and> (\<forall>rs. f q = Inr rs \<longrightarrow> call_results call ! q = rs))"

definition call_query :: "platform \<Rightarrow> batch_pool \<Rightarrow> batch_call \<Rightarrow> nat \<Rightarrow> search_result list result" where
  "call_query pf p call = batch_query pf (pool_index p) (call_queries call) (call_k call)"

definition open_jobs :: "batch_pool \<Rightarrow> nat \<Rightarrow> nat set" where
  "open_jobs p c = {q. (c, q) \<in> jobs_of p}"

definition batch_inv :: "platform \<Rightarrow> batch_pool \<Rightarrow> bool" where
  "batch_inv pf p \<longleftrightarrow>
     pool_workers p \<noteq> []
   \<and> (Returned \<in> set (pool_workers p) \<longrightarrow> pool_stopping p \<and> work_queue p = [])
   \<and> (\<forall>(c, q) \<in> jobs_of p. c < length (calls p) \<and> q < length (completions (calls p ! c)))
   \<and> (\<forall>c < length (calls p). call_ok (call_query pf p (calls p ! c)) (open_jobs p c) (calls p ! c))"

lemma call_ok_mono: "call_ok f A call \<Longrightarrow> A \<subseteq> B \<Longrightarrow> call_ok f B call"
  by (fastforce simp: call_ok_def split: option.splits)

lemma working_jobs_take:
  "i < length ws \<Longrightarrow> ws ! i = Idle \<Longrightarrow> working_jobs (ws[i := Working job]) = insert job (working_jobs ws)"
  unfolding working_jobs_def by (auto simp: nth_list_update) (metis batch_worker.distinct(1))

lemma working_jobs_return:
  "i < length ws \<Longrightarrow> ws ! i = Idle \<Longrightarrow> working_jobs (ws[i := Returned]) = working_jobs ws"
  unfolding working_jobs_def by (auto simp: nth_list_update) (metis batch_worker.distinct(1))

lemma working_jobs_idle:
  assumes "i < length ws" "ws ! i = Working job"
  shows "working_jobs ws \<subseteq> insert job (working_jobs (ws[i := Idle]))" "working_jobs (ws[i := Idle]) \<subseteq> working_jobs ws"
    "job \<in> working_jobs ws"
  using assms unfolding working_jobs_def by (auto simp: nth_list_update split: if_splits) (metis batch_worker.inject)

section \<open>Every step keeps it\<close>

lemma returned_update: "Returned \<in> set (ws[i := w]) \<Longrightarrow> w = Returned \<or> Returned \<in> set ws"
  using set_update_subset_insert [of ws i w] by auto

lemma batch_take_inv:
  assumes inv: "batch_inv pf p" and i: "i < length (pool_workers p)" and idle: "pool_workers p ! i = Idle"
    and t: "batch_take i p = Some p'"
  shows "batch_inv pf p'"
proof (cases "work_queue p")
  case Nil
  then have p': "p' = p\<lparr>pool_workers := (pool_workers p)[i := Returned]\<rparr>" "pool_stopping p"
    using t by (auto simp: batch_take_def split: if_splits)
  then have "jobs_of p' = jobs_of p" using Nil working_jobs_return [OF i idle] by (simp add: jobs_of_def)
  then show ?thesis using inv p' Nil by (simp add: batch_inv_def open_jobs_def call_query_def)
next
  case (Cons job jobs)
  then have p': "p' = p\<lparr>work_queue := jobs, pool_workers := (pool_workers p)[i := Working job]\<rparr>"
    using t by (simp add: batch_take_def)
  have "jobs_of p' = jobs_of p" using p' Cons working_jobs_take [OF i idle] by (simp add: jobs_of_def)
  then show ?thesis using inv p' Cons by (auto simp: batch_inv_def open_jobs_def call_query_def dest!: returned_update)
qed

lemma call_ok_run:
  assumes "call_ok f A call" "q < length (completions call)"
  shows "f q = Inl e \<Longrightarrow> call_ok f (A - {q}) (call\<lparr>completions := (completions call)[q := Some (Inl e)]\<rparr>)"
    "f q = Inr rs \<Longrightarrow> call_ok f (A - {q}) (call\<lparr>completions := (completions call)[q := Some (Inr ())],
        call_results := (call_results call)[q := rs]\<rparr>)"
  using assms by (auto simp: call_ok_def nth_list_update split: option.splits)

lemma batch_run_inv:
  assumes inv: "batch_inv pf p" and i: "i < length (pool_workers p)" and w: "pool_workers p ! i = Working job"
  shows "batch_inv pf (batch_run pf i job p)"
proof -
  obtain c q where job: "job = (c, q)" by (cases job)
  let ?call = "calls p ! c" and ?p = "batch_run pf i job p"
  have "job \<in> jobs_of p" using working_jobs_idle(3) [OF i w] by (simp add: jobs_of_def)
  then have c: "c < length (calls p)" "q < length (completions ?call)" using inv job by (auto simp: batch_inv_def)
  have jobs: "jobs_of p \<subseteq> insert job (jobs_of ?p)" "jobs_of ?p \<subseteq> jobs_of p"
    using working_jobs_idle [OF i w] by (auto simp: jobs_of_def batch_run_def batch_run_job_def Let_def split: prod.split sum.split)
  obtain call' where call': "calls ?p = (calls p)[c := call']"
    "call_ok (call_query pf p ?call) (open_jobs p c - {q}) call'" "call_queries call' = call_queries ?call"
    "call_k call' = call_k ?call" "length (completions call') = length (completions ?call)"
  proof -
    have ok: "call_ok (call_query pf p ?call) (open_jobs p c) ?call" using inv c by (simp add: batch_inv_def)
    show ?thesis
      using that call_ok_run [OF ok c(2)]
      by (cases "call_query pf p ?call q")
         (auto simp: batch_run_def batch_run_job_def job call_query_def batch_query_def Let_def)
  qed
  have query: "call_query pf ?p call' = call_query pf p ?call" "call_query pf ?p = call_query pf p"
    using call' by (auto simp: call_query_def batch_run_def batch_run_job_def job Let_def fun_eq_iff split: sum.split)
  have "call_ok (call_query pf ?p (calls ?p ! d)) (open_jobs ?p d) (calls ?p ! d)" if d: "d < length (calls p)" for d
  proof (cases "d = c")
    case True
    have "open_jobs p c - {q} \<subseteq> open_jobs ?p c" using jobs job by (auto simp: open_jobs_def)
    then show ?thesis using call_ok_mono [OF call'(2)] call' query c True by (simp add: call_query_def)
  next
    case False
    then have "open_jobs p d \<subseteq> open_jobs ?p d" using jobs job by (auto simp: open_jobs_def)
    moreover have "call_ok (call_query pf p (calls p ! d)) (open_jobs p d) (calls p ! d)" using inv d by (simp add: batch_inv_def)
    ultimately show ?thesis using call_ok_mono False call'(1) query(2) by simp
  qed
  moreover have "a < length (calls ?p) \<and> b < length (completions (calls ?p ! a))" if "(a, b) \<in> jobs_of ?p" for a b
  proof -
    have "a < length (calls p) \<and> b < length (completions (calls p ! a))"
      using inv jobs(2) that unfolding batch_inv_def by blast
    then show ?thesis using call' by (cases "a = c") simp_all
  qed
  moreover have "pool_workers ?p = (pool_workers p)[i := Idle]" "pool_stopping ?p = pool_stopping p" "work_queue ?p = work_queue p"
    by (simp_all add: batch_run_def batch_run_job_def job Let_def split: sum.split)
  ultimately show ?thesis using inv call'(1) by (auto simp: batch_inv_def dest!: returned_update)
qed


lemma call_ok_fresh: "call_ok f A \<lparr>call_queries = qs, call_count = n, call_k = k, call_results = replicate n [], completions = []\<rparr>"
  by (simp add: call_ok_def)

lemma batch_begin_inv:
  assumes inv: "batch_inv pf p"
  shows "batch_inv pf (fst (batch_begin queries n k p))"
proof (cases "fst (batch_begin queries n k p) = p")
  case False
  let ?call = "\<lparr>call_queries = queries, call_count = n, call_k = k, call_results = replicate n [], completions = []\<rparr>"
  have p': "fst (batch_begin queries n k p) = p\<lparr>calls := calls p @ [?call]\<rparr>"
    using False by (auto simp: batch_begin_def split: sum.splits if_splits)
  have jobs: "jobs_of (p\<lparr>calls := calls p @ [?call]\<rparr>) = jobs_of p" by (simp add: jobs_of_def)
  show ?thesis
    unfolding p' using inv jobs call_ok_fresh
    by (auto simp: batch_inv_def nth_append less_Suc_eq open_jobs_def call_query_def)
qed (use inv in simp)

lemma call_ok_submit:
  "call_ok f A call \<Longrightarrow> length (completions call) < call_count call \<Longrightarrow>
     call_ok f (insert (length (completions call)) A) (call\<lparr>completions := completions call @ [None]\<rparr>)"
  by (auto simp: call_ok_def nth_append less_Suc_eq split: option.splits)

lemma batch_submit_inv:
  assumes inv: "batch_inv pf p" and c: "c < length (calls p)"
    and n: "length (completions (calls p ! c)) < call_count (calls p ! c)" and s: "batch_submit c p = Inr p'"
  shows "batch_inv pf p'"
proof -
  let ?call = "calls p ! c" let ?n = "length (completions ?call)"
  let ?call' = "?call\<lparr>completions := completions ?call @ [None]\<rparr>"
  have p': "p' = p\<lparr>work_queue := work_queue p @ [(c, ?n)], calls := (calls p)[c := ?call']\<rparr>" and "\<not> pool_stopping p"
    using s by (auto simp: batch_submit_def Let_def split: if_splits)
  have jobs: "jobs_of p' = insert (c, ?n) (jobs_of p)" by (auto simp: jobs_of_def p')
  have ok: "call_ok (call_query pf p (calls p ! d)) (open_jobs p d) (calls p ! d)" if "d < length (calls p)" for d
    using inv that by (simp add: batch_inv_def)
  have "call_ok (call_query pf p' (calls p' ! d)) (open_jobs p' d) (calls p' ! d)" if d: "d < length (calls p)" for d
  proof (cases "d = c")
    case True
    have "open_jobs p' c = insert ?n (open_jobs p c)" using jobs by (auto simp: open_jobs_def)
    moreover have "call_query pf p' ?call' = call_query pf p ?call" by (simp add: call_query_def p' fun_eq_iff)
    ultimately show ?thesis using call_ok_submit [OF ok [OF c] n] True c by (simp add: p')
  next
    case False
    have "open_jobs p d \<subseteq> open_jobs p' d" using jobs by (auto simp: open_jobs_def)
    moreover have "call_query pf p' = call_query pf p" by (simp add: call_query_def p' fun_eq_iff)
    ultimately show ?thesis using call_ok_mono [OF ok [OF d]] False by (simp add: p')
  qed
  moreover have "a < length (calls p') \<and> b < length (completions (calls p' ! a))" if "(a, b) \<in> jobs_of p'" for a b
  proof -
    have "a < length (calls p) \<and> b < length (completions (calls p ! a)) \<or> a = c \<and> b = ?n"
      using inv that unfolding jobs batch_inv_def by blast
    then show ?thesis using c by (cases "a = c") (auto simp: p')
  qed
  ultimately show ?thesis using inv \<open>\<not> pool_stopping p\<close> by (auto simp: batch_inv_def p')
qed

lemma batch_reachable_inv: "batch_reachable pf p \<Longrightarrow> batch_inv pf p"
proof (induction rule: batch_reachable.induct)
  case (create threads ix n p)
  then show ?case
    by (auto simp: batch_create_def batch_inv_def jobs_of_def working_jobs_def split: if_splits)
next
  case (worker p p')
  from worker(2,3) show ?case
    by (induction rule: batch_worker_step.induct) (auto intro: batch_take_inv batch_run_inv)
next
  case (caller p p')
  from caller(2,3) show ?case
  proof (induction rule: batch_caller_step.induct)
    case (destroy p)
    then show ?case by (simp add: batch_inv_def jobs_of_def open_jobs_def call_query_def)
  qed (auto intro: batch_begin_inv batch_submit_inv)
qed

section \<open>What a call collects\<close>

lemma batch_collect_complete:
  assumes ok: "call_ok f A call" and full: "length (completions call) = call_count call" "None \<notin> set (completions call)"
  shows "batch_collect call = Some (search_in_turn f [0..<call_count call])"
proof -
  have q: "completions call ! q = Some (outcome_of (f q)) \<and> (\<forall>rs. f q = Inr rs \<longrightarrow> call_results call ! q = rs)"
    if "q < call_count call" for q
  proof -
    have "completions call ! q \<noteq> None" using full that by (metis nth_mem)
    then obtain r where r: "completions call ! q = Some r" by blast
    have "case completions call ! q of None \<Rightarrow> q \<in> A
        | Some r \<Rightarrow> r = outcome_of (f q) \<and> (\<forall>rs. f q = Inr rs \<longrightarrow> call_results call ! q = rs)"
      using ok full(1) that by (simp add: call_ok_def)
    then show ?thesis using r by simp
  qed
  then have "map the (completions call) = map (outcome_of \<circ> f) [0..<call_count call]"
    using full(1) by (intro nth_equalityI) simp_all
  then have errors: "first_error None (map the (completions call))
      = (case search_in_turn f [0..<call_count call] of Inl e \<Rightarrow> Some e | Inr _ \<Rightarrow> None)"
    by (simp only: search_in_turn_errors)
  show ?thesis
  proof (cases "search_in_turn f [0..<call_count call]")
    case (Inr rs)
    then have "length rs = call_count call" "\<forall>i < call_count call. f i = Inr (rs ! i)"
      by (simp_all add: search_in_turn_results)
    then have "call_results call = rs" using ok q by (intro nth_equalityI) (auto simp: call_ok_def)
    then show ?thesis using errors full Inr by (simp add: batch_collect_def)
  qed (use errors full in \<open>simp add: batch_collect_def\<close>)
qed

lemma batch_collect_call:
  assumes "batch_inv pf p" "c < length (calls p)"
    and "length (completions (calls p ! c)) = call_count (calls p ! c)" "None \<notin> set (completions (calls p ! c))"
  shows "batch_collect (calls p ! c) = Some (batch_reference pf (pool_index p) (call_queries (calls p ! c))
      (call_count (calls p ! c)) (call_k (calls p ! c)))"
proof -
  have "call_ok (call_query pf p (calls p ! c)) (open_jobs p c) (calls p ! c)" using assms(1,2) by (simp add: batch_inv_def)
  from batch_collect_complete [OF this assms(3,4)] show ?thesis by (simp add: batch_reference_def call_query_def)
qed

section \<open>The workers finish\<close>

fun batch_worker_work :: "batch_worker \<Rightarrow> nat" where
  "batch_worker_work Returned = 0"
| "batch_worker_work Idle = 1"
| "batch_worker_work (Working job) = 2"

definition batch_work :: "batch_pool \<Rightarrow> nat" where
  "batch_work p = 2 * length (work_queue p) + sum_list (map batch_worker_work (pool_workers p))"

lemma sum_list_set:
  "i < length xs \<Longrightarrow> sum_list (map f (xs[i := x])) + f (xs ! i) = sum_list (map f xs) + (f x :: nat)"
proof (induction xs arbitrary: i)
  case (Cons y ys)
  then show ?case by (cases i) (auto simp: add.assoc)
qed simp

lemma batch_worker_step_work: "batch_worker_step pf p p' \<Longrightarrow> batch_work p' < batch_work p"
proof (induction rule: batch_worker_step.induct)
  case (take i p p')
  then show ?case
    using sum_list_set [OF take(1), of batch_worker_work Returned]
      sum_list_set [OF take(1), of batch_worker_work "Working (hd (work_queue p))"]
    by (auto simp: batch_take_def batch_work_def split: list.splits if_splits)
next
  case (run i p job)
  have "work_queue (batch_run pf i job p) = work_queue p" "pool_workers (batch_run pf i job p) = (pool_workers p)[i := Idle]"
    by (auto simp: batch_run_def batch_run_job_def Let_def split: prod.split sum.split)
  then show ?case using sum_list_set [OF run(1), of batch_worker_work Idle] run(2) by (simp add: batch_work_def)
qed

lemma batch_come_to_rest: "\<exists>p'. (batch_worker_step pf)\<^sup>*\<^sup>* p p' \<and> (\<nexists>z. batch_worker_step pf p' z)"
proof (induction "batch_work p" arbitrary: p rule: less_induct)
  case less
  show ?case
  proof (cases "\<exists>y. batch_worker_step pf p y")
    case True
    then obtain y where y: "batch_worker_step pf p y" by blast
    then show ?thesis using less [OF batch_worker_step_work [OF y]] by (meson converse_rtranclp_into_rtranclp)
  qed blast
qed

lemma batch_at_rest:
  assumes inv: "batch_inv pf p" and rest: "\<nexists>z. batch_worker_step pf p z"
  shows "jobs_of p = {}"
proof -
  have no: "pool_workers p ! i \<noteq> Working job" if "i < length (pool_workers p)" for i job
    using batch_worker_step.run [OF that] rest by blast
  have "work_queue p = []"
  proof (rule ccontr)
    assume "work_queue p \<noteq> []"
    then obtain job jobs where q: "work_queue p = job # jobs" by (cases "work_queue p") simp_all
    have z: "0 < length (pool_workers p)" using inv by (simp add: batch_inv_def)
    then have "pool_workers p ! 0 \<noteq> Idle"
      using batch_worker_step.take [OF z] rest by (auto simp: batch_take_def q)
    then have "pool_workers p ! 0 = Returned" using no [OF z] by (cases "pool_workers p ! 0") auto
    then have "Returned \<in> set (pool_workers p)" using z by (metis nth_mem)
    then show False using inv q by (simp add: batch_inv_def)
  qed
  then show ?thesis using no by (auto simp: jobs_of_def working_jobs_def)
qed

text \<open>What the workers leave alone.\<close>

definition call_summary :: "batch_call \<Rightarrow> f32 list \<times> nat \<times> nat \<times> nat" where
  "call_summary call = (call_queries call, call_count call, call_k call, length (completions call))"

definition same_calls :: "batch_pool \<Rightarrow> batch_pool \<Rightarrow> bool" where
  "same_calls p p' \<longleftrightarrow> pool_index p' = pool_index p \<and> map call_summary (calls p') = map call_summary (calls p)"

lemma map_update_same: "g y = g (xs ! i) \<Longrightarrow> map g (xs[i := y]) = map g xs"
  by (metis map_update list_update_id)

lemma same_calls_nth:
  assumes "same_calls p p'" "c < length (calls p)"
  shows "call_summary (calls p' ! c) = call_summary (calls p ! c)" "c < length (calls p')"
proof -
  have eq: "map call_summary (calls p') = map call_summary (calls p)" using assms(1) by (simp add: same_calls_def)
  then show "c < length (calls p')" using assms(2) by (metis length_map)
  then show "call_summary (calls p' ! c) = call_summary (calls p ! c)" using eq assms(2) by (metis nth_map)
qed

lemma batch_worker_step_same: "batch_worker_step pf p p' \<Longrightarrow> same_calls p p'"
proof (induction rule: batch_worker_step.induct)
  case (take i p p')
  then show ?case by (auto simp: same_calls_def batch_take_def split: list.splits if_splits)
next
  case (run i p job)
  then show ?case
    by (auto simp: same_calls_def batch_run_def batch_run_job_def Let_def call_summary_def
        intro!: map_update_same split: prod.split sum.split)
qed

lemma batch_steps_same: "(batch_worker_step pf)\<^sup>*\<^sup>* p p' \<Longrightarrow> same_calls p p'"
proof (induction rule: rtranclp_induct)
  case (step y z)
  then show ?case using batch_worker_step_same [OF step(2)] by (simp add: same_calls_def)
qed (simp add: same_calls_def)

lemma batch_steps_reachable:
  "(batch_worker_step pf)\<^sup>*\<^sup>* p p' \<Longrightarrow> batch_reachable pf p \<Longrightarrow> batch_reachable pf p'"
  by (induction rule: rtranclp_induct) (auto intro: batch_reachable.worker)


section \<open>The properties\<close>

text \<open>Under the contract of the index a batch of normalizable queries succeeds.\<close>

lemma batch_reference_valid:
  assumes ok: "index_ok pf ix" "runs_on (has_avx2 pf) (index_kernel ix)" and len: "length queries = n * index_dimension ix"
    and norm: "\<And>q. q < n \<Longrightarrow> \<exists>v. normalize_l2 (row_of (index_dimension ix) queries q) = Inr v"
  shows "\<exists>rss. batch_reference pf ix queries n k = Inr rss \<and> length rss = n
    \<and> (\<forall>q < n. sorted_wrt is_better (rss ! q) \<and> length (rss ! q) \<le> k)"
proof -
  have "\<exists>rs. batch_query pf ix queries k q = Inr rs \<and> sorted_wrt is_better rs \<and> length rs \<le> k" if q: "q < n" for q
  proof -
    have row: "length (row_of (index_dimension ix) queries q) = index_dimension ix" by (rule length_row_of [OF len q])
    obtain v where v: "normalize_l2 (row_of (index_dimension ix) queries q) = Inr v" using norm [OF q] by blast
    obtain rs where rs: "index_search pf ix (row_of (index_dimension ix) queries q) k default_context unobserved = Inr rs"
      using any_index.search_valid [OF ok _ row v, of default_context unobserved k] by auto
    then show ?thesis
      using any_index.search_results [OF ok rs] by (simp add: batch_query_def index_search_context)
  qed
  then obtain g where g: "\<forall>q < n. batch_query pf ix queries k q = Inr (g q) \<and> sorted_wrt is_better (g q) \<and> length (g q) \<le> k"
    by metis
  then have "batch_reference pf ix queries n k = Inr (map g [0..<n])"
    by (simp add: batch_reference_def search_in_turn_results)
  then show ?thesis using g by simp
qed

definition sample_pool :: batch_pool where
  "sample_pool = \<lparr>pool_index = Flat flat_sample, work_queue = [], pool_workers = [Idle], pool_stopping = False, calls = []\<rparr>"

definition sample_batch :: batch_pool where
  "sample_batch = \<lparr>pool_index = Flat flat_sample, work_queue = [(0, 0)], pool_workers = [Idle], pool_stopping = False,
     calls = [\<lparr>call_queries = [0xC0000000], call_count = 1, call_k = 1, call_results = [[]], completions = [None]\<rparr>]\<rparr>"

lemma sample_batch_reachable: "batch_reachable sample_platform sample_batch"
proof -
  have "batch_create 1 (Flat flat_sample) 1 = Inr sample_pool" by (simp add: batch_create_def sample_pool_def)
  then have "batch_reachable sample_platform sample_pool" by (rule batch_reachable.create)
  then have begun: "batch_reachable sample_platform (fst (batch_begin [0xC0000000] 1 1 sample_pool))"
    by (rule batch_reachable.caller) (rule batch_caller_step.admit)
  have "batch_submit 0 (fst (batch_begin [0xC0000000] 1 1 sample_pool)) = Inr sample_batch"
    by (simp add: batch_submit_def batch_begin_def check_shape_def sample_pool_def sample_batch_def Let_def)
  then show ?thesis
    by (intro batch_reachable.caller [OF begun] batch_caller_step.submit [where c = 0])
       (simp_all add: batch_begin_def check_shape_def sample_pool_def)
qed

lemma sample_batch_reference: "\<exists>rs. batch_reference sample_platform (Flat flat_sample) [0xC0000000] 1 1 = Inr [rs]"
proof -
  have "\<exists>rss. batch_reference sample_platform (Flat flat_sample) [0xC0000000] 1 1 = Inr rss \<and> length rss = 1
      \<and> (\<forall>q < 1. sorted_wrt is_better (rss ! q) \<and> length (rss ! q) \<le> 1)"
    by (rule batch_reference_valid [OF flat_sample_ok]) (simp_all add: runs_on_def row_of_def)
  then show ?thesis by (auto simp: length_Suc_conv)
qed

text \<open>C23: the pool is a sequential loop in disguise. Whatever the interleaving of the workers and
  of any number of concurrent callers, what a call collects is what searching its queries one
  after the other gives: all results in the order of the queries, or the error of the first
  query that raises, although later queries have been run.\<close>

theorem batch_search_sequential:
  assumes "batch_reachable pf p" "c < length (calls p)" "batch_collect (calls p ! c) = Some r"
  shows "r = batch_reference pf (pool_index p) (call_queries (calls p ! c)) (call_count (calls p ! c)) (call_k (calls p ! c))"
proof -
  have inv: "batch_inv pf p" by (rule batch_reachable_inv [OF assms(1)])
  have "\<not> length (completions (calls p ! c)) < call_count (calls p ! c)" "None \<notin> set (completions (calls p ! c))"
    using assms(3) by (auto simp: batch_collect_def split: if_splits)
  moreover have "length (completions (calls p ! c)) \<le> call_count (calls p ! c)"
    using inv assms(2) by (simp add: batch_inv_def call_ok_def)
  ultimately show ?thesis using batch_collect_call [OF inv assms(2)] assms(3) by simp
qed

lemma batch_rest_collects:
  assumes "batch_reachable pf p" "c < length (calls p)" "length (completions (calls p ! c)) = call_count (calls p ! c)"
    and steps: "(batch_worker_step pf)\<^sup>*\<^sup>* p p'" and rest: "\<nexists>z. batch_worker_step pf p' z"
  shows "batch_collect (calls p' ! c) = Some (batch_reference pf (pool_index p) (call_queries (calls p ! c))
      (call_count (calls p ! c)) (call_k (calls p ! c)))"
proof -
  have inv: "batch_inv pf p'" by (rule batch_reachable_inv [OF batch_steps_reachable [OF steps assms(1)]])
  have same: "same_calls p p'" by (rule batch_steps_same [OF steps])
  note c = same_calls_nth [OF same assms(2)]
  have "None \<notin> set (completions (calls p' ! c))"
  proof
    assume "None \<in> set (completions (calls p' ! c))"
    then obtain q where q: "q < length (completions (calls p' ! c))" "completions (calls p' ! c) ! q = None"
      by (metis in_set_conv_nth)
    have "call_ok (call_query pf p' (calls p' ! c)) (open_jobs p' c) (calls p' ! c)" using inv c(2) by (simp add: batch_inv_def)
    then have "case completions (calls p' ! c) ! q of None \<Rightarrow> q \<in> open_jobs p' c
        | Some r \<Rightarrow> r = outcome_of (call_query pf p' (calls p' ! c) q)
            \<and> (\<forall>rs. call_query pf p' (calls p' ! c) q = Inr rs \<longrightarrow> call_results (calls p' ! c) ! q = rs)"
      using q(1) by (simp add: call_ok_def)
    then have "q \<in> open_jobs p' c" using q(2) by simp
    then show False using batch_at_rest [OF inv rest] by (simp add: open_jobs_def)
  qed
  then show ?thesis
    using batch_collect_call [OF inv c(2)] c(1) assms(3) same by (simp add: call_summary_def same_calls_def)
qed

theorem batch_search_sequential_witness:
  "\<exists>p rs. batch_reachable sample_platform p \<and> batch_collect (calls p ! 0) = Some (Inr [rs])"
proof -
  obtain p where p: "(batch_worker_step sample_platform)\<^sup>*\<^sup>* sample_batch p" "\<nexists>z. batch_worker_step sample_platform p z"
    using batch_come_to_rest by blast
  have reach: "batch_reachable sample_platform p" by (rule batch_steps_reachable [OF p(1) sample_batch_reachable])
  have c: "0 < length (calls sample_batch)"
      "length (completions (calls sample_batch ! 0)) = call_count (calls sample_batch ! 0)"
    by (simp_all add: sample_batch_def)
  obtain r where r: "batch_collect (calls p ! 0) = Some r" using batch_rest_collects [OF sample_batch_reachable c p] by blast
  have same: "same_calls sample_batch p" by (rule batch_steps_same [OF p(1)])
  have "r = batch_reference sample_platform (Flat flat_sample) [0xC0000000] 1 1"
    using batch_search_sequential [OF reach same_calls_nth(2) [OF same c(1)] r] same_calls_nth(1) [OF same c(1)] same
    by (simp add: call_summary_def same_calls_def sample_batch_def)
  then show ?thesis using reach r sample_batch_reference by auto
qed

text \<open>A call returns. Once its queries are submitted, the workers, whatever else is in the
  queue, come to rest, and whenever they are at rest the call can collect the result of the
  sequential loop.\<close>

theorem batch_search_completes:
  assumes "batch_reachable pf p" "c < length (calls p)" "length (completions (calls p ! c)) = call_count (calls p ! c)"
  shows "(\<exists>p'. (batch_worker_step pf)\<^sup>*\<^sup>* p p' \<and> (\<nexists>z. batch_worker_step pf p' z))
    \<and> (\<forall>p'. (batch_worker_step pf)\<^sup>*\<^sup>* p p' \<and> (\<nexists>z. batch_worker_step pf p' z) \<longrightarrow>
         batch_collect (calls p' ! c) = Some (batch_reference pf (pool_index p) (call_queries (calls p ! c))
           (call_count (calls p ! c)) (call_k (calls p ! c))))"
  using batch_come_to_rest batch_rest_collects [OF assms] by blast

theorem batch_search_completes_witness:
  "\<exists>p rs. (batch_worker_step sample_platform)\<^sup>*\<^sup>* sample_batch p \<and> batch_collect (calls p ! 0) = Some (Inr [rs])"
  using batch_search_completes [OF sample_batch_reachable, of 0] sample_batch_reference
  by (fastforce simp: sample_batch_def)

end
