(* ===== verification/Snapshot_Publication.thy ===== *)
theory Snapshot_Publication
  imports Flat_Index_Io Hnsw_Snapshot_Theorems Vector_Store_Theorems
begin

text \<open>
  service/snapshot_publication.cpp: the state machine that prepares a verified snapshot beside
  the one being served and activates it. Every critical section of its mutex is one atomic
  operation. Protobuf and OpenSSL are not part of the repository: the serialisation of a manifest,
  the JSON parser and the digest are the fields of \<open>externals\<close>. Strings the code uses as states
  are a datatype; an unset identity message is the empty identity.
\<close>

section \<open>Manifests\<close>

record snapshot_manifest =
  format_version :: u32
  manifest_snapshot_id :: string
  index_type :: string
  manifest_dimension :: u64
  vector_count :: u64
  file_size :: u64
  sha256 :: string
  manifest_revision :: string

definition no_manifest :: snapshot_manifest where
  "no_manifest = \<lparr>format_version = 0, manifest_snapshot_id = [], index_type = [], manifest_dimension = 0,
     vector_count = 0, file_size = 0, sha256 = [], manifest_revision = []\<rparr>"

text \<open>\<open>serialize\<close> is \<open>SerializeAsString\<close>, whose length is \<open>ByteSizeLong\<close>; \<open>digest\<close> yields the
  bytes of SHA-256 unless OpenSSL fails.\<close>

record externals =
  serialize :: "snapshot_manifest \<Rightarrow> string"
  parse_json :: "string \<Rightarrow> snapshot_manifest option"
  digest :: "u8 list \<Rightarrow> u8 list option"

definition hex_digits :: string where
  "hex_digits = ''0123456789abcdef''"

definition lower_hex :: "string \<Rightarrow> bool" where
  "lower_hex s \<longleftrightarrow> list_all (\<lambda>c. c \<in> set hex_digits) s"

definition canonical_id :: "string \<Rightarrow> bool" where
  "canonical_id s \<longleftrightarrow> length s = 71 \<and> take 7 s = ''sha256:'' \<and> lower_hex (drop 7 s)"

definition hex_byte :: "u8 \<Rightarrow> string" where
  "hex_byte b = [hex_digits ! (unat b div 16), hex_digits ! (unat b mod 16)]"

definition sha256_file :: "externals \<Rightarrow> u8 list option \<Rightarrow> string result" where
  "sha256_file ext contents =
     (case contents of
        None \<Rightarrow> Inl (Runtime_error ''snapshot file unavailable'')
      | Some bytes \<Rightarrow>
          (case digest ext bytes of
             None \<Rightarrow> Inl (Runtime_error ''digest completion failed'')
           | Some d \<Rightarrow> Inr (concat (map hex_byte d))))"

text \<open>The size of a file that does not exist is a filesystem error.\<close>

definition size_of_file :: "'a list option \<Rightarrow> nat result" where
  "size_of_file contents =
     (case contents of None \<Rightarrow> Inl (Runtime_error ''cannot get file size'') | Some bytes \<Rightarrow> Inr (length bytes))"

definition read_snapshot_manifest :: "externals \<Rightarrow> string option \<Rightarrow> snapshot_manifest result" where
  "read_snapshot_manifest ext contents =
     and_then (size_of_file contents) (\<lambda>n.
     if 16384 < n then Inl (Invalid_argument ''manifest too large'')
     else case contents of
       None \<Rightarrow> Inl (Invalid_argument ''invalid snapshot manifest JSON'')
     | Some json \<Rightarrow>
         (case parse_json ext json of
            None \<Rightarrow> Inl (Invalid_argument ''invalid snapshot manifest JSON'')
          | Some m \<Rightarrow> Inr m))"

definition manifest_acceptable :: "externals \<Rightarrow> snapshot_manifest \<Rightarrow> string \<Rightarrow> u64 \<Rightarrow> bool" where
  "manifest_acceptable ext m kind maximum_bytes \<longleftrightarrow>
     \<not> (16384 < length (serialize ext m) \<or> index_type m \<noteq> kind
      \<or> (kind \<noteq> ''flat'' \<and> kind \<noteq> ''hnsw'') \<or> manifest_dimension m = 0
      \<or> 2 ^ 64 - 1 < unat (manifest_dimension m)
      \<or> 2 ^ 64 - 1 < unat (vector_count m)
      \<or> file_size m < 56 \<or> maximum_bytes < file_size m
      \<or> length (sha256 m) \<noteq> 64 \<or> manifest_snapshot_id m \<noteq> ''sha256:'' @ sha256 m
      \<or> 256 < length (manifest_revision m)
      \<or> \<not> lower_hex (sha256 m)
      \<or> (if kind = ''flat'' then format_version m \<noteq> 1 else format_version m < 1 \<or> 3 < format_version m))"

definition validate_manifest :: "externals \<Rightarrow> snapshot_manifest \<Rightarrow> string \<Rightarrow> u64 \<Rightarrow> unit result" where
  "validate_manifest ext m kind maximum_bytes =
     (if manifest_acceptable ext m kind maximum_bytes then Inr ()
      else Inl (Invalid_argument ''invalid or incompatible snapshot manifest''))"

text \<open>The version field of a file, at bytes 8 to 11.\<close>

definition file_version :: "u8 list \<Rightarrow> u32" where
  "file_version bytes = ucast (bytes ! 8) OR push_bit 8 (ucast (bytes ! 9))
     OR push_bit 16 (ucast (bytes ! 10)) OR push_bit 24 (ucast (bytes ! 11))"

definition load_index :: "platform \<Rightarrow> string \<Rightarrow> u8 list option \<Rightarrow> string \<Rightarrow> dot_kernel \<Rightarrow> vector_index result" where
  "load_index pf path contents kind kern =
     (if kind = ''flat'' then and_then (flat_load path contents kern) (\<lambda>ix. Inr (Flat ix))
      else and_then (hnsw_load (has_avx2 pf) path contents kern) (\<lambda>ix. Inr (Hnsw ix)))"

definition load_verified_snapshot ::
  "externals \<Rightarrow> platform \<Rightarrow> string \<Rightarrow> u8 list option \<Rightarrow> snapshot_manifest \<Rightarrow> string \<Rightarrow> dot_kernel \<Rightarrow> u64 \<Rightarrow>
   vector_index result" where
  "load_verified_snapshot ext pf path contents m kind kern maximum_bytes =
     and_then (validate_manifest ext m kind maximum_bytes) (\<lambda>_.
     and_then (size_of_file contents) (\<lambda>n.
     and_then (if n \<noteq> unat (file_size m) then Inl (Invalid_argument ''snapshot content does not match manifest'')
               else and_then (sha256_file ext contents) (\<lambda>h.
                 if h \<noteq> sha256 m then Inl (Invalid_argument ''snapshot content does not match manifest'')
                 else Inr ())) (\<lambda>_.
     and_then (case contents of
                 None \<Rightarrow> Inl (Invalid_argument ''snapshot format version mismatch'')
               | Some bytes \<Rightarrow>
                   if length bytes < 12 \<or> file_version bytes \<noteq> format_version m then
                     Inl (Invalid_argument ''snapshot format version mismatch'')
                   else Inr ()) (\<lambda>_.
     and_then (load_index pf path contents kind kern) (\<lambda>ix.
     if index_dimension ix \<noteq> unat (manifest_dimension m) \<or> index_size ix \<noteq> unat (vector_count m) then
       Inl (Invalid_argument ''snapshot shape does not match manifest'')
     else Inr ix)))))"

definition identity_of :: "snapshot_manifest \<Rightarrow> u64 \<Rightarrow> snapshot_identity" where
  "identity_of m g = \<lparr>snapshot_id = manifest_snapshot_id m, generation = g, embedding_revision = manifest_revision m\<rparr>"

section \<open>The state\<close>

record publication_config =
  publication_enabled :: bool
  maximum_file_bytes :: u64
  publication_kernel :: dot_kernel

datatype publication_state = Serving | Preparing | Ready_to_activate | Failed

datatype publication_result =
  No_result | Result_preparing | Result_ready | Prepare_failed | Rejected | Activation_rejected | Already_active | Activated

record publication_status =
  status_state :: publication_state
  status_candidate :: snapshot_identity
  highest_generation :: u64
  last_result :: publication_result
  last_attempt :: snapshot_identity
  prepare_us :: u64
  activation_us :: u64

record publication =
  pub_store :: vector_store
  pub_kind :: string
  pub_config :: publication_config
  pub_status :: publication_status
  pub_manifest :: snapshot_manifest
  pub_generation :: u64
  pub_token :: u64
  pub_started :: int
  pub_candidate :: "serving_snapshot option"

definition elapsed :: "int \<Rightarrow> int \<Rightarrow> u64" where
  "elapsed start now = word_of_int (sgn (now - start) * (\<bar>now - start\<bar> div 1000))"

definition publication_create ::
  "vector_store option \<Rightarrow> string \<Rightarrow> publication_config \<Rightarrow> publication result" where
  "publication_create st kind config =
     (case st of
        None \<Rightarrow> Inl (Invalid_argument ''publication requires a read-only store and positive file limit'')
      | Some s \<Rightarrow>
          if maximum_file_bytes config = 0 \<or> (publication_enabled config \<and> \<not> read_only s) then
            Inl (Invalid_argument ''publication requires a read-only store and positive file limit'')
          else
            and_then (if publication_enabled config then
                        and_then (serving_snapshot_of s) (\<lambda>p. and_then (deref p) (\<lambda>snap.
                        if generation (snap_identity snap) = 0 then
                          Inl (Invalid_argument ''publication requires a managed startup identity'')
                        else Inr ()))
                      else Inr ()) (\<lambda>_.
            and_then (if read_only s then
                        and_then (serving_snapshot_of s) (\<lambda>p. and_then (deref p) (\<lambda>snap.
                          Inr (generation (snap_identity snap))))
                      else Inr 0) (\<lambda>highest.
              Inr \<lparr>pub_store = s, pub_kind = kind, pub_config = config,
                pub_status = \<lparr>status_state = Serving, status_candidate = no_identity,
                  highest_generation = highest, last_result = No_result, last_attempt = no_identity,
                  prepare_us = 0, activation_us = 0\<rparr>,
                pub_manifest = no_manifest, pub_generation = 0, pub_token = 0, pub_started = 0,
                pub_candidate = None\<rparr>)))"

section \<open>Preparation\<close>

definition publication_begin ::
  "externals \<Rightarrow> snapshot_manifest \<Rightarrow> u64 \<Rightarrow> int \<Rightarrow> publication \<Rightarrow> publication \<times> u64 result" where
  "publication_begin ext m g now p =
     (if \<not> publication_enabled (pub_config p) then (p, Inl Publication_disabled)
      else case validate_manifest ext m (pub_kind p) (maximum_file_bytes (pub_config p)) of
        Inl e \<Rightarrow> (p, Inl e)
      | Inr u \<Rightarrow>
          if status_state (pub_status p) = Preparing then (p, Inl Publication_busy)
          else
            (case and_then (serving_snapshot_of (pub_store p)) deref of
               Inl e \<Rightarrow> (p, Inl e)
             | Inr current \<Rightarrow>
                 if g = 0 \<or> g \<le> generation (snap_identity current)
                   \<or> g < highest_generation (pub_status p)
                   \<or> (g = highest_generation (pub_status p)
                      \<and> serialize ext m \<noteq> serialize ext (pub_manifest p)) then
                   (p, Inl Snapshot_mismatch)
                 else if pub_token p = - 1 then (p, Inl (Length_error ''prepare token exhausted''))
                 else
                   (p\<lparr>pub_manifest := m,
                      pub_status := (pub_status p)\<lparr>highest_generation := g,
                        status_candidate := identity_of m g, last_attempt := identity_of m g,
                        status_state := Preparing, last_result := Result_preparing,
                        prepare_us := 0, activation_us := 0\<rparr>,
                      pub_generation := g, pub_started := now, pub_candidate := None,
                      pub_token := pub_token p + 1\<rparr>, Inr (pub_token p + 1))))"

text \<open>\<open>complete\<close> has two critical sections: one reads what to load, one installs what was
  prepared in between.\<close>

definition complete_read :: "u64 \<Rightarrow> publication \<Rightarrow> (snapshot_manifest \<times> u64) result" where
  "complete_read token p =
     (if token \<noteq> pub_token p \<or> status_state (pub_status p) \<noteq> Preparing then Inl Snapshot_mismatch
      else Inr (pub_manifest p, pub_generation p))"

definition complete_prepare ::
  "externals \<Rightarrow> platform \<Rightarrow> string \<Rightarrow> u8 list option \<Rightarrow> snapshot_manifest \<Rightarrow> u64 \<Rightarrow> publication \<Rightarrow>
   serving_snapshot result" where
  "complete_prepare ext pf path contents m g p =
     and_then (load_verified_snapshot ext pf path contents m (pub_kind p) (publication_kernel (pub_config p))
       (maximum_file_bytes (pub_config p))) (\<lambda>ix.
     prepare_snapshot (Some ix) (identity_of m g) (pub_store p))"

definition complete_install ::
  "u64 \<Rightarrow> snapshot_manifest \<Rightarrow> u64 \<Rightarrow> serving_snapshot \<Rightarrow> int \<Rightarrow> publication \<Rightarrow> publication \<times> unit result" where
  "complete_install token m g prepared now p =
     (if token \<noteq> pub_token p \<or> status_state (pub_status p) \<noteq> Preparing then (p, Inl Snapshot_mismatch)
      else (p\<lparr>pub_candidate := Some prepared,
              pub_status := (pub_status p)\<lparr>prepare_us := elapsed (pub_started p) now,
                status_state := Ready_to_activate, last_result := Result_ready,
                last_attempt := identity_of m g\<rparr>\<rparr>, Inr ()))"

definition publication_complete ::
  "externals \<Rightarrow> platform \<Rightarrow> string \<Rightarrow> u8 list option \<Rightarrow> u64 \<Rightarrow> int \<Rightarrow> publication \<Rightarrow> publication \<times> unit result" where
  "publication_complete ext pf path contents token now p =
     (case and_then (complete_read token p) (\<lambda>(m, g).
             and_then (complete_prepare ext pf path contents m g p) (\<lambda>prepared. Inr (m, g, prepared))) of
        Inl e \<Rightarrow> (p, Inl e)
      | Inr (m, g, prepared) \<Rightarrow> complete_install token m g prepared now p)"

definition publication_fail :: "u64 \<Rightarrow> int \<Rightarrow> publication \<Rightarrow> publication" where
  "publication_fail token now p =
     (if token \<noteq> pub_token p \<or> status_state (pub_status p) \<noteq> Preparing then p
      else p\<lparr>pub_candidate := None,
             pub_status := (pub_status p)\<lparr>status_candidate := no_identity, status_state := Failed,
               last_result := Prepare_failed, prepare_us := elapsed (pub_started p) now,
               last_attempt := identity_of (pub_manifest p) (pub_generation p)\<rparr>\<rparr>)"

definition publication_rejected :: "snapshot_manifest \<Rightarrow> u64 \<Rightarrow> publication \<Rightarrow> publication" where
  "publication_rejected m g p =
     p\<lparr>pub_status := (pub_status p)\<lparr>last_result := Rejected,
         last_attempt :=
           \<lparr>snapshot_id = (if canonical_id (manifest_snapshot_id m) then manifest_snapshot_id m else []),
            generation = g,
            embedding_revision = (if length (manifest_revision m) \<le> 256 then manifest_revision m else [])\<rparr>,
         status_state := (if status_state (pub_status p) = Serving \<or> status_state (pub_status p) = Failed
           then Failed else status_state (pub_status p))\<rparr>\<rparr>"

section \<open>Activation\<close>

definition activation_reject :: "string \<Rightarrow> u64 \<Rightarrow> publication \<Rightarrow> publication" where
  "activation_reject sid g p =
     p\<lparr>pub_status := (pub_status p)\<lparr>last_result := Activation_rejected,
         last_attempt := \<lparr>snapshot_id = (if canonical_id sid then sid else []), generation = g,
           embedding_revision = []\<rparr>, activation_us := 0\<rparr>\<rparr>"

definition publication_activate ::
  "string \<Rightarrow> u64 \<Rightarrow> int \<Rightarrow> int \<Rightarrow> publication \<Rightarrow> publication \<times> unit result" where
  "publication_activate sid g start now p =
     (if \<not> publication_enabled (pub_config p) then (p, Inl Publication_disabled)
      else case and_then (serving_snapshot_of (pub_store p)) deref of
        Inl e \<Rightarrow> (p, Inl e)
      | Inr old \<Rightarrow>
          if g < highest_generation (pub_status p) then (activation_reject sid g p, Inl Snapshot_mismatch)
          else if snapshot_id (snap_identity old) = sid \<and> generation (snap_identity old) = g then
            (p\<lparr>pub_status := (pub_status p)\<lparr>status_state := Serving, last_result := Already_active,
                 activation_us := 0, last_attempt := snap_identity old\<rparr>\<rparr>, Inr ())
          else
            (case pub_candidate p of
               None \<Rightarrow> (activation_reject sid g p, Inl Snapshot_mismatch)
             | Some c \<Rightarrow>
                 if status_state (pub_status p) \<noteq> Ready_to_activate \<or> snapshot_id (snap_identity c) \<noteq> sid
                   \<or> generation (snap_identity c) \<noteq> g then
                   (activation_reject sid g p, Inl Snapshot_mismatch)
                 else
                   (case activate_snapshot (Some c) (pub_store p) of
                      Inl e \<Rightarrow> (p, Inl e)
                    | Inr s \<Rightarrow>
                        (p\<lparr>pub_store := s, pub_candidate := None,
                           pub_status := (pub_status p)\<lparr>activation_us := elapsed start now,
                             last_attempt := status_candidate (pub_status p),
                             status_candidate := no_identity, status_state := Serving,
                             last_result := Activated\<rparr>\<rparr>, Inr ()))))"

text \<open>The observer: the status with the identity being served and the statistics it came with.\<close>

definition publication_status_of ::
  "publication \<Rightarrow> (publication_status \<times> snapshot_identity \<times> store_stats) result" where
  "publication_status_of p =
     and_then (store_stats_of (pub_store p)) (\<lambda>observed.
       Inr (pub_status p, stats_identity observed, observed))"

end
