(* ===== verification/Snapshot_Publication_Theorems.thy ===== *)
theory Snapshot_Publication_Theorems
  imports Snapshot_Publication
begin

text \<open>
  The properties of snapshot publication: what a verified snapshot is, the invariant of the state
  machine under every interleaving of preparations, activations, failures and searches, exact
  activation, and generations that only grow.
\<close>

section \<open>Verified snapshots\<close>

lemma load_index_ok:
  assumes "load_index pf path contents kind kern = Inr ix" "index_dimension ix < score_dimension kern"
  shows "index_inv ix" "index_kernel ix = kern"
proof -
  have flat: "flat_inv fx \<and> flat_kernel fx = kern"
    if "flat_load path contents kern = Inr fx" "flat_dimension fx < score_dimension kern" for fx
  proof -
    have "contents \<noteq> None" using that(1) by (rule contrapos_pn) (simp add: flat_load_def)
    then show ?thesis using flat_load_inv [OF that] flat_load_accepts that(1) by blast
  qed
  have hnsw: "hnsw_wf hx \<and> cfg_kernel (hnsw_config hx) = kern"
    if "hnsw_load (has_avx2 pf) path contents kern = Inr hx" "cfg_dimension (hnsw_config hx) < score_dimension kern" for hx
  proof -
    have "contents \<noteq> None" using that(1) by (rule contrapos_pn) (simp add: hnsw_load_def)
    then show ?thesis using hnsw_load_wf [OF that] hnsw_load_iff that(1) by blast
  qed
  show "index_inv ix" "index_kernel ix = kern"
    using assms flat hnsw by (auto simp: load_index_def result_simps split: if_splits)
qed

text \<open>The description that a file has to meet.\<close>

definition describes_file :: "externals \<Rightarrow> snapshot_manifest \<Rightarrow> u8 list \<Rightarrow> bool" where
  "describes_file ext m bytes \<longleftrightarrow>
     length bytes = unat (file_size m)
   \<and> (\<exists>d. digest ext bytes = Some d \<and> sha256 m = concat (map hex_byte d))
   \<and> manifest_snapshot_id m = ''sha256:'' @ sha256 m
   \<and> file_version bytes = format_version m"

lemma load_verified_iff:
  "load_verified_snapshot ext pf path contents m kind kern maximum_bytes = Inr ix \<longleftrightarrow>
     manifest_acceptable ext m kind maximum_bytes
   \<and> (\<exists>bytes. contents = Some bytes \<and> describes_file ext m bytes)
   \<and> load_index pf path contents kind kern = Inr ix
   \<and> index_dimension ix = unat (manifest_dimension m) \<and> index_size ix = unat (vector_count m)"
proof -
  have "56 \<le> unat (file_size m)" if "manifest_acceptable ext m kind maximum_bytes"
    using that by (simp add: manifest_acceptable_def word_less_nat_alt)
  moreover have "manifest_snapshot_id m = ''sha256:'' @ sha256 m" if "manifest_acceptable ext m kind maximum_bytes"
    using that by (simp add: manifest_acceptable_def)
  ultimately show ?thesis
    by (cases contents)
       (auto simp: load_verified_snapshot_def validate_manifest_def size_of_file_def sha256_file_def
        describes_file_def result_simps split: option.splits if_splits)
qed

section \<open>Preparations in flight\<close>

text \<open>A call of \<open>complete\<close> between its critical sections.\<close>

record completion =
  c_token :: u64
  c_manifest :: snapshot_manifest
  c_generation :: u64
  c_prepared :: "serving_snapshot option"

type_synonym publication_system = "publication \<times> completion set"

inductive publication_step :: "externals \<Rightarrow> platform \<Rightarrow> publication_system \<Rightarrow> publication_system \<Rightarrow> bool" for ext pf where
  admit: "publication_step ext pf (p, cs) (fst (publication_begin ext m g now p), cs)"
| read: "complete_read token p = Inr (m, g) \<Longrightarrow>
    publication_step ext pf (p, cs)
      (p, insert \<lparr>c_token = token, c_manifest = m, c_generation = g, c_prepared = None\<rparr> cs)"
| prepare: "c \<in> cs \<Longrightarrow> complete_prepare ext pf path contents (c_manifest c) (c_generation c) p = Inr snap \<Longrightarrow>
    unat (manifest_dimension (c_manifest c)) < score_dimension (publication_kernel (pub_config p)) \<Longrightarrow>
    publication_step ext pf (p, cs) (p, insert (c\<lparr>c_prepared := Some snap\<rparr>) cs)"
| install: "c \<in> cs \<Longrightarrow> c_prepared c = Some snap \<Longrightarrow>
    publication_step ext pf (p, cs)
      (fst (complete_install (c_token c) (c_manifest c) (c_generation c) snap now p), cs)"
| fail: "publication_step ext pf (p, cs) (publication_fail token now p, cs)"
| reject: "publication_step ext pf (p, cs) (publication_rejected m g p, cs)"
| activate: "publication_step ext pf (p, cs) (fst (publication_activate sid g start now p), cs)"
| search: "publication_step ext pf (p, cs) (p\<lparr>pub_store := fst (store_search pf query k ctx e (pub_store p))\<rparr>, cs)"
| reload: "index_ok pf ix \<Longrightarrow> replace_index (Some ix) (pub_store p) = Inr s \<Longrightarrow>
    publication_step ext pf (p, cs) (p\<lparr>pub_store := s\<rparr>, cs)"

inductive publication_reachable :: "externals \<Rightarrow> platform \<Rightarrow> publication_system \<Rightarrow> bool" for ext pf where
  create: "store_inv pf st \<Longrightarrow> publication_create (Some st) kind config = Inr p \<Longrightarrow> publication_enabled config \<Longrightarrow>
    publication_reachable ext pf (p, {})"
| step: "publication_reachable ext pf x \<Longrightarrow> publication_step ext pf x y \<Longrightarrow> publication_reachable ext pf y"

section \<open>The invariant\<close>

definition serving :: "publication \<Rightarrow> serving_snapshot" where
  "serving p = the (published (pub_store p))"

definition serving_generation :: "publication \<Rightarrow> u64" where
  "serving_generation p = generation (snap_identity (serving p))"

definition in_preparation :: "publication \<Rightarrow> bool" where
  "in_preparation p \<longleftrightarrow> status_state (pub_status p) \<in> {Preparing, Ready_to_activate}"

text \<open>A snapshot prepared for the current attempt on top of the one being served.\<close>

definition prepared_for :: "platform \<Rightarrow> publication \<Rightarrow> serving_snapshot \<Rightarrow> bool" where
  "prepared_for pf p snap \<longleftrightarrow>
     snap_identity snap = identity_of (pub_manifest p) (pub_generation p)
   \<and> snapshot_id (snap_identity snap) \<noteq> []
   \<and> snap_version snap = snap_version (serving p) + 1 \<and> snap_version snap \<noteq> 0
   \<and> (\<exists>ix. snap_index snap = Some ix \<and> index_ok pf ix)"

definition machine_ok :: "platform \<Rightarrow> publication \<Rightarrow> bool" where
  "machine_ok pf p \<longleftrightarrow>
     publication_enabled (pub_config p) \<and> store_inv pf (pub_store p) \<and> read_only (pub_store p)
   \<and> serving_generation p \<noteq> 0 \<and> serving_generation p \<le> highest_generation (pub_status p)
   \<and> (in_preparation p \<longrightarrow> pub_generation p = highest_generation (pub_status p)
        \<and> serving_generation p < pub_generation p
        \<and> status_candidate (pub_status p) = identity_of (pub_manifest p) (pub_generation p))
   \<and> (pub_candidate p \<noteq> None \<longleftrightarrow> status_state (pub_status p) = Ready_to_activate)
   \<and> (\<forall>snap. pub_candidate p = Some snap \<longrightarrow> prepared_for pf p snap)"

definition flight_ok :: "platform \<Rightarrow> publication \<Rightarrow> completion \<Rightarrow> bool" where
  "flight_ok pf p c \<longleftrightarrow> c_token c \<le> pub_token p
   \<and> (c_token c = pub_token p \<longrightarrow> c_manifest c = pub_manifest p \<and> c_generation c = pub_generation p
        \<and> (status_state (pub_status p) = Preparing \<longrightarrow> (\<forall>snap. c_prepared c = Some snap \<longrightarrow> prepared_for pf p snap)))"

definition publication_inv :: "platform \<Rightarrow> publication_system \<Rightarrow> bool" where
  "publication_inv pf x \<longleftrightarrow> machine_ok pf (fst x) \<and> (\<forall>c\<in>snd x. flight_ok pf (fst x) c)"

text \<open>What is served.\<close>

lemma machine_serving:
  assumes "machine_ok pf p"
  shows "published (pub_store p) = Some (serving p)" "snapshot_ok pf (serving p)"
    "serving_snapshot_of (pub_store p) = Inr (Some (serving p))"
  using assms by (auto simp: machine_ok_def store_inv_def serving_def serving_snapshot_of_def)

lemma machine_attempt:
  assumes "machine_ok pf p" "in_preparation p"
  shows "pub_generation p = highest_generation (pub_status p)" "serving_generation p < pub_generation p"
    "status_candidate (pub_status p) = identity_of (pub_manifest p) (pub_generation p)"
  using assms unfolding machine_ok_def by blast+

lemma identity_of_fields [simp]:
  "generation (identity_of m g) = g" "snapshot_id (identity_of m g) = manifest_snapshot_id m"
  "embedding_revision (identity_of m g) = manifest_revision m"
  by (simp_all add: identity_of_def)

lemma publication_create_ok:
  assumes "store_inv pf st" "publication_create (Some st) kind config = Inr p" "publication_enabled config"
  shows "machine_ok pf p"
proof -
  have ro: "read_only st" using assms(2,3) by (auto simp: publication_create_def split: if_splits)
  then obtain snap where snap: "published st = Some snap" using assms(1) by (auto simp: store_inv_def)
  then have p: "pub_store p = st" "pub_config p = config" "pub_candidate p = None" "status_state (pub_status p) = Serving"
      "highest_generation (pub_status p) = generation (snap_identity snap)" "generation (snap_identity snap) \<noteq> 0"
    using assms(2,3) ro by (auto simp: publication_create_def serving_snapshot_of_def deref_def split: if_splits)
  then show ?thesis
    using assms(1,3) ro snap by (simp add: machine_ok_def serving_def serving_generation_def in_preparation_def)
qed

lemma begin_cases:
  assumes "machine_ok pf p"
  obtains "fst (publication_begin ext m g now p) = p"
    | "fst (publication_begin ext m g now p) = p\<lparr>pub_manifest := m,
         pub_status := (pub_status p)\<lparr>highest_generation := g, status_candidate := identity_of m g,
           last_attempt := identity_of m g, status_state := Preparing, last_result := Result_preparing,
           prepare_us := 0, activation_us := 0\<rparr>,
         pub_generation := g, pub_started := now, pub_candidate := None, pub_token := pub_token p + 1\<rparr>"
      "serving_generation p < g" "highest_generation (pub_status p) \<le> g" "pub_token p \<noteq> - 1"
proof (cases "fst (publication_begin ext m g now p) = p")
  case False
  have en: "publication_enabled (pub_config p)" using assms by (simp add: machine_ok_def)
  have ok: "validate_manifest ext m (pub_kind p) (maximum_file_bytes (pub_config p)) = Inr ()"
    using False en by (cases "validate_manifest ext m (pub_kind p) (maximum_file_bytes (pub_config p))")
      (simp_all add: publication_begin_def)
  show ?thesis
    by (rule that(2))
       (use False in \<open>auto simp: publication_begin_def en ok machine_serving(3) [OF assms] deref_def
          serving_generation_def not_le not_less split: if_splits\<close>)
qed (rule that(1))

lemma begin_ok:
  assumes "publication_inv pf (p, cs)"
  shows "publication_inv pf (fst (publication_begin ext m g now p), cs)"
proof -
  have ok: "machine_ok pf p" using assms by (simp add: publication_inv_def)
  then show ?thesis
  proof (cases rule: begin_cases [where ext = ext and m = m and g = g and now = now])
    case 1
    then show ?thesis using assms by simp
  next
    case 2
    let ?p = "fst (publication_begin ext m g now p)"
    have serving: "serving ?p = serving p" "pub_token ?p = pub_token p + 1"
      by (simp_all add: 2(1) serving_def)
    have "machine_ok pf ?p"
      using ok 2 by (auto simp: machine_ok_def serving_def serving_generation_def in_preparation_def)
    moreover have "flight_ok pf ?p c" if "c \<in> cs" for c
    proof -
      have "c_token c \<le> pub_token p" using assms that by (simp add: publication_inv_def flight_ok_def)
      moreover have "pub_token p < pub_token p + 1"
        using 2(4) suc_version [of "pub_token p"] by (simp add: word_less_nat_alt eq_neg_iff_add_eq_0)
      ultimately show ?thesis using serving(2) by (auto simp: flight_ok_def)
    qed
    ultimately show ?thesis by (simp add: publication_inv_def)
  qed
qed


lemma machine_ok_flights:
  "publication_inv pf (p, cs) \<Longrightarrow> machine_ok pf p" "publication_inv pf (p, cs) \<Longrightarrow> c \<in> cs \<Longrightarrow> flight_ok pf p c"
  by (simp_all add: publication_inv_def)

text \<open>Steps that keep the attempt and what is served: reports, failures, installations.\<close>

lemma flight_ok_cong:
  assumes "flight_ok pf p c" "pub_token p' = pub_token p" "pub_manifest p' = pub_manifest p"
    "pub_generation p' = pub_generation p"
    "status_state (pub_status p') = Preparing \<Longrightarrow> status_state (pub_status p) = Preparing \<and> serving p' = serving p"
  shows "flight_ok pf p' c"
  using assms by (auto simp: flight_ok_def prepared_for_def)

lemma complete_prepare_ok:
  assumes inv: "machine_ok pf p" and prep: "complete_prepare ext pf path contents m g p = Inr snap"
    and dims: "unat (manifest_dimension m) < score_dimension (publication_kernel (pub_config p))"
    and mg: "m = pub_manifest p" "g = pub_generation p"
  shows "prepared_for pf p snap"
proof -
  let ?kern = "publication_kernel (pub_config p)"
  obtain ix where ix: "load_verified_snapshot ext pf path contents m (pub_kind p) ?kern (maximum_file_bytes (pub_config p)) = Inr ix"
      "prepare_snapshot (Some ix) (identity_of m g) (pub_store p) = Inr snap"
    using prep by (auto simp: complete_prepare_def result_simps)
  have "index_inv ix" using ix(1) dims load_index_ok(1) by (fastforce simp: load_verified_iff)
  moreover have "log_contract (std_log pf)"
    using machine_serving(2) [OF inv] by (auto simp: snapshot_ok_def index_ok_def)
  ultimately have ok: "index_ok pf ix" by (simp add: index_ok_def)
  have "read_only (pub_store p)" using inv by (simp add: machine_ok_def)
  then have "snap = \<lparr>snap_index = Some ix, snap_version = snap_version (serving p) + 1, snap_identity = identity_of m g\<rparr>"
      "snap_version (serving p) \<noteq> - 1" "snapshot_id (identity_of m g) \<noteq> []"
    using ix(2) machine_serving(1) [OF inv]
    by (auto simp: prepare_snapshot_def result_simps split: if_splits)
  then show ?thesis using ok mg by (simp add: prepared_for_def eq_neg_iff_add_eq_0)
qed

lemma install_cases:
  obtains "fst (complete_install token m g snap now p) = p"
    | "token = pub_token p" "status_state (pub_status p) = Preparing"
      "fst (complete_install token m g snap now p)
        = p\<lparr>pub_candidate := Some snap, pub_status := (pub_status p)\<lparr>prepare_us := elapsed (pub_started p) now,
            status_state := Ready_to_activate, last_result := Result_ready, last_attempt := identity_of m g\<rparr>\<rparr>"
proof (cases "token = pub_token p \<and> status_state (pub_status p) = Preparing")
  case True
  then show ?thesis by (intro that(2)) (simp_all add: complete_install_def)
next
  case False
  then show ?thesis by (intro that(1)) (auto simp: complete_install_def)
qed

lemma activate_cases:
  assumes ok: "machine_ok pf p"
  obtains (reject) "publication_activate sid g start now p = (activation_reject sid g p, Inl Snapshot_mismatch)"
      "g < highest_generation (pub_status p) \<or> snapshot_id (snap_identity (serving p)) \<noteq> sid \<or> serving_generation p \<noteq> g"
      "\<nexists>c. pub_candidate p = Some c \<and> snapshot_id (snap_identity c) = sid \<and> generation (snap_identity c) = g
         \<and> highest_generation (pub_status p) \<le> g"
    | (again) "highest_generation (pub_status p) \<le> g" "snapshot_id (snap_identity (serving p)) = sid" "serving_generation p = g"
      "publication_activate sid g start now p = (p\<lparr>pub_status := (pub_status p)\<lparr>status_state := Serving,
         last_result := Already_active, activation_us := 0, last_attempt := snap_identity (serving p)\<rparr>\<rparr>, Inr ())"
    | (switch) c s where "pub_candidate p = Some c" "snapshot_id (snap_identity c) = sid" "generation (snap_identity c) = g"
      "highest_generation (pub_status p) \<le> g" "activate_snapshot (Some c) (pub_store p) = Inr s" "published s = Some c"
      "read_only s"
      "publication_activate sid g start now p = (p\<lparr>pub_store := s, pub_candidate := None,
         pub_status := (pub_status p)\<lparr>activation_us := elapsed start now, last_attempt := status_candidate (pub_status p),
           status_candidate := no_identity, status_state := Serving, last_result := Activated\<rparr>\<rparr>, Inr ())"
proof -
  note serving = machine_serving [OF ok]
  have en: "publication_enabled (pub_config p)" using ok by (simp add: machine_ok_def)
  have current: "and_then (serving_snapshot_of (pub_store p)) deref = Inr (serving p)" by (simp add: serving(3))
  consider "g < highest_generation (pub_status p)"
    | "highest_generation (pub_status p) \<le> g" "snapshot_id (snap_identity (serving p)) = sid" "serving_generation p = g"
    | "highest_generation (pub_status p) \<le> g" "\<not> (snapshot_id (snap_identity (serving p)) = sid \<and> serving_generation p = g)"
    using not_le by blast
  then show ?thesis
  proof cases
    case 1
    then show ?thesis by (intro reject) (auto simp: publication_activate_def en current)
  next
    case 2
    then show ?thesis by (intro again) (auto simp: publication_activate_def en current serving_generation_def)
  next
    case 3
    show ?thesis
    proof (cases "\<exists>c. pub_candidate p = Some c \<and> snapshot_id (snap_identity c) = sid \<and> generation (snap_identity c) = g")
      case False
      then show ?thesis using 3
        by (intro reject) (auto simp: publication_activate_def en current serving_generation_def split: option.split)
    next
      case True
      then obtain c where c: "pub_candidate p = Some c" "snapshot_id (snap_identity c) = sid" "generation (snap_identity c) = g"
        by blast
      then have prep: "prepared_for pf p c" "status_state (pub_status p) = Ready_to_activate"
        using ok by (auto simp: machine_ok_def)
      then have "generation (snap_identity (serving p)) < generation (snap_identity c)"
        using machine_attempt(2) [OF ok] prep by (simp add: in_preparation_def prepared_for_def serving_generation_def)
      moreover have "snap_index c \<noteq> None" "snapshot_id (snap_identity c) \<noteq> []" "snap_version c = snap_version (serving p) + 1"
        using prep(1) by (auto simp: prepared_for_def)
      moreover have "read_only (pub_store p)" using ok by (simp add: machine_ok_def)
      ultimately have act: "activate_snapshot (Some c) (pub_store p) = Inr ((pub_store p)\<lparr>published := Some c\<rparr>)"
        using serving(1) word_gt_0 [of "generation (snap_identity c)"]
        by (auto simp: activate_snapshot_def deref_def not_le)
      show ?thesis
      proof (rule switch [OF c 3(1) act])
        show "read_only ((pub_store p)\<lparr>published := Some c\<rparr>)" using ok by (simp add: machine_ok_def)
        have no: "(g < highest_generation (pub_status p)) = False"
            "(snapshot_id (snap_identity (serving p)) = sid \<and> generation (snap_identity (serving p)) = g) = False"
          using 3 by (simp_all add: serving_generation_def)
        then show "publication_activate sid g start now p = (p\<lparr>pub_store := (pub_store p)\<lparr>published := Some c\<rparr>,
            pub_candidate := None, pub_status := (pub_status p)\<lparr>activation_us := elapsed start now,
              last_attempt := status_candidate (pub_status p), status_candidate := no_identity,
              status_state := Serving, last_result := Activated\<rparr>\<rparr>, Inr ())"
          by (simp only: publication_activate_def en current c prep(2) act no if_True if_False not_True_eq_False
              simp_thms sum.case option.case)
      qed simp
    qed
  qed
qed


section \<open>Every step keeps it\<close>

text \<open>What is served only moves forward.\<close>

definition moves_forward :: "publication \<Rightarrow> publication \<Rightarrow> bool" where
  "moves_forward p p' \<longleftrightarrow> highest_generation (pub_status p) \<le> highest_generation (pub_status p')
     \<and> (serving p' = serving p
        \<or> serving_generation p < serving_generation p' \<and> snap_version (serving p') = snap_version (serving p) + 1)"

lemma machine_ok_cong:
  assumes "machine_ok pf p" "pub_config p' = pub_config p" "store_inv pf (pub_store p')" "read_only (pub_store p')"
    "serving p' = serving p" "highest_generation (pub_status p') = highest_generation (pub_status p)"
    "in_preparation p' = in_preparation p" "pub_generation p' = pub_generation p" "pub_manifest p' = pub_manifest p"
    "status_candidate (pub_status p') = status_candidate (pub_status p)" "pub_candidate p' = pub_candidate p"
    "(status_state (pub_status p') = Ready_to_activate) = (status_state (pub_status p) = Ready_to_activate)"
  shows "machine_ok pf p'"
proof -
  have gen: "serving_generation p' = serving_generation p" by (simp add: serving_generation_def assms(5))
  have prep: "prepared_for pf p' snap = prepared_for pf p snap" for snap
    by (simp only: prepared_for_def assms(5,8,9))
  show ?thesis
    using assms(1,3,4) unfolding machine_ok_def gen prep assms(2,6-12) by blast
qed

lemma machine_store_facts: "machine_ok pf p \<Longrightarrow> store_inv pf (pub_store p)" "machine_ok pf p \<Longrightarrow> read_only (pub_store p)"
  by (simp_all add: machine_ok_def)

lemma moves_forward_refl [simp]: "moves_forward p p"
  by (simp add: moves_forward_def)

lemma install_ok:
  assumes "publication_inv pf (p, cs)" "c \<in> cs" "c_prepared c = Some snap"
  shows "publication_inv pf (fst (complete_install (c_token c) (c_manifest c) (c_generation c) snap now p), cs)
    \<and> moves_forward p (fst (complete_install (c_token c) (c_manifest c) (c_generation c) snap now p))"
proof (cases rule: install_cases [where token = "c_token c" and m = "c_manifest c" and g = "c_generation c"
      and snap = snap and now = now and p = p])
  case 1
  then show ?thesis using assms(1) by simp
next
  case 2
  let ?p = "fst (complete_install (c_token c) (c_manifest c) (c_generation c) snap now p)"
  have ok: "machine_ok pf p" and flight: "flight_ok pf p c" using assms(1,2) by (simp_all add: machine_ok_flights)
  then have prep: "prepared_for pf p snap" using 2(1,2) assms(3) by (simp add: flight_ok_def)
  have same: "serving ?p = serving p" "serving_generation ?p = serving_generation p" "prepared_for pf ?p snap = prepared_for pf p snap"
    by (simp_all add: 2(3) serving_def serving_generation_def prepared_for_def)
  have "in_preparation p" using 2(2) by (simp add: in_preparation_def)
  then have "machine_ok pf ?p"
    using ok machine_attempt [OF ok] prep same unfolding machine_ok_def by (simp add: 2(3) in_preparation_def)
  moreover have "flight_ok pf ?p d" if "d \<in> cs" for d
    by (intro flight_ok_cong [OF machine_ok_flights(2) [OF assms(1) that]]) (simp_all add: 2(3))
  ultimately show ?thesis using same by (simp add: publication_inv_def moves_forward_def 2(3))
qed

lemma machine_store:
  assumes "machine_ok pf p" "store_inv pf s" "read_only s" "published s = published (pub_store p)"
  shows "machine_ok pf (p\<lparr>pub_store := s\<rparr>)" "serving (p\<lparr>pub_store := s\<rparr>) = serving p"
proof -
  show same: "serving (p\<lparr>pub_store := s\<rparr>) = serving p" using assms(4) by (simp add: serving_def)
  then show "machine_ok pf (p\<lparr>pub_store := s\<rparr>)"
    using assms(2,3) by (intro machine_ok_cong [OF assms(1)]) (simp_all add: in_preparation_def)
qed

lemma activate_ok:
  assumes inv: "publication_inv pf (p, cs)"
  shows "publication_inv pf (fst (publication_activate sid g start now p), cs)
    \<and> moves_forward p (fst (publication_activate sid g start now p))"
proof -
  have ok: "machine_ok pf p" by (rule machine_ok_flights [OF inv])
  then show ?thesis
  proof (cases rule: activate_cases [where sid = sid and g = g and start = start and now = now])
    case reject
    have same: "serving (activation_reject sid g p) = serving p" by (simp add: activation_reject_def serving_def)
    have "machine_ok pf (activation_reject sid g p)"
      using machine_store_facts [OF ok] same
      by (intro machine_ok_cong [OF ok]) (simp_all add: activation_reject_def in_preparation_def)
    moreover have "flight_ok pf (activation_reject sid g p) c" if "c \<in> cs" for c
      using same by (intro flight_ok_cong [OF machine_ok_flights(2) [OF inv that]]) (simp_all add: activation_reject_def)
    ultimately show ?thesis using reject(1) same
      by (simp add: publication_inv_def moves_forward_def activation_reject_def)
  next
    case again
    let ?p = "fst (publication_activate sid g start now p)"
    have "\<not> in_preparation p" using machine_attempt(1,2) [OF ok] again(1,3) by (auto simp: not_less)
    then have "status_state (pub_status p) \<noteq> Ready_to_activate" by (auto simp: in_preparation_def)
    then have "pub_candidate p = None" using ok unfolding machine_ok_def by blast
    moreover have same: "serving ?p = serving p" by (simp add: again(4) serving_def)
    ultimately have "machine_ok pf ?p"
      using ok by (simp add: machine_ok_def again(4) serving_generation_def in_preparation_def)
    moreover have "flight_ok pf ?p c" if "c \<in> cs" for c
      by (intro flight_ok_cong [OF machine_ok_flights(2) [OF inv that]]) (simp_all add: again(4))
    ultimately show ?thesis using same by (simp add: publication_inv_def moves_forward_def again(4))
  next
    case (switch c s)
    let ?p = "fst (publication_activate sid g start now p)"
    have prep: "prepared_for pf p c" and ready: "in_preparation p"
      using ok switch(1) by (auto simp: machine_ok_def in_preparation_def)
    obtain ix where ix: "snap_index c = Some ix" "index_ok pf ix" "snap_version c \<noteq> 0"
      using prep by (auto simp: prepared_for_def)
    have "store_inv pf (pub_store p)" using ok by (simp add: machine_ok_def)
    then have s: "store_inv pf s" using store_step_inv [OF store_step.activate [OF ix(1,2,3) switch(5)]] by blast
    have same: "serving ?p = c" by (simp add: switch(6,8) serving_def)
    have gen: "serving_generation ?p = pub_generation p" "snap_version (serving ?p) = snap_version (serving p) + 1"
      using prep same by (simp_all add: serving_generation_def prepared_for_def)
    have less: "serving_generation p < serving_generation ?p" using machine_attempt(2) [OF ok ready] gen by simp
    then have "serving_generation ?p \<noteq> 0" by (auto simp: word_gt_0)
    moreover have "serving_generation ?p = highest_generation (pub_status p)" using machine_attempt(1) [OF ok ready] gen by simp
    ultimately have "machine_ok pf ?p"
      using ok s switch(7) by (simp add: machine_ok_def switch(8) in_preparation_def)
    moreover have "flight_ok pf ?p c" if "c \<in> cs" for c
      by (intro flight_ok_cong [OF machine_ok_flights(2) [OF inv that]]) (simp_all add: switch(8))
    ultimately show ?thesis using less gen(2) by (simp add: publication_inv_def moves_forward_def switch(8))
  qed
qed

lemma fail_ok:
  assumes inv: "publication_inv pf (p, cs)"
  shows "publication_inv pf (publication_fail token now p, cs) \<and> moves_forward p (publication_fail token now p)"
proof (cases "publication_fail token now p = p")
  case False
  let ?p = "publication_fail token now p"
  have f: "?p = p\<lparr>pub_candidate := None, pub_status := (pub_status p)\<lparr>status_candidate := no_identity, status_state := Failed,
      last_result := Prepare_failed, prepare_us := elapsed (pub_started p) now,
      last_attempt := identity_of (pub_manifest p) (pub_generation p)\<rparr>\<rparr>"
    using False by (auto simp: publication_fail_def split: if_splits)
  have same: "serving ?p = serving p" by (simp add: f serving_def)
  have "machine_ok pf ?p" using machine_ok_flights(1) [OF inv]
    by (simp add: f machine_ok_def serving_generation_def in_preparation_def serving_def)
  moreover have "flight_ok pf ?p c" if "c \<in> cs" for c
    by (intro flight_ok_cong [OF machine_ok_flights(2) [OF inv that]]) (simp_all add: f)
  ultimately show ?thesis using same by (simp add: publication_inv_def moves_forward_def f)
qed (use inv in simp)

lemma rejected_ok:
  assumes inv: "publication_inv pf (p, cs)"
  shows "publication_inv pf (publication_rejected m g p, cs) \<and> moves_forward p (publication_rejected m g p)"
proof -
  let ?p = "publication_rejected m g p"
  have same: "serving ?p = serving p" "status_state (pub_status ?p) = Preparing \<longleftrightarrow> status_state (pub_status p) = Preparing"
    "status_state (pub_status ?p) = Ready_to_activate \<longleftrightarrow> status_state (pub_status p) = Ready_to_activate"
    by (auto simp: publication_rejected_def serving_def)
  note ok = machine_ok_flights(1) [OF inv]
  have "machine_ok pf ?p"
    by (rule machine_ok_cong [OF ok])
       (use machine_store_facts [OF ok] same in \<open>simp_all add: in_preparation_def, simp_all add: publication_rejected_def\<close>)
  moreover have "flight_ok pf ?p c" if "c \<in> cs" for c
    by (rule flight_ok_cong [OF machine_ok_flights(2) [OF inv that]])
       (use same in simp_all, simp_all add: publication_rejected_def)
  ultimately show ?thesis using same(1) by (simp add: publication_inv_def moves_forward_def publication_rejected_def)
qed


lemma read_ok:
  assumes inv: "publication_inv pf (p, cs)" and r: "complete_read token p = Inr (m, g)"
  shows "publication_inv pf (p, insert \<lparr>c_token = token, c_manifest = m, c_generation = g, c_prepared = None\<rparr> cs)"
  using inv r by (auto simp: publication_inv_def flight_ok_def complete_read_def split: if_splits)

lemma prepare_ok:
  assumes inv: "publication_inv pf (p, cs)" and c: "c \<in> cs"
    and prep: "complete_prepare ext pf path contents (c_manifest c) (c_generation c) p = Inr snap"
    and dims: "unat (manifest_dimension (c_manifest c)) < score_dimension (publication_kernel (pub_config p))"
  shows "publication_inv pf (p, insert (c\<lparr>c_prepared := Some snap\<rparr>) cs)"
proof -
  have flight: "flight_ok pf p c" by (rule machine_ok_flights(2) [OF inv c])
  have "flight_ok pf p (c\<lparr>c_prepared := Some snap\<rparr>)"
    using flight complete_prepare_ok [OF machine_ok_flights(1) [OF inv] prep dims] by (simp add: flight_ok_def)
  then show ?thesis using inv by (simp add: publication_inv_def)
qed

lemma publication_step_inv:
  "publication_step ext pf x y \<Longrightarrow> publication_inv pf x \<Longrightarrow> publication_inv pf y \<and> moves_forward (fst x) (fst y)"
proof (induction rule: publication_step.induct)
  case (admit p cs m g now)
  have "moves_forward p (fst (publication_begin ext m g now p))"
  proof (cases rule: begin_cases [OF machine_ok_flights(1) [OF admit], where ext = ext and m = m and g = g and now = now])
    case 2
    then show ?thesis by (simp add: moves_forward_def serving_def)
  qed simp
  then show ?case using begin_ok [OF admit] by simp
next
  case (search p cs query k ctx e)
  let ?s = "fst (store_search pf query k ctx e (pub_store p))"
  have ok: "machine_ok pf p" by (rule machine_ok_flights [OF search])
  have "store_inv pf ?s" using store_step_inv [OF store_step.search] machine_store_facts(1) [OF ok] .
  moreover have "read_only ?s = read_only (pub_store p)" "published ?s = published (pub_store p)"
    by (auto simp: store_search_def split: sum.split)
  ultimately have "machine_ok pf (p\<lparr>pub_store := ?s\<rparr>)" and same: "serving (p\<lparr>pub_store := ?s\<rparr>) = serving p"
    using machine_store [OF ok] machine_store_facts(2) [OF ok] by simp_all
  moreover have "flight_ok pf (p\<lparr>pub_store := ?s\<rparr>) c" if "c \<in> cs" for c
    by (rule flight_ok_cong [OF machine_ok_flights(2) [OF search that]]) (use same in simp_all)
  ultimately show ?case by (simp add: publication_inv_def moves_forward_def)
next
  case (reload ix p s cs)
  have ok: "machine_ok pf p" by (rule machine_ok_flights [OF reload(3)])
  have "serving_generation p \<noteq> 0" using ok by (simp add: machine_ok_def)
  then show ?case
    using reload(2) machine_serving(1) [OF ok] machine_store_facts(2) [OF ok]
    by (simp add: replace_index_def publish_snapshot_def serving_generation_def)
qed (auto intro: read_ok prepare_ok install_ok [THEN conjunct1] install_ok [THEN conjunct2] fail_ok [THEN conjunct1]
    fail_ok [THEN conjunct2] rejected_ok [THEN conjunct1] rejected_ok [THEN conjunct2] activate_ok [THEN conjunct1]
    activate_ok [THEN conjunct2])

lemma publication_reachable_inv: "publication_reachable ext pf x \<Longrightarrow> publication_inv pf x"
proof (induction rule: publication_reachable.induct)
  case (create st kind config p)
  then show ?case by (simp add: publication_inv_def publication_create_ok)
qed (use publication_step_inv in blast)

lemma moves_forward_trans:
  assumes "moves_forward x y" "moves_forward y z"
  shows "highest_generation (pub_status x) \<le> highest_generation (pub_status z)"
    "serving_generation x \<le> serving_generation y"
  using assms by (auto simp: moves_forward_def serving_generation_def)

lemma publication_steps_forward:
  assumes "(publication_step ext pf)\<^sup>*\<^sup>* x y" "publication_inv pf x"
  shows "publication_inv pf y \<and> highest_generation (pub_status (fst x)) \<le> highest_generation (pub_status (fst y))
    \<and> (serving (fst y) = serving (fst x) \<or> serving_generation (fst x) < serving_generation (fst y))"
  using assms
proof (induction rule: rtranclp_induct)
  case (step y z)
  then have inv: "publication_inv pf y" by blast
  have "moves_forward (fst y) (fst z)" "publication_inv pf z" using publication_step_inv [OF step.hyps(2) inv] by blast+
  then show ?case using step by (auto simp: moves_forward_def serving_generation_def)
qed simp

section \<open>The properties\<close>

text \<open>A sample: a managed store, and a manifest for the encoding of the sample index, with a
  digest that maps every file to zeros.\<close>

definition sample_externals :: externals where
  "sample_externals = \<lparr>serialize = (\<lambda>_. []), parse_json = (\<lambda>_. None), digest = (\<lambda>_. Some (replicate 32 0))\<rparr>"

definition sample_sha :: string where
  "sample_sha = replicate 64 CHR ''0''"

definition sample_manifest :: snapshot_manifest where
  "sample_manifest = \<lparr>format_version = 1, manifest_snapshot_id = ''sha256:'' @ sample_sha, index_type = ''flat'',
     manifest_dimension = 1, vector_count = 2, file_size = 80, sha256 = sample_sha, manifest_revision = []\<rparr>"

definition sample_publication :: publication where
  "sample_publication = \<lparr>pub_store = sample_serving
       \<lparr>published := Some (sample_snapshot\<lparr>snap_identity := \<lparr>snapshot_id = ''boot'', generation = 1, embedding_revision = []\<rparr>\<rparr>)\<rparr>,
     pub_kind = ''flat'', pub_config = \<lparr>publication_enabled = True, maximum_file_bytes = 1000, publication_kernel = Scalar\<rparr>,
     pub_status = \<lparr>status_state = Serving, status_candidate = no_identity, highest_generation = 1,
       last_result = No_result, last_attempt = no_identity, prepare_us = 0, activation_us = 0\<rparr>,
     pub_manifest = no_manifest, pub_generation = 0, pub_token = 0, pub_started = 0, pub_candidate = None\<rparr>"

lemma sample_publication_reachable:
  "publication_reachable sample_externals sample_platform (sample_publication, {})"
proof (rule publication_reachable.create)
  let ?idn = "\<lparr>snapshot_id = ''boot'', generation = 1, embedding_revision = []\<rparr>"
  have "store_create (Some (Flat flat_sample)) 10 True ?idn = Inr (pub_store sample_publication)"
    by (simp add: store_create_def sample_serving_def publish_snapshot_def sample_snapshot_def Let_def sample_publication_def)
  then show "store_inv sample_platform (pub_store sample_publication)" by (rule store_create_inv [OF flat_sample_ok])
  show "publication_create (Some (pub_store sample_publication)) ''flat'' (pub_config sample_publication) = Inr sample_publication"
    by (simp add: publication_create_def sample_publication_def sample_serving_def sample_snapshot_def
        serving_snapshot_of_def deref_def)
qed (simp add: sample_publication_def)

lemma flat_file_version: "file_version (flat_encode ix) = 1"
proof -
  have "(4 :: nat) = Suc (Suc (Suc (Suc 0)))" by simp
  moreover have "le_bytes (Suc (Suc (Suc (Suc 0)))) (1 :: u32) = [1, 0, 0, 0]" by simp
  ultimately have "le_bytes 4 (1 :: u32) = [1, 0, 0, 0]" by metis
  then obtain rest where "flat_encode ix = flat_magic @ [1, 0, 0, 0] @ rest"
    by (simp add: flat_encode_def flat_header_def flat_format_version_def del: le_bytes.simps)
  then show ?thesis by (simp add: file_version_def flat_magic_def)
qed

lemma sample_verified:
  "load_verified_snapshot sample_externals pf path (Some (flat_encode flat_sample)) sample_manifest ''flat'' Scalar 1000
    = Inr (Flat flat_sample)"
proof -
  have len: "length (flat_encode flat_sample) = 80"
    using length_flat_encode [of flat_sample] flat_sample_inv
    by (simp add: flat_inv_def flat_payload_size_def flat_sample_def flat_size_def)
  have "load_index pf path (Some (flat_encode flat_sample)) ''flat'' Scalar = Inr (Flat flat_sample)"
    using flat_load_storable [OF flat_sample_storable] by (simp add: load_index_def flat_sample_def)
  moreover have "concat (map hex_byte (replicate n 0)) = replicate (2 * n) CHR ''0''" for n
    by (induction n) (simp_all add: hex_byte_def hex_digits_def)
  from this [of 32] have "concat (map hex_byte (replicate 32 0)) = sample_sha" by (simp add: sample_sha_def)
  ultimately show ?thesis
    using len flat_file_version [of flat_sample]
    by (simp add: load_verified_iff describes_file_def manifest_acceptable_def sample_manifest_def sample_externals_def
        sample_sha_def lower_hex_def hex_digits_def flat_sample_def flat_size_def list_all_iff)
qed


text \<open>A complete preparation of that file for generation 2.\<close>

lemma sample_ready:
  "\<exists>p cs snap. publication_reachable sample_externals sample_platform (p, cs) \<and> pub_candidate p = Some snap
     \<and> snap_identity snap = identity_of sample_manifest 2 \<and> highest_generation (pub_status p) = 2
     \<and> (publication_step sample_externals sample_platform)\<^sup>*\<^sup>* (sample_publication, {}) (p, cs)"
proof -
  let ?step = "publication_step sample_externals sample_platform"
  let ?begun = "fst (publication_begin sample_externals sample_manifest 2 0 sample_publication)"
  let ?c = "\<lparr>c_token = 1, c_manifest = sample_manifest, c_generation = 2, c_prepared = None\<rparr>"
  have ok: "validate_manifest sample_externals sample_manifest ''flat'' 1000 = Inr ()"
    using load_verified_iff [THEN iffD1, OF sample_verified] by (simp add: validate_manifest_def)
  have two: "\<not> (2 :: u64) \<le> 1" by (simp add: word_le_nat_alt)
  have begun: "pub_token ?begun = 1 \<and> status_state (pub_status ?begun) = Preparing \<and> pub_manifest ?begun = sample_manifest
      \<and> pub_generation ?begun = 2 \<and> pub_kind ?begun = ''flat'' \<and> pub_config ?begun = pub_config sample_publication
      \<and> pub_store ?begun = pub_store sample_publication \<and> highest_generation (pub_status ?begun) = 2"
    using ok two by (simp add: publication_begin_def sample_publication_def sample_serving_def serving_snapshot_of_def deref_def)
  obtain snap where prep: "complete_prepare sample_externals sample_platform ''staged'' (Some (flat_encode flat_sample))
      sample_manifest 2 ?begun = Inr snap" "snap_identity snap = identity_of sample_manifest 2"
    using begun two sample_verified [of sample_platform "''staged''"]
    by (simp add: complete_prepare_def prepare_snapshot_def sample_publication_def sample_serving_def sample_snapshot_def
        deref_def identity_of_def sample_manifest_def sample_sha_def)
  have s1: "?step (sample_publication, {}) (?begun, {})" by (rule publication_step.admit)
  have s2: "?step (?begun, {}) (?begun, {?c})"
    by (rule publication_step.read) (use begun in \<open>simp add: complete_read_def\<close>)
  have s3: "?step (?begun, {?c}) (?begun, {?c\<lparr>c_prepared := Some snap\<rparr>, ?c})"
    by (rule publication_step.prepare [where contents = "Some (flat_encode flat_sample)" and path = "''staged''"])
       (use begun prep in \<open>simp_all add: sample_manifest_def score_dimension_def sample_publication_def\<close>)
  let ?done = "fst (complete_install 1 sample_manifest 2 snap 0 ?begun)"
  have s4: "?step (?begun, {?c\<lparr>c_prepared := Some snap\<rparr>, ?c}) (?done, {?c\<lparr>c_prepared := Some snap\<rparr>, ?c})"
    using publication_step.install [where c = "?c\<lparr>c_prepared := Some snap\<rparr>" and snap = snap and now = 0] by fastforce
  note reach = publication_reachable.step and into = rtranclp.rtrancl_into_rtrancl [where r = ?step]
  have "publication_reachable sample_externals sample_platform (?done, {?c\<lparr>c_prepared := Some snap\<rparr>, ?c})"
    by (rule reach [OF reach [OF reach [OF reach [OF sample_publication_reachable s1] s2] s3] s4])
  moreover have "pub_candidate ?done = Some snap" "highest_generation (pub_status ?done) = 2"
    using begun by (simp_all add: complete_install_def)
  moreover have "?step\<^sup>*\<^sup>* (sample_publication, {}) (?done, {?c\<lparr>c_prepared := Some snap\<rparr>, ?c})"
    by (rule into [OF into [OF into [OF into [OF rtranclp.rtrancl_refl s1] s2] s3] s4])
  ultimately show ?thesis using prep(2) by blast
qed

text \<open>C24: a verified snapshot is what its manifest says. If loading accepts a file, the manifest
  names the SHA-256 of exactly its bytes, its size, kind, shape and format version, and the index
  satisfies the invariant of the operations with the requested kernel; a flat file is moreover
  the one encoding of that index. Conversely a file the manifest describes is accepted
  exactly when its loader accepts it with that shape.\<close>

theorem load_verified_exact:
  assumes "unat (manifest_dimension m) < score_dimension kern"
  shows "load_verified_snapshot ext pf path contents m kind kern maximum_bytes = Inr ix \<longleftrightarrow>
     manifest_acceptable ext m kind maximum_bytes \<and> (\<exists>bytes. contents = Some bytes \<and> describes_file ext m bytes
       \<and> load_index pf path (Some bytes) kind kern = Inr ix \<and> (kind = ''flat'' \<longrightarrow> (\<exists>fx. ix = Flat fx \<and> bytes = flat_encode fx)))
     \<and> index_dimension ix = unat (manifest_dimension m) \<and> index_size ix = unat (vector_count m)
     \<and> index_inv ix \<and> index_kernel ix = kern"
proof -
  have "index_inv ix \<and> index_kernel ix = kern \<and> (kind = ''flat'' \<longrightarrow> (\<exists>fx. ix = Flat fx \<and> bytes = flat_encode fx))"
    if "load_index pf path (Some bytes) kind kern = Inr ix" "index_dimension ix = unat (manifest_dimension m)" for bytes
  proof -
    have "\<exists>fx. ix = Flat fx \<and> bytes = flat_encode fx" if "kind = ''flat''"
      using \<open>load_index _ _ _ _ _ = _\<close> that flat_load_accepts by (fastforce simp: load_index_def result_simps)
    then show ?thesis using load_index_ok [OF that(1)] that(2) assms by simp
  qed
  then show ?thesis unfolding load_verified_iff by blast
qed

theorem load_verified_exact_witness:
  "load_verified_snapshot sample_externals sample_platform [] (Some (flat_encode flat_sample)) sample_manifest ''flat'' Scalar 1000
     = Inr (Flat flat_sample) \<and> describes_file sample_externals sample_manifest (flat_encode flat_sample)"
proof -
  have "unat (manifest_dimension sample_manifest) < score_dimension Scalar"
    by (simp add: sample_manifest_def score_dimension_def)
  from load_verified_exact [OF this, where ext = sample_externals and pf = sample_platform and path = "[]"
      and contents = "Some (flat_encode flat_sample)" and kind = "''flat''" and maximum_bytes = 1000 and ix = "Flat flat_sample"]
  show ?thesis using sample_verified by auto
qed

text \<open>C25: the state machine never holds a candidate it could not serve. Under every interleaving
  of preparations in flight, activations, failures, rejected commands, searches and reloads, a
  candidate exists exactly in the state READY; it is the next version of what is being served,
  with a valid index and the identity of the manifest accepted last; the generation in
  preparation is the highest accepted one and above the generation served; and a completion
  that is still in flight can only install what belongs to the current attempt.\<close>

theorem publication_reachable_invariant:
  assumes "publication_reachable ext pf (p, cs)"
  shows "machine_ok pf p \<and> (\<forall>c\<in>cs. flight_ok pf p c)"
  using publication_reachable_inv [OF assms] by (simp add: publication_inv_def)

theorem publication_reachable_invariant_witness:
  "\<exists>p snap. machine_ok sample_platform p \<and> pub_candidate p = Some snap \<and> prepared_for sample_platform p snap"
proof -
  obtain p cs snap where p: "publication_reachable sample_externals sample_platform (p, cs)" "pub_candidate p = Some snap"
    using sample_ready by blast
  have "machine_ok sample_platform p" using publication_reachable_invariant [OF p(1)] by blast
  then show ?thesis using p(2) by (auto simp: machine_ok_def)
qed



text \<open>Generations only grow. Over every run the highest accepted generation never decreases,
  and whatever is served later is either the very same snapshot or one of a strictly higher
  generation: no interleaving of late completions, retries, failures and reloads brings an
  older snapshot back.\<close>

theorem publication_generations_grow:
  assumes "publication_reachable ext pf x" "(publication_step ext pf)\<^sup>*\<^sup>* x y"
  shows "highest_generation (pub_status (fst x)) \<le> highest_generation (pub_status (fst y))
    \<and> (serving (fst y) = serving (fst x) \<or> serving_generation (fst x) < serving_generation (fst y))"
  using publication_steps_forward [OF assms(2) publication_reachable_inv [OF assms(1)]] by blast

theorem publication_generations_grow_witness:
  "\<exists>y. (publication_step sample_externals sample_platform)\<^sup>*\<^sup>* (sample_publication, {}) y
     \<and> highest_generation (pub_status (fst y)) = 2
     \<and> (serving (fst y) = serving sample_publication \<or> serving_generation sample_publication < serving_generation (fst y))"
proof -
  obtain p cs where p: "highest_generation (pub_status p) = 2"
      "(publication_step sample_externals sample_platform)\<^sup>*\<^sup>* (sample_publication, {}) (p, cs)"
    using sample_ready by blast
  from publication_generations_grow [OF sample_publication_reachable p(2)] p show ?thesis by auto
qed

end
