(* ===== verification/File_System.thy ===== *)
theory File_System
  imports Prelude
begin

text \<open>
  The file system as far as atomic publication needs it (src/hnsw_index_publish.cpp and
  tools/build_flat_index.cpp): directory entries name inodes, an inode has contents, and both
  reach the device only when synchronised. After a crash an entry is the one last synchronised or
  the present one, and the contents of an inode that was not synchronised are arbitrary. The
  lemmas follow a temporary file from its creation to the durable entry of the destination.
\<close>

section \<open>The file system\<close>

record disk =
  names :: "string \<rightharpoonup> nat"
  durable_names :: "string \<rightharpoonup> nat"
  contents :: "nat \<Rightarrow> u8 list"
  synced :: "nat set"
  next_inode :: nat

definition disk_create :: "string \<Rightarrow> disk \<Rightarrow> disk" where
  "disk_create name d = d\<lparr>names := (names d)(name \<mapsto> next_inode d),
     contents := (contents d)(next_inode d := []), next_inode := Suc (next_inode d)\<rparr>"

definition disk_read :: "string \<Rightarrow> disk \<Rightarrow> u8 list option" where
  "disk_read name d = map_option (contents d) (names d name)"

definition disk_write :: "string \<Rightarrow> u8 list \<Rightarrow> disk \<Rightarrow> disk" where
  "disk_write name c d = (case names d name of None \<Rightarrow> d
     | Some i \<Rightarrow> d\<lparr>contents := (contents d)(i := c), synced := synced d - {i}\<rparr>)"

definition disk_sync_file :: "string \<Rightarrow> disk \<Rightarrow> disk" where
  "disk_sync_file name d = (case names d name of None \<Rightarrow> d | Some i \<Rightarrow> d\<lparr>synced := insert i (synced d)\<rparr>)"

definition disk_rename :: "string \<Rightarrow> string \<Rightarrow> disk \<Rightarrow> disk" where
  "disk_rename source target d = d\<lparr>names := (names d)(target := names d source, source := None)\<rparr>"

definition disk_link :: "string \<Rightarrow> string \<Rightarrow> disk \<Rightarrow> disk" where
  "disk_link source target d = d\<lparr>names := (names d)(target := names d source)\<rparr>"

definition disk_unlink :: "string \<Rightarrow> disk \<Rightarrow> disk" where
  "disk_unlink name d = d\<lparr>names := (names d)(name := None)\<rparr>"

definition disk_sync_directory :: "disk \<Rightarrow> disk" where
  "disk_sync_directory d = d\<lparr>durable_names := names d\<rparr>"

text \<open>What an entry, and what a name can hold after a crash.\<close>

definition crash_values :: "disk \<Rightarrow> nat option \<Rightarrow> u8 list option set" where
  "crash_values d entry = (case entry of None \<Rightarrow> {None}
     | Some i \<Rightarrow> if i \<in> synced d then {Some (contents d i)} else range Some)"

definition after_crash :: "disk \<Rightarrow> string \<Rightarrow> u8 list option set" where
  "after_crash d name = crash_values d (names d name) \<union> crash_values d (durable_names d name)"

text \<open>Which of the system calls succeed: the unique suffix \<open>mkstemp\<close> finds, the stream that
  saves, and the rest. The texts of system errors also carry the description of the system.\<close>

record publish_env =
  temporary_suffix :: "string option"
  save_opens :: bool
  save_capacity :: nat
  save_flushes :: bool
  sync_file_works :: bool
  rename_works :: bool
  link_works :: bool
  unlink_works :: bool
  sync_directory_works :: bool
  remove_works :: bool

text \<open>The destructor of an uncommitted temporary removes its file and ignores errors.\<close>

definition drop_temporary :: "bool \<Rightarrow> string \<Rightarrow> disk \<Rightarrow> disk" where
  "drop_temporary works name d = (if works then disk_unlink name d else d)"

section \<open>Atomicity\<close>

definition disk_wf :: "disk \<Rightarrow> bool" where
  "disk_wf d \<longleftrightarrow> (\<forall>name i. names d name = Some i \<or> durable_names d name = Some i \<longrightarrow> i < next_inode d)
     \<and> (\<forall>i\<in>synced d. i < next_inode d)"

text \<open>A name is untouched if its entries and the inodes they name are.\<close>

definition untouched :: "string \<Rightarrow> disk \<Rightarrow> disk \<Rightarrow> bool" where
  "untouched name d d' \<longleftrightarrow> names d' name = names d name \<and> durable_names d' name = durable_names d name
     \<and> (\<forall>i < next_inode d. contents d' i = contents d i \<and> (i \<in> synced d' \<longleftrightarrow> i \<in> synced d))"

lemma crash_values_old:
  assumes "\<forall>i < next_inode d. contents d' i = contents d i \<and> (i \<in> synced d' \<longleftrightarrow> i \<in> synced d)"
    "disk_wf d" "names d name = e \<or> durable_names d name = e"
  shows "crash_values d' e = crash_values d e"
  using assms by (cases e) (auto simp: crash_values_def disk_wf_def)

lemma untouched_after_crash:
  assumes "disk_wf d" "untouched name d d'"
  shows "after_crash d' name = after_crash d name"
  using assms crash_values_old [of d d' name] by (simp add: untouched_def after_crash_def)

lemma untouched_refl [simp]: "untouched name d d"
  by (simp add: untouched_def)

text \<open>The new file under a name, as a crash may leave it: visible and synchronised, the durable
  entry still the old one.\<close>

definition moved_in :: "string \<Rightarrow> disk \<Rightarrow> u8 list \<Rightarrow> disk \<Rightarrow> bool" where
  "moved_in name d c d' \<longleftrightarrow> names d' name = Some (next_inode d) \<and> durable_names d' name = durable_names d name
     \<and> contents d' (next_inode d) = c \<and> next_inode d \<in> synced d'
     \<and> (\<forall>i < next_inode d. contents d' i = contents d i \<and> (i \<in> synced d' \<longleftrightarrow> i \<in> synced d))"

lemma moved_in_after_crash:
  assumes "disk_wf d" "moved_in name d c d'"
  shows "after_crash d' name \<subseteq> after_crash d name \<union> {Some c}"
proof -
  have "crash_values d' (durable_names d name) = crash_values d (durable_names d name)"
    using assms by (intro crash_values_old [where name = name]) (simp_all add: moved_in_def)
  then show ?thesis using assms(2) by (auto simp: moved_in_def after_crash_def crash_values_def)
qed

lemma moved_in_synced:
  "moved_in name d c d' \<Longrightarrow> after_crash (disk_sync_directory d') name = {Some c}"
  by (simp add: moved_in_def after_crash_def disk_sync_directory_def crash_values_def)

lemma after_crash_unlink [simp]: "name \<noteq> path \<Longrightarrow> after_crash (disk_unlink name d) path = after_crash d path"
proof -
  have "crash_values (disk_unlink name d) e = crash_values d e" for e
    by (cases e) (auto simp: crash_values_def disk_unlink_def)
  then show "name \<noteq> path \<Longrightarrow> after_crash (disk_unlink name d) path = after_crash d path"
    by (simp add: after_crash_def) (simp add: disk_unlink_def)
qed

lemma moved_in_unlink [simp]: "name \<noteq> path \<Longrightarrow> moved_in path d c (disk_unlink name d') = moved_in path d c d'"
  by (simp add: moved_in_def disk_unlink_def)

text \<open>Good states of a call that started in \<open>d\<close>: after a crash the destination holds what it could
  hold before, or a verified copy.\<close>

definition good_state :: "(u8 list \<Rightarrow> bool) \<Rightarrow> string \<Rightarrow> disk \<Rightarrow> disk \<Rightarrow> bool" where
  "good_state verified path d d' \<longleftrightarrow> after_crash d' path \<subseteq> after_crash d path \<union> Some ` {c. verified c}"

lemma good_untouched: "disk_wf d \<Longrightarrow> untouched path d d' \<Longrightarrow> good_state verified path d d'"
  by (drule (1) untouched_after_crash) (simp add: good_state_def)

lemma good_moved_in: "disk_wf d \<Longrightarrow> moved_in path d c d' \<Longrightarrow> verified c \<Longrightarrow> good_state verified path d d'"
  using moved_in_after_crash by (fastforce simp: good_state_def)

lemma after_crash_drop [simp]: "name \<noteq> path \<Longrightarrow> after_crash (drop_temporary works name d) path = after_crash d path"
  by (simp add: drop_temporary_def)

lemma drop_temporary_good:
  assumes "temporary \<noteq> path" "trace \<noteq> []" "\<forall>x\<in>set trace. good_state verified path d x"
  shows "\<forall>x\<in>set (trace @ [drop_temporary works temporary (last trace)]). good_state verified path d x"
  using assms by (auto simp: good_state_def)

definition published_at_last :: "(u8 list \<Rightarrow> bool) \<Rightarrow> string \<Rightarrow> disk list \<times> unit result \<Rightarrow> bool" where
  "published_at_last verified path tr \<longleftrightarrow>
     (snd tr = Inr () \<longrightarrow> (\<exists>c. verified c \<and> after_crash (last (fst tr)) path = {Some c}))"

text \<open>The synchronised temporary file.\<close>

definition staged :: "string \<Rightarrow> disk \<Rightarrow> u8 list \<Rightarrow> disk \<Rightarrow> bool" where
  "staged temporary d c d' \<longleftrightarrow> names d' temporary = Some (next_inode d) \<and> contents d' (next_inode d) = c
     \<and> next_inode d \<in> synced d'"

lemma staged_moves:
  assumes "staged temporary d c d'" "untouched path d d'" "temporary \<noteq> path"
  shows "moved_in path d c (disk_rename temporary path d')" "moved_in path d c (disk_link temporary path d')"
  using assms by (auto simp: staged_def untouched_def moved_in_def disk_rename_def disk_link_def)

lemma created_untouched:
  "name \<noteq> path \<Longrightarrow> untouched path d (disk_create name d)"
  "name \<noteq> path \<Longrightarrow> untouched path d (disk_write name c (disk_create name d))"
  "name \<noteq> path \<Longrightarrow> untouched path d (disk_sync_file name (disk_write name c (disk_create name d)))"
  by (simp_all add: untouched_def disk_create_def disk_write_def disk_sync_file_def)

lemma created_staged: "staged name d c (disk_sync_file name (disk_write name c (disk_create name d)))"
  by (simp add: staged_def disk_create_def disk_write_def disk_sync_file_def)

lemma disk_read_written: "disk_read name (disk_write name c (disk_create name d)) = Some c"
  by (simp add: disk_read_def disk_write_def disk_create_def)

end
