(* ===== verification/Hnsw_Publish.thy ===== *)
theory Hnsw_Publish
  imports Hnsw_Snapshot_Theorems File_System
begin

text \<open>
  src/hnsw_index_publish.cpp: durable publication of an approximate index. The code is the one for
  Linux; elsewhere it only raises.
\<close>

section \<open>Publication\<close>

definition leave_scope :: "publish_env \<Rightarrow> string \<Rightarrow> disk list \<Rightarrow> unit result \<Rightarrow> disk list \<times> unit result" where
  "leave_scope env temporary trace r = (trace @ [drop_temporary (remove_works env) temporary (last trace)], r)"

definition names_a_file :: "string \<Rightarrow> bool" where
  "names_a_file path \<longleftrightarrow> path \<noteq> [] \<and> last path \<noteq> CHR ''/''"

text \<open>The last step, and what moves the verified file into place.\<close>

definition sync_parent :: "publish_env \<Rightarrow> string \<Rightarrow> disk list \<Rightarrow> disk list \<times> unit result" where
  "sync_parent env temporary trace =
     (if \<not> sync_directory_works env then leave_scope env temporary trace (Inl (Runtime_error ''fsync HNSW snapshot''))
      else leave_scope env temporary (trace @ [disk_sync_directory (last trace)]) (Inr ()))"

definition install_file ::
  "publish_env \<Rightarrow> string \<Rightarrow> string \<Rightarrow> bool \<Rightarrow> disk list \<Rightarrow> disk list \<times> unit result" where
  "install_file env temporary path overwrite trace =
     (if overwrite then
        if \<not> rename_works env then
          leave_scope env temporary trace (Inl (Runtime_error ''replace HNSW snapshot''))
        else sync_parent env temporary (trace @ [disk_rename temporary path (last trace)])
      else if \<not> link_works env \<or> names (last trace) path \<noteq> None then
        leave_scope env temporary trace (Inl (Runtime_error ''publish HNSW snapshot without overwrite''))
      else
        let linked = disk_link temporary path (last trace)
        in if \<not> unlink_works env then
             leave_scope env temporary (trace @ [linked]) (Inl (Runtime_error ''remove temporary HNSW snapshot link''))
           else sync_parent env temporary (trace @ [linked, disk_unlink temporary linked]))"

definition temporary_name :: "string \<Rightarrow> string \<Rightarrow> string" where
  "temporary_name path suffix = path @ ''.tmp-'' @ suffix"

text \<open>The result and the states of the disk the call goes through.\<close>

definition publish_hnsw_index ::
  "bool \<Rightarrow> publish_env \<Rightarrow> hnsw_index \<Rightarrow> string \<Rightarrow> bool \<Rightarrow> disk \<Rightarrow> disk list \<times> unit result" where
  "publish_hnsw_index avx2 env ix path overwrite d =
     (if \<not> names_a_file path then ([d], Inl (Invalid_argument ''HNSW snapshot path must name a file''))
      else case temporary_suffix env of
        None \<Rightarrow> ([d], Inl (Runtime_error ''create temporary HNSW snapshot''))
      | Some suffix \<Rightarrow>
          let temporary = temporary_name path suffix;
              created = disk_create temporary d
          in case hnsw_save (save_opens env) (save_capacity env) (save_flushes env) temporary ix of
               (output, r) \<Rightarrow>
                 let saved = (case output of None \<Rightarrow> created | Some c \<Rightarrow> disk_write temporary c created)
                 in case r of
                      Inl e \<Rightarrow> leave_scope env temporary [d, created, saved] (Inl e)
                    | Inr u \<Rightarrow>
                        (case hnsw_load avx2 temporary (disk_read temporary saved) Scalar of
                           Inl e \<Rightarrow> leave_scope env temporary [d, created, saved] (Inl e)
                         | Inr verified \<Rightarrow>
                             if hnsw_size verified \<noteq> hnsw_size ix
                               \<or> stat_directed_edge_count (hnsw_stats_of verified)
                                   \<noteq> stat_directed_edge_count (hnsw_stats_of ix) then
                               leave_scope env temporary [d, created, saved]
                                 (Inl (Runtime_error ''published HNSW snapshot failed verification''))
                             else if \<not> sync_file_works env then
                               leave_scope env temporary [d, created, saved]
                                 (Inl (Runtime_error ''fsync HNSW snapshot''))
                             else install_file env temporary path overwrite
                                    [d, created, saved, disk_sync_file temporary saved]))"

text \<open>The contents of a published file: written completely by the serialiser and verified.\<close>

definition verified_copy :: "bool \<Rightarrow> publish_env \<Rightarrow> string \<Rightarrow> hnsw_index \<Rightarrow> u8 list \<Rightarrow> bool" where
  "verified_copy avx2 env temporary ix c \<longleftrightarrow>
     hnsw_save (save_opens env) (save_capacity env) (save_flushes env) temporary ix = (Some c, Inr ())
   \<and> (\<exists>verified. hnsw_load avx2 temporary (Some c) Scalar = Inr verified \<and> hnsw_size verified = hnsw_size ix
        \<and> stat_directed_edge_count (hnsw_stats_of verified) = stat_directed_edge_count (hnsw_stats_of ix))"

lemma leave_scope_ends [simp]:
  "snd (leave_scope env temporary trace r) = r"
  "last (fst (leave_scope env temporary trace r)) = drop_temporary (remove_works env) temporary (last trace)"
  by (simp_all add: leave_scope_def)

lemma leave_scope_good:
  assumes "temporary \<noteq> path" "trace \<noteq> []" "\<forall>x\<in>set trace. good_state verified path d x"
  shows "\<forall>x\<in>set (fst (leave_scope env temporary trace r)). good_state verified path d x"
  using drop_temporary_good [OF assms] by (simp add: leave_scope_def)

lemma sync_parent_good:
  assumes "disk_wf d" "temporary \<noteq> path" "trace \<noteq> []" "\<forall>x\<in>set trace. good_state verified path d x"
    "moved_in path d c (last trace)" "verified c"
  shows "(\<forall>x\<in>set (fst (sync_parent env temporary trace)). good_state verified path d x)
    \<and> published_at_last verified path (sync_parent env temporary trace)"
proof (cases "sync_directory_works env")
  case True
  have "after_crash (disk_sync_directory (last trace)) path = {Some c}" by (rule moved_in_synced [OF assms(5)])
  moreover from this have "good_state verified path d (disk_sync_directory (last trace))"
    using assms(6) by (simp add: good_state_def)
  then have "\<forall>x\<in>set (trace @ [disk_sync_directory (last trace)]). good_state verified path d x"
    using assms(4) by simp
  from leave_scope_good [OF assms(2) _ this, of env "Inr ()"]
  have "\<forall>x\<in>set (fst (sync_parent env temporary trace)). good_state verified path d x"
    using True by (simp add: sync_parent_def)
  ultimately show ?thesis using assms(2,6) True by (auto simp: sync_parent_def published_at_last_def)
next
  case False
  then show ?thesis
    using leave_scope_good [OF assms(2-4)] by (simp add: sync_parent_def published_at_last_def)
qed

lemma install_file_good:
  assumes "disk_wf d" "temporary \<noteq> path" "trace \<noteq> []" "\<forall>x\<in>set trace. good_state verified path d x"
    and last: "staged temporary d c (last trace)" "untouched path d (last trace)" and c: "verified c"
  shows "(\<forall>x\<in>set (fst (install_file env temporary path overwrite trace)). good_state verified path d x)
    \<and> published_at_last verified path (install_file env temporary path overwrite trace)
    \<and> (snd (install_file env temporary path overwrite trace) = Inr () \<longrightarrow> overwrite \<or> names d path = None)"
proof -
  note moves = staged_moves [OF last assms(2)]
  note good = good_moved_in [where verified = verified, OF assms(1) _ c]
  have same: "names (last trace) path = names d path" using last(2) by (simp add: untouched_def)
  consider (replace) "overwrite" "rename_works env" | (link) "\<not> overwrite" "link_works env" "names d path = None" "unlink_works env"
    | (linked) "\<not> overwrite" "link_works env" "names d path = None" "\<not> unlink_works env"
    | (failed) e where "install_file env temporary path overwrite trace = leave_scope env temporary trace (Inl e)"
    using same by (fastforce simp: install_file_def split: if_splits)
  then show ?thesis
  proof cases
    case replace
    then show ?thesis
      using sync_parent_good [OF assms(1,2), of "trace @ [disk_rename temporary path (last trace)]" verified c env]
        good [OF moves(1)] moves(1) assms(4) c by (simp add: install_file_def)
  next
    case link
    let ?linked = "disk_link temporary path (last trace)"
    have "moved_in path d c (disk_unlink temporary ?linked)" using moves(2) assms(2) by simp
    then show ?thesis
      using sync_parent_good [OF assms(1,2), of "trace @ [?linked, disk_unlink temporary ?linked]" verified c env]
        good [OF moves(2)] good assms(4) c link same by (simp add: install_file_def Let_def)
  next
    case linked
    then show ?thesis
      using leave_scope_good [OF assms(2), of "trace @ [disk_link temporary path (last trace)]" verified d env]
        good [OF moves(2)] assms(4) same by (simp add: install_file_def Let_def published_at_last_def)
  next
    case failed
    then show ?thesis using leave_scope_good [OF assms(2-4)] by (simp add: published_at_last_def)
  qed
qed


section \<open>The property\<close>

lemma temporary_name_new [simp]: "temporary_name path suffix \<noteq> path"
  by (simp add: temporary_name_def)

lemma hnsw_save_writes: "hnsw_save opens capacity flushes path ix = (out, Inr u) \<Longrightarrow> \<exists>c. out = Some c"
  by (auto simp: hnsw_save_def Let_def split: sum.splits if_splits prod.splits)

lemma publish_good:
  fixes path env avx2 ix
  defines "verified \<equiv> verified_copy avx2 env (temporary_name path (the (temporary_suffix env))) ix"
  assumes wf: "disk_wf d"
  shows "(\<forall>x\<in>set (fst (publish_hnsw_index avx2 env ix path overwrite d)). good_state verified path d x)
    \<and> published_at_last verified path (publish_hnsw_index avx2 env ix path overwrite d)
    \<and> (snd (publish_hnsw_index avx2 env ix path overwrite d) = Inr () \<longrightarrow> overwrite \<or> names d path = None)"
    (is "?P (publish_hnsw_index avx2 env ix path overwrite d)")
proof (cases "names_a_file path \<and> temporary_suffix env \<noteq> None")
  case False
  then show ?thesis
    using good_untouched [OF wf, of path d] by (auto simp: publish_hnsw_index_def published_at_last_def)
next
  case True
  then obtain suffix where suffix: "temporary_suffix env = Some suffix" by blast
  let ?t = "temporary_name path suffix" let ?created = "disk_create ?t d"
  obtain out r where save: "hnsw_save (save_opens env) (save_capacity env) (save_flushes env) ?t ix = (out, r)" by fastforce
  let ?saved = "case out of None \<Rightarrow> ?created | Some c \<Rightarrow> disk_write ?t c ?created"
  let ?synced = "disk_sync_file ?t ?saved"
  have good: "\<forall>x\<in>set [d, ?created, ?saved]. good_state verified path d x"
    using created_untouched [of ?t path d] good_untouched [OF wf] by (auto split: option.split)
  have stops: "?P (leave_scope env ?t [d, ?created, ?saved] (Inl e))" for e
    using leave_scope_good [OF temporary_name_new _ good] by (simp add: published_at_last_def)
  consider (stopped) e where "publish_hnsw_index avx2 env ix path overwrite d = leave_scope env ?t [d, ?created, ?saved] (Inl e)"
    | (ready) c v where "r = Inr ()" "out = Some c" "hnsw_load avx2 ?t (disk_read ?t ?saved) Scalar = Inr v"
        "hnsw_size v = hnsw_size ix"
        "stat_directed_edge_count (hnsw_stats_of v) = stat_directed_edge_count (hnsw_stats_of ix)"
        "publish_hnsw_index avx2 env ix path overwrite d
          = install_file env ?t path overwrite [d, ?created, ?saved, ?synced]"
  proof (cases r)
    case (Inl e)
    then show ?thesis using that(1) True suffix save by (simp add: publish_hnsw_index_def Let_def)
  next
    case (Inr u)
    then obtain c where c: "out = Some c" using hnsw_save_writes save by blast
    note eq = publish_hnsw_index_def Let_def suffix save Inr
    show ?thesis
    proof (cases "hnsw_load avx2 ?t (disk_read ?t ?saved) Scalar")
      case (Inl e)
      then show ?thesis using that(1) [of e] True by (simp add: eq)
    next
      case (Inr v)
      show ?thesis
      proof (cases "hnsw_size v = hnsw_size ix \<and> sync_file_works env
          \<and> stat_directed_edge_count (hnsw_stats_of v) = stat_directed_edge_count (hnsw_stats_of ix)")
        case yes: True
        then show ?thesis using that(2) [OF _ c Inr] True Inr by (simp add: eq)
      next
        case False
        then have "publish_hnsw_index avx2 env ix path overwrite d = leave_scope env ?t [d, ?created, ?saved]
            (Inl (Runtime_error (if hnsw_size v \<noteq> hnsw_size ix
               \<or> stat_directed_edge_count (hnsw_stats_of v) \<noteq> stat_directed_edge_count (hnsw_stats_of ix)
             then ''published HNSW snapshot failed verification'' else ''fsync HNSW snapshot'')))"
          using True Inr by (auto simp: eq)
        then show ?thesis by (rule that(1))
      qed
    qed
  qed
  then show ?thesis
  proof cases
    case stopped
    then show ?thesis using stops by simp
  next
    case ready
    have c: "verified c"
      using save ready disk_read_written [of ?t c d] by (simp add: verified_def verified_copy_def suffix)
    have last: "staged ?t d c ?synced" "untouched path d ?synced"
      using created_staged [of ?t d c] created_untouched(3) [of ?t path d c] ready(2) by simp_all
    have "\<forall>x\<in>set [d, ?created, ?saved, ?synced]. good_state verified path d x"
      using good good_untouched [OF wf last(2)] by simp
    from install_file_good [OF wf _ _ this _ _ c, of ?t env overwrite] last show ?thesis unfolding ready(6) by simp
  qed
qed


text \<open>C27: publication is atomic and durable. Whatever system call fails and wherever in the call the
  machine crashes, the destination afterwards holds what it could hold before or a complete copy
  that was read back and verified; for an index the format can hold that copy is its encoding.
  If the call reports success, the copy is there after every crash, and without permission to
  overwrite there was no file.\<close>

theorem publish_atomic:
  assumes "disk_wf d" "publish_hnsw_index avx2 env ix path overwrite d = (trace, r)"
  shows "let verified = verified_copy avx2 env (temporary_name path (the (temporary_suffix env))) ix
    in (\<forall>x\<in>set trace. after_crash x path \<subseteq> after_crash d path \<union> Some ` {c. verified c})
      \<and> (hnsw_storable ix \<longrightarrow> (\<forall>c. verified c \<longrightarrow> c = hnsw_encode ix))
      \<and> (r = Inr () \<longrightarrow> (\<exists>c. verified c \<and> after_crash (last trace) path = {Some c})
           \<and> (overwrite \<or> names d path = None))"
proof -
  have "c = hnsw_encode ix"
    if "hnsw_storable ix" "verified_copy avx2 env (temporary_name path (the (temporary_suffix env))) ix c" for c
    using that hnsw_save_storable [OF that(1)] by (auto simp: verified_copy_def split: if_splits)
  then show ?thesis
    using publish_good [OF assms(1), of avx2 env ix path overwrite] assms(2)
    by (simp add: Let_def good_state_def published_at_last_def)
qed

definition sample_publish_env :: publish_env where
  "sample_publish_env = \<lparr>temporary_suffix = Some ''abcdef'', save_opens = True, save_capacity = 100000,
     save_flushes = True, sync_file_works = True, rename_works = True, link_works = True, unlink_works = True,
     sync_directory_works = True, remove_works = True\<rparr>"

definition empty_disk :: disk where
  "empty_disk = \<lparr>names = Map.empty, durable_names = Map.empty, contents = (\<lambda>_. []), synced = {}, next_inode = 0\<rparr>"

theorem publish_atomic_witness:
  "\<exists>trace. publish_hnsw_index False sample_publish_env hnsw_sample ''index.fvh'' False empty_disk = (trace, Inr ())
     \<and> after_crash (last trace) ''index.fvh'' = {Some (hnsw_encode hnsw_sample)}"
proof -
  let ?t = "temporary_name ''index.fvh'' ''abcdef''"
  have save: "hnsw_save True 100000 True ?t hnsw_sample = (Some (hnsw_encode hnsw_sample), Inr ())"
    using hnsw_save_storable [OF hnsw_sample_storable] hnsw_sample_length by simp
  have load: "hnsw_load False ?t (Some (hnsw_encode hnsw_sample)) Scalar = Inr hnsw_sample"
    using hnsw_load_snapshot [OF storable_snapshot [OF hnsw_sample_storable, of False]] by simp
  have free: "names (disk_sync_file ?t (disk_write ?t c (disk_create ?t empty_disk))) ''index.fvh'' = None" for c
    by (simp add: disk_sync_file_def disk_write_def disk_create_def empty_disk_def temporary_name_def)
  have "snd (publish_hnsw_index False sample_publish_env hnsw_sample ''index.fvh'' False empty_disk) = Inr ()"
    by (simp add: publish_hnsw_index_def sample_publish_env_def names_a_file_def save load Let_def disk_read_written
        install_file_def sync_parent_def free)
  then obtain trace where t: "publish_hnsw_index False sample_publish_env hnsw_sample ''index.fvh'' False empty_disk
      = (trace, Inr ())" by (metis prod.collapse)
  have "disk_wf empty_disk" by (simp add: disk_wf_def empty_disk_def)
  from publish_atomic [OF this t] show ?thesis using hnsw_sample_storable t by (auto simp: Let_def)
qed

end
