(* ===== verification/Error_Text.thy ===== *)
theory Error_Text
  imports Prelude
begin

text \<open>
  \<open>what()\<close> of the exceptions: the classes of the standard library carry their text, those of the
  repository (include/fast_vector/search_context.h, search_executor.h, vector_store.h and
  service/snapshot_publication.h) have a fixed one.
\<close>

fun error_text :: "cpp_error \<Rightarrow> string" where
  "error_text (Invalid_argument text) = text"
| "error_text (Length_error text) = text"
| "error_text (Runtime_error text) = text"
| "error_text (Logic_error text) = text"
| "error_text (Out_of_range text) = text"
| "error_text Bad_alloc = ''std::bad_alloc''"
| "error_text (Search_interrupted reason) = ''search interrupted''"
| "error_text (Search_rejected stopping) = ''search admission rejected''"
| "error_text Snapshot_mismatch = ''snapshot identity or generation mismatch''"
| "error_text Read_only_store = ''vector store is read-only''"
| "error_text Publication_busy = ''snapshot preparation already in progress''"
| "error_text Publication_disabled = ''snapshot publication is disabled''"
| "error_text Undefined_behaviour = []"

end
