(* ===== verification/Char_Conv.thy ===== *)
theory Char_Conv
  imports Ieee754
begin

text \<open>
  \<open>std::from_chars\<close> and \<open>std::to_string\<close> as the tools and the server use them on decimal
  text. A conversion consumes the longest prefix that matches its pattern; the model returns what
  is left of the text and the value or the error code. The value of a decimal fraction is
  computed exactly and rounded once, to nearest with ties to even. The patterns of infinities and
  NaNs are left out: every caller refuses a token that is one of them, as it refuses a token that
  does not match at all. Whether a nonzero number too small for a float is an error is a choice
  of the library: the parameter \<open>tiny\<close> (\<open>True\<close>: it is).
\<close>

section \<open>Digits\<close>

definition decimal_digit :: "char \<Rightarrow> bool" where
  "decimal_digit c \<longleftrightarrow> 48 \<le> (of_char c :: nat) \<and> (of_char c :: nat) \<le> 57"

definition digit_value :: "char \<Rightarrow> nat" where
  "digit_value c = of_char c - 48"

definition number_value :: "string \<Rightarrow> nat" where
  "number_value ds = foldl (\<lambda>n c. 10 * n + digit_value c) 0 ds"

fun decimal :: "nat \<Rightarrow> string" where
  "decimal n = (if n < 10 then [char_of (48 + n)] else decimal (n div 10) @ [char_of (48 + n mod 10)])"

declare decimal.simps [simp del]

section \<open>Conversions\<close>

datatype conversion_error = Errc_invalid_argument | Errc_result_out_of_range

text \<open>\<open>std::from_chars\<close> of an unsigned 64-bit number: no sign, no white space.\<close>

definition from_chars_u64 :: "string \<Rightarrow> string \<times> (conversion_error + u64)" where
  "from_chars_u64 text =
     (let ds = takeWhile decimal_digit text
      in if ds = [] then (text, Inl Errc_invalid_argument)
         else (dropWhile decimal_digit text,
           if 2 ^ 64 \<le> number_value ds then Inl Errc_result_out_of_range else Inr (of_nat (number_value ds))))"

text \<open>The float nearest to \<open>d * 10 ^ k\<close>.\<close>

definition decimal_magnitude :: "float_format \<Rightarrow> nat \<Rightarrow> int \<Rightarrow> nat" where
  "decimal_magnitude F d k =
     (if 0 \<le> k then round_magnitude F (d * 10 ^ nat k) 0
      else div_finite F (d, 0) (10 ^ nat (- k), 0) (fp_prec F + 2 + bit_len (10 ^ nat (- k))))"

text \<open>An exponent is consumed only if it has digits.\<close>

definition exponent_part :: "string \<Rightarrow> int \<times> string" where
  "exponent_part text =
     (case text of
        e # text' \<Rightarrow>
          if e = CHR ''e'' \<or> e = CHR ''E'' then
            let body = (case text' of s # body \<Rightarrow> if s = CHR ''+'' \<or> s = CHR ''-'' then body else text' | [] \<Rightarrow> []);
                ds = takeWhile decimal_digit body;
                n = int (number_value ds)
            in if ds = [] then (0, text)
               else (if hd text' = CHR ''-'' then - n else n, dropWhile decimal_digit body)
          else (0, text)
      | [] \<Rightarrow> (0, []))"

definition fraction_part :: "string \<Rightarrow> string \<times> string" where
  "fraction_part text =
     (case text of
        c # body \<Rightarrow> if c = CHR ''.'' then (takeWhile decimal_digit body, dropWhile decimal_digit body) else ([], text)
      | [] \<Rightarrow> ([], []))"

text \<open>\<open>std::from_chars\<close> of a \<open>float\<close> in the format \<open>general\<close>.\<close>

definition from_chars_float :: "bool \<Rightarrow> string \<Rightarrow> string \<times> (conversion_error + f32)" where
  "from_chars_float tiny text =
     (let negative = (text \<noteq> [] \<and> hd text = CHR ''-'');
          body = (if negative then tl text else text);
          whole = takeWhile decimal_digit body
      in case fraction_part (dropWhile decimal_digit body) of (fraction, rest) \<Rightarrow>
           if whole = [] \<and> fraction = [] then (text, Inl Errc_invalid_argument)
           else case exponent_part rest of (e, rest) \<Rightarrow>
             let d = number_value (whole @ fraction);
                 g = decimal_magnitude binary32 d (e - int (length fraction))
             in (rest, if inf_mag binary32 \<le> g \<or> (tiny \<and> g = 0 \<and> d \<noteq> 0) then Inl Errc_result_out_of_range
                       else Inr (pack32 (negative, g))))"

text \<open>The whole text is one number: what every caller asks for.\<close>

definition whole_u64 :: "string \<Rightarrow> u64 option" where
  "whole_u64 text = (case from_chars_u64 text of
     (rest, Inr n) \<Rightarrow> if rest = [] then Some n else None | (rest, Inl e) \<Rightarrow> None)"

definition whole_float :: "bool \<Rightarrow> string \<Rightarrow> f32 option" where
  "whole_float tiny text = (case from_chars_float tiny text of
     (rest, Inr v) \<Rightarrow> if rest = [] \<and> f32_is_finite v then Some v else None | (rest, Inl e) \<Rightarrow> None)"

section \<open>Printing and reading numbers\<close>

lemma decimal_digit_print: "(d :: nat) < 10 \<Longrightarrow> decimal_digit (char_of (48 + d))"
  by (simp add: decimal_digit_def)

lemma digit_value_print: "(d :: nat) < 10 \<Longrightarrow> digit_value (char_of (48 + d)) = d"
  by (simp add: digit_value_def)

lemma number_value_append: "number_value (ds @ [c]) = 10 * number_value ds + digit_value c"
  by (simp add: number_value_def)

lemma decimal_not_empty [simp]: "decimal n \<noteq> []"
  by (simp add: decimal.simps [of n])

lemma decimal_digits: "c \<in> set (decimal n) \<Longrightarrow> decimal_digit c"
proof (induction n arbitrary: c rule: decimal.induct)
  case (1 n)
  then show ?case
    using decimal_digit_print [of n] decimal_digit_print [of "n mod 10"]
    by (cases "n < 10") (auto simp: decimal.simps [of n])
qed

lemma number_value_decimal [simp]: "number_value (decimal n) = n"
proof (induction n rule: decimal.induct)
  case (1 n)
  then show ?case
    using digit_value_print [of n] digit_value_print [of "n mod 10"]
    by (cases "n < 10") (simp_all add: decimal.simps [of n] number_value_append, simp add: number_value_def)
qed

lemma whole_u64_iff:
  "whole_u64 text = Some n \<longleftrightarrow> text \<noteq> [] \<and> (\<forall>c\<in>set text. decimal_digit c) \<and> number_value text = unat n"
proof
  assume "whole_u64 text = Some n"
  then have *: "takeWhile decimal_digit text \<noteq> []" "dropWhile decimal_digit text = []"
    "number_value (takeWhile decimal_digit text) < 2 ^ 64" "n = of_nat (number_value (takeWhile decimal_digit text))"
    by (auto simp: whole_u64_def from_chars_u64_def Let_def split: if_splits)
  then have "takeWhile decimal_digit text = text" by (metis append_Nil2 takeWhile_dropWhile_id)
  with * show "text \<noteq> [] \<and> (\<forall>c\<in>set text. decimal_digit c) \<and> number_value text = unat n"
    using unat_of_nat_u64 by (metis dropWhile_eq_Nil_conv)
next
  assume *: "text \<noteq> [] \<and> (\<forall>c\<in>set text. decimal_digit c) \<and> number_value text = unat n"
  then have t: "takeWhile decimal_digit text = text" "dropWhile decimal_digit text = []"
    by (simp_all add: takeWhile_eq_all_conv)
  show "whole_u64 text = Some n"
    using * unat_u64 [of n] unfolding whole_u64_def from_chars_u64_def Let_def t by simp
qed

lemma whole_u64_decimal: "whole_u64 (decimal (unat n)) = Some n"
  using decimal_digits by (auto simp: whole_u64_iff)

end
