(* ===== verification/Vector_Jsonl.thy ===== *)
theory Vector_Jsonl
  imports Char_Conv
begin

text \<open>
  tools/vector_jsonl.cpp: the parser of one line of a JSONL file of vectors. A cursor is the input
  and a position in it; the loops that advance it over a class of characters are \<open>takeWhile\<close> on
  what is left. Every token parser comes with a lemma that says what it takes off the input.
\<close>

section \<open>The cursor\<close>

record json_cursor =
  cursor_input :: string
  cursor_position :: nat

definition cursor_rest :: "json_cursor \<Rightarrow> string" where
  "cursor_rest c = drop (cursor_position c) (cursor_input c)"

definition advance :: "nat \<Rightarrow> json_cursor \<Rightarrow> json_cursor" where
  "advance n c = c\<lparr>cursor_position := cursor_position c + n\<rparr>"

definition json_space :: "char \<Rightarrow> bool" where
  "json_space c \<longleftrightarrow> c = CHR '' '' \<or> c = CHR 0x09 \<or> c = CHR 0x0D \<or> c = CHR 0x0A"

definition json_fail :: "string \<Rightarrow> json_cursor \<Rightarrow> 'a result" where
  "json_fail message c = Inl (Invalid_argument (message @ '' at byte '' @ decimal (cursor_position c + 1)))"

definition skip_whitespace :: "json_cursor \<Rightarrow> json_cursor" where
  "skip_whitespace c = advance (length (takeWhile json_space (cursor_rest c))) c"

definition at_char :: "char \<Rightarrow> json_cursor \<Rightarrow> bool" where
  "at_char x c \<longleftrightarrow> cursor_rest c \<noteq> [] \<and> hd (cursor_rest c) = x"

definition expect :: "char \<Rightarrow> json_cursor \<Rightarrow> json_cursor result" where
  "expect x c =
     (let c = skip_whitespace c
      in if at_char x c then Inr (advance 1 c) else json_fail (''expected '' @ [CHR 0x27, x, CHR 0x27]) c)"

definition consume :: "char \<Rightarrow> json_cursor \<Rightarrow> bool \<times> json_cursor" where
  "consume x c =
     (let c = skip_whitespace c in if at_char x c then (True, advance 1 c) else (False, c))"

section \<open>Tokens\<close>

definition key_char :: "char \<Rightarrow> bool" where
  "key_char x \<longleftrightarrow> 32 \<le> (of_char x :: nat) \<and> x \<noteq> CHR 0x5C"

definition parse_key :: "json_cursor \<Rightarrow> (string \<times> json_cursor) result" where
  "parse_key c =
     (let c = skip_whitespace c
      in if \<not> at_char (CHR 0x22) c then json_fail ''expected an object key'' c
         else
           let c = advance 1 c;
               key = takeWhile (\<lambda>x. x \<noteq> CHR 0x22 \<and> key_char x) (cursor_rest c);
               c = advance (length key) c
           in if cursor_rest c = [] then json_fail ''unterminated object key'' c
              else if hd (cursor_rest c) \<noteq> CHR 0x22 then
                json_fail ''object keys must be unescaped printable ASCII'' c
              else Inr (key, advance 1 c))"

definition parse_id :: "json_cursor \<Rightarrow> (vector_id \<times> json_cursor) result" where
  "parse_id c =
     (let c = skip_whitespace c;
          token = takeWhile decimal_digit (cursor_rest c);
          c = advance (length token) c
      in if token = [] then json_fail ''id must be an unsigned integer'' c
         else if 1 < length token \<and> hd token = CHR ''0'' then json_fail ''id must not contain leading zeros'' c
         else case whole_u64 token of
                None \<Rightarrow> json_fail ''id is outside the uint64 range'' c
              | Some vid \<Rightarrow> Inr (vid, c))"

definition float_char :: "char \<Rightarrow> bool" where
  "float_char x \<longleftrightarrow> \<not> json_space x \<and> x \<noteq> CHR '','' \<and> x \<noteq> CHR '']''"

definition parse_float :: "bool \<Rightarrow> json_cursor \<Rightarrow> (f32 \<times> json_cursor) result" where
  "parse_float tiny c =
     (let c = skip_whitespace c;
          token = takeWhile float_char (cursor_rest c);
          c = advance (length token) c
      in if token = [] then json_fail ''expected a floating-point value'' c
         else case whole_float tiny token of
                None \<Rightarrow> json_fail ''values must contain finite JSON numbers representable as float32'' c
              | Some v \<Rightarrow> Inr (v, c))"

section \<open>What the tokens do to the cursor\<close>

lemma cursor_rest_advance [simp]: "cursor_rest (advance n c) = drop n (cursor_rest c)"
  by (simp add: cursor_rest_def advance_def add.commute)

lemma advance_advance [simp]: "advance m (advance n c) = advance (n + m) c"
  by (simp add: advance_def)

lemma advance_0 [simp]: "advance 0 c = c"
  by (simp add: advance_def)

text \<open>White space in front of a token.\<close>

definition blank :: "string \<Rightarrow> bool" where
  "blank w \<longleftrightarrow> (\<forall>x\<in>set w. json_space x)"

lemma skip_whitespace_at:
  "cursor_rest c = w @ x # s \<Longrightarrow> blank w \<Longrightarrow> \<not> json_space x \<Longrightarrow> skip_whitespace c = advance (length w) c"
  by (simp add: skip_whitespace_def blank_def takeWhile_append2)

lemma skip_whitespace_split:
  obtains w where "blank w" "cursor_rest c = w @ cursor_rest (skip_whitespace c)"
    "skip_whitespace c = advance (length w) c"
    "cursor_rest (skip_whitespace c) = [] \<or> \<not> json_space (hd (cursor_rest (skip_whitespace c)))"
proof
  let ?w = "takeWhile json_space (cursor_rest c)"
  show "blank ?w" by (auto simp: blank_def dest: set_takeWhileD)
  show "skip_whitespace c = advance (length ?w) c" by (simp add: skip_whitespace_def)
  have rest: "cursor_rest (skip_whitespace c) = dropWhile json_space (cursor_rest c)"
    by (simp add: skip_whitespace_def dropWhile_eq_drop)
  then show "cursor_rest c = ?w @ cursor_rest (skip_whitespace c)" by simp
  show "cursor_rest (skip_whitespace c) = [] \<or> \<not> json_space (hd (cursor_rest (skip_whitespace c)))"
    unfolding rest using hd_dropWhile by blast
qed

text \<open>Every token is described by what it takes off the rest of the input.\<close>

definition takes :: "json_cursor \<Rightarrow> string \<Rightarrow> string \<Rightarrow> json_cursor \<Rightarrow> bool" where
  "takes c text s c' \<longleftrightarrow> cursor_rest c = text @ s \<and> c' = advance (length text) c"

lemma takes_rest: "takes c text s c' \<Longrightarrow> cursor_rest c' = s"
  by (simp add: takes_def)

lemma takes_trans: "takes c t (u @ s) c' \<Longrightarrow> takes c' u s c'' \<Longrightarrow> takes c (t @ u) s c''"
  by (auto simp: takes_def)

lemma takes_unique: "takes c t s c' \<Longrightarrow> takes c t s' c'' \<Longrightarrow> c' = c'' \<and> s = s'"
  by (auto simp: takes_def)

lemma blank_simps [simp]: "blank []" "blank (x # w) \<longleftrightarrow> json_space x \<and> blank w" "blank (v @ w) \<longleftrightarrow> blank v \<and> blank w"
  by (auto simp: blank_def)

lemma takes_skip:
  "takes c w (x # s) (advance (length w) c) \<Longrightarrow> blank w \<Longrightarrow> \<not> json_space x \<Longrightarrow> skip_whitespace c = advance (length w) c"
  by (rule skip_whitespace_at) (simp_all add: takes_def)

lemma expect_Inr:
  assumes "\<not> json_space x"
  shows "expect x c = Inr c' \<longleftrightarrow> (\<exists>w s. blank w \<and> takes c (w @ [x]) s c')"
proof
  assume e: "expect x c = Inr c'"
  obtain w where "blank w" "cursor_rest c = w @ cursor_rest (skip_whitespace c)"
    "skip_whitespace c = advance (length w) c" by (rule skip_whitespace_split)
  moreover from e obtain s where "cursor_rest (skip_whitespace c) = x # s" "c' = advance 1 (skip_whitespace c)"
    by (auto simp: expect_def Let_def at_char_def json_fail_def neq_Nil_conv split: if_splits)
  ultimately have "blank w" "takes c (w @ [x]) s c'" by (simp_all add: takes_def)
  then show "\<exists>w s. blank w \<and> takes c (w @ [x]) s c'" by blast
next
  assume "\<exists>w s. blank w \<and> takes c (w @ [x]) s c'"
  then obtain w s where w: "blank w" "takes c (w @ [x]) s c'" by blast
  then have "skip_whitespace c = advance (length w) c"
    using assms by (intro skip_whitespace_at [where s = s]) (simp_all add: takes_def)
  then show "expect x c = Inr c'" using w(2) by (auto simp: expect_def Let_def at_char_def takes_def)
qed

lemma expect_takes: "blank w \<Longrightarrow> takes c (w @ [x]) s c' \<Longrightarrow> \<not> json_space x \<Longrightarrow> expect x c = Inr c'"
  using expect_Inr by blast

lemma consume_True:
  assumes "\<not> json_space x"
  shows "consume x c = (True, c') \<longleftrightarrow> (\<exists>w s. blank w \<and> takes c (w @ [x]) s c')"
proof -
  have "consume x c = (True, c') \<longleftrightarrow> expect x c = Inr c'"
    by (simp add: consume_def expect_def Let_def json_fail_def)
  then show ?thesis using expect_Inr [OF assms] by simp
qed

lemma consume_False:
  assumes "consume x c = (False, c')"
  obtains w where "blank w" "takes c w (cursor_rest c') c'"
proof -
  obtain w where "blank w" "cursor_rest c = w @ cursor_rest (skip_whitespace c)"
    "skip_whitespace c = advance (length w) c" by (rule skip_whitespace_split)
  moreover have "c' = skip_whitespace c" using assms by (simp add: consume_def Let_def split: if_splits)
  ultimately show ?thesis using that [of w] by (simp add: takes_def)
qed

lemma consume_other:
  "takes c w (y # s) c' \<Longrightarrow> blank w \<Longrightarrow> \<not> json_space y \<Longrightarrow> y \<noteq> x \<Longrightarrow> consume x c = (False, c')"
  using skip_whitespace_at [of c w y s] by (auto simp: takes_def consume_def Let_def at_char_def)

text \<open>A token that is the longest run of a class of characters.\<close>

lemma run_token:
  assumes "\<forall>x. P x \<longrightarrow> \<not> json_space x" "c1 = skip_whitespace c" "t = takeWhile P (cursor_rest c1)" "t \<noteq> []"
  shows "\<exists>w s. blank w \<and> takes c (w @ t) s (advance (length t) c1) \<and> (s = [] \<or> \<not> P (hd s))"
proof -
  obtain w where "blank w" "cursor_rest c = w @ cursor_rest c1" "c1 = advance (length w) c"
    using skip_whitespace_split [of c] assms(2) by metis
  moreover have "cursor_rest c1 = t @ dropWhile P (cursor_rest c1)" using assms(3) by simp
  ultimately have "blank w" "takes c (w @ t) (dropWhile P (cursor_rest c1)) (advance (length t) c1)"
    by (simp_all add: takes_def)
  then show ?thesis using hd_dropWhile by blast
qed

lemma run_token':
  assumes "\<forall>x. P x \<longrightarrow> \<not> json_space x" "takes c (w @ t) s c'" "blank w" "t \<noteq> []" "\<forall>x\<in>set t. P x"
    "s = [] \<or> \<not> P (hd s)"
  shows "takeWhile P (cursor_rest (skip_whitespace c)) = t" "advance (length t) (skip_whitespace c) = c'"
proof -
  obtain x u where t: "t = x # u" using assms(4) by (cases t) auto
  then have skip: "skip_whitespace c = advance (length w) c"
    using assms by (intro skip_whitespace_at [where s = "u @ s"]) (auto simp: takes_def)
  then show "advance (length t) (skip_whitespace c) = c'" using assms(2) by (simp add: takes_def)
  have "takeWhile P (t @ s) = t" using assms(5,6) by (cases s) (simp_all add: takeWhile_append2)
  then show "takeWhile P (cursor_rest (skip_whitespace c)) = t" using assms(2) skip by (simp add: takes_def)
qed

section \<open>The texts of keys, IDs and floats\<close>

definition key_text :: "string \<Rightarrow> bool" where
  "key_text key \<longleftrightarrow> (\<forall>x\<in>set key. x \<noteq> CHR 0x22 \<and> key_char x)"

definition id_text :: "string \<Rightarrow> vector_id \<Rightarrow> bool" where
  "id_text t vid \<longleftrightarrow> t \<noteq> [] \<and> (\<forall>x\<in>set t. decimal_digit x) \<and> (1 < length t \<longrightarrow> hd t \<noteq> CHR ''0'')
     \<and> number_value t = unat vid"

definition float_text :: "bool \<Rightarrow> string \<Rightarrow> f32 \<Rightarrow> bool" where
  "float_text tiny t v \<longleftrightarrow> t \<noteq> [] \<and> (\<forall>x\<in>set t. float_char x) \<and> whole_float tiny t = Some v"

lemma digit_no_space: "\<forall>x. decimal_digit x \<longrightarrow> \<not> json_space x"
  by (auto simp: decimal_digit_def json_space_def)

lemma parse_id_Inr:
  "parse_id c = Inr (vid, c') \<longleftrightarrow>
     (\<exists>w t s. blank w \<and> id_text t vid \<and> takes c (w @ t) s c' \<and> (s = [] \<or> \<not> decimal_digit (hd s)))"
proof
  let ?t = "takeWhile decimal_digit (cursor_rest (skip_whitespace c))"
  assume "parse_id c = Inr (vid, c')"
  then have p: "?t \<noteq> []" "1 < length ?t \<longrightarrow> hd ?t \<noteq> CHR ''0''" "whole_u64 ?t = Some vid"
    "c' = advance (length ?t) (skip_whitespace c)"
    by (simp_all add: parse_id_def Let_def json_fail_def split: if_splits option.splits)
  from run_token [OF digit_no_space refl refl p(1)] p show
    "\<exists>w t s. blank w \<and> id_text t vid \<and> takes c (w @ t) s c' \<and> (s = [] \<or> \<not> decimal_digit (hd s))"
    by (simp add: id_text_def whole_u64_iff) blast
next
  assume "\<exists>w t s. blank w \<and> id_text t vid \<and> takes c (w @ t) s c' \<and> (s = [] \<or> \<not> decimal_digit (hd s))"
  then obtain w t s where *: "blank w" "id_text t vid" "takes c (w @ t) s c'" "s = [] \<or> \<not> decimal_digit (hd s)"
    by blast
  then have t: "t \<noteq> []" "\<forall>x\<in>set t. decimal_digit x" by (simp_all add: id_text_def)
  show "parse_id c = Inr (vid, c')"
    using *(2) whole_u64_iff [of t vid]
    unfolding parse_id_def Let_def run_token' [where P = decimal_digit, OF digit_no_space *(3,1) t *(4)]
    by (auto simp: id_text_def)
qed

lemma float_no_space: "\<forall>x. float_char x \<longrightarrow> \<not> json_space x"
  by (simp add: float_char_def)

lemma parse_float_Inr:
  "parse_float tiny c = Inr (v, c') \<longleftrightarrow>
     (\<exists>w t s. blank w \<and> float_text tiny t v \<and> takes c (w @ t) s c' \<and> (s = [] \<or> \<not> float_char (hd s)))"
proof
  let ?t = "takeWhile float_char (cursor_rest (skip_whitespace c))"
  assume "parse_float tiny c = Inr (v, c')"
  then have p: "?t \<noteq> []" "whole_float tiny ?t = Some v" "c' = advance (length ?t) (skip_whitespace c)"
    by (simp_all add: parse_float_def Let_def json_fail_def split: if_splits option.splits)
  from run_token [OF float_no_space refl refl p(1)] p show
    "\<exists>w t s. blank w \<and> float_text tiny t v \<and> takes c (w @ t) s c' \<and> (s = [] \<or> \<not> float_char (hd s))"
    by (metis float_text_def set_takeWhileD)
next
  assume "\<exists>w t s. blank w \<and> float_text tiny t v \<and> takes c (w @ t) s c' \<and> (s = [] \<or> \<not> float_char (hd s))"
  then obtain w t s where *: "blank w" "float_text tiny t v" "takes c (w @ t) s c'" "s = [] \<or> \<not> float_char (hd s)"
    by blast
  then have t: "t \<noteq> []" "\<forall>x\<in>set t. float_char x" by (simp_all add: float_text_def)
  show "parse_float tiny c = Inr (v, c')"
    using *(2) unfolding parse_float_def Let_def run_token' [where P = float_char, OF float_no_space *(3,1) t *(4)]
    by (simp add: float_text_def)
qed

lemma parse_key_Inr:
  "parse_key c = Inr (key, c') \<longleftrightarrow>
     (\<exists>w s. blank w \<and> key_text key \<and> takes c (w @ CHR 0x22 # key @ [CHR 0x22]) s c')"
proof
  let ?q = "\<lambda>x. x \<noteq> CHR 0x22 \<and> key_char x"
  let ?c1 = "skip_whitespace c" let ?r = "drop 1 (cursor_rest ?c1)"
  assume p: "parse_key c = Inr (key, c')"
  then have k: "at_char (CHR 0x22) ?c1" "key = takeWhile ?q ?r" "drop (length key) ?r \<noteq> []"
      "hd (drop (length key) ?r) = CHR 0x22" "c' = advance (1 + length key + 1) ?c1"
    by (auto simp: parse_key_def Let_def json_fail_def split: if_splits)
  have "dropWhile ?q ?r = drop (length key) ?r" unfolding k(2) by (rule dropWhile_eq_drop)
  with k(3,4) have d: "dropWhile ?q ?r \<noteq> []" "hd (dropWhile ?q ?r) = CHR 0x22" by (simp_all only:) simp_all
  obtain w where w: "blank w" "cursor_rest c = w @ cursor_rest ?c1" "?c1 = advance (length w) c"
    by (rule skip_whitespace_split)
  have "cursor_rest ?c1 = CHR 0x22 # ?r" using k(1) by (cases "cursor_rest ?c1") (simp_all add: at_char_def)
  also have "?r = key @ dropWhile ?q ?r" using k(2) by simp
  also have "dropWhile ?q ?r = CHR 0x22 # tl (dropWhile ?q ?r)" using d by (metis list.collapse)
  finally obtain u where u: "cursor_rest ?c1 = CHR 0x22 # key @ CHR 0x22 # u" by fastforce
  have "cursor_rest c = w @ CHR 0x22 # key @ CHR 0x22 # u" using w(2) unfolding u .
  moreover have "c' = advance (length w + (1 + length key + 1)) c" using k(5) unfolding w(3) advance_advance .
  ultimately have "takes c (w @ CHR 0x22 # key @ [CHR 0x22]) u c'" by (simp add: takes_def)
  moreover have "key_text key" using k(2) by (auto simp: key_text_def dest: set_takeWhileD)
  ultimately show "\<exists>w s. blank w \<and> key_text key \<and> takes c (w @ CHR 0x22 # key @ [CHR 0x22]) s c'"
    using w(1) by blast
next
  assume "\<exists>w s. blank w \<and> key_text key \<and> takes c (w @ CHR 0x22 # key @ [CHR 0x22]) s c'"
  then obtain w s where *: "blank w" "key_text key" "takes c (w @ CHR 0x22 # key @ [CHR 0x22]) s c'" by blast
  then have skip: "skip_whitespace c = advance (length w) c"
    by (intro skip_whitespace_at [where s = "key @ CHR 0x22 # s" and x = "CHR 0x22"]) (simp_all add: takes_def json_space_def)
  have "takeWhile (\<lambda>x. x \<noteq> CHR 0x22 \<and> key_char x) (key @ CHR 0x22 # s) = key"
    using *(2) by (simp add: key_text_def takeWhile_append2)
  then show "parse_key c = Inr (key, c')"
    using *(3) by (simp add: parse_key_def Let_def skip at_char_def takes_def)
qed

section \<open>Objects\<close>

lemma skip_whitespace_shorter: "length (cursor_rest (skip_whitespace c)) \<le> length (cursor_rest c)"
  by (simp add: skip_whitespace_def)

lemma expect_shorter: "expect x c = Inr c' \<Longrightarrow> length (cursor_rest c') < length (cursor_rest c)"
  using skip_whitespace_shorter [of c]
  by (auto simp: expect_def Let_def json_fail_def at_char_def neq_Nil_conv split: if_splits)

lemma consume_shorter:
  assumes "consume x c = (b, c')"
  shows "length (cursor_rest c') \<le> length (cursor_rest c)"
proof -
  have "length (cursor_rest c') \<le> length (cursor_rest (skip_whitespace c))"
    using assms by (auto simp: consume_def Let_def split: if_splits)
  then show ?thesis using skip_whitespace_shorter le_trans by blast
qed

lemmas shorter_dests = expect_shorter consume_shorter consume_shorter [OF sym]

lemma parse_float_shorter: "parse_float tiny c = Inr (v, c') \<Longrightarrow> length (cursor_rest c') < length (cursor_rest c)"
  by (auto simp: parse_float_Inr takes_def float_text_def)

lemma parse_key_shorter: "parse_key c = Inr (k, c') \<Longrightarrow> length (cursor_rest c') < length (cursor_rest c)"
  by (auto simp: parse_key_Inr takes_def)

lemma parse_id_shorter: "parse_id c = Inr (v, c') \<Longrightarrow> length (cursor_rest c') \<le> length (cursor_rest c)"
  by (auto simp: parse_id_Inr takes_def)

function parse_items :: "bool \<Rightarrow> f32 list \<Rightarrow> json_cursor \<Rightarrow> (f32 list \<times> json_cursor) result" where
  "parse_items tiny values c =
     and_then (parse_float tiny c) (\<lambda>(v, c).
     case consume (CHR '']'') c of (found, c) \<Rightarrow>
       if found then Inr (values @ [v], c)
       else and_then (expect (CHR '','') c) (parse_items tiny (values @ [v])))"
  by pat_completeness auto

termination
proof (relation "measure (\<lambda>(tiny, values, c). length (cursor_rest c))")
qed (auto dest!: parse_float_shorter shorter_dests)

declare parse_items.simps [simp del]

definition parse_values :: "bool \<Rightarrow> json_cursor \<Rightarrow> (f32 list \<times> json_cursor) result" where
  "parse_values tiny c =
     and_then (expect (CHR ''['') c) (\<lambda>c.
     case consume (CHR '']'') c of (found, c) \<Rightarrow> if found then Inr ([], c) else parse_items tiny [] c)"

lemma parse_items_shorter:
  "parse_items tiny vals c = Inr (vs, c') \<Longrightarrow> length (cursor_rest c') \<le> length (cursor_rest c)"
proof (induction tiny vals c rule: parse_items.induct)
  case (1 tiny vals c)
  show ?case
  proof (cases "parse_float tiny c")
    case (Inr f)
    obtain v c1 where f: "f = (v, c1)" by fastforce
    obtain b c2 where r: "consume (CHR '']'') c1 = (b, c2)" by fastforce
    have "length (cursor_rest c') \<le> length (cursor_rest c2)"
      using "1.prems" "1.IH" [OF Inr f [symmetric] r [symmetric]] parse_items.simps [of tiny vals c]
      by (fastforce simp: Inr f r and_then_eq_Inr split: if_splits dest: expect_shorter)
    then show ?thesis using parse_float_shorter consume_shorter [OF r] Inr f by fastforce
  qed (use "1.prems" parse_items.simps [of tiny vals c] in simp)
qed

lemma parse_values_shorter:
  assumes "parse_values tiny c = Inr (vs, c')"
  shows "length (cursor_rest c') \<le> length (cursor_rest c)"
proof -
  from assms obtain c1 where e: "expect (CHR ''['') c = Inr c1" by (auto simp: parse_values_def and_then_eq_Inr)
  obtain b c2 where r: "consume (CHR '']'') c1 = (b, c2)" by fastforce
  have "length (cursor_rest c') \<le> length (cursor_rest c2)"
    using assms by (auto simp: parse_values_def e r split: if_splits dest!: parse_items_shorter)
  then show ?thesis using expect_shorter [OF e] consume_shorter [OF r] by simp
qed

definition parse_member ::
  "bool \<Rightarrow> vector_id option \<Rightarrow> f32 list option \<Rightarrow> json_cursor \<Rightarrow>
   (vector_id option \<times> f32 list option \<times> json_cursor) result" where
  "parse_member tiny vid values c =
     and_then (parse_key c) (\<lambda>(key, c).
     and_then (expect (CHR '':'') c) (\<lambda>c.
     if key = ''id'' then
       if vid \<noteq> None then Inl (Invalid_argument ''duplicate id member'')
       else and_then (parse_id c) (\<lambda>(i, c). Inr (Some i, values, c))
     else if key = ''values'' then
       if values \<noteq> None then Inl (Invalid_argument ''duplicate values member'')
       else and_then (parse_values tiny c) (\<lambda>(vs, c). Inr (vid, Some vs, c))
     else Inl (Invalid_argument (''unknown vector member: '' @ key))))"

lemma parse_member_shorter:
  "parse_member tiny vid values c = Inr (vid', values', c') \<Longrightarrow> length (cursor_rest c') < length (cursor_rest c)"
  by (fastforce simp: parse_member_def and_then_eq_Inr split: prod.splits if_splits
      dest!: parse_key_shorter parse_id_shorter parse_values_shorter expect_shorter)

function parse_members ::
  "bool \<Rightarrow> vector_id option \<Rightarrow> f32 list option \<Rightarrow> json_cursor \<Rightarrow>
   (vector_id option \<times> f32 list option \<times> json_cursor) result" where
  "parse_members tiny vid values c =
     and_then (parse_member tiny vid values c) (\<lambda>(vid, values, c).
     case consume (CHR ''}'') c of (found, c) \<Rightarrow>
       if found then Inr (vid, values, c)
       else and_then (expect (CHR '','') c) (parse_members tiny vid values))"
  by pat_completeness auto

termination
proof (relation "measure (\<lambda>(tiny, vid, values, c). length (cursor_rest c))")
qed (auto dest!: parse_member_shorter shorter_dests)

declare parse_members.simps [simp del]

definition expect_end :: "json_cursor \<Rightarrow> unit result" where
  "expect_end c =
     (let c = skip_whitespace c
      in if cursor_rest c \<noteq> [] then json_fail ''unexpected trailing data'' c else Inr ())"

record parsed_record =
  parsed_id :: vector_id
  parsed_values :: "f32 list"

definition parse_vector_json_line :: "bool \<Rightarrow> string \<Rightarrow> parsed_record result" where
  "parse_vector_json_line tiny line =
     and_then (expect (CHR ''{'') \<lparr>cursor_input = line, cursor_position = 0\<rparr>) (\<lambda>c.
     case consume (CHR ''}'') c of (found, c) \<Rightarrow>
       if found then Inl (Invalid_argument ''vector object must contain id and values'')
       else
         and_then (parse_members tiny None None c) (\<lambda>(vid, values, c).
         and_then (expect_end c) (\<lambda>_.
         case (vid, values) of
           (Some i, Some vs) \<Rightarrow> Inr \<lparr>parsed_id = i, parsed_values = vs\<rparr>
         | _ \<Rightarrow> Inl (Invalid_argument ''vector object must contain id and values''))))"

definition is_json_whitespace_only :: "string \<Rightarrow> bool" where
  "is_json_whitespace_only line = list_all json_space line"

end
