(* ===== verification/Vector_Jsonl_Theorems.thy ===== *)
theory Vector_Jsonl_Theorems
  imports Vector_Jsonl
begin

text \<open>
  The JSONL parser accepts exactly the lines of a grammar that is written down without it, and
  reads from each the record it describes.
\<close>

section \<open>The grammar\<close>

text \<open>The floats of an array after its bracket, the array, and the two members of an object.\<close>

inductive item_texts :: "bool \<Rightarrow> f32 list \<Rightarrow> string \<Rightarrow> bool" for tiny where
  last_item: "blank w \<Longrightarrow> float_text tiny t v \<Longrightarrow> blank w' \<Longrightarrow> item_texts tiny [v] (w @ t @ w' @ '']'')"
| more_items: "blank w \<Longrightarrow> float_text tiny t v \<Longrightarrow> blank w' \<Longrightarrow> item_texts tiny vs u \<Longrightarrow>
    item_texts tiny (v # vs) (w @ t @ w' @ '','' @ u)"

definition values_text :: "bool \<Rightarrow> f32 list \<Rightarrow> string \<Rightarrow> bool" where
  "values_text tiny vs text \<longleftrightarrow> (\<exists>w u. blank w \<and> text = w @ ''['' @ u \<and>
     (vs = [] \<and> (\<exists>w'. blank w' \<and> u = w' @ '']'') \<or> item_texts tiny vs u))"

definition id_member :: "vector_id \<Rightarrow> string \<Rightarrow> bool" where
  "id_member vid text \<longleftrightarrow> (\<exists>w w1 w2 t. blank w \<and> blank w1 \<and> blank w2 \<and> id_text t vid
     \<and> text = w @ [CHR 0x22] @ ''id'' @ [CHR 0x22] @ w1 @ '':'' @ w2 @ t)"

definition values_member :: "bool \<Rightarrow> f32 list \<Rightarrow> string \<Rightarrow> bool" where
  "values_member tiny vs text \<longleftrightarrow> (\<exists>w w1 u. blank w \<and> blank w1 \<and> values_text tiny vs u
     \<and> text = w @ [CHR 0x22] @ ''values'' @ [CHR 0x22] @ w1 @ '':'' @ u)"

text \<open>A line: an object with both members, each once, in either order.\<close>

definition record_text :: "bool \<Rightarrow> parsed_record \<Rightarrow> string \<Rightarrow> bool" where
  "record_text tiny r line \<longleftrightarrow> (\<exists>w m w1 m' w2 w3. blank w \<and> blank w1 \<and> blank w2 \<and> blank w3
     \<and> (id_member (parsed_id r) m \<and> values_member tiny (parsed_values r) m'
        \<or> values_member tiny (parsed_values r) m \<and> id_member (parsed_id r) m')
     \<and> line = w @ ''{'' @ m @ w1 @ '','' @ m' @ w2 @ ''}'' @ w3)"

section \<open>The parser accepts the grammar\<close>

lemma takes_seq: "takes c t s1 c1 \<Longrightarrow> takes c1 u s2 c2 \<Longrightarrow> takes c (t @ u) s2 c2"
  by (auto simp: takes_def)

lemma takes_splitE:
  assumes "takes c (t @ u) s c'"
  obtains c1 where "takes c t (u @ s) c1" "takes c1 u s c'"
  using assms by (auto simp: takes_def)

lemma blank_hd: "blank w \<Longrightarrow> (\<And>x. json_space x \<Longrightarrow> P x) \<Longrightarrow> P y \<Longrightarrow> P (hd (w @ y # s))"
  by (cases w) auto

lemma no_float_char: "json_space x \<Longrightarrow> \<not> float_char x" "\<not> float_char (CHR '','')" "\<not> float_char (CHR '']'')"
  by (simp_all add: float_char_def)

lemma no_spaces [simp]: "\<not> json_space (CHR '','')" "\<not> json_space (CHR '']'')" "\<not> json_space (CHR ''['')"
  "\<not> json_space (CHR ''{'')" "\<not> json_space (CHR ''}'')" "\<not> json_space (CHR '':'')" "\<not> json_space (CHR 0x22)"
  by (simp_all add: json_space_def)

lemma parse_float_takes:
  "takes c (w @ t) (w' @ y # s) c' \<Longrightarrow> blank w \<Longrightarrow> float_text tiny t v \<Longrightarrow> blank w' \<Longrightarrow> \<not> float_char y \<Longrightarrow>
   parse_float tiny c = Inr (v, c')"
  using blank_hd [of w' "\<lambda>x. \<not> float_char x" y s] no_float_char(1) by (auto simp: parse_float_Inr)

lemma parse_items_sound:
  "parse_items tiny acc c = Inr (r, c') \<Longrightarrow> \<exists>vs u s. item_texts tiny vs u \<and> r = acc @ vs \<and> takes c u s c'"
proof (induction tiny acc c rule: parse_items.induct)
  case (1 tiny acc c)
  from "1.prems" obtain v c1 where f: "parse_float tiny c = Inr (v, c1)"
    by (subst (asm) parse_items.simps) (auto simp: and_then_eq_Inr)
  then obtain w t s1 where t: "blank w" "float_text tiny t v" "takes c (w @ t) s1 c1" by (auto simp: parse_float_Inr)
  obtain b c2 where b: "consume (CHR '']'') c1 = (b, c2)" by fastforce
  show ?case
  proof (cases b)
    case True
    then obtain w' s where w': "blank w'" "takes c1 (w' @ '']'') s c2" using b by (auto simp: consume_True)
    moreover have "r = acc @ [v]" "c' = c2"
      using "1.prems" by (simp_all add: parse_items.simps [of tiny acc c] f b True)
    ultimately show ?thesis using last_item [OF t(1,2) w'(1)] takes_seq [OF t(3) w'(2)] by auto
  next
    case False
    then obtain w' where w': "blank w'" "takes c1 w' (cursor_rest c2) c2" using b by (auto elim: consume_False)
    from "1.prems" obtain c3 where e: "expect (CHR '','') c2 = Inr c3" and p: "parse_items tiny (acc @ [v]) c3 = Inr (r, c')"
      using False by (auto simp: parse_items.simps [of tiny acc c] f b and_then_eq_Inr)
    from e obtain w2 s2 where w2: "blank w2" "takes c2 (w2 @ '','') s2 c3" by (auto simp: expect_Inr)
    from "1.IH" [OF f refl b [symmetric] _ e p] False obtain vs u s where
      u: "item_texts tiny vs u" "r = (acc @ [v]) @ vs" "takes c3 u s c'" by blast
    have "item_texts tiny (v # vs) (w @ t @ (w' @ w2) @ '','' @ u)"
      by (rule more_items) (simp_all add: t(1,2) w'(1) w2(1) u(1))
    moreover have "takes c ((w @ t) @ w' @ (w2 @ '','') @ u) s c'"
      by (rule takes_seq [OF t(3) takes_seq [OF w'(2) takes_seq [OF w2(2) u(3)]]])
    ultimately show ?thesis using u(2) by (intro exI [of _ "v # vs"]) auto
  qed
qed

lemma parse_items_complete:
  "item_texts tiny vs u \<Longrightarrow> takes c u s c' \<Longrightarrow> parse_items tiny acc c = Inr (acc @ vs, c')"
proof (induction arbitrary: acc c rule: item_texts.induct)
  case (last_item w t v w')
  from last_item.prems have "takes c ((w @ t) @ w' @ '']'') s c'" by simp
  then obtain c1 where c1: "takes c (w @ t) ((w' @ '']'') @ s) c1" "takes c1 (w' @ '']'') s c'" by (rule takes_splitE)
  have "parse_float tiny c = Inr (v, c1)"
    using parse_float_takes [of c w t w' "CHR '']''" s] c1(1) last_item.hyps no_float_char by simp
  moreover have "consume (CHR '']'') c1 = (True, c')" using c1(2) last_item.hyps by (auto simp: consume_True)
  ultimately show ?case by (simp add: parse_items.simps [of tiny acc c])
next
  case (more_items w t v w' vs u)
  from more_items.prems have "takes c ((w @ t) @ w' @ '','' @ u) s c'" by simp
  then obtain c1 where c1: "takes c (w @ t) ((w' @ '','' @ u) @ s) c1" "takes c1 (w' @ '','' @ u) s c'"
    by (rule takes_splitE)
  from c1(2) obtain c2 where c2: "takes c1 w' (('','' @ u) @ s) c2" "takes c2 ('','' @ u) s c'" by (rule takes_splitE)
  from c2(2) obtain c3 where c3: "takes c2 '','' (u @ s) c3" "takes c3 u s c'" by (rule takes_splitE)
  have "parse_float tiny c = Inr (v, c1)"
    using parse_float_takes [of c w t w' "CHR '',''" "u @ s"] c1(1) more_items.hyps no_float_char by simp
  moreover have "consume (CHR '']'') c1 = (False, c2)"
    using consume_other [of c1 w' "CHR '',''" "u @ s" c2 "CHR '']''"] c2(1) more_items.hyps by simp
  moreover have "expect (CHR '','') c2 = Inr c3" using expect_takes [of "[]"] c3(1) by simp
  ultimately show ?case using more_items.IH [OF c3(2)] by (simp add: parse_items.simps [of tiny acc c])
qed

text \<open>White space in front of the items belongs to the first of them.\<close>

lemma item_texts_blank: "item_texts tiny vs u \<Longrightarrow> blank w \<Longrightarrow> item_texts tiny vs (w @ u)"
proof (induction rule: item_texts.induct)
  case (last_item w0 t v w')
  then show ?case using item_texts.last_item [of "w @ w0" tiny t v w'] by simp
next
  case (more_items w0 t v w' vs u)
  then show ?case using item_texts.more_items [of "w @ w0" tiny t v w' vs u] by simp
qed

lemma item_texts_strip:
  "item_texts tiny vs u \<Longrightarrow> \<exists>w x u'. u = w @ x # u' \<and> blank w \<and> float_char x \<and> item_texts tiny vs (x # u')"
proof (induction rule: item_texts.induct)
  case (last_item w t v w')
  then obtain x t' where t: "t = x # t'" "float_char x" by (cases t) (auto simp: float_text_def)
  with last_item show ?case
    using item_texts.last_item [of "[]" tiny t v w'] by (intro exI [of _ w] exI [of _ x] exI [of _ "t' @ w' @ '']''"]) simp
next
  case (more_items w t v w' vs u)
  then obtain x t' where t: "t = x # t'" "float_char x" by (cases t) (auto simp: float_text_def)
  with more_items show ?case
    using item_texts.more_items [of "[]" tiny t v w' vs u]
    by (intro exI [of _ w] exI [of _ x] exI [of _ "t' @ w' @ '','' @ u"]) simp
qed

lemma parse_values_Inr:
  "parse_values tiny c = Inr (vs, c') \<longleftrightarrow> (\<exists>u s. values_text tiny vs u \<and> takes c u s c')"
proof
  assume p: "parse_values tiny c = Inr (vs, c')"
  then obtain c1 where e: "expect (CHR ''['') c = Inr c1" by (auto simp: parse_values_def and_then_eq_Inr)
  then obtain w s1 where w: "blank w" "takes c (w @ ''['') s1 c1" by (auto simp: expect_Inr)
  obtain b c2 where b: "consume (CHR '']'') c1 = (b, c2)" by fastforce
  show "\<exists>u s. values_text tiny vs u \<and> takes c u s c'"
  proof (cases b)
    case True
    then obtain w' s where "blank w'" "takes c1 (w' @ '']'') s c2" using b by (auto simp: consume_True)
    moreover have "vs = []" "c' = c2" using p by (simp_all add: parse_values_def e b True)
    ultimately have "values_text tiny vs ((w @ ''['') @ w' @ '']'')" "takes c ((w @ ''['') @ w' @ '']'') s c'"
      using w takes_seq [OF w(2)] by (auto simp: values_text_def)
    then show ?thesis by blast
  next
    case False
    then obtain w' where w': "blank w'" "takes c1 w' (cursor_rest c2) c2" using b by (auto elim: consume_False)
    have "parse_items tiny [] c2 = Inr (vs, c')" using p by (simp add: parse_values_def e b False)
    from parse_items_sound [OF this] obtain u s where u: "item_texts tiny vs u" "takes c2 u s c'" by auto
    have "takes c ((w @ ''['') @ w' @ u) s c'" by (rule takes_seq [OF w(2) takes_seq [OF w'(2) u(2)]])
    moreover have "values_text tiny vs ((w @ ''['') @ w' @ u)"
      using w(1) item_texts_blank [OF u(1) w'(1)] by (auto simp: values_text_def)
    ultimately show ?thesis by blast
  qed
next
  assume "\<exists>u s. values_text tiny vs u \<and> takes c u s c'"
  then obtain w u s where w: "blank w" "takes c ((w @ ''['') @ u) s c'"
    and u: "vs = [] \<and> (\<exists>w'. blank w' \<and> u = w' @ '']'') \<or> item_texts tiny vs u"
    by (auto simp: values_text_def)
  from w(2) obtain c1 where c1: "takes c (w @ ''['') (u @ s) c1" "takes c1 u s c'" by (rule takes_splitE)
  have e: "expect (CHR ''['') c = Inr c1" using c1(1) w(1) by (auto simp: expect_Inr)
  from u show "parse_values tiny c = Inr (vs, c')"
  proof
    assume "vs = [] \<and> (\<exists>w'. blank w' \<and> u = w' @ '']'')"
    then have "consume (CHR '']'') c1 = (True, c')" "vs = []" using c1(2) by (auto simp: consume_True)
    then show ?thesis by (simp add: parse_values_def e)
  next
    assume "item_texts tiny vs u"
    then obtain w' x u' where u': "u = w' @ x # u'" "blank w'" "float_char x" "item_texts tiny vs (x # u')"
      using item_texts_strip by blast
    from c1(2)[unfolded u'(1)] obtain c2 where c2: "takes c1 w' ((x # u') @ s) c2" "takes c2 (x # u') s c'"
      by (rule takes_splitE)
    have "consume (CHR '']'') c1 = (False, c2)"
      using consume_other [of c1 w' x "u' @ s" c2 "CHR '']''"] c2(1) u' by (auto simp: float_char_def)
    then show ?thesis using parse_items_complete [OF u'(4) c2(2)] by (simp add: parse_values_def e)
  qed
qed

text \<open>One member.\<close>

lemma key_texts: "key_text ''id''" "key_text ''values''"
  by (simp_all add: key_text_def key_char_def)

lemma parse_member_Inr:
  "parse_member tiny vid vals c = Inr (vid', vals', c') \<longleftrightarrow>
     (\<exists>i m s. vid = None \<and> vid' = Some i \<and> vals' = vals \<and> id_member i m \<and> takes c m s c'
        \<and> (s = [] \<or> \<not> decimal_digit (hd s)))
   \<or> (\<exists>vs m s. vals = None \<and> vals' = Some vs \<and> vid' = vid \<and> values_member tiny vs m \<and> takes c m s c')"
  (is "?L \<longleftrightarrow> ?I \<or> ?V")
proof
  assume L: ?L
  then obtain key c1 where k: "parse_key c = Inr (key, c1)" by (auto simp: parse_member_def and_then_eq_Inr)
  then obtain w s1 where w: "blank w" "takes c (w @ CHR 0x22 # key @ [CHR 0x22]) s1 c1" by (auto simp: parse_key_Inr)
  from L k obtain c2 where e: "expect (CHR '':'') c1 = Inr c2" by (auto simp: parse_member_def and_then_eq_Inr)
  then obtain w1 s2 where w1: "blank w1" "takes c1 (w1 @ '':'') s2 c2" by (auto simp: expect_Inr)
  note front = takes_seq [OF w(2) takes_seq [OF w1(2)]]
  consider (id) "key = ''id''" "vid = None" | (vals) "key = ''values''" "vals = None"
    using L by (auto simp: parse_member_def k e split: if_splits)
  then show "?I \<or> ?V"
  proof cases
    case id
    then obtain i where i: "parse_id c2 = Inr (i, c')" "vid' = Some i" "vals' = vals"
      using L by (auto simp: parse_member_def k e and_then_eq_Inr)
    then obtain w2 t s where t: "blank w2" "id_text t i" "takes c2 (w2 @ t) s c'" "s = [] \<or> \<not> decimal_digit (hd s)"
      by (auto simp: parse_id_Inr)
    have "id_member i ((w @ CHR 0x22 # key @ [CHR 0x22]) @ (w1 @ '':'') @ w2 @ t)"
      using w(1) w1(1) t(1,2) unfolding id_member_def id(1) by fastforce
    then show ?thesis using front [OF t(3)] t(4) i(2,3) id(2) by blast
  next
    case vals
    then obtain vs where v: "parse_values tiny c2 = Inr (vs, c')" "vals' = Some vs" "vid' = vid"
      using L by (auto simp: parse_member_def k e and_then_eq_Inr)
    then obtain u s where u: "values_text tiny vs u" "takes c2 u s c'" by (auto simp: parse_values_Inr)
    have "values_member tiny vs ((w @ CHR 0x22 # key @ [CHR 0x22]) @ (w1 @ '':'') @ u)"
      using w(1) w1(1) u(1) unfolding values_member_def vals(1) by fastforce
    then show ?thesis using front [OF u(2)] v(2,3) vals(2) by blast
  qed
next
  have front: "\<exists>c1 c2. parse_key c = Inr (key, c1) \<and> expect (CHR '':'') c1 = Inr c2 \<and> takes c2 u s c'"
    if "takes c (w @ [CHR 0x22] @ key @ [CHR 0x22] @ w1 @ '':'' @ u) s c'" "blank w" "blank w1" "key_text key"
    for w key w1 u s
  proof -
    from that(1) have "takes c ((w @ CHR 0x22 # key @ [CHR 0x22]) @ (w1 @ '':'') @ u) s c'" by simp
    then obtain c1 where c1: "takes c (w @ CHR 0x22 # key @ [CHR 0x22]) (((w1 @ '':'') @ u) @ s) c1"
      "takes c1 ((w1 @ '':'') @ u) s c'" by (rule takes_splitE)
    from c1(2) obtain c2 where c2: "takes c1 (w1 @ '':'') (u @ s) c2" "takes c2 u s c'" by (rule takes_splitE)
    have "parse_key c = Inr (key, c1)" using c1(1) that by (auto simp: parse_key_Inr)
    moreover have "expect (CHR '':'') c1 = Inr c2" using c2(1) that by (auto simp: expect_Inr)
    ultimately show ?thesis using c2(2) by blast
  qed
  assume "?I \<or> ?V"
  then show ?L
  proof
    assume ?I
    then obtain i w w1 w2 t s where *: "vid = None" "vid' = Some i" "vals' = vals" "blank w" "blank w1" "blank w2"
      "id_text t i" "takes c (w @ [CHR 0x22] @ ''id'' @ [CHR 0x22] @ w1 @ '':'' @ (w2 @ t)) s c'"
      "s = [] \<or> \<not> decimal_digit (hd s)"
      unfolding id_member_def by auto
    from front [OF *(8,4,5) key_texts(1)] obtain c1 c2 where "parse_key c = Inr (''id'', c1)"
      "expect (CHR '':'') c1 = Inr c2" "takes c2 (w2 @ t) s c'" by blast
    moreover from this have "parse_id c2 = Inr (i, c')" using * by (auto simp: parse_id_Inr)
    ultimately show ?L using * by (simp add: parse_member_def)
  next
    assume ?V
    then obtain vs w w1 u s where *: "vals = None" "vals' = Some vs" "vid' = vid" "blank w" "blank w1"
      "values_text tiny vs u" "takes c (w @ [CHR 0x22] @ ''values'' @ [CHR 0x22] @ w1 @ '':'' @ u) s c'"
      unfolding values_member_def by auto
    from front [OF *(7,4,5) key_texts(2)] obtain c1 c2 where "parse_key c = Inr (''values'', c1)"
      "expect (CHR '':'') c1 = Inr c2" "takes c2 u s c'" by blast
    moreover from this have "parse_values tiny c2 = Inr (vs, c')" using * by (auto simp: parse_values_Inr)
    ultimately show ?L using * by (simp add: parse_member_def)
  qed
qed

text \<open>The members of an object. A third one is never accepted; the parse of both ends after two.\<close>

lemma parse_members_end:
  "parse_members tiny vid vals c = Inr (Some i, Some vs, c') \<Longrightarrow> vid \<noteq> None \<or> vals \<noteq> None \<Longrightarrow>
   \<exists>c1. parse_member tiny vid vals c = Inr (Some i, Some vs, c1) \<and> consume (CHR ''}'') c1 = (True, c')"
proof -
  assume p: "parse_members tiny vid vals c = Inr (Some i, Some vs, c')" and one: "vid \<noteq> None \<or> vals \<noteq> None"
  then obtain a b c1 where m: "parse_member tiny vid vals c = Inr (a, b, c1)"
    by (auto simp: parse_members.simps [of tiny vid vals c] and_then_eq_Inr)
  obtain f c2 where f: "consume (CHR ''}'') c1 = (f, c2)" by fastforce
  have full: "a \<noteq> None \<and> b \<noteq> None" using m one by (auto simp: parse_member_Inr)
  then have "parse_member tiny a b c3 \<noteq> Inr x" for c3 x
    by (cases x) (auto simp: parse_member_Inr)
  then have "parse_members tiny a b c3 \<noteq> Inr x" for c3 x
    by (simp add: parse_members.simps [of tiny a b c3] and_then_eq_Inr)
  then have "f \<and> a = Some i \<and> b = Some vs \<and> c2 = c'"
    using p by (auto simp: parse_members.simps [of tiny vid vals c] m f and_then_eq_Inr split: if_splits)
  then show ?thesis using m f by simp
qed

lemma parse_members_Inr:
  "parse_members tiny None None c = Inr (Some i, Some vs, c') \<longleftrightarrow>
     (\<exists>vid vals c1 c2 c3 c4. parse_member tiny None None c = Inr (vid, vals, c1)
        \<and> consume (CHR ''}'') c1 = (False, c2) \<and> expect (CHR '','') c2 = Inr c3
        \<and> parse_member tiny vid vals c3 = Inr (Some i, Some vs, c4) \<and> consume (CHR ''}'') c4 = (True, c'))"
  (is "?L \<longleftrightarrow> ?R")
proof
  assume p: ?L
  then obtain a b c1 where m: "parse_member tiny None None c = Inr (a, b, c1)"
    by (auto simp: parse_members.simps [of tiny None None c] and_then_eq_Inr)
  obtain f c2 where f: "consume (CHR ''}'') c1 = (f, c2)" by fastforce
  have one: "(a = None) \<noteq> (b = None)" using m by (auto simp: parse_member_Inr)
  then have "\<not> f" using p by (auto simp: parse_members.simps [of tiny None None c] m f)
  then obtain c3 where e: "expect (CHR '','') c2 = Inr c3" and p2: "parse_members tiny a b c3 = Inr (Some i, Some vs, c')"
    using p by (auto simp: parse_members.simps [of tiny None None c] m f and_then_eq_Inr)
  have "a \<noteq> None \<or> b \<noteq> None" using one by auto
  from parse_members_end [OF p2 this] m f \<open>\<not> f\<close> e show ?R by auto
next
  assume ?R
  then obtain vid vals c1 c2 c3 c4 where *: "parse_member tiny None None c = Inr (vid, vals, c1)"
    "consume (CHR ''}'') c1 = (False, c2)" "expect (CHR '','') c2 = Inr c3"
    "parse_member tiny vid vals c3 = Inr (Some i, Some vs, c4)" "consume (CHR ''}'') c4 = (True, c')" by blast
  then have "parse_members tiny vid vals c3 = Inr (Some i, Some vs, c')" by (subst parse_members.simps) simp
  with * show ?L by (subst parse_members.simps) simp
qed

lemma member_blank:
  "blank w \<Longrightarrow> id_member i m \<Longrightarrow> id_member i (w @ m)"
  "blank w \<Longrightarrow> values_member tiny vs m \<Longrightarrow> values_member tiny vs (w @ m)"
proof -
  assume w: "blank w"
  show "id_member i (w @ m)" if "id_member i m"
  proof -
    from that obtain w0 w1 w2 t where "blank w0" "blank w1" "blank w2" "id_text t i"
      "m = w0 @ [CHR 0x22] @ ''id'' @ [CHR 0x22] @ w1 @ '':'' @ w2 @ t" unfolding id_member_def by blast
    then show ?thesis
      unfolding id_member_def using w by (intro exI [of _ "w @ w0"] exI [of _ w1] exI [of _ w2] exI [of _ t]) simp
  qed
  show "values_member tiny vs (w @ m)" if "values_member tiny vs m"
  proof -
    from that obtain w0 w1 u where "blank w0" "blank w1" "values_text tiny vs u"
      "m = w0 @ [CHR 0x22] @ ''values'' @ [CHR 0x22] @ w1 @ '':'' @ u" unfolding values_member_def by blast
    then show ?thesis
      unfolding values_member_def using w by (intro exI [of _ "w @ w0"] exI [of _ w1] exI [of _ u]) simp
  qed
qed

lemma member_strip:
  "id_member i m \<Longrightarrow> \<exists>w u. m = w @ CHR 0x22 # u \<and> blank w \<and> id_member i (CHR 0x22 # u)"
  "values_member tiny vs m \<Longrightarrow> \<exists>w u. m = w @ CHR 0x22 # u \<and> blank w \<and> values_member tiny vs (CHR 0x22 # u)"
proof -
  assume "id_member i m"
  then obtain w w1 w2 t where *: "blank w" "blank w1" "blank w2" "id_text t i"
    "m = w @ [CHR 0x22] @ ''id'' @ [CHR 0x22] @ w1 @ '':'' @ w2 @ t" unfolding id_member_def by blast
  then have "id_member i ([CHR 0x22] @ ''id'' @ [CHR 0x22] @ w1 @ '':'' @ w2 @ t)"
    unfolding id_member_def by (intro exI [of _ "[]"] exI [of _ w1] exI [of _ w2] exI [of _ t]) simp
  then show "\<exists>w u. m = w @ CHR 0x22 # u \<and> blank w \<and> id_member i (CHR 0x22 # u)"
    using *(1,5) by (intro exI [of _ w] exI [of _ "''id'' @ [CHR 0x22] @ w1 @ '':'' @ w2 @ t"]) simp
next
  assume "values_member tiny vs m"
  then obtain w w1 u where *: "blank w" "blank w1" "values_text tiny vs u"
    "m = w @ [CHR 0x22] @ ''values'' @ [CHR 0x22] @ w1 @ '':'' @ u" unfolding values_member_def by blast
  then have "values_member tiny vs ([CHR 0x22] @ ''values'' @ [CHR 0x22] @ w1 @ '':'' @ u)"
    unfolding values_member_def by (intro exI [of _ "[]"] exI [of _ w1] exI [of _ u]) simp
  then show "\<exists>w u. m = w @ CHR 0x22 # u \<and> blank w \<and> values_member tiny vs (CHR 0x22 # u)"
    using *(1,4) by (intro exI [of _ w] exI [of _ "''values'' @ [CHR 0x22] @ w1 @ '':'' @ u"]) simp
qed

text \<open>The two members with the separator between them, on the rest of the input.\<close>

lemma parse_members_takes:
  "parse_members tiny None None c = Inr (Some i, Some vs, c') \<longleftrightarrow>
     (\<exists>m w1 m' w2 s. blank w1 \<and> blank w2
        \<and> (id_member i m \<and> values_member tiny vs m' \<or> values_member tiny vs m \<and> id_member i m')
        \<and> takes c (m @ w1 @ '','' @ m' @ w2 @ ''}'') s c')"
  (is "?L \<longleftrightarrow> ?R")
proof
  assume ?L
  then obtain vid vals c1 c2 c3 c4 where *: "parse_member tiny None None c = Inr (vid, vals, c1)"
    "consume (CHR ''}'') c1 = (False, c2)" "expect (CHR '','') c2 = Inr c3"
    "parse_member tiny vid vals c3 = Inr (Some i, Some vs, c4)" "consume (CHR ''}'') c4 = (True, c')"
    unfolding parse_members_Inr by blast
  from *(1,4) obtain m m' s s' where m: "id_member i m \<and> values_member tiny vs m' \<or> values_member tiny vs m \<and> id_member i m'"
    "takes c m s c1" "takes c3 m' s' c4"
    unfolding parse_member_Inr by (elim disjE exE conjE) auto
  from *(2) obtain w1 s1 where w1: "blank w1" "takes c1 w1 s1 c2" by (auto elim: consume_False)
  from *(3) obtain w2 s2 where w2: "blank w2" "takes c2 (w2 @ '','') s2 c3" by (auto simp: expect_Inr)
  from *(5) obtain w3 s3 where w3: "blank w3" "takes c4 (w3 @ ''}'') s3 c'" by (auto simp: consume_True)
  from takes_seq [OF m(2) takes_seq [OF w1(2) takes_seq [OF w2(2) takes_seq [OF m(3) w3(2)]]]]
  have "takes c (m @ (w1 @ w2) @ '','' @ m' @ w3 @ ''}'') s3 c'" by simp
  with m(1) w1(1) w2(1) w3(1) show ?R by (metis blank_simps(3))
next
  assume ?R
  then obtain m w1 m' w2 s where *: "blank w1" "blank w2"
    "id_member i m \<and> values_member tiny vs m' \<or> values_member tiny vs m \<and> id_member i m'"
    "takes c (m @ w1 @ '','' @ m' @ w2 @ ''}'') s c'" by blast
  from *(4) obtain c1 where c1: "takes c m ((w1 @ '','' @ m' @ w2 @ ''}'') @ s) c1"
    "takes c1 (w1 @ '','' @ m' @ w2 @ ''}'') s c'" by (rule takes_splitE)
  from c1(2) obtain c2 where c2: "takes c1 w1 (('','' @ m' @ w2 @ ''}'') @ s) c2" "takes c2 ('','' @ m' @ w2 @ ''}'') s c'"
    by (rule takes_splitE)
  from c2(2) obtain c3 where c3: "takes c2 '','' ((m' @ w2 @ ''}'') @ s) c3" "takes c3 (m' @ w2 @ ''}'') s c'"
    by (rule takes_splitE)
  from c3(2) obtain c4 where c4: "takes c3 m' ((w2 @ ''}'') @ s) c4" "takes c4 (w2 @ ''}'') s c'" by (rule takes_splitE)
  have digit: "\<not> decimal_digit (hd (w @ y # s))" if "blank w" "\<not> decimal_digit y" for w y s
    using blank_hd [OF that(1), of "\<lambda>x. \<not> decimal_digit x"] digit_no_space that(2) by blast
  have "decimal_digit (CHR '','') = False" "decimal_digit (CHR ''}'') = False" by (simp_all add: decimal_digit_def)
  then have next1: "\<not> decimal_digit (hd ((w1 @ '','' @ m' @ w2 @ ''}'') @ s))"
    and next2: "\<not> decimal_digit (hd ((w2 @ ''}'') @ s))"
    using digit [OF *(1), of "CHR '',''"] digit [OF *(2), of "CHR ''}''"] by simp_all
  have "\<exists>vid vals. parse_member tiny None None c = Inr (vid, vals, c1)
      \<and> parse_member tiny vid vals c3 = Inr (Some i, Some vs, c4)"
    using *(3)
  proof
    assume "id_member i m \<and> values_member tiny vs m'"
    then have "parse_member tiny None None c = Inr (Some i, None, c1)"
      "parse_member tiny (Some i) None c3 = Inr (Some i, Some vs, c4)"
      using c1(1) c4(1) next1 unfolding parse_member_Inr by blast+
    then show ?thesis by blast
  next
    assume "values_member tiny vs m \<and> id_member i m'"
    then have "parse_member tiny None None c = Inr (None, Some vs, c1)"
      "parse_member tiny None (Some vs) c3 = Inr (Some i, Some vs, c4)"
      using c1(1) c4(1) next2 unfolding parse_member_Inr by blast+
    then show ?thesis by blast
  qed
  moreover have "consume (CHR ''}'') c1 = (False, c2)"
    using consume_other [of c1 w1 "CHR '',''" _ c2 "CHR ''}''"] c2(1) *(1) by simp
  moreover have "expect (CHR '','') c2 = Inr c3" using expect_takes [of "[]"] c3(1) by simp
  moreover have "consume (CHR ''}'') c4 = (True, c')" using c4(2) *(2) by (auto simp: consume_True)
  ultimately show ?L unfolding parse_members_Inr by blast
qed

lemma expect_end_Inr: "expect_end c = Inr u \<longleftrightarrow> blank (cursor_rest c)"
proof -
  have "cursor_rest (skip_whitespace c) = dropWhile json_space (cursor_rest c)"
    by (simp add: skip_whitespace_def dropWhile_eq_drop)
  then show ?thesis by (auto simp: expect_end_def Let_def json_fail_def blank_def)
qed

lemma parse_line_iff: "parse_vector_json_line tiny line = Inr r \<longleftrightarrow> record_text tiny r line"
proof
  let ?c = "\<lparr>cursor_input = line, cursor_position = 0\<rparr>"
  have rest: "cursor_rest ?c = line" by (simp add: cursor_rest_def)
  show "record_text tiny r line" if p: "parse_vector_json_line tiny line = Inr r"
  proof -
    from p obtain c1 where e: "expect (CHR ''{'') ?c = Inr c1" by (auto simp: parse_vector_json_line_def and_then_eq_Inr)
    obtain b c2 where b: "consume (CHR ''}'') c1 = (b, c2)" by fastforce
    have "\<not> b" using p by (auto simp: parse_vector_json_line_def e b)
    then obtain vid vals c3 where q: "parse_members tiny None None c2 = Inr (vid, vals, c3)"
      using p by (auto simp: parse_vector_json_line_def e b and_then_eq_Inr)
    then have m: "parse_members tiny None None c2 = Inr (Some (parsed_id r), Some (parsed_values r), c3)"
      and last: "blank (cursor_rest c3)"
      using p \<open>\<not> b\<close> by (auto simp: parse_vector_json_line_def e b q and_then_eq_Inr expect_end_Inr split: option.splits)
    from e obtain w s where w: "blank w" "takes ?c (w @ ''{'') s c1" by (auto simp: expect_Inr)
    from b \<open>\<not> b\<close> obtain w0 where w0: "blank w0" "takes c1 w0 (cursor_rest c2) c2" by (auto elim: consume_False)
    from m obtain m1 w1 m2 w2 s2 where *: "blank w1" "blank w2"
        "id_member (parsed_id r) m1 \<and> values_member tiny (parsed_values r) m2
          \<or> values_member tiny (parsed_values r) m1 \<and> id_member (parsed_id r) m2"
        "takes c2 (m1 @ w1 @ '','' @ m2 @ w2 @ ''}'') s2 c3"
      unfolding parse_members_takes by blast
    have "takes ?c ((w @ ''{'') @ w0 @ m1 @ w1 @ '','' @ m2 @ w2 @ ''}'') s2 c3"
      by (rule takes_seq [OF w(2) takes_seq [OF w0(2) *(4)]])
    from this takes_rest [OF this] have line: "line = w @ ''{'' @ (w0 @ m1) @ w1 @ '','' @ m2 @ w2 @ ''}'' @ cursor_rest c3"
      unfolding takes_def rest by simp
    have "id_member (parsed_id r) (w0 @ m1) \<and> values_member tiny (parsed_values r) m2
          \<or> values_member tiny (parsed_values r) (w0 @ m1) \<and> id_member (parsed_id r) m2"
      using *(3) member_blank [OF w0(1)] by blast
    then show ?thesis using line w(1) *(1,2) last unfolding record_text_def by blast
  qed
  show "parse_vector_json_line tiny line = Inr r" if "record_text tiny r line"
  proof -
    from that obtain w m w1 m' w2 w3 where *: "blank w" "blank w1" "blank w2" "blank w3"
      "id_member (parsed_id r) m \<and> values_member tiny (parsed_values r) m'
        \<or> values_member tiny (parsed_values r) m \<and> id_member (parsed_id r) m'"
      "line = w @ ''{'' @ m @ w1 @ '','' @ m' @ w2 @ ''}'' @ w3"
      unfolding record_text_def by blast
    obtain w0 u where u: "m = w0 @ CHR 0x22 # u" "blank w0"
      "id_member (parsed_id r) (CHR 0x22 # u) \<and> values_member tiny (parsed_values r) m'
        \<or> values_member tiny (parsed_values r) (CHR 0x22 # u) \<and> id_member (parsed_id r) m'"
      using *(5) member_strip by metis
    let ?v = "CHR 0x22 # u @ w1 @ '','' @ m' @ w2 @ ''}''"
    let ?c1 = "advance (length w + 1) ?c" let ?c2 = "advance (length w0) ?c1" let ?c3 = "advance (length ?v) ?c2"
    have t: "takes ?c (w @ ''{'') ((w0 @ ?v) @ w3) ?c1" "takes ?c1 w0 (?v @ w3) ?c2" "takes ?c2 ?v w3 ?c3"
      using *(6) rest by (simp_all add: takes_def u(1))
    have "expect (CHR ''{'') ?c = Inr ?c1" using expect_takes [OF *(1) t(1)] by simp
    moreover have "consume (CHR ''}'') ?c1 = (False, ?c2)"
      using consume_other [of ?c1 w0 "CHR 0x22" "u @ w1 @ '','' @ m' @ w2 @ ''}'' @ w3" ?c2 "CHR ''}''"] t(2) u(2) by simp
    moreover have "parse_members tiny None None ?c2 = Inr (Some (parsed_id r), Some (parsed_values r), ?c3)"
      unfolding parse_members_takes using t(3) *(2,3) u(3)
      by (intro exI [of _ "CHR 0x22 # u"] exI [of _ w1] exI [of _ m'] exI [of _ w2] exI [of _ w3]) simp
    moreover have "expect_end ?c3 = Inr ()" using takes_rest [OF t(3)] *(4) by (simp only: expect_end_Inr)
    ultimately show ?thesis by (simp add: parse_vector_json_line_def)
  qed
qed

section \<open>The property\<close>

text \<open>Whatever a parser raises is \<open>std::invalid_argument\<close>.\<close>

definition only_invalid :: "'a result \<Rightarrow> bool" where
  "only_invalid m \<longleftrightarrow> (case m of Inl e \<Rightarrow> \<exists>text. e = Invalid_argument text | Inr x \<Rightarrow> True)"

lemma only_invalid_simps [simp]: "only_invalid (Inr x)" "only_invalid (Inl (Invalid_argument text))"
  "only_invalid (json_fail text c)"
  by (simp_all add: only_invalid_def json_fail_def)

lemma only_invalid_and_then [intro!]:
  "only_invalid m \<Longrightarrow> (\<And>x. m = Inr x \<Longrightarrow> only_invalid (f x)) \<Longrightarrow> only_invalid (and_then m f)"
  by (cases m) (auto simp: only_invalid_def)

lemma only_invalid_tokens [simp]: "only_invalid (expect x c)" "only_invalid (parse_key c)" "only_invalid (parse_id c)"
  "only_invalid (parse_float tiny c)" "only_invalid (expect_end c)"
  by (auto simp: expect_def parse_key_def parse_id_def parse_float_def expect_end_def Let_def split: option.split)

lemma only_invalid_items [simp]: "only_invalid (parse_items tiny acc c)"
proof (induction tiny acc c rule: parse_items.induct)
  case (1 tiny acc c)
  then show ?case by (subst parse_items.simps) (auto split: prod.split)
qed

lemma only_invalid_member [simp]: "only_invalid (parse_member tiny vid vals c)"
  by (auto simp: parse_member_def parse_values_def split: prod.split)

lemma only_invalid_members [simp]: "only_invalid (parse_members tiny vid vals c)"
proof (induction tiny vid vals c rule: parse_members.induct)
  case (1 tiny vid vals c)
  then show ?case by (subst parse_members.simps) (auto split: prod.split)
qed

lemma only_invalid_line: "only_invalid (parse_vector_json_line tiny line)"
  by (auto simp: parse_vector_json_line_def split: prod.split option.split)


text \<open>A number of the text is read by evaluation, the rest is the grammar.\<close>

lemmas number_eval = whole_float_def from_chars_float_def fraction_part_def exponent_part_def decimal_digit_def
  number_value_def digit_value_def decimal_magnitude_def

definition sample_line :: string where
  "sample_line = ''{'' @ [CHR 0x22] @ ''id'' @ [CHR 0x22] @ '': 7,'' @ [CHR 0x22] @ ''values'' @ [CHR 0x22] @ '':[1., -.5e0]}''"

lemma sample_floats: "whole_float tiny ''1.'' = Some 0x3F800000" "whole_float tiny ''-.5e0'' = Some 0xBF000000"
  by (simp_all add: number_eval fp_eval)

lemma non_json_number_accepted:
  "parse_vector_json_line tiny sample_line = Inr \<lparr>parsed_id = 7, parsed_values = [0x3F800000, 0xBF000000]\<rparr>"
proof -
  have one: "item_texts tiny [0x3F800000, 0xBF000000] ([] @ ''1.'' @ [] @ '','' @ ('' '' @ ''-.5e0'' @ [] @ '']''))"
    using sample_floats [of tiny]
    by (intro more_items last_item) (simp_all add: float_text_def float_char_def json_space_def)
  have array: "values_text tiny [0x3F800000, 0xBF000000] ''[1., -.5e0]''"
    unfolding values_text_def
    by (rule exI [of _ "[]"], rule exI [of _ "''1., -.5e0]''"]) (use one in simp)
  have v: "values_member tiny [0x3F800000, 0xBF000000] ([CHR 0x22] @ ''values'' @ [CHR 0x22] @ '':'' @ ''[1., -.5e0]'')"
    unfolding values_member_def
    by (rule exI [of _ "[]"], rule exI [of _ "[]"], rule exI [of _ "''[1., -.5e0]''"]) (simp add: array)
  have i: "id_member 7 ([CHR 0x22] @ ''id'' @ [CHR 0x22] @ '':'' @ '' '' @ ''7'')"
    unfolding id_member_def
    by (rule exI [of _ "[]"], rule exI [of _ "[]"], rule exI [of _ "'' ''"], rule exI [of _ "''7''"])
      (simp add: id_text_def decimal_digit_def number_value_def digit_value_def json_space_def)
  show ?thesis
    unfolding parse_line_iff record_text_def sample_line_def
    by (rule exI [of _ "[]"], rule exI [of _ "[CHR 0x22] @ ''id'' @ [CHR 0x22] @ '':'' @ '' '' @ ''7''"], rule exI [of _ "[]"],
        rule exI [of _ "[CHR 0x22] @ ''values'' @ [CHR 0x22] @ '':'' @ ''[1., -.5e0]''"], rule exI [of _ "[]"], rule exI [of _ "[]"]) (use i v in simp)
qed

end
