(* ===== verification/Build_Flat_Index.thy ===== *)
theory Build_Flat_Index
  imports File_System Error_Text Flat_Index_Io Vector_Jsonl_Theorems
begin

text \<open>
  tools/build_flat_index.cpp: the command that builds an index file from a JSONL file. Its
  arguments, the loop over the lines, and the publication of the file: written under a temporary
  name, read back, synchronised and moved into place. The code is the one for Linux. Input and
  output are files of the modelled disk; what the system calls do is the environment.
\<close>

section \<open>Arguments\<close>

record build_options =
  input_path :: string
  output_path :: string
  build_dimension :: u64
  expected_count :: "u64 option"
  overwrite :: bool

definition default_build_options :: build_options where
  "default_build_options = \<lparr>input_path = [], output_path = [], build_dimension = 0,
     expected_count = None, overwrite = False\<rparr>"

definition parse_size :: "string \<Rightarrow> string \<Rightarrow> bool \<Rightarrow> u64 result" where
  "parse_size text option_name allow_zero =
     (case whole_u64 text of
        None \<Rightarrow> Inl (Invalid_argument (''invalid value for '' @ option_name))
      | Some n \<Rightarrow>
          if \<not> allow_zero \<and> n = 0 then Inl (Invalid_argument (''invalid value for '' @ option_name)) else Inr n)"

definition parse_bool :: "string \<Rightarrow> string \<Rightarrow> bool result" where
  "parse_bool text option_name =
     (if text = ''true'' then Inr True
      else if text = ''false'' then Inr False
      else Inl (Invalid_argument (''invalid value for '' @ option_name @ '': expected true or false'')))"

definition build_option :: "string \<Rightarrow> string \<Rightarrow> build_options \<Rightarrow> build_options result" where
  "build_option name text opts =
     (if name = ''--input'' then Inr (opts\<lparr>input_path := text\<rparr>)
      else if name = ''--output'' then Inr (opts\<lparr>output_path := text\<rparr>)
      else if name = ''--dimension'' then
        and_then (parse_size text name False) (\<lambda>n. Inr (opts\<lparr>build_dimension := n\<rparr>))
      else if name = ''--expected-count'' then
        and_then (parse_size text name True) (\<lambda>n. Inr (opts\<lparr>expected_count := Some n\<rparr>))
      else if name = ''--overwrite'' then
        and_then (parse_bool text name) (\<lambda>b. Inr (opts\<lparr>overwrite := b\<rparr>))
      else Inl (Invalid_argument (''unknown option: '' @ name)))"

fun build_options_loop :: "string list \<Rightarrow> build_options \<Rightarrow> build_options result" where
  "build_options_loop [] opts = Inr opts"
| "build_options_loop [name] opts = Inl (Invalid_argument ''every option requires a value'')"
| "build_options_loop (name # text # rest) opts = and_then (build_option name text opts) (build_options_loop rest)"

text \<open>The arguments after the name of the program.\<close>

definition parse_build_arguments :: "string list \<Rightarrow> build_options result" where
  "parse_build_arguments arguments =
     (if arguments = [''--help''] then Inr default_build_options
      else
        and_then (build_options_loop arguments default_build_options) (\<lambda>opts.
        if input_path opts = [] \<or> output_path opts = [] \<or> build_dimension opts = 0 then
          Inl (Invalid_argument ''--input, --output, and --dimension are required'')
        else Inr opts))"

section \<open>The lines of the input\<close>

text \<open>\<open>std::getline\<close> until it fails.\<close>

function get_lines :: "string \<Rightarrow> string list" where
  "get_lines text =
     (if text = [] then []
      else takeWhile (\<lambda>c. c \<noteq> CHR 0x0A) text # get_lines (drop 1 (dropWhile (\<lambda>c. c \<noteq> CHR 0x0A) text)))"
  by pat_completeness auto

termination
proof (relation "measure length")
  fix s :: string
  assume "s \<noteq> []"
  then show "(drop 1 (dropWhile (\<lambda>c. c \<noteq> CHR 0x0A) s), s) \<in> measure length"
    using length_dropWhile_le [of "\<lambda>c. c \<noteq> CHR 0x0A" s] by (cases s) auto
qed simp

declare get_lines.simps [simp del]

definition text_of :: "u8 list \<Rightarrow> string" where
  "text_of bytes = map (\<lambda>b. char_of (unat b)) bytes"

definition add_line :: "bool \<Rightarrow> nat option \<Rightarrow> string \<Rightarrow> flat_index \<Rightarrow> flat_index result" where
  "add_line tiny fault line ix =
     and_then (parse_vector_json_line tiny line) (\<lambda>r.
     case flat_add fault (parsed_id r) (parsed_values r) ix of (ix', res) \<Rightarrow> and_then res (\<lambda>_. Inr ix'))"

text \<open>The allocation that fails at each line, if any; the first line is number 1.\<close>

fun build_lines ::
  "bool \<Rightarrow> (nat \<Rightarrow> nat option) \<Rightarrow> nat \<Rightarrow> string list \<Rightarrow> flat_index \<Rightarrow> flat_index result" where
  "build_lines tiny faults n [] ix = Inr ix"
| "build_lines tiny faults n (line # rest) ix =
     (if is_json_whitespace_only line then build_lines tiny faults (Suc n) rest ix
      else
        case add_line tiny (faults n) line ix of
          Inl e \<Rightarrow> Inl (Runtime_error (''line '' @ decimal n @ '': '' @ error_text e))
        | Inr ix' \<Rightarrow> build_lines tiny faults (Suc n) rest ix')"

section \<open>The command\<close>

text \<open>What the command meets besides the system calls of a publication: whether the streams of the
  input and the descriptors of the file and directory can be opened, whether the input can be
  read to its end, and the texts and stamps of the system.\<close>

record build_env = publish_env +
  input_opens :: bool
  input_ends :: bool
  sync_file_opens :: bool
  sync_directory_opens :: bool
  tiny_is_error :: bool
  line_faults :: "nat \<Rightarrow> nat option"
  clock_stamp :: string
  system_text :: string

definition system_error :: "build_env \<Rightarrow> string \<Rightarrow> string \<Rightarrow> cpp_error" where
  "system_error env action path = Runtime_error (action @ '': '' @ path @ '': '' @ system_text env)"

definition read_index :: "build_env \<Rightarrow> build_options \<Rightarrow> disk \<Rightarrow> flat_index result" where
  "read_index env opts d =
     (case disk_read (input_path opts) d of
        None \<Rightarrow> Inl (Runtime_error (''input is not a regular file: '' @ input_path opts))
      | Some bytes \<Rightarrow>
          if \<not> overwrite opts \<and> names d (output_path opts) \<noteq> None then
            Inl (Runtime_error (''output already exists: '' @ output_path opts))
          else if \<not> input_opens env then
            Inl (Runtime_error (''failed to open input: '' @ input_path opts))
          else
            and_then (flat_create (unat (build_dimension opts)) Scalar) (\<lambda>ix.
            and_then (build_lines (tiny_is_error env) (line_faults env) 1 (get_lines (text_of bytes)) ix) (\<lambda>ix.
            if \<not> input_ends env then Inl (Runtime_error ''failed while reading input'')
            else case expected_count opts of
                None \<Rightarrow> Inr ix
              | Some n \<Rightarrow>
                  if flat_size ix \<noteq> unat n then Inl (Runtime_error ''vector count does not match --expected-count'')
                  else Inr ix)))"

text \<open>The name of the temporary file is taken from the clock.\<close>

definition temporary_output :: "build_env \<Rightarrow> build_options \<Rightarrow> disk \<Rightarrow> string result" where
  "temporary_output env opts d =
     (let path = output_path opts @ ''.tmp-'' @ clock_stamp env
      in if names d path \<noteq> None then Inl (Runtime_error (''temporary output already exists: '' @ path))
         else Inr path)"

definition sync_parent_directory :: "build_env \<Rightarrow> string \<Rightarrow> disk list \<Rightarrow> disk list \<times> unit result" where
  "sync_parent_directory env parent trace =
     (if \<not> sync_directory_opens env then
        (trace, Inl (system_error env ''failed to open output directory for fsync'' parent))
      else if \<not> sync_directory_works env then
        (trace, Inl (system_error env ''failed to fsync output directory'' parent))
      else (trace @ [disk_sync_directory (last trace)], Inr ()))"

definition parent_of :: "string \<Rightarrow> string" where
  "parent_of path =
     (let up = rev (dropWhile (\<lambda>c. c \<noteq> CHR ''/'') (rev path))
      in if up = [] then ''.'' else if list_all (\<lambda>c. c = CHR ''/'') up then up
         else rev (dropWhile (\<lambda>c. c = CHR ''/'') (rev up)))"

definition publish_flat_file ::
  "build_env \<Rightarrow> string \<Rightarrow> string \<Rightarrow> bool \<Rightarrow> disk list \<Rightarrow> disk list \<times> unit result" where
  "publish_flat_file env temporary path replace trace =
     (if \<not> sync_file_opens env then
        (trace, Inl (system_error env ''failed to open snapshot for fsync'' temporary))
      else if \<not> sync_file_works env then
        (trace, Inl (system_error env ''failed to fsync snapshot'' temporary))
      else
        let staged = disk_sync_file temporary (last trace)
        in if replace then
             if \<not> rename_works env then
               (trace @ [staged], Inl (system_error env ''failed to atomically replace output'' path))
             else sync_parent_directory env (parent_of path) (trace @ [staged, disk_rename temporary path staged])
           else if names staged path \<noteq> None then
             (trace @ [staged], Inl (Runtime_error (''output already exists: '' @ path)))
           else if \<not> link_works env then
             (trace @ [staged], Inl (system_error env ''failed to atomically publish output'' path))
           else
             let linked = disk_link temporary path staged
             in if \<not> unlink_works env then
                  (trace @ [staged, linked],
                   Inl (Runtime_error (''failed to remove published temporary file: '' @ system_text env)))
                else sync_parent_directory env (parent_of path)
                       (trace @ [staged, linked, disk_unlink temporary linked]))"

text \<open>Saving under the temporary name and reading the file back.\<close>

definition save_and_verify ::
  "build_env \<Rightarrow> string \<Rightarrow> flat_index \<Rightarrow> disk \<Rightarrow> disk \<times> unit result" where
  "save_and_verify env temporary ix d =
     (case flat_save (save_opens env) (save_capacity env) (save_flushes env) temporary ix of
        (output, r) \<Rightarrow>
          let saved = (case output of None \<Rightarrow> d | Some c \<Rightarrow> disk_write temporary c (disk_create temporary d))
          in (saved,
              and_then r (\<lambda>_.
              and_then (flat_load temporary (disk_read temporary saved) Scalar) (\<lambda>verified.
              if flat_size verified \<noteq> flat_size ix \<or> flat_dimension verified \<noteq> flat_dimension ix then
                Inl (Runtime_error ''written snapshot failed structural verification'')
              else Inr ()))))"

text \<open>The states of the disk the command goes through, and how it ends.\<close>

definition build_index :: "build_env \<Rightarrow> build_options \<Rightarrow> disk \<Rightarrow> disk list \<times> unit result" where
  "build_index env opts d =
     (case and_then (read_index env opts d) (\<lambda>ix. and_then (temporary_output env opts d) (\<lambda>t. Inr (ix, t))) of
        Inl e \<Rightarrow> ([d], Inl e)
      | Inr (ix, temporary) \<Rightarrow>
          (case (case save_and_verify env temporary ix d of
                   (saved, Inl e) \<Rightarrow> ([d, saved], Inl e)
                 | (saved, Inr u) \<Rightarrow> publish_flat_file env temporary (output_path opts) (overwrite opts) [d, saved]) of
             (trace, Inl e) \<Rightarrow> (trace @ [drop_temporary (remove_works env) temporary (last trace)], Inl e)
           | (trace, Inr u) \<Rightarrow> (trace, Inr ())))"

definition build_usage :: string where
  "build_usage = ''Usage: fast_vector_build_index --input vectors.jsonl --output index.fv --dimension D [--expected-count N] [--overwrite true|false]'' @ [CHR 0x0A]"

text \<open>\<open>main\<close>: the exit code and what goes to the error stream.\<close>

definition build_main :: "build_env \<Rightarrow> string list \<Rightarrow> disk \<Rightarrow> disk list \<times> nat \<times> string" where
  "build_main env arguments d =
     (if arguments = [''--help''] then ([d], 0, build_usage)
      else
        let (trace, r) = (case parse_build_arguments arguments of Inl e \<Rightarrow> ([d], Inl e) | Inr opts \<Rightarrow> build_index env opts d)
        in case r of
             Inr u \<Rightarrow> (trace, 0, [])
           | Inl e \<Rightarrow> (trace, 1, ''Index build failed: '' @ error_text e @ [CHR 0x0A] @ build_usage))"

end
