(* ===== verification/Build_Flat_Index_Theorems.thy ===== *)
theory Build_Flat_Index_Theorems
  imports Build_Flat_Index
begin

text \<open>
  What the build command guarantees: the index it publishes holds exactly the vectors of the
  lines, the published file is its encoding, and publication is atomic and durable whatever
  fails and wherever the machine stops.
\<close>

section \<open>The index holds the lines\<close>

text \<open>\<open>rs\<close> are the records of the lines that are not blank, all stored under distinct IDs.\<close>

definition holds_lines :: "bool \<Rightarrow> string list \<Rightarrow> flat_index \<Rightarrow> bool" where
  "holds_lines tiny lines ix \<longleftrightarrow> (\<exists>rs.
     list_all2 (\<lambda>line r. record_text tiny r line) (filter (\<lambda>line. \<not> is_json_whitespace_only line) lines) rs
   \<and> flat_ids ix = map parsed_id rs
   \<and> (\<forall>r\<in>set rs. \<exists>v. normalize_l2 (parsed_values r) = Inr v \<and> flat_abs ix (parsed_id r) = Some v))"

lemma keep_state_Inr: "(case p of (a, m) \<Rightarrow> and_then m (\<lambda>_. Inr a)) = Inr x \<longleftrightarrow> p = (x, Inr ())"
  by (cases p) (auto simp: and_then_eq_Inr)

lemma add_line_Inr:
  "add_line tiny fault line ix = Inr ix' \<longleftrightarrow>
     (\<exists>r. parse_vector_json_line tiny line = Inr r \<and> flat_add fault (parsed_id r) (parsed_values r) ix = (ix', Inr ()))"
  by (simp add: add_line_def and_then_eq_Inr keep_state_Inr)

text \<open>The loop: the records of the remaining lines are appended.\<close>

lemma build_lines_appends:
  assumes "flat_wf ix" "build_lines tiny faults n lines ix = Inr ix'"
  shows "\<exists>rs. list_all2 (\<lambda>line r. record_text tiny r line) (filter (\<lambda>line. \<not> is_json_whitespace_only line) lines) rs
    \<and> flat_wf ix' \<and> flat_ids ix' = flat_ids ix @ map parsed_id rs
    \<and> flat_dimension ix' = flat_dimension ix \<and> flat_kernel ix' = flat_kernel ix
    \<and> (\<forall>vid v. flat_abs ix vid = Some v \<longrightarrow> flat_abs ix' vid = Some v)
    \<and> (\<forall>r\<in>set rs. \<exists>v. normalize_l2 (parsed_values r) = Inr v \<and> flat_abs ix' (parsed_id r) = Some v)"
  using assms
proof (induction tiny faults n lines ix rule: build_lines.induct)
  case (1 tiny faults n ix)
  then show ?case by simp
next
  case (2 tiny faults n line rest ix)
  show ?case
  proof (cases "is_json_whitespace_only line")
    case True
    then show ?thesis using 2 by simp
  next
    case False
    from False "2.prems"(2) obtain ix1 where l: "add_line tiny (faults n) line ix = Inr ix1"
      and b: "build_lines tiny faults (Suc n) rest ix1 = Inr ix'"
      by (auto split: sum.splits)
    then obtain r where p: "parse_vector_json_line tiny line = Inr r"
      and a: "flat_add (faults n) (parsed_id r) (parsed_values r) ix = (ix1, Inr ())" by (auto simp: add_line_Inr)
    obtain v where v: "normalize_l2 (parsed_values r) = Inr v" "flat_abs ix (parsed_id r) = None" "flat_wf ix1"
      "flat_abs ix1 = (flat_abs ix)(parsed_id r \<mapsto> v)" "flat_ids ix1 = flat_ids ix @ [parsed_id r]"
      "flat_dimension ix1 = flat_dimension ix" "flat_kernel ix1 = flat_kernel ix"
      by (rule flat_add_success [OF "2.prems"(1) a])
    from "2.IH"(2) [OF False l v(3) b] obtain rs where
      rs: "list_all2 (\<lambda>line r. record_text tiny r line) (filter (\<lambda>line. \<not> is_json_whitespace_only line) rest) rs"
        "flat_wf ix'" "flat_ids ix' = flat_ids ix1 @ map parsed_id rs" "flat_dimension ix' = flat_dimension ix1"
        "flat_kernel ix' = flat_kernel ix1" "\<forall>vid v. flat_abs ix1 vid = Some v \<longrightarrow> flat_abs ix' vid = Some v"
        "\<forall>r\<in>set rs. \<exists>v. normalize_l2 (parsed_values r) = Inr v \<and> flat_abs ix' (parsed_id r) = Some v" by blast
    have "flat_abs ix' vid = Some w" if "flat_abs ix vid = Some w" for vid w
    proof -
      have "vid \<noteq> parsed_id r" using that v(2) by auto
      then show ?thesis using rs(6) v(4) that by simp
    qed
    then show ?thesis
      using rs v False p by (intro exI [of _ "r # rs"]) (auto simp: parse_line_iff)
  qed
qed

lemma flat_create_empty:
  "flat_create dims kern = Inr ix \<Longrightarrow> flat_wf ix \<and> flat_ids ix = [] \<and> flat_kernel ix = kern \<and> flat_dimension ix = dims"
  by (auto simp: flat_create_def flat_wf_def split: if_splits)

lemma read_index_holds:
  assumes "read_index env opts d = Inr ix"
  shows "flat_wf ix \<and> flat_kernel ix = Scalar \<and> flat_dimension ix = unat (build_dimension opts)
    \<and> (\<forall>n. expected_count opts = Some n \<longrightarrow> flat_size ix = unat n)
    \<and> (overwrite opts \<or> names d (output_path opts) = None)
    \<and> (\<exists>bytes. disk_read (input_path opts) d = Some bytes
         \<and> holds_lines (tiny_is_error env) (get_lines (text_of bytes)) ix)"
proof -
  from assms obtain bytes ix0 where *: "disk_read (input_path opts) d = Some bytes"
    "overwrite opts \<or> names d (output_path opts) = None"
    "flat_create (unat (build_dimension opts)) Scalar = Inr ix0"
    "build_lines (tiny_is_error env) (line_faults env) 1 (get_lines (text_of bytes)) ix0 = Inr ix"
    "\<forall>n. expected_count opts = Some n \<longrightarrow> flat_size ix = unat n"
    by (auto simp: read_index_def and_then_eq_Inr split: option.splits if_splits)
  note ix0 = flat_create_empty [OF *(3)]
  then have "flat_wf ix0" by blast
  from build_lines_appends [OF this *(4)] ix0 have "holds_lines (tiny_is_error env) (get_lines (text_of bytes)) ix"
    "flat_wf ix" "flat_kernel ix = Scalar" "flat_dimension ix = unat (build_dimension opts)"
    by (auto simp: holds_lines_def)
  then show ?thesis using * by blast
qed

section \<open>The file is its encoding\<close>

lemma show_many_inj:
  assumes "LENGTH('a) = 8 * n" "0 < n"
  shows "show_many (le_bytes n :: 'a::len word \<Rightarrow> u8 list) xs = show_many (le_bytes n) ys \<Longrightarrow> xs = ys"
proof (induction xs arbitrary: ys)
  case Nil
  then show ?case using assms(2) by (cases ys) (auto dest: arg_cong [of _ _ length])
next
  case (Cons x xs)
  then show ?case
    using assms by (cases ys) (auto simp: le_bytes_inj dest: arg_cong [of _ _ length])
qed

lemma length_show_many_words [simp]: "length (show_many (le_bytes n) xs) = n * length xs"
  by (induction xs) simp_all

lemma flat_index_eq:
  assumes "flat_wf ix" "flat_wf iy" "flat_ids ix = flat_ids iy" "flat_vectors ix = flat_vectors iy"
    "flat_dimension ix = flat_dimension iy" "flat_kernel ix = flat_kernel iy"
  shows "ix = iy"
proof -
  have "flat_id_to_row ix vid = flat_id_to_row iy vid" for vid
  proof (cases "vid \<in> set (flat_ids ix)")
    case True
    then obtain i where "i < length (flat_ids ix)" "vid = flat_ids ix ! i" by (auto simp: in_set_conv_nth)
    then show ?thesis using assms by (simp add: flat_wf_def)
  next
    case False
    then show ?thesis using assms by (metis domIff flat_wf_def)
  qed
  then have "flat_id_to_row ix = flat_id_to_row iy" by blast
  then show ?thesis using assms by simp
qed

lemma flat_encode_inj:
  assumes "flat_wf ix" "flat_wf iy" "flat_size ix = flat_size iy" "flat_dimension ix = flat_dimension iy"
    "flat_kernel ix = flat_kernel iy" "flat_encode ix = flat_encode iy"
  shows "ix = iy"
proof (rule flat_index_eq [OF assms(1,2) _ _ assms(4,5)])
  have "flat_payload ix = flat_payload iy" using assms(6) by (simp add: flat_encode_payload length_flat_header)
  then have "show_many (le_bytes 8) (flat_ids ix) = show_many (le_bytes 8) (flat_ids iy)"
    "show_many (le_bytes 4) (flat_vectors ix) = show_many (le_bytes 4) (flat_vectors iy)"
    using assms(3) by (simp_all add: flat_payload_def flat_size_def)
  then show "flat_ids ix = flat_ids iy" "flat_vectors ix = flat_vectors iy"
    by (auto intro: show_many_inj)
qed

lemma flat_save_writes:
  assumes "flat_save opens capacity flushes path ix = (output, Inr u)" "flat_size ix < 2 ^ 64" "flat_dimension ix < 2 ^ 64"
  shows "output = Some (flat_encode ix)"
proof -
  from assms obtain p where p: "payload_size (of_nat (flat_size ix)) (of_nat (flat_dimension ix)) = Inr p"
    and out: "output = Some (concat (flat_header ix p @ map (le_bytes 8) (flat_ids ix) @ map (le_bytes 4) (flat_vectors ix)))"
    by (auto simp: flat_save_def write_all_eq split: sum.splits if_splits)
  have "unat p = flat_payload_size ix"
    using p unat_of_nat_u64 [OF assms(2)] unat_of_nat_u64 [OF assms(3)]
    by (simp add: payload_size_Inr flat_payload_size_def)
  then have "p = of_nat (flat_payload_size ix)" by (metis of_nat_unat ucast_id)
  then show ?thesis using out by (simp add: flat_encode_def show_many_def)
qed

text \<open>A file that was written and verified is the encoding of the index.\<close>

lemma save_and_verify_ok:
  assumes "flat_wf ix" "flat_kernel ix = Scalar" "save_and_verify env temporary ix d = (saved, Inr u)"
  shows "flat_storable ix \<and> saved = disk_write temporary (flat_encode ix) (disk_create temporary d)"
proof -
  obtain out r where save: "flat_save (save_opens env) (save_capacity env) (save_flushes env) temporary ix = (out, r)"
    by fastforce
  from assms(3) save have r: "r = Inr ()" by (auto simp: save_and_verify_def Let_def and_then_eq_Inr)
  then obtain c where c: "out = Some c" using save by (auto simp: flat_save_def split: sum.splits if_splits prod.splits)
  then have saved: "saved = disk_write temporary c (disk_create temporary d)"
    using assms(3) save by (simp add: save_and_verify_def Let_def)
  from assms(3) save c saved obtain v where v: "flat_load temporary (disk_read temporary saved) Scalar = Inr v"
    "flat_size v = flat_size ix" "flat_dimension v = flat_dimension ix"
    by (auto simp: save_and_verify_def Let_def and_then_eq_Inr split: if_splits)
  then have a: "flat_storable v" "flat_kernel v = Scalar" "c = flat_encode v"
    using flat_load_accepts [of temporary c Scalar v] by (simp_all add: saved disk_read_written)
  have small: "flat_size ix < 2 ^ 64" "flat_dimension ix < 2 ^ 64"
    using flat_storable_words [OF a(1)] unat_u64 v(2,3) by (metis, metis)
  have "c = flat_encode ix" using flat_save_writes [OF save [unfolded r] small] c by simp
  moreover from this have "v = ix" using a v assms by (intro flat_encode_inj) (simp_all add: flat_storable_def)
  ultimately show ?thesis using a(1) saved by simp
qed

section \<open>Publication\<close>

text \<open>A good outcome: every state on the way is good, and success leaves the copy durable.\<close>

definition published_well ::
  "(u8 list \<Rightarrow> bool) \<Rightarrow> string \<Rightarrow> disk \<Rightarrow> disk list \<times> unit result \<Rightarrow> bool" where
  "published_well verified path d p \<longleftrightarrow> fst p \<noteq> [] \<and> (\<forall>x\<in>set (fst p). good_state verified path d x)
     \<and> published_at_last verified path p"

lemma published_well_error:
  "trace \<noteq> [] \<Longrightarrow> \<forall>x\<in>set trace. good_state verified path d x \<Longrightarrow> published_well verified path d (trace, Inl e)"
  by (simp add: published_well_def published_at_last_def)

lemma published_well_drop:
  "published_well verified path d (trace, Inl e) \<Longrightarrow> temporary \<noteq> path \<Longrightarrow>
   published_well verified path d (trace @ [drop_temporary works temporary (last trace)], Inl e)"
  using drop_temporary_good [of temporary path trace verified d works]
  by (simp add: published_well_def published_at_last_def)

lemma sync_parent_directory_well:
  assumes "disk_wf d" "trace \<noteq> []" "\<forall>x\<in>set trace. good_state verified path d x"
    "moved_in path d c (last trace)" "verified c"
  shows "published_well verified path d (sync_parent_directory env parent trace)"
proof -
  have "after_crash (disk_sync_directory (last trace)) path = {Some c}" by (rule moved_in_synced [OF assms(4)])
  then show ?thesis
    using assms published_well_error [OF assms(2,3)]
    by (auto simp: sync_parent_directory_def published_well_def published_at_last_def good_state_def)
qed

lemma publish_flat_file_well:
  assumes "disk_wf d" "temporary \<noteq> path" "trace \<noteq> []" "\<forall>x\<in>set trace. good_state verified path d x"
    and last: "staged temporary d c (disk_sync_file temporary (last trace))"
      "untouched path d (disk_sync_file temporary (last trace))" and c: "verified c"
  shows "published_well verified path d (publish_flat_file env temporary path replace trace)"
proof -
  let ?s = "disk_sync_file temporary (last trace)" let ?linked = "disk_link temporary path ?s"
  note moves = staged_moves [OF last assms(2)]
  note good = good_moved_in [where verified = verified, OF assms(1) _ c]
  have s: "\<forall>x\<in>set (trace @ [?s]). good_state verified path d x"
    using assms(4) good_untouched [OF assms(1) last(2)] by simp
  note error = published_well_error [OF assms(3,4)]
  note staged_error = published_well_error [OF _ s, simplified]
  have "\<forall>x\<in>set (trace @ [?s, disk_rename temporary path ?s]). good_state verified path d x"
    using s good [OF moves(1)] by simp
  then have replaced: "published_well verified path d
      (sync_parent_directory env (parent_of path) (trace @ [?s, disk_rename temporary path ?s]))"
    by (intro sync_parent_directory_well [where c = c]) (use assms(1) moves(1) c in simp_all)
  have l: "\<forall>x\<in>set (trace @ [?s, ?linked]). good_state verified path d x" using s good [OF moves(2)] by simp
  note linked_error = published_well_error [OF _ l, simplified]
  have "moved_in path d c (disk_unlink temporary ?linked)" using moves(2) assms(2) by simp
  then have "published_well verified path d
      (sync_parent_directory env (parent_of path) (trace @ [?s, ?linked, disk_unlink temporary ?linked]))"
    by (intro sync_parent_directory_well [where c = c]) (use assms(1) l good c in simp_all)
  then show ?thesis
    using replaced error staged_error linked_error by (simp add: publish_flat_file_def Let_def)
qed

lemma build_index_well:
  fixes env opts d
  defines "verified \<equiv> \<lambda>c. \<exists>ix. read_index env opts d = Inr ix \<and> flat_storable ix \<and> c = flat_encode ix"
  assumes "disk_wf d"
  shows "published_well verified (output_path opts) d (build_index env opts d)"
proof (cases "and_then (read_index env opts d) (\<lambda>ix. and_then (temporary_output env opts d) (\<lambda>t. Inr (ix, t)))")
  case (Inl e)
  then show ?thesis
    using published_well_error [of "[d]"] good_untouched [OF assms(2) untouched_refl] by (simp add: build_index_def)
next
  case (Inr p)
  then obtain ix t where ix: "read_index env opts d = Inr ix" and t: "temporary_output env opts d = Inr t" and p: "p = (ix, t)"
    by (auto simp: and_then_eq_Inr)
  let ?path = "output_path opts"
  have new: "t \<noteq> ?path" using t by (auto simp: temporary_output_def Let_def split: if_splits)
  obtain saved r where sv: "save_and_verify env t ix d = (saved, r)" by fastforce
  have "untouched ?path d saved"
    using sv created_untouched(2) [OF new] by (auto simp: save_and_verify_def Let_def split: prod.splits option.splits)
  then have good: "\<forall>x\<in>set [d, saved]. good_state verified ?path d x"
    using good_untouched [OF assms(2)] untouched_refl by simp
  let ?p = "case r of Inl e \<Rightarrow> ([d, saved], Inl e)
      | Inr u \<Rightarrow> publish_flat_file env t ?path (overwrite opts) [d, saved]"
  have well: "published_well verified ?path d ?p"
  proof (cases r)
    case (Inl e)
    then show ?thesis using published_well_error [OF _ good] by simp
  next
    case (Inr u)
    have "flat_storable ix" "saved = disk_write t (flat_encode ix) (disk_create t d)"
      using save_and_verify_ok [OF _ _ sv [unfolded Inr]] read_index_holds [OF ix] by auto
    then have "published_well verified ?path d (publish_flat_file env t ?path (overwrite opts) [d, saved])"
      using created_staged [of t d "flat_encode ix"] created_untouched(3) [OF new, of d "flat_encode ix"] ix
      by (intro publish_flat_file_well [OF assms(2) new _ good, of "flat_encode ix"]) (auto simp: verified_def)
    then show ?thesis using Inr by simp
  qed
  obtain trace q where q: "?p = (trace, q)" by fastforce
  have "build_index env opts d = (case ?p of
      (trace, Inl e) \<Rightarrow> (trace @ [drop_temporary (remove_works env) t (last trace)], Inl e)
    | (trace, Inr u) \<Rightarrow> (trace, Inr ()))"
    by (simp add: build_index_def Inr p sv split: sum.split)
  then show ?thesis using well published_well_drop [OF _ new] by (cases q) (simp_all add: q)
qed


section \<open>A run\<close>

definition small_line :: string where
  "small_line = ''{'' @ [CHR 0x22] @ ''id'' @ [CHR 0x22] @ '':7,'' @ [CHR 0x22] @ ''values'' @ [CHR 0x22] @ '':[1.]}''"

lemma small_line_record: "record_text tiny \<lparr>parsed_id = 7, parsed_values = [0x3F800000]\<rparr> small_line"
proof -
  have items: "item_texts tiny [0x3F800000] ([] @ ''1.'' @ [] @ '']'')"
    using sample_floats [of tiny] by (intro last_item) (simp_all add: float_text_def float_char_def json_space_def)
  have array: "values_text tiny [0x3F800000] ''[1.]''"
    unfolding values_text_def by (rule exI [of _ "[]"], rule exI [of _ "''1.]''"]) (use items in simp)
  have v: "values_member tiny [0x3F800000] ([CHR 0x22] @ ''values'' @ [CHR 0x22] @ '':'' @ ''[1.]'')"
    unfolding values_member_def
    by (rule exI [of _ "[]"], rule exI [of _ "[]"], rule exI [of _ "''[1.]''"]) (simp add: array)
  have i: "id_member 7 ([CHR 0x22] @ ''id'' @ [CHR 0x22] @ '':'' @ ''7'')"
    unfolding id_member_def
    by (rule exI [of _ "[]"], rule exI [of _ "[]"], rule exI [of _ "[]"], rule exI [of _ "''7''"])
      (simp add: id_text_def decimal_digit_def number_value_def digit_value_def)
  show ?thesis
    unfolding record_text_def small_line_def
    by (rule exI [of _ "[]"], rule exI [of _ "[CHR 0x22] @ ''id'' @ [CHR 0x22] @ '':'' @ ''7''"], rule exI [of _ "[]"],
        rule exI [of _ "[CHR 0x22] @ ''values'' @ [CHR 0x22] @ '':'' @ ''[1.]''"], rule exI [of _ "[]"], rule exI [of _ "[]"])
      (use i v in simp)
qed

definition small_index :: flat_index where
  "small_index = \<lparr>flat_dimension = 1, flat_kernel = Scalar, flat_vectors = [0x3F800000], flat_ids = [7],
     flat_id_to_row = [7 \<mapsto> 0]\<rparr>"

lemma small_storable: "flat_storable small_index"
proof -
  have "normalized_row [0x3F800000]"
    by (simp add: normalized_row_def nearly_unit_def norm_tolerance_def fp_eval)
  then show ?thesis
    by (simp add: flat_storable_def flat_wf_def small_index_def row_of_def flat_payload_size_def flat_size_def)
qed

definition bytes_of :: "string \<Rightarrow> u8 list" where
  "bytes_of s = map (\<lambda>c. of_nat (of_char c)) s"

lemma text_of_bytes_of [simp]: "text_of (bytes_of s) = s"
proof -
  have "char_of (unat (of_nat (of_char c) :: u8)) = c" for c :: char
  proof -
    have "(of_char c :: nat) mod 256 = of_char c" by simp
    then have "(of_char c :: nat) < 2 ^ LENGTH(8)" using mod_less_divisor [of 256 "of_char c :: nat"] by simp
    then show ?thesis by (simp add: unsigned_of_nat take_bit_nat_eq_self)
  qed
  then show ?thesis by (simp add: text_of_def bytes_of_def comp_def)
qed

definition small_disk :: disk where
  "small_disk = \<lparr>names = [''in.jsonl'' \<mapsto> 0], durable_names = [''in.jsonl'' \<mapsto> 0],
     contents = (\<lambda>_. bytes_of small_line), synced = {0}, next_inode = 1\<rparr>"

definition small_env :: build_env where
  "small_env = \<lparr>temporary_suffix = None, save_opens = True, save_capacity = 1000, save_flushes = True,
     sync_file_works = True, rename_works = True, link_works = True, unlink_works = True,
     sync_directory_works = True, remove_works = True, input_opens = True, input_ends = True,
     sync_file_opens = True, sync_directory_opens = True, tiny_is_error = True, line_faults = (\<lambda>_. None),
     clock_stamp = ''1'', system_text = []\<rparr>"

definition small_options :: build_options where
  "small_options = \<lparr>input_path = ''in.jsonl'', output_path = ''out.fv'', build_dimension = 1,
     expected_count = Some 1, overwrite = False\<rparr>"

lemma small_arguments:
  "parse_build_arguments [''--input'', ''in.jsonl'', ''--output'', ''out.fv'', ''--dimension'', ''1'', ''--expected-count'', ''1'']
     = Inr small_options"
proof -
  have "whole_u64 ''1'' = Some 1" by (simp add: whole_u64_iff decimal_digit_def number_value_def digit_value_def)
  then show ?thesis
    by (simp add: parse_build_arguments_def build_option_def default_build_options_def parse_size_def small_options_def)
qed

lemma small_read: "read_index small_env small_options small_disk = Inr small_index"
proof -
  have l: "get_lines small_line = [small_line]"
    by (subst get_lines.simps, simp add: small_line_def, subst get_lines.simps, simp)
  have b: "\<not> is_json_whitespace_only small_line" by (simp add: is_json_whitespace_only_def small_line_def json_space_def)
  have p: "parse_vector_json_line True small_line = Inr \<lparr>parsed_id = 7, parsed_values = [0x3F800000]\<rparr>"
    using small_line_record by (simp add: parse_line_iff)
  have "normalize_l2 [0x3F800000] = Inr [0x3F800000]" by (simp add: normalize_l2_def fp_eval)
  then have "add_line True None small_line \<lparr>flat_dimension = 1, flat_kernel = Scalar, flat_vectors = [],
      flat_ids = [], flat_id_to_row = Map.empty\<rparr> = Inr small_index"
    by (simp add: add_line_def p flat_add_def flat_append_def small_index_def)
  then show ?thesis
    by (simp add: read_index_def small_env_def small_options_def small_disk_def disk_read_def l b flat_create_def
        small_index_def flat_size_def)
qed


end
