(* ===== verification/Executor_Answers.thy ===== *)
theory Executor_Answers
  imports Search_Executor_Theorems
begin

text \<open>
  What a future of the executor delivers: an outcome without an error is a result that the store
  gave, in a state it had between the submission and now, for the query, the k and the expected
  snapshot that the ticket was submitted with.
\<close>

definition task_asks :: "f32 list \<Rightarrow> nat \<Rightarrow> string \<Rightarrow> search_task \<Rightarrow> bool" where
  "task_asks query k expected task \<longleftrightarrow>
     task_query task = query \<and> task_k task = k \<and> expected_snapshot_id (task_context task) = expected"

abbreviation store_moves :: "platform \<Rightarrow> vector_store \<Rightarrow> vector_store \<Rightarrow> bool" where
  "store_moves pf \<equiv> (store_step pf)\<^sup>*\<^sup>*"

text \<open>\<open>start\<close> and \<open>now\<close>: the store at the submission and at present.\<close>

definition outcome_answers ::
  "platform \<Rightarrow> vector_store \<Rightarrow> vector_store \<Rightarrow> f32 list \<Rightarrow> nat \<Rightarrow> string \<Rightarrow> search_outcome \<Rightarrow> bool" where
  "outcome_answers pf start now query k expected outcome \<longleftrightarrow>
     (outcome_error outcome = None \<longrightarrow>
        (\<exists>ctx e st. store_moves pf start st \<and> store_moves pf st now \<and> expected_snapshot_id ctx = expected
           \<and> snd (store_search pf query k ctx e st) = Inr (outcome_result outcome)))"

definition worker_asks ::
  "platform \<Rightarrow> vector_store \<Rightarrow> vector_store \<Rightarrow> f32 list \<Rightarrow> nat \<Rightarrow> string \<Rightarrow> nat \<Rightarrow> worker \<Rightarrow> bool" where
  "worker_asks pf start now query k expected t w \<longleftrightarrow>
     (\<forall>task. worker_task w = Some task \<longrightarrow> ticket task = t \<longrightarrow> task_asks query k expected task)
   \<and> (\<forall>task outcome. w = Finishing task outcome \<longrightarrow> ticket task = t \<longrightarrow> outcome_answers pf start now query k expected outcome)"

definition asked :: "platform \<Rightarrow> vector_store \<Rightarrow> f32 list \<Rightarrow> nat \<Rightarrow> string \<Rightarrow> nat \<Rightarrow> executor \<Rightarrow> bool" where
  "asked pf start query k expected t ex \<longleftrightarrow> t < length (promises ex) \<and> store_moves pf start (exec_store ex)
   \<and> (\<forall>task\<in>set (queue ex). ticket task = t \<longrightarrow> task_asks query k expected task)
   \<and> (\<forall>w\<in>set (worker_states ex). worker_asks pf start (exec_store ex) query k expected t w)
   \<and> (\<forall>outcome. promises ex ! t = Some outcome \<longrightarrow> outcome_answers pf start (exec_store ex) query k expected outcome)"

lemma worker_asks_simps [simp]:
  "worker_asks pf start now query k expected t Waiting" "worker_asks pf start now query k expected t Exited"
  "worker_asks pf start now query k expected t (Taken task) \<longleftrightarrow> (ticket task = t \<longrightarrow> task_asks query k expected task)"
  "worker_asks pf start now query k expected t (Checked task b w) \<longleftrightarrow> (ticket task = t \<longrightarrow> task_asks query k expected task)"
  "worker_asks pf start now query k expected t (Searching task b w) \<longleftrightarrow> (ticket task = t \<longrightarrow> task_asks query k expected task)"
  "worker_asks pf start now query k expected t (Finishing task outcome) \<longleftrightarrow>
     (ticket task = t \<longrightarrow> task_asks query k expected task \<and> outcome_answers pf start now query k expected outcome)"
  by (auto simp: worker_asks_def)

lemma outcome_answers_later:
  "outcome_answers pf start st query k expected outcome \<Longrightarrow> store_moves pf st now \<Longrightarrow>
     outcome_answers pf start now query k expected outcome"
  unfolding outcome_answers_def by (blast intro: rtranclp_trans [of _ _ st])

lemma worker_asks_later:
  "worker_asks pf start st query k expected t w \<Longrightarrow> store_moves pf st now \<Longrightarrow>
     worker_asks pf start now query k expected t w"
  by (auto simp: worker_asks_def dest: outcome_answers_later)

lemma asked_worker:
  "asked pf start query k expected t ex \<Longrightarrow> i < length (worker_states ex) \<Longrightarrow>
     worker_asks pf start (exec_store ex) query k expected t (worker_states ex ! i)"
  by (simp add: asked_def)

lemma asked_set_worker:
  "asked pf start query k expected t ex \<Longrightarrow> worker_asks pf start (exec_store ex) query k expected t w \<Longrightarrow>
     asked pf start query k expected t (set_worker i w ex)"
  by (auto simp: asked_def set_worker_def dest: set_update_subset_insert [THEN subsetD])

lemma asked_later:
  "asked pf start query k expected t ex \<Longrightarrow> store_moves pf (exec_store ex) (exec_store ex') \<Longrightarrow> promises ex' = promises ex \<Longrightarrow>
     set (queue ex') \<subseteq> set (queue ex) \<Longrightarrow> worker_states ex' = worker_states ex \<Longrightarrow> asked pf start query k expected t ex'"
  by (auto simp: asked_def intro: worker_asks_later outcome_answers_later rtranclp_trans)

lemma asked_cong:
  "asked pf start query k expected t ex \<Longrightarrow> exec_store ex' = exec_store ex \<Longrightarrow> promises ex' = promises ex \<Longrightarrow>
     set (queue ex') \<subseteq> set (queue ex) \<Longrightarrow> worker_states ex' = worker_states ex \<Longrightarrow> asked pf start query k expected t ex'"
  by (erule asked_later) simp_all

lemma asked_finished:
  "asked pf start query k expected t ex \<Longrightarrow> (ticket task = t \<Longrightarrow> outcome_answers pf start (exec_store ex) query k expected outcome) \<Longrightarrow>
     asked pf start query k expected t (finished task outcome ex)"
  by (cases "ticket task = t") (auto simp: asked_def)

lemma error_answers: "outcome_error outcome \<noteq> None \<Longrightarrow> outcome_answers pf start now query k expected outcome"
  by (auto simp: outcome_answers_def)

lemma asked_worker_step:
  assumes "worker_step pf ex ex'" "executor_inv pf ex" "asked pf start query k expected t ex"
  shows "asked pf start query k expected t ex'"
  using assms
proof (induction rule: worker_step.induct)
  case (take i ex ex')
  from take(3) show ?case
  proof (cases rule: worker_take_cases)
    case (1 task rest)
    have "asked pf start query k expected t (set_queue rest ex)" using take(5) by (rule asked_cong) (auto simp: 1)
    moreover have "ticket task = t \<longrightarrow> task_asks query k expected task" using take(5) 1(1) by (simp add: asked_def)
    ultimately show ?thesis unfolding 1(2) dequeued_def Let_def
      by (intro asked_set_worker) (auto elim: asked_cong)
  next
    case 2
    then show ?thesis using take(5) by (simp add: asked_set_worker)
  qed
next
  case (check i ex task now later)
  then show ?case
    using asked_worker [OF check(4,1)]
    by (auto simp: worker_check_def Let_def error_answers intro!: asked_set_worker split: sum.split)
next
  case (start i ex task begun waited)
  then show ?case
    using asked_worker [OF start(4,1)] unfolding worker_start_def
    by (intro asked_set_worker) (auto elim: asked_cong)
next
  case (search i ex task begun waited e now)
  obtain st r where r: "store_search pf (task_query task) (task_k task) (task_context task) e (exec_store ex) = (st, r)"
    by (cases "store_search pf (task_query task) (task_k task) (task_context task) e (exec_store ex)")
  have asks: "ticket task = t \<longrightarrow> task_asks query k expected task" using asked_worker [OF search(4,1)] search(2) by simp
  have moves: "store_moves pf start (exec_store ex)" "store_moves pf (exec_store ex) st"
    using search(4) store_step.search [of pf "exec_store ex" "task_query task" "task_k task" "task_context task" e] r
    by (auto simp: asked_def)
  let ?o = "\<lparr>outcome_result = (case r of Inl _ \<Rightarrow> no_result | Inr result \<Rightarrow> result), queue_us = waited,
       execution_us = microseconds (now - begun), outcome_error = error_of r\<rparr>"
  have "outcome_answers pf start st query k expected ?o" if "ticket task = t"
  proof (cases r)
    case (Inr result)
    then show ?thesis
      using r asks that moves
      by (auto simp: outcome_answers_def task_asks_def intro!: exI [of _ "task_context task"] exI [of _ e]
          exI [of _ "exec_store ex"])
  qed (simp add: outcome_answers_def error_of_def)
  then have "asked pf start query k expected t (set_worker i (Finishing task ?o) (ex\<lparr>exec_store := st\<rparr>))"
    using asks moves by (intro asked_set_worker asked_later [OF search(4)]) simp_all
  then show ?case by (simp add: worker_search_def r)
next
  case (finish i ex task outcome ex')
  have s: "settled {#} ex" using finish(4) by (simp add: executor_inv_def)
  have asks: "ticket task = t \<longrightarrow> outcome_answers pf start (exec_store ex) query k expected outcome"
    using asked_worker [OF finish(5,1)] finish(2) by simp
  have "asked pf start query k expected t (released i ex)"
    unfolding released_def by (intro asked_set_worker asked_cong [OF finish(5)]) simp_all
  then have "asked pf start query k expected t (finished task outcome (released i ex))"
    using asks by (intro asked_finished) (simp_all add: released_def)
  then show ?case using worker_finish_settled(1) [OF s finish(1,2)] finish(3) by simp
qed

lemma asked_client_step:
  assumes "client_step pf ex ex'" "executor_inv pf ex" "asked pf start query k expected t ex"
  shows "asked pf start query k expected t ex'"
  using assms
proof (induction rule: client_step.induct)
  case (submit ex q n until expected' now)
  then show ?case by (auto simp: asked_def executor_submit_def Let_def nth_append)
next
  case (request reason ex u)
  then show ?case by (auto elim: asked_cong)
next
  case (remove ex u now later ex')
  have "settled {#} ex" using remove(3) by (simp add: executor_inv_def)
  then show ?case
  proof (cases rule: remove_waiting_cases [where t = u and now = now and later = later])
    case 1
    then show ?thesis using remove by simp
  next
    case (2 xs task ys)
    have "outcome_error (cancelled_outcome ex task now later) \<noteq> None"
      using cancelled_outcome_stopped [OF 2(3)] remove(1) 2(2) by simp
    moreover have "asked pf start query k expected t (set_queue (xs @ ys) ex)" by (rule asked_cong [OF remove(4)]) (auto simp: 2(1))
    ultimately have "asked pf start query k expected t (finished task (cancelled_outcome ex task now later) (set_queue (xs @ ys) ex))"
      by (intro asked_finished error_answers)
    then show ?thesis using 2(4) remove(2) by simp
  qed
next
  case (stop clock ex ex')
  show ?case
  proof (cases "stopping ex")
    case True
    then show ?thesis using stop by (simp add: executor_stop_def)
  next
    case False
    have "settled {#} ex" using stop(2) by (simp add: executor_inv_def)
    then have facts: "settled {#} ex'" "halted ex'" "stopping ex'" "worker_states ex' = worker_states ex"
        "\<forall>task\<in>set (queue ex). stopped_outcome (promises ex' ! ticket task)"
        "\<forall>u. u \<notin> ticket ` set (queue ex) \<longrightarrow> promises ex' ! u = promises ex ! u"
        "length (promises ex') = length (promises ex)" "exec_store ex' = exec_store ex"
      using executor_stop_facts [OF _ False, of clock] stop(1) by auto
    have "outcome_answers pf start (exec_store ex') query k expected outcome" if "promises ex' ! t = Some outcome" for outcome
    proof (cases "t \<in> ticket ` set (queue ex)")
      case True
      then have "stopped_outcome (promises ex' ! t)" using facts(5) by auto
      then show ?thesis using that by (auto simp: stopped_outcome_def outcome_answers_def)
    next
      case False
      then show ?thesis using facts(6,8) stop(3) that by (simp add: asked_def)
    qed
    moreover have "queue ex' = []" using facts(2,3) by (simp add: halted_def)
    ultimately show ?thesis using stop(3) facts(4,7,8) by (simp add: asked_def)
  qed
next
  case (store ex st)
  show ?case by (rule asked_later [OF store(3)]) (use store(1) in auto)
qed

lemma asked_submitted:
  assumes "executor_inv pf ex" "executor_submit query k until expected now ex = (ex', Inr t)"
  shows "asked pf (exec_store ex) query k expected t ex'"
proof -
  have loc: "located {#} ex" using assms(1) by (simp add: executor_inv_def settled_def)
  have t: "t = length (promises ex)" using assms(2) by (auto simp: executor_submit_def Let_def split: if_splits)
  have fresh: "t \<notin># mset (map ticket (queue ex)) + held (worker_states ex)"
  proof -
    have "mset (map ticket (queue ex)) + held (worker_states ex) = mset_set (pending (promises ex))"
      using loc by (simp add: located_def)
    then show ?thesis using t by simp
  qed
  then have q: "\<forall>task\<in>set (queue ex). ticket task \<noteq> t" by auto
  have w: "worker_task v = Some task \<Longrightarrow> ticket task \<noteq> t" if v: "v \<in> set (worker_states ex)" for v task
  proof
    assume task: "worker_task v = Some task" "ticket task = t"
    obtain i where "i < length (worker_states ex)" "worker_states ex ! i = v" using v by (auto simp: in_set_conv_nth)
    then have "t \<in># held (worker_states ex)" using task by (auto simp: held_ticket)
    then show False using fresh by simp
  qed
  have "worker_asks pf (exec_store ex) (exec_store ex) query k expected t v" if "v \<in> set (worker_states ex)" for v
    using w [OF that] by (auto simp: worker_asks_def)
  then show ?thesis
    using assms(2) q t by (auto simp: executor_submit_def asked_def Let_def task_asks_def split: if_splits)
qed

end
