(* ===== verification/Structured_Logger.thy ===== *)
theory Structured_Logger
  imports Char_Conv
begin

text \<open>
  service/structured_logger.cpp: one JSON object per line. A line is built in memory and written
  to the shared stream in one piece under the logger's lock, so a call is one atomic step. What
  cannot be built or written is counted and never reaches the caller. The property is that a
  record is one line, whatever the strings in it, and that every string can be read back.
\<close>

section \<open>Values\<close>

datatype log_value = Log_string string | Log_number u64 | Log_bool bool

record log_field =
  field_name :: string
  field_value :: log_value

record log_record =
  severity :: string
  event :: string
  request_id :: u64
  rpc_method :: string
  status_name :: string
  latency_us :: "u64 option"
  log_index_type :: string
  log_vector_count :: "u64 option"

definition log_default :: log_record where
  "log_default = \<lparr>severity = ''INFO'', event = [], request_id = 0, rpc_method = [], status_name = [],
     latency_us = None, log_index_type = [], log_vector_count = None\<rparr>"

definition quote :: char where "quote = CHR 0x22"
definition backslash :: char where "backslash = CHR 0x5C"

definition hex_digit :: "nat \<Rightarrow> char" where
  "hex_digit n = ''0123456789abcdef'' ! n"

definition json_char :: "char \<Rightarrow> string" where
  "json_char c =
     (if c = quote \<or> c = backslash then [backslash, c]
      else if (of_char c :: nat) < 32 then
        [backslash] @ ''u00'' @ [hex_digit (of_char c div 16), hex_digit (of_char c mod 16)]
      else [c])"

definition json_string :: "string \<Rightarrow> string" where
  "json_string s = [quote] @ concat (map json_char s) @ [quote]"

definition nullable_string :: "string \<Rightarrow> string" where
  "nullable_string s = (if s = [] then ''null'' else json_string s)"

definition optional_number :: "u64 option \<Rightarrow> string" where
  "optional_number n = (case n of None \<Rightarrow> ''null'' | Some n \<Rightarrow> decimal (unat n))"

definition field_text :: "log_value \<Rightarrow> string" where
  "field_text v = (case v of Log_string s \<Rightarrow> json_string s | Log_number n \<Rightarrow> decimal (unat n)
     | Log_bool b \<Rightarrow> if b then ''true'' else ''false'')"

section \<open>Time\<close>

text \<open>\<open>gmtime\<close>: the date of a number of days since the first of January 1970, in the proleptic
  Gregorian calendar, counted in eras of 400 years that begin on the first of March.\<close>

definition civil_date :: "int \<Rightarrow> int \<times> int \<times> int" where
  "civil_date days =
     (let z = days + 719468; era = z div 146097; doe = z mod 146097;
          yoe = (doe - doe div 1460 + doe div 36524 - doe div 146096) div 365;
          doy = doe - (365 * yoe + yoe div 4 - yoe div 100);
          mp = (5 * doy + 2) div 153;
          d = doy - (153 * mp + 2) div 5 + 1;
          m = (if mp < 10 then mp + 3 else mp - 9)
      in (yoe + era * 400 + (if m \<le> 2 then 1 else 0), m, d))"

definition padded :: "nat \<Rightarrow> int \<Rightarrow> string" where
  "padded w n = (let s = decimal (nat n) in replicate (w - length s) (CHR ''0'') @ s)"

text \<open>The text of a time in milliseconds since the epoch, none of them before it.\<close>

definition timestamp :: "nat \<Rightarrow> string" where
  "timestamp ms =
     (let seconds = int ms div 1000; day = seconds mod 86400
      in case civil_date (seconds div 86400) of (y, m, d) \<Rightarrow>
           [quote] @ decimal (nat y) @ ''-'' @ padded 2 m @ ''-'' @ padded 2 d @ ''T''
           @ padded 2 (day div 3600) @ '':'' @ padded 2 (day div 60 mod 60) @ '':'' @ padded 2 (day mod 60)
           @ ''.'' @ padded 3 (int ms mod 1000) @ ''Z'' @ [quote])"

section \<open>Lines\<close>

definition label :: "string \<Rightarrow> string" where
  "label name = [CHR '','', quote] @ name @ [quote, CHR '':'']"

definition record_head :: "nat \<Rightarrow> log_record \<Rightarrow> string" where
  "record_head ms r =
     [CHR ''{'', quote] @ ''timestamp'' @ [quote, CHR '':''] @ timestamp ms
     @ label ''severity'' @ json_string (severity r)
     @ label ''event'' @ json_string (event r)
     @ label ''request_id'' @ (if request_id r = 0 then ''null'' else [quote] @ decimal (unat (request_id r)) @ [quote])
     @ label ''method'' @ nullable_string (rpc_method r)
     @ label ''status'' @ nullable_string (status_name r)
     @ label ''latency_us'' @ optional_number (latency_us r)
     @ label ''index_type'' @ nullable_string (log_index_type r)
     @ label ''vector_count'' @ optional_number (log_vector_count r)"

definition log_line :: "nat \<Rightarrow> log_record \<Rightarrow> log_field list \<Rightarrow> string" where
  "log_line ms r fs =
     record_head ms r
     @ concat (map (\<lambda>f. [CHR '',''] @ json_string (field_name f) @ [CHR '':''] @ field_text (field_value f)) fs)
     @ [CHR ''}'', CHR 0x0A]"

section \<open>The logger\<close>

text \<open>What reached the stream, whether the stream has failed, and the records dropped.\<close>

record logger =
  log_output :: string
  log_failed :: bool
  dropped :: u64

text \<open>What a call meets: the time, whether the line can be built (the conversion of the time and
  the allocations succeed), and how many characters the stream takes before it fails, if it does.\<close>

record log_env =
  log_time :: nat
  line_built :: bool
  stream_takes :: "nat option"

definition log_write :: "log_env \<Rightarrow> log_record \<Rightarrow> log_field list \<Rightarrow> logger \<Rightarrow> logger" where
  "log_write env r fs lg =
     (if \<not> line_built env \<or> log_failed lg then lg\<lparr>dropped := dropped lg + 1\<rparr>
      else
        let line = log_line (log_time env) r fs
        in case stream_takes env of
             None \<Rightarrow> lg\<lparr>log_output := log_output lg @ line\<rparr>
           | Some n \<Rightarrow> lg\<lparr>log_output := log_output lg @ take n line, log_failed := True, dropped := dropped lg + 1\<rparr>)"

section \<open>Strings can be read back\<close>

definition hex_value :: "char \<Rightarrow> nat" where
  "hex_value c = (if decimal_digit c then digit_value c else of_char c - 87)"

text \<open>A JSON string, after its opening quote: its value and what follows it.\<close>

fun read_string :: "string \<Rightarrow> (string \<times> string) option"
  and read_escape :: "string \<Rightarrow> (string \<times> string) option" where
  "read_string [] = None"
| "read_string (c # cs) =
     (if c = quote then Some ([], cs)
      else if c = backslash then read_escape cs
      else map_option (\<lambda>(s, rest). (c # s, rest)) (read_string cs))"
| "read_escape [] = None"
| "read_escape (c # cs) =
     (if c = quote \<or> c = backslash then map_option (\<lambda>(s, rest). (c # s, rest)) (read_string cs)
      else if c = CHR ''u'' \<and> 4 \<le> length cs \<and> take 2 cs = ''00'' then
        map_option (\<lambda>(s, rest). (char_of (hex_value (cs ! 2) * 16 + hex_value (cs ! 3)) # s, rest))
          (read_string (drop 4 cs))
      else None)"

lemma below_16: "n < 16 \<Longrightarrow> n \<in> {0,1,2,3,4,5,6,7,8,9,10,11,12,13,14,15::nat}"
  by (simp, arith)

lemma hex_value_digit: "n < 16 \<Longrightarrow> hex_value (hex_digit n) = n"
proof -
  assume "n < 16"
  then have "n \<in> {0,1,2,3,4,5,6,7,8,9,10,11,12,13,14,15}" by (rule below_16)
  then show ?thesis
    by (auto simp: hex_digit_def hex_value_def decimal_digit_def digit_value_def)
qed

lemma read_string_char:
  "read_string (json_char c @ rest) = map_option (\<lambda>(s, rest). (c # s, rest)) (read_string rest)"
proof -
  have "(of_char c :: nat) mod 256 = of_char c" by simp
  then have "(of_char c :: nat) < 256" by (metis mod_less_divisor zero_less_numeral)
  then have "hex_value (hex_digit (of_char c div 16)) * 16 + hex_value (hex_digit (of_char c mod 16)) = (of_char c :: nat)"
    using hex_value_digit [of "of_char c div 16"] hex_value_digit [of "of_char c mod 16"]
    by (simp add: less_mult_imp_div_less)
  then show ?thesis by (simp add: json_char_def quote_def backslash_def)
qed

lemma read_json_string: "read_string (tl (json_string s @ rest)) = Some (s, rest)"
proof -
  have "read_string (concat (map json_char s) @ quote # rest) = Some (s, rest)"
    by (induction s) (simp_all add: read_string_char)
  then show ?thesis by (simp add: json_string_def)
qed

section \<open>A record is one line\<close>

definition printable :: "string \<Rightarrow> bool" where
  "printable s \<longleftrightarrow> (\<forall>c\<in>set s. 32 \<le> (of_char c :: nat))"

lemma printable_simps [simp]:
  "printable []" "printable (c # s) \<longleftrightarrow> 32 \<le> (of_char c :: nat) \<and> printable s"
  "printable (s @ t) \<longleftrightarrow> printable s \<and> printable t" "printable (concat ss) \<longleftrightarrow> (\<forall>s\<in>set ss. printable s)"
  by (auto simp: printable_def)

lemma printable_marks [simp]: "32 \<le> (of_char quote :: nat)" "32 \<le> (of_char backslash :: nat)"
  by (simp_all add: quote_def backslash_def)

lemma printable_decimal [simp]: "printable (decimal n)"
  by (auto simp: printable_def decimal_digit_def dest!: decimal_digits)

lemma printable_hex [simp]: "n < 16 \<Longrightarrow> 32 \<le> (of_char (hex_digit n) :: nat)"
proof -
  assume "n < 16"
  then have "n \<in> {0,1,2,3,4,5,6,7,8,9,10,11,12,13,14,15}" by (rule below_16)
  then show ?thesis by (auto simp: hex_digit_def)
qed

lemma printable_json_string [simp]: "printable (json_string s)"
proof -
  have "printable (json_char c)" for c by (simp add: json_char_def)
  then show ?thesis by (simp add: json_string_def)
qed

lemma printable_parts [simp]: "printable (nullable_string s)" "printable (optional_number n)" "printable (field_text v)"
  "printable (timestamp ms)" "printable name \<Longrightarrow> printable (label name)" "printable (padded w k)"
proof -
  show p: "printable (padded w k)" for w k by (simp add: padded_def Let_def printable_def [of "replicate _ _"])
  show "printable (timestamp ms)" using p by (simp add: timestamp_def Let_def split: prod.split)
qed (simp_all add: nullable_string_def optional_number_def field_text_def label_def split: option.split log_value.split)

text \<open>C30: a record is one line, and nothing in it can be forged. The line ends with a newline and
  has no other control character, whatever the strings of the record and its fields; a string
  in it reads back as it was, wherever it stands; and a call adds to the stream the whole line,
  or a beginning of it and counts the record as dropped.\<close>

theorem log_write_one_line:
  "(\<exists>body. log_line ms r fs = body @ [CHR 0x0A] \<and> printable body)
   \<and> read_string (tl (json_string s @ rest)) = Some (s, rest)
   \<and> (let line = log_line (log_time env) r fs; lg' = log_write env r fs lg
      in if line_built env \<and> \<not> log_failed lg \<and> stream_takes env = None then
           log_output lg' = log_output lg @ line \<and> dropped lg' = dropped lg
         else (\<exists>n. log_output lg' = log_output lg @ take n line) \<and> dropped lg' = dropped lg + 1)"
proof (intro conjI)
  let ?fields = "concat (map (\<lambda>f. [CHR '',''] @ json_string (field_name f) @ [CHR '':''] @ field_text (field_value f)) fs)"
  have "printable (record_head ms r @ ?fields @ [CHR ''}''])" by (simp add: record_head_def)
  then show "\<exists>body. log_line ms r fs = body @ [CHR 0x0A] \<and> printable body"
    by (intro exI [of _ "record_head ms r @ ?fields @ [CHR ''}'']"]) (simp add: log_line_def)
  have "\<exists>n. log_output lg = log_output lg @ take n line" for line by (intro exI [of _ 0]) simp
  then show "let line = log_line (log_time env) r fs; lg' = log_write env r fs lg
      in if line_built env \<and> \<not> log_failed lg \<and> stream_takes env = None then
           log_output lg' = log_output lg @ line \<and> dropped lg' = dropped lg
         else (\<exists>n. log_output lg' = log_output lg @ take n line) \<and> dropped lg' = dropped lg + 1"
    by (auto simp: log_write_def Let_def split: option.split)
qed (rule read_json_string)

end
