(* ===== verification/Vector_Search_Service.thy ===== *)
theory Vector_Search_Service
  imports Executor_Answers Snapshot_Publication_Theorems Structured_Logger Error_Text
begin

text \<open>
  service/vector_search_service.cpp: the gRPC service around the store, the executor and the
  publication. A call is a thread that runs its handler; the phase of a thread says where in it it
  stands, each phase is one atomic action on the shared state, and any interleaving of the calls,
  the workers of the executor and the reload of the index is a run. Protobuf messages are records
  of their fields and gRPC is the environment of an action: whether the call is cancelled, its
  deadline, the frames of a stream.
\<close>

section \<open>State\<close>

record grpc_status =
  status_code :: nat
  status_message :: string

definition grpc_ok :: nat where "grpc_ok = 0"
definition grpc_cancelled :: nat where "grpc_cancelled = 1"
definition grpc_unknown :: nat where "grpc_unknown = 2"
definition grpc_invalid_argument :: nat where "grpc_invalid_argument = 3"
definition grpc_deadline_exceeded :: nat where "grpc_deadline_exceeded = 4"
definition grpc_resource_exhausted :: nat where "grpc_resource_exhausted = 8"
definition grpc_failed_precondition :: nat where "grpc_failed_precondition = 9"
definition grpc_internal :: nat where "grpc_internal = 13"
definition grpc_unavailable :: nat where "grpc_unavailable = 14"

definition status_names :: "string list" where
  "status_names = [''OK'', ''CANCELLED'', ''UNKNOWN'', ''INVALID_ARGUMENT'', ''DEADLINE_EXCEEDED'', ''NOT_FOUND'',
     ''ALREADY_EXISTS'', ''PERMISSION_DENIED'', ''RESOURCE_EXHAUSTED'', ''FAILED_PRECONDITION'', ''ABORTED'',
     ''OUT_OF_RANGE'', ''UNIMPLEMENTED'', ''INTERNAL'', ''UNAVAILABLE'', ''DATA_LOSS'', ''UNAUTHENTICATED'']"

definition ok_status :: grpc_status where
  "ok_status = \<lparr>status_code = grpc_ok, status_message = []\<rparr>"

record rpc_call =
  call_id :: u64
  call_started :: int
  call_method :: string

text \<open>Executor and publication share the store: the service holds it, and lends it to an
  operation of either.\<close>

record service =
  svc_store :: vector_store
  svc_kind :: string
  svc_executor :: executor
  svc_publication :: publication
  svc_logger :: "logger option"
  next_request_id :: u64
  status_counts :: "u64 list"
  summary_logged :: bool

definition view_executor :: "service \<Rightarrow> executor" where
  "view_executor svc = (svc_executor svc)\<lparr>exec_store := svc_store svc\<rparr>"

definition put_executor :: "executor \<Rightarrow> service \<Rightarrow> service" where
  "put_executor ex svc = svc\<lparr>svc_executor := ex, svc_store := exec_store ex\<rparr>"

definition view_publication :: "service \<Rightarrow> publication" where
  "view_publication svc = (svc_publication svc)\<lparr>pub_store := svc_store svc\<rparr>"

definition put_publication :: "publication \<Rightarrow> service \<Rightarrow> service" where
  "put_publication p svc = svc\<lparr>svc_publication := p, svc_store := pub_store p\<rparr>"

definition service_create ::
  "nat \<Rightarrow> vector_store option \<Rightarrow> string \<Rightarrow> logger option \<Rightarrow> executor_config \<Rightarrow> publication_config \<Rightarrow> service result" where
  "service_create threads st kind lg search publishing =
     (case st of
        None \<Rightarrow> Inl (Invalid_argument ''gRPC vector service requires a vector store'')
      | Some s \<Rightarrow>
          if kind = [] then Inl (Invalid_argument ''gRPC vector service requires an index type'')
          else
            and_then (executor_create threads st search) (\<lambda>ex.
            and_then (publication_create st kind publishing) (\<lambda>p.
              Inr \<lparr>svc_store = s, svc_kind = kind, svc_executor = ex, svc_publication = p, svc_logger = lg,
                next_request_id = 1, status_counts = replicate 17 0, summary_logged = False\<rparr>)))"

section \<open>The frame of every call\<close>

text \<open>What an action observes: the steady clock (twice), the system clock, the deadline of the call
  (\<open>None\<close>: none), whether the call is cancelled, whether a writer holds the store's lock.\<close>

record rpc_env =
  rpc_now :: int
  later_now :: int
  system_now :: int
  rpc_deadline :: "int option"
  is_cancelled :: bool
  writer_busy :: bool
  rpc_log :: log_env

definition begin_rpc :: "rpc_env \<Rightarrow> string \<Rightarrow> service \<Rightarrow> service \<times> rpc_call" where
  "begin_rpc env name svc =
     (svc\<lparr>next_request_id := next_request_id svc + 1\<rparr>,
      \<lparr>call_id = next_request_id svc, call_started = rpc_now env, call_method = name\<rparr>)"

definition log_to :: "log_env \<Rightarrow> log_record \<Rightarrow> log_field list \<Rightarrow> service \<Rightarrow> service" where
  "log_to env r fs svc = svc\<lparr>svc_logger := map_option (log_write env r fs) (svc_logger svc)\<rparr>"

definition observed_count :: "bool \<Rightarrow> service \<Rightarrow> u64 option" where
  "observed_count busy svc =
     (case store_try_size busy (svc_store svc) of Inl e \<Rightarrow> None | Inr n \<Rightarrow> map_option of_nat n)"

definition counted_code :: "grpc_status \<Rightarrow> nat" where
  "counted_code status = (if 17 \<le> status_code status then grpc_unknown else status_code status)"

definition finish_rpc :: "rpc_env \<Rightarrow> rpc_call \<Rightarrow> grpc_status \<Rightarrow> service \<Rightarrow> service" where
  "finish_rpc env call status svc =
     (let code = counted_code status;
          svc = svc\<lparr>status_counts := (status_counts svc)[code := status_counts svc ! code + 1]\<rparr>
      in log_to (rpc_log env)
           (log_default\<lparr>severity := (if status_code status = grpc_ok then ''INFO''
                else if code = grpc_internal then ''ERROR'' else ''WARN''),
              event := ''rpc_completed'', request_id := call_id call, rpc_method := call_method call,
              status_name := status_names ! code,
              latency_us := Some (microseconds (rpc_now env - call_started call)),
              log_index_type := svc_kind svc, log_vector_count := observed_count (writer_busy env) svc\<rparr>)
           [\<lparr>field_name = ''status_code'', field_value = Log_number (of_nat code)\<rparr>] svc)"

definition cancelled_status :: "rpc_env \<Rightarrow> grpc_status" where
  "cancelled_status env =
     (if \<exists>d\<in>set_option (rpc_deadline env). d \<le> system_now env then
        \<lparr>status_code = grpc_deadline_exceeded, status_message = ''request deadline exceeded''\<rparr>
      else \<lparr>status_code = grpc_cancelled, status_message = ''request cancelled''\<rparr>)"

fun exception_status :: "cpp_error \<Rightarrow> grpc_status" where
  "exception_status Publication_disabled =
     \<lparr>status_code = grpc_failed_precondition, status_message = ''snapshot publication is disabled''\<rparr>"
| "exception_status Snapshot_mismatch =
     \<lparr>status_code = grpc_failed_precondition, status_message = ''snapshot identity or generation mismatch''\<rparr>"
| "exception_status Publication_busy =
     \<lparr>status_code = grpc_resource_exhausted, status_message = ''snapshot preparation already in progress''\<rparr>"
| "exception_status (Search_rejected stops) =
     \<lparr>status_code = (if stops then grpc_unavailable else grpc_resource_exhausted),
      status_message = (if stops then ''search executor stopping'' else ''search queue full'')\<rparr>"
| "exception_status (Search_interrupted DeadlineExceeded) =
     \<lparr>status_code = grpc_deadline_exceeded, status_message = ''search deadline exceeded''\<rparr>"
| "exception_status (Search_interrupted Shutdown) =
     \<lparr>status_code = grpc_unavailable, status_message = ''search executor stopping''\<rparr>"
| "exception_status (Search_interrupted reason) =
     \<lparr>status_code = grpc_cancelled, status_message = ''search cancelled''\<rparr>"
| "exception_status Read_only_store =
     \<lparr>status_code = grpc_failed_precondition, status_message = error_text Read_only_store\<rparr>"
| "exception_status (Length_error text) = \<lparr>status_code = grpc_resource_exhausted, status_message = text\<rparr>"
| "exception_status (Invalid_argument text) = \<lparr>status_code = grpc_invalid_argument, status_message = text\<rparr>"
| "exception_status e = \<lparr>status_code = grpc_internal, status_message = ''internal vector service error''\<rparr>"

section \<open>Phases and replies\<close>

record search_response =
  response_neighbors :: "search_result list"
  response_version :: u64
  response_queue_us :: u64
  response_execution_us :: u64
  response_identity :: snapshot_identity

record stats_response =
  response_kind :: string
  response_store :: store_stats
  response_publication :: "publication_status \<times> snapshot_identity"
  response_executor :: executor_stats

datatype reply =
    No_reply
  | Added u64
  | Batch_added u64 u64
  | Found search_response
  | Published "publication_status \<times> snapshot_identity"
  | Reported stats_response

text \<open>The local variables of the preparation of a snapshot; the token is 0 before it is admitted.\<close>

record preparation =
  prep_call :: rpc_call
  prep_token :: u64
  prep_manifest :: snapshot_manifest
  prep_generation :: u64

datatype rpc_phase =
    Rpc_adding rpc_call
  | Rpc_batch_adding rpc_call nat
  | Rpc_searching rpc_call "f32 list" nat string nat
  | Rpc_receiving preparation "u8 list"
  | Rpc_loading preparation "u8 list"
  | Rpc_loaded preparation "u8 list" snapshot_manifest u64
  | Rpc_installing preparation snapshot_manifest u64 serving_snapshot
  | Rpc_prepared preparation
  | Rpc_prepare_failed preparation cpp_error
  | Rpc_activated rpc_call u64
  | Rpc_reporting rpc_call "publication_status \<times> snapshot_identity" store_stats
  | Rpc_finishing rpc_call grpc_status reply
  | Rpc_replied rpc_call grpc_status reply

definition rpc_fails :: "rpc_call \<Rightarrow> cpp_error \<Rightarrow> rpc_phase" where
  "rpc_fails call e = Rpc_finishing call (exception_status e) No_reply"

section \<open>Insertion\<close>

definition start_add_vector ::
  "platform \<Rightarrow> nat option \<Rightarrow> rpc_env \<Rightarrow> vector_id \<Rightarrow> f32 list \<Rightarrow> service \<Rightarrow> service \<times> rpc_phase" where
  "start_add_vector pf fault env vid v svc =
     (case begin_rpc env ''AddVector'' svc of (svc, call) \<Rightarrow>
        if is_cancelled env then (svc, Rpc_finishing call (cancelled_status env) No_reply)
        else case store_add pf fault vid v (svc_store svc) of
            (st, Inl e) \<Rightarrow> (svc\<lparr>svc_store := st\<rparr>, rpc_fails call e)
          | (st, Inr u) \<Rightarrow> (svc\<lparr>svc_store := st\<rparr>, Rpc_adding call))"

definition start_batch_add ::
  "platform \<Rightarrow> (nat \<Rightarrow> nat option) \<Rightarrow> rpc_env \<Rightarrow> vector_record list \<Rightarrow> service \<Rightarrow> service \<times> rpc_phase" where
  "start_batch_add pf faults env vectors svc =
     (case begin_rpc env ''BatchAdd'' svc of (svc, call) \<Rightarrow>
        if is_cancelled env then (svc, Rpc_finishing call (cancelled_status env) No_reply)
        else case store_add_batch pf faults vectors (svc_store svc) of
            (st, Inl e) \<Rightarrow> (svc\<lparr>svc_store := st\<rparr>, rpc_fails call e)
          | (st, Inr u) \<Rightarrow> (svc\<lparr>svc_store := st\<rparr>, Rpc_batch_adding call (length vectors)))"

definition read_size :: "rpc_call \<Rightarrow> (u64 \<Rightarrow> reply) \<Rightarrow> service \<Rightarrow> rpc_phase" where
  "read_size call answer svc =
     (case store_stats_of (svc_store svc) of
        Inl e \<Rightarrow> rpc_fails call e
      | Inr st \<Rightarrow> Rpc_finishing call ok_status (answer (of_nat (stats_index_size st))))"

section \<open>Search\<close>

definition check_search :: "vector_store \<Rightarrow> f32 list \<Rightarrow> nat \<Rightarrow> string \<Rightarrow> unit result" where
  "check_search st query k expected =
     and_then
       (if k = 0 then Inr ()
        else
          and_then (if expected \<noteq> [] then Inr ()
                    else and_then (store_dimension st) (\<lambda>d.
                      if length query \<noteq> d then
                        Inl (Invalid_argument ''query dimension does not match index dimension'')
                      else Inr ())) (\<lambda>_.
          and_then (normalize_l2 query) (\<lambda>_. Inr ()))) (\<lambda>_.
     if 256 < length expected then Inl (Invalid_argument ''expected snapshot ID too long'') else Inr ())"

text \<open>The deadline on the steady clock; \<open>None\<close> if it has passed.\<close>

definition search_deadline :: "rpc_env \<Rightarrow> int option" where
  "search_deadline env =
     (case rpc_deadline env of
        None \<Rightarrow> Some clock_max
      | Some d \<Rightarrow>
          let remaining = d - system_now env
          in if remaining \<le> 0 then None
             else if remaining < clock_max - rpc_now env then Some (rpc_now env + remaining) else Some clock_max)"

definition start_search ::
  "rpc_env \<Rightarrow> f32 list \<Rightarrow> nat \<Rightarrow> string \<Rightarrow> service \<Rightarrow> service \<times> rpc_phase" where
  "start_search env query k expected svc =
     (case begin_rpc env ''Search'' svc of (svc, call) \<Rightarrow>
        if is_cancelled env then (svc, Rpc_finishing call (cancelled_status env) No_reply)
        else case check_search (svc_store svc) query k expected of
          Inl e \<Rightarrow> (svc, rpc_fails call e)
        | Inr u \<Rightarrow>
            (case search_deadline env of
               None \<Rightarrow>
                 (svc, Rpc_finishing call
                    \<lparr>status_code = grpc_deadline_exceeded, status_message = ''request deadline exceeded''\<rparr> No_reply)
             | Some until \<Rightarrow>
                 (case executor_submit query k until expected (later_now env) (view_executor svc) of
                    (ex, Inl e) \<Rightarrow> (put_executor ex svc, rpc_fails call e)
                  | (ex, Inr t) \<Rightarrow> (put_executor ex svc, Rpc_searching call query k expected t))))"

definition search_response_of :: "search_outcome \<Rightarrow> search_response" where
  "search_response_of outcome =
     \<lparr>response_neighbors = neighbors (outcome_result outcome),
      response_version = snapshot_version (outcome_result outcome),
      response_queue_us = queue_us outcome, response_execution_us = execution_us outcome,
      response_identity = result_identity (outcome_result outcome)\<rparr>"

definition answer_search :: "rpc_env \<Rightarrow> rpc_call \<Rightarrow> search_outcome \<Rightarrow> rpc_phase" where
  "answer_search env call outcome =
     (case outcome_error outcome of
        Some e \<Rightarrow> rpc_fails call e
      | None \<Rightarrow>
          if is_cancelled env then Rpc_finishing call (cancelled_status env) No_reply
          else Rpc_finishing call ok_status (Found (search_response_of outcome)))"

text \<open>One turn of the loop that waits for the future.\<close>

definition poll_search ::
  "rpc_env \<Rightarrow> rpc_call \<Rightarrow> f32 list \<Rightarrow> nat \<Rightarrow> string \<Rightarrow> nat \<Rightarrow> service \<Rightarrow> service \<times> rpc_phase" where
  "poll_search env call query k expected t svc =
     (case promises (svc_executor svc) ! t of
        Some outcome \<Rightarrow> (svc, answer_search env call outcome)
      | None \<Rightarrow>
          if is_cancelled env then
            (case executor_cancel (Some t)
                (if status_code (cancelled_status env) = grpc_deadline_exceeded then DeadlineExceeded else Cancelled)
                (rpc_now env) (later_now env) (view_executor svc) of
               Inl e \<Rightarrow> (svc, rpc_fails call e)
             | Inr ex \<Rightarrow> (put_executor ex svc, Rpc_searching call query k expected t))
          else (svc, Rpc_searching call query k expected t))"

section \<open>Preparation of a snapshot\<close>

record prepare_frame =
  frame_manifest :: "snapshot_manifest option"
  frame_generation :: u64
  frame_data :: "u8 list"
  frame_abort :: bool

definition on_publication :: "(publication \<Rightarrow> publication) \<Rightarrow> service \<Rightarrow> service" where
  "on_publication f svc = put_publication (f (view_publication svc)) svc"

definition log_event :: "rpc_env \<Rightarrow> string \<Rightarrow> string \<Rightarrow> string \<Rightarrow> log_field list \<Rightarrow> service \<Rightarrow> service" where
  "log_event env level name status fs svc =
     log_to (rpc_log env)
       (log_default\<lparr>severity := level, event := name, status_name := status, log_index_type := svc_kind svc\<rparr>) fs svc"

definition number_field :: "string \<Rightarrow> u64 \<Rightarrow> log_field" where
  "number_field name n = \<lparr>field_name = name, field_value = Log_number n\<rparr>"

text \<open>The first frame, and the staging file, which the system creates or not.\<close>

definition start_prepare ::
  "externals \<Rightarrow> rpc_env \<Rightarrow> prepare_frame option \<Rightarrow> bool \<Rightarrow> service \<Rightarrow> service \<times> rpc_phase" where
  "start_prepare ext env first staging svc =
     (case begin_rpc env ''PrepareSnapshot'' svc of (svc, call) \<Rightarrow>
        let fresh = \<lparr>prep_call = call, prep_token = 0, prep_manifest = no_manifest, prep_generation = 0\<rparr>
        in if \<not> publication_enabled (pub_config (svc_publication svc)) then
             (svc, Rpc_prepare_failed fresh Publication_disabled)
           else case first of
             None \<Rightarrow> (svc, Rpc_prepare_failed fresh (Invalid_argument ''first frame requires manifest and generation only''))
           | Some f \<Rightarrow>
               (case frame_manifest f of
                  None \<Rightarrow> (svc, Rpc_prepare_failed fresh (Invalid_argument ''first frame requires manifest and generation only''))
                | Some m \<Rightarrow>
                    if frame_data f \<noteq> [] \<or> frame_abort f then
                      (svc, Rpc_prepare_failed fresh (Invalid_argument ''first frame requires manifest and generation only''))
                    else
                      let prep = fresh\<lparr>prep_manifest := m, prep_generation := frame_generation f\<rparr>
                      in (case publication_begin ext m (frame_generation f) (rpc_now env) (view_publication svc) of
                            (p, Inl e) \<Rightarrow> (put_publication p svc, Rpc_prepare_failed prep e)
                          | (p, Inr token) \<Rightarrow>
                              let svc = log_event env ''INFO'' ''snapshot_prepare_started'' []
                                    [number_field ''generation'' (frame_generation f),
                                     \<lparr>field_name = ''snapshot_id'', field_value = Log_string (manifest_snapshot_id m)\<rparr>]
                                    (put_publication p svc);
                                  prep = prep\<lparr>prep_token := token\<rparr>
                              in if staging then (svc, Rpc_receiving prep [])
                                 else (svc, Rpc_prepare_failed prep (Runtime_error ''snapshot staging unavailable'')))))"

definition prepare_cancelled :: "rpc_env \<Rightarrow> preparation \<Rightarrow> service \<Rightarrow> service \<times> rpc_phase" where
  "prepare_cancelled env prep svc =
     (on_publication (publication_fail (prep_token prep) (rpc_now env)) svc,
      Rpc_finishing (prep_call prep) (cancelled_status env) No_reply)"

definition bad_frame :: "preparation \<Rightarrow> u8 list \<Rightarrow> prepare_frame \<Rightarrow> bool" where
  "bad_frame prep received f \<longleftrightarrow> frame_abort f \<or> frame_manifest f \<noteq> None \<or> frame_generation f \<noteq> 0
     \<or> frame_data f = [] \<or> 256 * 1024 < length (frame_data f)
     \<or> unat (file_size (prep_manifest prep)) - length received < length (frame_data f)"

text \<open>One turn of the loop over the frames; \<open>None\<close> is the end of the stream. \<open>stored\<close>: the staging
  file took the bytes, or at the end was flushed; \<open>shut\<close>: it was closed.\<close>

definition receive_frame ::
  "rpc_env \<Rightarrow> bool \<Rightarrow> bool \<Rightarrow> prepare_frame option \<Rightarrow> preparation \<Rightarrow> u8 list \<Rightarrow> service \<Rightarrow> service \<times> rpc_phase" where
  "receive_frame env stored shut frame prep received svc =
     (if is_cancelled env then prepare_cancelled env prep svc
      else case frame of
        Some f \<Rightarrow>
          (if bad_frame prep received f then
             (svc, Rpc_prepare_failed prep (Invalid_argument ''invalid snapshot data frame or length''))
           else if \<not> stored then (svc, Rpc_prepare_failed prep (Runtime_error ''snapshot staging write failed''))
           else (svc, Rpc_receiving prep (received @ frame_data f)))
      | None \<Rightarrow>
          (if \<not> stored \<or> length received \<noteq> unat (file_size (prep_manifest prep)) then
             (svc, Rpc_prepare_failed prep (Invalid_argument ''snapshot length mismatch''))
           else if \<not> shut then (svc, Rpc_prepare_failed prep (Runtime_error ''snapshot staging close failed''))
           else (svc, Rpc_loading prep received)))"

text \<open>\<open>complete\<close>, by its critical sections and the work between them.\<close>

definition prepare_read :: "preparation \<Rightarrow> u8 list \<Rightarrow> service \<Rightarrow> rpc_phase" where
  "prepare_read prep received svc =
     (case complete_read (prep_token prep) (view_publication svc) of
        Inl e \<Rightarrow> Rpc_prepare_failed prep e
      | Inr (m, g) \<Rightarrow> Rpc_loaded prep received m g)"

definition prepare_load ::
  "externals \<Rightarrow> platform \<Rightarrow> string \<Rightarrow> preparation \<Rightarrow> u8 list \<Rightarrow> snapshot_manifest \<Rightarrow> u64 \<Rightarrow> service \<Rightarrow> rpc_phase" where
  "prepare_load ext pf path prep received m g svc =
     (case complete_prepare ext pf path (Some received) m g (view_publication svc) of
        Inl e \<Rightarrow> Rpc_prepare_failed prep e
      | Inr snap \<Rightarrow> Rpc_installing prep m g snap)"

definition prepare_install ::
  "rpc_env \<Rightarrow> preparation \<Rightarrow> snapshot_manifest \<Rightarrow> u64 \<Rightarrow> serving_snapshot \<Rightarrow> service \<Rightarrow> service \<times> rpc_phase" where
  "prepare_install env prep m g snap svc =
     (case complete_install (prep_token prep) m g snap (rpc_now env) (view_publication svc) of
        (p, Inl e) \<Rightarrow> (put_publication p svc, Rpc_prepare_failed prep e)
      | (p, Inr u) \<Rightarrow> (put_publication p svc, Rpc_prepared prep))"

definition prepare_report :: "rpc_env \<Rightarrow> preparation \<Rightarrow> service \<Rightarrow> service \<times> rpc_phase" where
  "prepare_report env prep svc =
     (case publication_status_of (view_publication svc) of
        Inl e \<Rightarrow> (svc, Rpc_prepare_failed prep e)
      | Inr (st, current, observed) \<Rightarrow>
          (log_event env ''INFO'' ''snapshot_ready'' ''OK''
             [number_field ''generation'' (prep_generation prep), number_field ''prepare_us'' (prepare_us st)] svc,
           Rpc_finishing (prep_call prep) ok_status (Published (st, current))))"

definition preparation_status :: "preparation \<Rightarrow> cpp_error \<Rightarrow> grpc_status" where
  "preparation_status prep e =
     (if e = Bad_alloc then
        \<lparr>status_code = grpc_resource_exhausted, status_message = ''snapshot resources unavailable''\<rparr>
      else if e = Publication_busy \<or> e = Snapshot_mismatch \<or> e = Read_only_store \<or> e = Publication_disabled then
        exception_status e
      else \<lparr>status_code = (if prep_token prep \<noteq> 0 then grpc_failed_precondition else grpc_invalid_argument),
             status_message = ''snapshot preparation failed''\<rparr>)"

text \<open>The handler of every exception of a preparation.\<close>

definition prepare_failure :: "rpc_env \<Rightarrow> preparation \<Rightarrow> cpp_error \<Rightarrow> service \<Rightarrow> service \<times> rpc_phase" where
  "prepare_failure env prep e svc =
     ((if prep_token prep \<noteq> 0 then
         log_event env ''ERROR'' ''snapshot_prepare_failed'' [] [number_field ''generation'' (prep_generation prep)]
           (on_publication (publication_fail (prep_token prep) (rpc_now env)) svc)
       else if publication_enabled (pub_config (svc_publication svc)) then
         on_publication (publication_rejected (prep_manifest prep) (prep_generation prep)) svc
       else svc),
      Rpc_finishing (prep_call prep) (preparation_status prep e) No_reply)"

section \<open>Activation and statistics\<close>

definition start_activate :: "rpc_env \<Rightarrow> string \<Rightarrow> u64 \<Rightarrow> service \<Rightarrow> service \<times> rpc_phase" where
  "start_activate env sid g svc =
     (case begin_rpc env ''ActivateSnapshot'' svc of (svc, call) \<Rightarrow>
        if is_cancelled env then (svc, Rpc_finishing call (cancelled_status env) No_reply)
        else if 256 < length sid then (svc, rpc_fails call (Invalid_argument ''snapshot ID too long''))
        else case publication_activate sid g (rpc_now env) (later_now env) (view_publication svc) of
            (p, Inl e) \<Rightarrow> (put_publication p svc, rpc_fails call e)
          | (p, Inr u) \<Rightarrow> (put_publication p svc, Rpc_activated call g))"

definition activate_report :: "rpc_env \<Rightarrow> rpc_call \<Rightarrow> u64 \<Rightarrow> service \<Rightarrow> service \<times> rpc_phase" where
  "activate_report env call g svc =
     (case publication_status_of (view_publication svc) of
        Inl e \<Rightarrow> (svc, rpc_fails call e)
      | Inr (st, current, observed) \<Rightarrow>
          (log_event env ''INFO'' ''snapshot_activated'' ''OK''
             [number_field ''generation'' g, number_field ''activation_us'' (activation_us st)] svc,
           Rpc_finishing call ok_status (Published (st, current))))"

definition start_get_stats :: "rpc_env \<Rightarrow> service \<Rightarrow> service \<times> rpc_phase" where
  "start_get_stats env svc =
     (case begin_rpc env ''GetStats'' svc of (svc, call) \<Rightarrow>
        if is_cancelled env then (svc, Rpc_finishing call (cancelled_status env) No_reply)
        else case publication_status_of (view_publication svc) of
            Inl e \<Rightarrow> (svc, rpc_fails call e)
          | Inr (st, current, observed) \<Rightarrow> (svc, Rpc_reporting call (st, current) observed))"

definition stats_report :: "rpc_call \<Rightarrow> publication_status \<times> snapshot_identity \<Rightarrow> store_stats \<Rightarrow> service \<Rightarrow> rpc_phase" where
  "stats_report call published_status observed svc =
     Rpc_finishing call ok_status (Reported
       \<lparr>response_kind = svc_kind svc, response_store = observed, response_publication = published_status,
        response_executor = stats (svc_executor svc)\<rparr>)"

section \<open>The summary at the end\<close>

text \<open>The records of the calls that failed, then the totals and the counters of the executor.\<close>

definition log_error_counts :: "rpc_env \<Rightarrow> u64 option \<Rightarrow> nat list \<Rightarrow> service \<Rightarrow> service" where
  "log_error_counts env live codes svc =
     foldl (\<lambda>svc code.
       if status_counts svc ! code = 0 then svc
       else log_to (rpc_log env)
              (log_default\<lparr>event := ''rpc_error_summary'', status_name := status_names ! code,
                 log_index_type := svc_kind svc, log_vector_count := live\<rparr>)
              [number_field ''status_code'' (of_nat code), number_field ''count'' (status_counts svc ! code)] svc)
       svc codes"

definition logger_dropped :: "service \<Rightarrow> u64" where
  "logger_dropped svc = (case svc_logger svc of None \<Rightarrow> 0 | Some lg \<Rightarrow> dropped lg)"

definition log_rpc_summary :: "rpc_env \<Rightarrow> service \<Rightarrow> service" where
  "log_rpc_summary env svc =
     (if svc_logger svc = None then svc
      else if summary_logged svc then svc
      else
        let live = (case store_stats_of (svc_store svc) of Inl e \<Rightarrow> None | Inr st \<Rightarrow> Some (of_nat (stats_index_size st)));
            summary = log_default\<lparr>log_index_type := svc_kind svc, log_vector_count := live\<rparr>;
            svc = log_error_counts env live [1..<17] (svc\<lparr>summary_logged := True\<rparr>);
            svc = log_to (rpc_log env) (summary\<lparr>event := ''rpc_summary''\<rparr>)
                    [number_field ''completed_rpcs'' (sum_list (status_counts svc)),
                     number_field ''successful_rpcs'' (status_counts svc ! 0),
                     number_field ''failed_rpcs'' (sum_list (tl (status_counts svc))),
                     number_field ''dropped_log_records'' (logger_dropped svc)] svc;
            st = stats (svc_executor svc)
        in log_to (rpc_log env) (summary\<lparr>event := ''search_executor_summary''\<rparr>)
             [number_field ''admitted'' (admitted st), number_field ''rejected'' (rejected st),
              number_field ''completed'' (completed st), number_field ''succeeded'' (succeeded st),
              number_field ''failed'' (failed st), number_field ''cancelled'' (cancelled st),
              number_field ''expired'' (expired st), number_field ''peak_queued'' (peak_queued st),
              number_field ''peak_running'' (peak_running st), number_field ''queue_us_total'' (queue_us_total st),
              number_field ''execution_us_total'' (execution_us_total st)] svc)"

section \<open>Runs\<close>

text \<open>One action of a call that is under way.\<close>

inductive rpc_step :: "externals \<Rightarrow> platform \<Rightarrow> service \<Rightarrow> rpc_phase \<Rightarrow> service \<Rightarrow> rpc_phase \<Rightarrow> bool" for ext pf where
  adding: "rpc_step ext pf svc (Rpc_adding call) svc (read_size call Added svc)"
| batch_adding: "rpc_step ext pf svc (Rpc_batch_adding call n) svc (read_size call (Batch_added (of_nat n)) svc)"
| searching: "poll_search env call query k expected t svc = (svc', ph) \<Longrightarrow>
    rpc_step ext pf svc (Rpc_searching call query k expected t) svc' ph"
| receiving: "receive_frame env stored shut frame prep received svc = (svc', ph) \<Longrightarrow>
    rpc_step ext pf svc (Rpc_receiving prep received) svc' ph"
| reading: "rpc_step ext pf svc (Rpc_loading prep received) svc (prepare_read prep received svc)"
| loading: "unat (manifest_dimension m) < score_dimension (publication_kernel (pub_config (svc_publication svc))) \<Longrightarrow>
    rpc_step ext pf svc (Rpc_loaded prep received m g) svc (prepare_load ext pf path prep received m g svc)"
| installing: "prepare_install env prep m g snap svc = (svc', ph) \<Longrightarrow>
    rpc_step ext pf svc (Rpc_installing prep m g snap) svc' ph"
| prepared: "prepare_report env prep svc = (svc', ph) \<Longrightarrow> rpc_step ext pf svc (Rpc_prepared prep) svc' ph"
| failing: "prepare_failure env prep e svc = (svc', ph) \<Longrightarrow> rpc_step ext pf svc (Rpc_prepare_failed prep e) svc' ph"
| activated: "activate_report env call g svc = (svc', ph) \<Longrightarrow> rpc_step ext pf svc (Rpc_activated call g) svc' ph"
| reporting: "rpc_step ext pf svc (Rpc_reporting call st observed) svc (stats_report call st observed svc)"
| finishing: "rpc_step ext pf svc (Rpc_finishing call status answer)
    (finish_rpc env call status svc) (Rpc_replied call status answer)"

text \<open>A call that starts.\<close>

inductive rpc_start :: "externals \<Rightarrow> platform \<Rightarrow> service \<Rightarrow> service \<Rightarrow> rpc_phase \<Rightarrow> bool" for ext pf where
  add_vector: "start_add_vector pf fault env vid v svc = (svc', ph) \<Longrightarrow> rpc_start ext pf svc svc' ph"
| batch_add: "start_batch_add pf faults env vectors svc = (svc', ph) \<Longrightarrow> rpc_start ext pf svc svc' ph"
| search: "start_search env query k expected svc = (svc', ph) \<Longrightarrow> rpc_start ext pf svc svc' ph"
| prepare: "start_prepare ext env first staging svc = (svc', ph) \<Longrightarrow> rpc_start ext pf svc svc' ph"
| activate: "start_activate env sid g svc = (svc', ph) \<Longrightarrow> rpc_start ext pf svc svc' ph"
| get_stats: "start_get_stats env svc = (svc', ph) \<Longrightarrow> rpc_start ext pf svc svc' ph"

text \<open>The calls so far, each with the phase it is in; besides them the workers of the executor act,
  the server stops the searches, replaces the index, or writes to the log.\<close>

inductive service_step ::
  "externals \<Rightarrow> platform \<Rightarrow> service \<times> rpc_phase list \<Rightarrow> service \<times> rpc_phase list \<Rightarrow> bool" for ext pf where
  start: "rpc_start ext pf svc svc' ph \<Longrightarrow> service_step ext pf (svc, ts) (svc', ts @ [ph])"
| call: "i < length ts \<Longrightarrow> rpc_step ext pf svc (ts ! i) svc' ph \<Longrightarrow> service_step ext pf (svc, ts) (svc', ts[i := ph])"
| worker: "worker_step pf (view_executor svc) ex \<Longrightarrow> service_step ext pf (svc, ts) (put_executor ex svc, ts)"
| stop: "executor_stop clock (view_executor svc) = Inr ex \<Longrightarrow> service_step ext pf (svc, ts) (put_executor ex svc, ts)"
| reload: "index_ok pf ix \<Longrightarrow> replace_index (Some ix) (svc_store svc) = Inr st \<Longrightarrow>
    service_step ext pf (svc, ts) (svc\<lparr>svc_store := st\<rparr>, ts)"
| log: "service_step ext pf (svc, ts) (log_to lenv r fs svc, ts)"
| summary: "service_step ext pf (svc, ts) (log_rpc_summary env svc, ts)"

inductive service_reachable :: "externals \<Rightarrow> platform \<Rightarrow> service \<times> rpc_phase list \<Rightarrow> bool" for ext pf where
  create: "store_inv pf st \<Longrightarrow> service_create threads (Some st) kind lg search publishing = Inr svc \<Longrightarrow>
    service_reachable ext pf (svc, [])"
| step: "service_reachable ext pf x \<Longrightarrow> service_step ext pf x y \<Longrightarrow> service_reachable ext pf y"

end
