(* ===== verification/Vector_Search_Service_Runs.thy ===== *)
theory Vector_Search_Service_Runs
  imports Vector_Search_Service
begin

text \<open>
  How the parts see one action of the service: what it does to the executor and the publication
  through their views of the shared store, what it leaves true of the calls, and what a call
  that starts sets up.
\<close>

section \<open>Views\<close>

lemma view_put [simp]:
  "view_executor (put_executor ex svc) = ex"
  "view_publication (put_publication p svc) = p"
  "view_executor (put_publication p svc) = (view_executor svc)\<lparr>exec_store := pub_store p\<rparr>"
  "view_publication (put_executor ex svc) = (view_publication svc)\<lparr>pub_store := exec_store ex\<rparr>"
  "svc_publication (put_executor ex svc) = svc_publication svc" "svc_executor (put_publication p svc) = svc_executor svc"
  "svc_publication (put_publication p svc) = p" "svc_executor (put_executor ex svc) = ex"
  "svc_store (put_executor ex svc) = exec_store ex" "svc_store (put_publication p svc) = pub_store p"
  by (simp_all add: view_executor_def put_executor_def view_publication_def put_publication_def)

lemma view_fields [simp]:
  "exec_store (view_executor svc) = svc_store svc" "promises (view_executor svc) = promises (svc_executor svc)"
  "pub_store (view_publication svc) = svc_store svc" "pub_config (view_publication svc) = pub_config (svc_publication svc)"
  "pub_kind (view_publication svc) = pub_kind (svc_publication svc)"
  by (simp_all add: view_executor_def view_publication_def)

text \<open>What the frame of a call, the log and the counters leave alone.\<close>

definition components :: "service \<Rightarrow> vector_store \<times> executor \<times> publication" where
  "components svc = (svc_store svc, svc_executor svc, svc_publication svc)"

definition counters :: "service \<Rightarrow> u64 \<times> u64 list" where
  "counters svc = (next_request_id svc, status_counts svc)"

lemma components_views:
  assumes "components svc' = components svc"
  shows "view_executor svc' = view_executor svc" "view_publication svc' = view_publication svc"
    "svc_executor svc' = svc_executor svc" "svc_publication svc' = svc_publication svc" "svc_store svc' = svc_store svc"
  using assms by (simp_all add: components_def view_executor_def view_publication_def)

lemma log_components [simp]:
  "components (log_to env r fs svc) = components svc" "counters (log_to env r fs svc) = counters svc"
  "components (log_event renv level name status fs svc) = components svc"
  "counters (log_event renv level name status fs svc) = counters svc"
  by (simp_all add: log_to_def log_event_def components_def counters_def)

lemma counters_put [simp]:
  "counters (put_executor ex svc) = counters svc" "counters (put_publication p svc) = counters svc"
  "counters (on_publication f svc) = counters svc"
  by (simp_all add: put_executor_def put_publication_def on_publication_def counters_def)

lemma finish_components [simp]: "components (finish_rpc env call status svc) = components svc"
  by (simp add: finish_rpc_def Let_def) (simp add: components_def)

lemma error_counts_components [simp]:
  "components (log_error_counts env live codes svc) = components svc"
  "counters (log_error_counts env live codes svc) = counters svc"
  unfolding log_error_counts_def by (induction codes arbitrary: svc) simp_all

lemma summary_components [simp]:
  "components (log_rpc_summary env svc) = components svc" "counters (log_rpc_summary env svc) = counters svc"
proof -
  have flag: "components (svc\<lparr>summary_logged := True\<rparr>) = components svc" "counters (svc\<lparr>summary_logged := True\<rparr>) = counters svc"
    by (simp_all add: components_def counters_def)
  show "components (log_rpc_summary env svc) = components svc" "counters (log_rpc_summary env svc) = counters svc"
    by (simp_all add: log_rpc_summary_def Let_def flag)
qed

section \<open>Runs of the parts\<close>

abbreviation executor_moves :: "platform \<Rightarrow> executor \<Rightarrow> executor \<Rightarrow> bool" where
  "executor_moves pf \<equiv> (\<lambda>ex ex'. worker_step pf ex ex' \<or> client_step pf ex ex')\<^sup>*\<^sup>*"

abbreviation publication_moves :: "externals \<Rightarrow> platform \<Rightarrow> publication_system \<Rightarrow> publication_system \<Rightarrow> bool" where
  "publication_moves ext pf \<equiv> (publication_step ext pf)\<^sup>*\<^sup>*"

lemma client_move: "client_step pf ex ey \<Longrightarrow> executor_moves pf ex ey"
  by (rule r_into_rtranclp) simp

lemma worker_move: "worker_step pf ex ey \<Longrightarrow> executor_moves pf ex ey"
  by (rule r_into_rtranclp) simp

lemma executor_moves_reachable: "executor_moves pf ex ex' \<Longrightarrow> executor_reachable pf ex \<Longrightarrow> executor_reachable pf ex'"
  by (induction rule: rtranclp_induct) (auto intro: executor_reachable.worker executor_reachable.client)

lemma executor_moves_asked:
  assumes "executor_moves pf ex ex'" "executor_reachable pf ex" "asked pf start query k expected t ex"
  shows "asked pf start query k expected t ex'"
  using assms
proof (induction rule: rtranclp_induct)
  case (step ey ez)
  have "executor_inv pf ey" using executor_moves_reachable [OF step(1,4)] by (rule executor_reachable_inv)
  then show ?case using step asked_worker_step asked_client_step by blast
qed

lemma publication_moves_reachable:
  "publication_moves ext pf x y \<Longrightarrow> publication_reachable ext pf x \<Longrightarrow> publication_reachable ext pf y"
  by (induction rule: rtranclp_induct) (auto intro: publication_reachable.step)

text \<open>The completion that a call is in the middle of.\<close>

fun flight :: "rpc_phase \<Rightarrow> completion set" where
  "flight (Rpc_loaded prep received m g) =
     {\<lparr>c_token = prep_token prep, c_manifest = m, c_generation = g, c_prepared = None\<rparr>}"
| "flight (Rpc_installing prep m g snap) =
     {\<lparr>c_token = prep_token prep, c_manifest = m, c_generation = g, c_prepared = Some snap\<rparr>}"
| "flight ph = {}"

text \<open>One action of the service, as the parts see it.\<close>

definition advances :: "externals \<Rightarrow> platform \<Rightarrow> completion set \<Rightarrow> service \<Rightarrow> service \<Rightarrow> completion set \<Rightarrow> bool" where
  "advances ext pf F svc svc' F' \<longleftrightarrow>
     executor_moves pf (view_executor svc) (view_executor svc')
   \<and> pub_config (svc_publication svc') = pub_config (svc_publication svc)
   \<and> (publication_enabled (pub_config (svc_publication svc)) \<longrightarrow>
        (\<forall>cs. F \<subseteq> cs \<longrightarrow> (\<exists>cs'. cs \<subseteq> cs' \<and> F' \<subseteq> cs'
           \<and> publication_moves ext pf (view_publication svc, cs) (view_publication svc', cs'))))"

text \<open>The state behind the parts' views.\<close>

definition linked :: "externals \<Rightarrow> platform \<Rightarrow> service \<Rightarrow> completion set \<Rightarrow> bool" where
  "linked ext pf svc F \<longleftrightarrow> executor_reachable pf (view_executor svc)
   \<and> (publication_enabled (pub_config (svc_publication svc)) \<longrightarrow>
        (\<exists>cs. publication_reachable ext pf (view_publication svc, cs) \<and> F \<subseteq> cs))"

lemma linked_advances:
  assumes "linked ext pf svc F" "advances ext pf G svc svc' G'" "G \<subseteq> F"
  shows "linked ext pf svc' (F \<union> G')"
proof -
  have "\<exists>cs. publication_reachable ext pf (view_publication svc', cs) \<and> F \<union> G' \<subseteq> cs"
    if en: "publication_enabled (pub_config (svc_publication svc))"
  proof -
    obtain cs where cs: "publication_reachable ext pf (view_publication svc, cs)" "F \<subseteq> cs"
      using assms(1) en by (auto simp: linked_def)
    then obtain cs' where "cs \<subseteq> cs'" "G' \<subseteq> cs'" "publication_moves ext pf (view_publication svc, cs) (view_publication svc', cs')"
      using assms(2,3) en unfolding advances_def by blast
    then show ?thesis using cs publication_moves_reachable by blast
  qed
  then show ?thesis using assms(1,2) executor_moves_reachable by (auto simp: linked_def advances_def)
qed

text \<open>What the store of a run is.\<close>

lemma linked_store:
  assumes "linked ext pf svc F"
  shows "executor_inv pf (view_executor svc)" "store_inv pf (svc_store svc)"
    "publication_enabled (pub_config (svc_publication svc)) \<Longrightarrow> machine_ok pf (view_publication svc)"
proof -
  show inv: "executor_inv pf (view_executor svc)" using assms by (auto simp: linked_def intro: executor_reachable_inv)
  then show "store_inv pf (svc_store svc)" by (simp add: executor_inv_def)
  show "machine_ok pf (view_publication svc)" if "publication_enabled (pub_config (svc_publication svc))"
    using assms that publication_reachable_inv machine_ok_flights(1) by (fastforce simp: linked_def)
qed

section \<open>The kinds of actions\<close>

lemma advances_refl: "components svc' = components svc \<Longrightarrow> advances ext pf F svc svc' {}"
  using components_views [of svc' svc] by (auto simp: advances_def)

lemma advancesI:
  assumes "executor_moves pf (view_executor svc) (view_executor svc')"
    "pub_config (svc_publication svc') = pub_config (svc_publication svc)"
    "\<And>cs. publication_enabled (pub_config (svc_publication svc)) \<Longrightarrow> F \<subseteq> cs \<Longrightarrow>
       \<exists>cs'. cs \<subseteq> cs' \<and> F' \<subseteq> cs' \<and> publication_moves ext pf (view_publication svc, cs) (view_publication svc', cs')"
  shows "advances ext pf F svc svc' F'"
  using assms by (simp add: advances_def)

lemma advancesD:
  assumes "advances ext pf F svc svc' F'"
  shows "executor_moves pf (view_executor svc) (view_executor svc')"
    "pub_config (svc_publication svc') = pub_config (svc_publication svc)"
    "\<And>cs. publication_enabled (pub_config (svc_publication svc)) \<Longrightarrow> F \<subseteq> cs \<Longrightarrow>
       \<exists>cs'. cs \<subseteq> cs' \<and> F' \<subseteq> cs' \<and> publication_moves ext pf (view_publication svc, cs) (view_publication svc', cs')"
  using assms by (simp_all add: advances_def)

lemma advances_then_idle:
  assumes "advances ext pf F svc svc' F'" "components svc'' = components svc'"
  shows "advances ext pf F svc svc'' F'"
  using assms(1) components_views [OF assms(2)] by (simp add: advances_def)

lemma advances_log [simp]:
  "advances ext pf F svc svc' F' \<Longrightarrow> advances ext pf F svc (log_event env level name status fs svc') F'"
  by (erule advances_then_idle) simp

lemma advances_after_idle:
  assumes "advances ext pf F svc' svc'' F'" "components svc' = components svc"
  shows "advances ext pf F svc svc'' F'"
  using assms(1) components_views [OF assms(2)] by (simp add: advances_def)

lemma advances_executor:
  assumes "executor_moves pf (view_executor svc) ex" "exec_store ex = svc_store svc"
  shows "advances ext pf F svc (put_executor ex svc) {}"
proof -
  have "view_publication (put_executor ex svc) = view_publication svc" using assms(2) by (simp add: view_publication_def)
  then show ?thesis using assms(1) by (auto simp: advances_def)
qed

lemma view_same [simp]:
  "(view_executor svc)\<lparr>exec_store := svc_store svc\<rparr> = view_executor svc"
  "(view_publication svc)\<lparr>pub_store := svc_store svc\<rparr> = view_publication svc"
  by (simp_all add: view_executor_def view_publication_def)

lemma view_store [simp]:
  "view_executor (svc\<lparr>svc_store := st\<rparr>) = (view_executor svc)\<lparr>exec_store := st\<rparr>"
  "view_publication (svc\<lparr>svc_store := st\<rparr>) = (view_publication svc)\<lparr>pub_store := st\<rparr>"
  by (simp_all add: view_executor_def view_publication_def)

lemma client_stores:
  "store_step pf (svc_store svc) st \<Longrightarrow> executor_moves pf (view_executor svc) ((view_executor svc)\<lparr>exec_store := st\<rparr>)"
  using client_step.store [of pf "view_executor svc" st] by (intro client_move) simp

lemma advances_store:
  assumes "store_step pf (svc_store svc) st"
    "publication_enabled (pub_config (svc_publication svc)) \<Longrightarrow>
       st = svc_store svc \<or> (\<forall>cs. publication_step ext pf (view_publication svc, cs) ((view_publication svc)\<lparr>pub_store := st\<rparr>, cs))"
  shows "advances ext pf F svc (svc\<lparr>svc_store := st\<rparr>) {}"
proof (rule advancesI)
  fix cs
  assume "publication_enabled (pub_config (svc_publication svc))"
  from assms(2) [OF this] have "publication_moves ext pf (view_publication svc, cs) ((view_publication svc)\<lparr>pub_store := st\<rparr>, cs)"
    by (elim disjE) (simp_all add: r_into_rtranclp)
  then show "\<exists>cs'. cs \<subseteq> cs' \<and> {} \<subseteq> cs'
      \<and> publication_moves ext pf (view_publication svc, cs) (view_publication (svc\<lparr>svc_store := st\<rparr>), cs')"
    by (intro exI [of _ cs]) simp
qed (use client_stores [OF assms(1)] in simp_all)

lemma advances_publication:
  assumes "pub_config p = pub_config (svc_publication svc)"
    "pub_store p = svc_store svc \<or> store_step pf (svc_store svc) (pub_store p)"
    "publication_enabled (pub_config (svc_publication svc)) \<Longrightarrow>
       \<forall>cs. F \<subseteq> cs \<longrightarrow> publication_step ext pf (view_publication svc, cs) (p, cs)"
  shows "advances ext pf F svc (put_publication p svc) {}"
proof (rule advancesI)
  show "executor_moves pf (view_executor svc) (view_executor (put_publication p svc))"
    using assms(2) client_stores [of pf svc "pub_store p"] by (elim disjE) simp_all
  fix cs
  assume "publication_enabled (pub_config (svc_publication svc))" "F \<subseteq> cs"
  then have "publication_moves ext pf (view_publication svc, cs) (p, cs)" using assms(3) by (blast intro: r_into_rtranclp)
  then show "\<exists>cs'. cs \<subseteq> cs' \<and> {} \<subseteq> cs'
      \<and> publication_moves ext pf (view_publication svc, cs) (view_publication (put_publication p svc), cs')"
    by (intro exI [of _ cs]) simp
qed (use assms(1) in simp)

text \<open>A call takes a completion one phase further.\<close>

lemma advances_flight:
  assumes "\<And>cs. publication_enabled (pub_config (svc_publication svc)) \<Longrightarrow> F \<subseteq> cs \<Longrightarrow>
      \<exists>c. F' = {c} \<and> publication_step ext pf (view_publication svc, cs) (view_publication svc, insert c cs)"
  shows "advances ext pf F svc svc F'"
proof (rule advancesI)
  fix cs
  assume "publication_enabled (pub_config (svc_publication svc))" "F \<subseteq> cs"
  then obtain c where "F' = {c}" "publication_step ext pf (view_publication svc, cs) (view_publication svc, insert c cs)"
    using assms by blast
  then show "\<exists>cs'. cs \<subseteq> cs' \<and> F' \<subseteq> cs' \<and> publication_moves ext pf (view_publication svc, cs) (view_publication svc, cs')"
    by (intro exI [of _ "insert c cs"]) auto
qed simp_all

section \<open>Every action of a call\<close>

lemma cancel_moves:
  assumes "executor_inv pf ex" "t < length (promises ex)" "reason \<noteq> NoReason"
    "executor_cancel (Some t) reason now later ex = Inr ex'"
  shows "executor_moves pf ex ex' \<and> exec_store ex' = exec_store ex"
proof -
  let ?ey = "request_stop t reason ex"
  have req: "client_step pf ex ?ey" using assms(3) by (rule client_step.request)
  have s: "settled {#} ?ey" and len: "length (reasons ex) = length (promises ex)"
    using assms(1) by (simp_all add: executor_inv_def settled_def located_def)
  have "reasons ?ey ! t \<noteq> NoReason" using assms(2,3) len by (intro request_stop_sets) simp_all
  moreover have rem: "remove_waiting t now later ?ey = Inr ex'" using assms(3,4) by (simp add: executor_cancel_def)
  ultimately have "client_step pf ?ey ex'" by (rule client_step.remove)
  moreover have "exec_store ex' = exec_store ex"
    using rem by (cases rule: remove_waiting_cases [OF s, where t = t and now = now and later = later]) auto
  ultimately show ?thesis using rtranclp_trans [OF client_move [OF req] client_move] by blast
qed

lemma submit_moves:
  "executor_moves pf ex (fst (executor_submit query k until expected now ex))"
  "exec_store (fst (executor_submit query k until expected now ex)) = exec_store ex"
  by (rule client_move, rule client_step.submit) (simp add: executor_submit_def Let_def)

lemma publication_parts [simp]:
  "pub_config (fst (publication_begin ext m g now p)) = pub_config p"
  "pub_store (fst (publication_begin ext m g now p)) = pub_store p"
  "pub_config (fst (complete_install token m g snap now p)) = pub_config p"
  "pub_store (fst (complete_install token m g snap now p)) = pub_store p"
  "pub_config (publication_fail token now p) = pub_config p" "pub_store (publication_fail token now p) = pub_store p"
  "pub_config (publication_rejected m g p) = pub_config p" "pub_store (publication_rejected m g p) = pub_store p"
  "pub_config (fst (publication_activate sid g now later p)) = pub_config p"
  by (auto simp: publication_begin_def complete_install_def publication_fail_def publication_rejected_def
      publication_activate_def activation_reject_def Let_def split: sum.splits option.splits)

lemma activate_store:
  assumes "publication_enabled (pub_config p) \<Longrightarrow> machine_ok pf p"
  shows "pub_store (fst (publication_activate sid g now later p)) = pub_store p
    \<or> store_step pf (pub_store p) (pub_store (fst (publication_activate sid g now later p)))"
proof (cases "publication_enabled (pub_config p)")
  case True
  note ok = assms [OF True]
  from ok show ?thesis
  proof (cases rule: activate_cases [where sid = sid and g = g and start = now and now = later])
    case (switch c s)
    then have "prepared_for pf p c" using ok by (simp add: machine_ok_def)
    then obtain ix where "snap_index c = Some ix" "index_ok pf ix" "snap_version c \<noteq> 0" by (auto simp: prepared_for_def)
    then have "store_step pf (pub_store p) s" using switch(5) by (rule store_step.activate)
    then show ?thesis using switch by simp
  qed (simp_all add: activation_reject_def)
qed (simp add: publication_activate_def)

lemma no_flight [simp]:
  "flight (rpc_fails call e) = {}" "flight (read_size call answer svc) = {}" "flight (answer_search env call outcome) = {}"
  "flight (stats_report call st observed svc) = {}"
  by (simp_all add: rpc_fails_def read_size_def answer_search_def stats_report_def split: sum.split option.split)

lemma advances_on_publication:
  assumes "\<And>p. pub_config (f p) = pub_config p" "\<And>p. pub_store (f p) = pub_store p"
    "\<And>p cs. publication_step ext pf (p, cs) (f p, cs)"
  shows "advances ext pf F svc (on_publication f svc) {}"
  unfolding on_publication_def by (rule advances_publication) (simp_all add: assms)

lemma advances_fail [simp]: "advances ext pf F svc (on_publication (publication_fail token now) svc) {}"
  by (rule advances_on_publication) (simp_all add: publication_step.fail)

lemma advances_rejected [simp]: "advances ext pf F svc (on_publication (publication_rejected m g) svc) {}"
  by (rule advances_on_publication) (simp_all add: publication_step.reject)

lemma poll_advances:
  assumes "linked ext pf svc F" "asked pf start query k expected t (view_executor svc)"
    "poll_search env call query k expected t svc = (svc', ph)"
  shows "advances ext pf G svc svc' {} \<and> flight ph = {}"
proof -
  have inv: "executor_inv pf (view_executor svc)" by (rule linked_store [OF assms(1)])
  have t: "t < length (promises (view_executor svc))" using assms(2) by (simp add: asked_def)
  have "advances ext pf G svc (put_executor ex svc) {}"
    if "executor_cancel (Some t) reason now later (view_executor svc) = Inr ex" "reason \<noteq> NoReason" for reason now later ex
    using cancel_moves [OF inv t that(2,1)] by (intro advances_executor) simp_all
  then show ?thesis
    using assms(3) by (auto simp: poll_search_def advances_refl split: option.splits if_splits sum.splits)
qed

lemma receive_advances:
  assumes "receive_frame env stored shut frame prep received svc = (svc', ph)"
  shows "advances ext pf F svc svc' {} \<and> flight ph = {}"
  using assms
  by (auto simp: receive_frame_def prepare_cancelled_def advances_refl split: option.splits if_splits)

lemma failure_advances:
  assumes "prepare_failure env prep e svc = (svc', ph)"
  shows "advances ext pf F svc svc' {} \<and> flight ph = {}"
  using assms
  by (auto simp: prepare_failure_def advances_refl)

lemma install_advances:
  assumes "prepare_install env prep m g snap svc = (svc', ph)"
  shows "advances ext pf (flight (Rpc_installing prep m g snap)) svc svc' {} \<and> flight ph = {}"
proof -
  let ?p = "fst (complete_install (prep_token prep) m g snap (rpc_now env) (view_publication svc))"
  have "\<forall>cs. flight (Rpc_installing prep m g snap) \<subseteq> cs \<longrightarrow> publication_step ext pf (view_publication svc, cs) (?p, cs)"
    using publication_step.install [where c = "\<lparr>c_token = prep_token prep, c_manifest = m, c_generation = g,
        c_prepared = Some snap\<rparr>" and snap = snap] by simp
  then have "advances ext pf (flight (Rpc_installing prep m g snap)) svc (put_publication ?p svc) {}"
    by (intro advances_publication) simp_all
  then show ?thesis
    using assms by (auto simp: prepare_install_def split: prod.splits sum.splits)
qed

lemma read_advances:
  "advances ext pf F svc svc (flight (prepare_read prep received svc))"
proof (cases "complete_read (prep_token prep) (view_publication svc)")
  case (Inr mg)
  then show ?thesis
    by (intro advances_flight) (auto simp: prepare_read_def split: prod.splits intro!: publication_step.read)
qed (simp add: prepare_read_def advances_refl)

lemma load_advances:
  assumes "unat (manifest_dimension m) < score_dimension (publication_kernel (pub_config (svc_publication svc)))"
  shows "advances ext pf (flight (Rpc_loaded prep received m g)) svc svc (flight (prepare_load ext pf path prep received m g svc))"
proof (cases "complete_prepare ext pf path (Some received) m g (view_publication svc)")
  case (Inr snap)
  let ?c = "\<lparr>c_token = prep_token prep, c_manifest = m, c_generation = g, c_prepared = None\<rparr>"
  have "publication_step ext pf (view_publication svc, cs) (view_publication svc, insert (?c\<lparr>c_prepared := Some snap\<rparr>) cs)"
    if "?c \<in> cs" for cs
    using that Inr assms by (intro publication_step.prepare) simp_all
  then show ?thesis by (intro advances_flight) (simp add: prepare_load_def Inr)
qed (simp add: prepare_load_def advances_refl)

lemma report_advances:
  "prepare_report env prep svc = (svc', ph) \<Longrightarrow> advances ext pf F svc svc' {} \<and> flight ph = {}"
  "activate_report env call g svc = (svc', ph) \<Longrightarrow> advances ext pf F svc svc' {} \<and> flight ph = {}"
  by (auto simp: prepare_report_def activate_report_def advances_refl split: sum.splits prod.splits)

text \<open>A call that is under way; \<open>answering\<close>: a search waits for the future of its own query.\<close>

fun answering :: "platform \<Rightarrow> executor \<Rightarrow> rpc_phase \<Rightarrow> bool" where
  "answering pf ex (Rpc_searching call query k expected t) = (\<exists>start. asked pf start query k expected t ex)"
| "answering pf ex ph = True"

lemma rpc_step_advances:
  assumes "rpc_step ext pf svc ph svc' ph'" "linked ext pf svc F" "answering pf (view_executor svc) ph"
  shows "advances ext pf (flight ph) svc svc' (flight ph')"
  using assms
proof (induction rule: rpc_step.induct)
  case (searching env call query k expected t svc svc' ph)
  then obtain start where "asked pf start query k expected t (view_executor svc)" by auto
  from poll_advances [OF searching(2) this searching(1)] show ?case by simp
next
  case (receiving env stored shut frame prep received svc svc' ph)
  then show ?case using receive_advances by fastforce
next
  case (reading svc prep received)
  show ?case by (rule read_advances)
next
  case (loading m svc prep received g path)
  then show ?case by (intro load_advances)
next
  case (installing env prep m g snap svc svc' ph)
  then show ?case using install_advances by fastforce
next
  case (prepared env prep svc svc' ph)
  then show ?case using report_advances(1) by fastforce
next
  case (failing env prep e svc svc' ph)
  then show ?case using failure_advances by fastforce
next
  case (activated env call g svc svc' ph)
  then show ?case using report_advances(2) by fastforce
qed (simp_all add: advances_refl)

lemma begin_components [simp]:
  "components (svc\<lparr>next_request_id := n\<rparr>) = components svc"
  by (simp add: components_def)

lemma read_only_enabled:
  "linked ext pf svc F \<Longrightarrow> publication_enabled (pub_config (svc_publication svc)) \<Longrightarrow> read_only (svc_store svc)"
  using linked_store(3) [of ext pf svc F] by (simp add: machine_ok_def)

text \<open>The calls that start.\<close>

lemma begin_rpc_parts:
  "begin_rpc env name svc = (svc\<lparr>next_request_id := next_request_id svc + 1\<rparr>,
     \<lparr>call_id = next_request_id svc, call_started = rpc_now env, call_method = name\<rparr>)"
  by (simp add: begin_rpc_def)

lemma start_store_advances:
  assumes "linked ext pf svc F" "components svc' = components svc" "store_step pf (svc_store svc) st"
    "read_only (svc_store svc) \<longrightarrow> st = svc_store svc"
  shows "advances ext pf G svc (svc'\<lparr>svc_store := st\<rparr>) {}"
proof -
  note same = components_views [OF assms(2)]
  have "advances ext pf G svc' (svc'\<lparr>svc_store := st\<rparr>) {}"
    using assms(3,4) read_only_enabled [OF assms(1)] same by (intro advances_store) auto
  then show ?thesis using assms(2) by (rule advances_after_idle)
qed

lemma start_add_advances:
  assumes "linked ext pf svc F" "start_add_vector pf fault env vid v svc = (svc', ph)"
  shows "advances ext pf {} svc svc' {} \<and> flight ph = {}"
proof -
  let ?svc = "svc\<lparr>next_request_id := next_request_id svc + 1\<rparr>"
  have "advances ext pf {} svc (?svc\<lparr>svc_store := fst (store_add pf fault vid v (svc_store svc))\<rparr>) {}"
    by (rule start_store_advances [OF assms(1) _ store_step.add]) (simp_all add: store_add_def)
  then show ?thesis
    using assms(2) by (auto simp: start_add_vector_def begin_rpc_parts advances_refl split: if_splits prod.splits sum.splits)
qed

lemma start_batch_advances:
  assumes "linked ext pf svc F" "start_batch_add pf faults env vectors svc = (svc', ph)"
  shows "advances ext pf {} svc svc' {} \<and> flight ph = {}"
proof -
  let ?svc = "svc\<lparr>next_request_id := next_request_id svc + 1\<rparr>"
  have "advances ext pf {} svc (?svc\<lparr>svc_store := fst (store_add_batch pf faults vectors (svc_store svc))\<rparr>) {}"
    by (rule start_store_advances [OF assms(1) _ store_step.add_batch]) (simp_all add: store_add_batch_def)
  then show ?thesis
    using assms(2) by (auto simp: start_batch_add_def begin_rpc_parts advances_refl split: if_splits prod.splits sum.splits)
qed

lemma start_search_advances:
  assumes "start_search env query k expected svc = (svc', ph)"
  shows "advances ext pf {} svc svc' {} \<and> flight ph = {}"
proof -
  let ?svc = "svc\<lparr>next_request_id := next_request_id svc + 1\<rparr>"
  have "advances ext pf {} svc (put_executor ex ?svc) {}"
    if "executor_submit query k until expected now (view_executor ?svc) = (ex, r)" for until now ex r
  proof -
    have "advances ext pf {} ?svc (put_executor (fst (executor_submit query k until expected now (view_executor ?svc))) ?svc) {}"
      by (rule advances_executor) (simp_all only: submit_moves view_fields)
    then have "advances ext pf {} ?svc (put_executor ex ?svc) {}" by (simp add: that)
    then show ?thesis by (rule advances_after_idle) simp
  qed
  then show ?thesis
    using assms
    by (auto simp: start_search_def begin_rpc_parts advances_refl split: if_splits prod.splits sum.splits option.splits)
qed

lemma start_prepare_advances:
  assumes "start_prepare ext env first staging svc = (svc', ph)"
  shows "advances ext pf {} svc svc' {} \<and> flight ph = {}"
proof -
  let ?svc = "svc\<lparr>next_request_id := next_request_id svc + 1\<rparr>"
  have "advances ext pf {} svc (put_publication p ?svc) {}"
    if "publication_begin ext m g now (view_publication ?svc) = (p, r)" for m g now p r
  proof -
    have "advances ext pf {} ?svc (put_publication (fst (publication_begin ext m g now (view_publication ?svc))) ?svc) {}"
      by (rule advances_publication) (simp_all add: publication_step.admit)
    then have "advances ext pf {} ?svc (put_publication p ?svc) {}" by (simp add: that)
    then show ?thesis by (rule advances_after_idle) simp
  qed
  then show ?thesis
    using assms
    by (auto simp: start_prepare_def begin_rpc_parts advances_refl Let_def split: if_splits prod.splits sum.splits option.splits)
qed

lemma start_activate_advances:
  assumes "linked ext pf svc F" "start_activate env sid g svc = (svc', ph)"
  shows "advances ext pf {} svc svc' {} \<and> flight ph = {}"
proof -
  let ?svc = "svc\<lparr>next_request_id := next_request_id svc + 1\<rparr>"
  let ?p = "fst (publication_activate sid g (rpc_now env) (later_now env) (view_publication ?svc))"
  have same: "view_publication ?svc = view_publication svc" by (rule components_views) simp
  have "pub_store ?p = svc_store ?svc \<or> store_step pf (svc_store ?svc) (pub_store ?p)"
    using activate_store [of "view_publication ?svc" pf] linked_store(3) [OF assms(1)] by (simp add: same)
  then have "advances ext pf {} ?svc (put_publication ?p ?svc) {}"
    by (intro advances_publication) (simp_all add: publication_step.activate)
  then have "advances ext pf {} svc (put_publication ?p ?svc) {}" by (rule advances_after_idle) simp
  then show ?thesis
    using assms(2)
    by (auto simp: start_activate_def begin_rpc_parts advances_refl split: if_splits prod.splits sum.splits)
qed

lemma rpc_start_advances:
  assumes "rpc_start ext pf svc svc' ph" "linked ext pf svc F"
  shows "advances ext pf {} svc svc' (flight ph)"
  using assms
proof (induction rule: rpc_start.induct)
  case (get_stats env svc svc' ph)
  then show ?case
    by (auto simp: start_get_stats_def begin_rpc_parts advances_refl split: if_splits prod.splits sum.splits)
qed (use start_add_advances start_batch_advances start_search_advances start_prepare_advances start_activate_advances
     in fastforce)+

section \<open>The bookkeeping of the calls\<close>

fun phase_call :: "rpc_phase \<Rightarrow> rpc_call" where
  "phase_call (Rpc_adding call) = call"
| "phase_call (Rpc_batch_adding call n) = call"
| "phase_call (Rpc_searching call query k expected t) = call"
| "phase_call (Rpc_receiving prep received) = prep_call prep"
| "phase_call (Rpc_loading prep received) = prep_call prep"
| "phase_call (Rpc_loaded prep received m g) = prep_call prep"
| "phase_call (Rpc_installing prep m g snap) = prep_call prep"
| "phase_call (Rpc_prepared prep) = prep_call prep"
| "phase_call (Rpc_prepare_failed prep e) = prep_call prep"
| "phase_call (Rpc_activated call g) = call"
| "phase_call (Rpc_reporting call st observed) = call"
| "phase_call (Rpc_finishing call status answer) = call"
| "phase_call (Rpc_replied call status answer) = call"

text \<open>The counter a finished call went to.\<close>

fun replied :: "rpc_phase \<Rightarrow> nat option" where
  "replied (Rpc_replied call status answer) = Some (counted_code status)"
| "replied ph = None"

text \<open>A call answers exactly when its status is OK.\<close>

fun replies_ok :: "rpc_phase \<Rightarrow> bool" where
  "replies_ok (Rpc_finishing call status answer) \<longleftrightarrow> (status_code status = grpc_ok \<longleftrightarrow> answer \<noteq> No_reply)"
| "replies_ok (Rpc_replied call status answer) \<longleftrightarrow> (status_code status = grpc_ok \<longleftrightarrow> answer \<noteq> No_reply)"
| "replies_ok ph \<longleftrightarrow> True"

lemmas grpc_codes = grpc_ok_def grpc_cancelled_def grpc_unknown_def grpc_invalid_argument_def
  grpc_deadline_exceeded_def grpc_resource_exhausted_def grpc_failed_precondition_def grpc_internal_def
  grpc_unavailable_def

lemma error_statuses [simp]:
  "status_code (exception_status e) \<noteq> grpc_ok" "status_code (cancelled_status env) \<noteq> grpc_ok"
  "status_code (preparation_status prep e) \<noteq> grpc_ok" "status_code ok_status = grpc_ok"
proof -
  show *: "status_code (exception_status e) \<noteq> grpc_ok" for e
    by (cases e rule: exception_status.cases) (simp_all add: grpc_codes)
  show "status_code (cancelled_status env) \<noteq> grpc_ok" by (simp add: cancelled_status_def grpc_codes)
  show "status_code (preparation_status prep e) \<noteq> grpc_ok" using * by (simp add: preparation_status_def) (simp add: grpc_codes)
  show "status_code ok_status = grpc_ok" by (simp add: ok_status_def)
qed

lemma counted_code_less [simp]: "counted_code status < 17"
  by (simp add: counted_code_def grpc_unknown_def)

lemma finish_counters:
  "next_request_id (finish_rpc env call status svc) = next_request_id svc"
  "status_counts (finish_rpc env call status svc)
     = (status_counts svc)[counted_code status := status_counts svc ! counted_code status + 1]"
  by (simp_all add: finish_rpc_def Let_def log_to_def)

lemma phase_parts [simp]:
  "phase_call (rpc_fails call e) = call" "replied (rpc_fails call e) = None" "replies_ok (rpc_fails call e)"
  "answering pf ex (rpc_fails call e)"
  by (simp_all add: rpc_fails_def)

lemma read_size_parts [simp]:
  "phase_call (read_size call f svc) = call" "replied (read_size call f svc) = None"
  "answering pf ex (read_size call f svc)" "(\<And>n. f n \<noteq> No_reply) \<Longrightarrow> replies_ok (read_size call f svc)"
  by (simp_all add: read_size_def split: sum.split)

lemma answer_search_parts [simp]:
  "phase_call (answer_search env call outcome) = call" "replied (answer_search env call outcome) = None"
  "answering pf ex (answer_search env call outcome)" "replies_ok (answer_search env call outcome)"
  by (simp_all add: answer_search_def split: option.split)

text \<open>What one action of a call leaves true of it.\<close>

definition carries_on :: "service \<Rightarrow> rpc_phase \<Rightarrow> service \<Rightarrow> rpc_phase \<Rightarrow> bool" where
  "carries_on svc ph svc' ph' \<longleftrightarrow>
     phase_call ph' = phase_call ph \<and> replies_ok ph'
   \<and> (\<forall>pf ex. answering pf ex ph \<longrightarrow> answering pf ex ph')
   \<and> counters svc' = counters svc \<and> replied ph = None \<and> replied ph' = None"

lemma handlers_carry_on:
  "poll_search env call query k expected t svc = (svc', ph) \<Longrightarrow> carries_on svc (Rpc_searching call query k expected t) svc' ph"
  "receive_frame env stored shut frame prep received svc = (svc', ph) \<Longrightarrow> carries_on svc (Rpc_receiving prep received) svc' ph"
  "prepare_install env prep m g snap svc = (svc', ph) \<Longrightarrow> carries_on svc (Rpc_installing prep m g snap) svc' ph"
  "prepare_report env prep svc = (svc', ph) \<Longrightarrow> carries_on svc (Rpc_prepared prep) svc' ph"
  "prepare_failure env prep e svc = (svc', ph) \<Longrightarrow> carries_on svc (Rpc_prepare_failed prep e) svc' ph"
  "activate_report env call g svc = (svc', ph) \<Longrightarrow> carries_on svc (Rpc_activated call g) svc' ph"
  by (auto simp: carries_on_def poll_search_def receive_frame_def prepare_cancelled_def prepare_install_def
      prepare_report_def prepare_failure_def activate_report_def split: option.splits if_splits sum.splits prod.splits)

lemma values_carry_on:
  "carries_on svc (Rpc_adding call) svc (read_size call Added svc)"
  "carries_on svc (Rpc_batch_adding call n) svc (read_size call (Batch_added (of_nat n)) svc)"
  "carries_on svc (Rpc_loading prep received) svc (prepare_read prep received svc)"
  "carries_on svc (Rpc_loaded prep received m g) svc (prepare_load ext pf path prep received m g svc)"
  "carries_on svc (Rpc_reporting call st observed) svc (stats_report call st observed svc)"
  by (simp_all add: carries_on_def prepare_read_def prepare_load_def stats_report_def split: sum.split prod.split)

lemma rpc_step_carries_on:
  "rpc_step ext pf svc ph svc' ph' \<Longrightarrow> carries_on svc ph svc' ph'
     \<or> (\<exists>env call status answer. ph = Rpc_finishing call status answer \<and> ph' = Rpc_replied call status answer
          \<and> svc' = finish_rpc env call status svc)"
  by (induction rule: rpc_step.induct) (blast intro: handlers_carry_on values_carry_on)+

definition sets_out :: "service \<Rightarrow> service \<Rightarrow> rpc_phase \<Rightarrow> bool" where
  "sets_out svc svc' ph \<longleftrightarrow>
     next_request_id svc' = next_request_id svc + 1 \<and> status_counts svc' = status_counts svc
   \<and> call_id (phase_call ph) = next_request_id svc \<and> replied ph = None \<and> replies_ok ph"

lemma put_counters [simp]:
  "next_request_id (put_executor ex svc) = next_request_id svc" "status_counts (put_executor ex svc) = status_counts svc"
  "next_request_id (put_publication p svc) = next_request_id svc" "status_counts (put_publication p svc) = status_counts svc"
  "next_request_id (log_event env level name status fs svc) = next_request_id svc"
  "status_counts (log_event env level name status fs svc) = status_counts svc"
  by (simp_all add: put_executor_def put_publication_def log_event_def log_to_def)

lemma late_status [simp]: "grpc_deadline_exceeded \<noteq> grpc_ok"
  by (simp add: grpc_codes)

lemma add_vector_sets_out: "start_add_vector pf fault env vid v svc = (svc', ph) \<Longrightarrow> sets_out svc svc' ph"
  by (auto simp: sets_out_def start_add_vector_def begin_rpc_parts Let_def split: if_splits prod.splits sum.splits option.splits)

lemma batch_add_sets_out: "start_batch_add pf faults env vectors svc = (svc', ph) \<Longrightarrow> sets_out svc svc' ph"
  by (auto simp: sets_out_def start_batch_add_def begin_rpc_parts Let_def split: if_splits prod.splits sum.splits option.splits)

lemma search_sets_out: "start_search env query k expected svc = (svc', ph) \<Longrightarrow> sets_out svc svc' ph"
  by (auto simp: sets_out_def start_search_def begin_rpc_parts Let_def split: if_splits prod.splits sum.splits option.splits)

lemma prepare_sets_out: "start_prepare ext env first staging svc = (svc', ph) \<Longrightarrow> sets_out svc svc' ph"
  by (auto simp: sets_out_def start_prepare_def begin_rpc_parts Let_def split: if_splits prod.splits sum.splits option.splits)

lemma activate_sets_out: "start_activate env sid g svc = (svc', ph) \<Longrightarrow> sets_out svc svc' ph"
  by (auto simp: sets_out_def start_activate_def begin_rpc_parts Let_def split: if_splits prod.splits sum.splits option.splits)

lemma get_stats_sets_out: "start_get_stats env svc = (svc', ph) \<Longrightarrow> sets_out svc svc' ph"
  by (auto simp: sets_out_def start_get_stats_def begin_rpc_parts Let_def split: if_splits prod.splits sum.splits option.splits)

lemmas starts_set_out = add_vector_sets_out batch_add_sets_out search_sets_out prepare_sets_out activate_sets_out get_stats_sets_out

lemma rpc_start_sets_out: "rpc_start ext pf svc svc' ph \<Longrightarrow> sets_out svc svc' ph"
  by (induction rule: rpc_start.induct) (blast intro: starts_set_out)+

lemma start_search_asked:
  assumes "start_search env query k expected svc = (svc', Rpc_searching call query' k' expected' t)" "linked ext pf svc F"
  shows "query' = query \<and> k' = k \<and> expected' = expected \<and> asked pf (svc_store svc) query k expected t (view_executor svc')"
proof -
  let ?svc = "svc\<lparr>next_request_id := next_request_id svc + 1\<rparr>"
  have "view_executor ?svc = view_executor svc" by (rule components_views) simp
  then have "asked pf (svc_store svc) query k expected t ex" if "executor_submit query k until expected now (view_executor ?svc) = (ex, Inr t)"
    for until now ex
    using asked_submitted [OF linked_store(1) [OF assms(2)]] that by fastforce
  then show ?thesis
    using assms(1)
    by (auto simp: start_search_def begin_rpc_parts rpc_fails_def split: if_splits prod.splits sum.splits option.splits)
qed

lemma not_searching [simp]:
  "rpc_fails call e \<noteq> Rpc_searching call' query k expected t" "read_size call answer svc \<noteq> Rpc_searching call' query k expected t"
  by (simp_all add: rpc_fails_def read_size_def split: sum.split)

lemma only_search_searches:
  assumes "rpc_start ext pf svc svc' (Rpc_searching call query k expected t)"
  shows "\<exists>env. start_search env query k expected svc = (svc', Rpc_searching call query k expected t)"
  using assms
proof (cases rule: rpc_start.cases)
  case (search env query' k' expected')
  then show ?thesis
    by (auto simp: start_search_def begin_rpc_parts rpc_fails_def split: if_splits prod.splits sum.splits option.splits)
next
  case (prepare env first staging)
  then show ?thesis
    by (auto simp: start_prepare_def begin_rpc_parts Let_def split: if_splits prod.splits sum.splits option.splits)
qed (auto simp: start_add_vector_def start_batch_add_def start_activate_def start_get_stats_def
     begin_rpc_parts rpc_fails_def split: if_splits prod.splits sum.splits option.splits)

lemma rpc_start_answering:
  assumes "rpc_start ext pf svc svc' ph" "linked ext pf svc F"
  shows "answering pf (view_executor svc') ph"
proof (cases ph)
  case (Rpc_searching call query k expected t)
  then show ?thesis using only_search_searches assms start_search_asked by (metis answering.simps(1))
qed simp_all

end
