(* ===== verification/Vector_Search_Service_Theorems.thy ===== *)
theory Vector_Search_Service_Theorems
  imports Vector_Search_Service_Runs
begin

text \<open>
  The properties of the service: every run of the calls, the workers and the server is a run of
  the executor and of the publication on the one store they share; the answer of a search call is
  the store's answer to its own query; request identifiers and status counters account for
  every call.
\<close>

section \<open>Every reachable state\<close>

definition tally :: "service \<Rightarrow> rpc_phase list \<Rightarrow> bool" where
  "tally svc ts \<longleftrightarrow>
     next_request_id svc = of_nat (length ts) + 1 \<and> length (status_counts svc) = 17
   \<and> (\<forall>i < length ts. call_id (phase_call (ts ! i)) = of_nat i + 1)
   \<and> (\<forall>code < 17. status_counts svc ! code = of_nat (count (mset (map replied ts)) (Some code)))
   \<and> (\<forall>ph\<in>set ts. replies_ok ph)"

definition service_inv :: "externals \<Rightarrow> platform \<Rightarrow> service \<Rightarrow> rpc_phase list \<Rightarrow> bool" where
  "service_inv ext pf svc ts \<longleftrightarrow> linked ext pf svc (\<Union>ph\<in>set ts. flight ph)
     \<and> (\<forall>ph\<in>set ts. answering pf (view_executor svc) ph) \<and> tally svc ts"

lemma count_replied_update:
  assumes "i < length ts" "replied (ts ! i) = None"
  shows "count (mset (map replied (ts[i := ph]))) (Some code)
    = count (mset (map replied ts)) (Some code) + (if replied ph = Some code then 1 else 0)"
  using assms by (simp add: map_update mset_update del: mset_map)

lemma tally_start:
  assumes "tally svc ts" "sets_out svc svc' ph"
  shows "tally svc' (ts @ [ph])"
  using assms by (auto simp: tally_def sets_out_def nth_append less_Suc_eq)

lemma tally_carry:
  assumes "tally svc ts" "i < length ts" "carries_on svc (ts ! i) svc' ph"
  shows "tally svc' (ts[i := ph])"
  using assms count_replied_update [OF assms(2), of ph]
  by (auto simp: tally_def carries_on_def counters_def nth_list_update simp del: mset_map dest: set_update_subset_insert [THEN subsetD])

lemma tally_finish:
  assumes "tally svc ts" "i < length ts" "ts ! i = Rpc_finishing call status answer"
  shows "tally (finish_rpc env call status svc) (ts[i := Rpc_replied call status answer])"
proof -
  have "replies_ok (ts ! i)" using assms(1,2) by (simp add: tally_def)
  then have ok: "replies_ok (Rpc_replied call status answer)" using assms(3) by simp
  have none: "replied (ts ! i) = None" using assms(3) by simp
  have id: "call_id call = of_nat i + 1" using assms by (auto simp: tally_def)
  show ?thesis
    using assms ok id count_replied_update [OF assms(2) none, of "Rpc_replied call status answer"]
    by (auto simp: tally_def finish_counters nth_list_update simp del: mset_map dest: set_update_subset_insert [THEN subsetD])
qed

lemma flights_update:
  "i < length ts \<Longrightarrow> (\<Union>ph\<in>set (ts[i := ph']). flight ph) \<subseteq> (\<Union>ph\<in>set ts. flight ph) \<union> flight ph'"
  using set_update_subset_insert [of ts i ph'] by blast

lemma linked_mono: "linked ext pf svc F \<Longrightarrow> G \<subseteq> F \<Longrightarrow> linked ext pf svc G"
  by (auto simp: linked_def)

lemma answering_moves:
  assumes "executor_moves pf ex ex'" "executor_reachable pf ex" "answering pf ex ph"
  shows "answering pf ex' ph"
  using assms(3) executor_moves_asked [OF assms(1,2)] by (cases ph) (simp_all, blast)

lemma advances_answering:
  assumes "advances ext pf G svc svc' G'" "linked ext pf svc F" "answering pf (view_executor svc) ph"
  shows "answering pf (view_executor svc') ph"
  using answering_moves [OF advancesD(1) [OF assms(1)]] assms(2,3) by (simp add: linked_def)

lemma start_inv:
  assumes "rpc_start ext pf svc svc' ph" "service_inv ext pf svc ts"
  shows "service_inv ext pf svc' (ts @ [ph])"
proof -
  have lk: "linked ext pf svc (\<Union>ph\<in>set ts. flight ph)" using assms(2) by (simp add: service_inv_def)
  note adv = rpc_start_advances [OF assms(1) lk]
  have "linked ext pf svc' (\<Union>ph\<in>set (ts @ [ph]). flight ph)"
    by (rule linked_mono [OF linked_advances [OF lk adv]]) auto
  moreover have "answering pf (view_executor svc') ph" by (rule rpc_start_answering [OF assms(1) lk])
  ultimately show ?thesis
    using assms(2) advances_answering [OF adv lk] tally_start [OF _ rpc_start_sets_out [OF assms(1)]]
    by (auto simp: service_inv_def)
qed

lemma call_inv:
  assumes "i < length ts" "rpc_step ext pf svc (ts ! i) svc' ph" "service_inv ext pf svc ts"
  shows "service_inv ext pf svc' (ts[i := ph])"
proof -
  have lk: "linked ext pf svc (\<Union>ph\<in>set ts. flight ph)" using assms(3) by (simp add: service_inv_def)
  have ans: "answering pf (view_executor svc) (ts ! i)" using assms(1,3) by (simp add: service_inv_def)
  note adv = rpc_step_advances [OF assms(2) lk ans]
  have "flight (ts ! i) \<subseteq> (\<Union>ph\<in>set ts. flight ph)" using nth_mem [OF assms(1)] by blast
  then have lk': "linked ext pf svc' (\<Union>ph\<in>set (ts[i := ph]). flight ph)"
    using linked_mono [OF linked_advances [OF lk adv] flights_update [OF assms(1)]] by blast
  consider "carries_on svc (ts ! i) svc' ph"
    | env call status answer where "ts ! i = Rpc_finishing call status answer" "ph = Rpc_replied call status answer"
      "svc' = finish_rpc env call status svc"
    using rpc_step_carries_on [OF assms(2)] by blast
  then have "tally svc' (ts[i := ph]) \<and> (\<forall>ex. answering pf ex (ts ! i) \<longrightarrow> answering pf ex ph)"
  proof cases
    case 1
    then show ?thesis using tally_carry [OF _ assms(1) 1] assms(3) by (simp add: service_inv_def carries_on_def)
  next
    case 2
    then show ?thesis using tally_finish [OF _ assms(1) 2(1)] assms(3) by (simp add: service_inv_def)
  qed
  moreover have "\<forall>ph\<in>set ts. answering pf (view_executor svc') ph"
    using advances_answering [OF adv lk] assms(3) by (simp add: service_inv_def)
  moreover have "answering pf (view_executor svc') (ts ! i)" using advances_answering [OF adv lk ans] .
  ultimately show ?thesis
    using lk' by (auto simp: service_inv_def dest: set_update_subset_insert [THEN subsetD])
qed

text \<open>What the workers and the server do.\<close>

lemma background_inv:
  assumes "advances ext pf {} svc svc' {}" "counters svc' = counters svc" "service_inv ext pf svc ts"
  shows "service_inv ext pf svc' ts"
proof -
  have lk: "linked ext pf svc (\<Union>ph\<in>set ts. flight ph)" using assms(3) by (simp add: service_inv_def)
  have "linked ext pf svc' (\<Union>ph\<in>set ts. flight ph)" using linked_advances [OF lk assms(1)] by simp
  moreover have "tally svc' ts" using assms(2,3) by (simp add: service_inv_def tally_def counters_def)
  ultimately show ?thesis using advances_answering [OF assms(1) lk] assms(3) by (simp add: service_inv_def)
qed

lemma worker_step_store:
  "worker_step pf ex ex' \<Longrightarrow> exec_store ex' = exec_store ex
     \<or> (\<exists>query k ctx e. exec_store ex' = fst (store_search pf query k ctx e (exec_store ex)))"
proof (induction rule: worker_step.induct)
  case (take i ex ex')
  from take(3) show ?case by (rule worker_take_cases) (auto simp: dequeued_def Let_def)
next
  case (check i ex task now later)
  show ?case by (simp add: worker_check_def Let_def split: sum.split)
next
  case (search i ex task begun waited e now)
  show ?case unfolding worker_search_store by blast
next
  case (finish i ex task outcome ex')
  then show ?case by (auto simp: worker_finish_def finish_locked_def result_simps split: if_splits)
qed (simp add: worker_start_def)

lemma worker_advances:
  assumes "worker_step pf (view_executor svc) ex"
  shows "advances ext pf {} svc (put_executor ex svc) {}"
proof (rule advancesI)
  show "executor_moves pf (view_executor svc) (view_executor (put_executor ex svc))" using worker_move [OF assms] by simp
  fix cs
  have "publication_moves ext pf (view_publication svc, cs) ((view_publication svc)\<lparr>pub_store := exec_store ex\<rparr>, cs)"
    using worker_step_store [OF assms]
    by (elim disjE exE) (simp_all add: r_into_rtranclp publication_step.search [of ext pf "view_publication svc", simplified])
  then show "\<exists>cs'. cs \<subseteq> cs' \<and> {} \<subseteq> cs'
      \<and> publication_moves ext pf (view_publication svc, cs) (view_publication (put_executor ex svc), cs')"
    by (intro exI [of _ cs]) simp
qed simp

lemma stop_advances:
  assumes "executor_stop clock (view_executor svc) = Inr ex" "linked ext pf svc F"
  shows "advances ext pf {} svc (put_executor ex svc) {}"
proof (rule advances_executor)
  show "executor_moves pf (view_executor svc) ex" using assms(1) by (intro client_move client_step.stop)
  have "settled {#} (view_executor svc)" using linked_store(1) [OF assms(2)] by (simp add: executor_inv_def)
  from executor_stop_facts [OF this, of clock] show "exec_store ex = svc_store svc"
    using assms(1) by (cases "stopping (view_executor svc)") (auto simp: executor_stop_def)
qed

lemma reload_advances:
  assumes "index_ok pf ix" "replace_index (Some ix) (svc_store svc) = Inr st"
  shows "advances ext pf {} svc (svc\<lparr>svc_store := st\<rparr>) {}"
  using assms by (intro advances_store store_step.replace) (auto intro: publication_step.reload)

lemma service_step_moves:
  "service_step ext pf x y \<Longrightarrow> service_inv ext pf (fst x) (snd x) \<Longrightarrow>
     executor_moves pf (view_executor (fst x)) (view_executor (fst y))"
proof (induction rule: service_step.induct)
  case (start svc svc' ph ts)
  then show ?case using advancesD(1) [OF rpc_start_advances] by (fastforce simp: service_inv_def)
next
  case (call i ts svc svc' ph)
  then have "linked ext pf svc (\<Union>ph\<in>set ts. flight ph)" "answering pf (view_executor svc) (ts ! i)"
    by (simp_all add: service_inv_def)
  then show ?case using advancesD(1) [OF rpc_step_advances [OF call(2)]] by simp
next
  case (worker svc ex ts)
  then show ?case using advancesD(1) [OF worker_advances] by simp
next
  case (stop clock svc ex ts)
  then have "linked ext pf svc (\<Union>ph\<in>set ts. flight ph)" by (simp add: service_inv_def)
  from advancesD(1) [OF stop_advances [OF stop(1) this]] show ?case by simp
next
  case (reload ix svc st ts)
  then show ?case using advancesD(1) [OF reload_advances] by fastforce
next
  case (log svc ts lenv r fs)
  show ?case using components_views [OF log_components(1)] by simp
next
  case (summary svc ts env)
  show ?case using components_views [OF summary_components(1)] by simp
qed

lemma service_step_inv: "service_step ext pf x y \<Longrightarrow> service_inv ext pf (fst x) (snd x) \<Longrightarrow> service_inv ext pf (fst y) (snd y)"
proof (induction rule: service_step.induct)
  case (start svc svc' ph ts)
  then show ?case using start_inv by simp
next
  case (call i ts svc svc' ph)
  then show ?case using call_inv by simp
next
  case (worker svc ex ts)
  then show ?case using background_inv [OF worker_advances] by simp
next
  case (stop clock svc ex ts)
  then have "linked ext pf svc (\<Union>ph\<in>set ts. flight ph)" by (simp add: service_inv_def)
  from stop_advances [OF stop(1) this] show ?case using background_inv stop(2) by simp
next
  case (reload ix svc st ts)
  have "counters (svc\<lparr>svc_store := st\<rparr>) = counters svc" by (simp add: counters_def)
  then show ?case using background_inv [OF reload_advances [OF reload(1,2)]] reload(3) by simp
next
  case (log svc ts lenv r fs)
  then show ?case using background_inv [OF advances_refl] by simp
next
  case (summary svc ts env)
  then show ?case using background_inv [OF advances_refl] by simp
qed

lemma service_create_inv:
  assumes "store_inv pf st" "service_create threads (Some st) kind lg search publishing = Inr svc"
  shows "service_inv ext pf svc []"
proof -
  obtain ex p where parts: "executor_create threads (Some st) search = Inr ex" "publication_create (Some st) kind publishing = Inr p"
      "svc_store svc = st" "svc_executor svc = ex" "svc_publication svc = p" "next_request_id svc = 1" "status_counts svc = replicate 17 0"
    using assms(2) by (auto simp: service_create_def result_simps split: if_splits)
  have "exec_store ex = st" using parts(1) by (auto simp: executor_create_def split: if_splits)
  then have ex: "view_executor svc = ex" using parts by (simp add: view_executor_def)
  have "pub_store p = st \<and> pub_config p = publishing"
    using parts(2) by (auto simp: publication_create_def result_simps split: if_splits)
  then have p: "view_publication svc = p" "pub_config p = publishing" using parts by (simp_all add: view_publication_def)
  have "executor_reachable pf ex" using assms(1) parts(1) by (rule executor_reachable.create)
  moreover have "publication_reachable ext pf (p, {})" if "publication_enabled publishing"
    using assms(1) parts(2) that by (rule publication_reachable.create)
  ultimately have "linked ext pf svc {}" using ex p parts(5) by (auto simp: linked_def)
  then show ?thesis using parts(6,7) by (simp add: service_inv_def tally_def)
qed

lemma service_reachable_inv: "service_reachable ext pf x \<Longrightarrow> service_inv ext pf (fst x) (snd x)"
  by (induction rule: service_reachable.induct) (auto intro: service_create_inv service_step_inv)


lemma replied_less: "replied ph = Some code \<Longrightarrow> code < 17"
  by (cases ph) auto

lemma sum_counters:
  assumes "length cs = 17" "\<forall>code < 17. cs ! code = (of_nat (count (mset (map replied ts)) (Some code)) :: u64)"
  shows "sum_list cs = of_nat (length (filter (\<lambda>ph. replied ph \<noteq> None) ts))"
proof -
  have "(\<Sum>code<17. count (mset (map replied ts)) (Some code)) = length (filter (\<lambda>ph. replied ph \<noteq> None) ts)"
  proof (induction ts)
    case (Cons ph ts)
    have "(\<Sum>code<17. count (mset (map replied (ph # ts))) (Some code))
        = (\<Sum>code<17. count (mset (map replied ts)) (Some code)) + (\<Sum>code<17. if replied ph = Some code then 1 else 0)"
      unfolding sum.distrib [symmetric] by (rule sum.cong) simp_all
    also have "(\<Sum>code<17. if replied ph = Some code then 1 else 0) = (if replied ph = None then 0 else 1 :: nat)"
    proof (cases "replied ph")
      case (Some n)
      then have "n < 17" by (rule replied_less)
      then show ?thesis using Some by simp
    qed simp
    finally show ?case using Cons by simp
  qed simp
  moreover have "sum_list cs = (\<Sum>code<17. of_nat (count (mset (map replied ts)) (Some code)))"
    using assms by (simp add: sum_list_sum_nth atLeast0LessThan del: mset_map)
  ultimately show ?thesis by (metis of_nat_sum)
qed

text \<open>A question asked stays asked through any further run.\<close>

lemma service_steps_asked:
  assumes "(service_step ext pf)\<^sup>*\<^sup>* x y" "service_reachable ext pf x" "asked pf start query k expected t (view_executor (fst x))"
  shows "service_reachable ext pf y \<and> asked pf start query k expected t (view_executor (fst y))"
  using assms
proof (induction rule: rtranclp_induct)
  case (step y z)
  then have y: "service_reachable ext pf y" "asked pf start query k expected t (view_executor (fst y))" by simp_all
  have inv: "service_inv ext pf (fst y) (snd y)" by (rule service_reachable_inv [OF y(1)])
  then have "executor_reachable pf (view_executor (fst y))" by (simp add: service_inv_def linked_def)
  from executor_moves_asked [OF service_step_moves [OF step(2) inv] this y(2)]
  show ?case using service_reachable.step [OF y(1) step(2)] by simp
qed simp

lemma store_moves_inv: "store_moves pf s s' \<Longrightarrow> store_inv pf s \<Longrightarrow> store_inv pf s'"
  by (induction rule: rtranclp_induct) (auto intro: store_step_inv)

section \<open>A sample run\<close>

text \<open>A service on the sample store, with publication disabled, and one search call.\<close>

definition sample_service :: service where
  "sample_service = \<lparr>svc_store = sample_store, svc_kind = ''flat'', svc_executor = sample_executor,
     svc_publication = \<lparr>pub_store = sample_store, pub_kind = ''flat'',
       pub_config = \<lparr>publication_enabled = False, maximum_file_bytes = 1, publication_kernel = Scalar\<rparr>,
       pub_status = \<lparr>status_state = Serving, status_candidate = no_identity, highest_generation = 0, last_result = No_result,
         last_attempt = no_identity, prepare_us = 0, activation_us = 0\<rparr>,
       pub_manifest = no_manifest, pub_generation = 0, pub_token = 0, pub_started = 0, pub_candidate = None\<rparr>,
     svc_logger = None, next_request_id = 1, status_counts = replicate 17 0, summary_logged = False\<rparr>"

lemma sample_service_reachable: "service_reachable ext sample_platform (sample_service, [])"
proof (rule service_reachable.create)
  show "store_inv sample_platform sample_store" by (rule store_create_inv [OF flat_sample_ok sample_store_create])
  show "service_create 1 (Some sample_store) ''flat'' None sample_config
      \<lparr>publication_enabled = False, maximum_file_bytes = 1, publication_kernel = Scalar\<rparr> = Inr sample_service"
    by (simp add: service_create_def executor_create_def publication_create_def sample_service_def sample_executor_def
        sample_config_def sample_store_def)
qed

definition sample_rpc :: rpc_env where
  "sample_rpc = \<lparr>rpc_now = 0, later_now = 0, system_now = 0, rpc_deadline = None, is_cancelled = False, writer_busy = False,
     rpc_log = \<lparr>log_time = 0, line_built = True, stream_takes = None\<rparr>\<rparr>"

lemma service_workers:
  assumes "(worker_step pf)\<^sup>*\<^sup>* (view_executor svc) ex"
  shows "(service_step ext pf)\<^sup>*\<^sup>* (svc, ts) (put_executor ex svc, ts) \<or> ex = view_executor svc"
  using assms
proof (induction rule: rtranclp_induct)
  case (step ey ez)
  have "put_executor ez (put_executor ey svc) = put_executor ez svc" by (simp add: put_executor_def)
  then have "service_step ext pf (put_executor ey svc, ts) (put_executor ez svc, ts)"
    using service_step.worker [of pf "put_executor ey svc" ez ext ts] step(2) by simp
  moreover have "service_step ext pf (svc, ts) (put_executor ez svc, ts)" if "ey = view_executor svc"
    using step(2) that by (auto intro: service_step.worker)
  ultimately show ?case using step(3) by (auto intro: rtranclp.rtrancl_into_rtrancl)
qed simp

definition sample_context :: search_context where
  "sample_context = \<lparr>deadline = clock_max, cancellation = Some 0, check_interval = 64, expected_snapshot_id = []\<rparr>"

definition sample_task :: search_task where
  "sample_task = \<lparr>task_query = [0xC0000000], task_k = 1, task_context = sample_context, enqueued = 0, ticket = 0\<rparr>"

lemma sample_found: "\<exists>r. store_search sample_platform [0xC0000000] 1 sample_context sample_env sample_store
    = (sample_store\<lparr>successful_queries := 1\<rparr>, Inr r)"
proof -
  have quiet: "quiet sample_context (\<lambda>_. (NoReason, 0))" by (simp add: quiet_def sample_context_def)
  then obtain rs where "index_search sample_platform (Flat flat_sample) [0xC0000000] 1 sample_context (\<lambda>_. (NoReason, 0)) = Inr rs"
    using flat_contract.search_valid [OF flat_sample_inv _ _ _ normalize_l2_minus_two quiet, where ?avx2.0 = False and k = 1]
    by (auto simp: runs_on_def sample_platform_def sample_context_def)
  then have "\<exists>r. guarded_search sample_platform sample_store [0xC0000000] 1 sample_context sample_env = Inr r"
    using quiet
    by (simp add: guarded_search_def sample_store_def sample_env_def validate_context_def deref_def
        sample_context_def [THEN arg_cong [where f = check_interval]] sample_context_def [THEN arg_cong [where f = expected_snapshot_id]])
  then show ?thesis by (auto simp: store_search_def sample_store_def)
qed

lemma sample_submit: "fst (executor_submit [0xC0000000] 1 clock_max [] 0 sample_executor)
    = sample_executor\<lparr>queue := [sample_task], reasons := [NoReason], promises := [None],
        stats := (stats sample_executor)\<lparr>admitted := 1, queued := 1, peak_queued := 1\<rparr>\<rparr>"
  by (simp add: executor_submit_def sample_executor_def sample_config_def initial_stats_def sample_task_def sample_context_def Let_def)

lemma sample_outcome:
  "\<exists>ex outcome. (worker_step sample_platform)\<^sup>*\<^sup>* (fst (executor_submit [0xC0000000] 1 clock_max [] 0 sample_executor)) ex
     \<and> promises ex = [Some outcome] \<and> outcome_error outcome = None"
proof -
  let ?step = "worker_step sample_platform"
  let ?ex1 = "fst (executor_submit [0xC0000000] 1 clock_max [] 0 sample_executor)"
  have ex1: "exec_store ?ex1 = sample_store" "worker_states ?ex1 = [Waiting]" "queue ?ex1 = [sample_task]" "active ?ex1 = [None]"
      "reasons ?ex1 = [NoReason]" "promises ?ex1 = [None]"
    unfolding sample_submit by (simp_all add: sample_executor_def)
  obtain ex2 where ex2: "?step ?ex1 ex2" "exec_store ex2 = sample_store" "worker_states ex2 = [Taken sample_task]"
      "reasons ex2 = [NoReason]" "promises ex2 = [None]"
    using worker_step.take [of 0 ?ex1] ex1 by (fastforce simp: worker_take_def Let_def set_worker_def set_queue_def)
  have ctx: "task_context sample_task = sample_context" "ticket sample_task = 0" by (simp_all add: sample_task_def)
  have "task_check ex2 sample_task 0 = Inr ()"
    using ex2(4) by (simp add: task_check_def ctx check_def) (simp add: sample_context_def)
  then obtain w ex3 where ex3: "?step ex2 ex3" "exec_store ex3 = sample_store" "worker_states ex3 = [Checked sample_task 0 w]"
      "promises ex3 = [None]"
    using worker_step.check [of 0 ex2 sample_task sample_platform 0 0] ex2 by (fastforce simp: worker_check_def Let_def set_worker_def)
  obtain ex4 where ex4: "?step ex3 ex4" "exec_store ex4 = sample_store" "worker_states ex4 = [Searching sample_task 0 w]"
      "promises ex4 = [None]"
    using worker_step.start [of 0 ex3 sample_task 0 w sample_platform] ex3 by (fastforce simp: worker_start_def set_worker_def)
  obtain r where "store_search sample_platform [0xC0000000] 1 sample_context sample_env sample_store
      = (sample_store\<lparr>successful_queries := 1\<rparr>, Inr r)"
    using sample_found by blast
  then obtain outcome ex5 where ex5: "?step ex4 ex5" "worker_states ex5 = [Finishing sample_task outcome]"
      "promises ex5 = [None]" "outcome_error outcome = None"
    using worker_step.search [of 0 ex4 sample_task 0 w sample_platform sample_env 0] ex4
    by (fastforce simp: worker_search_def set_worker_def sample_task_def error_of_def)
  obtain ex6 where ex6: "worker_finish 0 sample_task outcome ex5 = Inr ex6" "promises ex6 = [Some outcome]"
    using ex5(3) by (simp add: worker_finish_def finish_locked_def read_at_def ctx set_worker_def)
  have "?step ex5 ex6" using ex5(2) ex6(1) by (intro worker_step.finish) simp_all
  then have "?step\<^sup>*\<^sup>* ?ex1 ex6"
    using ex2(1) ex3(1) ex4(1) ex5(1) by (meson converse_rtranclp_into_rtranclp r_into_rtranclp)
  then show ?thesis using ex6(2) ex5(4) by blast
qed

definition sample_asked :: service where
  "sample_asked = fst (start_search sample_rpc [0xC0000000] 1 [] sample_service)"

definition sample_call :: rpc_call where
  "sample_call = \<lparr>call_id = 1, call_started = 0, call_method = ''Search''\<rparr>"

lemma sample_start:
  "start_search sample_rpc [0xC0000000] 1 [] sample_service = (sample_asked, Rpc_searching sample_call [0xC0000000] 1 [] 0)"
  "view_executor sample_asked = fst (executor_submit [0xC0000000] 1 clock_max [] 0 sample_executor)"
proof -
  let ?svc = "sample_service\<lparr>next_request_id := 2\<rparr>"
  have view: "view_executor ?svc = sample_executor" by (simp add: view_executor_def sample_service_def sample_executor_def)
  have fields: "svc_store sample_service = sample_store" "next_request_id sample_service = 1"
    by (simp_all add: sample_service_def)
  have check: "check_search sample_store [0xC0000000] 1 [] = Inr ()"
    by (simp add: check_search_def store_dimension_def serving_index_def sample_store_def deref_def flat_sample_def normalize_l2_minus_two)
  obtain ex where ex: "executor_submit [0xC0000000] 1 clock_max [] 0 sample_executor = (ex, Inr 0)"
    by (simp add: executor_submit_def sample_executor_def sample_config_def Let_def)
  have "start_search sample_rpc [0xC0000000] 1 [] sample_service
      = (put_executor ex ?svc, Rpc_searching sample_call [0xC0000000] 1 [] 0)"
    using check view ex fields
    by (simp add: start_search_def begin_rpc_parts search_deadline_def sample_call_def sample_rpc_def [THEN arg_cong [where f = rpc_now]]
        sample_rpc_def [THEN arg_cong [where f = later_now]] sample_rpc_def [THEN arg_cong [where f = rpc_deadline]]
        sample_rpc_def [THEN arg_cong [where f = is_cancelled]])
  then show "start_search sample_rpc [0xC0000000] 1 [] sample_service = (sample_asked, Rpc_searching sample_call [0xC0000000] 1 [] 0)"
      "view_executor sample_asked = fst (executor_submit [0xC0000000] 1 clock_max [] 0 sample_executor)"
    using ex by (simp_all add: sample_asked_def)
qed

lemma sample_search_served:
  "\<exists>svc outcome. (service_step ext sample_platform)\<^sup>*\<^sup>* (sample_asked, [Rpc_searching sample_call [0xC0000000] 1 [] 0])
       (svc, [Rpc_searching sample_call [0xC0000000] 1 [] 0])
     \<and> promises (svc_executor svc) = [Some outcome] \<and> outcome_error outcome = None"
proof -
  obtain ex outcome where ex: "(worker_step sample_platform)\<^sup>*\<^sup>* (view_executor sample_asked) ex" "promises ex = [Some outcome]"
      "outcome_error outcome = None"
    using sample_outcome sample_start(2) by auto
  have "promises (view_executor sample_asked) = [None]" by (simp only: sample_start(2) sample_submit) simp
  then have "ex \<noteq> view_executor sample_asked" using ex(2) by auto
  then have "(service_step ext sample_platform)\<^sup>*\<^sup>* (sample_asked, [Rpc_searching sample_call [0xC0000000] 1 [] 0])
      (put_executor ex sample_asked, [Rpc_searching sample_call [0xC0000000] 1 [] 0])"
    using service_workers [OF ex(1)] by blast
  then show ?thesis using ex(2,3) by fastforce
qed

lemma sample_asked_reachable:
  "service_reachable ext sample_platform (sample_asked, [Rpc_searching sample_call [0xC0000000] 1 [] 0])"
  using service_reachable.step [OF sample_service_reachable service_step.start [OF rpc_start.search [OF sample_start(1)]]] by simp

lemma service_steps_reachable:
  "(service_step ext pf)\<^sup>*\<^sup>* x y \<Longrightarrow> service_reachable ext pf x \<Longrightarrow> service_reachable ext pf y"
  by (induction rule: rtranclp_induct) (auto intro: service_reachable.step)

section \<open>The properties\<close>

text \<open>C32: the service runs its parts correctly. Every run of the service, with any number of calls in
  any phase, the workers of the executor, stops and reloads in between, is for the executor a run
  of its workers and clients, and for an enabled publication a run of its state machine, on
  the one store they share; every completion a call is in the middle of is one the state machine
  knows. So what is proved of the parts in all of their runs holds inside the service.\<close>

theorem service_refines_parts:
  assumes "service_reachable ext pf (svc, ts)"
  shows "executor_reachable pf (view_executor svc)
    \<and> exec_store (view_executor svc) = svc_store svc \<and> pub_store (view_publication svc) = svc_store svc
    \<and> (publication_enabled (pub_config (svc_publication svc)) \<longrightarrow>
         (\<exists>cs. publication_reachable ext pf (view_publication svc, cs) \<and> (\<forall>ph\<in>set ts. flight ph \<subseteq> cs)))"
proof -
  have "linked ext pf svc (\<Union>ph\<in>set ts. flight ph)"
    using service_reachable_inv [OF assms] by (simp add: service_inv_def)
  then show ?thesis by (auto simp: linked_def UN_subset_iff)
qed

theorem service_refines_parts_witness:
  "\<exists>svc outcome. executor_reachable sample_platform (view_executor svc) \<and> promises (view_executor svc) = [Some outcome]"
proof -
  obtain svc outcome where run: "(service_step sample_externals sample_platform)\<^sup>*\<^sup>*
        (sample_asked, [Rpc_searching sample_call [0xC0000000] 1 [] 0]) (svc, [Rpc_searching sample_call [0xC0000000] 1 [] 0])"
      "promises (svc_executor svc) = [Some outcome]"
    using sample_search_served by blast
  from service_refines_parts [OF service_steps_reachable [OF run(1) sample_asked_reachable]] run(2) show ?thesis by auto
qed

text \<open>C33: the books balance. In every run the calls are numbered 1, 2, 3, \<dots> in the order of their
  start, which no two share before 2^64 calls; every status counter is the number of finished
  calls with that status, and so the counters add up to the number of finished calls; and
  a call carries an answer exactly if its status is OK.\<close>

theorem service_accounting:
  assumes "service_reachable ext pf (svc, ts)"
  shows "(\<forall>i < length ts. call_id (phase_call (ts ! i)) = of_nat i + 1)
    \<and> length (status_counts svc) = 17
    \<and> (\<forall>code < 17. status_counts svc ! code = of_nat (length (filter (\<lambda>ph. replied ph = Some code) ts)))
    \<and> sum_list (status_counts svc) = of_nat (length (filter (\<lambda>ph. replied ph \<noteq> None) ts))
    \<and> (\<forall>ph\<in>set ts. replies_ok ph)"
proof -
  have t: "tally svc ts" using service_reachable_inv [OF assms] by (simp add: service_inv_def)
  then have "length (status_counts svc) = 17"
      "\<forall>code < 17. status_counts svc ! code = of_nat (count (mset (map replied ts)) (Some code))"
    by (simp_all add: tally_def)
  moreover have "count (mset (map replied ts)) x = length (filter (\<lambda>ph. replied ph = x) ts)" for x
    by (induction ts) simp_all
  ultimately show ?thesis using t sum_counters [of "status_counts svc" ts] by (simp add: tally_def)
qed

theorem service_accounting_witness:
  "call_id sample_call = 1 \<and> sum_list (status_counts sample_asked) = 0"
  using service_accounting [OF sample_asked_reachable [of sample_externals]] by simp

text \<open>C31: a search call answers its own question. Take any search call that was admitted, and any run
  of the service after its admission. If the call then finishes with neighbors, the answer is
  the result that the store gave to the query, the k and the expected snapshot of this very
  call, in a valid state that the store had between the admission and the answer.\<close>

theorem service_search_answers:
  assumes "service_reachable ext pf (svc, ts)" "start_search env query k expected svc = (svc1, Rpc_searching call query k expected t)"
    "(service_step ext pf)\<^sup>*\<^sup>* (svc1, ts @ [Rpc_searching call query k expected t]) (svc2, us)"
    "poll_search env' call query k expected t svc2 = (svc3, Rpc_finishing call' status (Found response))"
  shows "call' = call \<and> status = ok_status \<and> svc3 = svc2
    \<and> (\<exists>ctx e st result. store_moves pf (svc_store svc) st \<and> store_moves pf st (svc_store svc2) \<and> store_inv pf st
         \<and> expected_snapshot_id ctx = expected \<and> snd (store_search pf query k ctx e st) = Inr result
         \<and> response_neighbors response = neighbors result \<and> response_version response = snapshot_version result
         \<and> response_identity response = result_identity result)"
proof -
  have lk: "linked ext pf svc (\<Union>ph\<in>set ts. flight ph)"
    using service_reachable_inv [OF assms(1)] by (simp add: service_inv_def)
  have "service_reachable ext pf (svc1, ts @ [Rpc_searching call query k expected t])"
    by (rule service_reachable.step [OF assms(1) service_step.start [OF rpc_start.search [OF assms(2)]]])
  moreover have "asked pf (svc_store svc) query k expected t (view_executor svc1)" using start_search_asked [OF assms(2) lk] by simp
  ultimately have asked: "asked pf (svc_store svc) query k expected t (view_executor svc2)"
    using service_steps_asked [OF assms(3)] by simp
  obtain outcome where outcome: "promises (svc_executor svc2) ! t = Some outcome" "outcome_error outcome = None"
      "svc3 = svc2" "call' = call" "status = ok_status" "response = search_response_of outcome"
    using assms(4) by (auto simp: poll_search_def answer_search_def rpc_fails_def split: option.splits if_splits sum.splits)
  then have "outcome_answers pf (svc_store svc) (svc_store svc2) query k expected outcome" using asked by (simp add: asked_def)
  then obtain ctx e st where st: "store_moves pf (svc_store svc) st" "store_moves pf st (svc_store svc2)"
      "expected_snapshot_id ctx = expected" "snd (store_search pf query k ctx e st) = Inr (outcome_result outcome)"
    using outcome(2) by (auto simp: outcome_answers_def)
  moreover have "store_inv pf st" by (rule store_moves_inv [OF st(1) linked_store(2) [OF lk]])
  ultimately show ?thesis using outcome(3-6) by (auto simp: search_response_of_def)
qed

theorem service_search_answers_witness:
  "\<exists>ctx e st result response. store_moves sample_platform sample_store st \<and> expected_snapshot_id ctx = []
     \<and> snd (store_search sample_platform [0xC0000000] 1 ctx e st) = Inr result
     \<and> response_neighbors (response :: search_response) = neighbors result"
proof -
  obtain svc outcome where run: "(service_step sample_externals sample_platform)\<^sup>*\<^sup>*
        (sample_asked, [Rpc_searching sample_call [0xC0000000] 1 [] 0]) (svc, [Rpc_searching sample_call [0xC0000000] 1 [] 0])"
      "promises (svc_executor svc) = [Some outcome]" "outcome_error outcome = None"
    using sample_search_served by blast
  have "poll_search sample_rpc sample_call [0xC0000000] 1 [] 0 svc
      = (svc, Rpc_finishing sample_call ok_status (Found (search_response_of outcome)))"
    using run(2,3) by (simp add: poll_search_def answer_search_def sample_rpc_def)
  from service_search_answers [OF sample_service_reachable sample_start(1) _ this] run(1)
  obtain ctx e st result where "store_moves sample_platform (svc_store sample_service) st" "expected_snapshot_id ctx = []"
      "snd (store_search sample_platform [0xC0000000] 1 ctx e st) = Inr result"
      "response_neighbors (search_response_of outcome) = neighbors result"
    by fastforce
  then show ?thesis
    by (intro exI [of _ ctx] exI [of _ e] exI [of _ st] exI [of _ result] exI [of _ "search_response_of outcome"])
       (simp add: sample_service_def)
qed

end
