(* ===== verification/Server_Config.thy ===== *)
theory Server_Config
  imports Vector_Search_Service Vector_Jsonl
begin

text \<open>
  apps/server.cpp: the command line of the server. What the parser accepts is well formed: every
  size is positive, and the modes of operation (a plain index, reloading on SIGHUP, managed
  publication) exclude one another as their implementations need it.
\<close>

section \<open>Configuration\<close>

record server_config =
  address :: string
  server_kind :: string
  server_dimension :: u64
  maximum_batch :: u64
  maximum_message_bytes :: int
  server_kernel :: dot_kernel
  server_connections :: u64
  server_ef_construction :: u64
  server_ef_search :: u64
  server_seed :: u64
  server_selection :: neighbor_selection
  load_index_path :: string
  server_read_only :: bool
  reload_on_sighup :: bool
  server_search :: executor_config
  server_publication :: publication_config
  staging_directory :: string
  snapshot_manifest_path :: string
  server_generation :: u64
  server_manifest :: "snapshot_manifest option"

text \<open>\<open>temporary\<close>: the directory of the system for temporary files.\<close>

definition default_server_config :: "string \<Rightarrow> server_config" where
  "default_server_config temporary =
     \<lparr>address = ''0.0.0.0:50051'', server_kind = ''hnsw'', server_dimension = 128, maximum_batch = 1000,
      maximum_message_bytes = 16 * 1024 * 1024, server_kernel = Scalar, server_connections = 16,
      server_ef_construction = 200, server_ef_search = 100, server_seed = 42, server_selection = Heuristic,
      load_index_path = [], server_read_only = False, reload_on_sighup = False,
      server_search = \<lparr>workers = 2, queue_capacity = 64, task_check_interval = 64\<rparr>,
      server_publication = \<lparr>publication_enabled = False, maximum_file_bytes = 1024 * 1024 * 1024, publication_kernel = Scalar\<rparr>,
      staging_directory = temporary, snapshot_manifest_path = [], server_generation = 0, server_manifest = None\<rparr>"

definition server_bool :: "string \<Rightarrow> string \<Rightarrow> bool result" where
  "server_bool text option_name =
     (if text = ''true'' then Inr True
      else if text = ''false'' then Inr False
      else Inl (Invalid_argument (option_name @ '' must be true or false'')))"

definition parse_unsigned :: "string \<Rightarrow> string \<Rightarrow> u64 result" where
  "parse_unsigned text option_name =
     (case whole_u64 text of
        None \<Rightarrow> Inl (Invalid_argument (''invalid value for '' @ option_name))
      | Some n \<Rightarrow> Inr n)"

definition parse_positive_size :: "string \<Rightarrow> string \<Rightarrow> u64 result" where
  "parse_positive_size text option_name =
     and_then (parse_unsigned text option_name) (\<lambda>n.
       if n = 0 then Inl (Invalid_argument (option_name @ '' must be a positive platform-sized integer'')) else Inr n)"

definition int_max :: int where "int_max = 2147483647"

definition parse_kernel_option :: "string \<Rightarrow> dot_kernel result" where
  "parse_kernel_option text =
     (if text = ''scalar'' then Inr Scalar
      else if text = ''auto'' then Inr Auto_vectorized
      else if text = ''avx2'' then Inr Avx2
      else Inl (Invalid_argument ''--kernel must be scalar, auto, or avx2''))"

definition parse_selection_option :: "string \<Rightarrow> neighbor_selection result" where
  "parse_selection_option text =
     (if text = ''simple'' then Inr Simple
      else if text = ''heuristic'' then Inr Heuristic
      else Inl (Invalid_argument ''--neighbor-selection must be simple or heuristic''))"

section \<open>The command line\<close>

definition server_option :: "string \<Rightarrow> string \<Rightarrow> server_config \<Rightarrow> server_config result" where
  "server_option name text c =
     (if name = ''--address'' then Inr (c\<lparr>address := text\<rparr>)
      else if name = ''--index'' then
        (if text \<noteq> ''flat'' \<and> text \<noteq> ''hnsw'' then Inl (Invalid_argument ''--index must be flat or hnsw'')
         else Inr (c\<lparr>server_kind := text\<rparr>))
      else if name = ''--dimension'' then
        and_then (parse_positive_size text name) (\<lambda>n. Inr (c\<lparr>server_dimension := n\<rparr>))
      else if name = ''--max-batch-size'' then
        and_then (parse_positive_size text name) (\<lambda>n. Inr (c\<lparr>maximum_batch := n\<rparr>))
      else if name = ''--search-workers'' then
        and_then (parse_positive_size text name) (\<lambda>n. Inr (c\<lparr>server_search := (server_search c)\<lparr>workers := n\<rparr>\<rparr>))
      else if name = ''--search-queue-capacity'' then
        and_then (parse_positive_size text name) (\<lambda>n. Inr (c\<lparr>server_search := (server_search c)\<lparr>queue_capacity := n\<rparr>\<rparr>))
      else if name = ''--search-check-interval'' then
        and_then (parse_positive_size text name) (\<lambda>n. Inr (c\<lparr>server_search := (server_search c)\<lparr>task_check_interval := n\<rparr>\<rparr>))
      else if name = ''--max-message-bytes'' then
        and_then (parse_unsigned text name) (\<lambda>n.
          if n = 0 \<or> int_max < uint n then Inl (Invalid_argument ''--max-message-bytes must fit in a positive int'')
          else Inr (c\<lparr>maximum_message_bytes := uint n\<rparr>))
      else if name = ''--m'' then
        and_then (parse_positive_size text name) (\<lambda>n. Inr (c\<lparr>server_connections := n\<rparr>))
      else if name = ''--ef-construction'' then
        and_then (parse_positive_size text name) (\<lambda>n. Inr (c\<lparr>server_ef_construction := n\<rparr>))
      else if name = ''--ef-search'' then
        and_then (parse_positive_size text name) (\<lambda>n. Inr (c\<lparr>server_ef_search := n\<rparr>))
      else if name = ''--hnsw-seed'' then
        and_then (parse_unsigned text name) (\<lambda>n. Inr (c\<lparr>server_seed := n\<rparr>))
      else if name = ''--kernel'' then
        and_then (parse_kernel_option text) (\<lambda>kern. Inr (c\<lparr>server_kernel := kern\<rparr>))
      else if name = ''--neighbor-selection'' then
        and_then (parse_selection_option text) (\<lambda>sel. Inr (c\<lparr>server_selection := sel\<rparr>))
      else if name = ''--load-index'' then
        (if text = [] then Inl (Invalid_argument ''--load-index must not be empty'')
         else Inr (c\<lparr>load_index_path := text\<rparr>))
      else if name = ''--read-only'' then
        and_then (server_bool text name) (\<lambda>b. Inr (c\<lparr>server_read_only := b\<rparr>))
      else if name = ''--snapshot-manifest'' then Inr (c\<lparr>snapshot_manifest_path := text\<rparr>)
      else if name = ''--generation'' then
        and_then (parse_unsigned text name) (\<lambda>n. Inr (c\<lparr>server_generation := n\<rparr>))
      else if name = ''--enable-snapshot-publication'' then
        and_then (server_bool text name) (\<lambda>b.
          Inr (c\<lparr>server_publication := (server_publication c)\<lparr>publication_enabled := b\<rparr>\<rparr>))
      else if name = ''--max-snapshot-bytes'' then
        and_then (parse_positive_size text name) (\<lambda>n.
          Inr (c\<lparr>server_publication := (server_publication c)\<lparr>maximum_file_bytes := n\<rparr>\<rparr>))
      else if name = ''--snapshot-staging-dir'' then Inr (c\<lparr>staging_directory := text\<rparr>)
      else if name = ''--reload-on-sighup'' then
        and_then (server_bool text name) (\<lambda>b. Inr (c\<lparr>reload_on_sighup := b\<rparr>))
      else Inl (Invalid_argument (''unknown server option: '' @ name)))"

fun server_options_loop :: "string list \<Rightarrow> server_config \<Rightarrow> server_config result" where
  "server_options_loop [] c = Inr c"
| "server_options_loop [name] c = Inl (Invalid_argument ''every server option requires a value'')"
| "server_options_loop (name # text # rest) c = and_then (server_option name text c) (server_options_loop rest)"

text \<open>\<open>files path\<close> is the text of the file of that name, if it can be read.\<close>

definition finish_server_arguments :: "externals \<Rightarrow> (string \<Rightarrow> string option) \<Rightarrow> server_config \<Rightarrow> server_config result" where
  "finish_server_arguments ext files c =
     (if address c = [] then Inl (Invalid_argument ''--address must not be empty'')
      else
        let c = c\<lparr>server_publication := (server_publication c)\<lparr>publication_kernel := server_kernel c\<rparr>\<rparr>
        in if (snapshot_manifest_path c \<noteq> [] \<or> server_generation c \<noteq> 0 \<or> publication_enabled (server_publication c))
             \<and> (snapshot_manifest_path c = [] \<or> server_generation c = 0 \<or> \<not> server_read_only c
                \<or> load_index_path c = [] \<or> reload_on_sighup c) then
             Inl (Invalid_argument ''managed publication requires read-only snapshot, manifest, generation and no SIGHUP'')
           else
             and_then
               (if snapshot_manifest_path c \<noteq> [] then
                  and_then (read_snapshot_manifest ext (files (snapshot_manifest_path c))) (\<lambda>m.
                    Inr (c\<lparr>server_manifest := Some m\<rparr>))
                else Inr c) (\<lambda>c.
             if reload_on_sighup c \<and> (load_index_path c = [] \<or> \<not> server_read_only c) then
               Inl (Invalid_argument ''--reload-on-sighup true requires a read-only index loaded from a snapshot'')
             else Inr c))"

text \<open>The arguments after the name of the program.\<close>

definition parse_server_arguments ::
  "externals \<Rightarrow> (string \<Rightarrow> string option) \<Rightarrow> string \<Rightarrow> string list \<Rightarrow> server_config result" where
  "parse_server_arguments ext files temporary arguments =
     and_then (server_options_loop arguments (default_server_config temporary)) (finish_server_arguments ext files)"

section \<open>What is accepted\<close>

definition sizes_positive :: "server_config \<Rightarrow> bool" where
  "sizes_positive c \<longleftrightarrow>
     server_kind c \<in> {''flat'', ''hnsw''} \<and> server_dimension c \<noteq> 0 \<and> maximum_batch c \<noteq> 0
   \<and> 0 < maximum_message_bytes c \<and> maximum_message_bytes c \<le> int_max
   \<and> server_connections c \<noteq> 0 \<and> server_ef_construction c \<noteq> 0 \<and> server_ef_search c \<noteq> 0
   \<and> workers (server_search c) \<noteq> 0 \<and> queue_capacity (server_search c) \<noteq> 0 \<and> task_check_interval (server_search c) \<noteq> 0
   \<and> maximum_file_bytes (server_publication c) \<noteq> 0"

text \<open>A managed server starts from a manifest with a generation, reads only, and never reloads.\<close>

definition managed :: "server_config \<Rightarrow> bool" where
  "managed c \<longleftrightarrow> snapshot_manifest_path c \<noteq> []"

definition modes_exclusive :: "server_config \<Rightarrow> bool" where
  "modes_exclusive c \<longleftrightarrow>
     (managed c \<longrightarrow> server_generation c \<noteq> 0 \<and> server_read_only c \<and> load_index_path c \<noteq> []
        \<and> \<not> reload_on_sighup c \<and> server_manifest c \<noteq> None)
   \<and> (\<not> managed c \<longrightarrow> server_generation c = 0 \<and> \<not> publication_enabled (server_publication c) \<and> server_manifest c = None)
   \<and> (reload_on_sighup c \<longrightarrow> load_index_path c \<noteq> [] \<and> server_read_only c)"

definition server_config_ok :: "server_config \<Rightarrow> bool" where
  "server_config_ok c \<longleftrightarrow> sizes_positive c \<and> modes_exclusive c \<and> address c \<noteq> []
     \<and> publication_kernel (server_publication c) = server_kernel c"

lemma positive_size: "parse_positive_size text name = Inr n \<Longrightarrow> n \<noteq> 0"
  by (auto simp: parse_positive_size_def result_simps split: if_splits)

lemma option_branch:
  "(if name = known then x else y) = Inr c \<Longrightarrow> (x = Inr c \<Longrightarrow> P) \<Longrightarrow> (y = Inr c \<Longrightarrow> P) \<Longrightarrow> P"
  for known :: string
  by (simp split: if_splits)

definition initial_ok :: "server_config \<Rightarrow> bool" where
  "initial_ok c \<longleftrightarrow> sizes_positive c \<and> server_manifest c = None"

lemma initial_ok_updates:
  assumes "initial_ok c"
  shows "initial_ok (c\<lparr>address := text\<rparr>)" "text = ''flat'' \<or> text = ''hnsw'' \<Longrightarrow> initial_ok (c\<lparr>server_kind := text\<rparr>)"
    "n \<noteq> 0 \<Longrightarrow> initial_ok (c\<lparr>server_dimension := n\<rparr>)" "n \<noteq> 0 \<Longrightarrow> initial_ok (c\<lparr>maximum_batch := n\<rparr>)"
    "n \<noteq> 0 \<Longrightarrow> initial_ok (c\<lparr>server_search := (server_search c)\<lparr>workers := n\<rparr>\<rparr>)"
    "n \<noteq> 0 \<Longrightarrow> initial_ok (c\<lparr>server_search := (server_search c)\<lparr>queue_capacity := n\<rparr>\<rparr>)"
    "n \<noteq> 0 \<Longrightarrow> initial_ok (c\<lparr>server_search := (server_search c)\<lparr>task_check_interval := n\<rparr>\<rparr>)"
    "n \<noteq> 0 \<Longrightarrow> \<not> int_max < uint n \<Longrightarrow> initial_ok (c\<lparr>maximum_message_bytes := uint n\<rparr>)"
    "n \<noteq> 0 \<Longrightarrow> initial_ok (c\<lparr>server_connections := n\<rparr>)" "n \<noteq> 0 \<Longrightarrow> initial_ok (c\<lparr>server_ef_construction := n\<rparr>)"
    "n \<noteq> 0 \<Longrightarrow> initial_ok (c\<lparr>server_ef_search := n\<rparr>)" "initial_ok (c\<lparr>server_seed := n\<rparr>)"
    "initial_ok (c\<lparr>server_kernel := kern\<rparr>)" "initial_ok (c\<lparr>server_selection := sel\<rparr>)"
    "initial_ok (c\<lparr>load_index_path := text\<rparr>)" "initial_ok (c\<lparr>server_read_only := b\<rparr>)"
    "initial_ok (c\<lparr>snapshot_manifest_path := text\<rparr>)" "initial_ok (c\<lparr>server_generation := n\<rparr>)"
    "initial_ok (c\<lparr>server_publication := (server_publication c)\<lparr>publication_enabled := b\<rparr>\<rparr>)"
    "n \<noteq> 0 \<Longrightarrow> initial_ok (c\<lparr>server_publication := (server_publication c)\<lparr>maximum_file_bytes := n\<rparr>\<rparr>)"
    "initial_ok (c\<lparr>staging_directory := text\<rparr>)" "initial_ok (c\<lparr>reload_on_sighup := b\<rparr>)"
proof -
  have "n \<noteq> 0 \<Longrightarrow> 0 < uint n" using uint_ge_0 [of n] uint_0_iff [of n] by linarith
  then show "n \<noteq> 0 \<Longrightarrow> \<not> int_max < uint n \<Longrightarrow> initial_ok (c\<lparr>maximum_message_bytes := uint n\<rparr>)"
    using assms by (simp add: initial_ok_def sizes_positive_def not_less)
qed (use assms in \<open>simp_all add: initial_ok_def sizes_positive_def\<close>)

lemma then_Inr: "and_then r f = Inr y \<Longrightarrow> (\<And>x. r = Inr x \<Longrightarrow> f x = Inr y \<Longrightarrow> P) \<Longrightarrow> P"
  by (auto simp: result_simps)

lemma server_option_initial:
  assumes "server_option name text c = Inr c'" "initial_ok c"
  shows "initial_ok c'"
  using assms(1) unfolding server_option_def
  by (elim option_branch [where name = name] then_Inr)
     (auto simp: initial_ok_updates [OF assms(2)] positive_size split: if_splits)

lemma server_options_initial:
  "server_options_loop arguments c = Inr c' \<Longrightarrow> initial_ok c \<Longrightarrow> initial_ok c'"
  by (induction arguments c rule: server_options_loop.induct) (auto simp: result_simps dest: server_option_initial)

lemma default_initial: "initial_ok (default_server_config temporary)"
  by (simp add: initial_ok_def sizes_positive_def default_server_config_def int_max_def)

lemma parse_server_ok:
  assumes "parse_server_arguments ext files temporary arguments = Inr c"
  shows "server_config_ok c"
proof -
  obtain c0 where c0: "server_options_loop arguments (default_server_config temporary) = Inr c0"
      "finish_server_arguments ext files c0 = Inr c"
    using assms by (auto simp: parse_server_arguments_def result_simps)
  from server_options_initial [OF c0(1) default_initial]
  have "sizes_positive c0" "server_manifest c0 = None" by (simp_all add: initial_ok_def)
  then show ?thesis
    using c0(2)
    by (auto simp: finish_server_arguments_def server_config_ok_def sizes_positive_def modes_exclusive_def managed_def
        result_simps Let_def split: if_splits)
qed

end
