(* ===== verification/Server.thy ===== *)
theory Server
  imports Server_Config Vector_Search_Service_Theorems
begin

text \<open>
  apps/server.cpp: the process around the service. It loads or creates the index, builds the store
  and the service, listens, and runs a monitor thread that reloads the index on request and
  shuts the server down. The signals are steps of the environment; a thread moves from one of its
  actions on shared state to the next, interleaved with the calls of the service.
\<close>

section \<open>The index\<close>

definition text_field :: "string \<Rightarrow> string \<Rightarrow> log_field" where
  "text_field name s = \<lparr>field_name = name, field_value = Log_string s\<rparr>"

definition flag_field :: "string \<Rightarrow> bool \<Rightarrow> log_field" where
  "flag_field name b = \<lparr>field_name = name, field_value = Log_bool b\<rparr>"

text \<open>What a load meets: whether the staging file can be created, the size of the snapshot and
  then its contents (\<open>None\<close>: it cannot be read or copied).\<close>

record load_env =
  staging_made :: bool
  seen_size :: "nat option"
  seen_contents :: "u8 list option"
  staging_name :: string

definition load_body :: "externals \<Rightarrow> platform \<Rightarrow> server_config \<Rightarrow> load_env \<Rightarrow> vector_index result" where
  "load_body ext pf c env =
     (if snapshot_manifest_path c \<noteq> [] then
        if \<not> staging_made env then Inl (Runtime_error ''cannot create snapshot staging file'')
        else case seen_size env of
          None \<Rightarrow> Inl (Runtime_error ''cannot get file size'')
        | Some n \<Rightarrow>
            if unat (maximum_file_bytes (server_publication c)) < n then
              Inl (Invalid_argument ''snapshot exceeds file limit'')
            else if seen_contents env = None then Inl (Runtime_error ''cannot copy file'')
            else
              and_then (deref (server_manifest c)) (\<lambda>m.
                load_verified_snapshot ext pf (staging_name env) (seen_contents env) m (server_kind c) (server_kernel c)
                  (maximum_file_bytes (server_publication c)))
      else if server_kind c = ''flat'' then
        and_then (flat_load (load_index_path c) (seen_contents env) (server_kernel c)) (\<lambda>ix. Inr (Flat ix))
      else
        and_then (hnsw_load (has_avx2 pf) (load_index_path c) (seen_contents env) (server_kernel c)) (\<lambda>ix. Inr (Hnsw ix)))"

definition load_started :: "server_config \<Rightarrow> string \<Rightarrow> log_record \<times> log_field list" where
  "load_started c operation =
     (log_default\<lparr>event := ''index_load_started'', status_name := ''IN_PROGRESS'', log_index_type := server_kind c\<rparr>,
      [text_field ''operation'' operation])"

definition load_reported ::
  "server_config \<Rightarrow> string \<Rightarrow> u64 option \<Rightarrow> u64 \<Rightarrow> vector_index result \<Rightarrow> log_record \<times> log_field list" where
  "load_reported c operation previous took r =
     (case r of
        Inr ix \<Rightarrow>
          (log_default\<lparr>event := ''index_load_completed'', status_name := ''OK'', latency_us := Some took,
             log_index_type := server_kind c, log_vector_count := Some (of_nat (index_size ix))\<rparr>,
           [text_field ''operation'' operation, number_field ''dimension'' (of_nat (index_dimension ix))])
      | Inl e \<Rightarrow>
          (log_default\<lparr>severity := ''ERROR'', event := ''index_load_failed'', status_name := ''FAILED_PRECONDITION'',
             latency_us := Some took, log_index_type := server_kind c, log_vector_count := previous\<rparr>,
           [text_field ''operation'' operation, flag_field ''kept_previous_index'' (previous \<noteq> None),
            text_field ''reason'' ''snapshot_unavailable_or_invalid'']))"

text \<open>The two records of a load, and its duration.\<close>

record load_log =
  log_before :: log_env
  log_after :: log_env
  load_us :: u64

definition load_snapshot ::
  "externals \<Rightarrow> platform \<Rightarrow> server_config \<Rightarrow> string \<Rightarrow> u64 option \<Rightarrow> load_env \<Rightarrow> load_log \<Rightarrow> logger \<Rightarrow>
   logger \<times> vector_index result" where
  "load_snapshot ext pf c operation previous env ll lg =
     (case load_started c operation of (r, fs) \<Rightarrow>
        let lg = log_write (log_before ll) r fs lg; ix = load_body ext pf c env
        in case load_reported c operation previous (load_us ll) ix of (r, fs) \<Rightarrow> (log_write (log_after ll) r fs lg, ix))"

definition make_index ::
  "externals \<Rightarrow> platform \<Rightarrow> server_config \<Rightarrow> load_env \<Rightarrow> load_log \<Rightarrow> logger \<Rightarrow> logger \<times> vector_index result" where
  "make_index ext pf c env ll lg =
     (if load_index_path c \<noteq> [] then load_snapshot ext pf c ''startup'' None env ll lg
      else if server_kind c = ''flat'' then
        (lg, and_then (flat_create (unat (server_dimension c)) (server_kernel c)) (\<lambda>ix. Inr (Flat ix)))
      else
        (lg, and_then (hnsw_create (has_avx2 pf)
               \<lparr>cfg_dimension = unat (server_dimension c), max_connections = unat (server_connections c),
                ef_construction = unat (server_ef_construction c), ef_search = unat (server_ef_search c),
                random_seed = server_seed c, cfg_kernel = server_kernel c, selection = server_selection c\<rparr>)
             (\<lambda>ix. Inr (Hnsw ix))))"

section \<open>Startup\<close>

definition index_fields :: "vector_index \<Rightarrow> log_field list" where
  "index_fields ix =
     (case ix of
        Flat fx \<Rightarrow> []
      | Hnsw hx \<Rightarrow>
          [number_field ''m'' (of_nat (max_connections (hnsw_config hx))),
           number_field ''ef_construction'' (of_nat (ef_construction (hnsw_config hx))),
           number_field ''ef_search'' (of_nat (ef_search (hnsw_config hx))),
           number_field ''hnsw_seed'' (random_seed (hnsw_config hx)),
           text_field ''neighbor_selection'' (if selection (hnsw_config hx) = Heuristic then ''heuristic'' else ''simple'')])"

definition config_fields :: "server_config \<Rightarrow> vector_index \<Rightarrow> log_field list" where
  "config_fields c ix =
     [number_field ''dimension'' (of_nat (index_dimension ix)),
      text_field ''kernel'' (dot_product_kernel_name (server_kernel c)),
      flag_field ''read_only'' (server_read_only c),
      text_field ''config_source'' (if load_index_path c = [] then ''cli'' else ''snapshot''),
      flag_field ''reload_on_sighup'' (reload_on_sighup c),
      number_field ''max_batch_size'' (maximum_batch c),
      number_field ''max_message_bytes'' (word_of_int (maximum_message_bytes c)),
      number_field ''search_workers'' (workers (server_search c)),
      number_field ''search_queue_capacity'' (queue_capacity (server_search c)),
      number_field ''search_check_interval'' (task_check_interval (server_search c)),
      flag_field ''snapshot_publication_enabled'' (publication_enabled (server_publication c)),
      number_field ''max_snapshot_bytes'' (maximum_file_bytes (server_publication c)),
      number_field ''generation'' (server_generation c),
      text_field ''snapshot_id'' (case server_manifest c of None \<Rightarrow> [] | Some m \<Rightarrow> manifest_snapshot_id m)] @ index_fields ix"

definition log_config :: "log_env \<Rightarrow> server_config \<Rightarrow> vector_index \<Rightarrow> logger \<Rightarrow> logger" where
  "log_config env c ix lg =
     log_write env
       (log_default\<lparr>event := ''startup_config'', status_name := ''OK'', log_index_type := server_kind c,
          log_vector_count := Some (of_nat (index_size ix))\<rparr>) (config_fields c ix) lg"

definition startup_identity :: "server_config \<Rightarrow> snapshot_identity result" where
  "startup_identity c =
     (if snapshot_manifest_path c \<noteq> [] then
        and_then (deref (server_manifest c)) (\<lambda>m. Inr (identity_of m (server_generation c)))
      else Inr no_identity)"

text \<open>The store and the service; \<open>threads\<close> is how many threads the system can create.\<close>

definition build_service :: "nat \<Rightarrow> server_config \<Rightarrow> vector_index \<Rightarrow> logger \<Rightarrow> service result" where
  "build_service threads c ix lg =
     and_then (startup_identity c) (\<lambda>identity.
     and_then (store_create (Some ix) (unat (maximum_batch c)) (server_read_only c) identity) (\<lambda>st.
       service_create threads (Some st) (server_kind c) (Some lg) (server_search c) (server_publication c)))"

text \<open>\<open>~VectorSearchService\<close>: the executor is shut down, then the summary is logged.\<close>

definition destroy_service :: "(nat \<Rightarrow> int) \<Rightarrow> rpc_env \<Rightarrow> service \<Rightarrow> service" where
  "destroy_service clock env svc =
     (case executor_stop clock (view_executor svc) of
        Inl e \<Rightarrow> svc
      | Inr ex \<Rightarrow> log_rpc_summary env (put_executor ex svc))"

definition shutdown_reason :: "int \<Rightarrow> string" where
  "shutdown_reason signal = (if signal = 2 then ''SIGINT'' else if signal = 15 then ''SIGTERM'' else ''internal_stop'')"

definition server_usage :: string where
  "server_usage = ''fast_vector_server [--address HOST:PORT] [--index flat|hnsw] ''
     @ ''[--dimension D] [--max-batch-size N] [--max-message-bytes N] ''
     @ ''[--kernel scalar|auto|avx2] [--m M] [--ef-construction N] ''
     @ ''[--ef-search N] [--hnsw-seed S] ''
     @ ''[--neighbor-selection simple|heuristic] [--load-index PATH] ''
     @ ''[--read-only true|false] [--reload-on-sighup true|false] ''
     @ ''[--search-workers N] [--search-queue-capacity N] [--search-check-interval N] ''
     @ ''[--snapshot-manifest PATH] [--generation G] [--enable-snapshot-publication true|false] ''
     @ ''[--max-snapshot-bytes N] [--snapshot-staging-dir PATH]''"

text \<open>The handler of every exception of \<open>main\<close>.\<close>

definition failure_log :: "string \<Rightarrow> bool \<Rightarrow> string \<Rightarrow> cpp_error \<Rightarrow> log_record \<times> log_field list" where
  "failure_log phase snapshot_requested kind e =
     (log_default\<lparr>severity := ''ERROR'', event := (if phase = ''serving_failed'' then ''server_failed'' else ''startup_failed''),
        status_name := (case e of Invalid_argument m \<Rightarrow> ''INVALID_ARGUMENT''
          | _ \<Rightarrow> if snapshot_requested \<and> phase = ''index_initialization_failed'' then ''FAILED_PRECONDITION'' else ''INTERNAL''),
        log_index_type := kind\<rparr>,
      [text_field ''reason'' phase, text_field ''usage'' server_usage])"

section \<open>The running server\<close>

datatype monitor_phase =
    Polling
  | Reloading u64
  | Loaded vector_index
  | Replaced u64 u64
  | Replace_failed
  | Stopping
  | Shutting_down
  | Joining
  | Monitor_done

datatype main_phase = Main_starting u64 | Main_waiting | Main_done

record server =
  srv_config :: server_config
  srv_service :: service
  srv_calls :: "rpc_phase list"
  stop_signal :: int
  reload_requested :: bool
  accepting :: bool
  srv_monitor :: monitor_phase
  srv_main :: main_phase

datatype startup = Running server | Exit_failure logger | Exit_success logger

text \<open>What startup meets: the text of the manifest, the directory for temporary files, the load, the
  threads the system can create, a signal that arrives before listening, the port that is bound.\<close>

record start_env =
  manifest_files :: "string \<Rightarrow> string option"
  temporary_directory :: string
  start_load :: load_env
  start_load_log :: load_log
  start_log :: log_env
  available_threads :: nat
  early_signal :: int
  bound_port :: "u64 option"
  exit_clock :: "nat \<Rightarrow> int"
  exit_env :: rpc_env

definition fail_startup :: "start_env \<Rightarrow> string \<Rightarrow> bool \<Rightarrow> string \<Rightarrow> cpp_error \<Rightarrow> logger \<Rightarrow> startup" where
  "fail_startup env phase snapshot_requested kind e lg =
     (case failure_log phase snapshot_requested kind e of (r, fs) \<Rightarrow> Exit_failure (log_write (start_log env) r fs lg))"

definition completed_log :: "server_config \<Rightarrow> int \<Rightarrow> service \<Rightarrow> log_record \<times> log_field list" where
  "completed_log c signal svc =
     (log_default\<lparr>event := ''shutdown_completed'', status_name := ''OK'', log_index_type := server_kind c,
        log_vector_count := (case store_stats_of (svc_store svc) of Inl e \<Rightarrow> None | Inr st \<Rightarrow> Some (of_nat (stats_index_size st)))\<rparr>,
      [text_field ''reason'' (shutdown_reason signal)])"

definition the_logger :: "service \<Rightarrow> logger" where
  "the_logger svc = the (svc_logger svc)"

definition listen :: "start_env \<Rightarrow> server_config \<Rightarrow> service \<Rightarrow> startup" where
  "listen env c svc =
     (if early_signal env \<noteq> 0 then
        case completed_log c (early_signal env) svc of (r, fs) \<Rightarrow>
          Exit_success (the_logger (destroy_service (exit_clock env) (exit_env env) (log_to (start_log env) r fs svc)))
      else if bound_port env = None \<or> bound_port env = Some 0 then
        fail_startup env ''listen_failed'' (load_index_path c \<noteq> []) (server_kind c)
          (Runtime_error (''failed to start gRPC server on '' @ address c))
          (the_logger (destroy_service (exit_clock env) (exit_env env) svc))
      else Running
        \<lparr>srv_config = c, srv_service = svc, srv_calls = [], stop_signal = 0, reload_requested = False, accepting = True,
         srv_monitor = Polling, srv_main = Main_starting (the (bound_port env))\<rparr>)"

definition start_server ::
  "externals \<Rightarrow> platform \<Rightarrow> start_env \<Rightarrow> string list \<Rightarrow> logger \<Rightarrow> startup" where
  "start_server ext pf env arguments lg =
     (case parse_server_arguments ext (manifest_files env) (temporary_directory env) arguments of
        Inl e \<Rightarrow> fail_startup env ''invalid_configuration'' False [] e lg
      | Inr c \<Rightarrow>
          (case make_index ext pf c (start_load env) (start_load_log env) lg of
             (lg, Inl e) \<Rightarrow> fail_startup env ''index_initialization_failed'' (load_index_path c \<noteq> []) (server_kind c) e lg
           | (lg, Inr ix) \<Rightarrow>
               let lg = log_config (start_log env) c ix lg
               in (case build_service (available_threads env) c ix lg of
                     Inl e \<Rightarrow>
                       fail_startup env ''index_initialization_failed'' (load_index_path c \<noteq> []) (server_kind c) e lg
                   | Inr svc \<Rightarrow> listen env c svc)))"

section \<open>The monitor and the main thread\<close>

definition log_server :: "log_env \<Rightarrow> log_record \<times> log_field list \<Rightarrow> server \<Rightarrow> server" where
  "log_server env entry s = s\<lparr>srv_service := log_to env (fst entry) (snd entry) (srv_service s)\<rparr>"

definition monitor_poll :: "log_env \<Rightarrow> server \<Rightarrow> server" where
  "monitor_poll env s =
     (if stop_signal s \<noteq> 0 then
        log_server env
          (log_default\<lparr>event := ''shutdown_requested'', log_index_type := server_kind (srv_config s)\<rparr>,
           [text_field ''reason'' (shutdown_reason (stop_signal s))]) (s\<lparr>srv_monitor := Stopping\<rparr>)
      else if reload_requested s then
        case store_stats_of (svc_store (srv_service s)) of
          Inl e \<Rightarrow> s\<lparr>reload_requested := False\<rparr>
        | Inr st \<Rightarrow>
            log_server env (load_started (srv_config s) ''reload'')
              (s\<lparr>reload_requested := False, srv_monitor := Reloading (of_nat (stats_index_size st))\<rparr>)
      else s)"

definition monitor_load ::
  "externals \<Rightarrow> platform \<Rightarrow> load_env \<Rightarrow> log_env \<Rightarrow> u64 \<Rightarrow> u64 \<Rightarrow> server \<Rightarrow> server" where
  "monitor_load ext pf env lenv took previous s =
     (let r = load_body ext pf (srv_config s) env
      in log_server lenv (load_reported (srv_config s) ''reload'' (Some previous) took r)
           (s\<lparr>srv_monitor := (case r of Inl e \<Rightarrow> Polling | Inr ix \<Rightarrow> Loaded ix)\<rparr>))"

definition monitor_replace :: "vector_index \<Rightarrow> server \<Rightarrow> server" where
  "monitor_replace ix s =
     (case replace_index (Some ix) (svc_store (srv_service s)) of
        Inl e \<Rightarrow> s\<lparr>srv_monitor := Replace_failed\<rparr>
      | Inr st \<Rightarrow> s\<lparr>srv_service := (srv_service s)\<lparr>svc_store := st\<rparr>,
          srv_monitor := Replaced (of_nat (index_size ix)) (of_nat (index_dimension ix))\<rparr>)"

definition monitor_replaced :: "log_env \<Rightarrow> u64 \<Rightarrow> u64 \<Rightarrow> server \<Rightarrow> server" where
  "monitor_replaced env held_size dims s =
     log_server env
       (log_default\<lparr>event := ''index_replaced'', status_name := ''OK'', log_index_type := server_kind (srv_config s),
          log_vector_count := Some held_size\<rparr>, [number_field ''dimension'' dims]) (s\<lparr>srv_monitor := Polling\<rparr>)"

definition monitor_not_replaced :: "log_env \<Rightarrow> server \<Rightarrow> server" where
  "monitor_not_replaced env s =
     log_server env
       (log_default\<lparr>severity := ''ERROR'', event := ''index_replace_failed'', status_name := ''INTERNAL'',
          log_index_type := server_kind (srv_config s)\<rparr>,
        [text_field ''reason'' ''snapshot_publication_failed'', flag_field ''kept_previous_index'' True])
       (s\<lparr>srv_monitor := Polling\<rparr>)"

definition monitor_stop :: "(nat \<Rightarrow> int) \<Rightarrow> server \<Rightarrow> server result" where
  "monitor_stop clock s =
     and_then (executor_stop clock (view_executor (srv_service s))) (\<lambda>ex.
       Inr (s\<lparr>srv_service := put_executor ex (srv_service s), srv_monitor := Shutting_down\<rparr>))"

definition main_started :: "log_env \<Rightarrow> u64 \<Rightarrow> server \<Rightarrow> server" where
  "main_started env port s =
     log_server env
       (log_default\<lparr>event := ''server_started'', status_name := ''OK'', log_index_type := server_kind (srv_config s),
          log_vector_count := (case store_stats_of (svc_store (srv_service s)) of Inl e \<Rightarrow> None
            | Inr st \<Rightarrow> Some (of_nat (stats_index_size st)))\<rparr>, [number_field ''selected_port'' port])
       (s\<lparr>srv_main := Main_waiting\<rparr>)"

definition main_finish :: "rpc_env \<Rightarrow> log_env \<Rightarrow> server \<Rightarrow> server" where
  "main_finish env lenv s =
     (let s = s\<lparr>srv_service := log_rpc_summary env (srv_service s)\<rparr>
      in log_server lenv (completed_log (srv_config s) (stop_signal s) (srv_service s)) (s\<lparr>srv_main := Main_done\<rparr>))"

text \<open>A call of gRPC's \<open>Wait\<close> returns when the server was shut down and every call has returned. A
  load of an index of any dimension within the range of the score bounds.\<close>

definition all_replied :: "rpc_phase list \<Rightarrow> bool" where
  "all_replied ts \<longleftrightarrow> list_all (\<lambda>ph. replied ph \<noteq> None) ts"

inductive server_step :: "externals \<Rightarrow> platform \<Rightarrow> server \<Rightarrow> server \<Rightarrow> bool" for ext pf where
  start: "accepting s \<Longrightarrow> rpc_start ext pf (srv_service s) svc' ph \<Longrightarrow>
    server_step ext pf s (s\<lparr>srv_service := svc', srv_calls := srv_calls s @ [ph]\<rparr>)"
| call: "i < length (srv_calls s) \<Longrightarrow> rpc_step ext pf (srv_service s) (srv_calls s ! i) svc' ph \<Longrightarrow>
    server_step ext pf s (s\<lparr>srv_service := svc', srv_calls := (srv_calls s)[i := ph]\<rparr>)"
| worker: "worker_step pf (view_executor (srv_service s)) ex \<Longrightarrow>
    server_step ext pf s (s\<lparr>srv_service := put_executor ex (srv_service s)\<rparr>)"
| stop_signal: "signal \<in> {2, 15} \<Longrightarrow> server_step ext pf s (s\<lparr>stop_signal := signal\<rparr>)"
| reload_signal: "reload_on_sighup (srv_config s) \<Longrightarrow> server_step ext pf s (s\<lparr>reload_requested := True\<rparr>)"
| poll: "srv_monitor s = Polling \<Longrightarrow> server_step ext pf s (monitor_poll env s)"
| load: "srv_monitor s = Reloading previous \<Longrightarrow>
    (\<And>ix. load_body ext pf (srv_config s) env = Inr ix \<Longrightarrow> index_dimension ix < score_dimension (server_kernel (srv_config s))) \<Longrightarrow>
    server_step ext pf s (monitor_load ext pf env lenv took previous s)"
| replace: "srv_monitor s = Loaded ix \<Longrightarrow> server_step ext pf s (monitor_replace ix s)"
| replaced: "srv_monitor s = Replaced held_size dims \<Longrightarrow> server_step ext pf s (monitor_replaced lenv held_size dims s)"
| not_replaced: "srv_monitor s = Replace_failed \<Longrightarrow> server_step ext pf s (monitor_not_replaced lenv s)"
| stop: "srv_monitor s = Stopping \<Longrightarrow> monitor_stop clock s = Inr s' \<Longrightarrow> server_step ext pf s s'"
| shut_down: "srv_monitor s = Shutting_down \<Longrightarrow> server_step ext pf s (s\<lparr>accepting := False, srv_monitor := Joining\<rparr>)"
| join: "srv_monitor s = Joining \<Longrightarrow> shutdown_returns (svc_executor (srv_service s)) \<Longrightarrow>
    server_step ext pf s (s\<lparr>srv_monitor := Monitor_done\<rparr>)"
| started: "srv_main s = Main_starting port \<Longrightarrow> server_step ext pf s (main_started lenv port s)"
| finish: "srv_main s = Main_waiting \<Longrightarrow> srv_monitor s = Monitor_done \<Longrightarrow> all_replied (srv_calls s) \<Longrightarrow>
    server_step ext pf s (main_finish env lenv s)"

inductive server_reachable :: "externals \<Rightarrow> platform \<Rightarrow> server \<Rightarrow> bool" for ext pf where
  start: "log_contract (std_log pf) \<Longrightarrow> start_server ext pf env arguments lg = Running s \<Longrightarrow>
    store_dimension (svc_store (srv_service s)) = Inr dims \<Longrightarrow> dims < score_dimension (server_kernel (srv_config s)) \<Longrightarrow>
    server_reachable ext pf s"
| step: "server_reachable ext pf s \<Longrightarrow> server_step ext pf s s' \<Longrightarrow> server_reachable ext pf s'"

end
