(* ===== verification/Server_Theorems.thy ===== *)
theory Server_Theorems
  imports Server
begin

text \<open>
  The properties of the server process: it starts exactly when its configuration, its index and
  the system allow it; whatever it does is a run of the service; a reload publishes what the file
  holds or changes nothing; and when it exits no call and no search is left.
\<close>

section \<open>The index\<close>

lemma load_body_ok:
  assumes "load_body ext pf c env = Inr ix" "index_dimension ix < score_dimension (server_kernel c)" "log_contract (std_log pf)"
  shows "index_ok pf ix" "index_kernel ix = server_kernel c"
proof -
  have "\<exists>path contents kind. load_index pf path contents kind (server_kernel c) = Inr ix"
  proof (cases "snapshot_manifest_path c \<noteq> []")
    case True
    then show ?thesis
      using assms(1)
      by (auto simp: load_body_def load_verified_iff result_simps split: if_splits option.splits)
  next
    case False
    then have "load_index pf (load_index_path c) (seen_contents env) (server_kind c) (server_kernel c) = Inr ix"
      using assms(1) by (simp add: load_body_def load_index_def split: if_splits)
    then show ?thesis by blast
  qed
  then show "index_ok pf ix" "index_kernel ix = server_kernel c"
    using load_index_ok assms(2,3) by (auto simp: index_ok_def)
qed

text \<open>A managed snapshot is the file its manifest describes.\<close>

lemma load_body_managed:
  assumes "load_body ext pf c env = Inr ix" "managed c"
  shows "\<exists>m. server_manifest c = Some m \<and> manifest_acceptable ext m (server_kind c) (maximum_file_bytes (server_publication c))"
  using assms by (auto simp: load_body_def managed_def load_verified_iff result_simps split: if_splits option.splits)

lemma make_index_cases:
  "make_index ext pf c env ll lg = (lg', Inr ix) \<Longrightarrow>
     (load_index_path c \<noteq> [] \<longrightarrow> load_body ext pf c env = Inr ix)"
  by (auto simp: make_index_def load_snapshot_def Let_def split: prod.splits)

lemma make_index_ok:
  assumes "make_index ext pf c env ll lg = (lg', Inr ix)" "index_dimension ix < score_dimension (server_kernel c)"
    "log_contract (std_log pf)"
  shows "index_ok pf ix"
proof (cases "load_index_path c = []")
  case True
  show ?thesis
  proof (cases "server_kind c = ''flat''")
    case flat: True
    then obtain fx where "flat_create (unat (server_dimension c)) (server_kernel c) = Inr fx" "ix = Flat fx"
      using assms(1) True by (auto simp: make_index_def result_simps)
    then show ?thesis
      using assms(2,3) flat_create_inv by (fastforce simp: index_ok_def flat_create_def split: if_splits)
  next
    case False
    let ?cfg = "\<lparr>cfg_dimension = unat (server_dimension c), max_connections = unat (server_connections c),
                ef_construction = unat (server_ef_construction c), ef_search = unat (server_ef_search c),
                random_seed = server_seed c, cfg_kernel = server_kernel c, selection = server_selection c\<rparr>"
    obtain hx where hx: "hnsw_create (has_avx2 pf) ?cfg = Inr hx" "ix = Hnsw hx"
      using assms(1) True False by (auto simp: make_index_def result_simps)
    then have "hnsw_config hx = ?cfg" by (simp add: hnsw_create_Inr)
    then show ?thesis
      using assms(2,3) hx hnsw_create_wf(1) [OF hx(1)] by (simp add: index_ok_def)
  qed
next
  case False
  then show ?thesis using assms make_index_cases load_body_ok(1) by blast
qed

section \<open>Startup\<close>

text \<open>The identity a server starts with.\<close>

lemma startup_identity_ok:
  assumes "server_config_ok c" "make_index ext pf c env ll lg = (lg', Inr ix)"
  shows "\<exists>identity. startup_identity c = Inr identity
    \<and> (snapshot_id identity = []) = (generation identity = 0) \<and> (snapshot_id identity = [] \<longrightarrow> embedding_revision identity = [])
    \<and> length (snapshot_id identity) \<le> 256 \<and> length (embedding_revision identity) \<le> 256
    \<and> (generation identity \<noteq> 0 \<longleftrightarrow> managed c)"
proof (cases "managed c")
  case True
  then have c: "load_index_path c \<noteq> []" "server_generation c \<noteq> 0"
    using assms(1) by (simp_all add: server_config_ok_def modes_exclusive_def)
  then obtain m where m: "server_manifest c = Some m" "manifest_acceptable ext m (server_kind c) (maximum_file_bytes (server_publication c))"
    using load_body_managed True make_index_cases [OF assms(2)] by blast
  then have "manifest_snapshot_id m = ''sha256:'' @ sha256 m" "length (sha256 m) = 64" "length (manifest_revision m) \<le> 256"
    by (simp_all add: manifest_acceptable_def not_less)
  then show ?thesis using c m(1) True by (simp add: startup_identity_def managed_def deref_def)
next
  case False
  then show ?thesis by (simp add: startup_identity_def managed_def no_identity_def)
qed

lemma store_create_total:
  assumes "batch \<noteq> 0" "(snapshot_id identity = []) = (generation identity = 0)"
    "snapshot_id identity = [] \<longrightarrow> embedding_revision identity = []"
    "length (snapshot_id identity) \<le> 256" "length (embedding_revision identity) \<le> 256"
    "generation identity \<noteq> 0 \<longrightarrow> ro"
  shows "store_create (Some ix) batch ro identity = Inr
    \<lparr>writable_index = (if ro then None else Some ix),
     published = (if ro then Some \<lparr>snap_index = Some ix, snap_version = 1, snap_identity = identity\<rparr> else None),
     maximum_batch_size = batch, read_only = ro, successful_queries = 0, failed_queries = 0, inserted_vectors = 0\<rparr>"
  using assms by (auto simp: store_create_def publish_snapshot_def Let_def)

lemma build_service_parts:
  assumes "server_config_ok c" "make_index ext pf c env ll lg = (lg', Inr ix)"
  obtains identity st where "startup_identity c = Inr identity"
    "store_create (Some ix) (unat (maximum_batch c)) (server_read_only c) identity = Inr st"
    "\<And>lg. build_service threads c ix lg =
       service_create threads (Some st) (server_kind c) (Some lg) (server_search c) (server_publication c)"
    "read_only st = server_read_only c" "store_dimension st = Inr (index_dimension ix)"
    "\<exists>p. publication_create (Some st) (server_kind c) (server_publication c) = Inr p"
proof -
  obtain identity where id: "startup_identity c = Inr identity" "(snapshot_id identity = []) = (generation identity = 0)"
      "snapshot_id identity = [] \<longrightarrow> embedding_revision identity = []"
      "length (snapshot_id identity) \<le> 256" "length (embedding_revision identity) \<le> 256" "generation identity \<noteq> 0 \<longleftrightarrow> managed c"
    using startup_identity_ok [OF assms] by blast
  have c: "unat (maximum_batch c) \<noteq> 0" "maximum_file_bytes (server_publication c) \<noteq> 0" "managed c \<longrightarrow> server_read_only c"
      "publication_enabled (server_publication c) \<longrightarrow> managed c"
    using assms(1) by (auto simp: server_config_ok_def sizes_positive_def modes_exclusive_def unat_eq_0)
  let ?st = "\<lparr>writable_index = (if server_read_only c then None else Some ix),
     published = (if server_read_only c then Some \<lparr>snap_index = Some ix, snap_version = 1, snap_identity = identity\<rparr> else None),
     maximum_batch_size = unat (maximum_batch c), read_only = server_read_only c, successful_queries = 0,
     failed_queries = 0, inserted_vectors = 0\<rparr>"
  have st: "store_create (Some ix) (unat (maximum_batch c)) (server_read_only c) identity = Inr ?st"
    using c id by (intro store_create_total) simp_all
  show ?thesis
  proof (rule that [OF id(1) st])
    show "build_service threads c ix lg
        = service_create threads (Some ?st) (server_kind c) (Some lg) (server_search c) (server_publication c)" for lg
      by (simp add: build_service_def id(1) st)
    show "store_dimension ?st = Inr (index_dimension ix)" by (simp add: store_dimension_def serving_index_def deref_def)
    show "\<exists>p. publication_create (Some ?st) (server_kind c) (server_publication c) = Inr p"
      using c id(6) by (auto simp: publication_create_def serving_snapshot_of_def deref_def)
  qed simp
qed

lemma build_service_total:
  assumes "server_config_ok c" "make_index ext pf c env ll lg = (lg', Inr ix)"
  shows "(\<exists>svc. build_service threads c ix lg'' = Inr svc) \<longleftrightarrow> unat (workers (server_search c)) \<le> threads"
proof -
  have c: "server_kind c \<noteq> []" "workers (server_search c) \<noteq> 0" "queue_capacity (server_search c) \<noteq> 0"
      "task_check_interval (server_search c) \<noteq> 0"
    using assms(1) by (auto simp: server_config_ok_def sizes_positive_def)
  show ?thesis
  proof (rule build_service_parts [OF assms, of threads])
    fix identity st
    assume b: "\<And>lg. build_service threads c ix lg =
        service_create threads (Some st) (server_kind c) (Some lg) (server_search c) (server_publication c)"
      and p: "\<exists>p. publication_create (Some st) (server_kind c) (server_publication c) = Inr p"
    show ?thesis
      unfolding b using c p by (auto simp: service_create_def executor_create_def not_less)
  qed
qed

lemma build_service_ok:
  assumes "server_config_ok c" "make_index ext pf c env ll lg = (lg', Inr ix)" "build_service threads c ix lg'' = Inr svc"
  shows "index_ok pf ix \<Longrightarrow> service_reachable ext pf (svc, [])" "read_only (svc_store svc) = server_read_only c"
    "store_dimension (svc_store svc) = Inr (index_dimension ix)" "\<not> stopping (svc_executor svc)"
proof -
  obtain identity st where st: "startup_identity c = Inr identity"
      "store_create (Some ix) (unat (maximum_batch c)) (server_read_only c) identity = Inr st"
      "service_create threads (Some st) (server_kind c) (Some lg'') (server_search c) (server_publication c) = Inr svc"
      "read_only st = server_read_only c" "store_dimension st = Inr (index_dimension ix)"
    using build_service_parts [OF assms(1,2), of threads] assms(3) by metis
  show "service_reachable ext pf (svc, [])" if "index_ok pf ix"
    using store_create_inv [OF that st(2)] st(3) by (rule service_reachable.create)
  have "svc_store svc = st \<and> \<not> stopping (svc_executor svc)"
    using st(3) by (auto simp: service_create_def executor_create_def result_simps split: if_splits)
  then show "read_only (svc_store svc) = server_read_only c" "store_dimension (svc_store svc) = Inr (index_dimension ix)"
      "\<not> stopping (svc_executor svc)"
    using st(4,5) by simp_all
qed

section \<open>Runs\<close>

abbreviation service_moves :: "externals \<Rightarrow> platform \<Rightarrow> service \<times> rpc_phase list \<Rightarrow> service \<times> rpc_phase list \<Rightarrow> bool" where
  "service_moves ext pf \<equiv> (service_step ext pf)\<^sup>*\<^sup>*"

abbreviation served :: "server \<Rightarrow> service \<times> rpc_phase list" where
  "served s \<equiv> (srv_service s, srv_calls s)"

text \<open>Reloading is under way, or has been asked for.\<close>

definition reloads :: "server \<Rightarrow> bool" where
  "reloads s \<longleftrightarrow> reload_requested s
     \<or> (case srv_monitor s of Reloading previous \<Rightarrow> True | Loaded ix \<Rightarrow> True | Replaced held_size dims \<Rightarrow> True
        | Replace_failed \<Rightarrow> True | _ \<Rightarrow> False)"

definition server_ok :: "externals \<Rightarrow> platform \<Rightarrow> server \<Rightarrow> bool" where
  "server_ok ext pf s \<longleftrightarrow> log_contract (std_log pf) \<and> server_config_ok (srv_config s)
   \<and> read_only (svc_store (srv_service s)) = server_read_only (srv_config s)
   \<and> (reloads s \<longrightarrow> reload_on_sighup (srv_config s))
   \<and> (\<forall>ix. srv_monitor s = Loaded ix \<longrightarrow> index_ok pf ix \<and> (\<exists>env :: load_env. load_body ext pf (srv_config s) env = Inr ix))"

text \<open>What is done in the course of a shutdown.\<close>

definition shutdown_ok :: "server \<Rightarrow> bool" where
  "shutdown_ok s \<longleftrightarrow>
     (srv_monitor s \<in> {Shutting_down, Joining, Monitor_done} \<longrightarrow> stopping (svc_executor (srv_service s)))
   \<and> (accepting s \<longleftrightarrow> srv_monitor s \<notin> {Joining, Monitor_done})
   \<and> (srv_monitor s = Monitor_done \<longrightarrow> shutdown_returns (svc_executor (srv_service s)))
   \<and> (srv_main s = Main_done \<longrightarrow> srv_monitor s = Monitor_done \<and> all_replied (srv_calls s))"

lemma log_server_parts [simp]:
  "components (srv_service (log_server env entry s)) = components (srv_service s)"
  "srv_calls (log_server env entry s) = srv_calls s" "srv_config (log_server env entry s) = srv_config s"
  "srv_monitor (log_server env entry s) = srv_monitor s" "srv_main (log_server env entry s) = srv_main s"
  "accepting (log_server env entry s) = accepting s" "reload_requested (log_server env entry s) = reload_requested s"
  by (simp_all add: log_server_def)

lemma log_server_moves:
  "service_moves ext pf x (srv_service s, ts) \<Longrightarrow> service_moves ext pf x (srv_service (log_server env entry s), ts)"
  by (rule rtranclp.rtrancl_into_rtrancl) (auto simp: log_server_def intro: service_step.log)

lemma server_step_moves:
  assumes "server_step ext pf s s'" "server_ok ext pf s"
  shows "service_moves ext pf (served s) (served s')"
  using assms
proof (induction rule: server_step.induct)
  case (start s svc' ph)
  then show ?case by (auto intro: service_step.start)
next
  case (call i s svc' ph)
  then show ?case by (auto intro: service_step.call)
next
  case (worker s ex)
  then show ?case by (auto intro: service_step.worker)
next
  case (poll s env)
  then show ?case by (auto simp: monitor_poll_def intro!: log_server_moves split: sum.split)
next
  case (load s previous env lenv took)
  then show ?case by (auto simp: monitor_load_def Let_def intro!: log_server_moves)
next
  case (replace s ix)
  then have "index_ok pf ix" by (simp add: server_ok_def)
  then show ?case
    by (auto simp: monitor_replace_def intro!: r_into_rtranclp service_step.reload split: sum.split)
next
  case (replaced s held_size dims lenv)
  then show ?case by (auto simp: monitor_replaced_def intro!: log_server_moves)
next
  case (not_replaced s lenv)
  then show ?case by (auto simp: monitor_not_replaced_def intro!: log_server_moves)
next
  case (stop s clock s')
  then show ?case by (auto simp: monitor_stop_def result_simps intro!: r_into_rtranclp service_step.stop)
next
  case (started s port lenv)
  then show ?case by (auto simp: main_started_def intro!: log_server_moves)
next
  case (finish s lenv env)
  show ?case
    unfolding main_finish_def Let_def log_server_parts
    by (rule log_server_moves) (simp add: r_into_rtranclp service_step.summary)
qed simp_all

text \<open>What the store and the executor keep under any run of the service.\<close>

lemma client_step_read_only: "client_step pf ex ex' \<Longrightarrow> executor_inv pf ex \<Longrightarrow>
    read_only (exec_store ex') = read_only (exec_store ex) \<and> worker_states ex' = worker_states ex \<and> (stopping ex \<longrightarrow> stopping ex')"
proof (induction rule: client_step.induct)
  case (submit ex query k until expected now)
  show ?case by (auto simp: executor_submit_def Let_def)
next
  case (remove ex t now later ex')
  then have "settled {#} ex" by (simp add: executor_inv_def)
  then show ?case
    using remove(2) by (cases rule: remove_waiting_cases [where t = t and now = now and later = later]) auto
next
  case (stop clock ex ex')
  then show ?case
    using executor_stop_facts [of ex clock] by (cases "stopping ex") (auto simp: executor_inv_def executor_stop_def)
next
  case (store ex st)
  then show ?case using store_step_read_only by simp
qed (simp_all add: request_stop_def)

lemma worker_step_read_only: "worker_step pf ex ex' \<Longrightarrow>
    read_only (exec_store ex') = read_only (exec_store ex) \<and> stopping ex' = stopping ex
    \<and> (shutdown_returns ex \<longrightarrow> False)"
proof -
  assume step: "worker_step pf ex ex'"
  then have "read_only (exec_store ex') = read_only (exec_store ex)"
    using worker_step_store [OF step] store_step_read_only [OF store_step.search] by metis
  moreover have "stopping ex' = stopping ex" using worker_steps_stopping [OF r_into_rtranclp [where r = "worker_step pf", OF step]] .
  moreover have "\<not> shutdown_returns ex"
    using step by (induction rule: worker_step.induct) (force simp: shutdown_returns_def in_set_conv_nth)+
  ultimately show ?thesis by simp
qed

lemma executor_moves_keep:
  assumes "executor_moves pf ex ex'" "executor_inv pf ex"
  shows "read_only (exec_store ex') = read_only (exec_store ex) \<and> (stopping ex \<longrightarrow> stopping ex')
    \<and> (shutdown_returns ex \<longrightarrow> shutdown_returns ex') \<and> executor_inv pf ex'"
  using assms
proof (induction rule: rtranclp_induct)
  case (step ey ez)
  then have inv: "executor_inv pf ey" by simp
  have "read_only (exec_store ez) = read_only (exec_store ey) \<and> (stopping ey \<longrightarrow> stopping ez)
      \<and> (shutdown_returns ey \<longrightarrow> shutdown_returns ez) \<and> executor_inv pf ez"
    using step(2) worker_step_read_only worker_step_inv client_step_read_only client_step_inv inv
    by (metis shutdown_returns_def)
  then show ?case using step by auto
qed simp

lemma service_moves_executor:
  assumes "service_moves ext pf x y" "service_reachable ext pf x"
  shows "executor_moves pf (view_executor (fst x)) (view_executor (fst y))"
  using assms
proof (induction rule: rtranclp_induct)
  case (step y z)
  have "service_inv ext pf (fst y) (snd y)"
    using service_reachable_inv service_steps_reachable [OF step(1,4)] by blast
  from service_step_moves [OF step(2) this] step show ?case by (meson rtranclp_trans)
qed simp

lemma view_executor_parts [simp]:
  "stopping (view_executor svc) = stopping (svc_executor svc)" "shutdown_returns (view_executor svc) = shutdown_returns (svc_executor svc)"
  by (simp_all add: view_executor_def shutdown_returns_def)

lemma service_moves_keep:
  assumes "service_moves ext pf (svc, ts) (svc', ts')" "service_reachable ext pf (svc, ts)"
  shows "read_only (svc_store svc') = read_only (svc_store svc)" "stopping (svc_executor svc) \<Longrightarrow> stopping (svc_executor svc')"
    "shutdown_returns (svc_executor svc) \<Longrightarrow> shutdown_returns (svc_executor svc')"
proof -
  have "executor_inv pf (view_executor svc)" using service_reachable_inv [OF assms(2)] linked_store(1) by (fastforce simp: service_inv_def)
  from executor_moves_keep [OF service_moves_executor [OF assms, simplified] this]
  show "read_only (svc_store svc') = read_only (svc_store svc)" "stopping (svc_executor svc) \<Longrightarrow> stopping (svc_executor svc')"
    "shutdown_returns (svc_executor svc) \<Longrightarrow> shutdown_returns (svc_executor svc')"
    by simp_all
qed

lemma server_step_parts:
  "server_step ext pf s s' \<Longrightarrow> srv_config s' = srv_config s
     \<and> (reloads s' \<longrightarrow> reloads s \<or> reload_on_sighup (srv_config s))
     \<and> (\<forall>ix. srv_monitor s' = Loaded ix \<longrightarrow> srv_monitor s = Loaded ix
          \<or> (\<exists>env :: load_env. load_body ext pf (srv_config s) env = Inr ix) \<and> index_dimension ix < score_dimension (server_kernel (srv_config s)))"
proof (induction rule: server_step.induct)
  case (poll s env)
  then show ?case by (auto simp: monitor_poll_def reloads_def split: sum.split)
next
  case (load s previous env lenv took)
  then show ?case by (auto simp: monitor_load_def Let_def reloads_def split: sum.splits)
next
  case (replace s ix)
  then show ?case by (auto simp: monitor_replace_def reloads_def split: sum.split)
next
  case (stop s clock s')
  then show ?case by (auto simp: monitor_stop_def reloads_def result_simps)
next
  case (finish s lenv env)
  then show ?case by (auto simp: main_finish_def Let_def reloads_def)
qed (auto simp: reloads_def monitor_replaced_def monitor_not_replaced_def main_started_def)

lemma server_step_ok:
  assumes "server_step ext pf s s'" "server_ok ext pf s" "service_reachable ext pf (served s)"
  shows "server_ok ext pf s'"
proof -
  have "read_only (svc_store (srv_service s')) = read_only (svc_store (srv_service s))"
    by (rule service_moves_keep(1) [OF server_step_moves [OF assms(1,2)] assms(3)])
  moreover have "index_ok pf ix" if "load_body ext pf (srv_config s) env = Inr ix"
      "index_dimension ix < score_dimension (server_kernel (srv_config s))" for ix env
    using load_body_ok(1) [OF that] assms(2) by (simp add: server_ok_def)
  ultimately show ?thesis
    using assms(2) server_step_parts [OF assms(1)] unfolding server_ok_def by (metis (full_types))
qed

text \<open>A finished call does nothing any more.\<close>

lemma replied_stays: "rpc_step ext pf svc ph svc' ph' \<Longrightarrow> replied ph = None"
  using rpc_step_carries_on [of ext pf svc ph svc' ph'] by (auto simp: carries_on_def)

lemma server_step_shutdown:
  assumes "server_step ext pf s s'" "server_ok ext pf s" "service_reachable ext pf (served s)" "shutdown_ok s"
  shows "shutdown_ok s'"
proof -
  note keep = service_moves_keep [OF server_step_moves [OF assms(1,2)] assms(3)]
  have "executor_inv pf (view_executor (srv_service s))"
    using service_reachable_inv [OF assms(3)] linked_store(1) by (fastforce simp: service_inv_def)
  with assms(1) show ?thesis
    using assms(4) keep(2,3)
  proof (induction rule: server_step.induct)
    case (start s svc' ph)
    then show ?case by (auto simp: shutdown_ok_def)
  next
    case (call i s svc' ph)
    have "\<not> all_replied (srv_calls s)"
      using nth_mem [OF call(1)] replied_stays [OF call(2)] by (auto simp: all_replied_def list_all_iff)
    then show ?case using call by (auto simp: shutdown_ok_def)
  next
    case (poll s env)
    then show ?case by (auto simp: shutdown_ok_def monitor_poll_def split: sum.splits if_splits)
  next
    case (load s previous env lenv took)
    then show ?case by (auto simp: shutdown_ok_def monitor_load_def Let_def split: sum.splits)
  next
    case (replace s ix)
    then show ?case by (auto simp: shutdown_ok_def monitor_replace_def split: sum.splits)
  next
    case (stop s clock s')
    then obtain ex where ex: "executor_stop clock (view_executor (srv_service s)) = Inr ex"
        "s' = s\<lparr>srv_service := put_executor ex (srv_service s), srv_monitor := Shutting_down\<rparr>"
      by (auto simp: monitor_stop_def result_simps)
    then have "stopping ex"
      using stop(3) executor_stop_facts [of "view_executor (srv_service s)" clock] ex(1)
      by (cases "stopping (view_executor (srv_service s))") (auto simp: executor_inv_def executor_stop_def)
    then show ?case using stop ex by (auto simp: shutdown_ok_def)
  next
    case (finish s lenv env)
    then show ?case by (auto simp: shutdown_ok_def main_finish_def Let_def)
  qed (auto simp: shutdown_ok_def monitor_replaced_def monitor_not_replaced_def main_started_def)
qed

lemma start_running:
  "start_server ext pf env arguments lg = Running s \<longleftrightarrow>
     (\<exists>c lg' ix svc. parse_server_arguments ext (manifest_files env) (temporary_directory env) arguments = Inr c
        \<and> make_index ext pf c (start_load env) (start_load_log env) lg = (lg', Inr ix)
        \<and> build_service (available_threads env) c ix (log_config (start_log env) c ix lg') = Inr svc
        \<and> early_signal env = 0 \<and> bound_port env \<noteq> None \<and> bound_port env \<noteq> Some 0
        \<and> s = \<lparr>srv_config = c, srv_service = svc, srv_calls = [], stop_signal = 0, reload_requested = False,
            accepting = True, srv_monitor = Polling, srv_main = Main_starting (the (bound_port env))\<rparr>)"
proof -
  have "fail_startup env phase requested kind e lg \<noteq> Running s" for phase requested kind e lg
    by (simp add: fail_startup_def split: prod.split)
  then show ?thesis
    by (auto simp: start_server_def listen_def Let_def split: sum.splits prod.splits if_splits)
qed

lemma server_reachable_ok:
  "server_reachable ext pf s \<Longrightarrow> service_reachable ext pf (served s) \<and> server_ok ext pf s \<and> shutdown_ok s"
proof (induction rule: server_reachable.induct)
  case (start env arguments lg s dims)
  obtain c lg' ix svc where run: "parse_server_arguments ext (manifest_files env) (temporary_directory env) arguments = Inr c"
      "make_index ext pf c (start_load env) (start_load_log env) lg = (lg', Inr ix)"
      "build_service (available_threads env) c ix (log_config (start_log env) c ix lg') = Inr svc"
      "s = \<lparr>srv_config = c, srv_service = svc, srv_calls = [], stop_signal = 0, reload_requested = False,
            accepting = True, srv_monitor = Polling, srv_main = Main_starting (the (bound_port env))\<rparr>"
    using start(2) by (auto simp: start_running)
  note built = build_service_ok [OF parse_server_ok [OF run(1)] run(2,3)]
  have "index_dimension ix < score_dimension (server_kernel c)" using start(3,4) run(4) built(3) by simp
  then have "index_ok pf ix" using make_index_ok [OF run(2)] start(1) by blast
  note built = built(1) [OF this] built(2,4)
  then show ?case
    using start(1) parse_server_ok [OF run(1)] run(4) by (simp add: server_ok_def reloads_def shutdown_ok_def)
next
  case (step s s')
  then have reach: "service_reachable ext pf (served s)" and ok: "server_ok ext pf s" by simp_all
  then show ?case
    using service_steps_reachable [OF server_step_moves [OF step(2) ok] reach] server_step_ok [OF step(2) ok reach]
      server_step_shutdown [OF step(2) ok reach] step by blast
qed

section \<open>A sample run\<close>

definition sample_arguments :: "string list" where
  "sample_arguments = [''--index'', ''flat'', ''--load-index'', ''vectors.fvi'', ''--read-only'', ''true'', ''--reload-on-sighup'', ''true'']"

definition sample_server_config :: server_config where
  "sample_server_config = (default_server_config ''/tmp'')
     \<lparr>server_kind := ''flat'', load_index_path := ''vectors.fvi'', server_read_only := True, reload_on_sighup := True\<rparr>"

definition sample_load :: load_env where
  "sample_load = \<lparr>staging_made = True, seen_size = Some 80, seen_contents = Some (flat_encode flat_sample), staging_name = ''s''\<rparr>"

definition quiet_log :: log_env where
  "quiet_log = \<lparr>log_time = 0, line_built = True, stream_takes = None\<rparr>"

definition sample_start :: start_env where
  "sample_start = \<lparr>manifest_files = \<lambda>_. None, temporary_directory = ''/tmp'', start_load = sample_load,
     start_load_log = \<lparr>log_before = quiet_log, log_after = quiet_log, load_us = 0\<rparr>, start_log = quiet_log,
     available_threads = 2, early_signal = 0, bound_port = Some 50051, exit_clock = \<lambda>n. int n, exit_env = sample_rpc\<rparr>"

definition empty_log :: logger where
  "empty_log = \<lparr>log_output = [], log_failed = False, dropped = 0\<rparr>"

lemma sample_arguments_parsed: "parse_server_arguments ext files ''/tmp'' sample_arguments = Inr sample_server_config"
  by (simp add: parse_server_arguments_def sample_arguments_def server_option_def server_bool_def finish_server_arguments_def
      sample_server_config_def default_server_config_def)

lemma sample_load_body: "load_body ext pf sample_server_config sample_load = Inr (Flat flat_sample)"
proof -
  have "flat_load path (Some (flat_encode flat_sample)) Scalar = Inr flat_sample" for path
    using flat_load_storable [OF flat_sample_storable] flat_sample_def [THEN arg_cong [where f = flat_kernel]] by simp
  then show ?thesis by (simp add: load_body_def sample_server_config_def default_server_config_def sample_load_def)
qed

lemma sample_config_fields [simp]:
  "load_index_path sample_server_config = ''vectors.fvi''" "server_kernel sample_server_config = Scalar"
  "workers (server_search sample_server_config) = 2" "reload_on_sighup sample_server_config" "server_read_only sample_server_config"
  by (simp_all add: sample_server_config_def default_server_config_def)

lemma sample_make_index:
  "\<exists>lg'. make_index ext pf sample_server_config sample_load ll lg = (lg', Inr (Flat flat_sample))"
  by (simp add: make_index_def load_snapshot_def Let_def sample_load_body split: prod.split)

lemma sample_server_started:
  "\<exists>s. start_server ext sample_platform sample_start sample_arguments empty_log = Running s
     \<and> server_reachable ext sample_platform s \<and> srv_config s = sample_server_config \<and> srv_monitor s = Polling
     \<and> srv_main s = Main_starting 50051 \<and> stop_signal s = 0 \<and> srv_calls s = [] \<and> \<not> stopping (svc_executor (srv_service s))"
proof -
  have parsed: "parse_server_arguments ext (manifest_files sample_start) (temporary_directory sample_start) sample_arguments
      = Inr sample_server_config"
    using sample_arguments_parsed by (simp add: sample_start_def)
  obtain lg' where made: "make_index ext sample_platform sample_server_config (start_load sample_start)
      (start_load_log sample_start) empty_log = (lg', Inr (Flat flat_sample))"
    using sample_make_index sample_start_def [THEN arg_cong [where f = start_load]] unfolding start_env.simps by metis
  have "unat (workers (server_search sample_server_config)) \<le> 2" by simp
  then obtain svc where svc: "build_service 2 sample_server_config (Flat flat_sample)
      (log_config (start_log sample_start) sample_server_config (Flat flat_sample) lg') = Inr svc"
    using build_service_total [OF parse_server_ok [OF parsed] made] by blast
  note built = build_service_ok [OF parse_server_ok [OF parsed] made svc]
  let ?s = "\<lparr>srv_config = sample_server_config, srv_service = svc, srv_calls = [], stop_signal = 0, reload_requested = False,
            accepting = True, srv_monitor = Polling, srv_main = Main_starting 50051\<rparr>"
  have run: "start_server ext sample_platform sample_start sample_arguments empty_log = Running ?s"
    unfolding start_running using parsed made svc
    by (intro exI [of _ sample_server_config] exI [of _ lg'] exI [of _ "Flat flat_sample"] exI [of _ svc]) (simp add: sample_start_def)
  have "server_reachable ext sample_platform ?s"
  proof (rule server_reachable.start [OF _ run])
    show "log_contract (std_log sample_platform)" using coarse_log_contract by (simp add: sample_platform_def)
    show "store_dimension (svc_store (srv_service ?s)) = Inr 1" using built(3) by (simp add: flat_sample_def)
  qed (simp add: score_dimension_def)
  then show ?thesis using run built(4) by (intro exI [of _ ?s]) simp
qed

lemma sample_server_loaded:
  "\<exists>s. server_reachable ext sample_platform s \<and> srv_config s = sample_server_config \<and> srv_monitor s = Loaded (Flat flat_sample)"
proof -
  obtain s where s: "server_reachable ext sample_platform s" "srv_config s = sample_server_config" "srv_monitor s = Polling"
      "stop_signal s = 0"
    using sample_server_started by blast
  let ?r = "s\<lparr>reload_requested := True\<rparr>"
  have r: "server_reachable ext sample_platform ?r"
    using s by (intro server_reachable.step [OF s(1) server_step.reload_signal]) simp
  have lk: "linked ext sample_platform (srv_service s) (\<Union>ph\<in>set (srv_calls s). flight ph)"
    using server_reachable_ok [OF s(1)] service_reachable_inv by (fastforce simp: service_inv_def)
  obtain st where st: "store_stats_of (svc_store (srv_service s)) = Inr st"
    using linked_store(2) [OF lk] by (auto simp: store_stats_of_def store_inv_def snapshot_ok_def deref_def split: if_splits)
  let ?p = "monitor_poll quiet_log ?r"
  have p: "server_reachable ext sample_platform ?p"
    using s(3) by (intro server_reachable.step [OF r server_step.poll]) simp
  have mp: "srv_monitor ?p = Reloading (of_nat (stats_index_size st))" "srv_config ?p = sample_server_config"
    using s st by (simp_all add: monitor_poll_def)
  let ?l = "monitor_load ext sample_platform sample_load quiet_log 0 (of_nat (stats_index_size st)) ?p"
  have "server_reachable ext sample_platform ?l"
  proof (rule server_reachable.step [OF p server_step.load [OF mp(1)]])
    fix ix assume "load_body ext sample_platform (srv_config ?p) sample_load = Inr ix"
    then have "ix = Flat flat_sample" using mp(2) sample_load_body by simp
    then show "index_dimension ix < score_dimension (server_kernel (srv_config ?p))"
      using mp(2) by (simp add: flat_sample_def score_dimension_def)
  qed
  then show ?thesis using mp(2) sample_load_body by (intro exI [of _ ?l]) (simp add: monitor_load_def Let_def)
qed

lemma server_workers:
  "(worker_step pf)\<^sup>*\<^sup>* (view_executor (srv_service s)) ex \<Longrightarrow> server_reachable ext pf s \<Longrightarrow>
     \<exists>s'. server_reachable ext pf s' \<and> view_executor (srv_service s') = ex \<and> srv_monitor s' = srv_monitor s
       \<and> srv_main s' = srv_main s \<and> srv_calls s' = srv_calls s"
proof (induction rule: rtranclp_induct)
  case (step ey ez)
  then obtain s' where s': "server_reachable ext pf s'" "view_executor (srv_service s') = ey" "srv_monitor s' = srv_monitor s"
      "srv_main s' = srv_main s" "srv_calls s' = srv_calls s"
    by blast
  have "server_step ext pf s' (s'\<lparr>srv_service := put_executor ez (srv_service s')\<rparr>)"
    using step(2) s'(2) by (intro server_step.worker) simp
  then show ?case using server_reachable.step [OF s'(1)] s' by fastforce
qed blast

lemma executor_stop_total: "executor_inv pf ex \<Longrightarrow> \<exists>ex'. executor_stop clock ex = Inr ex'"
  using executor_stop_facts [of ex clock] by (cases "stopping ex") (auto simp: executor_inv_def executor_stop_def)

lemma sample_server_exited:
  "\<exists>s. server_reachable ext sample_platform s \<and> srv_main s = Main_done"
proof -
  let ?ok = "\<lambda>s m. server_reachable ext sample_platform s \<and> srv_monitor s = m \<and> srv_main s = Main_waiting \<and> srv_calls s = []"
  obtain s0 where s0: "server_reachable ext sample_platform s0" "srv_monitor s0 = Polling" "srv_main s0 = Main_starting 50051"
      "srv_calls s0 = []"
    using sample_server_started by blast
  let ?s1 = "main_started quiet_log 50051 s0"
  have s1: "?ok ?s1 Polling"
    using server_reachable.step [OF s0(1) server_step.started [OF s0(3)]] s0 by (simp add: main_started_def)
  let ?s2 = "?s1\<lparr>stop_signal := 15\<rparr>"
  have s2: "?ok ?s2 Polling" using s1 server_reachable.step [OF _ server_step.stop_signal [of 15 ext sample_platform ?s1]] by simp
  let ?s3 = "monitor_poll quiet_log ?s2"
  have s3: "?ok ?s3 Stopping"
    using s2 server_reachable.step [OF _ server_step.poll [of ?s2 ext sample_platform quiet_log]] by (simp add: monitor_poll_def)
  then have inv: "service_inv ext sample_platform (srv_service ?s3) (srv_calls ?s3)"
    using server_reachable_ok service_reachable_inv by fastforce
  then have exi: "executor_inv sample_platform (view_executor (srv_service ?s3))" by (auto simp: service_inv_def intro: linked_store(1))
  obtain ex where ex: "executor_stop (\<lambda>n. int n) (view_executor (srv_service ?s3)) = Inr ex"
    using executor_stop_total [OF exi] by blast
  let ?s4 = "?s3\<lparr>srv_service := put_executor ex (srv_service ?s3), srv_monitor := Shutting_down\<rparr>"
  have "monitor_stop (\<lambda>n. int n) ?s3 = Inr ?s4" using ex by (simp add: monitor_stop_def)
  then have s4: "?ok ?s4 Shutting_down" using s3 server_reachable.step [OF _ server_step.stop] by auto
  let ?s5 = "?s4\<lparr>accepting := False, srv_monitor := Joining\<rparr>"
  have s5: "?ok ?s5 Joining" using s4 server_reachable.step [OF _ server_step.shut_down [of ?s4 ext sample_platform]] by simp
  obtain ey where ey: "(worker_step sample_platform)\<^sup>*\<^sup>* (view_executor (srv_service ?s5)) ey" "\<nexists>z. worker_step sample_platform ey z"
    using workers_come_to_rest by blast
  obtain s6 where s6: "?ok s6 Joining" "view_executor (srv_service s6) = ey" using server_workers [OF ey(1)] s5 by fastforce
  have "shutdown_ok s6" "service_reachable ext sample_platform (served s6)" using server_reachable_ok s6(1) by blast+
  then have "stopping (svc_executor (srv_service s6))" "executor_inv sample_platform (view_executor (srv_service s6))"
    using s6(1) service_reachable_inv linked_store(1) by (fastforce simp: shutdown_ok_def service_inv_def)+
  then have "shutdown_returns (svc_executor (srv_service s6))" using at_rest(3) [of sample_platform ey] s6(2) ey(2) by auto
  then have s7: "?ok (s6\<lparr>srv_monitor := Monitor_done\<rparr>) Monitor_done"
    using s6(1) server_reachable.step [OF _ server_step.join [of s6 ext sample_platform]] by simp
  let ?s8 = "main_finish sample_rpc quiet_log (s6\<lparr>srv_monitor := Monitor_done\<rparr>)"
  have "server_reachable ext sample_platform ?s8"
    using s7 by (intro server_reachable.step [OF _ server_step.finish]) (simp_all add: all_replied_def)
  then show ?thesis by (intro exI [of _ ?s8]) (simp add: main_finish_def Let_def)
qed

section \<open>The properties\<close>


text \<open>C35: whatever the server does is a run of its service. Under every interleaving of calls,
  workers, signals, the monitor and the main thread, the service is in a state its own runs
  reach; the store stays read-only or writable as configured; and the index is only ever
  reloaded on a server that was configured for it, which is never a managed one.\<close>

theorem server_runs_service:
  assumes "server_reachable ext pf s"
  shows "service_reachable ext pf (srv_service s, srv_calls s) \<and> server_config_ok (srv_config s)
    \<and> read_only (svc_store (srv_service s)) = server_read_only (srv_config s)
    \<and> (reloads s \<longrightarrow> reload_on_sighup (srv_config s) \<and> \<not> managed (srv_config s)
         \<and> \<not> publication_enabled (server_publication (srv_config s)))"
  using server_reachable_ok [OF assms] by (auto simp: server_ok_def server_config_ok_def modes_exclusive_def)

theorem server_runs_service_witness:
  "\<exists>s. start_server sample_externals sample_platform sample_start sample_arguments empty_log = Running s
     \<and> service_reachable sample_externals sample_platform (srv_service s, []) \<and> read_only (svc_store (srv_service s))"
proof -
  obtain s where s: "start_server sample_externals sample_platform sample_start sample_arguments empty_log = Running s"
      "server_reachable sample_externals sample_platform s" "srv_config s = sample_server_config" "srv_calls s = []"
    using sample_server_started by blast
  from server_runs_service [OF s(2)] s show ?thesis by auto
qed



text \<open>C37: nothing is left when the server exits. Once the main thread is done, every call has been
  answered and counted, every admitted search has its outcome, the queue is empty and every
  worker has returned, and no call is accepted any more.\<close>

theorem server_exit_complete:
  assumes "server_reachable ext pf s" "srv_main s = Main_done"
  shows "(\<forall>ph\<in>set (srv_calls s). replied ph \<noteq> None)
    \<and> sum_list (status_counts (srv_service s)) = of_nat (length (srv_calls s))
    \<and> None \<notin> set (promises (svc_executor (srv_service s))) \<and> queue (svc_executor (srv_service s)) = []
    \<and> shutdown_returns (svc_executor (srv_service s)) \<and> \<not> accepting s"
proof -
  let ?svc = "srv_service s"
  note ok = server_reachable_ok [OF assms(1)]
  then have gone: "all_replied (srv_calls s)" "shutdown_returns (svc_executor ?svc)" "\<not> accepting s"
    using assms(2) by (auto simp: shutdown_ok_def)
  have inv: "service_inv ext pf ?svc (srv_calls s)" using ok service_reachable_inv by fastforce
  then have "tally ?svc (srv_calls s)" "executor_inv pf (view_executor ?svc)"
    using linked_store(1) by (auto simp: service_inv_def)
  moreover have "filter (\<lambda>ph. replied ph \<noteq> None) (srv_calls s) = srv_calls s"
    using gone(1) by (simp add: all_replied_def list_all_iff)
  ultimately have "sum_list (status_counts ?svc) = of_nat (length (srv_calls s))"
    using sum_counters [of "status_counts ?svc" "srv_calls s"] by (simp add: tally_def del: mset_map)
  moreover have "queue (view_executor ?svc) = [] \<and> None \<notin> set (promises (view_executor ?svc))"
    using at_rest(1,2) [OF \<open>executor_inv pf (view_executor ?svc)\<close>] worker_step_read_only gone(2) by fastforce
  ultimately show ?thesis using gone by (simp add: view_executor_def all_replied_def list_all_iff)
qed


theorem server_exit_complete_witness:
  "\<exists>s :: server. srv_main s = Main_done \<and> shutdown_returns (svc_executor (srv_service s))
     \<and> sum_list (status_counts (srv_service s)) = of_nat (length (srv_calls s))"
proof -
  obtain s where s: "server_reachable sample_externals sample_platform s" "srv_main s = Main_done"
    using sample_server_exited by blast
  from server_exit_complete [OF s] show ?thesis using s(2) by blast
qed

end
