(* ===== verification/Rebuild_Hnsw.thy ===== *)
theory Rebuild_Hnsw
  imports Hnsw_Publish Vector_Jsonl Error_Text
begin

text \<open>
  tools/rebuild_hnsw_index.cpp: the command that rebuilds a snapshot of an approximate index
  without its tombstones and publishes the result under another name. The lemmas show that the source is
  left alone, that its check of the rebuilt index cannot fail, and what a success means.
\<close>

section \<open>Arguments\<close>

record rebuild_options =
  rebuild_input :: string
  rebuild_output :: string
  rebuild_seed :: "u64 option"
  rebuild_overwrite :: bool

definition default_rebuild_options :: rebuild_options where
  "default_rebuild_options = \<lparr>rebuild_input = [], rebuild_output = [], rebuild_seed = None, rebuild_overwrite = False\<rparr>"

definition rebuild_option :: "string \<Rightarrow> string \<Rightarrow> rebuild_options \<Rightarrow> rebuild_options result" where
  "rebuild_option name text opts =
     (if name = ''--input'' then Inr (opts\<lparr>rebuild_input := text\<rparr>)
      else if name = ''--output'' then Inr (opts\<lparr>rebuild_output := text\<rparr>)
      else if name = ''--seed'' then
        (case whole_u64 text of
           None \<Rightarrow> Inl (Invalid_argument ''invalid rebuild seed'')
         | Some seed \<Rightarrow> Inr (opts\<lparr>rebuild_seed := Some seed\<rparr>))
      else if name = ''--overwrite'' \<and> (text = ''true'' \<or> text = ''false'') then
        Inr (opts\<lparr>rebuild_overwrite := text = ''true''\<rparr>)
      else Inl (Invalid_argument (''unknown rebuild option or invalid value: '' @ name)))"

fun rebuild_options_loop :: "string list \<Rightarrow> rebuild_options \<Rightarrow> rebuild_options result" where
  "rebuild_options_loop [] opts = Inr opts"
| "rebuild_options_loop [name] opts = Inl (Invalid_argument ''every rebuild option requires a value'')"
| "rebuild_options_loop (name # text # rest) opts =
     and_then (rebuild_option name text opts) (rebuild_options_loop rest)"

text \<open>What the command meets besides the system calls of the publication: the canonical form of a
  path (\<open>None\<close>: it cannot be determined), whether comparing with a missing file is an error
  (the library's versions differ), whether the source can be opened, and whether the sizes of the
  files can be read for the report.\<close>

record rebuild_env = publish_env +
  canonical :: "string \<Rightarrow> string option"
  missing_is_error :: bool
  source_opens :: bool
  sizes_readable :: bool

definition files_equivalent :: "rebuild_env \<Rightarrow> string \<Rightarrow> string \<Rightarrow> disk \<Rightarrow> bool result" where
  "files_equivalent env first second d =
     (if names d first = None \<or> names d second = None then
        if missing_is_error env \<or> names d first = names d second then Inl (Runtime_error ''cannot check file equivalence'')
        else Inr False
      else Inr (names d first = names d second))"

definition rebuild_paths :: "rebuild_env \<Rightarrow> rebuild_options \<Rightarrow> disk \<Rightarrow> unit result" where
  "rebuild_paths env opts d =
     (if rebuild_input opts = [] \<or> rebuild_output opts = [] then
        Inl (Invalid_argument ''--input and --output are required'')
      else case (canonical env (rebuild_input opts), canonical env (rebuild_output opts)) of
        (Some source, Some target) \<Rightarrow>
          and_then
            (if source = target then Inr True
             else if names d (rebuild_output opts) \<noteq> None then
               files_equivalent env (rebuild_input opts) (rebuild_output opts) d
             else Inr False) (\<lambda>same.
          if same then Inl (Invalid_argument ''rebuild output must be different from the input snapshot'') else Inr ())
      | _ \<Rightarrow> Inl (Runtime_error ''cannot make canonical path''))"

text \<open>The arguments after the name of the program.\<close>

definition parse_rebuild_arguments :: "rebuild_env \<Rightarrow> string list \<Rightarrow> disk \<Rightarrow> rebuild_options result" where
  "parse_rebuild_arguments env arguments d =
     and_then (rebuild_options_loop arguments default_rebuild_options) (\<lambda>opts.
     and_then (rebuild_paths env opts d) (\<lambda>_. Inr opts))"

section \<open>The command\<close>

definition load_source :: "bool \<Rightarrow> rebuild_env \<Rightarrow> rebuild_options \<Rightarrow> disk \<Rightarrow> hnsw_index result" where
  "load_source avx2 env opts d =
     hnsw_load avx2 (rebuild_input opts) (if source_opens env then disk_read (rebuild_input opts) d else None) Scalar"

definition seed_of :: "rebuild_options \<Rightarrow> hnsw_index \<Rightarrow> u64" where
  "seed_of opts source = (case rebuild_seed opts of None \<Rightarrow> random_seed (hnsw_config source) | Some seed \<Rightarrow> seed)"

definition verify_rebuilt :: "hnsw_index \<Rightarrow> hnsw_index \<Rightarrow> unit result" where
  "verify_rebuilt source rebuilt =
     and_then (live_ids source) (\<lambda>before.
     and_then (live_ids rebuilt) (\<lambda>after.
     if before \<noteq> after \<or> stat_deleted_count (hnsw_stats_of rebuilt) \<noteq> 0
       \<or> stat_node_count (hnsw_stats_of rebuilt) \<noteq> stat_live_count (hnsw_stats_of source) then
       Inl (Runtime_error ''rebuilt index failed live-ID/count verification'')
     else Inr ()))"

definition rebuild_source ::
  "bool \<Rightarrow> (f64 \<Rightarrow> f64) \<Rightarrow> rebuild_env \<Rightarrow> rebuild_options \<Rightarrow> disk \<Rightarrow> hnsw_index result" where
  "rebuild_source avx2 lg env opts d =
     and_then (load_source avx2 env opts d) (\<lambda>source.
     and_then (hnsw_rebuild avx2 lg (seed_of opts source) source) (\<lambda>rebuilt.
     and_then (verify_rebuilt source rebuilt) (\<lambda>_. Inr rebuilt)))"

text \<open>The states of the disk and how the command ends. The sizes are read for the report only after
  the publication.\<close>

definition rebuild_command ::
  "bool \<Rightarrow> (f64 \<Rightarrow> f64) \<Rightarrow> rebuild_env \<Rightarrow> rebuild_options \<Rightarrow> disk \<Rightarrow> disk list \<times> unit result" where
  "rebuild_command avx2 lg env opts d =
     (case rebuild_source avx2 lg env opts d of
        Inl e \<Rightarrow> ([d], Inl e)
      | Inr rebuilt \<Rightarrow>
          (case publish_hnsw_index avx2 (publish_env.truncate env) rebuilt (rebuild_output opts) (rebuild_overwrite opts) d of
             (trace, r) \<Rightarrow>
               (trace, and_then r (\<lambda>_.
                  if sizes_readable env then Inr () else Inl (Runtime_error ''cannot get file size'')))))"

definition rebuild_usage :: string where
  "rebuild_usage = ''Usage: fast_vector_rebuild_hnsw --input SOURCE --output DESTINATION ''
     @ ''[--seed UINT64] [--overwrite true|false]'' @ [CHR 0x0A]"

text \<open>\<open>main\<close>: the exit code and what goes to the error stream.\<close>

definition rebuild_main ::
  "bool \<Rightarrow> (f64 \<Rightarrow> f64) \<Rightarrow> rebuild_env \<Rightarrow> string list \<Rightarrow> disk \<Rightarrow> disk list \<times> nat \<times> string" where
  "rebuild_main avx2 lg env arguments d =
     (let (trace, r) = (case parse_rebuild_arguments env arguments d of
            Inl e \<Rightarrow> ([d], Inl e)
          | Inr opts \<Rightarrow> rebuild_command avx2 lg env opts d)
      in case r of
           Inr u \<Rightarrow> (trace, 0, [])
         | Inl e \<Rightarrow> (trace, 1, ''HNSW rebuild failed: '' @ error_text e @ [CHR 0x0A] @ rebuild_usage))"

section \<open>The source is left alone\<close>

definition kept :: "string \<Rightarrow> disk \<Rightarrow> disk \<Rightarrow> bool" where
  "kept name d x \<longleftrightarrow> names x name = names d name \<and> (\<forall>i < next_inode d. contents x i = contents d i)"

lemma kept_read: "disk_wf d \<Longrightarrow> kept name d x \<Longrightarrow> disk_read name x = disk_read name d"
  by (cases "names d name") (auto simp: kept_def disk_read_def disk_wf_def)

lemma kept_untouched: "untouched name d x \<Longrightarrow> kept name d x"
  by (simp add: kept_def untouched_def)

lemma kept_refl [simp]: "kept name d d"
  by (simp add: kept_def)

lemma kept_moves:
  "kept name d x \<Longrightarrow> kept name d (disk_sync_file t x)"
  "kept name d x \<Longrightarrow> kept name d (disk_sync_directory x)"
  "kept name d x \<Longrightarrow> name \<noteq> t \<Longrightarrow> kept name d (disk_unlink t x)"
  "kept name d x \<Longrightarrow> name \<noteq> t \<Longrightarrow> kept name d (drop_temporary works t x)"
  "kept name d x \<Longrightarrow> name \<noteq> p \<Longrightarrow> kept name d (disk_link t p x)"
  "kept name d x \<Longrightarrow> name \<noteq> t \<Longrightarrow> name \<noteq> p \<Longrightarrow> kept name d (disk_rename t p x)"
  by (auto simp: kept_def disk_sync_file_def disk_sync_directory_def disk_unlink_def drop_temporary_def disk_link_def
      disk_rename_def split: option.split)

definition all_kept :: "string \<Rightarrow> disk \<Rightarrow> disk list \<Rightarrow> bool" where
  "all_kept name d trace \<longleftrightarrow> trace \<noteq> [] \<and> (\<forall>x\<in>set trace. kept name d x)"

lemma all_kept_steps:
  "all_kept name d trace \<Longrightarrow> kept name d x \<Longrightarrow> all_kept name d (trace @ [x])"
  "all_kept name d trace \<Longrightarrow> kept name d (last trace)"
  by (auto simp: all_kept_def)

lemma leave_scope_kept:
  "all_kept name d trace \<Longrightarrow> name \<noteq> t \<Longrightarrow> all_kept name d (fst (leave_scope env t trace r))"
  by (simp add: leave_scope_def all_kept_steps kept_moves)

lemma sync_parent_kept:
  "all_kept name d trace \<Longrightarrow> name \<noteq> t \<Longrightarrow> all_kept name d (fst (sync_parent env t trace))"
  by (simp add: sync_parent_def leave_scope_kept all_kept_steps kept_moves)

lemma install_file_kept:
  assumes "all_kept name d trace" "name \<noteq> t" "name \<noteq> p"
  shows "all_kept name d (fst (install_file env t p overwrite trace))"
proof -
  note last = all_kept_steps(2) [OF assms(1)]
  have linked: "all_kept name d (trace @ [disk_link t p (last trace)])"
    using assms last by (intro all_kept_steps(1) kept_moves)
  have "all_kept name d (trace @ [disk_link t p (last trace), disk_unlink t (disk_link t p (last trace))])"
    using all_kept_steps(1) [OF linked, of "disk_unlink t (disk_link t p (last trace))"] assms last by (simp add: kept_moves)
  moreover have "all_kept name d (trace @ [disk_rename t p (last trace)])"
    using assms last by (intro all_kept_steps(1) kept_moves)
  ultimately show ?thesis
    using assms linked by (simp add: install_file_def Let_def leave_scope_kept sync_parent_kept)
qed

lemma publish_keeps:
  assumes "name \<noteq> path" "\<And>suffix. temporary_suffix env = Some suffix \<Longrightarrow> name \<noteq> temporary_name path suffix"
  shows "all_kept name d (fst (publish_hnsw_index avx2 env ix path overwrite d))"
proof (cases "names_a_file path \<and> temporary_suffix env \<noteq> None")
  case False
  then show ?thesis by (auto simp: publish_hnsw_index_def all_kept_def)
next
  case True
  then obtain suffix where suffix: "temporary_suffix env = Some suffix" by blast
  let ?t = "temporary_name path suffix" let ?created = "disk_create ?t d"
  have t: "name \<noteq> ?t" using assms(2) [OF suffix] .
  obtain out r where save: "hnsw_save (save_opens env) (save_capacity env) (save_flushes env) ?t ix = (out, r)" by fastforce
  let ?saved = "case out of None \<Rightarrow> ?created | Some c \<Rightarrow> disk_write ?t c ?created"
  have kept: "kept name d ?created" "kept name d ?saved"
    using created_untouched(1,2) [of ?t name d] t by (auto intro: kept_untouched split: option.split)
  then have "all_kept name d [d, ?created, ?saved]" "all_kept name d [d, ?created, ?saved, disk_sync_file ?t ?saved]"
    by (simp_all add: all_kept_def kept_moves)
  then show ?thesis
    using True suffix save assms(1) t
    by (auto simp: publish_hnsw_index_def Let_def leave_scope_kept install_file_kept split: sum.split)
qed

section \<open>The rebuilt index\<close>

lemma load_present: "hnsw_load avx2 path None kern \<noteq> Inr ix"
  by (simp add: hnsw_load_def)

lemma load_kernel: "hnsw_load avx2 path file_content kern = Inr ix \<Longrightarrow> cfg_kernel (hnsw_config ix) = kern"
  using load_present by (cases file_content) (auto simp: hnsw_load_iff)

lemma load_room:
  assumes "hnsw_load avx2 path file_content kern = Inr ix"
  shows "length (hnsw_vectors ix) \<le> vector_max_size"
proof (cases file_content)
  case (Some content)
  then obtain header t rest where "snapshot_of avx2 content header t rest ix" using assms by (auto simp: hnsw_load_iff)
  then show ?thesis by (simp add: snapshot_of_def stored_ok_def vector_max_size_def)
qed (use assms in \<open>simp add: hnsw_load_def\<close>)

text \<open>The check of the command cannot fail: the rebuilt index has the live IDs of the source, in
  as many nodes.\<close>

lemma verify_rebuilt_holds:
  assumes "hnsw_wf source" "hnsw_wf rebuilt" "hnsw_abs rebuilt = hnsw_abs source" "hnsw_deleted rebuilt = 0"
  shows "verify_rebuilt source rebuilt = Inr ()"
proof -
  obtain before where before: "live_ids source = Inr before" "set before = dom (hnsw_abs source)"
      "distinct before" "sorted before" "length before = hnsw_size source"
    using live_ids_facts [OF assms(1)] by blast
  obtain after where after: "live_ids rebuilt = Inr after" "set after = dom (hnsw_abs rebuilt)"
      "distinct after" "sorted after" "length after = hnsw_size rebuilt"
    using live_ids_facts [OF assms(2)] by blast
  have "before = after" using before after assms(3) by (metis sorted_distinct_set_unique)
  moreover have "hnsw_size rebuilt = length (hnsw_ids rebuilt)" using assms(4) by (simp add: hnsw_size_def)
  ultimately show ?thesis
    using before after assms(4) by (simp add: verify_rebuilt_def hnsw_stats_of_def)
qed

definition rebuilds :: "rebuild_options \<Rightarrow> hnsw_index \<Rightarrow> hnsw_index \<Rightarrow> bool" where
  "rebuilds opts source rebuilt \<longleftrightarrow>
     hnsw_wf rebuilt \<and> hnsw_abs rebuilt = hnsw_abs source \<and> hnsw_deleted rebuilt = 0
   \<and> symmetric (hnsw_graph rebuilt) \<and> hnsw_config rebuilt = (hnsw_config source)\<lparr>random_seed := seed_of opts source\<rparr>"

lemma rebuild_source_total:
  assumes "log_contract lg" "load_source avx2 env opts d = Inr source"
    "cfg_dimension (hnsw_config source) < score_dimension Scalar"
  shows "\<exists>rebuilt. rebuild_source avx2 lg env opts d = Inr rebuilt \<and> rebuilds opts source rebuilt"
proof -
  note load = assms(2) [unfolded load_source_def]
  have wf: "hnsw_wf source" by (rule hnsw_load_wf [OF load assms(3)])
  have kern: "cfg_kernel (hnsw_config source) = Scalar" by (rule load_kernel [OF load])
  obtain rebuilt where rebuilt: "hnsw_rebuild avx2 lg (seed_of opts source) source = Inr rebuilt" "rebuilds opts source rebuilt"
    using hnsw_rebuild_facts [OF wf assms(1) load_room [OF load], of avx2 "seed_of opts source"] kern
    by (auto simp: rebuilds_def)
  then have "verify_rebuilt source rebuilt = Inr ()"
    using verify_rebuilt_holds [OF wf] by (simp add: rebuilds_def)
  then show ?thesis using rebuilt assms(2) by (auto simp: rebuild_source_def)
qed

text \<open>A rebuilt index fits the format if its source does.\<close>

lemma stored_rows:
  assumes "storage_ok ix" "i < length (hnsw_ids ix)" "\<not> node_deleted (hnsw_graph ix ! i)"
  shows "hnsw_abs ix (hnsw_ids ix ! i) = Some (row_of (cfg_dimension (hnsw_config ix)) (hnsw_vectors ix) i)"
proof -
  have "hnsw_id_to_node ix (hnsw_ids ix ! i) = Some i" using assms(1,2) by (simp add: storage_ok_def)
  then show ?thesis using assms(3) by (simp add: hnsw_abs_def)
qed

lemma abs_rows:
  assumes "storage_ok ix" "unit_rows ix" "hnsw_abs ix vid = Some row"
  shows "normalized_row row"
  using assms by (auto simp: hnsw_abs_def unit_rows_def storage_ok_def split: option.splits if_splits)

lemma none_deleted:
  assumes "hnsw_wf ix" "hnsw_deleted ix = 0" "i < length (hnsw_ids ix)"
  shows "\<not> node_deleted (hnsw_graph ix ! i)"
  using assms by (auto simp: hnsw_wf_def storage_ok_def deleted_nodes_def filter_empty_conv)

lemma maximum_payload_mono:
  assumes "unat (hd_count h) \<le> unat (hd_count k)" "hd_dimension h = hd_dimension k"
    "hd_max_connections h = hd_max_connections k" "hd_version h = hd_version k"
  shows "maximum_payload h \<le> maximum_payload k"
  unfolding maximum_payload_def data_bytes_def trailer_limit_def using assms
  by (intro add_mono mult_mono) auto

lemma rebuilt_storable:
  assumes "rebuilds opts source rebuilt" "hnsw_storable source"
  shows "hnsw_storable rebuilt"
proof -
  have stored: "storage_ok source" "unit_rows source" "length (hnsw_vectors source) \<le> (2 ^ 63 - 1) div 4"
    using assms(2) by (simp_all add: hnsw_storable_def stored_ok_def)
  have wf: "hnsw_wf rebuilt" and abs: "hnsw_abs rebuilt = hnsw_abs source"
    and none: "hnsw_deleted rebuilt = 0" and config: "hnsw_config rebuilt = (hnsw_config source)\<lparr>random_seed := seed_of opts source\<rparr>"
    using assms(1) by (simp_all add: rebuilds_def)
  have ok: "storage_ok rebuilt" using wf by (simp add: hnsw_wf_def)
  note row = stored_rows [OF ok _ none_deleted [OF wf none], unfolded abs]
  have "set (hnsw_ids rebuilt) \<subseteq> set (hnsw_ids source)"
  proof
    fix vid assume "vid \<in> set (hnsw_ids rebuilt)"
    then have "hnsw_abs source vid \<noteq> None" using row by (auto simp: in_set_conv_nth)
    then show "vid \<in> set (hnsw_ids source)" using stored(1) by (auto simp: hnsw_abs_def storage_ok_def split: option.splits)
  qed
  then have "card (set (hnsw_ids rebuilt)) \<le> card (set (hnsw_ids source))" by (intro card_mono) auto
  then have count: "length (hnsw_ids rebuilt) \<le> length (hnsw_ids source)"
    using ok stored(1) by (simp add: storage_ok_def distinct_card)
  then have "length (hnsw_vectors rebuilt) \<le> length (hnsw_vectors source)"
    using ok stored(1) config by (simp add: storage_ok_def)
  moreover have "unit_rows rebuilt"
    unfolding unit_rows_def using row abs_rows [OF stored(1,2)] by blast
  ultimately have "stored_ok rebuilt"
    using wf stored(3) by (simp add: stored_ok_def hnsw_wf_def)
  moreover have "unat (of_nat (length (hnsw_ids rebuilt)) :: u64) \<le> unat (of_nat (length (hnsw_ids source)) :: u64)"
    using count stored(1) ok by (simp add: storage_ok_def unat_of_nat_u64)
  then have "maximum_payload (hnsw_header_of rebuilt 0) \<le> maximum_payload (hnsw_header_of source 0)"
    using config by (intro maximum_payload_mono) (simp_all add: hnsw_header_of_def)
  ultimately show ?thesis
    using assms(2) wf config by (simp add: hnsw_storable_def hnsw_wf_def)
qed

lemma verified_copy_encodes:
  "hnsw_storable ix \<Longrightarrow> verified_copy avx2 env temporary ix c \<Longrightarrow> c = hnsw_encode ix"
  using hnsw_save_storable by (auto simp: verified_copy_def split: if_splits)

lemma rebuild_paths_differ: "rebuild_paths env opts d = Inr () \<Longrightarrow> rebuild_input opts \<noteq> rebuild_output opts"
  by (auto simp: rebuild_paths_def result_simps split: option.splits if_splits)

lemma rebuild_sourceE:
  assumes "rebuild_source avx2 lg env opts d = Inr rebuilt"
  obtains source where "load_source avx2 env opts d = Inr source" "names d (rebuild_input opts) \<noteq> None"
proof -
  have opened: "load_source avx2 env opts d = Inr source \<Longrightarrow> names d (rebuild_input opts) \<noteq> None" for source
    by (rule notI) (simp add: load_source_def disk_read_def load_present split: if_splits)
  have "\<exists>source. load_source avx2 env opts d = Inr source"
    using assms by (cases "load_source avx2 env opts d") (auto simp: rebuild_source_def)
  then show thesis using that opened by blast
qed

section \<open>A run\<close>

definition sample_rebuild_env :: rebuild_env where
  "sample_rebuild_env = \<lparr>temporary_suffix = Some ''abcdef'', save_opens = True, save_capacity = 2 ^ 64,
     save_flushes = True, sync_file_works = True, rename_works = True, link_works = True, unlink_works = True,
     sync_directory_works = True, remove_works = True, canonical = Some, missing_is_error = True,
     source_opens = True, sizes_readable = True\<rparr>"

definition sample_rebuild_options :: rebuild_options where
  "sample_rebuild_options = \<lparr>rebuild_input = ''in.fvh'', rebuild_output = ''out.fvh'', rebuild_seed = Some 5,
     rebuild_overwrite = False\<rparr>"

definition sample_rebuild_disk :: disk where
  "sample_rebuild_disk = \<lparr>names = [''in.fvh'' \<mapsto> 0], durable_names = [''in.fvh'' \<mapsto> 0],
     contents = (\<lambda>_. hnsw_encode hnsw_sample), synced = {0}, next_inode = 1\<rparr>"

lemma sample_rebuild_start:
  "disk_wf sample_rebuild_disk" "rebuild_paths sample_rebuild_env sample_rebuild_options sample_rebuild_disk = Inr ()"
  "temporary_suffix sample_rebuild_env = Some ''abcdef''" "rebuild_output sample_rebuild_options = ''out.fvh''"
  "names sample_rebuild_disk (temporary_name ''out.fvh'' ''abcdef'') = None"
  "load_source False sample_rebuild_env sample_rebuild_options sample_rebuild_disk = Inr hnsw_sample"
  "rebuild_overwrite sample_rebuild_options = False" "sizes_readable sample_rebuild_env"
  using hnsw_load_snapshot [OF storable_snapshot [OF hnsw_sample_storable, of False]]
  by (simp_all add: disk_wf_def sample_rebuild_disk_def rebuild_paths_def sample_rebuild_options_def
      sample_rebuild_env_def temporary_name_def load_source_def disk_read_def)

lemma sample_publishes:
  assumes "hnsw_storable ix" "cfg_kernel (hnsw_config ix) = Scalar"
  shows "snd (publish_hnsw_index False (publish_env.truncate sample_rebuild_env) ix ''out.fvh'' False sample_rebuild_disk) = Inr ()"
proof -
  let ?t = "temporary_name ''out.fvh'' ''abcdef''"
  have size: "length (hnsw_encode ix) \<le> 2 ^ 64"
    unfolding length_hnsw_encode using storable_payload(3) [OF assms(1)] by simp
  have save: "hnsw_save True (2 ^ 64) True ?t ix = (Some (hnsw_encode ix), Inr ())"
    using size unfolding hnsw_save_storable [OF assms(1)] by simp
  have load: "hnsw_load False ?t (Some (hnsw_encode ix)) Scalar = Inr ix"
    using hnsw_load_snapshot [OF storable_snapshot [OF assms(1), of False], of ?t] assms(2) by simp
  have free: "names (disk_sync_file ?t (disk_write ?t c (disk_create ?t sample_rebuild_disk))) ''out.fvh'' = None" for c
    by (simp add: disk_sync_file_def disk_write_def disk_create_def sample_rebuild_disk_def temporary_name_def)
  have env: "publish_env.truncate sample_rebuild_env = \<lparr>temporary_suffix = Some ''abcdef'', save_opens = True, save_capacity = 2 ^ 64,
     save_flushes = True, sync_file_works = True, rename_works = True, link_works = True, unlink_works = True,
     sync_directory_works = True, remove_works = True\<rparr>"
    by (simp add: sample_rebuild_env_def publish_env.truncate_def)
  show ?thesis
    by (simp add: publish_hnsw_index_def env names_a_file_def Let_def disk_read_written
        install_file_def sync_parent_def free save [simplified] load)
qed

section \<open>The property\<close>

text \<open>C38: a rebuild is safe and exact. The source snapshot is the same file in every state the command
  goes through. The output holds what it could hold before or a verified copy of the rebuilt
  index, wherever the machine stops. Whenever the source loads, the rebuild and the command's own check succeed:
  the rebuilt index stores the live vectors of the source, unchanged, has no tombstone and the
  seed asked for. If the command succeeds, the verified copy is there after every crash, and
  without permission to overwrite there was no output before.\<close>

theorem rebuild_exact:
  assumes "disk_wf d" "log_contract lg" "rebuild_paths env opts d = Inr ()"
    and new: "\<forall>suffix. temporary_suffix env = Some suffix \<longrightarrow> names d (temporary_name (rebuild_output opts) suffix) = None"
    and run: "rebuild_command avx2 lg env opts d = (trace, r)"
  shows "let copy = (\<lambda>rebuilt. verified_copy avx2 (publish_env.truncate env)
        (temporary_name (rebuild_output opts) (the (temporary_suffix env))) rebuilt)
    in (\<forall>x\<in>set trace. disk_read (rebuild_input opts) x = disk_read (rebuild_input opts) d
          \<and> after_crash x (rebuild_output opts) \<subseteq> after_crash d (rebuild_output opts)
              \<union> {Some c | c rebuilt. rebuild_source avx2 lg env opts d = Inr rebuilt \<and> copy rebuilt c})
      \<and> (\<forall>source. load_source avx2 env opts d = Inr source
            \<and> cfg_dimension (hnsw_config source) < score_dimension Scalar \<longrightarrow>
          (\<exists>rebuilt. rebuild_source avx2 lg env opts d = Inr rebuilt \<and> rebuilds opts source rebuilt))
      \<and> (r = Inr () \<longrightarrow> (\<exists>rebuilt c. rebuild_source avx2 lg env opts d = Inr rebuilt \<and> copy rebuilt c
            \<and> after_crash (last trace) (rebuild_output opts) = {Some c}
            \<and> (\<forall>source. load_source avx2 env opts d = Inr source \<and> hnsw_storable source
                 \<and> cfg_dimension (hnsw_config source) < score_dimension Scalar \<longrightarrow> c = hnsw_encode rebuilt))
          \<and> (rebuild_overwrite opts \<or> names d (rebuild_output opts) = None))"
proof (cases "rebuild_source avx2 lg env opts d")
  case (Inl e)
  then show ?thesis
    using run rebuild_source_total [OF assms(2), of avx2 env opts d] by (fastforce simp: rebuild_command_def Let_def)
next
  case (Inr rebuilt)
  let ?env = "publish_env.truncate env"
  let ?p = "publish_hnsw_index avx2 ?env rebuilt (rebuild_output opts) (rebuild_overwrite opts) d"
  let ?copy = "verified_copy avx2 ?env (temporary_name (rebuild_output opts) (the (temporary_suffix env))) rebuilt"
  obtain source where source: "load_source avx2 env opts d = Inr source" "names d (rebuild_input opts) \<noteq> None"
    using Inr by (rule rebuild_sourceE)
  have suffix: "temporary_suffix ?env = temporary_suffix env" by (simp add: publish_env.truncate_def)
  have trace: "trace = fst ?p" and r: "r = Inr () \<Longrightarrow> snd ?p = Inr ()"
    using run Inr by (auto simp: rebuild_command_def result_simps split: prod.splits if_splits)
  have kept: "all_kept (rebuild_input opts) d trace"
    unfolding trace using rebuild_paths_differ [OF assms(3)] source(2) new suffix by (intro publish_keeps) auto
  note good = publish_good [OF assms(1), of avx2 ?env rebuilt "rebuild_output opts" "rebuild_overwrite opts",
      unfolded suffix, folded trace]
  have safe: "disk_read (rebuild_input opts) x = disk_read (rebuild_input opts) d"
    "after_crash x (rebuild_output opts) \<subseteq> after_crash d (rebuild_output opts) \<union> {Some c | c. ?copy c}" if "x \<in> set trace" for x
  proof -
    show "disk_read (rebuild_input opts) x = disk_read (rebuild_input opts) d"
      using kept that by (intro kept_read [OF assms(1)]) (simp add: all_kept_def)
    have "good_state ?copy (rebuild_output opts) d x" using good that by blast
    then show "after_crash x (rebuild_output opts) \<subseteq> after_crash d (rebuild_output opts) \<union> {Some c | c. ?copy c}"
      by (auto simp: good_state_def)
  qed
  have ends: "\<exists>c. ?copy c \<and> after_crash (last trace) (rebuild_output opts) = {Some c}"
    "rebuild_overwrite opts \<or> names d (rebuild_output opts) = None" if "r = Inr ()"
    using good r [OF that] by (simp_all add: published_at_last_def trace)
  have total: "load_source avx2 env opts d = Inr source \<and> cfg_dimension (hnsw_config source) < score_dimension Scalar \<Longrightarrow> rebuilds opts source rebuilt" for source
    using rebuild_source_total [OF assms(2), of avx2 env opts d source] Inr by auto
  have copied: "c = hnsw_encode rebuilt" if "load_source avx2 env opts d = Inr source \<and> hnsw_storable source
      \<and> cfg_dimension (hnsw_config source) < score_dimension Scalar" "?copy c" for source c
    using that total rebuilt_storable verified_copy_encodes by blast
  have "\<exists>rebuilt' c. Inr rebuilt = Inr rebuilt' \<and> verified_copy avx2 ?env (temporary_name (rebuild_output opts)
          (the (temporary_suffix env))) rebuilt' c
      \<and> after_crash (last trace) (rebuild_output opts) = {Some c}
      \<and> (\<forall>source. load_source avx2 env opts d = Inr source \<and> hnsw_storable source
            \<and> cfg_dimension (hnsw_config source) < score_dimension Scalar \<longrightarrow> c = hnsw_encode rebuilt')" if "r = Inr ()"
    using ends(1) [OF that] copied by blast
  then show ?thesis
    unfolding Let_def Inr using safe ends(2) total by auto
qed

theorem rebuild_exact_witness:
  "\<exists>trace rebuilt. rebuild_command False coarse_log sample_rebuild_env sample_rebuild_options sample_rebuild_disk = (trace, Inr ())
     \<and> after_crash (last trace) ''out.fvh'' = {Some (hnsw_encode rebuilt)} \<and> hnsw_abs rebuilt = hnsw_abs hnsw_sample
     \<and> hnsw_deleted rebuilt = 0"
proof -
  let ?run = "rebuild_command False coarse_log sample_rebuild_env sample_rebuild_options sample_rebuild_disk"
  have sample: "cfg_kernel (hnsw_config hnsw_sample) = Scalar" "cfg_dimension (hnsw_config hnsw_sample) < score_dimension Scalar"
    using hnsw_sample_wf by (simp_all add: hnsw_wf_def scores_ok_def hnsw_sample_def)
  obtain rebuilt where rebuilt: "rebuild_source False coarse_log sample_rebuild_env sample_rebuild_options sample_rebuild_disk = Inr rebuilt"
      "rebuilds sample_rebuild_options hnsw_sample rebuilt"
    using rebuild_source_total [OF coarse_log_contract sample_rebuild_start(6) sample(2)] by blast
  have "cfg_kernel (hnsw_config rebuilt) = Scalar" using rebuilt(2) sample(1) by (simp add: rebuilds_def)
  then have "snd ?run = Inr ()"
    using sample_publishes [OF rebuilt_storable [OF rebuilt(2) hnsw_sample_storable]] rebuilt(1)
    by (cases "publish_hnsw_index False (publish_env.truncate sample_rebuild_env) rebuilt ''out.fvh'' False sample_rebuild_disk")
      (simp add: rebuild_command_def sample_rebuild_start(4,7,8))
  then obtain trace where run: "?run = (trace, Inr ())" by (metis prod.collapse)
  have new: "\<forall>suffix. temporary_suffix sample_rebuild_env = Some suffix \<longrightarrow>
      names sample_rebuild_disk (temporary_name (rebuild_output sample_rebuild_options) suffix) = None"
    using sample_rebuild_start(3-5) by simp
  from rebuild_exact [OF sample_rebuild_start(1) coarse_log_contract sample_rebuild_start(2) new run]
  have "after_crash (last trace) ''out.fvh'' = {Some (hnsw_encode rebuilt)}"
    using sample_rebuild_start(4,6) hnsw_sample_storable sample(2) rebuilt(1) by (auto simp: Let_def)
  then show ?thesis using run rebuilt(2) by (auto simp: rebuilds_def)
qed

end
