(* ===== verification/Float_Text.thy ===== *)
theory Float_Text
  imports Char_Conv
begin

text \<open>
  Floats as text, as the recall runner reads and writes them: \<open>std::stof\<close>, and the stream insertion of a
  \<open>float\<close> with nine significant digits in the default notation, both in the C locale. The value
  of a text is exact and rounded once, to nearest with ties to even; the digits written are those of the
  exact value, rounded the same way.
\<close>

section \<open>Reading\<close>

definition space_char :: "char \<Rightarrow> bool" where
  "space_char c \<longleftrightarrow> (of_char c :: nat) = 32 \<or> 9 \<le> (of_char c :: nat) \<and> (of_char c :: nat) \<le> 13"

definition lower_char :: "char \<Rightarrow> char" where
  "lower_char c = (if 65 \<le> (of_char c :: nat) \<and> (of_char c :: nat) \<le> 90 then char_of (of_char c + 32 :: nat) else c)"

definition starts_with :: "string \<Rightarrow> string \<Rightarrow> bool" where
  "starts_with word text \<longleftrightarrow> map lower_char (take (length word) text) = word"

definition hex_char :: "char \<Rightarrow> bool" where
  "hex_char c \<longleftrightarrow> decimal_digit c \<or> 97 \<le> (of_char (lower_char c) :: nat) \<and> (of_char (lower_char c) :: nat) \<le> 102"

definition hex_char_value :: "char \<Rightarrow> nat" where
  "hex_char_value c = (if decimal_digit c then digit_value c else of_char (lower_char c) - 87)"

definition hex_value :: "string \<Rightarrow> nat" where
  "hex_value hs = foldl (\<lambda>n c. 16 * n + hex_char_value c) 0 hs"

text \<open>The number after the sign: its magnitude, whether it was nonzero, and what is left.\<close>

definition decimal_body :: "string \<Rightarrow> (nat \<times> bool \<times> string) option" where
  "decimal_body text =
     (let whole = takeWhile decimal_digit text
      in case fraction_part (dropWhile decimal_digit text) of (fraction, rest) \<Rightarrow>
           if whole = [] \<and> fraction = [] then None
           else case exponent_part rest of (e, rest) \<Rightarrow>
             let d = number_value (whole @ fraction)
             in Some (decimal_magnitude binary32 d (e - int (length fraction)), d \<noteq> 0, rest))"

text \<open>A binary exponent is consumed only if it has digits.\<close>

definition binary_exponent :: "string \<Rightarrow> int \<times> string" where
  "binary_exponent text =
     (case text of
        p # text' \<Rightarrow>
          if lower_char p = CHR ''p'' then
            let body = (case text' of s # body \<Rightarrow> if s = CHR ''+'' \<or> s = CHR ''-'' then body else text' | [] \<Rightarrow> []);
                ds = takeWhile decimal_digit body;
                n = int (number_value ds)
            in if ds = [] then (0, text)
               else (if hd text' = CHR ''-'' then - n else n, dropWhile decimal_digit body)
          else (0, text)
      | [] \<Rightarrow> (0, []))"

definition hex_body :: "string \<Rightarrow> (nat \<times> bool \<times> string) option" where
  "hex_body text =
     (let whole = takeWhile hex_char text; after = dropWhile hex_char text;
          fraction = (case after of c # body \<Rightarrow> if c = CHR ''.'' then takeWhile hex_char body else [] | [] \<Rightarrow> []);
          rest = (case after of c # body \<Rightarrow> if c = CHR ''.'' then dropWhile hex_char body else after | [] \<Rightarrow> [])
      in if whole = [] \<and> fraction = [] then None
         else case binary_exponent rest of (e, rest) \<Rightarrow>
           let h = hex_value (whole @ fraction)
           in Some (round_magnitude binary32 h (e - 4 * int (length fraction)), h \<noteq> 0, rest))"

text \<open>A NaN may carry a sequence of letters, digits and underscores in parentheses. Its bits depend
  on it; here every NaN read is the default one.\<close>

definition nan_char :: "char \<Rightarrow> bool" where
  "nan_char c \<longleftrightarrow> decimal_digit c \<or> c = CHR ''_'' \<or> 97 \<le> (of_char (lower_char c) :: nat) \<and> (of_char (lower_char c) :: nat) \<le> 122"

definition nan_rest :: "string \<Rightarrow> string" where
  "nan_rest text =
     (if text \<noteq> [] \<and> hd text = CHR ''('' \<and> dropWhile nan_char (tl text) \<noteq> [] \<and> hd (dropWhile nan_char (tl text)) = CHR '')''
      then tl (dropWhile nan_char (tl text)) else text)"

definition number_body :: "string \<Rightarrow> (nat \<times> bool \<times> string) option" where
  "number_body text =
     (if starts_with ''infinity'' text then Some (inf_mag binary32, False, drop 8 text)
      else if starts_with ''inf'' text then Some (inf_mag binary32, False, drop 3 text)
      else if starts_with ''nan'' text then Some (nan_mag binary32, False, nan_rest (drop 3 text))
      else if starts_with ''0x'' text \<and> hex_body (drop 2 text) \<noteq> None then hex_body (drop 2 text)
      else decimal_body text)"

text \<open>\<open>std::stof\<close>: the value and how many characters it took. A number that rounds to infinity is out of
  range. Whether one below the normal range is, the library decides: \<open>underflow\<close> of the text.\<close>

definition stof :: "(string \<Rightarrow> bool) \<Rightarrow> string \<Rightarrow> (cpp_error + f32 \<times> nat)" where
  "stof underflow text =
     (let unsigned = dropWhile space_char text;
          negative = (unsigned \<noteq> [] \<and> hd unsigned = CHR ''-'');
          body = (if unsigned \<noteq> [] \<and> (hd unsigned = CHR ''-'' \<or> hd unsigned = CHR ''+'') then tl unsigned else unsigned)
      in case number_body body of
           None \<Rightarrow> Inl (Invalid_argument ''stof'')
         | Some (g, nonzero, rest) \<Rightarrow>
             if nonzero \<and> (g = inf_mag binary32 \<or> g < hidden_bit binary32 \<and> underflow text) then Inl (Out_of_range ''stof'')
             else Inr (pack32 (negative, g), length text - length rest))"

section \<open>Writing\<close>

definition round_quotient :: "nat \<Rightarrow> nat \<Rightarrow> nat" where
  "round_quotient a b = round_half_even (a div b) (2 * (a mod b)) b"

text \<open>The decimal exponent of a positive fraction.\<close>

definition decimal_exponent :: "nat \<Rightarrow> nat \<Rightarrow> int" where
  "decimal_exponent a b =
     (if b \<le> a then int (length (decimal (a div b))) - 1 else - int (length (decimal ((b - 1) div a))))"

text \<open>Nine significant digits, as a number of nine digits, and the exponent of the first.\<close>

definition nine_digits :: "nat \<Rightarrow> nat \<Rightarrow> nat \<times> int" where
  "nine_digits a b =
     (let x = decimal_exponent a b;
          q = (if x \<le> 8 then round_quotient (a * 10 ^ nat (8 - x)) b else round_quotient a (b * 10 ^ nat (x - 8)))
      in if q = 10 ^ 9 then (10 ^ 8, x + 1) else (q, x))"

definition with_fraction :: "string \<Rightarrow> string \<Rightarrow> string" where
  "with_fraction whole digits =
     (let kept = rev (dropWhile (\<lambda>c. c = CHR ''0'') (rev digits)) in if kept = [] then whole else whole @ CHR ''.'' # kept)"

definition exponent_text :: "int \<Rightarrow> string" where
  "exponent_text x =
     CHR ''e'' # (if x < 0 then CHR ''-'' else CHR ''+'')
       # (if \<bar>x\<bar> < 10 then CHR ''0'' # decimal (nat \<bar>x\<bar>) else decimal (nat \<bar>x\<bar>))"

definition general_text :: "nat \<Rightarrow> int \<Rightarrow> string" where
  "general_text q x =
     (let digits = decimal q
      in if - 4 \<le> x \<and> x < 9 then
           if 0 \<le> x then with_fraction (take (nat x + 1) digits) (drop (nat x + 1) digits)
           else with_fraction ''0'' (replicate (nat (- x - 1)) (CHR ''0'') @ digits)
         else with_fraction (take 1 digits) (drop 1 digits) @ exponent_text x)"

text \<open>\<open>output << value\<close> after \<open>std::setprecision(9)\<close>.\<close>

definition show_f32 :: "f32 \<Rightarrow> string" where
  "show_f32 v =
     (case unpack32 v of (negative, g) \<Rightarrow>
        (if negative then ''-'' else [])
        @ (if inf_mag binary32 < g then ''nan''
           else if g = inf_mag binary32 then ''inf''
           else if g = 0 then ''0''
           else case mag_parts binary32 g of (m, e) \<Rightarrow>
             case nine_digits (m * 2 ^ nat e) (2 ^ nat (- e)) of (q, x) \<Rightarrow> general_text q x))"

end
