(* ===== verification/Validate_Recall.thy ===== *)
theory Validate_Recall
  imports Float_Text Build_Flat_Index_Theorems Batch_Searcher
begin

text \<open>
  tools/validate_recall.cpp: the runner whose results are compared with a reference. It reads vectors and
  queries from CSV files, builds an exact or an approximate index, and writes the results of every
  query to a CSV file. What the files hold and what the system calls do is the environment.
\<close>

section \<open>CSV\<close>

definition comma :: char where "comma = CHR '',''"

function split_csv_row :: "string \<Rightarrow> string list" where
  "split_csv_row line =
     (case dropWhile (\<lambda>c. c \<noteq> comma) line of
        [] \<Rightarrow> [line]
      | c # rest \<Rightarrow> takeWhile (\<lambda>c. c \<noteq> comma) line # split_csv_row rest)"
  by pat_completeness auto

termination
proof (relation "measure length")
  fix line :: string and c rest
  assume "dropWhile (\<lambda>c. c \<noteq> comma) line = c # rest"
  then have "Suc (length rest) \<le> length line" using length_dropWhile_le [of "\<lambda>c. c \<noteq> comma" line] by simp
  then show "(rest, line) \<in> measure length" by simp
qed simp

declare split_csv_row.simps [simp del]

definition csv_id :: "string \<Rightarrow> vector_id result" where
  "csv_id text =
     (case whole_u64 text of
        None \<Rightarrow> Inl (Runtime_error (''invalid integer in CSV: '' @ text))
      | Some n \<Rightarrow> Inr n)"

definition csv_float :: "(string \<Rightarrow> bool) \<Rightarrow> string \<Rightarrow> f32 result" where
  "csv_float underflow text =
     and_then (stof underflow text) (\<lambda>(v, consumed).
       if consumed \<noteq> length text then Inl (Runtime_error (''invalid float in CSV: '' @ text)) else Inr v)"

fun csv_floats :: "(string \<Rightarrow> bool) \<Rightarrow> string list \<Rightarrow> f32 list result" where
  "csv_floats underflow [] = Inr []"
| "csv_floats underflow (text # rest) =
     and_then (csv_float underflow text) (\<lambda>v. and_then (csv_floats underflow rest) (\<lambda>vs. Inr (v # vs)))"

definition parse_components :: "(string \<Rightarrow> bool) \<Rightarrow> string list \<Rightarrow> nat \<Rightarrow> f32 list result" where
  "parse_components underflow columns dims =
     (if length columns \<noteq> dims + 1 then Inl (Runtime_error ''CSV row has an unexpected number of columns'')
      else csv_floats underflow (tl columns))"

definition dimension_from_header :: "string \<Rightarrow> nat result" where
  "dimension_from_header header =
     (let columns = split_csv_row header
      in if length columns < 2 then Inl (Runtime_error ''CSV must contain an ID column and at least one component'')
         else Inr (length columns - 1))"

definition csv_row :: "(string \<Rightarrow> bool) \<Rightarrow> nat \<Rightarrow> string \<Rightarrow> (vector_id \<times> f32 list) result" where
  "csv_row underflow dims line =
     (let columns = split_csv_row line
      in and_then (csv_id (hd columns)) (\<lambda>n.
         and_then (parse_components underflow columns dims) (\<lambda>v. Inr (n, v))))"

text \<open>The rows after the header; empty lines are skipped.\<close>

fun csv_rows :: "(string \<Rightarrow> bool) \<Rightarrow> nat \<Rightarrow> string list \<Rightarrow> (vector_id \<times> f32 list) list result" where
  "csv_rows underflow dims [] = Inr []"
| "csv_rows underflow dims (line # rest) =
     (if line = [] then csv_rows underflow dims rest
      else and_then (csv_row underflow dims line) (\<lambda>row.
           and_then (csv_rows underflow dims rest) (\<lambda>rows. Inr (row # rows))))"

text \<open>The dimension of the data set and its rows. \<open>None\<close>: the file cannot be opened.\<close>

definition load_vectors :: "(string \<Rightarrow> bool) \<Rightarrow> string \<Rightarrow> string option \<Rightarrow> (nat \<times> (vector_id \<times> f32 list) list) result" where
  "load_vectors underflow path file_text =
     (case file_text of
        None \<Rightarrow> Inl (Runtime_error (''cannot open vector CSV: '' @ path))
      | Some text \<Rightarrow>
          (case get_lines text of
             [] \<Rightarrow> Inl (Runtime_error ''vector CSV is empty'')
           | header # lines \<Rightarrow>
               and_then (dimension_from_header header) (\<lambda>dims.
               and_then (csv_rows underflow dims lines) (\<lambda>rows. Inr (dims, rows)))))"

definition load_queries :: "(string \<Rightarrow> bool) \<Rightarrow> string \<Rightarrow> string option \<Rightarrow> nat \<Rightarrow> (u64 \<times> f32 list) list result" where
  "load_queries underflow path file_text dims =
     (case file_text of
        None \<Rightarrow> Inl (Runtime_error (''cannot open query CSV: '' @ path))
      | Some text \<Rightarrow>
          (case get_lines text of
             [] \<Rightarrow> Inl (Runtime_error ''query CSV dimension does not match the index'')
           | header # lines \<Rightarrow>
               and_then (dimension_from_header header) (\<lambda>n.
               if n \<noteq> dims then Inl (Runtime_error ''query CSV dimension does not match the index'')
               else csv_rows underflow dims lines)))"

section \<open>Arguments\<close>

definition parse_k :: "string \<Rightarrow> nat result" where
  "parse_k text =
     (case whole_u64 text of
        None \<Rightarrow> Inl (Invalid_argument ''k must be a positive integer'')
      | Some k \<Rightarrow> if k = 0 then Inl (Invalid_argument ''k must be a positive integer'') else Inr (unat k))"

definition parse_seed :: "string \<Rightarrow> u64 result" where
  "parse_seed text =
     (case whole_u64 text of
        None \<Rightarrow> Inl (Invalid_argument ''seed must be an unsigned integer'')
      | Some seed \<Rightarrow> Inr seed)"

definition parse_neighbor_selection :: "string \<Rightarrow> neighbor_selection result" where
  "parse_neighbor_selection text =
     (if text = ''simple'' then Inr Simple
      else if text = ''heuristic'' then Inr Heuristic
      else Inl (Invalid_argument ''neighbor selection must be simple or heuristic''))"

definition parse_kernel :: "bool \<Rightarrow> string \<Rightarrow> dot_kernel result" where
  "parse_kernel avx2 text =
     (if text = ''scalar'' then Inr Scalar
      else if text = ''auto'' then Inr Auto_vectorized
      else if text = ''avx2'' \<and> avx2 then Inr Avx2
      else Inl (Invalid_argument ''kernel must be scalar, auto, or an available avx2''))"

section \<open>The run\<close>

text \<open>What the run meets: the texts of the files, whether the output can be opened and how much of it
  the device takes, the allocation that fails at each insertion, and how the library treats numbers
  below the normal range.\<close>

record runner_env =
  csv_texts :: "string \<Rightarrow> string option"
  results_open :: bool
  results_capacity :: nat
  insert_faults :: "nat \<Rightarrow> nat option"
  range_errors :: "string \<Rightarrow> bool"

text \<open>\<open>args\<close> are the arguments after the name of the program.\<close>

definition runner_kernel :: "platform \<Rightarrow> string list \<Rightarrow> dot_kernel result" where
  "runner_kernel pf args = (if length args = 5 then parse_kernel (has_avx2 pf) (args ! 4) else Inr Scalar)"

definition create_index :: "platform \<Rightarrow> string list \<Rightarrow> dot_kernel \<Rightarrow> nat \<Rightarrow> vector_index result" where
  "create_index pf args kern dims =
     (if length args = 11 then
        if args ! 5 \<noteq> ''hnsw'' then Inl (Invalid_argument ''extended validation mode must be hnsw'')
        else
          and_then (parse_k (args ! 6)) (\<lambda>m.
          and_then (parse_k (args ! 7)) (\<lambda>efc.
          and_then (parse_k (args ! 8)) (\<lambda>ef.
          and_then (parse_seed (args ! 9)) (\<lambda>seed.
          and_then (parse_neighbor_selection (args ! 10)) (\<lambda>sel.
          and_then (hnsw_create (has_avx2 pf)
              \<lparr>cfg_dimension = dims, max_connections = m, ef_construction = efc, ef_search = ef,
               random_seed = seed, cfg_kernel = kern, selection = sel\<rparr>) (\<lambda>ix. Inr (Hnsw ix)))))))
      else and_then (flat_create dims kern) (\<lambda>ix. Inr (Flat ix)))"

fun add_rows ::
  "platform \<Rightarrow> (nat \<Rightarrow> nat option) \<Rightarrow> nat \<Rightarrow> (vector_id \<times> f32 list) list \<Rightarrow> vector_index \<Rightarrow> vector_index result" where
  "add_rows pf faults n [] ix = Inr ix"
| "add_rows pf faults n ((vid, v) # rest) ix =
     (case index_add pf (faults n) vid v ix of (ix', r) \<Rightarrow>
        and_then r (\<lambda>_. add_rows pf faults (Suc n) rest ix'))"

text \<open>Everything before the output is opened: the index, the queries and \<open>k\<close>.\<close>

definition prepare_run ::
  "platform \<Rightarrow> runner_env \<Rightarrow> string list \<Rightarrow> (vector_index \<times> (u64 \<times> f32 list) list \<times> nat) result" where
  "prepare_run pf env args =
     and_then (runner_kernel pf args) (\<lambda>kern.
     and_then (load_vectors (range_errors env) (args ! 0) (csv_texts env (args ! 0))) (\<lambda>(dims, rows).
     and_then (create_index pf args kern dims) (\<lambda>ix.
     and_then (add_rows pf (insert_faults env) 0 rows ix) (\<lambda>ix.
     and_then (load_queries (range_errors env) (args ! 1) (csv_texts env (args ! 1)) (index_dimension ix)) (\<lambda>queries.
     and_then (parse_k (args ! 2)) (\<lambda>k. Inr (ix, queries, k)))))))"

definition newline :: char where "newline = CHR 0x0A"

definition results_header :: string where
  "results_header = ''query_id,rank,vector_id,score'' @ [newline]"

definition result_line :: "u64 \<Rightarrow> nat \<Rightarrow> search_result \<Rightarrow> string" where
  "result_line query_id rank r =
     decimal (unat query_id) @ comma # decimal rank @ comma # decimal (unat (result_id r)) @ comma # show_f32 (result_score r)"

definition result_lines :: "u64 \<Rightarrow> search_result list \<Rightarrow> string" where
  "result_lines query_id rs = concat (map (\<lambda>(rank, r). result_line query_id rank r @ [newline]) (enumerate 0 rs))"

fun write_results ::
  "platform \<Rightarrow> vector_index \<Rightarrow> nat \<Rightarrow> (u64 \<times> f32 list) list \<Rightarrow> string \<times> unit result" where
  "write_results pf ix k [] = ([], Inr ())"
| "write_results pf ix k ((query_id, query) # rest) =
     (case index_search_default pf ix query k unobserved of
        Inl e \<Rightarrow> ([], Inl e)
      | Inr rs \<Rightarrow> (case write_results pf ix k rest of (text, r) \<Rightarrow> (result_lines query_id rs @ text, r)))"

text \<open>The state of the output stream is never looked at: what the device does not take is lost.\<close>

definition validate_run :: "platform \<Rightarrow> runner_env \<Rightarrow> string list \<Rightarrow> string option \<times> unit result" where
  "validate_run pf env args =
     (case prepare_run pf env args of
        Inl e \<Rightarrow> (None, Inl e)
      | Inr (ix, queries, k) \<Rightarrow>
          if \<not> results_open env then (None, Inl (Runtime_error (''cannot open result CSV: '' @ args ! 3)))
          else case write_results pf ix k queries of
            (text, r) \<Rightarrow> (Some (take (results_capacity env) (results_header @ text)), r))"

definition runner_usage :: string where
  "runner_usage = ''Usage: fast_vector_validate <vectors.csv> <queries.csv> <k> ''
     @ ''<results.csv> [scalar|auto|avx2]'' @ [newline]
     @ ''   or: fast_vector_validate <vectors.csv> <queries.csv> <k> ''
     @ ''<results.csv> <kernel> hnsw <M> <efConstruction> <efSearch> ''
     @ ''<seed> <simple|heuristic>'' @ [newline]"

text \<open>\<open>main\<close>: what the output file holds (\<open>None\<close>: it was not opened), the exit code, and what goes to the
  error stream.\<close>

definition validate_main :: "platform \<Rightarrow> runner_env \<Rightarrow> string list \<Rightarrow> string option \<times> nat \<times> string" where
  "validate_main pf env args =
     (if length args \<notin> {4, 5, 11} then (None, 2, runner_usage)
      else case validate_run pf env args of
        (written_text, Inl e) \<Rightarrow> (written_text, 1, ''Validation runner failed: '' @ error_text e @ [newline])
      | (written_text, Inr u) \<Rightarrow> (written_text, 0, []))"

end
