(* ===== verification/Float_Text_Theorems.thy ===== *)
theory Float_Text_Theorems
  imports Float_Text Ieee754_Bounds
begin

text \<open>
  Nine significant digits are enough: reading what was written gives back the same float, to the
  bit. A decimal number that is closer to a float than a small fraction of its value rounds to that float,
  and nine digits are that close.
\<close>

section \<open>Rounding back\<close>

lemma round_half_even_near:
  assumes "2 * \<bar>int a - int n * int b\<bar> < int b" "b = 2 * half"
  shows "round_half_even (a div b) (a mod b) half = n"
proof (cases "n * b \<le> a")
  case True
  define r where "r = a - n * b"
  have a: "a = n * b + r" using True by (simp add: r_def)
  then have "int a - int n * int b = int r" by simp
  then have r: "2 * r < b" using assms(1) by simp
  then have "a div b = n" "a mod b = r" by (simp_all add: a)
  then show ?thesis using r assms(2) by (simp add: round_half_even_def)
next
  case False
  then have d: "int a = int n * int b - (int n * int b - int a)" "0 < int n * int b - int a"
      "2 * (int n * int b - int a) < int b"
    using assms(1) by (simp_all flip: of_nat_mult)
  then obtain p where n: "n = Suc p" using False by (cases n) auto
  define r where "r = nat (int b - (int n * int b - int a))"
  have r: "int r = int b - (int n * int b - int a)" "r < b" "b < 2 * r" using d by (auto simp: r_def)
  then have "int a = int (p * b + r)" unfolding n by (simp add: algebra_simps)
  then have a: "a = p * b + r" by (simp only: of_nat_eq_iff)
  have "a div b = p" "a mod b = r" using r(2) by (simp_all add: a)
  then show ?thesis using r(3) assms(2) n by (simp add: round_half_even_def)
qed

text \<open>The significand that rounding at the last place \<open>e'\<close> finds.\<close>

definition significand_at :: "nat \<Rightarrow> int \<Rightarrow> int \<Rightarrow> nat" where
  "significand_at M E e' = (if e' \<le> E then M * 2 ^ nat (E - e') else round_shift M (nat (e' - E)))"

lemma significand_near:
  assumes "2 * \<bar>real M * two_powi E - real n * two_powi e'\<bar> < two_powi e'"
  shows "significand_at M E e' = n"
proof (cases "e' \<le> E")
  case True
  define K where "K = M * 2 ^ nat (E - e')"
  have "real M * two_powi E = real K * two_powi e'" using two_powi_shift [OF True] by (simp add: K_def)
  then have "2 * \<bar>real K - real n\<bar> * two_powi e' < 1 * two_powi e'"
    using assms by (simp add: abs_mult flip: left_diff_distrib)
  then have "2 * \<bar>real K - real n\<bar> < 1" by (simp only: mult_less_cancel_right) simp
  then have "real K < real n + 1 \<and> real n < real K + 1" by (auto simp: abs_if split: if_splits)
  then have "real K < real (Suc n) \<and> real n < real (Suc K)" by simp
  then have "K = n" unfolding of_nat_less_iff by simp
  then show ?thesis using True by (simp add: significand_at_def K_def)
next
  case False
  define sh where "sh = nat (e' - E)"
  have sh: "two_powi e' = two_powi E * 2 ^ sh" "0 < sh" using two_powi_shift [of E e'] False by (simp_all add: sh_def)
  have "real M * two_powi E - real n * two_powi e' = (real M - real n * 2 ^ sh) * two_powi E"
    by (simp add: sh(1) algebra_simps)
  then have "\<bar>real M * two_powi E - real n * two_powi e'\<bar> = \<bar>real M - real n * 2 ^ sh\<bar> * two_powi E"
    by (simp add: abs_mult)
  with assms have "2 * \<bar>real M - real n * 2 ^ sh\<bar> * two_powi E < 2 ^ sh * two_powi E"
    unfolding sh(1) by (simp add: mult.commute)
  then have "2 * \<bar>real M - real n * 2 ^ sh\<bar> < 2 ^ sh" by (rule mult_right_less_imp_less) simp
  then have "real_of_int (2 * \<bar>int M - int n * int (2 ^ sh)\<bar>) < real_of_int (int (2 ^ sh))" by simp
  then have near: "2 * \<bar>int M - int n * int (2 ^ sh)\<bar> < int (2 ^ sh)" by (simp only: of_int_less_iff)
  have "round_shift M sh = n"
    unfolding round_shift_def by (rule round_half_even_near [OF near]) (use sh(2) in \<open>cases sh; simp\<close>)
  then show ?thesis using False by (simp add: significand_at_def sh_def)
qed

lemma round_magnitude_significand:
  "0 < M \<Longrightarrow> round_magnitude F M E =
     (let e' = max (fp_emin F) (E + int (bit_len M) - int (fp_prec F))
      in min (significand_at M E e' + nat (e' - fp_emin F) * hidden_bit F) (inf_mag F))"
  by (simp add: round_magnitude_def round_at_def significand_at_def Let_def)

lemma two_powi_less_iff [simp]: "two_powi e < two_powi f \<longleftrightarrow> e < f"
  by (simp add: two_powi_def)

lemma magnitude_binade:
  assumes "0 < M"
  shows "two_powi (E + int (bit_len M) - 1) \<le> real M * two_powi E" "real M * two_powi E < two_powi (E + int (bit_len M))"
proof -
  note b = bit_len_bounds [OF assms]
  have "real (2 ^ (bit_len M - 1)) \<le> real M" "real M < real (2 ^ bit_len M)"
    using b by (simp_all only: of_nat_le_iff of_nat_less_iff)
  then have "two_powi (int (bit_len M) - 1) \<le> real M" "real M < two_powi (int (bit_len M))"
    using b two_powi_nat [of "bit_len M - 1"] by (simp_all add: two_powi_nat of_nat_diff)
  then show "two_powi (E + int (bit_len M) - 1) \<le> real M * two_powi E" "real M * two_powi E < two_powi (E + int (bit_len M))"
    using two_powi_add [of "int (bit_len M) - 1" E] two_powi_add [of "int (bit_len M)" E]
    by (simp_all add: algebra_simps)
qed

text \<open>A number within \<open>2^-26\<close> of the value of a float rounds to that float.\<close>

lemma round_magnitude_near:
  assumes g: "0 < g" "g < inf_mag binary32" and M: "0 < M"
    and near: "2 ^ 26 * \<bar>real M * two_powi E - magnitude_value binary32 g\<bar> < magnitude_value binary32 g"
  shows "round_magnitude binary32 M E = g"
proof -
  let ?v = "magnitude_value binary32 g" and ?r = "real M * two_powi E"
  define b where "b = E + int (bit_len M) - 24"
  have hidden: "hidden_bit binary32 = 2 ^ 23" by simp
  obtain m k where mk: "g = m + k * 2 ^ 23" "m < 2 * 2 ^ 23" "k = 0 \<or> 2 ^ 23 \<le> m"
    using mag_decomp [of g binary32] unfolding hidden by blast
  define e where "e = - 149 + int k"
  have v: "?v = real m * two_powi e"
    using magnitude_value_enc [of m binary32 k] mk unfolding hidden by (simp add: e_def)
  have m: "0 < m" using mk(3) g(1) mk(1) by (cases "k = 0") auto
  have top: "real m * two_powi e < two_powi (e + 24)" using mk(2) by (simp add: two_powi_add two_powi_nat [of 24, simplified])
  have binade: "two_powi (b + 23) \<le> ?r" "?r < two_powi (b + 24)"
    using magnitude_binade [OF M, of E] by (simp_all add: b_def algebra_simps)
  define P where "P = two_powi e"
  have P: "0 < P" "two_powi (e + 22) = 2 ^ 22 * P" "two_powi (e + 23) = 2 ^ 23 * P" "two_powi (e + 24) = 2 ^ 24 * P"
      "P = 2 * two_powi (e - 1)"
    using two_powi_add [of e 22] two_powi_add [of e 23] two_powi_add [of e 24] two_powi_add [of "e - 1" 1]
      two_powi_nat [of 22] two_powi_nat [of 23] two_powi_nat [of 24] two_powi_nat [of 1] by (simp_all add: P_def)
  have err: "2 ^ 26 * \<bar>?r - real m * P\<bar> < real m * P" using near by (simp add: v P_def)
  define w where "w = real m * P"
  have "real m * P \<le> 16777215 * P" using mk(2) P(1) by (intro mult_right_mono) simp_all
  then have w: "w \<le> 16777215 * P" by (simp add: w_def)
  have sides: "67108864 * (?r - w) < w" "67108864 * (w - ?r) < w"
  proof -
    have "67108864 * \<bar>?r - w\<bar> < w" using err by (simp add: w_def)
    then show "67108864 * (?r - w) < w" "67108864 * (w - ?r) < w" by (auto simp: abs_if split: if_splits)
  qed
  have "4 * (?r - w) < P" using sides(1) w P(1) by linarith
  moreover have "4 * (w - ?r) < P" using sides(2) w P(1) by linarith
  ultimately have close: "4 * \<bar>?r - w\<bar> < P" "?r < 2 ^ 24 * P" using w P(1) by (auto simp: abs_if)
  then have "two_powi (b + 23) < two_powi (e + 24)" using binade(1) P(4) by simp
  then have below: "b \<le> e" by simp
  have at: "round_magnitude binary32 M E = min (significand_at M E (max (- 149) b) + nat (max (- 149) b + 149) * 2 ^ 23) (inf_mag binary32)"
    using round_magnitude_significand [OF M, of binary32 E] unfolding hidden by (simp add: b_def Let_def add.commute algebra_simps)
  consider (same) "max (- 149) b = e" | (under) "b = e - 1" "0 < k"
  proof (cases "k = 0")
    case True
    then show ?thesis using that(1) below by (simp add: e_def)
  next
    case False
    then have "2 ^ 23 * P \<le> w" using mk(3) P(1) unfolding w_def by (intro mult_right_mono) simp_all
    moreover have "4 * (w - ?r) < P" using close(1) by (auto simp: abs_if split: if_splits)
    ultimately have "2 ^ 22 * P < ?r" using P(1) by simp
    then have "two_powi (e + 22) < two_powi (b + 24)" using binade(2) P(2) by simp
    then have "e - 1 \<le> b" by simp
    then show ?thesis using that below False by (fastforce simp: e_def)
  qed
  then show ?thesis
  proof cases
    case same
    have "2 * \<bar>?r - w\<bar> < P" by (rule le_less_trans [OF _ close(1)]) simp
    then have "significand_at M E e = m" by (intro significand_near) (simp add: w_def P_def)
    then show ?thesis using at same g(2) mk(1) by (simp add: e_def)
  next
    case under
    have "b + 24 = e + 23" using under(1) by simp
    then have "?r < 2 ^ 23 * P" using binade(2) P(3) by (simp only:)
    then have "67108863 * w < 562949953421312 * P" using sides(2) by simp
    then have "67108863 * real m * P < 562949953421312 * P" by (simp add: w_def)
    then have "real (67108863 * m) < real 562949953421312" using P(1) by (simp only: mult_less_cancel_right) simp
    then have "67108863 * m < 562949953421312" by (simp only: of_nat_less_iff)
    then have m23: "m = 2 ^ 23" using mk(3) under(2) by simp
    define Q where "Q = two_powi (e - 1)"
    have Q: "w = 16777216 * Q" "0 < Q" using P(5) by (simp_all add: w_def m23 Q_def)
    have "2 * (?r - w) < Q" using sides(1) Q by linarith
    moreover have "2 * (w - ?r) < Q" using sides(2) Q by linarith
    ultimately have "2 * \<bar>?r - w\<bar> < Q" by (auto simp: abs_if)
    then have "significand_at M E (e - 1) = 2 ^ 24" by (intro significand_near) (simp add: Q Q_def)
    then show ?thesis using at under g(2) mk(1) m23 by (simp add: e_def nat_diff_distrib of_nat_diff max_def algebra_simps)
  qed
qed

section \<open>Decimal numbers\<close>

lemma with_sticky_near:
  assumes "0 < q"
  shows "\<bar>real (with_sticky (p div q) (p mod q = 0)) / 2 - real p / real q\<bar> \<le> 1 / 2"
proof -
  have "real p = real (p div q) * real q + real (p mod q)" by (metis div_mult_mod_eq of_nat_add of_nat_mult)
  then have split: "real p / real q = real (p div q) + real (p mod q) / real q" using assms by (simp add: field_simps)
  define f where "f = real (p mod q) / real q"
  have f: "0 \<le> f" "f < 1" using assms by (simp_all add: f_def)
  show ?thesis
  proof (cases "p mod q = 0")
    case True
    then show ?thesis using split by (simp add: with_sticky_def)
  next
    case False
    then have "real (with_sticky (p div q) (p mod q = 0)) / 2 - real p / real q = 1 / 2 - f"
      unfolding split by (simp add: with_sticky_def f_def add_divide_distrib)
    then show ?thesis using f by (simp add: abs_if)
  qed
qed

text \<open>The dyadic number that stands for a quotient is closer than \<open>2^-27\<close> of it.\<close>

lemma quotient_near:
  fixes d q t :: nat
  defines "w \<equiv> with_sticky (d * 2 ^ t div q) (d * 2 ^ t mod q = 0)"
  assumes "0 < d" "0 < q" "t = 26 + bit_len q"
  shows "2 ^ 27 * \<bar>real w * two_powi (- int t - 1) - real d / real q\<bar> \<le> real d / real q" "0 < w"
proof -
  have "q < 2 ^ bit_len q" using bit_len_bounds [OF assms(3)] by blast
  also have "2 ^ bit_len q \<le> 2 ^ bit_len q * d" using assms(2) by simp
  finally have "real q \<le> real (2 ^ bit_len q * d)" by (simp only: of_nat_le_iff less_imp_le)
  then have "real q \<le> 2 ^ bit_len q * real d" by (simp only: of_nat_mult of_nat_power of_nat_numeral)
  then have one: "1 \<le> 2 ^ bit_len q * (real d / real q)" using assms(3) by (simp add: le_divide_eq)
  have scale: "real w * two_powi (- int t - 1) = real w / 2 / 2 ^ t"
    using two_powi_add [of "- int t - 1" "int t + 1"] two_powi_add [of "int t" 1] two_powi_nat [of t] two_powi_nat [of 1]
    by (simp add: field_simps)
  define A where "A = real w / 2 - real (d * 2 ^ t) / real q"
  have "\<bar>A\<bar> \<le> 1 / 2" unfolding A_def w_def by (rule with_sticky_near [OF assms(3)])
  then have "\<bar>A\<bar> / 2 ^ t \<le> 1 / 2 / 2 ^ t" by (intro divide_right_mono) simp_all
  moreover have "real w * two_powi (- int t - 1) - real d / real q = A / 2 ^ t"
    by (simp add: scale A_def diff_divide_distrib)
  ultimately have "\<bar>real w * two_powi (- int t - 1) - real d / real q\<bar> \<le> 1 / 2 / 2 ^ t" by simp
  also have "\<dots> = 1 / (2 ^ 27 * 2 ^ bit_len q)" by (simp add: assms(4) power_add)
  finally have "2 ^ 27 * \<bar>real w * two_powi (- int t - 1) - real d / real q\<bar> \<le> 1 / 2 ^ bit_len q"
    by (simp add: field_simps)
  also have "\<dots> \<le> real d / real q" using one by (simp add: field_simps)
  finally show near: "2 ^ 27 * \<bar>real w * two_powi (- int t - 1) - real d / real q\<bar> \<le> real d / real q" .
  define c where "c = real d / real q"
  have "0 < c" "2 ^ 27 * \<bar>real w * two_powi (- int t - 1) - c\<bar> \<le> c" using near assms(2,3) by (simp_all add: c_def)
  then show "0 < w" by (cases "w = 0") auto
qed

text \<open>\<open>a\<close> is within nine digits of \<open>b\<close>.\<close>

definition nine_close :: "real \<Rightarrow> real \<Rightarrow> bool" where
  "nine_close a b \<longleftrightarrow> 200000000 * \<bar>a - b\<bar> \<le> b"

lemma decimal_magnitude_near:
  assumes "0 < g" "g < inf_mag binary32" "nine_close (real d * 10 powi k) (magnitude_value binary32 g)"
  shows "decimal_magnitude binary32 d k = g"
proof -
  let ?v = "magnitude_value binary32 g" and ?r = "real d * 10 powi k"
  have v: "0 < ?v" using magnitude_value_less_iff [of binary32 0 g] assms(1) by simp
  have near: "200000000 * \<bar>?r - ?v\<bar> \<le> ?v" using assms(3) by (simp add: nine_close_def)
  have d: "0 < d" using near v by (cases "d = 0") auto
  show ?thesis
  proof (cases "0 \<le> k")
    case True
    have r: "?r = real (d * 10 ^ nat k) * two_powi 0" using True by (simp add: power_int_def)
    have "2 ^ 26 * \<bar>?r - ?v\<bar> < ?v" using near v by simp
    then have "round_magnitude binary32 (d * 10 ^ nat k) 0 = g"
      unfolding r by (intro round_magnitude_near assms(1,2)) (use d in simp_all)
    then show ?thesis using True by (simp add: decimal_magnitude_def)
  next
    case False
    define q t where "q = (10 :: nat) ^ nat (- k)" and "t = 26 + bit_len q"
    define w where "w = with_sticky (d * 2 ^ t div q) (d * 2 ^ t mod q = 0)"
    have q: "0 < q" by (simp add: q_def)
    have r: "?r = real d / real q" using False by (simp add: power_int_def q_def field_simps)
    note w = quotient_near [OF d q t_def, folded w_def, folded r]
    define x where "x = real w * two_powi (- int t - 1)"
    have x: "134217728 * \<bar>x - ?r\<bar> \<le> ?r" using w(1) by (simp add: x_def)
    have "67108864 * \<bar>x - ?v\<bar> < ?v" using near x v by (auto simp: abs_if split: if_splits)
    then have "2 ^ 26 * \<bar>real w * two_powi (- int t - 1) - ?v\<bar> < ?v" by (simp add: x_def)
    from round_magnitude_near [OF assms(1,2) w(2) this] show ?thesis
      using False by (simp add: decimal_magnitude_def div_finite_def w_def t_def q_def)
  qed
qed

section \<open>Nine digits\<close>

lemma decimal_bounds: "n < 10 ^ length (decimal n) \<and> (0 < n \<longrightarrow> 10 ^ (length (decimal n) - 1) \<le> n)"
proof (induction n rule: decimal.induct)
  case (1 n)
  show ?case
  proof (cases "n < 10")
    case True
    then show ?thesis by (simp add: decimal.simps [of n])
  next
    case False
    define l where "l = length (decimal (n div 10))"
    have l: "0 < l" "length (decimal n) = Suc l" using False by (simp_all add: l_def decimal.simps [of n])
    have "n div 10 < 10 ^ l" "10 ^ (l - 1) \<le> n div 10" using 1 [OF False] False by (simp_all add: l_def)
    then have "n < 10 ^ l * 10" "10 ^ (l - 1) * 10 \<le> n" by (simp_all add: div_less_iff_less_mult less_eq_div_iff_mult_less_eq)
    then show ?thesis using l by (cases l) (simp_all add: mult.commute)
  qed
qed

lemma decimal_exponent_bounds:
  assumes "0 < a" "0 < b"
  shows "10 powi decimal_exponent a b \<le> real a / real b" "real a / real b < 10 powi (decimal_exponent a b + 1)"
proof -
  have "10 powi decimal_exponent a b \<le> real a / real b \<and> real a / real b < 10 powi (decimal_exponent a b + 1)"
  proof (cases "b \<le> a")
    case True
    define l where "l = length (decimal (a div b)) - 1"
    have "0 < a div b" using True assms(2) by (simp add: div_greater_zero_iff)
    then have "10 ^ l \<le> a div b" "a div b < 10 ^ Suc l"
      using decimal_bounds [of "a div b"] decimal_not_empty [of "a div b"] by (simp_all add: l_def del: decimal_not_empty)
    then have "10 ^ l * b \<le> a" "a < 10 ^ Suc l * b"
      using assms(2) by (simp_all add: div_less_iff_less_mult less_eq_div_iff_mult_less_eq)
    then have "real (10 ^ l * b) \<le> real a" "real a < real (10 ^ Suc l * b)" by (simp_all only: of_nat_le_iff of_nat_less_iff)
    then have "10 ^ l \<le> real a / real b" "real a / real b < 10 ^ Suc l" using assms(2) by (simp_all add: field_simps)
    moreover have "decimal_exponent a b = int l"
      using True decimal_not_empty [of "a div b"] by (simp add: decimal_exponent_def l_def of_nat_diff Suc_le_eq del: decimal_not_empty)
    moreover have "10 powi (int l + 1) = (10 :: real) ^ Suc l" using power_int_of_nat [of "10 :: real" "Suc l"] by (simp add: add.commute)
    ultimately show ?thesis by simp
  next
    case False
    define l where "l = length (decimal ((b - 1) div a)) - 1"
    have "0 < (b - 1) div a" using False assms(1) by (simp add: div_greater_zero_iff)
    then have "10 ^ l \<le> (b - 1) div a" "(b - 1) div a < 10 ^ Suc l"
      using decimal_bounds [of "(b - 1) div a"] decimal_not_empty [of "(b - 1) div a"] by (simp_all add: l_def del: decimal_not_empty)
    then have "10 ^ l * a \<le> b - 1" "b - 1 < 10 ^ Suc l * a"
      using assms(1) by (simp_all add: div_less_iff_less_mult less_eq_div_iff_mult_less_eq)
    then have "10 ^ l * a < b" "b \<le> 10 ^ Suc l * a" using assms(2) by linarith+
    then have "real (10 ^ l * a) < real b" "real b \<le> real (10 ^ Suc l * a)" by (simp_all only: of_nat_le_iff of_nat_less_iff)
    then have "real a / real b < inverse (10 ^ l)" "inverse (10 ^ Suc l) \<le> real a / real b" using assms by (simp_all add: field_simps)
    moreover have "decimal_exponent a b = - int (Suc l)"
      using False decimal_not_empty [of "(b - 1) div a"] by (simp add: decimal_exponent_def l_def of_nat_diff Suc_le_eq del: decimal_not_empty)
    moreover have "10 powi (- int (Suc l)) = inverse ((10 :: real) ^ Suc l)" by (simp only: power_int_minus power_int_of_nat)
    moreover have "- int (Suc l) + 1 = - int l" by simp
    then have "10 powi (- int (Suc l) + 1) = inverse ((10 :: real) ^ l)" by (simp only: power_int_minus power_int_of_nat)
    ultimately show ?thesis by (simp only: less_imp_le simp_thms)
  qed
  then show "10 powi decimal_exponent a b \<le> real a / real b" "real a / real b < 10 powi (decimal_exponent a b + 1)" by blast+
qed

lemma round_quotient_near:
  assumes "0 < b"
  shows "\<bar>real (round_quotient a b) - real a / real b\<bar> \<le> 1 / 2"
proof -
  have "real a = real (a div b) * real b + real (a mod b)" by (metis div_mult_mod_eq of_nat_add of_nat_mult)
  then have split: "real a / real b = real (a div b) + real (a mod b) / real b" using assms by (simp add: field_simps)
  define f where "f = real (a mod b) / real b"
  have f: "0 \<le> f" "f < 1" using assms by (simp_all add: f_def)
  consider "b < 2 * (a mod b)" | "2 * (a mod b) = b" | "2 * (a mod b) < b" by linarith
  then show ?thesis
  proof cases
    case 1
    then have "1 / 2 \<le> f" "round_quotient a b = Suc (a div b)"
      using assms by (simp_all add: f_def field_simps round_quotient_def round_half_even_def)
    then show ?thesis unfolding split f_def [symmetric] using f by (simp add: abs_if)
  next
    case 2
    then have "f = 1 / 2" using assms by (simp add: f_def field_simps)
    moreover have "round_quotient a b = a div b \<or> round_quotient a b = Suc (a div b)"
      by (simp add: round_quotient_def round_half_even_def)
    ultimately show ?thesis unfolding split f_def [symmetric] by auto
  next
    case 3
    then have "f \<le> 1 / 2" "round_quotient a b = a div b"
      using assms by (simp_all add: f_def field_simps round_quotient_def round_half_even_def)
    then show ?thesis unfolding split f_def [symmetric] using f by simp
  qed
qed

lemma ten_powi_add: "(10 :: real) powi (i + j) = 10 powi i * 10 powi j"
  by (rule power_int_add) simp

lemma ten_powi_nat: "0 \<le> i \<Longrightarrow> (10 :: real) powi i = 10 ^ nat i"
  by (simp add: power_int_def)

lemma nine_digits_near:
  assumes "0 < a" "0 < b" "nine_digits a b = (q, x)"
  shows "10 ^ 8 \<le> q" "q < 10 ^ 9" "nine_close (real q * 10 powi (x - 8)) (real a / real b)"
proof -
  define x0 where "x0 = decimal_exponent a b"
  define v where "v = real a / real b"
  define U where "U = (10 :: real) powi (x0 - 8)"
  define s where "s = v / U"
  define q0 where "q0 = (if x0 \<le> 8 then round_quotient (a * 10 ^ nat (8 - x0)) b else round_quotient a (b * 10 ^ nat (x0 - 8)))"
  have U: "0 < U" "10 powi x0 = 10 ^ 8 * U" "10 powi (x0 + 1) = 10 ^ 9 * U"
    using ten_powi_add [of "x0 - 8" 8] ten_powi_add [of "x0 - 8" 9] ten_powi_nat [of 8] ten_powi_nat [of 9]
    by (simp_all add: U_def zero_less_power_int add.commute)
  have bounds: "10 ^ 8 * U \<le> v" "v < 10 ^ 9 * U"
    using decimal_exponent_bounds [OF assms(1,2)] U(2,3) by (simp_all add: x0_def v_def)
  then have s: "10 ^ 8 \<le> s" "s < 10 ^ 9" using U(1) by (simp_all add: s_def field_simps)
  have q0: "\<bar>real q0 - s\<bar> \<le> 1 / 2"
  proof (cases "x0 \<le> 8")
    case True
    have one: "10 ^ nat (8 - x0) * U = 1"
      using ten_powi_add [of "x0 - 8" "8 - x0"] ten_powi_nat [of "8 - x0"] True by (simp add: U_def mult.commute)
    have "v = v * 10 ^ nat (8 - x0) * U" unfolding mult.assoc one by simp
    then have "s = v * 10 ^ nat (8 - x0)" using U(1) by (simp add: s_def divide_eq_eq)
    then have "s = real (a * 10 ^ nat (8 - x0)) / real b" by (simp add: v_def)
    then show ?thesis using round_quotient_near [OF assms(2), of "a * 10 ^ nat (8 - x0)"] True by (simp add: q0_def)
  next
    case False
    have "U = 10 ^ nat (x0 - 8)" using ten_powi_nat [of "x0 - 8"] False by (simp add: U_def)
    then have "s = real a / real (b * 10 ^ nat (x0 - 8))" by (simp add: s_def v_def)
    moreover have "0 < b * 10 ^ nat (x0 - 8)" using assms(2) by simp
    ultimately show ?thesis using round_quotient_near [of "b * 10 ^ nat (x0 - 8)" a] False by (simp add: q0_def)
  qed
  then have "real q0 \<le> s + 1 / 2" "s - 1 / 2 \<le> real q0" by (auto simp: abs_if split: if_splits)
  then have "real q0 < real (10 ^ 9 + 1)" "real (10 ^ 8 - 1) < real q0" using s by simp_all
  then have range: "10 ^ 8 \<le> q0" "q0 \<le> 10 ^ 9" unfolding of_nat_less_iff by simp_all
  have same: "real q * 10 powi (x - 8) = real q0 * U" and size: "10 ^ 8 \<le> q \<and> q < 10 ^ 9"
  proof -
    have qx: "(q, x) = (if q0 = 10 ^ 9 then (10 ^ 8, x0 + 1) else (q0, x0))"
      using assms(3) [symmetric] unfolding nine_digits_def Let_def q0_def x0_def .
    have "10 powi (x0 + 1 - 8) = 10 * U" using ten_powi_add [of "x0 - 8" 1] by (simp add: U_def algebra_simps)
    then show "real q * 10 powi (x - 8) = real q0 * U" using qx by (auto simp: U_def split: if_splits)
    show "10 ^ 8 \<le> q \<and> q < 10 ^ 9" using qx range by (auto split: if_splits)
  qed
  have "real q0 * U - v = (real q0 - s) * U" using U(1) by (simp add: s_def left_diff_distrib)
  then have "\<bar>real q0 * U - v\<bar> = \<bar>real q0 - s\<bar> * U" using U(1) by (simp add: abs_mult)
  moreover have "\<bar>real q0 - s\<bar> * U \<le> 1 / 2 * U" using q0 U(1) by (intro mult_right_mono) simp_all
  ultimately have "200000000 * \<bar>real q0 * U - v\<bar> \<le> v" using bounds(1) by simp
  then show "nine_close (real q * 10 powi (x - 8)) (real a / real b)" by (simp add: nine_close_def same v_def)
  show "10 ^ 8 \<le> q" "q < 10 ^ 9" using size by simp_all
qed

section \<open>The text\<close>

text \<open>Trailing zeros of a fraction do not count.\<close>

definition kept_digits :: "string \<Rightarrow> string" where
  "kept_digits ds = rev (dropWhile (\<lambda>c. c = CHR ''0'') (rev ds))"

lemma with_fraction_kept:
  "with_fraction whole ds = (if kept_digits ds = [] then whole else whole @ CHR ''.'' # kept_digits ds)"
  by (simp add: with_fraction_def kept_digits_def Let_def)

lemma kept_digits_split: "ds = kept_digits ds @ replicate (length ds - length (kept_digits ds)) (CHR ''0'')"
proof -
  have "takeWhile (\<lambda>c. c = CHR ''0'') (rev ds) = replicate (length (takeWhile (\<lambda>c. c = CHR ''0'') (rev ds))) (CHR ''0'')"
    by (rule replicate_eqI) (auto dest: set_takeWhileD)
  moreover have "ds = kept_digits ds @ rev (takeWhile (\<lambda>c. c = CHR ''0'') (rev ds))"
    unfolding kept_digits_def by (metis rev_append rev_rev_ident takeWhile_dropWhile_id)
  ultimately obtain n where "ds = kept_digits ds @ replicate n (CHR ''0'')" by (metis rev_replicate)
  moreover from this have "n = length ds - length (kept_digits ds)" by (metis add_diff_cancel_left' length_append length_replicate)
  ultimately show ?thesis by simp
qed

lemma number_value_zeros: "number_value (ds @ replicate n (CHR ''0'')) = number_value ds * 10 ^ n"
proof (induction n)
  case (Suc n)
  have "ds @ replicate (Suc n) (CHR ''0'') = (ds @ replicate n (CHR ''0'')) @ [CHR ''0'']"
    by (simp add: replicate_append_same)
  then show ?case using Suc number_value_append [of "ds @ replicate n (CHR ''0'')" "CHR ''0''"] by (simp add: digit_value_def)
qed simp

lemma number_value_leading: "number_value (replicate n (CHR ''0'') @ ds) = number_value ds"
proof -
  have "foldl (\<lambda>n c. 10 * n + digit_value c) 0 (replicate n (CHR ''0'')) = 0"
    by (induction n) (simp_all add: digit_value_def)
  then show ?thesis by (simp add: number_value_def)
qed

lemma kept_digits_value:
  "real (number_value (w @ kept_digits ds)) * 10 powi (e - int (length (kept_digits ds)))
   = real (number_value (w @ ds)) * 10 powi (e - int (length ds))"
proof -
  define n where "n = length ds - length (kept_digits ds)"
  have ds: "ds = kept_digits ds @ replicate n (CHR ''0'')" using kept_digits_split [of ds] by (simp add: n_def)
  then have len: "length ds = length (kept_digits ds) + n" by (metis length_append length_replicate)
  have "number_value (w @ ds) = number_value (w @ kept_digits ds) * 10 ^ n"
    using number_value_zeros [of "w @ kept_digits ds" n] ds by simp
  moreover have "10 powi (e - int (length ds)) * 10 ^ n = (10 :: real) powi (e - int (length (kept_digits ds)))"
    using ten_powi_add [of "e - int (length ds)" "int n"] ten_powi_nat [of "int n"] by (simp add: len)
  ultimately show ?thesis by (simp add: mult.assoc mult.commute)
qed

lemma takeWhile_digits:
  assumes "\<forall>c\<in>set ds. decimal_digit c" "rest = [] \<or> \<not> decimal_digit (hd rest)"
  shows "takeWhile decimal_digit (ds @ rest) = ds" "dropWhile decimal_digit (ds @ rest) = rest"
  using assms by (cases rest; simp add: takeWhile_append2 dropWhile_append2)+

lemma not_digits [simp]:
  "\<not> decimal_digit (CHR ''.'')" "\<not> decimal_digit (CHR ''e'')" "\<not> decimal_digit (CHR ''-'')" "\<not> decimal_digit (CHR ''+'')"
  "decimal_digit (CHR ''0'')"
  by (simp_all add: decimal_digit_def)

lemma decimal_body_text:
  assumes digits: "whole \<noteq> []" "\<forall>c\<in>set whole. decimal_digit c" "\<forall>c\<in>set ks. decimal_digit c"
    and suffix: "suffix = [] \<or> hd suffix = CHR ''e''" "exponent_part suffix = (e, [])"
  shows "decimal_body (whole @ (if ks = [] then [] else CHR ''.'' # ks) @ suffix)
    = Some (decimal_magnitude binary32 (number_value (whole @ ks)) (e - int (length ks)), number_value (whole @ ks) \<noteq> 0, [])"
proof -
  let ?rest = "(if ks = [] then [] else CHR ''.'' # ks) @ suffix"
  have rest: "?rest = [] \<or> \<not> decimal_digit (hd ?rest)" using suffix(1) by (cases suffix) auto
  have fraction: "fraction_part ?rest = (ks, suffix)"
  proof (cases "ks = []")
    case True
    then show ?thesis using suffix(1) by (cases suffix) (auto simp: fraction_part_def)
  next
    case False
    have "suffix = [] \<or> \<not> decimal_digit (hd suffix)" using suffix(1) by auto
    from takeWhile_digits [OF digits(3) this] False show ?thesis by (simp add: fraction_part_def)
  qed
  show ?thesis
    unfolding decimal_body_def takeWhile_digits [OF digits(2) rest] Let_def fraction
    using digits(1) suffix(2) by simp
qed

lemma exponent_text_part: "exponent_part (exponent_text x) = (x, [])"
proof -
  define ds where "ds = (if \<bar>x\<bar> < 10 then CHR ''0'' # decimal (nat \<bar>x\<bar>) else decimal (nat \<bar>x\<bar>))"
  have ds: "ds \<noteq> []" "\<forall>c\<in>set ds. decimal_digit c" using decimal_digits by (auto simp: ds_def)
  have "number_value (CHR ''0'' # l) = number_value l" for l using number_value_leading [of 1 l] by simp
  then have n: "int (number_value ds) = \<bar>x\<bar>" by (simp add: ds_def)
  have all: "takeWhile decimal_digit ds = ds" "dropWhile decimal_digit ds = []" using ds(2) by simp_all
  show ?thesis
    using n ds by (simp add: exponent_text_def ds_def [symmetric] exponent_part_def Let_def all)
qed

lemma kept_digits_subset: "c \<in> set (kept_digits ds) \<Longrightarrow> c \<in> set ds"
  using set_dropWhileD [of c _ "rev ds"] by (simp add: kept_digits_def)

text \<open>Reading the text of nine digits and an exponent finds a number of the same value.\<close>

lemma general_text_body:
  assumes "10 ^ 8 \<le> q" "q < 10 ^ 9"
  shows "\<exists>d k. decimal_body (general_text q x) = Some (decimal_magnitude binary32 d k, d \<noteq> 0, [])
    \<and> real d * 10 powi k = real q * 10 powi (x - 8)"
proof -
  define digits where "digits = decimal q"
  have digit: "\<forall>c\<in>set digits. decimal_digit c" using decimal_digits by (auto simp: digits_def)
  have "length digits = 9"
  proof -
    have "q < 10 ^ length digits" "10 ^ (length digits - 1) \<le> q"
      using decimal_bounds [of q] assms(1) by (simp_all add: digits_def)
    then have "(10 :: nat) ^ 8 < 10 ^ length digits" "(10 :: nat) ^ (length digits - 1) < 10 ^ 9" using assms by simp_all
    then have "8 < length digits" "length digits - 1 < 9" by (auto intro: power_less_imp_less_exp [of "10 :: nat", rotated] simp del: power_numeral)
    then show ?thesis by simp
  qed
  have body: "\<exists>d k. decimal_body (with_fraction whole fr @ suffix) = Some (decimal_magnitude binary32 d k, d \<noteq> 0, [])
      \<and> real d * 10 powi k = real q * 10 powi (x - 8)"
    if "whole \<noteq> []" "\<forall>c\<in>set whole. decimal_digit c" "\<forall>c\<in>set fr. decimal_digit c"
      "suffix = [] \<or> hd suffix = CHR ''e''" "exponent_part suffix = (e, [])"
      "number_value (whole @ fr) = q" "e - int (length fr) = x - 8" for whole fr suffix e
  proof -
    have "\<forall>c\<in>set (kept_digits fr). decimal_digit c" using that(3) kept_digits_subset by blast
    from decimal_body_text [OF that(1,2) this that(4,5)]
    have "decimal_body (with_fraction whole fr @ suffix) = Some (decimal_magnitude binary32 (number_value (whole @ kept_digits fr))
        (e - int (length (kept_digits fr))), number_value (whole @ kept_digits fr) \<noteq> 0, [])"
      by (cases "kept_digits fr = []") (simp_all only: with_fraction_kept if_True if_False append_Nil append_assoc append_Cons simp_thms)
    then show ?thesis using kept_digits_value [of whole fr e] that(6,7) by metis
  qed
  have none: "exponent_part [] = (0, [])" by (simp add: exponent_part_def)
  consider (fixed) "0 \<le> x" "x < 9" | (small) "- 4 \<le> x" "x < 0" | (scientific) "\<not> (- 4 \<le> x \<and> x < 9)" by linarith
  then show ?thesis
  proof cases
    case fixed
    have "\<exists>d k. decimal_body (with_fraction (take (nat x + 1) digits) (drop (nat x + 1) digits) @ []) = Some (decimal_magnitude binary32 d k, d \<noteq> 0, [])
      \<and> real d * 10 powi k = real q * 10 powi (x - 8)"
      using fixed \<open>length digits = 9\<close> digit
      by (intro body [where e = 0] none) (auto simp: digits_def dest: in_set_takeD in_set_dropD)
    then show ?thesis using fixed by (simp add: general_text_def Let_def digits_def)
  next
    case small
    have "number_value (''0'' @ replicate (nat (- x - 1)) (CHR ''0'') @ digits) = q"
      using number_value_leading [of "Suc (nat (- x - 1))" digits] by (simp add: digits_def)
    then have "\<exists>d k. decimal_body (with_fraction ''0'' (replicate (nat (- x - 1)) (CHR ''0'') @ digits) @ []) = Some (decimal_magnitude binary32 d k, d \<noteq> 0, [])
      \<and> real d * 10 powi k = real q * 10 powi (x - 8)"
      using small \<open>length digits = 9\<close> digit by (intro body [where e = 0] none) auto
    then show ?thesis using small by (simp add: general_text_def Let_def digits_def)
  next
    case scientific
    have "\<exists>d k. decimal_body (with_fraction (take 1 digits) (drop 1 digits) @ exponent_text x) = Some (decimal_magnitude binary32 d k, d \<noteq> 0, [])
      \<and> real d * 10 powi k = real q * 10 powi (x - 8)"
      using \<open>length digits = 9\<close> digit
      by (intro body [where e = x] exponent_text_part)
        (auto simp: digits_def exponent_text_def dest: in_set_takeD in_set_dropD)
    then show ?thesis using scientific by (auto simp: general_text_def Let_def digits_def)
  qed
qed

text \<open>The characters of a written number.\<close>

definition number_char :: "char \<Rightarrow> bool" where
  "number_char c \<longleftrightarrow> decimal_digit c \<or> c \<in> {CHR ''.'', CHR ''e'', CHR ''+'', CHR ''-''}"

lemma digits_number_chars: "c \<in> set (decimal n) \<Longrightarrow> number_char c"
  by (simp add: number_char_def decimal_digits)

lemma with_fraction_Cons [simp]: "with_fraction (d # w) fr = d # with_fraction w fr"
  by (simp add: with_fraction_kept)

lemma with_fraction_chars:
  "c \<in> set (with_fraction whole fr) \<Longrightarrow> c \<in> set whole \<or> c = CHR ''.'' \<or> c \<in> set fr"
  using kept_digits_subset by (auto simp: with_fraction_kept split: if_splits)

lemma general_text_chars: "c \<in> set (general_text q x) \<Longrightarrow> number_char c"
proof -
  have zero: "number_char (CHR ''0'')" "number_char (CHR ''.'')" "number_char (CHR ''e'')" "number_char (CHR ''+'')" "number_char (CHR ''-'')"
    by (simp_all add: number_char_def)
  show "c \<in> set (general_text q x) \<Longrightarrow> number_char c"
    unfolding general_text_def Let_def exponent_text_def
    by (auto simp: zero digits_number_chars dest!: with_fraction_chars in_set_takeD in_set_dropD split: if_splits)
qed

lemma general_text_head: "\<exists>c rest. general_text q x = c # rest \<and> decimal_digit c"
proof -
  obtain c rest where q: "decimal q = c # rest" using decimal_not_empty [of q] by (cases "decimal q") auto
  then have c: "decimal_digit c" using decimal_digits [of c q] by simp
  show ?thesis using c by (auto simp: general_text_def Let_def q)
qed

lemma number_char_lower: "number_char c \<Longrightarrow> lower_char c \<notin> {CHR ''i'', CHR ''n'', CHR ''x''}"
  by (auto simp: number_char_def decimal_digit_def lower_char_def)

lemma starts_with_chars: "starts_with w text \<Longrightarrow> c \<in> set w \<Longrightarrow> \<exists>d\<in>set text. lower_char d = c"
proof -
  assume "starts_with w text" "c \<in> set w"
  then have "c \<in> lower_char ` set (take (length w) text)" unfolding starts_with_def by (metis set_map)
  then show ?thesis using in_set_takeD by fastforce
qed

lemma number_body_decimal:
  assumes "\<forall>c\<in>set text. number_char c"
  shows "number_body text = decimal_body text"
proof -
  have other: "\<not> starts_with w text" if "c \<in> set w" "c \<in> {CHR ''i'', CHR ''n'', CHR ''x''}" for w c
    using starts_with_chars [of w "text" c] number_char_lower assms that by blast
  show ?thesis
    using other [of "CHR ''i''"] other [of "CHR ''n''"] other [of "CHR ''x''"] by (simp add: number_body_def)
qed

lemma stof_signed:
  assumes "decimal_digit c" "\<forall>d\<in>set (c # rest). number_char d" "decimal_body (c # rest) = Some (g, nonzero, [])"
    "text = (if negative then ''-'' else []) @ c # rest"
  shows "stof underflow text =
    (if nonzero \<and> (g = inf_mag binary32 \<or> g < hidden_bit binary32 \<and> underflow text) then Inl (Out_of_range ''stof'')
     else Inr (pack32 (negative, g), length text))"
proof -
  have "\<not> space_char c" "c \<noteq> CHR ''-''" "c \<noteq> CHR ''+''" "\<not> space_char (CHR ''-'')"
    using assms(1) by (auto simp: decimal_digit_def space_char_def)
  then show ?thesis
    using number_body_decimal [OF assms(2)] assms(3,4) by (cases negative) (simp_all add: stof_def Let_def)
qed

lemma pack_unpack32 [simp]: "pack32 (unpack32 v) = v"
proof -
  have "unat v < 2 ^ 31 + 2 ^ 31" using unsigned_less [of v, where 'a = nat] by simp
  then have "unat v mod 2 ^ 31 + (if 2 ^ 31 \<le> unat v then 2 ^ 31 else 0) = unat v"
    by (auto simp: not_le mod_if)
  then show ?thesis by (simp add: pack32_def unpack32_def)
qed

lemma mag_parts_positive: "0 < g \<Longrightarrow> 0 < fst (mag_parts F g)"
proof -
  assume "0 < g"
  then have "0 < magnitude_value F g" using magnitude_value_less_iff [of F 0 g] by simp
  then show ?thesis by (simp add: magnitude_value_two_powi zero_less_mult_iff)
qed

lemma fraction_value: "real (m * 2 ^ nat e) / real (2 ^ nat (- e)) = real m * two_powi e"
proof (cases "0 \<le> e")
  case True
  then show ?thesis using two_powi_nat [of "nat e"] by simp
next
  case False
  then have "two_powi e * 2 ^ nat (- e) = 1" using two_powi_add [of e "- e"] two_powi_nat [of "nat (- e)"] by simp
  then show ?thesis using False by (simp add: field_simps)
qed

text \<open>Reading what was written gives the float back.\<close>

lemma stof_show_f32:
  assumes "f32_is_finite v"
    and "snd (unpack32 v) = 0 \<or> hidden_bit binary32 \<le> snd (unpack32 v) \<or> \<not> underflow (show_f32 v)"
  shows "stof underflow (show_f32 v) = Inr (v, length (show_f32 v))"
proof -
  obtain negative g where v: "unpack32 v = (negative, g)" by fastforce
  then have pack: "pack32 (negative, g) = v" by (metis pack_unpack32)
  have g: "g < inf_mag binary32" using assms(1) v by (simp add: f32_is_finite_def is_finite_mag_def)
  obtain c rest nonzero where tx: "show_f32 v = (if negative then ''-'' else []) @ c # rest" "decimal_digit c"
      "\<forall>d\<in>set (c # rest). number_char d" "decimal_body (c # rest) = Some (g, nonzero, [])" "g = 0 \<Longrightarrow> \<not> nonzero"
  proof (cases "g = 0")
    case True
    have "decimal_body ''0'' = Some (g, False, [])"
      using decimal_body_text [of "''0''" "[]" "[]" 0] True
      by (simp add: exponent_part_def number_value_def digit_value_def decimal_magnitude_def round_magnitude_def)
    then show ?thesis using that [of "CHR ''0''" "[]" False] True v by (simp add: show_f32_def number_char_def)
  next
    case False
    obtain m e where parts: "mag_parts binary32 g = (m, e)" by fastforce
    then have m: "0 < m" using mag_parts_positive [of g binary32] False by simp
    obtain q x where qx: "nine_digits (m * 2 ^ nat e) (2 ^ nat (- e)) = (q, x)" by fastforce
    have value_of: "real (m * 2 ^ nat e) / real (2 ^ nat (- e)) = magnitude_value binary32 g"
      unfolding fraction_value by (simp add: magnitude_value_two_powi parts)
    have pos: "0 < m * 2 ^ nat e" "0 < (2 :: nat) ^ nat (- e)" using m by simp_all
    obtain d k where d: "decimal_body (general_text q x) = Some (decimal_magnitude binary32 d k, d \<noteq> 0, [])"
        "real d * 10 powi k = real q * 10 powi (x - 8)"
      using general_text_body [OF nine_digits_near(1,2) [OF pos qx]] by blast
    have "nine_close (real d * 10 powi k) (magnitude_value binary32 g)"
      using nine_digits_near(3) [OF pos qx] unfolding d(2) value_of .
    then have "decimal_magnitude binary32 d k = g" using False g by (intro decimal_magnitude_near) simp_all
    moreover obtain c rest where head: "general_text q x = c # rest" "decimal_digit c" using general_text_head by blast
    moreover have "\<forall>d\<in>set (c # rest). number_char d" using general_text_chars head(1) by metis
    moreover have "show_f32 v = (if negative then ''-'' else []) @ general_text q x"
      using False g by (simp add: show_f32_def v parts qx)
    ultimately show ?thesis using that [of c rest "d \<noteq> 0"] d(1) False by simp
  qed
  have "\<not> (nonzero \<and> (g = inf_mag binary32 \<or> g < hidden_bit binary32 \<and> underflow (show_f32 v)))"
    using assms(2) g tx(5) by (auto simp: v)
  then show ?thesis using stof_signed [OF tx(2-4,1), of underflow] pack by simp
qed

lemma show_f32_chars:
  assumes "f32_is_finite v" "c \<in> set (show_f32 v)"
  shows "number_char c"
proof -
  obtain negative g where v: "unpack32 v = (negative, g)" by fastforce
  obtain m e where parts: "mag_parts binary32 g = (m, e)" by fastforce
  obtain q x where qx: "nine_digits (m * 2 ^ nat e) (2 ^ nat (- e)) = (q, x)" by fastforce
  have "g < inf_mag binary32" using assms(1) v by (simp add: f32_is_finite_def is_finite_mag_def)
  then have "c = CHR ''-'' \<or> c = CHR ''0'' \<or> c \<in> set (general_text q x)"
    using assms(2) by (auto simp: show_f32_def v parts qx split: if_splits)
  then show ?thesis using general_text_chars by (auto simp: number_char_def)
qed

end
