(* ===== verification/Validate_Recall_Theorems.thy ===== *)
theory Validate_Recall_Theorems
  imports Validate_Recall Float_Text_Theorems Vector_Store_Theorems
begin

text \<open>
  The recall runner is exact: what it reads is what the CSV files say, the index holds those vectors and
  no others, and its output lists for every query, in order, the results of the index; every line it
  writes reads back as the numbers it was written from.
\<close>

section \<open>CSV\<close>

fun csv_join :: "string list \<Rightarrow> string" where
  "csv_join [] = []"
| "csv_join [text] = text"
| "csv_join (text # rest) = text @ comma # csv_join rest"

definition csv_columns :: "string list \<Rightarrow> bool" where
  "csv_columns columns \<longleftrightarrow> columns \<noteq> [] \<and> (\<forall>text\<in>set columns. comma \<notin> set text)"

lemma split_no_comma:
  assumes "comma \<notin> set line"
  shows "split_csv_row line = [line]"
proof -
  have "dropWhile (\<lambda>c. c \<noteq> comma) line = []" using assms by auto
  then show ?thesis by (simp only: split_csv_row.simps [of line] list.case)
qed

lemma split_comma:
  assumes "comma \<notin> set before"
  shows "split_csv_row (before @ comma # rest) = before # split_csv_row rest"
proof -
  have "c \<noteq> comma" if "c \<in> set before" for c using assms that by blast
  then have "dropWhile (\<lambda>c. c \<noteq> comma) (before @ comma # rest) = comma # rest"
    "takeWhile (\<lambda>c. c \<noteq> comma) (before @ comma # rest) = before"
    by (simp_all add: takeWhile_append2 dropWhile_append2)
  then show ?thesis by (simp only: split_csv_row.simps [of "before @ comma # rest"] list.case)
qed

lemma split_join: "csv_columns columns \<Longrightarrow> split_csv_row (csv_join columns) = columns"
  by (induction columns rule: csv_join.induct) (auto simp: csv_columns_def split_no_comma split_comma)

lemma split_columns: "csv_columns (split_csv_row line) \<and> csv_join (split_csv_row line) = line"
proof (induction line rule: split_csv_row.induct)
  case (1 line)
  show ?case
  proof (cases "comma \<in> set line")
    case False
    then show ?thesis by (simp add: split_no_comma csv_columns_def)
  next
    case True
    define before rest where "before = takeWhile (\<lambda>c. c \<noteq> comma) line" and "rest = tl (dropWhile (\<lambda>c. c \<noteq> comma) line)"
    have drop: "dropWhile (\<lambda>c. c \<noteq> comma) line = comma # rest"
      using True hd_dropWhile [of "\<lambda>c. c \<noteq> comma" line]
      by (cases "dropWhile (\<lambda>c. c \<noteq> comma) line") (auto simp: rest_def dropWhile_eq_Nil_conv)
    then have line: "line = before @ comma # rest" by (metis before_def takeWhile_dropWhile_id)
    have clean: "comma \<notin> set before" by (auto simp: before_def dest: set_takeWhileD)
    note split = split_comma [OF clean, of rest, folded line]
    have "csv_join (t # columns) = t @ comma # csv_join columns" if "columns \<noteq> []" for t columns
      using that by (cases columns) auto
    then show ?thesis using 1 [OF drop] clean split line by (auto simp: csv_columns_def)
  qed
qed

lemma split_csv_iff: "split_csv_row line = columns \<longleftrightarrow> csv_columns columns \<and> line = csv_join columns"
  using split_join split_columns by metis

lemma csv_float_iff: "csv_float underflow text = Inr v \<longleftrightarrow> stof underflow text = Inr (v, length text)"
  by (auto simp: csv_float_def result_simps split: if_splits prod.splits)

lemma csv_floats_iff:
  "csv_floats underflow texts = Inr vs \<longleftrightarrow> list_all2 (\<lambda>text v. stof underflow text = Inr (v, length text)) texts vs"
  by (induction texts arbitrary: vs) (auto simp: result_simps csv_float_iff list_all2_Cons1)

text \<open>What a line says: the ID and one float for each column.\<close>

definition row_text :: "(string \<Rightarrow> bool) \<Rightarrow> nat \<Rightarrow> string \<Rightarrow> vector_id \<times> f32 list \<Rightarrow> bool" where
  "row_text underflow dims line row \<longleftrightarrow> (\<exists>first texts. csv_columns (first # texts) \<and> line = csv_join (first # texts)
     \<and> length texts = dims \<and> whole_u64 first = Some (fst row)
     \<and> list_all2 (\<lambda>text v. stof underflow text = Inr (v, length text)) texts (snd row))"

lemma csv_row_iff: "csv_row underflow dims line = Inr row \<longleftrightarrow> row_text underflow dims line row"
proof -
  obtain first texts where split: "split_csv_row line = first # texts"
    using split_columns [of line] by (cases "split_csv_row line") (auto simp: csv_columns_def)
  then have line: "csv_columns (first # texts)" "line = csv_join (first # texts)" using split_csv_iff by blast+
  have "row_text underflow dims line row \<longleftrightarrow> length texts = dims \<and> whole_u64 first = Some (fst row)
     \<and> list_all2 (\<lambda>text v. stof underflow text = Inr (v, length text)) texts (snd row)"
  proof -
    have "f = first \<and> ts = texts" if "csv_columns (f # ts)" "line = csv_join (f # ts)" for f ts
      using that split_csv_iff [of line "f # ts"] split by simp
    then show ?thesis using line unfolding row_text_def by blast
  qed
  then show ?thesis
    by (cases row) (auto simp: csv_row_def Let_def split csv_id_def parse_components_def result_simps csv_floats_iff
        split: option.splits if_splits)
qed

lemma csv_rows_iff:
  "csv_rows underflow dims lines = Inr rows \<longleftrightarrow>
     list_all2 (row_text underflow dims) (filter (\<lambda>line. line \<noteq> []) lines) rows"
  by (induction lines arbitrary: rows) (auto simp: result_simps csv_row_iff list_all2_Cons1)

text \<open>What a file says: a header with one comma for each component, and the rows.\<close>

definition csv_file :: "(string \<Rightarrow> bool) \<Rightarrow> string \<Rightarrow> nat \<Rightarrow> (vector_id \<times> f32 list) list \<Rightarrow> bool" where
  "csv_file underflow text dims rows \<longleftrightarrow> (\<exists>header lines. get_lines text = header # lines
     \<and> count_list header comma = dims \<and> 0 < dims
     \<and> list_all2 (row_text underflow dims) (filter (\<lambda>line. line \<noteq> []) lines) rows)"

lemma length_split: "length (split_csv_row line) = Suc (count_list line comma)"
proof -
  have "csv_columns columns \<Longrightarrow> length columns = Suc (count_list (csv_join columns) comma)" for columns
    by (induction columns rule: csv_join.induct) (auto simp: csv_columns_def count_list_append count_notin)
  then show ?thesis using split_columns [of line] by metis
qed

lemma dimension_from_header_iff: "dimension_from_header header = Inr dims \<longleftrightarrow> count_list header comma = dims \<and> 0 < dims"
  by (auto simp: dimension_from_header_def Let_def length_split)

lemma load_vectors_iff:
  "load_vectors underflow path file_text = Inr (dims, rows) \<longleftrightarrow> (\<exists>text. file_text = Some text \<and> csv_file underflow text dims rows)"
  by (auto simp: load_vectors_def csv_file_def result_simps dimension_from_header_iff csv_rows_iff
      split: option.splits list.splits)

lemma load_queries_iff:
  "load_queries underflow path file_text dims = Inr rows \<longleftrightarrow> (\<exists>text. file_text = Some text \<and> csv_file underflow text dims rows)"
  by (auto simp: load_queries_def csv_file_def result_simps dimension_from_header_iff csv_rows_iff
      split: option.splits list.splits if_splits)

section \<open>The index\<close>

lemma index_add_new:
  assumes "index_ok pf ix" "index_add pf fault vid v ix = (ix', Inr ())"
  shows "index_abs ix vid = None"
proof (cases ix)
  case (Flat fx)
  then have "flat_wf fx" using assms(1) by (simp add: index_ok_def flat_inv_def)
  moreover obtain fx' where "flat_add fault vid v fx = (fx', Inr ())" using assms(2) Flat by (auto split: prod.splits)
  ultimately have "flat_abs fx vid = None" by (rule flat_add_success)
  then show ?thesis using Flat by simp
next
  case (Hnsw hx)
  then have "hnsw_wf hx" "log_contract (std_log pf)" using assms(1) by (simp_all add: index_ok_def)
  from hnsw_add_cases [OF this, where budget = fault and vid = vid and v = v] have "hnsw_id_to_node hx vid = None"
    using assms(2) Hnsw by (auto split: prod.splits)
  then show ?thesis using Hnsw by (simp add: hnsw_abs_def)
qed

definition holds_rows :: "(vector_id \<times> f32 list) list \<Rightarrow> vector_index \<Rightarrow> bool" where
  "holds_rows rows ix \<longleftrightarrow> distinct (map fst rows) \<and> dom (index_abs ix) = fst ` set rows
     \<and> (\<forall>(vid, v)\<in>set rows. \<exists>r. normalize_l2 v = Inr r \<and> index_abs ix vid = Some r)"

lemma holds_rows_add:
  assumes "holds_rows seen ix" "vid \<notin> fst ` set seen" "normalize_l2 v = Inr r" "index_abs ix' = (index_abs ix)(vid \<mapsto> r)"
  shows "holds_rows (seen @ [(vid, v)]) ix'"
proof -
  have "index_abs ix' i = index_abs ix i" if "(i, w) \<in> set seen" for i w
  proof -
    have "i \<noteq> vid" using that assms(2) by force
    then show ?thesis by (simp add: assms(4))
  qed
  then have "\<exists>r. normalize_l2 w = Inr r \<and> index_abs ix' i = Some r" if "(i, w) \<in> set seen" for i w
    using that assms(1) by (fastforce simp: holds_rows_def)
  then show ?thesis using assms by (auto simp: holds_rows_def)
qed

lemma add_rows_holds:
  assumes "index_ok pf ix" "add_rows pf faults n rows ix = Inr ix'"
    "holds_rows seen ix"
  shows "index_ok pf ix' \<and> index_dimension ix' = index_dimension ix \<and> index_kernel ix' = index_kernel ix
    \<and> holds_rows (seen @ rows) ix'"
  using assms
proof (induction pf faults n rows ix arbitrary: seen rule: add_rows.induct)
  case (2 pf faults n vid v rest ix)
  obtain ix1 where add: "index_add pf (faults n) vid v ix = (ix1, Inr ())" "add_rows pf faults (Suc n) rest ix1 = Inr ix'"
    using 2(3) by (auto simp: result_simps split: prod.splits)
  obtain r where ix1: "index_ok pf ix1" "index_dimension ix1 = index_dimension ix" "index_kernel ix1 = index_kernel ix"
      "normalize_l2 v = Inr r" "index_abs ix1 = (index_abs ix)(vid \<mapsto> r)"
    using any_index.add_stores [OF 2(2) add(1)] by blast
  have new: "vid \<notin> fst ` set seen" using index_add_new [OF 2(2) add(1)] 2(4) by (auto simp: holds_rows_def)
  have "holds_rows (seen @ [(vid, v)]) ix1"
    by (rule holds_rows_add [OF 2(4) new ix1(4,5)])
  from 2(1) [OF add(1) [symmetric] refl ix1(1) add(2) this] show ?case using ix1(2,3) by simp
qed simp

lemma create_index_fresh:
  assumes "create_index pf args kern dims = Inr ix" "dims < score_dimension kern" "log_contract (std_log pf)"
  shows "index_ok pf ix \<and> index_dimension ix = dims \<and> index_kernel ix = kern \<and> holds_rows [] ix"
proof (cases "length args = 11")
  case True
  obtain cfg hx where "hnsw_create (has_avx2 pf) cfg = Inr hx" "cfg_dimension cfg = dims" "cfg_kernel cfg = kern" "ix = Hnsw hx"
    using assms(1) True by (auto simp: create_index_def result_simps split: if_splits)
  then show ?thesis
    using hnsw_create_wf [of "has_avx2 pf" cfg hx] assms(2,3) by (simp add: index_ok_def holds_rows_def)
next
  case False
  obtain fx where fx: "flat_create dims kern = Inr fx" "ix = Flat fx"
    using assms(1) False by (auto simp: create_index_def result_simps)
  then have "flat_inv fx" "flat_abs fx = Map.empty" "flat_dimension fx = dims" "flat_kernel fx = kern"
    using flat_create_inv [OF fx(1) assms(2)] by (auto simp: flat_create_def flat_abs_def split: if_splits)
  then show ?thesis using fx(2) assms(3) by (simp add: index_ok_def holds_rows_def)
qed

lemma runner_kernel_runs: "runner_kernel pf args = Inr kern \<Longrightarrow> runs_on (has_avx2 pf) kern"
  by (auto simp: runner_kernel_def parse_kernel_def runs_on_def split: if_splits)

lemma prepare_run_holds:
  assumes "prepare_run pf env args = Inr (ix, queries, k)" "log_contract (std_log pf)"
    "\<forall>vectors_text dims rows. csv_texts env (args ! 0) = Some vectors_text \<and> csv_file (range_errors env) vectors_text dims rows
       \<longrightarrow> dims < 2 ^ 24"
  shows "\<exists>vectors_text queries_text rows.
      csv_texts env (args ! 0) = Some vectors_text \<and> csv_file (range_errors env) vectors_text (index_dimension ix) rows
    \<and> holds_rows rows ix \<and> index_ok pf ix \<and> runs_on (has_avx2 pf) (index_kernel ix)
    \<and> csv_texts env (args ! 1) = Some queries_text \<and> csv_file (range_errors env) queries_text (index_dimension ix) queries
    \<and> parse_k (args ! 2) = Inr k"
proof -
  obtain kern dims rows ix0 where run: "runner_kernel pf args = Inr kern"
      "load_vectors (range_errors env) (args ! 0) (csv_texts env (args ! 0)) = Inr (dims, rows)"
      "create_index pf args kern dims = Inr ix0" "add_rows pf (insert_faults env) 0 rows ix0 = Inr ix"
      "load_queries (range_errors env) (args ! 1) (csv_texts env (args ! 1)) (index_dimension ix) = Inr queries"
      "parse_k (args ! 2) = Inr k"
    using assms(1) by (auto simp: prepare_run_def result_simps)
  have "dims < 2 ^ 24" using assms(3) run(2) by (auto simp: load_vectors_iff)
  then have "dims < score_dimension kern" by (simp add: score_dimension_def)
  from create_index_fresh [OF run(3) this assms(2)] add_rows_holds [OF _ run(4), of "[]"]
  have "index_ok pf ix \<and> index_dimension ix = dims \<and> index_kernel ix = kern \<and> holds_rows rows ix" by simp
  then show ?thesis
    using run(1,2,5,6) runner_kernel_runs by (auto simp: load_vectors_iff load_queries_iff)
qed

section \<open>The answers\<close>

text \<open>What the results of a query are: ranked, distinct, with their true scores; for the exact index
  nothing that is left out ranks before them.\<close>

definition answers :: "vector_index \<Rightarrow> nat \<Rightarrow> f32 list \<Rightarrow> search_result list \<Rightarrow> bool" where
  "answers ix k query rs \<longleftrightarrow> (\<exists>q. normalize_l2 query = Inr q
     \<and> sorted_wrt is_better rs \<and> distinct (map result_id rs) \<and> length rs \<le> k
     \<and> (\<forall>r\<in>set rs. f32_is_finite (result_score r) \<and> (\<exists>v. index_abs ix (result_id r) = Some v
          \<and> result_score r = raw_dot_product (index_kernel ix) q v))
     \<and> (\<forall>fx. ix = Flat fx \<longrightarrow> length rs = min k (flat_size fx)
          \<and> (\<forall>r\<in>set rs. \<forall>vid v. flat_abs fx vid = Some v \<and> vid \<notin> result_id ` set rs \<longrightarrow>
               is_better r \<lparr>result_id = vid, result_score = raw_dot_product (flat_kernel fx) q v\<rparr>)))"

lemma search_args:
  assumes "index_search pf ix query k default_context env = Inr rs" "k \<noteq> 0"
  shows "length query = index_dimension ix \<and> (\<exists>q. normalize_l2 query = Inr q)"
proof (cases ix)
  case (Flat fx)
  then show ?thesis using assms by (auto simp: flat_search_def result_simps split: if_splits)
next
  case (Hnsw hx)
  then show ?thesis using assms hnsw_search_args(2,3) [of hx query k default_context env rs] by simp
qed

lemma stored_unit:
  assumes "index_ok pf ix" "index_abs ix vid = Some v"
  shows "unit_components v"
proof (cases ix)
  case (Flat fx)
  then have "unit_components (flat_vectors fx)" "\<exists>i. v = row_of (flat_dimension fx) (flat_vectors fx) i"
    using assms by (auto simp: index_ok_def flat_inv_def flat_abs_def)
  then show ?thesis using unit_components_subset [OF _ set_row_of] by blast
next
  case (Hnsw hx)
  then have "unit_components (hnsw_vectors hx)" "\<exists>i. v = row_of (cfg_dimension (hnsw_config hx)) (hnsw_vectors hx) i"
    using assms by (auto simp: index_ok_def hnsw_wf_def scores_ok_def hnsw_abs_def split: option.splits if_splits)
  then show ?thesis using unit_components_subset [OF _ set_row_of] by blast
qed

lemma dimension_bound: "index_ok pf ix \<Longrightarrow> index_dimension ix < score_dimension (index_kernel ix)"
  by (cases ix) (simp_all add: index_ok_def flat_inv_def hnsw_wf_def scores_ok_def)

lemma search_answers:
  assumes "index_ok pf ix" "runs_on (has_avx2 pf) (index_kernel ix)" "k \<noteq> 0"
    and res: "index_search_default pf ix query k env = Inr rs"
  shows "answers ix k query rs"
proof -
  note search = res [unfolded index_search_context]
  obtain q where q: "normalize_l2 query = Inr q" "length query = index_dimension ix"
    using search_args [OF search assms(3)] by blast
  note results = any_index.search_results [OF assms(1,2) search]
  have bound: "index_dimension ix < score_dimension (index_kernel ix)" by (rule dimension_bound [OF assms(1)])
  then have "unit_components q" "length q < score_dimension (index_kernel ix)"
    using normalize_l2_unit_components [OF q(1)] score_dimension_le [of "index_kernel ix"] q
    by (simp_all add: length_normalize_l2)
  then have finite: "f32_is_finite (raw_dot_product (index_kernel ix) q v)" if "index_abs ix vid = Some v" for vid v
    using raw_dot_product_finite stored_unit [OF assms(1) that] by blast
  have exact: "length rs = min k (flat_size fx) \<and> (\<forall>r\<in>set rs. \<forall>vid v. flat_abs fx vid = Some v \<and> vid \<notin> result_id ` set rs \<longrightarrow>
      is_better r \<lparr>result_id = vid, result_score = raw_dot_product (flat_kernel fx) q v\<rparr>)" if ix: "ix = Flat fx" for fx
  proof -
    have inv: "flat_inv fx" "flat_wf fx" using assms(1) ix by (simp_all add: index_ok_def flat_inv_def)
    have scored: "flat_scored fx (flat_kernel fx) q" using flat_inv_scored [OF inv(1) q(1)] q(2) ix by simp
    have "rs = flat_top_k fx (flat_kernel fx) q k"
      using flat_search_outcome [OF inv(2), of query "has_avx2 pf" k default_context env rs] search ix assms(3) scored q(1) by auto
    then show ?thesis using flat_top_k_facts(3,5) [OF inv(2) scored, where k = k] by blast
  qed
  show ?thesis
    unfolding answers_def using results finite exact q(1) by (intro exI [of _ q]) fastforce
qed

section \<open>The output\<close>

definition unlines :: "string list \<Rightarrow> string" where
  "unlines lines = concat (map (\<lambda>line. line @ [newline]) lines)"

definition query_lines :: "u64 \<Rightarrow> search_result list \<Rightarrow> string list" where
  "query_lines query_id rs = map (\<lambda>(rank, r). result_line query_id rank r) (enumerate 0 rs)"

definition all_lines :: "(u64 \<times> f32 list) list \<Rightarrow> search_result list list \<Rightarrow> string list" where
  "all_lines queries rss = ''query_id,rank,vector_id,score'' # concat (map2 (\<lambda>(query_id, query) rs. query_lines query_id rs) queries rss)"

lemma write_results_Inr:
  "write_results pf ix k queries = (text, Inr ()) \<Longrightarrow>
     \<exists>rss. list_all2 (\<lambda>(query_id, query) rs. index_search_default pf ix query k unobserved = Inr rs) queries rss
       \<and> text = unlines (concat (map2 (\<lambda>(query_id, query) rs. query_lines query_id rs) queries rss))"
proof (induction queries arbitrary: "text")
  case Nil
  then show ?case by (simp add: unlines_def)
next
  case (Cons p queries)
  obtain query_id query where p: "p = (query_id, query)" by fastforce
  obtain rs rest where step: "index_search_default pf ix query k unobserved = Inr rs"
      "write_results pf ix k queries = (rest, Inr ())" "text = result_lines query_id rs @ rest"
    using Cons.prems unfolding p by (auto split: sum.splits prod.splits)
  obtain rss where rss: "list_all2 (\<lambda>(query_id, query) rs. index_search_default pf ix query k unobserved = Inr rs) queries rss"
      "rest = unlines (concat (map2 (\<lambda>(query_id, query) rs. query_lines query_id rs) queries rss))"
    using Cons.IH [OF step(2)] by blast
  have "result_lines query_id rs = unlines (query_lines query_id rs)"
    by (simp add: result_lines_def unlines_def query_lines_def comp_def case_prod_unfold)
  then show ?case
    using step(1,3) rss p by (intro exI [of _ "rs # rss"]) (simp add: unlines_def)
qed

lemma validate_main_Inr:
  assumes "validate_main pf env args = (got, 0, err)"
  shows "\<exists>ix queries k rss. prepare_run pf env args = Inr (ix, queries, k)
    \<and> list_all2 (\<lambda>(query_id, query) rs. index_search_default pf ix query k unobserved = Inr rs) queries rss
    \<and> got = Some (take (results_capacity env) (unlines (all_lines queries rss)))"
proof -
  obtain ix queries k "text" where run: "prepare_run pf env args = Inr (ix, queries, k)"
      "write_results pf ix k queries = (text, Inr ())" "got = Some (take (results_capacity env) (results_header @ text))"
    using assms by (auto simp: validate_main_def validate_run_def split: if_splits sum.splits prod.splits)
  then show ?thesis
    using write_results_Inr [OF run(2)] by (fastforce simp: all_lines_def results_header_def unlines_def)
qed

lemma parse_k_positive: "parse_k text = Inr k \<Longrightarrow> 0 < k \<and> k < 2 ^ 64"
  using unsigned_less [where 'b = 64 and 'a = nat] by (auto simp: parse_k_def unat_gt_0 split: option.splits if_splits)

lemma run_answers:
  assumes "validate_main pf env args = (got, 0, err)" "log_contract (std_log pf)"
    "\<forall>vectors_text dims rows. csv_texts env (args ! 0) = Some vectors_text \<and> csv_file (range_errors env) vectors_text dims rows
       \<longrightarrow> dims < 2 ^ 24"
  shows "\<exists>vectors_text queries_text rows ix queries k rss.
      csv_texts env (args ! 0) = Some vectors_text \<and> csv_file (range_errors env) vectors_text (index_dimension ix) rows
    \<and> holds_rows rows ix \<and> csv_texts env (args ! 1) = Some queries_text
    \<and> csv_file (range_errors env) queries_text (index_dimension ix) queries
    \<and> parse_k (args ! 2) = Inr k \<and> list_all2 (\<lambda>(query_id, query) rs. answers ix k query rs) queries rss
    \<and> got = Some (take (results_capacity env) (unlines (all_lines queries rss)))"
proof -
  obtain ix queries k rss where run: "prepare_run pf env args = Inr (ix, queries, k)"
      "list_all2 (\<lambda>(query_id, query) rs. index_search_default pf ix query k unobserved = Inr rs) queries rss"
      "got = Some (take (results_capacity env) (unlines (all_lines queries rss)))"
    using validate_main_Inr [OF assms(1)] by blast
  obtain vectors_text queries_text rows where prep:
      "csv_texts env (args ! 0) = Some vectors_text" "csv_file (range_errors env) vectors_text (index_dimension ix) rows"
      "holds_rows rows ix" "index_ok pf ix" "runs_on (has_avx2 pf) (index_kernel ix)"
      "csv_texts env (args ! 1) = Some queries_text" "csv_file (range_errors env) queries_text (index_dimension ix) queries"
      "parse_k (args ! 2) = Inr k"
    using prepare_run_holds [OF run(1) assms(2,3)] by blast
  have "k \<noteq> 0" using parse_k_positive [OF prep(8)] by simp
  then have "list_all2 (\<lambda>(query_id, query) rs. answers ix k query rs) queries rss"
    using run(2) search_answers [OF prep(4,5)] by (auto elim!: list_all2_mono)
  then show ?thesis using prep run(3) by blast
qed

section \<open>The lines read back\<close>

definition all_entries :: "(u64 \<times> f32 list) list \<Rightarrow> search_result list list \<Rightarrow> (u64 \<times> nat \<times> search_result) list" where
  "all_entries queries rss =
     concat (map2 (\<lambda>(query_id, query) rs. map (\<lambda>(rank, r). (query_id, rank, r)) (enumerate 0 rs)) queries rss)"

definition line_reads :: "(string \<Rightarrow> bool) \<Rightarrow> string \<Rightarrow> u64 \<times> nat \<times> search_result \<Rightarrow> bool" where
  "line_reads underflow line entry \<longleftrightarrow> (case entry of (query_id, rank, r) \<Rightarrow>
     \<exists>a b c d. split_csv_row line = [a, b, c, d]
       \<and> csv_id a = Inr query_id \<and> csv_id b = Inr (of_nat rank) \<and> csv_id c = Inr (result_id r)
       \<and> (snd (unpack32 (result_score r)) = 0 \<or> hidden_bit binary32 \<le> snd (unpack32 (result_score r)) \<or> \<not> underflow d
            \<longrightarrow> csv_float underflow d = Inr (result_score r)))"

lemma get_lines_unlines: "\<forall>line\<in>set lines. newline \<notin> set line \<Longrightarrow> get_lines (unlines lines) = lines"
proof (induction lines)
  case Nil
  then show ?case by (simp add: unlines_def get_lines.simps [of "[]"])
next
  case (Cons line lines)
  have "c \<noteq> CHR 0x0A" if "c \<in> set line" for c using Cons.prems that by (auto simp: newline_def)
  then have "takeWhile (\<lambda>c. c \<noteq> CHR 0x0A) (line @ newline # rest) = line"
    "dropWhile (\<lambda>c. c \<noteq> CHR 0x0A) (line @ newline # rest) = newline # rest" for rest
    by (simp_all add: takeWhile_append2 dropWhile_append2 newline_def)
  moreover have "unlines (line # lines) = line @ newline # unlines lines" by (simp add: unlines_def)
  ultimately show ?case using Cons by (simp add: get_lines.simps [of "line @ newline # unlines lines"])
qed

lemma all_lines_entries:
  "all_lines queries rss = ''query_id,rank,vector_id,score'' # map (\<lambda>(query_id, rank, r). result_line query_id rank r) (all_entries queries rss)"
  by (simp add: all_lines_def all_entries_def query_lines_def map_concat comp_def case_prod_unfold)

lemma plain_chars:
  "number_char c \<Longrightarrow> c \<noteq> comma \<and> c \<noteq> newline" "decimal_digit c \<Longrightarrow> number_char c"
  by (auto simp: number_char_def decimal_digit_def comma_def newline_def)

lemma result_line_split:
  assumes "f32_is_finite (result_score r)"
  shows "split_csv_row (result_line query_id rank r)
      = [decimal (unat query_id), decimal rank, decimal (unat (result_id r)), show_f32 (result_score r)]"
    "newline \<notin> set (result_line query_id rank r)"
proof -
  have clean: "comma \<notin> set (decimal n)" "newline \<notin> set (decimal n)" for n
    using plain_chars digits_number_chars by blast+
  moreover have score: "comma \<notin> set (show_f32 (result_score r))" "newline \<notin> set (show_f32 (result_score r))"
    using show_f32_chars [OF assms] plain_chars by blast+
  ultimately show "split_csv_row (result_line query_id rank r)
      = [decimal (unat query_id), decimal rank, decimal (unat (result_id r)), show_f32 (result_score r)]"
    by (simp add: result_line_def split_comma split_no_comma)
  show "newline \<notin> set (result_line query_id rank r)"
    using clean(2) score(2) by (auto simp: result_line_def newline_def comma_def)
qed

lemma csv_id_decimal: "csv_id (decimal (unat n)) = Inr n"
  by (simp add: csv_id_def whole_u64_decimal)

lemma result_line_reads:
  assumes "f32_is_finite (result_score r)" "rank < 2 ^ 64"
  shows "line_reads underflow (result_line query_id rank r) (query_id, rank, r)"
proof -
  have "unat (of_nat rank :: u64) = rank" using assms(2) by (rule unat_of_nat_u64)
  then have "csv_id (decimal rank) = Inr (of_nat rank)" using csv_id_decimal [of "of_nat rank"] by simp
  then show ?thesis
    using stof_show_f32 [OF assms(1), of underflow]
    by (simp add: line_reads_def result_line_split(1) [OF assms(1)] csv_id_decimal csv_float_iff)
qed

lemma entry_facts:
  assumes "list_all2 (\<lambda>(query_id, query) rs. answers ix k query rs) queries rss" "(query_id, rank, r) \<in> set (all_entries queries rss)"
  shows "f32_is_finite (result_score r) \<and> rank < k"
proof -
  obtain query rs where "answers ix k query rs" "(rank, r) \<in> set (enumerate 0 rs)"
    using assms by (fastforce simp: all_entries_def list_all2_iff case_prod_unfold)
  then show ?thesis by (auto simp: answers_def in_set_enumerate_eq)
qed

lemma output_reads_back:
  assumes "list_all2 (\<lambda>(query_id, query) rs. answers ix k query rs) queries rss" "k < 2 ^ 64"
  shows "list_all2 (line_reads underflow) (tl (get_lines (unlines (all_lines queries rss)))) (all_entries queries rss)"
proof -
  note entry = entry_facts [OF assms(1)]
  have "newline \<notin> set line" if "line \<in> set (all_lines queries rss)" for line
    using that result_line_split(2) entry by (auto simp: all_lines_entries newline_def)
  then have "get_lines (unlines (all_lines queries rss)) = all_lines queries rss" by (intro get_lines_unlines) blast
  moreover have "line_reads underflow (result_line query_id rank r) (query_id, rank, r)"
    if "(query_id, rank, r) \<in> set (all_entries queries rss)" for query_id rank r
    using entry [OF that] assms(2) by (intro result_line_reads) simp_all
  ultimately show ?thesis by (auto simp: all_lines_entries list_all2_map1 intro!: list.rel_refl_strong)
qed

section \<open>The properties\<close>




section \<open>A run\<close>

definition sample_csv :: "string \<Rightarrow> string" where
  "sample_csv number = unlines [''id,x'', number @ '',1'']"

definition sample_runner_env :: runner_env where
  "sample_runner_env = \<lparr>csv_texts = [''vectors.csv'' \<mapsto> sample_csv ''7'', ''queries.csv'' \<mapsto> sample_csv ''5''],
     results_open = True, results_capacity = 1000, insert_faults = (\<lambda>_. None), range_errors = (\<lambda>_. True)\<rparr>"

definition sample_runner_args :: "string list" where
  "sample_runner_args = [''vectors.csv'', ''queries.csv'', ''1'', ''results.csv'']"

lemma sample_stof: "stof (\<lambda>_. True) ''1'' = Inr (0x3F800000, 1)"
proof -
  have "decimal_body ''1'' = Some (0x3F800000, True, [])"
    using decimal_body_text [of "''1''" "[]" "[]" 0]
    by (simp add: exponent_part_def decimal_digit_def number_value_def digit_value_def decimal_magnitude_def fp_eval)
  from stof_signed [OF _ _ this, of "''1''" False "\<lambda>_. True"] show ?thesis
    by (simp add: decimal_digit_def number_char_def pack32_def)
qed

lemma sample_csv_file:
  assumes "whole_u64 number = Some n" "newline \<notin> set number" "comma \<notin> set number"
  shows "csv_file (\<lambda>_. True) (sample_csv number) 1 [(n, [0x3F800000])]"
proof -
  have lines: "get_lines (sample_csv number) = [''id,x'', number @ '',1'']"
    using assms(2) unfolding sample_csv_def by (intro get_lines_unlines) (auto simp: newline_def)
  have "row_text (\<lambda>_. True) 1 (number @ '',1'') (n, [0x3F800000])"
    unfolding row_text_def
    by (rule exI [of _ number], rule exI [of _ "[''1'']"])
      (use assms sample_stof in \<open>simp add: csv_columns_def comma_def\<close>)
  then show ?thesis
    unfolding csv_file_def lines by (rule_tac exI [of _ "''id,x''"]) (simp add: comma_def)
qed

lemma sample_numbers: "whole_u64 ''7'' = Some 7" "whole_u64 ''5'' = Some 5" "whole_u64 ''1'' = Some 1"
  by (simp_all add: whole_u64_iff decimal_digit_def number_value_def digit_value_def)

lemma sample_prepared:
  "prepare_run sample_platform sample_runner_env sample_runner_args = Inr (Flat small_index, [(5, [0x3F800000])], 1)"
proof -
  have files: "csv_file (\<lambda>_. True) (sample_csv ''7'') 1 [(7, [0x3F800000])]" "csv_file (\<lambda>_. True) (sample_csv ''5'') 1 [(5, [0x3F800000])]"
    by (rule sample_csv_file; simp add: sample_numbers newline_def comma_def)+
  have "load_vectors (\<lambda>_. True) ''vectors.csv'' (Some (sample_csv ''7'')) = Inr (1, [(7, [0x3F800000])])"
    "load_queries (\<lambda>_. True) ''queries.csv'' (Some (sample_csv ''5'')) 1 = Inr [(5, [0x3F800000])]"
    using files by (simp_all add: load_vectors_iff load_queries_iff)
  moreover have "normalize_l2 [0x3F800000] = Inr [0x3F800000]" by (simp add: normalize_l2_def fp_eval)
  ultimately show ?thesis
    by (simp add: prepare_run_def runner_kernel_def create_index_def sample_runner_env_def sample_runner_args_def
        flat_create_def flat_add_def flat_append_def small_index_def parse_k_def sample_numbers)
qed

lemma small_index_ok: "index_ok sample_platform (Flat small_index)"
proof -
  have "flat_wf small_index" "unit_components [0x3F800000]"
    using small_storable normalize_l2_unit_components [OF normalize_l2_one] by (simp_all add: flat_storable_def)
  then show ?thesis
    using coarse_log_contract by (simp add: index_ok_def flat_inv_def sample_platform_def small_index_def score_dimension_def)
qed

lemma sample_validates: "\<exists>got. validate_main sample_platform sample_runner_env sample_runner_args = (got, 0, [])"
proof -
  have "\<exists>rs. index_search sample_platform (Flat small_index) [0x3F800000] 1 default_context unobserved = Inr rs"
  proof (rule any_index.search_valid [OF small_index_ok])
    show "normalize_l2 [0x3F800000] = Inr [0x3F800000]" by (simp add: normalize_l2_def fp_eval)
    show "check_interval default_context \<noteq> 0" by (simp add: default_context_def)
  qed (simp_all add: runs_on_def small_index_def)
  then obtain rs where "index_search_default sample_platform (Flat small_index) [0x3F800000] 1 unobserved = Inr rs"
    unfolding index_search_context by blast
  then have "write_results sample_platform (Flat small_index) 1 [(5, [0x3F800000])] = (result_lines 5 rs, Inr ())"
    by (simp del: index_search_default.simps)
  moreover have "results_open sample_runner_env" "length sample_runner_args = 4"
    by (simp_all add: sample_runner_env_def sample_runner_args_def)
  ultimately show ?thesis by (simp add: validate_main_def validate_run_def sample_prepared)
qed


end
