(* ===== verification/Spec2Isabelle.thy ===== *)
theory Spec2Isabelle
  imports Flat_Index_Io Index_Agreement Hnsw_Snapshot_Theorems Search_Executor_Theorems Batch_Searcher_Theorems
    Snapshot_Publication_Theorems Hnsw_Publish Build_Flat_Index_Theorems Vector_Search_Service_Theorems Server_Theorems
    Rebuild_Hnsw Validate_Recall_Theorems
begin

text \<open>
  A model of fast-vector, a vector search engine in C++20, and the theorems that make it correct.
  Paths are relative to the repository.

  The program. A \<open>VectorIndex\<close> (include/fast_vector/vector_index.h) stores normalised float vectors under
  64-bit IDs and answers the \<open>k\<close> nearest by cosine similarity; it is exact (\<open>FlatIndex\<close>) or a
  hierarchical graph (\<open>HnswIndex\<close>). Both are saved to and loaded from checksummed files. A
  \<open>VectorStore\<close> makes one index safe to share: writable behind a reader-writer lock, or read-only with
  immutable snapshots that are exchanged atomically. A \<open>SearchExecutor\<close> admits searches to a bounded
  queue with deadlines and cancellation; \<open>BatchSearcher\<close> spreads the queries of a batch over a pool.
  \<open>SnapshotPublication\<close> prepares a verified snapshot beside the one that is served and activates it.
  \<open>VectorSearchService\<close> is the gRPC surface over store, executor, publication and logger, and
  apps/server.cpp the process around it. The tools build an index file from JSON lines, rebuild one
  without its tombstones, and write search results for a comparison with a reference.

  How code becomes definitions. Pure functions are HOL functions under the names of the source; a
  class is a record or a datatype, a method a function from the state to the state and a result.
  Exceptions are values: every fallible operation returns \<open>'a result\<close>, the sum of \<open>cpp_error\<close> (one
  constructor per class of exception, and \<open>Undefined_behaviour\<close> for an access out of range) and the
  value. 32- and 64-bit integers keep their width wherever they can wrap or are stored; sizes of
  containers are natural numbers. \<open>float\<close> and \<open>double\<close> are IEEE 754 bit patterns with the operations
  of Ieee754, rounded to nearest. An allocation that fails is an argument: the step at which it
  does. Concurrent code is a step relation whose steps are the critical sections and the actions on
  shared state between them; runs are its reachable states, under every interleaving. A file is its
  list of bytes, and what system calls do is the environment of a call.

  Theories, from the bottom.
  \<^item> Prelude: errors, results and sequencing, with the case and inversion rules all proofs rest on.
  \<^item> Ieee754, Ieee754_Bounds, Score_Bounds: floating point, the real values of its operations, and that no
    score is ever a NaN. Char_Conv: decimal text to integers and floats (\<open>std::from_chars\<close>). Error_Text:
    \<open>what()\<close> of the exceptions.
  \<^item> Distance (src/distance.cpp, src/distance_auto.cpp, src/distance_avx2.cpp): normalisation and the three
    dot products. Search_Context (include/fast_vector/search_context.h): deadlines and cancellation.
  \<^item> Ranking: \<open>std::priority_queue\<close> and the bounded selection of the best results, over the interface
    locale \<open>ranking\<close>, which both indexes interpret on their comparisons.
  \<^item> Flat_Index, Flat_Theorems (src/flat_index.cpp): the exact index, its abstraction \<open>flat_abs\<close> to a map,
    its invariant, insertion and deletion as map updates, and exact search.
  \<^item> Mersenne, Random_Level: the generator and the level of a new node. Hnsw_Index, Hnsw_Insert
    (src/hnsw_index.cpp, include/fast_vector/hnsw_index.h): state, search and transactional insertion of
    the approximate index. Hnsw_Graph states the invariant; Hnsw_Search, Hnsw_Invariant, Hnsw_Correct and
    Hnsw_Theorems show that the operations keep it, that searches are sound and terminate, that
    insertions are atomic and refine a map, and that rebuilding keeps the live vectors.
    Index_Agreement: a wide enough search on a connected graph equals the exact one.
  \<^item> Byte_Codec (locale \<open>codec\<close>, interpreted for the three word sizes), Snapshot_Rows, Flat_Index_Io
    (src/flat_index_io.cpp), and Rng_Text, Hnsw_Index_Io, Hnsw_Header, Hnsw_Snapshot, Hnsw_Load, Hnsw_Save,
    Hnsw_Snapshot_Theorems (src/hnsw_index_io.cpp): the two formats. A load succeeds exactly on the
    files that describe the loaded index; damage is detected; saving reports every failure.
  \<^item> File_System, Hnsw_Publish (src/hnsw_index_publish.cpp): a file system that can crash, and durable,
    atomic publication on it.
  \<^item> Vector_Index: the interface as the locale \<open>index_contract\<close>, interpreted on both indexes and on their sum.
    Vector_Store, Vector_Store_Theorems (src/vector_store.cpp): the store over any index.
  \<^item> Search_Executor, Search_Executor_Theorems, Executor_Answers (src/search_executor.cpp) and Batch_Searcher,
    Batch_Searcher_Theorems (src/batch_searcher.cpp): the two thread pools, their accounting, progress,
    and what a caller gets.
  \<^item> Snapshot_Publication, Snapshot_Publication_Theorems (service/snapshot_publication.cpp): manifests,
    verified loads, and the state machine of preparation and activation.
  \<^item> Structured_Logger (service/structured_logger.cpp): one JSON line per record.
  \<^item> Vector_Search_Service, Vector_Search_Service_Runs, Vector_Search_Service_Theorems
    (service/vector_search_service.cpp): the handlers as threads; every run is a run of the executor
    and of the publication on the one store they share.
  \<^item> Server_Config, Server, Server_Theorems (apps/server.cpp): the command line, startup, the monitor thread
    with its reloads, and shutdown, on top of the runs of the service.
  \<^item> Vector_Jsonl, Vector_Jsonl_Theorems (tools/vector_jsonl.cpp), Build_Flat_Index, Build_Flat_Index_Theorems
    (tools/build_flat_index.cpp) and Rebuild_Hnsw (tools/rebuild_hnsw_index.cpp): the command line
    tools, from the arguments to the state of the disk.
  \<^item> Float_Text, Float_Text_Theorems: floats as text, read by \<open>std::stof\<close> and written with nine digits, and that
    nothing is lost on the way. Validate_Recall, Validate_Recall_Theorems (tools/validate_recall.cpp): the
    runner that answers the queries of a CSV file.

  How the layers rest on one another. The service's runs project to runs of the executor and of the
  publication (\<open>service_refines_parts\<close>), the server's to runs of the service (\<open>server_runs_service\<close>), so
  that the invariants of the parts hold in the running process. The store is proved against
  \<open>index_contract\<close> only; the interpretations carry its theorems to both indexes.

  Bounds. No function of the development takes fuel: the loops that are not structural (the best-first
  search of a layer, the greedy descent, the loops over queues and texts) are functions with a
  termination proof. Two hypotheses recur. \<open>score_dimension\<close>: vectors have fewer than 2^53 components
  for the scalar kernel and 2^24 for the others, far beyond what memory holds; within it no score
  overflows. \<open>log_contract\<close>: on the arguments the level computation uses, the C library's logarithm
  has the range and sign its documentation gives; \<open>coarse_log\<close> is a function that satisfies it.

  What is a parameter. The logarithm and the presence of AVX2 (\<open>platform\<close>); serialisation and parsing of
  the manifest by protobuf and the SHA-256 digest of OpenSSL (\<open>externals\<close>, nothing is assumed of them
  where no hypothesis says so); clocks, cancellation, allocation failures, system calls.

  Not modelled. gRPC itself and the generated protobuf code (calls start, are cancelled and have their
  streams read as the environment decides); the memory model below atomic steps (the code's locks
  and atomics make the steps); moves, copies and destructors beyond their effect on the state; the
  reports of sizes, times and memory that the tools print; the demo (apps/demo.cpp: three calls and output), the benchmarks
  (timing programs), the tests, the Python scripts and the build and deployment files.
\<close>

end
